(* ===== verification/Prelude.thy ===== *)
theory Prelude
  imports Main "HOL-Library.Word" "HOL-Library.Multiset"
begin

text \<open>
  Shared ground of the development: the C++ integer types as words of their width, the
  arithmetic of the 32-bit \<open>size_t\<close> of the STM32 target written out over \<open>nat\<close>, and the
  generic lemmas on lists and rotated indices that the component theories use.

  Conventions. A C++ array of length \<open>N\<close> is a list of length \<open>N\<close>; the component's
  invariant fixes the length, and every access of the code is shown (or assumed by that
  invariant) to be in range. A pointer that may be null is an \<open>option\<close>. A function that
  changes state takes the state and returns the new one.
\<close>

unbundle bit_operations_syntax

type_synonym u8 = "8 word"
type_synonym u16 = "16 word"
type_synonym u32 = "32 word"
type_synonym u64 = "64 word"

section \<open>The 32-bit size type\<close>

definition size_wrap :: "nat \<Rightarrow> nat" where
  "size_wrap n = n mod 2 ^ 32"

definition size_sub :: "nat \<Rightarrow> nat \<Rightarrow> nat" where
  "size_sub a b = (a + (2 ^ 32 - b mod 2 ^ 32)) mod 2 ^ 32"

lemma size_wrap_small [simp]: "n < 2 ^ 32 \<Longrightarrow> size_wrap n = n"
  by (simp add: size_wrap_def)

lemma size_sub_small [simp]:
  assumes "b \<le> a" and "a < 2 ^ 32"
  shows "size_sub a b = a - b"
proof -
  have "a + (2 ^ 32 - b mod 2 ^ 32) = (a - b) + 2 ^ 32"
    using assms by simp
  then have "size_sub a b = ((a - b) + 2 ^ 32) mod 2 ^ 32"
    by (simp only: size_sub_def)
  also have "\<dots> = (a - b) mod 2 ^ 32" by (rule mod_add_self2)
  also have "\<dots> = a - b" using assms by (intro mod_less) simp
  finally show ?thesis .
qed

lemma size_sub_underflow:
  assumes "a < b" and "b < 2 ^ 32"
  shows "size_sub a b = 2 ^ 32 - (b - a)"
proof -
  have "a + (2 ^ 32 - b mod 2 ^ 32) = 2 ^ 32 - (b - a)"
    using assms by simp
  then show ?thesis
    using assms by (simp add: size_sub_def)
qed

section \<open>Lists\<close>

lemma map_upt_shift: "map f [Suc m ..< Suc n] = map (\<lambda>i. f (Suc i)) [m ..< n]"
  by (induction n) (auto simp: not_less le_Suc_eq)

lemma map_upt_Suc_front: "m < n \<Longrightarrow> map f [m ..< n] = f m # map f [Suc m ..< n]"
  by (simp add: upt_conv_Cons)

lemma take_Suc_update: "n < length xs \<Longrightarrow> take (Suc n) (xs[n := x]) = take n xs @ [x]"
  by (simp add: take_Suc_conv_app_nth)

lemma take_append_update:
  "n < length xs \<Longrightarrow> m \<le> n \<Longrightarrow> take m (xs[n := x]) = take m xs"
  by simp

lemma ex_from_Suc:
  "(\<exists>j. i \<le> j \<and> j < i + Suc k \<and> P j) \<longleftrightarrow> P i \<or> (\<exists>j. Suc i \<le> j \<and> j < Suc i + k \<and> P j)"
  by (metis Suc_le_eq add_Suc_right add_Suc le_eq_less_or_eq less_add_Suc1 le_refl)

section \<open>Indices of a ring\<close>

text \<open>Two positions of a ring of \<open>n\<close> slots, less than \<open>n\<close> apart, are the same slot only
  if they are the same position.\<close>

lemma mod_inj_window_le:
  fixes b i j n :: nat
  assumes "i \<le> j" and "j < n" and "(b + i) mod n = (b + j) mod n"
  shows "i = j"
proof -
  have "(b + j) mod n = (b + i) mod n \<longleftrightarrow> n dvd (b + j) - (b + i)"
    by (rule mod_eq_dvd_iff_nat) (use assms(1) in simp)
  with assms(3) have "n dvd j - i" by simp
  moreover have "j - i < n" using assms(2) by simp
  ultimately have "\<not> 0 < j - i" using nat_dvd_not_less [of "j - i" n] by blast
  with assms(1) show ?thesis by simp
qed

lemma mod_inj_window:
  fixes b i j n :: nat
  assumes "i < n" and "j < n" and "(b + i) mod n = (b + j) mod n"
  shows "i = j"
  using assms mod_inj_window_le [of i j n b] mod_inj_window_le [of j i n b]
  by (cases "i \<le> j") auto

lemma mod_add_Suc_shift: "((b + 1) mod n + i) mod n = (b + Suc i) mod (n::nat)"
  by (simp add: mod_add_left_eq)

lemma unat_less32: "unat (x :: u32) < 2 ^ 32"
  by (rule order_less_le_trans [OF unsigned_less]) simp

lemma unat_of_nat32: "n < 2 ^ 32 \<Longrightarrow> unat (of_nat n :: u32) = n"
  by (simp add: unsigned_of_nat take_bit_nat_eq_self_iff)

end
