(* ===== verification/Containers.thy ===== *)
theory Containers
  imports Prelude
begin

text \<open>
  The fixed-capacity containers of \<open>Inc/C++Utilities\<close>: \<open>RingBuffer\<close>, \<open>Stack\<close> and
  \<open>StaticVector\<close>, each over its raw storage (an array and its indices), the contract they
  share as locales (a bounded store, a bounded queue, a bounded stack) and the proof that
  the three classes meet it.
\<close>

section \<open>The contract of a bounded container\<close>

locale bounded_store =
  fixes put :: "'a \<Rightarrow> 's \<Rightarrow> bool \<times> 's"
    and contents :: "'s \<Rightarrow> 'a list"
    and cap :: "'s \<Rightarrow> nat"
    and ok :: "'s \<Rightarrow> bool"
  assumes put_room: "ok s \<Longrightarrow> length (contents s) < cap s \<Longrightarrow>
      fst (put x s) \<and> ok (snd (put x s)) \<and> cap (snd (put x s)) = cap s \<and>
      contents (snd (put x s)) = contents s @ [x]"
    and put_full: "ok s \<Longrightarrow> cap s \<le> length (contents s) \<Longrightarrow> put x s = (False, s)"
    and within_cap: "ok s \<Longrightarrow> length (contents s) \<le> cap s"
begin

lemma put_ok: "ok s \<Longrightarrow> ok (snd (put x s)) \<and> cap (snd (put x s)) = cap s"
  by (cases "length (contents s) < cap s") (auto simp: put_room put_full not_less)

lemma put_accepts_iff: "ok s \<Longrightarrow> fst (put x s) \<longleftrightarrow> length (contents s) < cap s"
  by (cases "length (contents s) < cap s") (auto simp: put_room put_full not_less)

lemma put_many:
  "ok s \<Longrightarrow> ok (fold (\<lambda>x s. snd (put x s)) xs s) \<and>
     cap (fold (\<lambda>x s. snd (put x s)) xs s) = cap s \<and>
     contents (fold (\<lambda>x s. snd (put x s)) xs s) =
       contents s @ take (cap s - length (contents s)) xs"
proof (induction xs arbitrary: s)
  case Nil
  then show ?case by simp
next
  case (Cons x xs)
  show ?case
  proof (cases "length (contents s) < cap s")
    case True
    with Cons.prems have step: "ok (snd (put x s))" "cap (snd (put x s)) = cap s"
      "contents (snd (put x s)) = contents s @ [x]"
      by (auto dest: put_room)
    from True have "take (cap s - length (contents s)) (x # xs) =
        x # take (cap s - Suc (length (contents s))) xs"
      by (simp add: take_Cons' Suc_diff_Suc)
    with Cons.IH [OF step(1)] step(2,3) show ?thesis by simp
  next
    case False
    with Cons.prems Cons.IH [of s] show ?thesis by (simp add: put_full)
  qed
qed

end

locale bounded_fifo = bounded_store +
  fixes get :: "'s \<Rightarrow> bool \<times> 's"
  assumes get_some: "ok s \<Longrightarrow> contents s \<noteq> [] \<Longrightarrow>
      fst (get s) \<and> ok (snd (get s)) \<and> cap (snd (get s)) = cap s \<and>
      contents (snd (get s)) = tl (contents s)"
    and get_none: "ok s \<Longrightarrow> contents s = [] \<Longrightarrow> get s = (False, s)"
begin

lemma get_many:
  "ok s \<Longrightarrow> ok (((\<lambda>s. snd (get s)) ^^ n) s) \<and>
     contents (((\<lambda>s. snd (get s)) ^^ n) s) = drop n (contents s)"
proof (induction n)
  case 0
  then show ?case by simp
next
  case (Suc n)
  let ?t = "((\<lambda>s. snd (get s)) ^^ n) s"
  from Suc have t: "ok ?t" "contents ?t = drop n (contents s)" by auto
  show ?case
  proof (cases "contents ?t = []")
    case True
    with t show ?thesis by (simp add: get_none)
  next
    case False
    with t(1) have "ok (snd (get ?t)) \<and> contents (snd (get ?t)) = tl (contents ?t)"
      using get_some by blast
    with t(2) show ?thesis by (simp add: tl_drop drop_Suc)
  qed
qed

lemma first_in_first_out:
  assumes "ok s" and "contents s = []"
  shows "contents (((\<lambda>s. snd (get s)) ^^ n) (fold (\<lambda>x s. snd (put x s)) xs s)) =
    drop n (take (cap s) xs)"
  using put_many [OF assms(1), of xs] get_many assms(2) by simp

end

locale bounded_lifo = bounded_store +
  fixes get :: "'s \<Rightarrow> bool \<times> 's"
  assumes get_last: "ok s \<Longrightarrow> contents s \<noteq> [] \<Longrightarrow>
      fst (get s) \<and> ok (snd (get s)) \<and> cap (snd (get s)) = cap s \<and>
      contents (snd (get s)) = butlast (contents s)"
    and get_empty: "ok s \<Longrightarrow> contents s = [] \<Longrightarrow> get s = (False, s)"
begin

lemma put_get:
  assumes "ok s" and "length (contents s) < cap s"
  shows "contents (snd (get (snd (put x s)))) = contents s"
  using put_room [OF assms, of x] get_last [of "snd (put x s)"] by simp

end

section \<open>RingBuffer\<close>

record 'a ring =
  rb_buffer :: "'a list"
  rb_stored :: nat
  rb_front :: nat
  rb_back :: nat

definition rb_capacity :: "'a ring \<Rightarrow> nat" where
  "rb_capacity r = length (rb_buffer r)"

definition rb_size :: "'a ring \<Rightarrow> nat" where
  "rb_size r = rb_stored r"

definition rb_is_full :: "'a ring \<Rightarrow> bool" where
  "rb_is_full r \<longleftrightarrow> rb_size r \<ge> rb_capacity r"

definition rb_is_empty :: "'a ring \<Rightarrow> bool" where
  "rb_is_empty r \<longleftrightarrow> rb_size r = 0"

definition rb_init :: "nat \<Rightarrow> 'a \<Rightarrow> 'a ring" where
  "rb_init n d = \<lparr>rb_buffer = replicate n d, rb_stored = 0, rb_front = 0, rb_back = 0\<rparr>"

definition move_forward :: "nat \<Rightarrow> nat \<Rightarrow> nat \<Rightarrow> nat" where
  "move_forward n origin amount = size_wrap (origin + amount) mod n"

definition move_backward :: "nat \<Rightarrow> nat \<Rightarrow> nat \<Rightarrow> nat" where
  "move_backward n origin amount =
     size_sub (size_wrap (origin + size_wrap (n * size_wrap (amount div n + 1)))) amount mod n"

definition rb_push :: "'a \<Rightarrow> 'a ring \<Rightarrow> bool \<times> 'a ring" where
  "rb_push item r =
     (if rb_is_full r then (False, r)
      else (True, r\<lparr>rb_buffer := (rb_buffer r)[rb_front r := item],
                    rb_front := move_forward (rb_capacity r) (rb_front r) 1,
                    rb_stored := rb_stored r + 1\<rparr>))"

definition rb_pop :: "'a ring \<Rightarrow> bool \<times> 'a ring" where
  "rb_pop r =
     (if rb_is_empty r then (False, r)
      else (True, r\<lparr>rb_back := move_forward (rb_capacity r) (rb_back r) 1,
                    rb_stored := rb_stored r - 1\<rparr>))"

definition rb_push_pop :: "'a \<Rightarrow> 'a ring \<Rightarrow> bool \<times> 'a ring" where
  "rb_push_pop item r =
     (if rb_is_empty r then (False, r)
      else (True, r\<lparr>rb_buffer := (rb_buffer r)[rb_front r := item],
                    rb_front := move_forward (rb_capacity r) (rb_front r) 1,
                    rb_back := move_forward (rb_capacity r) (rb_back r) 1\<rparr>))"

definition rb_index :: "'a ring \<Rightarrow> nat \<Rightarrow> 'a" where
  "rb_index r index = rb_buffer r ! move_backward (rb_capacity r) (rb_front r) (size_wrap (index + 1))"

definition rb_last :: "'a ring \<Rightarrow> 'a" where
  "rb_last r = rb_buffer r ! rb_back r"

definition rb_first :: "'a ring \<Rightarrow> 'a" where
  "rb_first r = rb_buffer r ! move_backward (rb_capacity r) (rb_front r) 1"

text \<open>The abstraction: the stored items, oldest first. The invariant bounds the capacity by
  \<open>2 ^ 30\<close>, so that no index computation reaches the width of \<open>size_t\<close>.\<close>

definition rb_list :: "'a ring \<Rightarrow> 'a list" where
  "rb_list r = map (\<lambda>i. rb_buffer r ! ((rb_back r + i) mod rb_capacity r)) [0 ..< rb_stored r]"

definition rb_inv :: "'a ring \<Rightarrow> bool" where
  "rb_inv r \<longleftrightarrow> 0 < rb_capacity r \<and> rb_capacity r < 2 ^ 30 \<and> rb_stored r \<le> rb_capacity r \<and>
     rb_back r < rb_capacity r \<and> rb_front r = (rb_back r + rb_stored r) mod rb_capacity r"

lemma rb_index_slot: "rb_inv r \<Longrightarrow> (rb_back r + i) mod rb_capacity r < rb_capacity r"
  by (simp add: rb_inv_def)

lemma rb_length [simp]: "length (rb_list r) = rb_stored r"
  by (simp add: rb_list_def)

lemma rb_list_nth: "i < rb_stored r \<Longrightarrow>
    rb_list r ! i = rb_buffer r ! ((rb_back r + i) mod rb_capacity r)"
  by (simp add: rb_list_def)

lemma rb_inv_init: "0 < n \<Longrightarrow> n < 2 ^ 30 \<Longrightarrow> rb_inv (rb_init n d) \<and> rb_list (rb_init n d) = []"
  by (simp add: rb_inv_def rb_init_def rb_capacity_def rb_list_def)

lemma move_forward_eq:
  "origin < 2 ^ 31 \<Longrightarrow> amount < 2 ^ 31 \<Longrightarrow> move_forward n origin amount = (origin + amount) mod n"
  by (simp add: move_forward_def)

text \<open>The comment in \<open>move_backward\<close> claims that adding a multiple of \<open>N\<close> above the amount keeps
  the unsigned subtraction from wrapping; for amounts and capacities below \<open>2 ^ 30\<close> it does.\<close>

lemma move_backward_eq:
  assumes "0 < n" and "n < 2 ^ 30" and "origin < n" and "amount < 2 ^ 30"
  shows "move_backward n origin amount = (origin + n * (amount div n + 1) - amount) mod n"
proof -
  have le: "n * (amount div n) \<le> amount" by simp
  have gt: "amount < n * (amount div n + 1)"
    using assms(1) by (simp add: dividend_less_times_div)
  have "amount div n < 2 ^ 30"
    using div_le_dividend assms(4) by (rule le_less_trans)
  then have "amount div n + 1 < 2 ^ 32" by simp
  moreover have "n * (amount div n + 1) < 2 ^ 31"
  proof -
    have "n * (amount div n + 1) = n * (amount div n) + n" by simp
    with le assms(2,4) have "n * (amount div n + 1) < 2 ^ 30 + 2 ^ 30" by linarith
    then show ?thesis by simp
  qed
  moreover note gt
  ultimately have "size_wrap (n * size_wrap (amount div n + 1)) = n * (amount div n + 1)"
    by simp
  with \<open>n * (amount div n + 1) < 2 ^ 31\<close> show ?thesis
    using assms gt by (simp add: move_backward_def del: mult_Suc_right)
qed

lemma move_backward_small:
  assumes "0 < n" and "n < 2 ^ 30" and "origin < n" and "amount \<le> n"
  shows "move_backward n origin amount = (origin + n - amount) mod n"
proof (cases "amount = n")
  case True
  with assms move_backward_eq [of n origin amount] show ?thesis by simp
next
  case False
  with assms have "amount div n = 0" by simp
  with assms move_backward_eq [of n origin amount] show ?thesis by simp
qed

lemma rb_push_refines:
  assumes inv: "rb_inv r" and room: "rb_stored r < rb_capacity r"
  shows "fst (rb_push x r) \<and> rb_inv (snd (rb_push x r)) \<and>
    rb_capacity (snd (rb_push x r)) = rb_capacity r \<and>
    rb_list (snd (rb_push x r)) = rb_list r @ [x]"
proof -
  let ?n = "rb_capacity r"
  let ?r' = "snd (rb_push x r)"
  have front: "rb_front r = (rb_back r + rb_stored r) mod ?n" "rb_front r < ?n" "?n < 2 ^ 30"
    using inv by (auto simp: rb_inv_def)
  have eqs: "rb_buffer ?r' = (rb_buffer r)[rb_front r := x]" "rb_back ?r' = rb_back r"
      "rb_stored ?r' = Suc (rb_stored r)" "rb_front ?r' = (rb_front r + 1) mod ?n"
      "rb_capacity ?r' = ?n" "fst (rb_push x r)"
    using room front by (auto simp: rb_push_def rb_is_full_def rb_size_def rb_capacity_def move_forward_eq)
  have keep: "(rb_buffer r)[rb_front r := x] ! ((rb_back r + i) mod ?n) =
      rb_buffer r ! ((rb_back r + i) mod ?n)" if "i < rb_stored r" for i
  proof -
    have "(rb_back r + i) mod ?n \<noteq> rb_front r"
      using mod_inj_window [of i ?n "rb_stored r" "rb_back r"] that room front(1) by auto
    then show ?thesis by simp
  qed
  have "rb_list ?r' = rb_list r @ [x]"
    using front keep by (auto simp: rb_list_def eqs rb_capacity_def)
  moreover have "rb_inv ?r'"
    using inv room unfolding rb_inv_def eqs by (simp add: mod_Suc_eq)
  ultimately show ?thesis using eqs by simp
qed

lemma rb_pop_refines:
  assumes inv: "rb_inv r" and some: "0 < rb_stored r"
  shows "fst (rb_pop r) \<and> rb_inv (snd (rb_pop r)) \<and>
    rb_capacity (snd (rb_pop r)) = rb_capacity r \<and> rb_list (snd (rb_pop r)) = tl (rb_list r)"
proof -
  let ?n = "rb_capacity r"
  let ?r' = "snd (rb_pop r)"
  have n: "?n < 2 ^ 30" "rb_back r < ?n" using inv by (auto simp: rb_inv_def)
  have eqs: "rb_buffer ?r' = rb_buffer r" "rb_back ?r' = (rb_back r + 1) mod ?n"
      "rb_stored ?r' = rb_stored r - 1" "rb_front ?r' = rb_front r"
      "rb_capacity ?r' = ?n" "fst (rb_pop r)"
    using some n by (auto simp: rb_pop_def rb_is_empty_def rb_size_def rb_capacity_def move_forward_eq)
  have "rb_list ?r' = tl (rb_list r)"
  proof (rule nth_equalityI)
    show "length (rb_list ?r') = length (tl (rb_list r))" by (simp add: eqs)
    fix i assume "i < length (rb_list ?r')"
    then show "rb_list ?r' ! i = tl (rb_list r) ! i"
      by (simp add: rb_list_nth nth_tl eqs mod_add_left_eq)
  qed
  moreover have "rb_inv ?r'"
    using inv some mod_add_Suc_shift [of "rb_back r" ?n "rb_stored r - 1"]
    unfolding rb_inv_def eqs by (auto simp: mod_add_left_eq)
  ultimately show ?thesis using eqs by simp
qed

interpretation ring_fifo: bounded_fifo rb_push rb_list rb_capacity rb_inv rb_pop
proof unfold_locales
  fix s :: "'a ring" and x :: 'a
  show "rb_inv s \<Longrightarrow> length (rb_list s) < rb_capacity s \<Longrightarrow>
      fst (rb_push x s) \<and> rb_inv (snd (rb_push x s)) \<and>
      rb_capacity (snd (rb_push x s)) = rb_capacity s \<and>
      rb_list (snd (rb_push x s)) = rb_list s @ [x]"
    by (simp add: rb_push_refines)
  show "rb_inv s \<Longrightarrow> rb_capacity s \<le> length (rb_list s) \<Longrightarrow> rb_push x s = (False, s)"
    by (simp add: rb_push_def rb_is_full_def rb_size_def)
  show "rb_inv s \<Longrightarrow> length (rb_list s) \<le> rb_capacity s"
    by (simp add: rb_inv_def)
  show "rb_inv s \<Longrightarrow> rb_list s \<noteq> [] \<Longrightarrow>
      fst (rb_pop s) \<and> rb_inv (snd (rb_pop s)) \<and>
      rb_capacity (snd (rb_pop s)) = rb_capacity s \<and> rb_list (snd (rb_pop s)) = tl (rb_list s)"
    by (rule rb_pop_refines) (auto simp: rb_list_def)
  show "rb_inv s \<Longrightarrow> rb_list s = [] \<Longrightarrow> rb_pop s = (False, s)"
    using rb_length [of s] by (simp add: rb_pop_def rb_is_empty_def rb_size_def del: rb_length)
qed


lemma rb_index_newest_first:
  assumes "rb_inv r" and "i < rb_stored r"
  shows "rb_index r i = rev (rb_list r) ! i"
proof -
  let ?n = "rb_capacity r"
  have n: "0 < ?n" "?n < 2 ^ 30" "rb_front r = (rb_back r + rb_stored r) mod ?n" "Suc i \<le> ?n"
      "rb_front r < ?n" "Suc i \<le> rb_stored r"
    using assms by (auto simp: rb_inv_def)
  have "move_backward ?n (rb_front r) (Suc i) = (rb_front r + (?n - Suc i)) mod ?n"
    using n by (simp add: move_backward_small)
  also have "\<dots> = (rb_back r + rb_stored r + (?n - Suc i)) mod ?n"
    by (simp add: n(3) mod_add_left_eq)
  also have "\<dots> = (rb_back r + (rb_stored r - Suc i) + ?n) mod ?n"
    using n by (simp add: add.assoc)
  finally have "move_backward ?n (rb_front r) (Suc i) = (rb_back r + (rb_stored r - Suc i)) mod ?n"
    by simp
  moreover have "size_wrap (i + 1) = Suc i" using n by simp
  ultimately show ?thesis
    using assms n by (simp add: rb_index_def rev_nth rb_list_nth)
qed

lemma rb_ends:
  assumes "rb_inv r" and "0 < rb_stored r"
  shows "rb_last r = hd (rb_list r)" and "rb_first r = last (rb_list r)"
proof -
  have ne: "rb_list r \<noteq> []" using assms(2) by (auto simp: rb_list_def)
  then show "rb_last r = hd (rb_list r)"
    using assms by (simp add: hd_conv_nth rb_list_nth rb_last_def rb_inv_def)
  have "rb_first r = rb_index r 0" by (simp add: rb_first_def rb_index_def)
  then show "rb_first r = last (rb_list r)"
    using assms ne by (simp add: rb_index_newest_first rev_nth last_conv_nth)
qed

lemma rb_push_pop_refines:
  assumes inv: "rb_inv r" and some: "0 < rb_stored r"
  shows "fst (rb_push_pop x r) \<and> rb_inv (snd (rb_push_pop x r)) \<and>
    rb_list (snd (rb_push_pop x r)) = tl (rb_list r) @ [x]"
proof -
  let ?n = "rb_capacity r"
  let ?r' = "snd (rb_push_pop x r)"
  have n: "?n < 2 ^ 30" "rb_back r < ?n" "rb_front r < ?n" "rb_stored r \<le> ?n"
      "rb_front r = (rb_back r + rb_stored r) mod ?n"
    using inv by (auto simp: rb_inv_def)
  have eqs: "rb_buffer ?r' = (rb_buffer r)[rb_front r := x]" "rb_back ?r' = (rb_back r + 1) mod ?n"
      "rb_stored ?r' = rb_stored r" "rb_front ?r' = (rb_front r + 1) mod ?n"
      "rb_capacity ?r' = ?n" "fst (rb_push_pop x r)"
    using some n
    by (auto simp: rb_push_pop_def rb_is_empty_def rb_size_def rb_capacity_def move_forward_eq)
  have slot: "(rb_buffer r)[rb_front r := x] ! ((rb_back r + Suc i) mod ?n) =
      (if Suc i = rb_stored r then x else rb_buffer r ! ((rb_back r + Suc i) mod ?n))"
    if "i < rb_stored r" for i
  proof (cases "Suc i = rb_stored r")
    case True
    with n show ?thesis by (simp add: rb_capacity_def)
  next
    case False
    with that n(4) have "Suc i < ?n" "Suc i < rb_stored r" by auto
    have "(rb_back r + Suc i) mod ?n \<noteq> (rb_back r + rb_stored r) mod ?n"
    proof (cases "rb_stored r = ?n")
      case True
      with \<open>Suc i < ?n\<close> mod_inj_window [of "Suc i" ?n 0 "rb_back r"] show ?thesis by auto
    next
      case nfull: False
      with n(4) \<open>Suc i < ?n\<close> \<open>Suc i < rb_stored r\<close>
        mod_inj_window [of "Suc i" ?n "rb_stored r" "rb_back r"]
      show ?thesis by auto
    qed
    with False n(5) show ?thesis by simp
  qed
  have "rb_list ?r' = tl (rb_list r) @ [x]"
  proof (rule nth_equalityI)
    show "length (rb_list ?r') = length (tl (rb_list r) @ [x])" using some by (simp add: eqs)
    fix i assume "i < length (rb_list ?r')"
    then show "rb_list ?r' ! i = (tl (rb_list r) @ [x]) ! i"
      using slot [of i] some
      by (auto simp: rb_list_nth nth_tl nth_append eqs mod_add_left_eq)
  qed
  moreover have "rb_inv ?r'"
    using inv unfolding rb_inv_def eqs by (simp add: mod_add_left_eq mod_Suc_eq)
  ultimately show ?thesis using eqs by simp
qed

section \<open>Stack\<close>

record 'a stack =
  stk_data :: "'a list"
  stk_top :: nat

definition stk_init :: "nat \<Rightarrow> 'a \<Rightarrow> 'a stack" where
  "stk_init n d = \<lparr>stk_data = replicate n d, stk_top = 0\<rparr>"

definition stk_capacity :: "'a stack \<Rightarrow> nat" where
  "stk_capacity s = length (stk_data s)"

definition stk_size :: "'a stack \<Rightarrow> nat" where
  "stk_size s = stk_top s"

definition stk_empty :: "'a stack \<Rightarrow> bool" where
  "stk_empty s \<longleftrightarrow> stk_top s = 0"

definition stk_push :: "'a \<Rightarrow> 'a stack \<Rightarrow> bool \<times> 'a stack" where
  "stk_push v s =
     (if stk_top s < stk_capacity s
      then (True, s\<lparr>stk_data := (stk_data s)[stk_top s := v], stk_top := stk_top s + 1\<rparr>)
      else (False, s))"

definition stk_pop :: "'a stack \<Rightarrow> bool \<times> 'a stack" where
  "stk_pop s = (if stk_top s = 0 then (False, s) else (True, s\<lparr>stk_top := stk_top s - 1\<rparr>))"

text \<open>\<open>top\<close> returns the default value of the element type, here \<open>d\<close>, on an empty stack.\<close>

definition stk_peek :: "'a \<Rightarrow> 'a stack \<Rightarrow> 'a" where
  "stk_peek d s = (if stk_top s = 0 then d else stk_data s ! (stk_top s - 1))"

definition stk_list :: "'a stack \<Rightarrow> 'a list" where
  "stk_list s = take (stk_top s) (stk_data s)"

definition stk_inv :: "'a stack \<Rightarrow> bool" where
  "stk_inv s \<longleftrightarrow> stk_top s \<le> stk_capacity s"

lemma stk_length [simp]: "stk_inv s \<Longrightarrow> length (stk_list s) = stk_top s"
  by (simp add: stk_inv_def stk_list_def stk_capacity_def)

lemma stk_peek_last: "stk_inv s \<Longrightarrow> stk_peek d s = (if stk_list s = [] then d else last (stk_list s))"
  by (auto simp: stk_peek_def stk_list_def stk_inv_def stk_capacity_def last_conv_nth)

interpretation stack_lifo: bounded_lifo stk_push stk_list stk_capacity stk_inv stk_pop
proof unfold_locales
  fix s :: "'a stack" and x :: 'a
  show "stk_inv s \<Longrightarrow> length (stk_list s) < stk_capacity s \<Longrightarrow>
      fst (stk_push x s) \<and> stk_inv (snd (stk_push x s)) \<and>
      stk_capacity (snd (stk_push x s)) = stk_capacity s \<and>
      stk_list (snd (stk_push x s)) = stk_list s @ [x]"
    by (simp add: stk_push_def stk_inv_def stk_list_def stk_capacity_def take_Suc_update)
  show "stk_inv s \<Longrightarrow> stk_capacity s \<le> length (stk_list s) \<Longrightarrow> stk_push x s = (False, s)"
    by (simp add: stk_push_def)
  show "stk_inv s \<Longrightarrow> length (stk_list s) \<le> stk_capacity s"
    by (simp add: stk_inv_def)
  show "stk_inv s \<Longrightarrow> stk_list s \<noteq> [] \<Longrightarrow>
      fst (stk_pop s) \<and> stk_inv (snd (stk_pop s)) \<and>
      stk_capacity (snd (stk_pop s)) = stk_capacity s \<and>
      stk_list (snd (stk_pop s)) = butlast (stk_list s)"
    by (auto simp: stk_pop_def stk_inv_def stk_list_def stk_capacity_def butlast_take)
  show "stk_inv s \<Longrightarrow> stk_list s = [] \<Longrightarrow> stk_pop s = (False, s)"
    using stk_length [of s] by (simp add: stk_pop_def del: stk_length)
qed

section \<open>StaticVector\<close>

text \<open>A push on a full vector raises \<open>PANIC\<close> and leaves the vector alone: \<open>False\<close> in the
  first component stands for that panic.\<close>

record 'a svec =
  sv_data :: "'a list"
  sv_size :: nat

definition sv_init :: "nat \<Rightarrow> 'a \<Rightarrow> 'a svec" where
  "sv_init n d = \<lparr>sv_data = replicate n d, sv_size = 0\<rparr>"

definition sv_capacity :: "'a svec \<Rightarrow> nat" where
  "sv_capacity v = length (sv_data v)"

definition sv_push_back :: "'a \<Rightarrow> 'a svec \<Rightarrow> bool \<times> 'a svec" where
  "sv_push_back x v =
     (if sv_size v \<ge> sv_capacity v then (False, v)
      else (True, v\<lparr>sv_data := (sv_data v)[sv_size v := x], sv_size := sv_size v + 1\<rparr>))"

definition sv_list :: "'a svec \<Rightarrow> 'a list" where
  "sv_list v = take (sv_size v) (sv_data v)"

fun sv_contains_from :: "'a \<Rightarrow> 'a svec \<Rightarrow> nat \<Rightarrow> nat \<Rightarrow> bool" where
  "sv_contains_from x v i 0 \<longleftrightarrow> False"
| "sv_contains_from x v i (Suc k) \<longleftrightarrow>
     (if sv_data v ! i = x then True else sv_contains_from x v (Suc i) k)"

definition sv_contains :: "'a \<Rightarrow> 'a svec \<Rightarrow> bool" where
  "sv_contains x v \<longleftrightarrow> sv_contains_from x v 0 (sv_size v)"

definition sv_inv :: "'a svec \<Rightarrow> bool" where
  "sv_inv v \<longleftrightarrow> sv_size v \<le> sv_capacity v"

lemma sv_contains_from_iff:
  "sv_contains_from x v i k \<longleftrightarrow> (\<exists>j. i \<le> j \<and> j < i + k \<and> sv_data v ! j = x)"
proof (induction x v i k rule: sv_contains_from.induct)
  case (1 x v i)
  then show ?case by simp
next
  case (2 x v i k)
  then show ?case
    using ex_from_Suc [of i k "\<lambda>j. sv_data v ! j = x"] by simp
qed

lemma sv_contains_iff: "sv_inv v \<Longrightarrow> sv_contains x v \<longleftrightarrow> x \<in> set (sv_list v)"
  by (auto simp: sv_contains_def sv_contains_from_iff sv_inv_def sv_list_def sv_capacity_def
      in_set_conv_nth)

interpretation static_vector: bounded_store sv_push_back sv_list sv_capacity sv_inv
  by unfold_locales
    (auto simp: sv_push_back_def sv_inv_def sv_list_def sv_capacity_def take_Suc_update)

end
