(* ===== verification/TaskQueue.thy ===== *)
theory TaskQueue
  imports Prelude
begin

text \<open>
  The ready-time queue of \<open>Src/HALAL/Services/Time/Scheduler.cpp\<close>: the identifiers of the
  active tasks, ordered by firing time, packed as sixteen 4-bit nibbles in the 64-bit word
  \<open>sorted_task_ids_\<close>, the earliest in the low nibble. The theory holds the scheduler's state, the
  queue operations as the code computes them (shifts and masks on 32- and 64-bit words, the
  zero-nibble search, the binary search on wrapping 32-bit times), the abstraction to a list
  of identifiers, the contract of such a queue as a locale, and the proof that the packed
  word meets it.
\<close>

section \<open>State\<close>

record 'cb task =
  next_fire_us :: u32
  callback :: "'cb option"
  period_us :: u32
  task_id :: u16
  repeating :: bool

text \<open>The static data of \<open>Scheduler\<close>, the globals of \<open>Scheduler.cpp\<close> (\<open>failing_id\<close>, the \<open>last_tick\<close>
  of \<open>get_global_tick\<close>) and the timer registers the code reads or writes. \<open>irq_on\<close> is the
  enable bit of the timer's interrupt in the NVIC, \<open>egr_ug\<close> the update-generation request.\<close>

record 'cb sched =
  tasks :: "'cb task list"
  sorted_ids :: u64
  active_count :: u32
  ready_bitmap :: u32
  free_bitmap :: u32
  global_tick :: u64
  current_interval :: u32
  timeout_idx :: u16
  failing_id :: u16
  last_tick :: u64
  tim_cnt :: u32
  tim_arr :: u32
  tim_psc :: u16
  tim_cr1 :: u32
  tim_dier :: u32
  tim_sr :: u32
  egr_ug :: bool
  irq_on :: bool

definition kMaxTasks :: nat where
  "kMaxTasks = 16"

definition INVALID_ID :: nat where
  "INVALID_ID = 2 * kMaxTasks"

definition init_task :: "'cb task" where
  "init_task = \<lparr>next_fire_us = 0, callback = None, period_us = 0, task_id = 0, repeating = False\<rparr>"

definition init_sched :: "'cb sched" where
  "init_sched = \<lparr>tasks = replicate kMaxTasks init_task, sorted_ids = 0, active_count = 0,
     ready_bitmap = 0, free_bitmap = 0xFFFFFFFF, global_tick = 0, current_interval = 0,
     timeout_idx = 1, failing_id = of_nat INVALID_ID, last_tick = 0,
     tim_cnt = 0, tim_arr = 0, tim_psc = 0, tim_cr1 = 0, tim_dier = 0, tim_sr = 0,
     egr_ug = False, irq_on = True\<rparr>"

definition SchedLock :: "'cb sched \<Rightarrow> 'cb sched" where
  "SchedLock s = s\<lparr>irq_on := False\<rparr>"

definition SchedUnlock :: "'cb sched \<Rightarrow> 'cb sched" where
  "SchedUnlock s = s\<lparr>irq_on := True\<rparr>"

section \<open>Operations on the packed word\<close>

definition get_at :: "'cb sched \<Rightarrow> u8 \<Rightarrow> u8" where
  "get_at s idx = ucast (drop_bit (unat idx * 4) (sorted_ids s) AND 0xF)"

definition set_at :: "u8 \<Rightarrow> u8 \<Rightarrow> 'cb sched \<Rightarrow> 'cb sched" where
  "set_at idx i s =
     (let shift = unat idx * 4; clearmask = NOT (push_bit shift 0x0F :: u64)
      in s\<lparr>sorted_ids := (sorted_ids s AND clearmask) OR push_bit shift (ucast i)\<rparr>)"

definition front_id :: "'cb sched \<Rightarrow> u8" where
  "front_id s = ucast (sorted_ids s) AND 0xF"

definition pop_front :: "'cb sched \<Rightarrow> 'cb sched" where
  "pop_front s = s\<lparr>active_count := active_count s - 1, sorted_ids := drop_bit 4 (sorted_ids s)\<rparr>"

text \<open>The hole opened at nibble \<open>pos\<close>: only the half of the word that holds the position is
  shifted bit by bit, the other half is kept or moved by a nibble as a whole.\<close>

definition insert_at :: "nat \<Rightarrow> u8 \<Rightarrow> u64 \<Rightarrow> u64" where
  "insert_at pos i q =
     (let lo = (ucast q :: u32);
          hi = (ucast (drop_bit 32 q) :: u32);
          shift = 4 * (pos mod 8);
          id_shifted = push_bit shift (ucast i :: u32);
          mask = push_bit shift (1 :: u32) - 1;
          inv_mask = NOT mask;
          lo_modified = push_bit 4 (lo AND inv_mask) OR (lo AND mask) OR id_shifted;
          hi_modified = push_bit 4 (hi AND inv_mask) OR (hi AND mask) OR id_shifted;
          hi_spilled = push_bit 4 hi OR drop_bit 28 lo;
          hi' = (if pos \<ge> 8 then hi_modified else hi_spilled);
          lo' = (if pos \<ge> 8 then lo else lo_modified)
      in push_bit 32 (ucast hi' :: u64) OR ucast lo')"

text \<open>The binary search over the logical range \<open>[left, right)\<close>: \<open>p mid\<close> says that the new task
  fires no earlier than the task at \<open>mid\<close>.\<close>

function search_pos :: "(nat \<Rightarrow> bool) \<Rightarrow> nat \<Rightarrow> nat \<Rightarrow> nat" where
  "search_pos p left right =
     (if left < right
      then let mid = left + (right - left) div 2
           in if p mid then search_pos p (mid + 1) right else search_pos p left mid
      else left)"
  by pat_completeness auto
termination
  by (relation "measure (\<lambda>(p, left, right). right - left)") auto

definition fires_no_earlier :: "'cb sched \<Rightarrow> 'cb task \<Rightarrow> nat \<Rightarrow> bool" where
  "fires_no_earlier s t mid \<longleftrightarrow>
     0 \<le> sint (next_fire_us t - next_fire_us (tasks s ! unat (get_at s (of_nat mid))))"

definition insert_sorted :: "u8 \<Rightarrow> 'cb sched \<Rightarrow> 'cb sched" where
  "insert_sorted i s =
     (let t = tasks s ! unat i;
          pos = search_pos (fires_no_earlier s t) 0 (unat (active_count s))
      in s\<lparr>sorted_ids := insert_at pos i (sorted_ids s), active_count := active_count s + 1\<rparr>)"

definition id_pattern :: "u8 \<Rightarrow> u64" where
  "id_pattern i =
     (let p = (ucast i :: u32) + push_bit 4 (ucast i);
          p = p + push_bit 8 p;
          p = p + push_bit 16 p
      in push_bit 32 (ucast p) OR ucast p)"

definition zero_nibbles :: "u64 \<Rightarrow> u64" where
  "zero_nibbles diff = (diff - 0x1111111111111111) AND (NOT diff AND 0x8888888888888888)"

definition ctz :: "'a::len word \<Rightarrow> nat" where
  "ctz w = (case find (bit w) [0 ..< LENGTH('a)] of Some i \<Rightarrow> i | None \<Rightarrow> LENGTH('a))"

definition remove_sorted :: "u8 \<Rightarrow> 'cb sched \<Rightarrow> 'cb sched" where
  "remove_sorted i s =
     (let diff = sorted_ids s XOR id_pattern i;
          matches = zero_nibbles diff
      in if matches = 0 then s
         else let pos_msb = ctz matches;
                  pos_lsb = pos_msb - 3;
                  mask = push_bit pos_lsb (1 :: u64) - 1
              in s\<lparr>sorted_ids := (sorted_ids s AND mask) OR (drop_bit 4 (sorted_ids s) AND NOT mask),
                   active_count := active_count s - 1\<rparr>)"

declare search_pos.simps [simp del]

section \<open>Nibbles\<close>

definition nibble :: "u64 \<Rightarrow> nat \<Rightarrow> u8" where
  "nibble q n = ucast (drop_bit (4 * n) q AND 0xF)"

lemma word_0xF_mask: "(0xF :: 'a::len word) = mask 4"
  by (simp add: mask_eq_exp_minus_1)

lemma bit_nibble: "bit (nibble q n) k \<longleftrightarrow> k < 4 \<and> bit q (4 * n + k)"
  unfolding nibble_def word_0xF_mask by (auto simp: bit_simps)

lemma nibble_eqI:
  assumes "\<And>k. k < 4 \<Longrightarrow> bit q (4 * n + k) = bit q' (4 * m + k)"
  shows "nibble q n = nibble q' m"
  by (rule bit_word_eqI) (use assms in \<open>auto simp: bit_nibble\<close>)

lemma nibble_beyond: "16 \<le> n \<Longrightarrow> nibble q n = 0"
  by (rule bit_word_eqI) (auto simp: bit_nibble dest: bit_imp_le_length)

lemma nibble_mask: "nibble q n = take_bit 4 (nibble q n)"
  by (rule bit_word_eqI) (auto simp: bit_nibble bit_simps)

lemma nibble_less: "nibble q n < 16"
proof -
  have "nibble q n = nibble q n AND mask 4"
    using nibble_mask [of q n] by (simp add: take_bit_eq_mask)
  then show ?thesis
    using and_mask_less' [of 4 "nibble q n"] by simp
qed

lemma bit_push_mask:
  assumes "n < LENGTH('a)"
  shows "bit (push_bit n (1 :: 'a::len word) - 1) k \<longleftrightarrow> k < n"
proof -
  have "push_bit n (1 :: 'a word) - 1 = mask n"
    by (simp add: mask_eq_exp_minus_1 push_bit_eq_mult)
  with assms show ?thesis by (auto simp: bit_simps)
qed

lemma bit_small_id:
  assumes "i < (16 :: u8)" and "bit i k"
  shows "k < 4"
proof -
  have "i = take_bit 4 i"
    using assms(1) less_mask_eq [of i 4] by (simp add: take_bit_eq_mask)
  with assms(2) show ?thesis by (metis bit_take_bit_iff)
qed

lemma bit_hole32:
  fixes w :: u32
  assumes "n < 32" and "i < (16 :: u8)" and "k < 32"
  shows "bit (push_bit 4 (w AND NOT (push_bit n 1 - 1)) OR (w AND (push_bit n 1 - 1)) OR
      push_bit n (ucast i)) k \<longleftrightarrow>
    (if k < n then bit w k else if k < n + 4 then bit i (k - n) else bit w (k - 4))"
proof -
  have m: "bit (push_bit n (1 :: u32) - 1) j \<longleftrightarrow> j < n" for j
    using assms(1) by (intro bit_push_mask) simp
  have idb: "bit (push_bit n (ucast i :: u32)) k \<longleftrightarrow> n \<le> k \<and> k < n + 4 \<and> bit i (k - n)"
    using assms(3) bit_small_id [OF assms(2), of "k - n"] by (auto simp: bit_simps)
  have up: "bit (push_bit 4 (w AND NOT (push_bit n 1 - 1))) k \<longleftrightarrow> n + 4 \<le> k \<and> bit w (k - 4)"
    using assms(3) m [of "k - 4"] by (auto simp: bit_push_bit_iff bit_and_iff bit_not_iff)
  have low: "bit (w AND (push_bit n 1 - 1)) k \<longleftrightarrow> k < n \<and> bit w k"
    using m [of k] by (auto simp: bit_and_iff)
  show ?thesis
    unfolding bit_or_iff idb up low by auto
qed

lemma bit_join32:
  "bit (push_bit 32 (ucast (h :: u32) :: u64) OR ucast (l :: u32)) k \<longleftrightarrow>
    (if k < 32 then bit l k else bit h (k - 32))"
  by (auto simp: bit_simps dest: bit_imp_le_length)

lemma bit_insert_at:
  assumes "pos < 16" and "i < (16 :: u8)" and "k < 64"
  shows "bit (insert_at pos i q) k \<longleftrightarrow>
    (if k < 4 * pos then bit q k else if k < 4 * pos + 4 then bit i (k - 4 * pos) else bit q (k - 4))"
proof -
  let ?lo = "ucast q :: u32" and ?hi = "ucast (drop_bit 32 q) :: u32"
  have lo: "bit ?lo j \<longleftrightarrow> j < 32 \<and> bit q j" for j by (auto simp: bit_simps)
  have hi: "bit ?hi j \<longleftrightarrow> j < 32 \<and> bit q (32 + j)" for j by (auto simp: bit_simps)
  have n: "4 * (pos mod 8) < 32" by simp
  note hole = bit_hole32 [OF n assms(2)]
  show ?thesis
  proof (cases "8 \<le> pos")
    case True
    then have "pos mod 8 = pos - 8" using assms(1) by (simp add: le_mod_geq)
    then have pm: "4 * (pos mod 8) = 4 * pos - 32" by simp
    show ?thesis
    proof (cases "k < 32")
      case k: True
      with True show ?thesis
        by (simp add: insert_at_def Let_def bit_join32 lo)
    next
      case k: False
      with assms(3) have k32: "k - 32 < 32" by simp
      have "(k - 32 < 4 * pos - 32) = (k < 4 * pos)"
        "(k - 32 < 4 * pos - 32 + 4) = (k < 4 * pos + 4)"
        "k - 32 - (4 * pos - 32) = k - 4 * pos"
        using True k by auto
      moreover have "bit ?hi (k - 32) = bit q k" using k k32 by (simp add: hi)
      moreover have "\<not> k < 4 * pos + 4 \<Longrightarrow> bit ?hi (k - 32 - 4) = bit q (k - 4)"
        using True k k32 by (auto simp: hi)
      ultimately show ?thesis
        using True k hole [OF k32, of ?hi] unfolding insert_at_def Let_def bit_join32 pm
        by simp
    qed
  next
    case False
    then have pm: "pos mod 8 = pos" by simp
    show ?thesis
    proof (cases "k < 32")
      case k: True
      then have "k - 4 < 32" by linarith
      with k have "bit ?lo k = bit q k" "bit ?lo (k - 4) = bit q (k - 4)"
        by (simp_all only: lo simp_thms)
      with k False show ?thesis
        using hole [OF k, of ?lo] unfolding insert_at_def Let_def bit_join32 pm by simp
    next
      case k: False
      have sp: "bit (push_bit 4 ?hi OR drop_bit 28 ?lo) (k - 32) \<longleftrightarrow> bit q (k - 4)"
        using k assms(3) by (auto simp: bit_or_iff bit_push_bit_iff bit_drop_bit_eq lo hi)
      from False k sp show ?thesis
        unfolding insert_at_def Let_def bit_join32 by simp
    qed
  qed
qed


lemma nibble_insert_at:
  assumes "pos < 16" and "i < (16 :: u8)" and "n < 16"
  shows "nibble (insert_at pos i q) n =
    (if n < pos then nibble q n else if n = pos then i else nibble q (n - 1))"
proof -
  consider "n < pos" | "n = pos" | "pos < n" by linarith
  then show ?thesis
  proof cases
    case 1
    with assms show ?thesis
      by (simp, intro nibble_eqI) (auto simp: bit_insert_at)
  next
    case 2
    have "nibble (insert_at pos i q) n = i"
    proof (rule bit_word_eqI)
      fix k show "bit (nibble (insert_at pos i q) n) k = bit i k"
        using 2 assms bit_small_id [OF assms(2), of k]
        by (cases "k < 4") (auto simp: bit_nibble bit_insert_at)
    qed
    with 2 show ?thesis by simp
  next
    case 3
    have "nibble (insert_at pos i q) n = nibble q (n - 1)"
    proof (rule nibble_eqI)
      fix k :: nat assume "k < 4"
      moreover have "4 * n + k - 4 = 4 * (n - 1) + k" using 3 by simp
      ultimately show "bit (insert_at pos i q) (4 * n + k) = bit q (4 * (n - 1) + k)"
        using 3 assms by (simp add: bit_insert_at)
    qed
    with 3 show ?thesis by simp
  qed
qed

lemma mod4_shift:
  "4 \<le> j \<Longrightarrow> (j - 4) mod 4 = j mod (4::nat)" "8 \<le> j \<Longrightarrow> (j - 8) mod 4 = j mod (4::nat)"
  "16 \<le> j \<Longrightarrow> (j - 16) mod 4 = j mod (4::nat)" "32 \<le> j \<Longrightarrow> (j - 32) mod 4 = j mod (4::nat)"
  "4 \<le> j \<Longrightarrow> j < 8 \<Longrightarrow> j mod 4 = j - (4::nat)"
  by (auto simp: le_iff_add mod_add_left_eq [symmetric])

lemma bit_id_pattern:
  assumes "i < (16 :: u8)"
  shows "bit (id_pattern i) k \<longleftrightarrow> k < 64 \<and> bit i (k mod 4)"
proof -
  have small: "bit i j \<Longrightarrow> j < 4" for j by (rule bit_small_id [OF assms])
  define a where "a = (ucast i :: u32) + push_bit 4 (ucast i)"
  define b where "b = a + push_bit 8 a"
  define c where "c = b + push_bit 16 b"
  have "a = (ucast i :: u32) OR push_bit 4 (ucast i)"
    unfolding a_def by (rule disjunctive_add) (auto simp: bit_simps dest: small)
  then have a: "bit a j \<longleftrightarrow> j < 8 \<and> bit i (j mod 4)" for j
    using small [of j] small [of "j - 4"] mod4_shift(5) [of j]
    by (cases "j < 4") (auto simp: bit_simps)
  have "b = a OR push_bit 8 a"
    unfolding b_def by (rule disjunctive_add) (auto simp: bit_push_bit_iff a)
  then have b: "bit b j \<longleftrightarrow> j < 16 \<and> bit i (j mod 4)" for j
    using mod4_shift(2) [of j] by (cases "j < 8") (auto simp: bit_or_iff bit_push_bit_iff a)
  have "c = b OR push_bit 16 b"
    unfolding c_def by (rule disjunctive_add) (auto simp: bit_push_bit_iff b)
  then have c: "bit c j \<longleftrightarrow> j < 32 \<and> bit i (j mod 4)" for j
    using mod4_shift(3) [of j] by (cases "j < 16") (auto simp: bit_or_iff bit_push_bit_iff b)
  have "id_pattern i = push_bit 32 (ucast c) OR ucast c"
    by (simp add: id_pattern_def Let_def a_def b_def c_def)
  then show ?thesis
    using mod4_shift(4) [of k] by (cases "k < 32") (auto simp: bit_join32 c)
qed

lemma nibble_xor: "nibble (x XOR y) n = nibble x n XOR nibble y n"
  by (rule bit_word_eqI) (auto simp: bit_nibble bit_xor_iff)

lemma word_xor_eq_0_iff: "(x :: 'a::len word) XOR y = 0 \<longleftrightarrow> x = y"
proof
  assume "x XOR y = 0"
  then have "bit (x XOR y) n = bit (0 :: 'a word) n" for n by simp
  then show "x = y" by (intro bit_word_eqI) (simp add: bit_xor_iff)
qed simp

lemma nibble_id_pattern: "i < (16 :: u8) \<Longrightarrow> n < 16 \<Longrightarrow> nibble (id_pattern i) n = i"
  by (rule bit_word_eqI) (auto simp: bit_nibble bit_id_pattern dest: bit_small_id)

lemma bit_ones: "list_all (\<lambda>k. bit (0x1111111111111111 :: u64) k = (k mod 4 = 0)) [0..<64]"
  by code_simp

lemma bit_eights: "list_all (\<lambda>k. bit (0x8888888888888888 :: u64) k = (k mod 4 = 3)) [0..<64]"
  by code_simp


text \<open>Subtracting digit by digit: no borrow enters digit \<open>i\<close> when every lower digit is large
  enough. Then the nibble above the first zero nibble of \<open>diff\<close> decides the match.\<close>

lemma div16_no_borrow:
  fixes X Y :: int
  assumes "\<And>j. j < i \<Longrightarrow> Y div 16 ^ j mod 16 \<le> X div 16 ^ j mod 16"
  shows "(X - Y) div 16 ^ i = X div 16 ^ i - Y div 16 ^ i"
  using assms
proof (induction i)
  case 0
  then show ?case by simp
next
  case (Suc i)
  let ?A = "X div 16 ^ i" and ?B = "Y div 16 ^ i"
  have suc: "Z div 16 ^ Suc i = Z div 16 ^ i div 16" for Z :: int
    by (subst power_Suc2) (simp add: zdiv_zmult2_eq)
  have "?B mod 16 \<le> ?A mod 16" using Suc.prems [of i] by simp
  moreover have "?A - ?B = (?A mod 16 - ?B mod 16) + (?A div 16 - ?B div 16) * 16"
    by (simp add: algebra_simps minus_mod_eq_mult_div [symmetric])
  moreover have "0 \<le> ?B mod 16" "?A mod 16 < 16" by simp_all
  ultimately have "(?A - ?B) div 16 = ?A div 16 - ?B div 16"
    by (simp only: div_mult_self1 div_pos_pos_trivial)
  moreover have "(X - Y) div 16 ^ i = ?A - ?B" using Suc by simp
  ultimately show ?case by (simp only: suc)
qed

lemma uint_nibble: "uint (nibble q n) = uint q div 16 ^ n mod 16"
proof -
  have "uint (nibble q n) = take_bit 4 (drop_bit (4 * n) (uint q))"
    unfolding nibble_def word_0xF_mask take_bit_eq_mask [symmetric]
    by (rule bit_eqI) (auto simp: bit_simps bit_uint_iff)
  also have "\<dots> = uint q div 16 ^ n mod 16"
    by (simp add: take_bit_eq_mod drop_bit_eq_div power_mult)
  finally show ?thesis .
qed


lemma bit3_int: "bit (y :: int) 3 \<longleftrightarrow> 8 \<le> y mod 16"
proof -
  have "odd (y div 8) \<longleftrightarrow> 8 \<le> y mod 16" by presburger
  then show ?thesis by (simp add: bit_iff_odd)
qed

lemma ones_digit: "j < 16 \<Longrightarrow> (0x1111111111111111 :: int) div 16 ^ j mod 16 = 1"
proof -
  have "list_all (\<lambda>j. (0x1111111111111111 :: int) div 16 ^ j mod 16 = 1) [0..<16]" by code_simp
  then show "j < 16 \<Longrightarrow> ?thesis" by (simp only: list_all_iff set_upt) simp
qed

lemma bit_top_of_nibble: "bit q (4 * n + 3) \<longleftrightarrow> 8 \<le> uint (nibble q n)"
proof -
  have "bit q (4 * n + 3) \<longleftrightarrow> bit (uint (nibble q n)) 3"
    by (simp add: bit_uint_iff bit_nibble)
  also have "\<dots> \<longleftrightarrow> 8 \<le> uint (nibble q n)"
    unfolding bit3_int by (simp add: uint_nibble)
  finally show ?thesis .
qed

lemma nibble_zero_iff: "nibble q n = 0 \<longleftrightarrow> uint (nibble q n) = 0"
  using word_uint_eq_iff [of "nibble q n" 0] by simp

lemma match_decides:
  assumes "z < 16" and "\<And>n. n < z \<Longrightarrow> nibble d n \<noteq> 0"
  shows "bit (zero_nibbles d) (4 * z + 3) \<longleftrightarrow> nibble d z = 0"
proof -
  let ?L = "0x1111111111111111 :: int"
  let ?A = "uint d div 16 ^ z" and ?B = "?L div 16 ^ z"
  have "(uint d - ?L) div 16 ^ z = ?A - ?B"
  proof (rule div16_no_borrow)
    fix j assume "j < z"
    with assms have "uint (nibble d j) \<noteq> 0" "j < 16"
      unfolding nibble_zero_iff [symmetric] by auto
    then show "?L div 16 ^ j mod 16 \<le> uint d div 16 ^ j mod 16"
      using uint_nibble [of d j] ones_digit [of j] uint_ge_0 [of "nibble d j"] by linarith
  qed
  moreover have "bit (d - 0x1111111111111111) (4 * z + 3) \<longleftrightarrow> bit ((uint d - ?L) div 16 ^ z) 3"
  proof -
    have "word_of_int (uint d - ?L) = d - 0x1111111111111111" by simp
    then have "bit (d - 0x1111111111111111) (4 * z + 3) \<longleftrightarrow>
        bit (word_of_int (uint d - ?L) :: u64) (4 * z + 3)" by (simp only:)
    also have "\<dots> \<longleftrightarrow> bit (uint d - ?L) (4 * z + 3)"
      using assms(1) unfolding bit_word_of_int_iff by simp
    also have "\<dots> \<longleftrightarrow> bit (drop_bit (4 * z) (uint d - ?L)) 3"
      by (simp add: bit_drop_bit_eq add.commute)
    finally show ?thesis by (simp add: drop_bit_eq_div power_mult)
  qed
  ultimately have "bit (d - 0x1111111111111111) (4 * z + 3) \<longleftrightarrow> 8 \<le> (?A - ?B) mod 16"
    by (simp add: bit3_int)
  also have "(?A - ?B) mod 16 = (uint (nibble d z) - 1) mod 16"
    using ones_digit [OF assms(1)] mod_diff_eq [of ?A 16 ?B]
      mod_diff_left_eq [of ?A 16 1] by (simp add: uint_nibble)
  finally have sub: "bit (d - 0x1111111111111111) (4 * z + 3) \<longleftrightarrow>
      8 \<le> (uint (nibble d z) - 1) mod 16" .
  have e: "bit (0x8888888888888888 :: u64) (4 * z + 3)"
    using bit_eights assms(1) by (auto simp: list_all_iff)
  have n: "0 \<le> uint (nibble d z)" "uint (nibble d z) < 16"
    by (simp_all add: uint_nibble)
  have "bit (zero_nibbles d) (4 * z + 3) \<longleftrightarrow>
      8 \<le> (uint (nibble d z) - 1) mod 16 \<and> \<not> 8 \<le> uint (nibble d z)"
    using assms(1) e unfolding zero_nibbles_def bit_and_iff bit_not_iff sub bit_top_of_nibble [of d]
    by auto
  also have "\<dots> \<longleftrightarrow> uint (nibble d z) = 0"
    using n by presburger
  finally show ?thesis by (simp only: nibble_zero_iff)
qed

lemma match_only_tops: "bit (zero_nibbles d) k \<Longrightarrow> k < 64 \<and> k mod 4 = 3"
proof -
  assume "bit (zero_nibbles d) k"
  then have "bit (0x8888888888888888 :: u64) k" and "k < 64"
    by (auto simp: zero_nibbles_def bit_and_iff dest: bit_imp_le_length)
  then show ?thesis using bit_eights by (auto simp: list_all_iff)
qed


lemma ctz_eqI:
  fixes w :: "'a::len word"
  assumes "bit w n" and "\<And>j. j < n \<Longrightarrow> \<not> bit w j"
  shows "ctz w = n"
proof -
  have n: "n < LENGTH('a)" using assms(1) by (rule bit_imp_le_length)
  have "find (bit w) [0 ..< LENGTH('a)] = Some n"
    unfolding find_Some_iff using assms n by (intro exI [of _ n]) auto
  then show ?thesis by (simp add: ctz_def)
qed

text \<open>The search of \<open>remove_sorted\<close>: the lowest set bit of \<open>matches\<close> is the top bit of the
  lowest nibble equal to the identifier; there is none if no nibble is equal to it.\<close>

lemma ctz_zero_nibbles:
  assumes "z < 16" and "nibble d z = 0" and "\<And>n. n < z \<Longrightarrow> nibble d n \<noteq> 0"
  shows "zero_nibbles d \<noteq> 0" and "ctz (zero_nibbles d) = 4 * z + 3"
proof -
  have b: "bit (zero_nibbles d) (4 * z + 3)"
    using assms match_decides by blast
  then show "zero_nibbles d \<noteq> 0" by auto
  show "ctz (zero_nibbles d) = 4 * z + 3"
  proof (rule ctz_eqI [OF b], rule notI)
    fix j assume j: "j < 4 * z + 3" and bj: "bit (zero_nibbles d) j"
    then have "j mod 4 = 3" by (simp add: match_only_tops)
    then have jj: "j = 4 * (j div 4) + 3" and "j div 4 < z" using j by presburger+
    moreover have "bit (zero_nibbles d) (4 * (j div 4) + 3)" using bj jj by simp
    ultimately show False
      using match_decides [of "j div 4" d] assms(1,3) by (meson less_trans)
  qed
qed

lemma zero_nibbles_none:
  assumes "\<And>n. n < 16 \<Longrightarrow> nibble d n \<noteq> 0"
  shows "zero_nibbles d = 0"
proof (rule bit_word_eqI)
  fix k :: nat assume "k < LENGTH(64)"
  then have k: "k < 64" by simp
  show "bit (zero_nibbles d) k = bit (0 :: u64) k"
  proof (cases "k mod 4 = 3")
    case True
    then have "k = 4 * (k div 4) + 3" by presburger
    moreover have "k div 4 < 16" using k by simp
    ultimately have "\<not> bit (zero_nibbles d) k"
      using match_decides [of "k div 4" d] assms by (metis less_trans)
    then show ?thesis by simp
  next
    case False
    then show ?thesis using match_only_tops [of d k] by auto
  qed
qed

lemma nibble_cut:
  assumes "z < 16" and "n < 16"
  shows "nibble ((q AND (push_bit (4 * z) 1 - 1)) OR
      (drop_bit 4 q AND NOT (push_bit (4 * z) (1 :: u64) - 1))) n =
    (if n < z then nibble q n else nibble q (n + 1))"
proof -
  let ?w = "(q AND (push_bit (4 * z) 1 - 1)) OR
      (drop_bit 4 q AND NOT (push_bit (4 * z) (1 :: u64) - 1))"
  have "bit (push_bit (4 * z) (1 :: u64) - 1) k \<longleftrightarrow> k < 4 * z" for k
    using assms(1) by (intro bit_push_mask) simp
  then have w: "bit ?w k \<longleftrightarrow> (if k < 4 * z then bit q k else bit q (k + 4))" if "k < 64" for k
    using that by (auto simp: bit_or_iff bit_and_iff bit_not_iff bit_drop_bit_eq add.commute)
  show ?thesis
  proof (cases "n < z")
    case True
    then have "nibble ?w n = nibble q n"
      using assms w by (intro nibble_eqI) auto
    with True show ?thesis by simp
  next
    case False
    have "nibble ?w n = nibble q (n + 1)"
    proof (rule nibble_eqI)
      fix k :: nat assume "k < 4"
      with False assms w [of "4 * n + k"] show "bit ?w (4 * n + k) = bit q (4 * (n + 1) + k)"
        by (simp add: algebra_simps)
    qed
    with False show ?thesis by simp
  qed
qed

section \<open>The queue as a list of identifiers\<close>

definition id_list :: "u64 \<Rightarrow> nat \<Rightarrow> u8 list" where
  "id_list q c = map (nibble q) [0 ..< c]"

definition queue :: "'cb sched \<Rightarrow> u8 list" where
  "queue s = id_list (sorted_ids s) (unat (active_count s))"

text \<open>The invariant of the packed word: at most sixteen entries, and zeros above the last one.\<close>

definition queue_inv :: "'cb sched \<Rightarrow> bool" where
  "queue_inv s \<longleftrightarrow> unat (active_count s) \<le> 16 \<and>
     (\<forall>n \<in> {unat (active_count s) ..< 16}. nibble (sorted_ids s) n = 0)"

lemma length_queue [simp]: "length (queue s) = unat (active_count s)"
  by (simp add: queue_def id_list_def)

lemma queue_nth: "n < unat (active_count s) \<Longrightarrow> queue s ! n = nibble (sorted_ids s) n"
  by (simp add: queue_def id_list_def)

lemma queue_ids: "i \<in> set (queue s) \<Longrightarrow> i < 16"
  by (auto simp: queue_def id_list_def nibble_less)

lemma queue_inv_zero: "queue_inv s \<Longrightarrow> unat (active_count s) \<le> n \<Longrightarrow> nibble (sorted_ids s) n = 0"
  using nibble_beyond [of n] by (cases "n < 16") (auto simp: queue_inv_def)

lemma get_at_queue: "n < unat (active_count s) \<Longrightarrow> queue_inv s \<Longrightarrow> get_at s (of_nat n) = queue s ! n"
  by (simp add: queue_nth get_at_def nibble_def queue_inv_def unat_of_nat mult.commute)

lemma front_id_queue: "front_id s = nibble (sorted_ids s) 0"
  unfolding front_id_def nibble_def word_0xF_mask by (rule bit_word_eqI) (auto simp: bit_simps)


subsection \<open>pop\<close>

lemma nibble_drop: "nibble (drop_bit 4 q) n = nibble q (Suc n)"
  by (rule nibble_eqI) (simp add: bit_drop_bit_eq algebra_simps)

lemma unat_dec: "(w :: u32) \<noteq> 0 \<Longrightarrow> unat (w - 1) = unat w - 1"
  by (rule unat_minus_one)

lemma unat_inc: "unat (w :: u32) < 2 ^ 32 - 1 \<Longrightarrow> unat (w + 1) = Suc (unat w)"
  using unat_add_lem [of w 1] by simp

lemma queue_pop:
  assumes "queue_inv s" and "queue s \<noteq> []"
  shows "queue_inv (pop_front s)" and "queue (pop_front s) = tl (queue s)"
proof -
  let ?c = "unat (active_count s)"
  have "?c \<noteq> 0" using assms(2) by (simp add: queue_def id_list_def)
  then have "active_count s \<noteq> 0" by auto
  then have c: "unat (active_count s - 1) = ?c - 1" by (rule unat_dec)
  show "queue_inv (pop_front s)"
    using assms(1) queue_inv_zero [OF assms(1)] \<open>?c \<noteq> 0\<close>
    by (auto simp: queue_inv_def pop_front_def c nibble_drop)
  show "queue (pop_front s) = tl (queue s)"
    by (rule nth_equalityI)
      (auto simp: queue_nth nth_tl c pop_front_def nibble_drop)
qed

lemma queue_Nil_iff: "queue s = [] \<longleftrightarrow> unat (active_count s) = 0"
  by (simp add: queue_def id_list_def)

lemma front_id_hd: "queue s \<noteq> [] \<Longrightarrow> front_id s = hd (queue s)"
  using queue_Nil_iff [of s] by (simp add: front_id_queue hd_conv_nth queue_nth)

subsection \<open>insert\<close>

lemma search_pos_up:
  "left < right \<Longrightarrow> p (left + (right - left) div 2) \<Longrightarrow>
    search_pos p left right = search_pos p (left + (right - left) div 2 + 1) right"
  by (subst search_pos.simps) (simp add: Let_def)

lemma search_pos_down:
  "left < right \<Longrightarrow> \<not> p (left + (right - left) div 2) \<Longrightarrow>
    search_pos p left right = search_pos p left (left + (right - left) div 2)"
  by (subst search_pos.simps) (simp add: Let_def)

lemma search_pos_done: "\<not> left < right \<Longrightarrow> search_pos p left right = left"
  by (subst search_pos.simps) simp

lemma search_pos_range: "left \<le> right \<Longrightarrow> left \<le> search_pos p left right \<and> search_pos p left right \<le> right"
proof (induction p left right rule: search_pos.induct)
  case (1 p left right)
  let ?mid = "left + (right - left) div 2"
  show ?case
  proof (cases "left < right")
    case True
    then have "?mid < right" "left \<le> ?mid" by auto
    with True "1.IH" show ?thesis
      by (cases "p ?mid") (auto simp: search_pos_up search_pos_down)
  next
    case False
    with "1.prems" show ?thesis by (simp add: search_pos_done)
  qed
qed

lemma search_pos_split:
  assumes "left \<le> right"
    and "\<And>i j. left \<le> i \<Longrightarrow> i \<le> j \<Longrightarrow> j < right \<Longrightarrow> p j \<Longrightarrow> p i"
  shows "(\<forall>i. left \<le> i \<and> i < search_pos p left right \<longrightarrow> p i) \<and>
    (\<forall>i. search_pos p left right \<le> i \<and> i < right \<longrightarrow> \<not> p i)"
  using assms
proof (induction p left right rule: search_pos.induct)
  case (1 p left right)
  let ?mid = "left + (right - left) div 2"
  show ?case
  proof (cases "left < right")
    case True
    then have mid: "?mid < right" "left \<le> ?mid" by auto
    show ?thesis
    proof (cases "p ?mid")
      case pm: True
      have IH: "(\<forall>i. ?mid + 1 \<le> i \<and> i < search_pos p (?mid + 1) right \<longrightarrow> p i) \<and>
          (\<forall>i. search_pos p (?mid + 1) right \<le> i \<and> i < right \<longrightarrow> \<not> p i)"
        using "1.IH"(1) [OF True refl pm] "1.prems"(2) mid by auto
      moreover have "search_pos p left right = search_pos p (?mid + 1) right"
        using True pm by (rule search_pos_up)
      moreover have "\<And>i. left \<le> i \<Longrightarrow> i \<le> ?mid \<Longrightarrow> p i"
        using "1.prems"(2) mid(1) pm by blast
      ultimately show ?thesis by (metis Suc_eq_plus1 not_less_eq_eq)
    next
      case pm: False
      have IH: "(\<forall>i. left \<le> i \<and> i < search_pos p left ?mid \<longrightarrow> p i) \<and>
          (\<forall>i. search_pos p left ?mid \<le> i \<and> i < ?mid \<longrightarrow> \<not> p i)"
        using "1.IH"(2) [OF True refl pm] "1.prems"(2) mid by auto
      moreover have "search_pos p left right = search_pos p left ?mid"
        using True pm by (rule search_pos_down)
      moreover have "\<And>i. ?mid \<le> i \<Longrightarrow> i < right \<Longrightarrow> \<not> p i"
        using "1.prems"(2) mid(2) pm by blast
      ultimately show ?thesis by (metis not_le)
    qed
  next
    case False
    with "1.prems"(1) show ?thesis by (auto simp: search_pos_done)
  qed
qed

definition insert_pos :: "u8 \<Rightarrow> 'cb sched \<Rightarrow> nat" where
  "insert_pos i s = search_pos (fires_no_earlier s (tasks s ! unat i)) 0 (unat (active_count s))"

lemma insert_pos_le: "insert_pos i s \<le> length (queue s)"
  using search_pos_range [of 0 "unat (active_count s)"] by (simp add: insert_pos_def)

lemma queue_insert:
  assumes inv: "queue_inv s" and room: "length (queue s) < 16" and i: "i < 16"
  shows "queue_inv (insert_sorted i s)"
    and "queue (insert_sorted i s) =
      take (insert_pos i s) (queue s) @ i # drop (insert_pos i s) (queue s)"
proof -
  let ?c = "unat (active_count s)" and ?q = "sorted_ids s" and ?p = "insert_pos i s"
  let ?s' = "insert_sorted i s"
  have p: "?p \<le> ?c" and c: "?c < 16" using insert_pos_le [of i s] room by auto
  then have c': "unat (active_count ?s') = Suc ?c" and q': "sorted_ids ?s' = insert_at ?p i ?q"
    by (simp_all add: insert_sorted_def Let_def insert_pos_def unat_inc)
  have nib: "nibble (insert_at ?p i ?q) n =
      (if n < ?p then nibble ?q n else if n = ?p then i else nibble ?q (n - 1))" if "n < 16" for n
    using nibble_insert_at that p c i by simp
  show "queue_inv ?s'"
    unfolding queue_inv_def c' q'
  proof (intro conjI ballI)
    show "Suc ?c \<le> 16" using c by simp
    fix n assume "n \<in> {Suc ?c..<16}"
    with p show "nibble (insert_at ?p i ?q) n = 0"
      by (auto simp: nib intro: queue_inv_zero [OF inv])
  qed
  show "queue ?s' = take ?p (queue s) @ i # drop ?p (queue s)"
  proof (rule nth_equalityI)
    show "length (queue ?s') = length (take ?p (queue s) @ i # drop ?p (queue s))"
      using p by (simp add: c')
    fix n assume "n < length (queue ?s')"
    then have n: "n < Suc ?c" by (simp add: c')
    then have "queue ?s' ! n = nibble (insert_at ?p i ?q) n"
      by (simp add: queue_nth c' q')
    then show "queue ?s' ! n = (take ?p (queue s) @ i # drop ?p (queue s)) ! n"
      using n c p by (auto simp: nib nth_append queue_nth nth_Cons' min_def)
  qed
qed


subsection \<open>remove\<close>

lemma remove1_split:
  assumes "z < length xs" and "xs ! z = x" and "\<And>n. n < z \<Longrightarrow> xs ! n \<noteq> x"
  shows "remove1 x xs = take z xs @ drop (Suc z) xs"
proof -
  have "x \<notin> set (take z xs)"
    using assms by (auto simp: in_set_conv_nth)
  moreover have "xs = take z xs @ x # drop (Suc z) xs"
    using assms(1,2) by (metis id_take_nth_drop)
  ultimately show ?thesis
    by (metis remove1_append remove1.simps(2))
qed

text \<open>What removing the nibble \<open>z\<close> does to the list, wherever that nibble lies.\<close>

lemma remove_sorted_at:
  assumes i: "i < 16" and z: "z < 16" "nibble (sorted_ids s) z = i"
    and first: "\<And>n. n < z \<Longrightarrow> nibble (sorted_ids s) n \<noteq> i"
  shows "active_count (remove_sorted i s) = active_count s - 1"
    and "n < 16 \<Longrightarrow> nibble (sorted_ids (remove_sorted i s)) n =
      (if n < z then nibble (sorted_ids s) n else nibble (sorted_ids s) (n + 1))"
proof -
  let ?d = "sorted_ids s XOR id_pattern i"
  have d: "nibble ?d n = 0 \<longleftrightarrow> nibble (sorted_ids s) n = i" if "n < 16" for n
    using i that by (simp add: nibble_xor nibble_id_pattern word_xor_eq_0_iff)
  have "zero_nibbles ?d \<noteq> 0" "ctz (zero_nibbles ?d) = 4 * z + 3"
    by (rule ctz_zero_nibbles [OF z(1)]; use d z first in auto)+
  then have *: "remove_sorted i s =
      s\<lparr>sorted_ids := (sorted_ids s AND (push_bit (4 * z) 1 - 1)) OR
        (drop_bit 4 (sorted_ids s) AND NOT (push_bit (4 * z) 1 - 1)),
        active_count := active_count s - 1\<rparr>"
    by (simp only: remove_sorted_def Let_def if_False diff_add_inverse2 add_diff_cancel_right')
  show "active_count (remove_sorted i s) = active_count s - 1"
    unfolding * by simp
  show "n < 16 \<Longrightarrow> nibble (sorted_ids (remove_sorted i s)) n =
      (if n < z then nibble (sorted_ids s) n else nibble (sorted_ids s) (n + 1))"
    unfolding * using nibble_cut [OF z(1)] by simp
qed

lemma queue_remove:
  assumes inv: "queue_inv s" and i: "i \<in> set (queue s)"
  shows "queue_inv (remove_sorted i s)" and "queue (remove_sorted i s) = remove1 i (queue s)"
proof -
  let ?c = "unat (active_count s)" and ?q = "sorted_ids s" and ?s' = "remove_sorted i s"
  have i16: "i < 16" using i by (rule queue_ids)
  obtain m where "m < length (queue s)" "queue s ! m = i" using i by (auto simp: in_set_conv_nth)
  then obtain z where z: "z < length (queue s)" "queue s ! z = i"
      "\<And>n. n < z \<Longrightarrow> queue s ! n \<noteq> i"
    using exists_least_iff [of "\<lambda>n. n < length (queue s) \<and> queue s ! n = i"] by (metis less_trans)
  then have zc: "z < ?c" "?c \<le> 16" using inv by (auto simp: queue_inv_def)
  note at = remove_sorted_at [OF i16, of z s]
  have first: "\<And>n. n < z \<Longrightarrow> nibble ?q n \<noteq> i" and here: "nibble ?q z = i" and z16: "z < 16"
    using z zc by (auto simp: queue_nth)
  have "active_count s \<noteq> 0" using zc by auto
  then have c': "unat (active_count ?s') = ?c - 1"
    using at(1) z16 here first by (simp add: unat_dec)
  have nib: "nibble (sorted_ids ?s') n = (if n < z then nibble ?q n else nibble ?q (n + 1))"
    if "n < 16" for n
    using at(2) z16 here first that by blast
  show "queue_inv ?s'"
    unfolding queue_inv_def c'
  proof (intro conjI ballI)
    show "?c - 1 \<le> 16" using zc by simp
    fix n assume "n \<in> {?c - 1..<16}"
    with zc show "nibble (sorted_ids ?s') n = 0"
      by (auto simp: nib intro: queue_inv_zero [OF inv])
  qed
  have "queue ?s' = take z (queue s) @ drop (Suc z) (queue s)"
  proof (rule nth_equalityI)
    show "length (queue ?s') = length (take z (queue s) @ drop (Suc z) (queue s))"
      using zc by (simp add: c')
    fix n assume "n < length (queue ?s')"
    then have n: "n < ?c - 1" by (simp add: c')
    then show "queue ?s' ! n = (take z (queue s) @ drop (Suc z) (queue s)) ! n"
      using zc by (auto simp: queue_nth c' nib nth_append)
  qed
  also have "\<dots> = remove1 i (queue s)"
    using z by (simp add: remove1_split)
  finally show "queue ?s' = remove1 i (queue s)" .
qed

lemma queue_remove_absent:
  assumes inv: "queue_inv s" and i: "i < 16" "i \<notin> set (queue s)"
    and nz: "i \<noteq> 0 \<or> length (queue s) = 16"
  shows "remove_sorted i s = s"
proof -
  let ?c = "unat (active_count s)"
  have "nibble (sorted_ids s) n \<noteq> i" if "n < 16" for n
  proof (cases "n < ?c")
    case True
    with i(2) show ?thesis by (auto simp: in_set_conv_nth queue_nth)
  next
    case False
    with nz that queue_inv_zero [OF inv, of n] show ?thesis by auto
  qed
  then have "zero_nibbles (sorted_ids s XOR id_pattern i) = 0"
    using i(1) by (intro zero_nibbles_none) (simp add: nibble_xor nibble_id_pattern word_xor_eq_0_iff)
  then show ?thesis by (simp add: remove_sorted_def Let_def)
qed

text \<open>The exception: identifier 0 is also the filler of the unused nibbles. Removing it when it
  is not queued matches the first unused nibble, and the entry counted last is lost.\<close>

lemma queue_remove_zero_absent:
  assumes inv: "queue_inv s" and absent: "0 \<notin> set (queue s)" and room: "length (queue s) < 16"
  shows "active_count (remove_sorted 0 s) = active_count s - 1"
    and "queue s \<noteq> [] \<Longrightarrow> queue (remove_sorted 0 s) = butlast (queue s)"
proof -
  let ?c = "unat (active_count s)"
  have c: "?c < 16" using room by simp
  have here: "nibble (sorted_ids s) ?c = 0" by (rule queue_inv_zero [OF inv]) simp
  have first: "nibble (sorted_ids s) n \<noteq> 0" if "n < ?c" for n
    using absent that by (auto simp: in_set_conv_nth queue_nth)
  note at = remove_sorted_at [of 0 ?c s, OF _ c here first]
  show cnt: "active_count (remove_sorted 0 s) = active_count s - 1" using at(1) by simp
  assume ne: "queue s \<noteq> []"
  then have "active_count s \<noteq> 0" by (auto simp: queue_Nil_iff)
  then have c': "unat (active_count (remove_sorted 0 s)) = ?c - 1" by (simp add: cnt unat_dec)
  show "queue (remove_sorted 0 s) = butlast (queue s)"
  proof (rule nth_equalityI)
    show "length (queue (remove_sorted 0 s)) = length (butlast (queue s))" by (simp add: c')
    fix n assume "n < length (queue (remove_sorted 0 s))"
    then have n: "n < ?c - 1" by (simp add: c')
    then show "queue (remove_sorted 0 s) ! n = butlast (queue s) ! n"
      using at(2) [of n] c less_le_trans [OF n, of ?c] by (simp add: queue_nth c' nth_butlast)
  qed
qed

section \<open>Deadline order\<close>

text \<open>Firing times wrap at 32 bits. Read relative to a time \<open>lo\<close>, the queue is in firing order
  as long as all its tasks fall in one window of \<open>2 ^ 31\<close> microseconds after \<open>lo\<close>.\<close>

lemma sint_nonneg_iff: "0 \<le> sint (w :: u32) \<longleftrightarrow> uint w < 2 ^ 31"
proof -
  have "sint w = uint w - 2 ^ 32 * of_bool (bit (uint w) 31)"
    using signed_take_bit_eq_take_bit_minus [of 31 "uint w"] uint_lt2p [of w]
    by (simp add: sint_uint take_bit_eq_mod)
  moreover have "sint w < 2 ^ 31" "- (2 ^ 31) \<le> sint w"
    using sint_lt [of w] sint_ge [of w] by simp_all
  moreover have "uint w < 2 ^ 32" using uint_lt2p [of w] by simp
  ultimately show ?thesis by (cases "bit (uint w) 31") simp_all
qed

lemma nonneg_diff:
  fixes x y :: u32
  assumes "unat x < 2 ^ 31" and "unat y < 2 ^ 31"
  shows "0 \<le> sint (x - y) \<longleftrightarrow> unat y \<le> unat x"
proof -
  have eq: "int (unat x) = uint x" "int (unat y) = uint y" by simp_all
  have xy: "uint x < 2 ^ 31" "uint y < 2 ^ 31"
    using assms [folded of_nat_less_iff [where 'a = int]] eq
    by (simp_all only: of_nat_power of_nat_numeral)
  have d: "uint (x - y) = (if uint y \<le> uint x then uint x - uint y else uint x - uint y + 2 ^ 32)"
    by (simp add: uint_sub_if')
  have le: "unat y \<le> unat x \<longleftrightarrow> uint y \<le> uint x"
    by (simp only: eq [symmetric] of_nat_le_iff)
  show ?thesis
  proof (cases "uint y \<le> uint x")
    case True
    then have "uint (x - y) = uint x - uint y" using d by (simp only: if_True)
    then have "uint (x - y) < 2 ^ 31" using xy uint_ge_0 [of y] by linarith
    with True show ?thesis by (simp only: sint_nonneg_iff le)
  next
    case False
    then have "uint (x - y) = uint x - uint y + 2 ^ 32" using d by (simp only: if_False)
    moreover have "(2 :: int) ^ 32 = 2 ^ 31 + 2 ^ 31" by simp
    ultimately have "\<not> uint (x - y) < 2 ^ 31" using xy uint_ge_0 [of x] by linarith
    with False show ?thesis by (simp only: sint_nonneg_iff le)
  qed
qed

lemma wrapping_order:
  fixes a b lo :: u32
  assumes "unat (a - lo) < 2 ^ 31" and "unat (b - lo) < 2 ^ 31"
  shows "0 \<le> sint (a - b) \<longleftrightarrow> unat (b - lo) \<le> unat (a - lo)"
  using nonneg_diff [OF assms] by simp

definition fire_key :: "u32 \<Rightarrow> 'cb sched \<Rightarrow> u8 \<Rightarrow> nat" where
  "fire_key lo s i = unat (next_fire_us (tasks s ! unat i) - lo)"

definition by_deadline :: "u32 \<Rightarrow> 'cb sched \<Rightarrow> bool" where
  "by_deadline lo s \<longleftrightarrow> sorted (map (fire_key lo s) (queue s))"

lemma fires_no_earlier_key:
  assumes "queue_inv s" and "n < length (queue s)"
    and "fire_key lo s i < 2 ^ 31" and "fire_key lo s (queue s ! n) < 2 ^ 31"
  shows "fires_no_earlier s (tasks s ! unat i) n \<longleftrightarrow> fire_key lo s (queue s ! n) \<le> fire_key lo s i"
  using assms wrapping_order unfolding fires_no_earlier_def fire_key_def by (simp add: get_at_queue)

lemma insert_pos_key:
  assumes inv: "queue_inv s" and ord: "by_deadline lo s"
    and win: "\<And>j. j \<in> set (i # queue s) \<Longrightarrow> fire_key lo s j < 2 ^ 31"
  shows "\<And>n. n < insert_pos i s \<Longrightarrow> fire_key lo s (queue s ! n) \<le> fire_key lo s i"
    and "\<And>n. insert_pos i s \<le> n \<Longrightarrow> n < length (queue s) \<Longrightarrow> fire_key lo s i < fire_key lo s (queue s ! n)"
proof -
  let ?p = "fires_no_earlier s (tasks s ! unat i)" and ?c = "unat (active_count s)"
  have p: "?p n \<longleftrightarrow> fire_key lo s (queue s ! n) \<le> fire_key lo s i" if "n < ?c" for n
    using inv that win by (intro fires_no_earlier_key) auto
  have down: "?p m" if "m \<le> n" "n < ?c" "?p n" for m n
  proof -
    have "fire_key lo s (queue s ! m) \<le> fire_key lo s (queue s ! n)"
      using ord that sorted_nth_mono [of "map (fire_key lo s) (queue s)" m n]
      by (simp add: by_deadline_def)
    then show ?thesis using that p by simp
  qed
  have split: "(\<forall>n. 0 \<le> n \<and> n < search_pos ?p 0 ?c \<longrightarrow> ?p n) \<and>
      (\<forall>n. search_pos ?p 0 ?c \<le> n \<and> n < ?c \<longrightarrow> \<not> ?p n)"
    by (rule search_pos_split) (use down in auto)
  show "\<And>n. n < insert_pos i s \<Longrightarrow> fire_key lo s (queue s ! n) \<le> fire_key lo s i"
    using split p insert_pos_le [of i s] by (auto simp: insert_pos_def)
  show "\<And>n. insert_pos i s \<le> n \<Longrightarrow> n < length (queue s) \<Longrightarrow> fire_key lo s i < fire_key lo s (queue s ! n)"
    using split p by (auto simp: insert_pos_def not_le)
qed

lemma insert_sorted_tasks [simp]: "tasks (insert_sorted i s) = tasks s"
  by (simp add: insert_sorted_def Let_def)

lemma remove_sorted_tasks [simp]: "tasks (remove_sorted i s) = tasks s"
  by (simp add: remove_sorted_def Let_def)

lemma fire_key_insert [simp]: "fire_key lo (insert_sorted i s) = fire_key lo s"
  by (simp add: fire_key_def fun_eq_iff)

lemma insert_by_deadline:
  assumes inv: "queue_inv s" and room: "length (queue s) < 16" and i: "i < 16"
    and ord: "by_deadline lo s"
    and win: "\<And>j. j \<in> set (i # queue s) \<Longrightarrow> fire_key lo s j < 2 ^ 31"
  shows "by_deadline lo (insert_sorted i s)"
proof -
  let ?k = "map (fire_key lo s) (queue s)" and ?p = "insert_pos i s"
  note key = insert_pos_key [of s lo i, OF inv ord win]
  have "sorted ?k" using ord by (simp add: by_deadline_def)
  then have "sorted (take ?p ?k)" "sorted (drop ?p ?k)" by (simp_all add: sorted_wrt_take sorted_wrt_drop)
  moreover have "\<forall>x \<in> set (take ?p ?k). x \<le> fire_key lo s i"
    using key(1) by (auto simp: in_set_conv_nth)
  moreover have "\<forall>x \<in> set (drop ?p ?k). fire_key lo s i \<le> x"
  proof
    fix x assume "x \<in> set (drop ?p ?k)"
    then obtain n where "n < length (queue s) - ?p" "x = fire_key lo s (queue s ! (?p + n))"
      by (auto simp: in_set_conv_nth)
    then show "fire_key lo s i \<le> x" using key(2) [of "?p + n"] by (simp add: less_imp_le)
  qed
  ultimately have "sorted (take ?p ?k @ fire_key lo s i # drop ?p ?k)"
    by (auto simp: sorted_append intro: order_trans)
  then show ?thesis
    by (simp add: by_deadline_def queue_insert(2) [OF inv room i] take_map drop_map)
qed

section \<open>The contract of the ready-time queue\<close>

text \<open>What the scheduler relies on: a queue of distinct identifiers whose front can be read and
  dropped, with insertion at a place the queue chooses and removal by identifier.\<close>

locale deadline_queue =
  fixes enqueue :: "'i \<Rightarrow> 's \<Rightarrow> 's"
    and dequeue :: "'s \<Rightarrow> 's"
    and discard :: "'i \<Rightarrow> 's \<Rightarrow> 's"
    and front :: "'s \<Rightarrow> 'i"
    and ids :: "'s \<Rightarrow> 'i list"
    and ok :: "'s \<Rightarrow> bool"
    and valid :: "'i \<Rightarrow> bool"
    and room :: nat
    and place :: "'i \<Rightarrow> 's \<Rightarrow> nat"
  assumes enqueue_ok: "ok s \<Longrightarrow> length (ids s) < room \<Longrightarrow> valid i \<Longrightarrow> ok (enqueue i s)"
    and ids_enqueue: "ok s \<Longrightarrow> length (ids s) < room \<Longrightarrow> valid i \<Longrightarrow>
      ids (enqueue i s) = take (place i s) (ids s) @ i # drop (place i s) (ids s)"
    and dequeue_ok: "ok s \<Longrightarrow> ids s \<noteq> [] \<Longrightarrow> ok (dequeue s)"
    and ids_dequeue: "ok s \<Longrightarrow> ids s \<noteq> [] \<Longrightarrow> ids (dequeue s) = tl (ids s)"
    and discard_ok: "ok s \<Longrightarrow> i \<in> set (ids s) \<Longrightarrow> ok (discard i s)"
    and ids_discard: "ok s \<Longrightarrow> i \<in> set (ids s) \<Longrightarrow> ids (discard i s) = remove1 i (ids s)"
    and front_hd: "ids s \<noteq> [] \<Longrightarrow> front s = hd (ids s)"
begin

lemma set_enqueue:
  "ok s \<Longrightarrow> length (ids s) < room \<Longrightarrow> valid i \<Longrightarrow> set (ids (enqueue i s)) = insert i (set (ids s))"
  by (metis ids_enqueue list.simps(15) set_append Un_insert_right append_take_drop_id)

lemma length_enqueue:
  "ok s \<Longrightarrow> length (ids s) < room \<Longrightarrow> valid i \<Longrightarrow> length (ids (enqueue i s)) = Suc (length (ids s))"
  by (simp add: ids_enqueue)

lemma distinct_enqueue:
  assumes "ok s" and "length (ids s) < room" and "valid i"
    and "distinct (ids s)" and "i \<notin> set (ids s)"
  shows "distinct (ids (enqueue i s))"
proof -
  have "set (take (place i s) (ids s)) \<inter> set (drop (place i s) (ids s)) = {}"
    using assms(4) by (rule set_take_disj_set_drop_if_distinct) simp
  then show ?thesis
    using assms by (auto simp: ids_enqueue dest: in_set_takeD in_set_dropD)
qed

lemma discard_enqueue:
  assumes "ok s" and "length (ids s) < room" and "valid i" and "i \<notin> set (ids s)"
  shows "ids (discard i (enqueue i s)) = ids s"
proof -
  have "i \<notin> set (take (place i s) (ids s))" using assms(4) by (meson in_set_takeD)
  then show ?thesis
    using assms by (simp add: ids_discard enqueue_ok set_enqueue)
      (simp add: ids_enqueue remove1_append)
qed

lemma front_in: "ids s \<noteq> [] \<Longrightarrow> front s \<in> set (ids s)"
  by (simp add: front_hd)

lemma set_dequeue: "ok s \<Longrightarrow> ids s \<noteq> [] \<Longrightarrow> distinct (ids s) \<Longrightarrow> set (ids (dequeue s)) = set (ids s) - {front s}"
  by (cases "ids s") (auto simp: ids_dequeue front_hd)

lemma distinct_dequeue: "ok s \<Longrightarrow> ids s \<noteq> [] \<Longrightarrow> distinct (ids s) \<Longrightarrow> distinct (ids (dequeue s))"
  by (simp add: ids_dequeue distinct_tl)

lemma set_discard: "ok s \<Longrightarrow> i \<in> set (ids s) \<Longrightarrow> distinct (ids s) \<Longrightarrow> set (ids (discard i s)) = set (ids s) - {i}"
  by (simp add: ids_discard)

lemma distinct_discard: "ok s \<Longrightarrow> i \<in> set (ids s) \<Longrightarrow> distinct (ids s) \<Longrightarrow> distinct (ids (discard i s))"
  by (simp add: ids_discard)

end

interpretation packed: deadline_queue insert_sorted pop_front remove_sorted front_id queue
  queue_inv "\<lambda>i. i < 16" 16 insert_pos
  by unfold_locales (simp_all add: queue_insert queue_pop queue_remove front_id_hd)

section \<open>Properties of the queue\<close>

lemma queue_inv_code: "queue_inv s \<longleftrightarrow> unat (active_count s) \<le> 16 \<and>
    list_all (\<lambda>n. nibble (sorted_ids s) n = 0) [unat (active_count s) ..< 16]"
  by (simp add: queue_inv_def list_all_iff)

lemma place_takeWhile:
  assumes "p \<le> length xs" and "\<And>n. n < p \<Longrightarrow> P (xs ! n)" and "p < length xs \<Longrightarrow> \<not> P (xs ! p)"
  shows "take p xs = takeWhile P xs" and "drop p xs = dropWhile P xs"
proof -
  have "takeWhile P xs = take p xs"
    by (rule takeWhile_eq_take_P_nth) (use assms in auto)
  then show "take p xs = takeWhile P xs" by simp
  then show "drop p xs = dropWhile P xs"
    by (metis append_eq_append_conv append_take_drop_id takeWhile_dropWhile_id)
qed

text \<open>\<open>insert_sorted\<close> is stable insertion by firing time, across the wrap-around of the
  32-bit clock: when the firing times of the queued tasks and of the new one lie within \<open>2 ^ 31\<close>
  microseconds after some time \<open>lo\<close> and the queue is in firing order from there, the binary search,
  the shifts and the masks put the new identifier after every task that fires no later and before
  the others, keep the order, and keep the packed word well formed.\<close>

theorem insert_sorted_stable:
  assumes "queue_inv s" and "length (queue s) < 16" and "i < 16" and "by_deadline lo s"
    and "list_all (\<lambda>j. fire_key lo s j < 2 ^ 31) (i # queue s)"
  shows "queue_inv (insert_sorted i s) \<and> by_deadline lo (insert_sorted i s) \<and>
    queue (insert_sorted i s) =
      takeWhile (\<lambda>j. fire_key lo s j \<le> fire_key lo s i) (queue s) @
      i # dropWhile (\<lambda>j. fire_key lo s j \<le> fire_key lo s i) (queue s)"
proof -
  have win: "\<And>j. j \<in> set (i # queue s) \<Longrightarrow> fire_key lo s j < 2 ^ 31"
    using assms(5) by (simp only: list_all_iff)
  note key = insert_pos_key [of s lo i, OF assms(1,4) win]
  show ?thesis
    using queue_insert [OF assms(1-3)] insert_by_deadline [OF assms(1-4) win]
      place_takeWhile [of "insert_pos i s" "queue s" "\<lambda>j. fire_key lo s j \<le> fire_key lo s i"]
      insert_pos_le [of i s] key by (simp add: not_le)
qed

text \<open>A queue across the wrap-around, for the witnesses.\<close>

definition demo_sched :: "nat sched" where
  "demo_sched = init_sched\<lparr>
     tasks := [init_task\<lparr>next_fire_us := 0xFFFFFFF0\<rparr>, init_task\<lparr>next_fire_us := 5\<rparr>,
       init_task\<lparr>next_fire_us := 0xFFFFFFFA\<rparr>, init_task\<lparr>next_fire_us := 5\<rparr>] @ replicate 12 init_task,
     sorted_ids := 0x310, active_count := 3\<rparr>"

lemma demo_sched_facts:
  "queue_inv demo_sched" "queue demo_sched = [0, 1, 3]" "by_deadline 0xFFFFFF00 demo_sched"
  "list_all (\<lambda>j. fire_key 0xFFFFFF00 demo_sched j < 2 ^ 31) (2 # queue demo_sched)"
proof -
  show "queue_inv demo_sched" unfolding queue_inv_code by code_simp
  show q: "queue demo_sched = [0, 1, 3]" by code_simp
  show "list_all (\<lambda>j. fire_key 0xFFFFFF00 demo_sched j < 2 ^ 31) (2 # queue demo_sched)"
    unfolding q by (simp add: fire_key_def demo_sched_def)
  show "by_deadline 0xFFFFFF00 demo_sched"
    unfolding by_deadline_def q by (simp add: fire_key_def demo_sched_def)
qed

theorem insert_sorted_stable_witness: "queue (insert_sorted 2 demo_sched) = [0, 2, 1, 3]"
  using insert_sorted_stable [OF demo_sched_facts(1) _ _ demo_sched_facts(3,4)]
  by (simp add: demo_sched_facts(2)) (simp add: fire_key_def demo_sched_def)

text \<open>\<open>remove_sorted\<close>, the search for a zero nibble by one subtraction and two masks, removes
  exactly the given identifier and keeps the order of the others; on an identifier that is not
  queued it changes nothing, unless that identifier is 0 and the queue is not full.\<close>

theorem remove_sorted_removes:
  assumes "queue_inv s" and "distinct (queue s)" and "i < 16"
    and "i \<in> set (queue s) \<or> i \<noteq> 0 \<or> length (queue s) = 16"
  shows "queue_inv (remove_sorted i s) \<and>
    queue (remove_sorted i s) = filter (\<lambda>j. j \<noteq> i) (queue s)"
proof (cases "i \<in> set (queue s)")
  case True
  have "remove1 i (queue s) = filter (\<lambda>j. j \<noteq> i) (queue s)"
    using assms(2) by (simp add: distinct_remove1_removeAll removeAll_filter_not_eq neq_commute)
  then show ?thesis
    using queue_remove [OF assms(1) True] by simp
next
  case False
  then have "filter (\<lambda>j. j \<noteq> i) (queue s) = queue s" by (auto intro: filter_True)
  then show ?thesis
    using queue_remove_absent [OF assms(1,3) False] assms(1,4) False by simp
qed

theorem remove_sorted_removes_witness: "queue (remove_sorted 1 demo_sched) = [0, 3]"
  using remove_sorted_removes [OF demo_sched_facts(1), of 1] by (simp add: demo_sched_facts(2))

end
