(* ===== verification/Scheduler.thy ===== *)
theory Scheduler
  imports TaskQueue
begin

unbundle bit_operations_syntax

text \<open>
  The task scheduler of \<open>Src/HALAL/Services/Time/Scheduler.cpp\<close> on top of the packed queue: slot
  allocation in the bitmap of free slots, periodic tasks and one-shot timeouts, the timer
  interrupt that marks the due tasks as ready and re-arms the periodic ones, the main-loop
  \<open>update\<close> that runs the ready tasks, and the programming of the timer for the next deadline.

  A state is one \<open>sched\<close> record; the timer's registers are fields of it. What the hardware does
  by itself (the counter running, the interrupt being taken) is the environment's step. A task's
  callback is a value of type \<open>'cb\<close>; running it is the parameter \<open>run\<close> of \<open>update\<close>, on the scheduler's
  state and a world \<open>'w\<close> outside it, since callbacks may call the scheduler.
\<close>

section \<open>Timer\<close>

definition FREQUENCY :: u32 where
  "FREQUENCY = 1000000"

definition kMaxIntervalUs :: u64 where
  "kMaxIntervalUs = 0xFFFFFFFF div 2 + 1"

definition TIM_CR1_CEN :: u32 where
  "TIM_CR1_CEN = 1"

definition TIM_CR1_CKD :: u32 where
  "TIM_CR1_CKD = 0x300"

definition LL_TIM_DIER_UIE :: u32 where
  "LL_TIM_DIER_UIE = 1"

definition LL_TIM_SR_UIF :: u32 where
  "LL_TIM_SR_UIF = 1"

definition global_timer_disable :: "'cb sched \<Rightarrow> 'cb sched" where
  "global_timer_disable s = s\<lparr>tim_cr1 := tim_cr1 s AND NOT TIM_CR1_CEN\<rparr>"

definition global_timer_enable :: "'cb sched \<Rightarrow> 'cb sched" where
  "global_timer_enable s = s\<lparr>tim_cr1 := tim_cr1 s OR TIM_CR1_CEN\<rparr>"

text \<open>The distance to the next deadline is a signed 32-bit difference. A deadline that is missed by
  more than a microsecond waits for the absolute value of the distance.\<close>

definition schedule_next_interval :: "'cb sched \<Rightarrow> 'cb sched" where
  "schedule_next_interval s =
     (if active_count s = 0
      then (global_timer_disable s)\<lparr>current_interval := 0, tim_cnt := 0\<rparr>
      else
        let s = SchedLock s;
            next_task = tasks s ! unat (front_id s);
            diff = next_fire_us next_task - ucast (global_tick s);
            s = SchedUnlock s;
            s = (if -1 \<le> sint diff \<and> sint diff \<le> 1
                 then s\<lparr>current_interval := 1, egr_ug := True\<rparr>
                 else
                   let s = s\<lparr>current_interval := (if sint diff < -1 then 0 - diff else diff)\<rparr>;
                       s = s\<lparr>tim_arr := current_interval s - 1\<rparr>
                   in if tim_cnt s > tim_arr s
                      then s\<lparr>tim_cnt := 0, global_tick := global_tick s + ucast (tim_cnt s)\<rparr>
                      else s)
        in global_timer_enable s)"

text \<open>\<open>freq\<close> is the frequency of the timer's clock. \<open>Some p\<close> is the \<open>PANIC\<close> on an invalid prescaler
  \<open>p\<close>.\<close>

definition Scheduler_start :: "u32 \<Rightarrow> 'cb sched \<Rightarrow> u32 option \<times> 'cb sched" where
  "Scheduler_start freq s =
     (let prescaler_divisor = freq div FREQUENCY
      in if prescaler_divisor = 0 \<or> prescaler_divisor > 0xFFFF + 1
         then (Some prescaler_divisor, s)
         else (None, schedule_next_interval
                (s\<lparr>tim_psc := ucast (prescaler_divisor - 1), tim_arr := 0,
                   tim_dier := tim_dier s OR LL_TIM_DIER_UIE,
                   tim_cr1 := tim_cr1 s AND NOT TIM_CR1_CKD, tim_cnt := 0,
                   tim_sr := tim_sr s AND NOT LL_TIM_SR_UIF\<rparr>)))"

definition get_global_tick :: "'cb sched \<Rightarrow> u64 \<times> 'cb sched" where
  "get_global_tick s =
     (let s = SchedLock s;
          tick = global_tick s + ucast (tim_cnt s);
          s = SchedUnlock s
      in if tick < last_tick s then (last_tick s, s) else (tick, s\<lparr>last_tick := tick\<rparr>))"

section \<open>Slots\<close>

definition ffs :: "u32 \<Rightarrow> nat" where
  "ffs w = (if w = 0 then 0 else ctz w + 1)"

definition allocate_slot :: "'cb sched \<Rightarrow> u8 \<times> 'cb sched" where
  "allocate_slot s =
     (let idx = of_nat (ffs (free_bitmap s)) - 1 :: u32
      in if idx \<ge> of_nat kMaxTasks then (of_nat INVALID_ID, s)
         else (ucast idx, s\<lparr>free_bitmap := free_bitmap s AND NOT (push_bit (unat idx) 1)\<rparr>))"

definition release_slot :: "u8 \<Rightarrow> 'cb sched \<Rightarrow> 'cb sched" where
  "release_slot i s = s\<lparr>ready_bitmap := ready_bitmap s AND NOT (push_bit (unat i) 1),
                        free_bitmap := free_bitmap s OR push_bit (unat i) 1\<rparr>"

section \<open>The timer interrupt\<close>

definition due :: "'cb sched \<Rightarrow> u8 \<Rightarrow> bool" where
  "due s i \<longleftrightarrow> \<not> 0 < sint (next_fire_us (tasks s ! unat i) - ucast (global_tick s))"

text \<open>One turn of the loop of \<open>on_timer_update\<close>, for the due task \<open>i\<close> at the front.\<close>

definition fire_front :: "u8 \<Rightarrow> 'cb sched \<Rightarrow> 'cb sched" where
  "fire_front i s =
     (let task_bit = push_bit (unat i) 1;
          s = pop_front (SchedLock s);
          s = (if ready_bitmap s AND task_bit \<noteq> 0 then s\<lparr>failing_id := ucast i\<rparr> else s);
          s = s\<lparr>ready_bitmap := ready_bitmap s OR task_bit\<rparr>;
          t = tasks s ! unat i;
          s = (if repeating t
               then insert_sorted i (s\<lparr>tasks := (tasks s)[unat i :=
                      t\<lparr>next_fire_us := ucast (global_tick s + ucast (period_us t))\<rparr>]\<rparr>)
               else s)
      in SchedUnlock s)"

partial_function (option) pop_due :: "'cb sched \<Rightarrow> 'cb sched option" where
  "pop_due s =
     (if active_count s = 0 then Some s
      else if due s (front_id s) then pop_due (fire_front (front_id s) s) else Some s)"

definition on_timer_update :: "'cb sched \<Rightarrow> 'cb sched option" where
  "on_timer_update s =
     map_option schedule_next_interval
       (pop_due (s\<lparr>global_tick := global_tick s + ucast (current_interval s)\<rparr>))"

section \<open>The main loop\<close>

definition finish_task :: "nat \<Rightarrow> 'cb sched \<Rightarrow> 'cb sched" where
  "finish_task bit_index s =
     (let s = SchedLock s;
          s = s\<lparr>ready_bitmap := ready_bitmap s AND NOT (push_bit bit_index 1)\<rparr>;
          s = (if repeating (tasks s ! bit_index) then s else release_slot (of_nat bit_index) s)
      in SchedUnlock s)"



section \<open>Registration\<close>

definition register_task :: "u32 \<Rightarrow> 'cb option \<Rightarrow> 'cb sched \<Rightarrow> u16 \<times> 'cb sched" where
  "register_task period func s =
     (if func = None then (of_nat INVALID_ID, s)
      else let period = (if period = 0 then 1 else period)
      in if ucast period \<ge> kMaxIntervalUs then (of_nat INVALID_ID, s)
      else let (slot, s) = allocate_slot s
      in if slot = of_nat INVALID_ID then (ucast slot, s)
      else let t = (tasks s ! unat slot)\<lparr>callback := func, period_us := period, repeating := True,
                      task_id := ucast slot\<rparr>;
               s = SchedLock (s\<lparr>tasks := (tasks s)[unat slot := t]\<rparr>);
               t = t\<lparr>next_fire_us := ucast (global_tick s + ucast (tim_cnt s) + ucast period)\<rparr>;
               s = schedule_next_interval (insert_sorted slot (s\<lparr>tasks := (tasks s)[unat slot := t]\<rparr>))
           in (task_id t, SchedUnlock s))"

definition set_timeout :: "u32 \<Rightarrow> 'cb option \<Rightarrow> 'cb sched \<Rightarrow> u16 \<times> 'cb sched" where
  "set_timeout microseconds func s =
     (if func = None then (of_nat INVALID_ID, s)
      else let microseconds = (if microseconds = 0 then 1 else microseconds)
      in if ucast microseconds \<ge> kMaxIntervalUs then (of_nat INVALID_ID, s)
      else let (slot, s) = allocate_slot s
      in if slot = of_nat INVALID_ID then (ucast slot, s)
      else let t = (tasks s ! unat slot)\<lparr>callback := func, period_us := microseconds,
                      repeating := False,
                      task_id := ucast (ucast slot + ucast (timeout_idx s) * of_nat kMaxTasks :: u32)\<rparr>;
               s = s\<lparr>tasks := (tasks s)[unat slot := t], timeout_idx := timeout_idx s + 2\<rparr>;
               s = SchedLock s;
               t = t\<lparr>next_fire_us := ucast (global_tick s + ucast (tim_cnt s) + ucast microseconds)\<rparr>;
               s = schedule_next_interval (insert_sorted slot (s\<lparr>tasks := (tasks s)[unat slot := t]\<rparr>))
           in (task_id t, SchedUnlock s))"

text \<open>What \<open>unregister_task\<close> and \<open>cancel_timeout\<close> do to a slot they accept.\<close>

definition drop_slot :: "u8 \<Rightarrow> 'cb sched \<Rightarrow> 'cb sched" where
  "drop_slot i s =
     SchedUnlock (schedule_next_interval (release_slot i (remove_sorted i (SchedLock s))))"

definition unregister_task :: "u16 \<Rightarrow> 'cb sched \<Rightarrow> bool \<times> 'cb sched" where
  "unregister_task i s =
     (if unat i \<ge> kMaxTasks then (False, s)
      else if free_bitmap s AND push_bit (unat i) 1 \<noteq> 0 then (False, s)
      else (True, drop_slot (ucast i) s))"

definition cancel_timeout :: "u16 \<Rightarrow> 'cb sched \<Rightarrow> bool \<times> 'cb sched" where
  "cancel_timeout i s =
     (let idx = ucast i AND of_nat (kMaxTasks - 1) :: u32
      in if repeating (tasks s ! unat idx) then (False, s)
         else if task_id (tasks s ! unat idx) \<noteq> i then (False, s)
         else if free_bitmap s AND push_bit (unat idx) 1 \<noteq> 0 then (False, s)
         else (True, drop_slot (ucast idx) s))"

section \<open>Bits of the slot bitmaps\<close>

lemma bit_set_slot: "bit (w OR push_bit n (1 :: u32)) k \<longleftrightarrow> bit w k \<or> (k = n \<and> n < 32)"
  by (auto simp: bit_or_iff bit_push_bit_iff bit_1_iff bit_exp_iff possible_bit_word)

lemma bit_clear_slot: "bit (w AND NOT (push_bit n (1 :: u32))) k \<longleftrightarrow> bit w k \<and> k \<noteq> n"
  using bit_imp_le_length [of w k] by (auto simp: bit_and_iff bit_not_iff bit_push_bit_iff bit_1_iff bit_exp_iff possible_bit_word)

lemma slot_bit_clear_iff: "w AND push_bit n (1 :: u32) = 0 \<longleftrightarrow> \<not> bit w n"
proof
  assume "w AND push_bit n 1 = 0"
  then have "\<not> bit (w AND push_bit n 1) n" by simp
  then show "\<not> bit w n"
    using bit_imp_le_length [of w n] by (auto simp: bit_and_iff bit_push_bit_iff bit_1_iff bit_exp_iff possible_bit_word)
next
  assume "\<not> bit w n"
  then show "w AND push_bit n 1 = 0"
    by (intro bit_word_eqI) (auto simp: bit_and_iff bit_push_bit_iff bit_1_iff bit_exp_iff possible_bit_word)
qed

lemma ctz_lowest:
  fixes w :: "'a::len word"
  assumes "w \<noteq> 0"
  shows "bit w (ctz w)" and "j < ctz w \<Longrightarrow> \<not> bit w j" and "ctz w < LENGTH('a)"
proof -
  obtain n where n: "bit w n" "n < LENGTH('a)"
    using assms by (metis bit_word_eqI bit_imp_le_length bit_0_eq bot_apply bot_bool_def)
  then obtain m where m: "find (bit w) [0 ..< LENGTH('a)] = Some m"
    using find_None_iff [of "bit w" "[0 ..< LENGTH('a)]"] by (cases "find (bit w) [0 ..< LENGTH('a)]") auto
  then have c: "ctz w = m" by (simp add: ctz_def)
  from m show "bit w (ctz w)" "j < ctz w \<Longrightarrow> \<not> bit w j" "ctz w < LENGTH('a)"
    unfolding find_Some_iff c by auto
qed

section \<open>The invariant\<close>

text \<open>What each slot looks like: a free slot is neither queued nor ready; a periodic task stays in
  the queue; a timeout is queued until it fires and ready from then until it has run.\<close>

definition slot_ok :: "nat \<Rightarrow> 'cb task \<Rightarrow> bool \<Rightarrow> bool \<Rightarrow> bool \<Rightarrow> bool" where
  "slot_ok i t queued ready free \<longleftrightarrow>
     (if free then \<not> queued \<and> \<not> ready
      else callback t \<noteq> None \<and> 0 < unat (period_us t) \<and> unat (period_us t) < 2 ^ 31 \<and>
        unat (task_id t) mod 16 = i \<and>
        (if repeating t then queued \<and> unat (task_id t) div 16 = 0
         else queued \<noteq> ready \<and> odd (unat (task_id t) div 16)))"

definition slot_inv :: "'cb sched \<Rightarrow> nat \<Rightarrow> bool" where
  "slot_inv s i \<longleftrightarrow>
     slot_ok i (tasks s ! i) (of_nat i \<in> set (queue s)) (bit (ready_bitmap s) i) (bit (free_bitmap s) i)"

definition no_slot :: "'cb sched \<Rightarrow> nat \<Rightarrow> bool" where
  "no_slot s i \<longleftrightarrow> bit (free_bitmap s) i \<and> \<not> bit (ready_bitmap s) i"

definition sched_inv :: "'cb sched \<Rightarrow> bool" where
  "sched_inv s \<longleftrightarrow> length (tasks s) = 16 \<and> queue_inv s \<and> distinct (queue s) \<and>
     odd (unat (timeout_idx s)) \<and> list_all (slot_inv s) [0 ..< 16] \<and>
     list_all (no_slot s) [16 ..< 32]"

lemma list_all_upt: "list_all P [m ..< n] \<longleftrightarrow> (\<forall>i. m \<le> i \<and> i < n \<longrightarrow> P i)"
  by (simp only: list_all_iff set_upt) auto

lemma sched_inv_iff: "sched_inv s \<longleftrightarrow> length (tasks s) = 16 \<and> queue_inv s \<and> distinct (queue s) \<and>
    odd (unat (timeout_idx s)) \<and> (\<forall>i < 16. slot_inv s i) \<and> (\<forall>i. 16 \<le> i \<and> i < 32 \<longrightarrow> no_slot s i)"
  unfolding sched_inv_def list_all_upt by simp

lemma queue_cong: "sorted_ids s' = sorted_ids s \<Longrightarrow> active_count s' = active_count s \<Longrightarrow> queue s' = queue s"
  by (simp add: queue_def)

lemma queue_inv_cong:
  "sorted_ids s' = sorted_ids s \<Longrightarrow> active_count s' = active_count s \<Longrightarrow> queue_inv s' = queue_inv s"
  by (simp add: queue_inv_def)

lemma sched_inv_cong:
  assumes "tasks s' = tasks s" "sorted_ids s' = sorted_ids s" "active_count s' = active_count s"
    "ready_bitmap s' = ready_bitmap s" "free_bitmap s' = free_bitmap s" "timeout_idx s' = timeout_idx s"
  shows "sched_inv s' = sched_inv s"
  using assms queue_cong [OF assms(2,3)] queue_inv_cong [OF assms(2,3)]
  by (simp add: sched_inv_iff slot_inv_def no_slot_def)

lemma sched_inv_slot: "sched_inv s \<Longrightarrow> i < 16 \<Longrightarrow> slot_inv s i"
  by (simp add: sched_inv_iff)

lemma sched_inv_high:
  assumes "sched_inv s"
  shows "bit (ready_bitmap s) i \<Longrightarrow> i < 16" and "16 \<le> i \<Longrightarrow> i < 32 \<Longrightarrow> bit (free_bitmap s) i"
  using assms bit_imp_le_length [of "ready_bitmap s" i] by (auto simp: sched_inv_iff no_slot_def not_less)

lemma sched_invI:
  assumes "length (tasks s) = 16" "queue_inv s" "distinct (queue s)" "odd (unat (timeout_idx s))"
    and "\<And>i. i < 16 \<Longrightarrow> slot_inv s i"
    and "\<And>i. 16 \<le> i \<Longrightarrow> i < 32 \<Longrightarrow> bit (free_bitmap s) i \<and> \<not> bit (ready_bitmap s) i"
  shows "sched_inv s"
  using assms by (auto simp: sched_inv_iff no_slot_def)

lemma timer_frame [simp]:
  "tasks (SchedLock s) = tasks s" "sorted_ids (SchedLock s) = sorted_ids s"
  "active_count (SchedLock s) = active_count s" "ready_bitmap (SchedLock s) = ready_bitmap s"
  "free_bitmap (SchedLock s) = free_bitmap s" "timeout_idx (SchedLock s) = timeout_idx s"
  "global_tick (SchedLock s) = global_tick s" "failing_id (SchedLock s) = failing_id s"
  "tim_cnt (SchedLock s) = tim_cnt s" "last_tick (SchedLock s) = last_tick s"
  "current_interval (SchedLock s) = current_interval s"
  "tasks (SchedUnlock s) = tasks s" "sorted_ids (SchedUnlock s) = sorted_ids s"
  "active_count (SchedUnlock s) = active_count s" "ready_bitmap (SchedUnlock s) = ready_bitmap s"
  "free_bitmap (SchedUnlock s) = free_bitmap s" "timeout_idx (SchedUnlock s) = timeout_idx s"
  "global_tick (SchedUnlock s) = global_tick s" "failing_id (SchedUnlock s) = failing_id s"
  "tim_cnt (SchedUnlock s) = tim_cnt s" "last_tick (SchedUnlock s) = last_tick s"
  "current_interval (SchedUnlock s) = current_interval s"
  by (simp_all add: SchedLock_def SchedUnlock_def)

lemma schedule_frame [simp]:
  "tasks (schedule_next_interval s) = tasks s" "sorted_ids (schedule_next_interval s) = sorted_ids s"
  "active_count (schedule_next_interval s) = active_count s"
  "ready_bitmap (schedule_next_interval s) = ready_bitmap s"
  "free_bitmap (schedule_next_interval s) = free_bitmap s"
  "timeout_idx (schedule_next_interval s) = timeout_idx s"
  "failing_id (schedule_next_interval s) = failing_id s"
  "last_tick (schedule_next_interval s) = last_tick s"
  by (simp_all add: schedule_next_interval_def global_timer_disable_def global_timer_enable_def Let_def)

lemma queue_frame [simp]:
  "queue (SchedLock s) = queue s" "queue (SchedUnlock s) = queue s"
  "queue (schedule_next_interval s) = queue s"
  "queue_inv (SchedLock s) = queue_inv s" "queue_inv (SchedUnlock s) = queue_inv s"
  "queue_inv (schedule_next_interval s) = queue_inv s"
  by (rule queue_cong queue_inv_cong; simp)+

lemma inv_frame [simp]:
  "sched_inv (SchedLock s) = sched_inv s" "sched_inv (SchedUnlock s) = sched_inv s"
  "sched_inv (schedule_next_interval s) = sched_inv s"
  by (rule sched_inv_cong; simp)+

lemma init_sched_inv: "sched_inv (init_sched :: 'cb sched)"
proof (rule sched_invI)
  have q: "queue (init_sched :: 'cb sched) = []" by (simp add: queue_def id_list_def init_sched_def)
  show "queue_inv (init_sched :: 'cb sched)"
    by (auto simp: queue_inv_def init_sched_def nibble_def)
  have f: "bit (0xFFFFFFFF :: u32) i" if "i < 32" for i
  proof -
    have "list_all (bit (0xFFFFFFFF :: u32)) [0..<32]" by code_simp
    with that show ?thesis by (auto simp: list_all_iff)
  qed
  show "slot_inv (init_sched :: 'cb sched) i" if "i < 16" for i
    using that f [of i] q by (simp add: slot_inv_def slot_ok_def) (simp add: init_sched_def)
  show "bit (free_bitmap (init_sched :: 'cb sched)) i \<and> \<not> bit (ready_bitmap (init_sched :: 'cb sched)) i"
    if "16 \<le> i" "i < 32" for i
    using that f [of i] by (simp add: init_sched_def)
qed (simp_all add: init_sched_def kMaxTasks_def queue_def id_list_def)

lemmas bit_slot = bit_set_slot bit_clear_slot
  bit_set_slot [unfolded push_bit_of_1] bit_clear_slot [unfolded push_bit_of_1]

lemma of_nat_u8 [simp]: "i < 16 \<Longrightarrow> unat (of_nat i :: u8) = i"
  by (simp add: unat_of_nat)

lemma of_nat_u8_less: "i < 16 \<Longrightarrow> (of_nat i :: u8) < 16"
  by (simp add: word_less_nat_alt)

lemma of_nat_u8_inj: "i < 16 \<Longrightarrow> j < 16 \<Longrightarrow> (of_nat i :: u8) = of_nat j \<longleftrightarrow> i = j"
  by (metis of_nat_u8)

lemma u8_cases16: "(i :: u8) < 16 \<Longrightarrow> unat i < 16 \<and> of_nat (unat i) = i"
  by (simp add: word_less_nat_alt)

text \<open>A state that differs from one in the invariant only at slot \<open>i\<close> is in the invariant if that
  slot is.\<close>

lemma sched_inv_slot_change:
  assumes inv: "sched_inv s" and i: "i < 16"
    and q: "queue_inv s'" "distinct (queue s')" and t: "odd (unat (timeout_idx s'))"
    and len: "length (tasks s') = length (tasks s)"
    and other: "\<And>j. j < 16 \<Longrightarrow> j \<noteq> i \<Longrightarrow> tasks s' ! j = tasks s ! j"
      "\<And>j. j < 16 \<Longrightarrow> j \<noteq> i \<Longrightarrow> of_nat j \<in> set (queue s') \<longleftrightarrow> of_nat j \<in> set (queue s)"
      "\<And>j. j \<noteq> i \<Longrightarrow> bit (ready_bitmap s') j = bit (ready_bitmap s) j"
      "\<And>j. j \<noteq> i \<Longrightarrow> bit (free_bitmap s') j = bit (free_bitmap s) j"
    and here: "slot_inv s' i"
  shows "sched_inv s'"
proof (rule sched_invI)
  show "slot_inv s' j" if "j < 16" for j
    using that here other sched_inv_slot [OF inv that] by (cases "j = i") (simp_all add: slot_inv_def)
  show "bit (free_bitmap s') j \<and> \<not> bit (ready_bitmap s') j" if "16 \<le> j" "j < 32" for j
    using that i inv other(3,4) [of j] by (auto simp: sched_inv_iff no_slot_def)
qed (use inv q t len in \<open>auto simp: sched_inv_iff\<close>)

lemma sched_inv_parts:
  assumes "sched_inv s"
  shows "length (tasks s) = 16" and "queue_inv s" and "distinct (queue s)" and "odd (unat (timeout_idx s))"
  using assms by (simp_all add: sched_inv_iff)

lemma slot_known:
  assumes "sched_inv s" and "i < 16"
  shows "bit (free_bitmap s) i \<Longrightarrow> of_nat i \<notin> set (queue s) \<and> \<not> bit (ready_bitmap s) i"
    and "of_nat i \<in> set (queue s) \<Longrightarrow> \<not> bit (free_bitmap s) i"
    and "bit (ready_bitmap s) i \<Longrightarrow> \<not> bit (free_bitmap s) i"
  using sched_inv_slot [OF assms] by (auto simp: slot_inv_def slot_ok_def)

lemma queue_room:
  assumes "queue_inv s" and "distinct (queue s)" and "i < 16" and "i \<notin> set (queue s)"
  shows "length (queue s) < 16"
proof -
  have "set (queue s) \<subseteq> {..< 16} - {i}" using assms(4) queue_ids by auto
  then have "card (set (queue s)) \<le> card ({..< (16 :: u8)} - {i})" by (intro card_mono) auto
  then have le: "card (set (queue s)) \<le> card {..< (16 :: u8)} - 1"
    using assms(3) by (simp add: card_Diff_singleton)
  have "{..< (16 :: u8)} \<subseteq> of_nat ` {..< 16}"
  proof
    fix x :: u8 assume "x \<in> {..< 16}"
    then have "unat x \<in> {..< 16}" "x = of_nat (unat x)" using u8_cases16 [of x] by auto
    then show "x \<in> of_nat ` {..< 16}" by blast
  qed
  then have "card {..< (16 :: u8)} \<le> card {..< 16 :: nat}" by (intro surj_card_le) auto
  with le have "card (set (queue s)) \<le> 15" by (simp only: card_lessThan)
  then show ?thesis using assms(2) distinct_card [of "queue s"] by linarith
qed

section \<open>Every operation keeps the invariant\<close>

lemma allocate_slot_cases:
  assumes "sched_inv s"
  obtains (none) "allocate_slot s = (of_nat INVALID_ID, s)" and "\<And>i. i < 16 \<Longrightarrow> \<not> bit (free_bitmap s) i"
  | (some) i where "i < 16" and "bit (free_bitmap s) i" and "\<And>j. j < i \<Longrightarrow> \<not> bit (free_bitmap s) j"
      and "allocate_slot s = (of_nat i, s\<lparr>free_bitmap := free_bitmap s AND NOT (push_bit i 1)\<rparr>)"
proof -
  let ?w = "free_bitmap s"
  have "bit ?w 16" using sched_inv_high(2) [OF assms, of 16] by simp
  then have nz: "?w \<noteq> 0" by auto
  note low = ctz_lowest [OF nz]
  have idx: "(of_nat (ffs ?w) - 1 :: u32) = of_nat (ctz ?w)" using nz by (simp add: ffs_def)
  have u: "unat (of_nat (ctz ?w) :: u32) = ctz ?w" using low(3) by (simp add: unat_of_nat)
  show ?thesis
  proof (cases "16 \<le> ctz ?w")
    case True
    then have "(of_nat (ctz ?w) :: u32) \<ge> of_nat kMaxTasks"
      using u by (simp add: word_le_nat_alt kMaxTasks_def)
    then show ?thesis
      using True low(2) by (intro none) (auto simp: allocate_slot_def idx Let_def)
  next
    case False
    then have "\<not> (of_nat (ctz ?w) :: u32) \<ge> of_nat kMaxTasks"
      using u by (simp add: word_le_nat_alt kMaxTasks_def)
    moreover have "ucast (of_nat (ctz ?w) :: u32) = (of_nat (ctz ?w) :: u8)"
      using low(3) by (simp add: unsigned_of_nat take_bit_nat_eq_self)
    ultimately show ?thesis
      using False low u by (intro some [of "ctz ?w"]) (simp_all add: allocate_slot_def idx Let_def)
  qed
qed

text \<open>Arming a slot: the common part of \<open>register_task\<close> and \<open>set_timeout\<close>.\<close>

lemma arm_inv:
  assumes inv: "sched_inv s" and i: "i < 16" and free: "bit (free_bitmap s) i"
    and t: "slot_ok i t True False False"
    and s1: "tasks s1 = (tasks s)[i := t]" "sorted_ids s1 = sorted_ids s" "active_count s1 = active_count s"
      "ready_bitmap s1 = ready_bitmap s" "free_bitmap s1 = free_bitmap s AND NOT (push_bit i 1)"
      "odd (unat (timeout_idx s1))"
  shows "sched_inv (insert_sorted (of_nat i) s1)"
    and "set (queue (insert_sorted (of_nat i) s1)) = insert (of_nat i) (set (queue s))"
proof -
  let ?i = "of_nat i :: u8" and ?s' = "insert_sorted (of_nat i) s1"
  note parts = sched_inv_parts [OF inv]
  have q1: "queue s1 = queue s" "queue_inv s1"
    using queue_cong [OF s1(2,3)] queue_inv_cong [OF s1(2,3)] parts by auto
  have absent: "?i \<notin> set (queue s)" "\<not> bit (ready_bitmap s) i"
    using slot_known(1) [OF inv i free] by auto
  have i8: "?i < 16" by (rule of_nat_u8_less [OF i])
  have room: "length (queue s1) < 16"
    using queue_room [OF parts(2,3) i8 absent(1)] q1 by simp
  note ins = packed.set_enqueue [OF q1(2) room i8] packed.enqueue_ok [OF q1(2) room i8]
  show set: "set (queue ?s') = insert ?i (set (queue s))" using ins q1 by simp
  have fr: "ready_bitmap ?s' = ready_bitmap s1" "free_bitmap ?s' = free_bitmap s1"
      "timeout_idx ?s' = timeout_idx s1"
    by (simp_all add: insert_sorted_def Let_def)
  show "sched_inv ?s'"
  proof (rule sched_inv_slot_change [OF inv i])
    show "queue_inv ?s'" by (rule ins)
    show "distinct (queue ?s')"
      using packed.distinct_enqueue [OF q1(2) room i8] q1 absent parts by simp
    show "of_nat j \<in> set (queue ?s') \<longleftrightarrow> of_nat j \<in> set (queue s)" if "j < 16" "j \<noteq> i" for j
      using that set of_nat_u8_inj [OF that(1) i] by simp
    show "slot_inv ?s' i"
      using t set i absent parts(1) by (simp add: slot_inv_def fr s1 bit_slot)
  qed (simp_all add: fr s1 bit_slot)
qed

lemma drop_slot_inv:
  assumes inv: "sched_inv s" and i: "i < 16"
    and queued: "of_nat i \<in> set (queue s) \<or> i \<noteq> 0 \<or> length (queue s) = 16"
  shows "sched_inv (drop_slot (of_nat i) s)"
    and "queue (drop_slot (of_nat i) s) = filter (\<lambda>j. j \<noteq> of_nat i) (queue s)"
    and "bit (free_bitmap (drop_slot (of_nat i) s)) i"
proof -
  let ?i = "of_nat i :: u8"
  let ?r = "remove_sorted ?i (SchedLock s)" and ?s' = "drop_slot ?i s"
  note parts = sched_inv_parts [OF inv]
  have i8: "?i < 16" "unat ?i = i" using of_nat_u8_less i by auto
  have rq: "queue_inv ?r" "queue ?r = filter (\<lambda>j. j \<noteq> ?i) (queue s)"
    using remove_sorted_removes [of "SchedLock s" ?i] parts i8 queued i
    by (auto simp: word_unat_eq_iff)
  have fr: "tasks ?r = tasks s" "ready_bitmap ?r = ready_bitmap s" "free_bitmap ?r = free_bitmap s"
      "timeout_idx ?r = timeout_idx s"
    by (simp_all add: remove_sorted_def Let_def)
  have q': "queue ?s' = queue ?r" "queue_inv ?s' = queue_inv ?r"
    unfolding drop_slot_def queue_frame release_slot_def by (rule queue_cong queue_inv_cong; simp)+
  have s': "tasks ?s' = tasks s" "timeout_idx ?s' = timeout_idx s"
      "ready_bitmap ?s' = ready_bitmap s AND NOT (push_bit i 1)"
      "free_bitmap ?s' = free_bitmap s OR push_bit i 1"
    using i8 by (simp_all add: drop_slot_def release_slot_def fr)
  show "queue ?s' = filter (\<lambda>j. j \<noteq> ?i) (queue s)" using q' rq by simp
  show "bit (free_bitmap ?s') i" using i by (simp add: s' bit_slot)
  show "sched_inv ?s'"
  proof (rule sched_inv_slot_change [OF inv i])
    show "of_nat j \<in> set (queue ?s') \<longleftrightarrow> of_nat j \<in> set (queue s)" if "j < 16" "j \<noteq> i" for j
      using that q' rq of_nat_u8_inj [OF that(1) i] by simp
    show "slot_inv ?s' i"
      using i q' rq by (simp add: slot_inv_def slot_ok_def s' bit_slot)
  qed (use parts q' rq i in \<open>simp_all add: s' bit_slot\<close>)
qed

lemma period_limit: "kMaxIntervalUs \<le> ucast (if p = 0 then 1 else p :: u32) \<longleftrightarrow> 2 ^ 31 \<le> unat p"
proof -
  have k: "unat kMaxIntervalUs = 2 ^ 31" by (simp add: kMaxIntervalUs_def)
  have u: "unat (ucast q :: u64) = unat q" for q :: u32
    using unsigned_less [of q, where 'a = nat] by (simp only: unsigned_ucast_eq) (simp add: take_bit_nat_eq_self_iff)
  show ?thesis
  proof (cases "p = 0")
    case True
    have "\<not> kMaxIntervalUs \<le> ucast (1 :: u32)"
      unfolding word_le_nat_alt k u by simp
    with True show ?thesis by simp
  qed (simp add: word_le_nat_alt k u)
qed

lemma period_range:
  assumes "\<not> 2 ^ 31 \<le> unat (p :: u32)"
  shows "0 < unat (if p = 0 then 1 else p)" and "unat (if p = 0 then 1 else p) < 2 ^ 31"
proof -
  let ?p = "if p = 0 then 1 else p"
  have "?p \<noteq> 0" by simp
  then show "0 < unat ?p" by (simp only: unat_eq_zero neq0_conv [symmetric] not_False_eq_True)
  show "unat ?p < 2 ^ 31" using assms by (cases "p = 0") simp_all
qed

lemma slot_not_invalid: "i < 16 \<Longrightarrow> (of_nat i :: u8) \<noteq> of_nat INVALID_ID"
  by (auto simp: INVALID_ID_def kMaxTasks_def word_unat_eq_iff)

definition arm :: "nat \<Rightarrow> 'cb task \<Rightarrow> u16 \<Rightarrow> 'cb sched \<Rightarrow> 'cb sched" where
  "arm i t tmo s = SchedUnlock (schedule_next_interval (insert_sorted (of_nat i)
     (s\<lparr>free_bitmap := free_bitmap s AND NOT (push_bit i 1), timeout_idx := tmo, irq_on := False,
        tasks := (tasks s)[i := t]\<rparr>)))"

lemma arm_sched_inv:
  assumes "sched_inv s" "i < 16" "bit (free_bitmap s) i" "slot_ok i t True False False" "odd (unat tmo)"
  shows "sched_inv (arm i t tmo s)"
    and "set (queue (arm i t tmo s)) = insert (of_nat i) (set (queue s))"
proof -
  let ?s1 = "s\<lparr>free_bitmap := free_bitmap s AND NOT (push_bit i 1), timeout_idx := tmo, irq_on := False,
        tasks := (tasks s)[i := t]\<rparr>"
  note arm_inv [OF assms(1-4), of ?s1]
  with assms(5) show "sched_inv (arm i t tmo s)"
    "set (queue (arm i t tmo s)) = insert (of_nat i) (set (queue s))"
    by (simp_all add: arm_def)
qed

text \<open>The two ways a registration ends: the invalid identifier and the state as it was, or a
  free slot armed with the new task.\<close>

lemma register_task_cases:
  assumes "sched_inv s"
  obtains (refused) "f = None \<or> 2 ^ 31 \<le> unat p \<or> (\<forall>i < 16. \<not> bit (free_bitmap s) i)"
      "register_task p f s = (of_nat INVALID_ID, s)"
  | (armed) i t where "i < 16" "bit (free_bitmap s) i" "slot_ok i t True False False" "callback t = f"
      "repeating t" "period_us t = (if p = 0 then 1 else p)"
      "f \<noteq> None" "unat p < 2 ^ 31" "\<And>j. j < i \<Longrightarrow> \<not> bit (free_bitmap s) j"
      "next_fire_us t = ucast (global_tick s + ucast (tim_cnt s) + ucast (period_us t))"
      "register_task p f s = (of_nat i, arm i t (timeout_idx s) s)"
  using assms
proof (cases rule: allocate_slot_cases)
  case none
  then show ?thesis by (intro refused) (simp_all add: register_task_def Let_def INVALID_ID_def kMaxTasks_def)
next
  case (some i)
  let ?p = "if p = 0 then 1 else p"
  show ?thesis
  proof (cases "f = None \<or> 2 ^ 31 \<le> unat p")
    case True
    then show ?thesis by (intro refused) (auto simp: register_task_def Let_def period_limit)
  next
    case False
    then obtain g where f: "f = Some g" and k: "\<not> 2 ^ 31 \<le> unat p" by auto
    note p = period_range [OF k]
    let ?t = "(tasks s ! i)\<lparr>callback := f, period_us := ?p, repeating := True, task_id := of_nat i,
        next_fire_us := ucast (global_tick s + ucast (tim_cnt s) + ucast ?p)\<rparr>"
    have id: "ucast (of_nat i :: u8) = (of_nat i :: u16)"
      using some(1) by (simp add: unsigned_of_nat take_bit_nat_eq_self)
    have "unat (of_nat i :: u16) = i" using some(1) by (simp add: unat_of_nat)
    then have ok: "slot_ok i ?t True False False"
      using some(1) p f by (simp add: slot_ok_def)
    have "register_task p f s = (of_nat i, arm i ?t (timeout_idx s) s)"
      unfolding register_task_def some(4) Let_def
      using k slot_not_invalid [OF some(1)] some(1) period_limit
      by (simp add: f arm_def SchedLock_def id split del: if_split)
    with some(1-3) ok k f show ?thesis by (intro armed [of i ?t]) simp_all
  qed
qed

lemma timeout_id_value:
  assumes "i < 16"
  shows "unat (ucast (ucast (of_nat i :: u8) + ucast (tmo :: u16) * of_nat kMaxTasks :: u32) :: u16) =
    i + 16 * (unat tmo mod 4096)"
proof -
  have a: "unat (ucast (of_nat i :: u8) :: u32) = i"
    using assms by (simp add: unsigned_of_nat take_bit_nat_eq_self)
  have t: "unat tmo < 2 ^ 16" using unsigned_less [of tmo, where 'a = nat] by simp
  then have b: "unat (ucast tmo :: u32) = unat tmo"
    by (simp add: unsigned_ucast_eq take_bit_nat_eq_self_iff)
  have c: "unat (ucast tmo * of_nat kMaxTasks :: u32) = unat tmo * 16"
    using t b by (simp add: kMaxTasks_def unat_word_ariths)
  have "unat (ucast (of_nat i :: u8) + ucast tmo * of_nat kMaxTasks :: u32) = i + unat tmo * 16"
    using t assms unfolding unat_word_ariths(1) a c by simp
  then have "unat (ucast (ucast (of_nat i :: u8) + ucast tmo * of_nat kMaxTasks :: u32) :: u16) =
      (i + unat tmo * 16) mod 2 ^ 16"
    by (simp only: unsigned_ucast_eq take_bit_eq_mod) simp
  also have "\<dots> = (i + unat tmo * 16) mod (16 * 4096)" by simp
  also have "\<dots> = i + 16 * (unat tmo mod 4096)"
    unfolding mod_mult2_eq using assms by simp
  finally show ?thesis .
qed

lemma odd_timeout_idx: "odd (unat (t :: u16)) \<Longrightarrow> odd (unat (t + 2))"
  unfolding unat_word_ariths(1) by (simp add: dvd_mod_iff)

lemma set_timeout_cases:
  assumes "sched_inv s"
  obtains (refused) "f = None \<or> 2 ^ 31 \<le> unat us \<or> (\<forall>i < 16. \<not> bit (free_bitmap s) i)"
      "set_timeout us f s = (of_nat INVALID_ID, s)"
  | (armed) i t where "i < 16" "bit (free_bitmap s) i" "slot_ok i t True False False" "callback t = f"
      "\<not> repeating t" "period_us t = (if us = 0 then 1 else us)"
      "f \<noteq> None" "unat us < 2 ^ 31" "\<And>j. j < i \<Longrightarrow> \<not> bit (free_bitmap s) j"
      "next_fire_us t = ucast (global_tick s + ucast (tim_cnt s) + ucast (period_us t))"
      "unat (task_id t) = i + 16 * (unat (timeout_idx s) mod 4096)"
      "set_timeout us f s = (task_id t, arm i t (timeout_idx s + 2) s)"
  using assms
proof (cases rule: allocate_slot_cases)
  case none
  then show ?thesis by (intro refused) (simp_all add: set_timeout_def Let_def INVALID_ID_def kMaxTasks_def)
next
  case (some i)
  let ?p = "if us = 0 then 1 else us"
  show ?thesis
  proof (cases "f = None \<or> 2 ^ 31 \<le> unat us")
    case True
    then show ?thesis by (intro refused) (auto simp: set_timeout_def Let_def period_limit)
  next
    case False
    then obtain g where f: "f = Some g" and k: "\<not> 2 ^ 31 \<le> unat us" by auto
    note p = period_range [OF k]
    define id where "id = (ucast (ucast (of_nat i :: u8) + ucast (timeout_idx s) * of_nat kMaxTasks :: u32) :: u16)"
    let ?t = "(tasks s ! i)\<lparr>callback := f, period_us := ?p, repeating := False, task_id := id,
        next_fire_us := ucast (global_tick s + ucast (tim_cnt s) + ucast ?p)\<rparr>"
    have id: "unat id = i + 16 * (unat (timeout_idx s) mod 4096)"
      unfolding id_def by (rule timeout_id_value [OF some(1)])
    have "odd (unat (timeout_idx s))" by (rule sched_inv_parts [OF assms])
    then have "odd (unat (timeout_idx s) mod 4096)" by (simp add: dvd_mod_iff)
    then have ok: "slot_ok i ?t True False False"
      using some(1) p f by (simp add: slot_ok_def id)
    have "set_timeout us f s = (id, arm i ?t (timeout_idx s + 2) s)"
      unfolding set_timeout_def some(4) Let_def
      using k slot_not_invalid [OF some(1)] some(1) period_limit
      by (simp add: f arm_def SchedLock_def id_def [symmetric] split del: if_split)
    with some(1-3) ok id k f show ?thesis by (intro armed [of i ?t]) simp_all
  qed
qed

lemma register_task_inv:
  assumes "sched_inv s"
  shows "sched_inv (snd (register_task p f s))"
  using assms
  by (cases rule: register_task_cases [where p = p and f = f]) (simp_all add: assms arm_sched_inv sched_inv_parts)

lemma set_timeout_inv:
  assumes "sched_inv s"
  shows "sched_inv (snd (set_timeout us f s))"
  using assms
  by (cases rule: set_timeout_cases [where us = us and f = f]) (simp_all add: assms arm_sched_inv sched_inv_parts odd_timeout_idx)

lemma unregister_task_inv:
  assumes "sched_inv s" and "ucast i \<in> set (queue s) \<or> i \<noteq> 0"
  shows "sched_inv (snd (unregister_task i s))"
proof (cases "unat i < 16")
  case True
  have "(ucast i :: u8) = of_nat (unat i)" by simp
  with True show ?thesis
    using drop_slot_inv(1) [OF assms(1), of "unat i"] assms
    by (cases "i = 0") (simp_all add: unregister_task_def kMaxTasks_def unat_eq_zero)
qed (use assms in \<open>simp add: unregister_task_def kMaxTasks_def\<close>)

lemma timeout_slot: "unat ((ucast (i :: u16) :: u32) AND of_nat (kMaxTasks - 1)) = unat i mod 16"
proof -
  have "(of_nat (kMaxTasks - 1) :: u32) = mask 4"
    by (simp add: kMaxTasks_def mask_eq_exp_minus_1)
  moreover have "unat (ucast i :: u32) = unat i"
    using unsigned_less [of i, where 'a = nat] by (simp add: unsigned_ucast_eq take_bit_nat_eq_self_iff)
  ultimately show ?thesis
    by (simp add: unsigned_take_bit_eq flip: take_bit_eq_mask) (simp add: take_bit_eq_mod)
qed

lemma cancel_timeout_inv:
  assumes "sched_inv s" and "of_nat (unat i mod 16) \<in> set (queue s) \<or> unat i mod 16 \<noteq> 0"
  shows "sched_inv (snd (cancel_timeout i s))"
proof -
  let ?idx = "(ucast i :: u32) AND of_nat (kMaxTasks - 1)"
  have "(ucast ?idx :: u8) = of_nat (unat i mod 16)" 
    by (metis timeout_slot of_nat_unat)
  then show ?thesis
    using drop_slot_inv(1) [OF assms(1), of "unat i mod 16"] assms
    by (auto simp: cancel_timeout_def Let_def)
qed

section \<open>The timer interrupt\<close>

definition rearmed :: "'cb sched \<Rightarrow> 'cb task \<Rightarrow> 'cb task" where
  "rearmed s t = t\<lparr>next_fire_us := ucast (global_tick s + ucast (period_us t))\<rparr>"

lemma fire_front_frame:
  "ready_bitmap (fire_front i s) = ready_bitmap s OR push_bit (unat i) 1"
  "free_bitmap (fire_front i s) = free_bitmap s"
  "timeout_idx (fire_front i s) = timeout_idx s"
  "global_tick (fire_front i s) = global_tick s"
  "last_tick (fire_front i s) = last_tick s"
  "tasks (fire_front i s) =
    (if repeating (tasks s ! unat i) then (tasks s)[unat i := rearmed s (tasks s ! unat i)] else tasks s)"
  by (simp_all add: fire_front_def Let_def pop_front_def insert_sorted_def rearmed_def)

text \<open>The state in which a periodic task goes back into the queue.\<close>

definition popped :: "u8 \<Rightarrow> 'cb sched \<Rightarrow> 'cb sched" where
  "popped i s = (pop_front s)\<lparr>tasks := (tasks s)[unat i := rearmed s (tasks s ! unat i)]\<rparr>"

lemma queue_fire_front:
  "queue (fire_front i s) =
    (if repeating (tasks s ! unat i) then queue (insert_sorted i (popped i s)) else queue (pop_front s))"
  "queue_inv (fire_front i s) =
    (if repeating (tasks s ! unat i) then queue_inv (insert_sorted i (popped i s)) else queue_inv (pop_front s))"
  unfolding fire_front_def Let_def queue_frame
  by (cases "repeating (tasks s ! unat i)";
      simp add: queue_def queue_inv_def pop_front_def popped_def insert_sorted_def fires_no_earlier_def
        [abs_def] get_at_def Let_def rearmed_def SchedLock_def)+

lemma ucast_add_u32: "(ucast (a + ucast p :: u64) :: u32) = ucast a + (p :: u32)"
proof -
  have "uint (ucast (a + ucast p :: u64) :: u32) = uint (ucast a + p)"
    by (simp add: unsigned_ucast_eq uint_word_ariths take_bit_eq_mod mod_mod_cancel mod_simps)
  then show ?thesis by (simp only: word_uint_eq_iff)
qed

lemma sint_pos_iff: "0 < sint (w :: u32) \<longleftrightarrow> w \<noteq> 0 \<and> unat w < 2 ^ 31"
proof -
  have "0 < sint w \<longleftrightarrow> 0 \<le> sint w \<and> sint w \<noteq> 0" by linarith
  also have "sint w = 0 \<longleftrightarrow> w = 0" by (rule signed_eq_0_iff)
  finally have *: "0 < sint w \<longleftrightarrow> uint w < 2 ^ 31 \<and> w \<noteq> 0" by (simp only: sint_nonneg_iff)
  have "uint w < 2 ^ 31 \<longleftrightarrow> unat w < 2 ^ 31"
    using of_nat_less_iff [where 'a = int, of "unat w" "2 ^ 31"] by simp
  with * show ?thesis by blast
qed

lemma rearmed_later:
  assumes "0 < unat (period_us t)" and "unat (period_us t) < 2 ^ 31"
  shows "0 < sint (next_fire_us (rearmed s t) - ucast (global_tick s))"
proof -
  have "next_fire_us (rearmed s t) - ucast (global_tick s) = period_us t"
    by (simp add: rearmed_def ucast_add_u32)
  moreover have "period_us t \<noteq> 0" using assms(1) by auto
  ultimately show ?thesis using assms(2) sint_pos_iff by simp
qed

text \<open>One turn of the loop, on a queued task that is due.\<close>

lemma fire_front_step:
  assumes inv: "sched_inv s" and ne: "queue s \<noteq> []"
  defines "i \<equiv> front_id s"
  shows "sched_inv (fire_front i s)"
    and "set (queue (fire_front i s)) =
      (if repeating (tasks s ! unat i) then set (queue s) else set (queue s) - {i})"
    and "repeating (tasks s ! unat i) \<Longrightarrow> \<not> due (fire_front i s) i"
    and "j < 16 \<Longrightarrow> j \<noteq> i \<Longrightarrow> due (fire_front i s) j = due s j"
proof -
  let ?t = "tasks s ! unat i" and ?s' = "fire_front i s"
  note parts = sched_inv_parts [OF inv]
  have i: "i \<in> set (queue s)" "i < 16" "unat i < 16"
    using packed.front_in [OF ne] queue_ids u8_cases16 unfolding i_def by auto
  have slot: "slot_inv s (unat i)" by (rule sched_inv_slot [OF inv i(3)])
  then have notfree: "\<not> bit (free_bitmap s) (unat i)" using i by (simp add: slot_inv_def slot_ok_def split: if_splits)
  with slot have t: "0 < unat (period_us ?t)" "unat (period_us ?t) < 2 ^ 31"
    by (simp_all add: slot_inv_def slot_ok_def)
  note pop = packed.dequeue_ok [OF parts(2) ne] packed.set_dequeue [OF parts(2) ne parts(3), folded i_def]
    packed.distinct_dequeue [OF parts(2) ne parts(3)]
  have pq: "queue (popped i s) = queue (pop_front s)" "queue_inv (popped i s)"
    using pop(1) by (simp_all add: popped_def queue_def queue_inv_def)
  have absent: "i \<notin> set (queue (popped i s))" using pop(2) pq(1) by simp
  have room: "length (queue (popped i s)) < 16"
    by (rule queue_room [OF pq(2) _ i(2) absent]) (use pq pop in simp)
  note ins = packed.enqueue_ok [OF pq(2) room i(2)] packed.set_enqueue [OF pq(2) room i(2)]
    packed.distinct_enqueue [OF pq(2) room i(2) _ absent]
  show set': "set (queue ?s') = (if repeating ?t then set (queue s) else set (queue s) - {i})"
    using ins(2) pop(2) pq(1) i(1) by (auto simp: queue_fire_front)
  show "sched_inv ?s'"
  proof (rule sched_inv_slot_change [OF inv i(3)])
    show "queue_inv ?s'" using ins(1) pop(1) by (simp add: queue_fire_front)
    show "distinct (queue ?s')" using ins(3) pop(3) pq(1) by (simp add: queue_fire_front)
    show "of_nat j \<in> set (queue ?s') \<longleftrightarrow> of_nat j \<in> set (queue s)" if "j < 16" "j \<noteq> unat i" for j
    proof -
      have "(of_nat j :: u8) \<noteq> i" using that by auto
      with set' show ?thesis by simp
    qed
    show "slot_inv ?s' (unat i)"
      using slot i parts(1) notfree set'
      by (simp add: slot_inv_def slot_ok_def fire_front_frame bit_slot rearmed_def)
  qed (use parts in \<open>simp_all add: fire_front_frame bit_slot\<close>)
  show "repeating ?t \<Longrightarrow> \<not> due ?s' i"
    using rearmed_later [OF t] i(3) parts(1) by (simp add: due_def fire_front_frame)
  show "j < 16 \<Longrightarrow> j \<noteq> i \<Longrightarrow> due ?s' j = due s j"
    by (simp add: due_def fire_front_frame word_unat_eq_iff)
qed

definition due_set :: "'cb sched \<Rightarrow> u8 set" where
  "due_set s = {j \<in> set (queue s). due s j}"

lemma due_set_step:
  assumes "sched_inv s" and "queue s \<noteq> []" and "due s (front_id s)"
  shows "due_set (fire_front (front_id s) s) = due_set s - {front_id s}"
    and "card (due_set (fire_front (front_id s) s)) < card (due_set s)"
proof -
  let ?i = "front_id s"
  note step = fire_front_step [OF assms(1,2)]
  have i: "?i \<in> due_set s" using packed.front_in [OF assms(2)] assms(3) by (simp add: due_set_def)
  show eq: "due_set (fire_front ?i s) = due_set s - {?i}"
  proof (intro set_eqI iffI)
    fix j assume "j \<in> due_set (fire_front ?i s)"
    then show "j \<in> due_set s - {?i}"
      using step(2,3) step(4) [of j] queue_ids [of j s]
      by (cases "j = ?i") (auto simp: due_set_def split: if_splits)
  next
    fix j assume "j \<in> due_set s - {?i}"
    then show "j \<in> due_set (fire_front ?i s)"
      using step(2) step(4) [of j] queue_ids [of j s] by (auto simp: due_set_def)
  qed
  have "finite (due_set s)" by (simp add: due_set_def)
  then show "card (due_set (fire_front ?i s)) < card (due_set s)"
    unfolding eq using i by (rule card_Diff1_less)
qed

lemma pop_due_turn:
  "queue s \<noteq> [] \<Longrightarrow> due s (front_id s) \<Longrightarrow> pop_due s = pop_due (fire_front (front_id s) s)"
  by (subst pop_due.simps) (auto simp: queue_Nil_iff)

lemma pop_due_stop:
  "queue s = [] \<or> \<not> due s (front_id s) \<Longrightarrow> pop_due s = Some s"
  by (subst pop_due.simps) (auto simp: queue_Nil_iff unat_eq_zero)

lemma pop_due_total:
  "sched_inv s \<Longrightarrow> \<exists>s'. pop_due s = Some s' \<and> sched_inv s' \<and>
    last_tick s' = last_tick s \<and> (queue s' = [] \<or> \<not> due s' (front_id s'))"
proof (induction "card (due_set s)" arbitrary: s rule: less_induct)
  case less
  show ?case
  proof (cases "queue s \<noteq> [] \<and> due s (front_id s)")
    case True
    then have "card (due_set (fire_front (front_id s) s)) < card (due_set s)"
      "sched_inv (fire_front (front_id s) s)"
      using due_set_step(2) fire_front_step(1) less.prems by blast+
    from less.hyps [OF this] True show ?thesis
      by (simp add: pop_due_turn fire_front_frame)
  next
    case False
    then show ?thesis using less.prems pop_due_stop [of s] by auto
  qed
qed

lemma on_timer_update_runs:
  assumes "sched_inv s"
  shows "\<exists>s'. on_timer_update s = Some s' \<and> sched_inv s' \<and> last_tick s' = last_tick s"
proof -
  let ?s = "s\<lparr>global_tick := global_tick s + ucast (current_interval s)\<rparr>"
  have "sched_inv ?s" by (rule iffD2 [OF sched_inv_cong assms]) simp_all
  then show ?thesis using pop_due_total [of ?s] by (auto simp: on_timer_update_def)
qed

subsection \<open>Which tasks fire\<close>

text \<open>\<open>now_key lo s\<close> is the clock relative to \<open>lo\<close>. The window condition: every queued task fires
  within \<open>2 ^ 31\<close> microseconds after \<open>lo\<close>, and so does a periodic one once more after the clock.\<close>

definition now_key :: "u32 \<Rightarrow> 'cb sched \<Rightarrow> nat" where
  "now_key lo s = unat (ucast (global_tick s) - lo)"

definition in_window :: "u32 \<Rightarrow> 'cb sched \<Rightarrow> u8 \<Rightarrow> bool" where
  "in_window lo s j \<longleftrightarrow> fire_key lo s j < 2 ^ 31 \<and>
     (repeating (tasks s ! unat j) \<longrightarrow> now_key lo s + unat (period_us (tasks s ! unat j)) < 2 ^ 31)"

lemma due_key:
  assumes "now_key lo s < 2 ^ 31" and "fire_key lo s j < 2 ^ 31"
  shows "due s j \<longleftrightarrow> fire_key lo s j \<le> now_key lo s"
proof -
  let ?x = "next_fire_us (tasks s ! unat j)" and ?n = "ucast (global_tick s) :: u32"
  have "0 \<le> sint (?x - ?n) \<longleftrightarrow> now_key lo s \<le> fire_key lo s j"
    using wrapping_order [of ?x lo ?n] assms by (simp add: now_key_def fire_key_def)
  moreover have "sint (?x - ?n) = 0 \<longleftrightarrow> fire_key lo s j = now_key lo s"
    unfolding signed_eq_0_iff fire_key_def now_key_def
    by (metis diff_add_cancel eq_iff_diff_eq_0 word_unat_eq_iff)
  ultimately show ?thesis unfolding due_def by linarith
qed

lemma rearmed_key:
  assumes "now_key lo s + unat (period_us t) < 2 ^ 31"
  shows "unat (next_fire_us (rearmed s t) - lo) = now_key lo s + unat (period_us t)"
proof -
  have "next_fire_us (rearmed s t) - lo = (ucast (global_tick s) - lo) + period_us t"
    by (simp add: rearmed_def ucast_add_u32)
  moreover have "unat (ucast (global_tick s) - lo) + unat (period_us t) < 2 ^ LENGTH(32)"
    using assms by (simp add: now_key_def)
  ultimately show ?thesis
    by (simp only: now_key_def unat_add_lem)
qed

lemma fire_front_ordered:
  assumes inv: "sched_inv s" and ne: "queue s \<noteq> []" and ord: "by_deadline lo s"
    and win: "\<And>j. j \<in> set (queue s) \<Longrightarrow> in_window lo s j"
  defines "i \<equiv> front_id s"
  shows "by_deadline lo (fire_front i s)"
    and "j \<in> set (queue (fire_front i s)) \<Longrightarrow> in_window lo (fire_front i s) j"
proof -
  let ?s' = "fire_front i s" and ?t = "tasks s ! unat i"
  note parts = sched_inv_parts [OF inv]
  note step = fire_front_step [OF inv ne, folded i_def]
  have i: "i \<in> set (queue s)" "i < 16" "unat i < 16"
    using packed.front_in [OF ne] queue_ids u8_cases16 unfolding i_def by auto
  have key: "fire_key lo ?s' j = (if j = i \<and> repeating ?t then now_key lo s + unat (period_us ?t)
      else fire_key lo s j)" if "j < 16" for j
    using win [OF i(1)] that i(3) parts(1) rearmed_key [of lo s ?t]
    by (auto simp: fire_key_def fire_front_frame in_window_def word_unat_eq_iff)
  have keq: "fire_key lo ?s' x = fire_key lo s x" if "x \<in> set (queue s)" "x \<noteq> i" for x
    using key [OF queue_ids [OF that(1)]] that(2) by simp
  have now: "now_key lo ?s' = now_key lo s" by (simp add: now_key_def fire_front_frame)
  have pop: "queue (pop_front s) = tl (queue s)" "queue_inv (pop_front s)"
    using packed.ids_dequeue packed.dequeue_ok parts(2) ne by auto
  have tl: "tl (queue s) = filter (\<lambda>j. j \<noteq> i) (queue s)"
    using parts(3) ne unfolding i_def by (cases "queue s") (auto simp: packed.front_hd intro!: filter_True [symmetric])
  show win': "in_window lo ?s' j" if "j \<in> set (queue ?s')" for j
  proof -
    have "j \<in> set (queue s)" using that step(2) by (auto split: if_splits)
    then have "j < 16" "in_window lo s j" using queue_ids win by auto
    show ?thesis
    proof (cases "j = i")
      case True
      then show ?thesis
        using win [OF i(1)] key [OF i(2)] i(3) parts(1)
        by (simp add: in_window_def now fire_front_frame rearmed_def)
    next
      case False
      then have "unat j \<noteq> unat i" by (simp add: word_unat_eq_iff)
      with False show ?thesis
        using \<open>in_window lo s j\<close> key [OF \<open>j < 16\<close>] by (simp add: in_window_def now fire_front_frame)
    qed
  qed
  have sorted_tl: "sorted (map (fire_key lo s) (tl (queue s)))"
    using ord by (simp add: by_deadline_def map_tl sorted_tl)
  show "by_deadline lo ?s'"
  proof (cases "repeating ?t")
    case False
    have eq: "map (fire_key lo ?s') (tl (queue s)) = map (fire_key lo s) (tl (queue s))"
      by (intro map_cong) (auto simp: tl keq)
    have "queue ?s' = tl (queue s)" using False by (simp add: queue_fire_front pop)
    then show ?thesis using sorted_tl by (simp only: by_deadline_def eq)
  next
    case True
    let ?p = "popped i s"
    have pq: "queue ?p = tl (queue s)" "queue_inv ?p"
      using pop by (simp_all add: popped_def queue_def queue_inv_def)
    have kp: "fire_key lo ?p j = fire_key lo ?s' j" for j
      using True by (simp add: fire_key_def popped_def fire_front_frame)
    have eq: "map (fire_key lo ?p) (tl (queue s)) = map (fire_key lo s) (tl (queue s))"
      by (intro map_cong) (auto simp: tl kp keq)
    have "by_deadline lo ?p" using sorted_tl by (simp only: by_deadline_def pq eq)
    moreover have "fire_key lo ?p j < 2 ^ 31" if "j \<in> set (i # queue ?p)" for j
    proof -
      have "j \<in> set (queue ?s')" using that step(2) True i(1) by (auto simp: pq tl)
      then show ?thesis using win' by (simp add: kp in_window_def)
    qed
    moreover have "length (queue ?p) < 16"
      by (rule queue_room [OF pq(2) _ i(2)]) (use parts(3) in \<open>simp_all add: pq(1) tl\<close>)
    ultimately have "by_deadline lo (insert_sorted i ?p)"
      using insert_by_deadline [OF pq(2) _ i(2)] by blast
    moreover have "fire_key lo (insert_sorted i ?p) = fire_key lo ?s'" using kp by auto
    ultimately show ?thesis using True by (simp add: by_deadline_def queue_fire_front)
  qed
qed

text \<open>What the loop of \<open>on_timer_update\<close> computes from a queue in firing order.\<close>

definition fired :: "'cb sched \<Rightarrow> 'cb sched \<Rightarrow> bool" where
  "fired s s' \<longleftrightarrow>
     list_all (\<lambda>i. bit (ready_bitmap s') i =
       (bit (ready_bitmap s) i \<or> of_nat i \<in> set (queue s) \<and> due s (of_nat i))) [0 ..< 16] \<and>
     list_all (\<lambda>i. of_nat i \<in> set (queue s') \<longleftrightarrow>
       of_nat i \<in> set (queue s) \<and> (due s (of_nat i) \<longrightarrow> repeating (tasks s ! i))) [0 ..< 16] \<and>
     list_all (\<lambda>i. tasks s' ! i =
       (if of_nat i \<in> set (queue s) \<and> due s (of_nat i) \<and> repeating (tasks s ! i)
        then rearmed s (tasks s ! i) else tasks s ! i)) [0 ..< 16] \<and>
     free_bitmap s' = free_bitmap s \<and> global_tick s' = global_tick s \<and>
     list_all (\<lambda>j. \<not> due s' j) (queue s')"

lemma fired_iff: "fired s s' \<longleftrightarrow>
    (\<forall>i < 16. bit (ready_bitmap s') i = (bit (ready_bitmap s) i \<or> of_nat i \<in> due_set s)) \<and>
    (\<forall>i < 16. of_nat i \<in> set (queue s') \<longleftrightarrow>
      of_nat i \<in> set (queue s) \<and> (of_nat i \<in> due_set s \<longrightarrow> repeating (tasks s ! i))) \<and>
    (\<forall>i < 16. tasks s' ! i = (if of_nat i \<in> due_set s \<and> repeating (tasks s ! i)
        then rearmed s (tasks s ! i) else tasks s ! i)) \<and>
    free_bitmap s' = free_bitmap s \<and> global_tick s' = global_tick s \<and>
    due_set s' = {}"
  unfolding fired_def list_all_upt due_set_def list_all_iff by auto

lemma fired_none:
  assumes "sched_inv s" and "by_deadline lo s" and "\<And>j. j \<in> set (queue s) \<Longrightarrow> in_window lo s j"
    and "now_key lo s < 2 ^ 31" and "queue s = [] \<or> \<not> due s (front_id s)"
  shows "fired s s"
proof -
  have "due_set s = {}"
  proof (cases "queue s")
    case (Cons f js)
    then have f: "front_id s = f" using packed.front_hd [of s] by simp
    have dk: "due s j \<longleftrightarrow> fire_key lo s j \<le> now_key lo s" if "j \<in> set (queue s)" for j
      using due_key [OF assms(4)] assms(3) [OF that] by (simp add: in_window_def)
    have "fire_key lo s f \<le> fire_key lo s j" if "j \<in> set (queue s)" for j
      using assms(2) that Cons by (auto simp: by_deadline_def)
    moreover have "\<not> due s f" using assms(5) f Cons by simp
    ultimately have "\<not> due s j" if "j \<in> set (queue s)" for j
      using dk [OF that] dk [of f] that Cons by (metis list.set_intros(1) order_trans)
    then show ?thesis by (auto simp: due_set_def)
  qed (simp add: due_set_def)
  then show ?thesis by (simp add: fired_iff)
qed

lemma fired_front:
  assumes inv: "sched_inv s" and ne: "queue s \<noteq> []" and due: "due s (front_id s)"
    and rest: "fired (fire_front (front_id s) s) s'"
  shows "fired s s'"
proof -
  let ?i = "front_id s" and ?s1 = "fire_front (front_id s) s"
  note parts = sched_inv_parts [OF inv]
  note step = fire_front_step [OF inv ne]
  have i: "?i \<in> set (queue s)" "unat ?i < 16"
    using packed.front_in [OF ne] queue_ids u8_cases16 by auto
  have d: "due_set ?s1 = due_set s - {?i}" by (rule due_set_step(1) [OF inv ne due])
  have id: "?i \<in> due_set s" using i due by (simp add: due_set_def)
  have at: "of_nat j = ?i \<longleftrightarrow> j = unat ?i" if "j < 16" for j
    using that by (metis of_nat_u8 of_nat_unat ucast_id)
  have r: "rearmed ?s1 = rearmed s" by (simp add: rearmed_def fire_front_frame fun_eq_iff)
  show ?thesis
    unfolding fired_iff
  proof (intro conjI allI impI)
    fix j :: nat assume j: "j < 16"
    have ready1: "bit (ready_bitmap ?s1) j \<longleftrightarrow> bit (ready_bitmap s) j \<or> j = unat ?i"
      using i(2) by (auto simp: fire_front_frame bit_slot)
    show "bit (ready_bitmap s') j = (bit (ready_bitmap s) j \<or> of_nat j \<in> due_set s)"
      using rest j id at [OF j] ready1 unfolding fired_iff d by (metis Diff_iff insert_iff empty_iff)
    have task1: "tasks ?s1 ! j = (if j = unat ?i \<and> repeating (tasks s ! j) then rearmed s (tasks s ! j) else tasks s ! j)"
      using i(2) parts(1) j by (auto simp: fire_front_frame)
    have rep: "repeating (rearmed s t) = repeating t" for t by (simp add: rearmed_def)
    have "of_nat j \<in> set (queue s') \<longleftrightarrow>
        of_nat j \<in> set (queue ?s1) \<and> (of_nat j \<in> due_set ?s1 \<longrightarrow> repeating (tasks ?s1 ! j))"
      using rest j unfolding fired_iff by blast
    then show "of_nat j \<in> set (queue s') \<longleftrightarrow>
        of_nat j \<in> set (queue s) \<and> (of_nat j \<in> due_set s \<longrightarrow> repeating (tasks s ! j))"
      using step(2) at [OF j] id i(1) unfolding d task1 by (auto simp: rep)
    have "tasks s' ! j = (if of_nat j \<in> due_set ?s1 \<and> repeating (tasks ?s1 ! j)
        then rearmed ?s1 (tasks ?s1 ! j) else tasks ?s1 ! j)"
      using rest j unfolding fired_iff by blast
    then show "tasks s' ! j = (if of_nat j \<in> due_set s \<and> repeating (tasks s ! j)
        then rearmed s (tasks s ! j) else tasks s ! j)"
      using at [OF j] id unfolding d task1 r by (auto simp: rep)
  qed (use rest in \<open>simp_all add: fired_iff fire_front_frame\<close>)
qed

lemma pop_due_fired:
  "sched_inv s \<Longrightarrow> by_deadline lo s \<Longrightarrow> (\<And>j. j \<in> set (queue s) \<Longrightarrow> in_window lo s j) \<Longrightarrow>
    now_key lo s < 2 ^ 31 \<Longrightarrow> \<exists>s'. pop_due s = Some s' \<and> fired s s' \<and> by_deadline lo s'"
proof (induction "card (due_set s)" arbitrary: s rule: less_induct)
  case less
  show ?case
  proof (cases "queue s \<noteq> [] \<and> due s (front_id s)")
    case True
    let ?s1 = "fire_front (front_id s) s"
    have "card (due_set ?s1) < card (due_set s)" "sched_inv ?s1"
      using True due_set_step(2) fire_front_step(1) less.prems by blast+
    moreover have "by_deadline lo ?s1" "\<And>j. j \<in> set (queue ?s1) \<Longrightarrow> in_window lo ?s1 j"
      using fire_front_ordered [OF less.prems(1) _ less.prems(2,3)] True by blast+
    moreover have "now_key lo ?s1 < 2 ^ 31"
      using less.prems(4) by (simp add: now_key_def fire_front_frame)
    ultimately obtain s' where s': "pop_due ?s1 = Some s'" "fired ?s1 s'" "by_deadline lo s'"
      using less.hyps [of ?s1] by blast
    then have "pop_due s = Some s'" using True pop_due_turn [of s] by simp
    moreover have "fired s s'" by (rule fired_front [OF less.prems(1) _ _ s'(2)]) (use True in auto)
    ultimately show ?thesis using s'(3) by blast
  next
    case False
    then show ?thesis
      using pop_due_stop [of s] fired_none [OF less.prems] less.prems(2) by auto
  qed
qed

section \<open>The main loop\<close>

lemma finish_task_frame:
  "tasks (finish_task i s) = tasks s" "queue (finish_task i s) = queue s"
  "queue_inv (finish_task i s) = queue_inv s" "timeout_idx (finish_task i s) = timeout_idx s"
  "last_tick (finish_task i s) = last_tick s"
  by (simp_all add: finish_task_def Let_def release_slot_def queue_def queue_inv_def)

lemma finish_task_bits:
  assumes "i < 16"
  shows "bit (ready_bitmap (finish_task i s)) k \<longleftrightarrow> bit (ready_bitmap s) k \<and> k \<noteq> i"
    and "bit (free_bitmap (finish_task i s)) k \<longleftrightarrow>
      bit (free_bitmap s) k \<or> (k = i \<and> \<not> repeating (tasks s ! i))"
  using assms by (auto simp: finish_task_def Let_def release_slot_def bit_slot)

lemma finish_task_inv:
  assumes inv: "sched_inv s" and i: "i < 16" and ready: "bit (ready_bitmap s) i \<or> bit (free_bitmap s) i"
  shows "sched_inv (finish_task i s)"
proof (rule sched_inv_slot_change [OF inv i])
  note parts = sched_inv_parts [OF inv]
  show "slot_inv (finish_task i s) i"
    using sched_inv_slot [OF inv i] ready slot_known(3) [OF inv i]
    by (auto simp: slot_inv_def slot_ok_def finish_task_frame finish_task_bits [OF i] split: if_splits)
qed (use sched_inv_parts [OF inv] in \<open>simp_all add: finish_task_frame finish_task_bits [OF i]\<close>)


lemma filter_upt_first:
  assumes "c < n" and "P c" and "\<And>j. j < c \<Longrightarrow> \<not> P j" and "\<And>j. Q j \<longleftrightarrow> P j \<and> j \<noteq> c"
  shows "filter P [0 ..< n] = c # filter Q [0 ..< n]"
proof -
  have split: "[0 ..< n] = [0 ..< c] @ c # [Suc c ..< n]"
    using assms(1) by (metis le0 less_imp_le upt_add_eq_append upt_conv_Cons le_add_diff_inverse add_0)
  have low: "filter P [0 ..< c] = []" "filter Q [0 ..< c] = []"
    using assms(3,4) by (auto simp: filter_empty_conv)
  have "filter P [Suc c ..< n] = filter Q [Suc c ..< n]"
    using assms(4) by (intro filter_cong) auto
  with low show ?thesis unfolding split using assms(2,4) by simp
qed





section \<open>Reachable states\<close>

inductive sched_step :: "'cb sched \<Rightarrow> 'cb sched \<Rightarrow> bool" where
  start: "sched_step s (snd (Scheduler_start freq s))"
| register: "sched_step s (snd (register_task p f s))"
| timeout: "sched_step s (snd (set_timeout us f s))"
| unregister: "ucast i \<in> set (queue s) \<or> i \<noteq> 0 \<Longrightarrow> sched_step s (snd (unregister_task i s))"
| cancel: "of_nat (unat i mod 16) \<in> set (queue s) \<or> unat i mod 16 \<noteq> 0 \<Longrightarrow>
    sched_step s (snd (cancel_timeout i s))"
| tick: "sched_step s (snd (get_global_tick s))"
| counter: "sched_step s (s\<lparr>tim_cnt := c\<rparr>)"
| interrupt: "irq_on s \<Longrightarrow> on_timer_update (s\<lparr>tim_cnt := 0, egr_ug := False\<rparr>) = Some s' \<Longrightarrow> sched_step s s'"
| finish: "i < 16 \<Longrightarrow> bit (ready_bitmap s) i \<or> bit (free_bitmap s) i \<Longrightarrow> sched_step s (finish_task i s)"

definition sched_reachable :: "'cb sched \<Rightarrow> bool" where
  "sched_reachable s \<longleftrightarrow> sched_step\<^sup>*\<^sup>* init_sched s"

lemma Scheduler_start_inv: "sched_inv s \<Longrightarrow> sched_inv (snd (Scheduler_start freq s))"
  unfolding Scheduler_start_def Let_def
  by (auto intro: iffD2 [OF sched_inv_cong])

lemma get_global_tick_inv: "sched_inv s \<Longrightarrow> sched_inv (snd (get_global_tick s))"
  unfolding get_global_tick_def Let_def
  by (auto intro: iffD2 [OF sched_inv_cong])

lemma sched_step_inv: "sched_step s s' \<Longrightarrow> sched_inv s \<Longrightarrow> sched_inv s'"
proof (induction rule: sched_step.induct)
  case (interrupt s s')
  have "sched_inv (s\<lparr>tim_cnt := 0, egr_ug := False\<rparr>)"
    by (rule iffD2 [OF sched_inv_cong interrupt.prems]) simp_all
  then show ?case using on_timer_update_runs interrupt.hyps(2) by fastforce
next
  case (counter s c)
  show ?case by (rule iffD2 [OF sched_inv_cong counter.prems]) simp_all
qed (simp_all add: Scheduler_start_inv register_task_inv set_timeout_inv unregister_task_inv
    cancel_timeout_inv get_global_tick_inv finish_task_inv)

lemma reachable_sched_inv: "sched_reachable s \<Longrightarrow> sched_inv s"
  unfolding sched_reachable_def
  by (induction rule: rtranclp_induct) (auto intro: init_sched_inv sched_step_inv)

lemma arm_last_tick: "last_tick (arm i t tmo s) = last_tick s"
  by (simp add: arm_def insert_sorted_def Let_def)

section \<open>Properties\<close>



text \<open>A periodic task in slot 0 and a timeout in slot 1, for the witnesses.\<close>

definition demo_two :: "nat sched" where
  "demo_two = init_sched\<lparr>
     tasks := [\<lparr>next_fire_us = 1000, callback = Some 1, period_us = 1000, task_id = 0, repeating = True\<rparr>,
       \<lparr>next_fire_us = 500, callback = Some 2, period_us = 500, task_id = 17, repeating = False\<rparr>]
       @ replicate 14 init_task,
     sorted_ids := 1, active_count := 2, free_bitmap := 0xFFFFFFFC, current_interval := 500,
     timeout_idx := 3\<rparr>"
lemma demo_two_inv: "sched_inv demo_two"
proof -
  have q: "queue demo_two = [1, 0]" by code_simp
  have qi: "queue_inv demo_two" unfolding queue_inv_code by code_simp
  have "list_all (\<lambda>i. bit (free_bitmap demo_two) i) [2 ..< 32]" by code_simp
  then have f: "bit (free_bitmap demo_two) i" if "2 \<le> i" "i < 32" for i
    using that unfolding list_all_upt by blast
  have "\<not> bit (free_bitmap demo_two) 0 \<and> \<not> bit (free_bitmap demo_two) 1" by code_simp
  moreover have r: "ready_bitmap demo_two = 0" by (simp add: demo_two_def init_sched_def)
  ultimately have "slot_inv demo_two 0" "slot_inv demo_two 1"
    by (simp_all add: slot_inv_def q slot_ok_def) (simp_all add: demo_two_def)
  moreover have "slot_inv demo_two i" if "2 \<le> i" "i < 16" for i
  proof -
    have "of_nat i \<notin> set (queue demo_two)"
      using that of_nat_u8_inj [of i 0] of_nat_u8_inj [of i 1] by (simp add: q)
    then show ?thesis using that f r by (simp add: slot_inv_def slot_ok_def)
  qed
  ultimately have "slot_inv demo_two i" if "i < 16" for i
    using that by (metis One_nat_def less_2_cases not_less)
  moreover have "no_slot demo_two i" if "16 \<le> i" "i < 32" for i
    using that f r by (simp add: no_slot_def)
  ultimately show ?thesis
    unfolding sched_inv_iff using qi by (simp add: q) (simp add: demo_two_def init_sched_def kMaxTasks_def)
qed
text \<open>C1. The timer interrupt on a queue in firing order, across the wrap-around of the clock: it
  returns, it marks as ready exactly the tasks whose time has come, it moves each periodic one
  among them one period after the new time and leaves every other task alone, it drops the timeouts
  among them from the queue, keeps the queue in firing order, and leaves no due task queued.\<close>

theorem timer_fires_due:
  assumes "sched_inv s" and "by_deadline lo s"
    and "s0 = s\<lparr>global_tick := global_tick s + ucast (current_interval s)\<rparr>"
    and "now_key lo s0 < 2 ^ 31" and "list_all (in_window lo s0) (queue s)"
  shows "\<exists>s1. on_timer_update s = Some (schedule_next_interval s1) \<and> fired s0 s1 \<and>
    by_deadline lo s1 \<and> sched_inv s1"
proof -
  have q: "queue s0 = queue s" unfolding assms(3) by (rule queue_cong) simp_all
  have inv: "sched_inv s0" unfolding assms(3) by (rule iffD2 [OF sched_inv_cong assms(1)]) simp_all
  have "fire_key lo s0 = fire_key lo s" by (simp add: fun_eq_iff fire_key_def assms(3))
  then have ord: "by_deadline lo s0" using assms(2) q by (simp add: by_deadline_def)
  obtain s1 where "pop_due s0 = Some s1" "fired s0 s1" "by_deadline lo s1"
    using pop_due_fired [OF inv ord _ assms(4)] assms(5) q by (auto simp: list_all_iff)
  moreover from this(1) have "sched_inv s1" using pop_due_total [OF inv] by auto
  ultimately show ?thesis by (auto simp: on_timer_update_def assms(3))
qed

lemma demo_two_queue: "queue demo_two = [1, 0]"
  by code_simp

lemma demo_two_facts:
  "tasks demo_two ! 0 = \<lparr>next_fire_us = 1000, callback = Some 1, period_us = 1000, task_id = 0, repeating = True\<rparr>"
  "tasks demo_two ! Suc 0 = \<lparr>next_fire_us = 500, callback = Some 2, period_us = 500, task_id = 17, repeating = False\<rparr>"
  "global_tick demo_two = 0" "current_interval demo_two = 500"
  by (simp_all add: demo_two_def init_sched_def)

theorem timer_fires_due_witness:
  "\<exists>s1. on_timer_update demo_two = Some (schedule_next_interval s1) \<and>
    fired (demo_two\<lparr>global_tick := 500\<rparr>) s1"
proof -
  let ?s0 = "demo_two\<lparr>global_tick := 500\<rparr>"
  have s0: "?s0 = demo_two\<lparr>global_tick := global_tick demo_two + ucast (current_interval demo_two)\<rparr>"
    by (simp add: demo_two_facts)
  have n: "now_key 0 ?s0 = 500" by (simp add: now_key_def)
  have ord: "by_deadline 0 demo_two"
    by (simp add: by_deadline_def fire_key_def demo_two_queue demo_two_facts)
  have win: "list_all (in_window 0 ?s0) (queue demo_two)"
    using n by (simp add: in_window_def fire_key_def demo_two_queue demo_two_facts)
  show ?thesis
    using timer_fires_due [OF demo_two_inv ord s0 _ win] n by auto
qed





definition live :: "'cb sched \<Rightarrow> nat \<Rightarrow> bool" where
  "live s i \<longleftrightarrow> i < 16 \<and> \<not> bit (free_bitmap s) i"

definition ids_distinct :: "'cb sched \<Rightarrow> bool" where
  "ids_distinct s \<longleftrightarrow> list_all (\<lambda>i. live s i \<longrightarrow> unat (task_id (tasks s ! i)) \<noteq> INVALID_ID \<and>
     (repeating (tasks s ! i) \<longleftrightarrow> unat (task_id (tasks s ! i)) < kMaxTasks) \<and>
     list_all (\<lambda>j. live s j \<longrightarrow> task_id (tasks s ! i) = task_id (tasks s ! j) \<longrightarrow> i = j) [0 ..< 16]) [0 ..< 16]"

text \<open>Identifiers: in every reachable state the identifiers of two allocated slots differ, none
  is \<open>INVALID_ID\<close>, and an identifier is below \<open>kMaxTasks\<close> exactly if its task is periodic, so a
  timeout's identifier never names a periodic task although the counter of timeouts wraps.\<close>

theorem live_ids_valid:
  assumes "sched_reachable s"
  shows "ids_distinct s"
proof -
  have slot: "unat (task_id (tasks s ! i)) mod 16 = i \<and>
      (if repeating (tasks s ! i) then unat (task_id (tasks s ! i)) div 16 = 0
       else odd (unat (task_id (tasks s ! i)) div 16))" if "live s i" for i
    using sched_inv_slot [OF reachable_sched_inv [OF assms], of i] that
    by (auto simp: live_def slot_inv_def slot_ok_def)
  have "unat (task_id (tasks s ! i)) \<noteq> INVALID_ID" if "live s i" for i
    using slot [OF that] by (auto simp: INVALID_ID_def kMaxTasks_def split: if_splits)
  moreover have "repeating (tasks s ! i) \<longleftrightarrow> unat (task_id (tasks s ! i)) < kMaxTasks" if "live s i" for i
    using slot [OF that] by (cases "unat (task_id (tasks s ! i)) < 16") (auto simp: kMaxTasks_def split: if_splits)
  moreover have "i = j" if "live s i" "live s j" "task_id (tasks s ! i) = task_id (tasks s ! j)" for i j
    using slot [OF that(1)] slot [OF that(2)] that(3) by metis
  ultimately show ?thesis by (simp add: ids_distinct_def list_all_upt)
qed

theorem live_ids_valid_witness:
  "ids_distinct (snd (set_timeout 500 (Some 2) (init_sched :: nat sched)))"
proof (rule live_ids_valid)
  show "sched_reachable (snd (set_timeout 500 (Some 2) (init_sched :: nat sched)))"
    unfolding sched_reachable_def by (rule r_into_rtranclp) (rule sched_step.timeout)
qed

text \<open>\<open>cancel_timeout\<close> on a slot that is queued, or is not slot 0: it accepts exactly the
  identifier of an allocated timeout; then the slot becomes free and is neither queued nor ready,
  the other tasks keep their order; otherwise nothing changes.\<close>

theorem cancel_timeout_exact:
  assumes "sched_inv s" and "of_nat (unat i mod 16) \<in> set (queue s) \<or> unat i mod 16 \<noteq> 0"
  shows "case cancel_timeout i s of
      (False, s') \<Rightarrow> s' = s \<and> \<not> (live s (unat i mod 16) \<and> task_id (tasks s ! (unat i mod 16)) = i \<and>
        \<not> repeating (tasks s ! (unat i mod 16)))
    | (True, s') \<Rightarrow> sched_inv s' \<and> live s (unat i mod 16) \<and> \<not> live s' (unat i mod 16) \<and>
        \<not> bit (ready_bitmap s') (unat i mod 16) \<and> tasks s' = tasks s \<and>
        queue s' = filter (\<lambda>j. j \<noteq> of_nat (unat i mod 16)) (queue s)"
proof -
  let ?idx = "(ucast i :: u32) AND of_nat (kMaxTasks - 1)" and ?n = "unat i mod 16"
  have u: "unat ?idx = ?n" by (rule timeout_slot)
  have "(ucast ?idx :: u8) = of_nat ?n" by (metis u of_nat_unat)
  moreover have n: "?n < 16" by simp
  ultimately have c: "cancel_timeout i s =
      (if repeating (tasks s ! ?n) \<or> task_id (tasks s ! ?n) \<noteq> i \<or> bit (free_bitmap s) ?n then (False, s)
       else (True, drop_slot (of_nat ?n) s))"
    unfolding cancel_timeout_def Let_def u slot_bit_clear_iff by simp
  note drop = drop_slot_inv [OF assms(1) n]
  have q: "of_nat ?n \<in> set (queue s) \<or> ?n \<noteq> 0 \<or> length (queue s) = 16" using assms(2) by blast
  have "tasks (drop_slot (of_nat ?n) s) = tasks s"
    by (simp add: drop_slot_def release_slot_def remove_sorted_def Let_def)
  moreover have "\<not> bit (ready_bitmap (drop_slot (of_nat ?n) s)) ?n"
    using slot_known(1) [OF drop(1) [OF q] n drop(3) [OF q]] by blast
  ultimately show ?thesis
    using drop [OF q] n unfolding c by (auto simp: live_def)
qed

theorem cancel_timeout_exact_witness:
  "fst (cancel_timeout 17 demo_two) \<and> queue (snd (cancel_timeout 17 demo_two)) = [0]"
proof -
  have "fst (cancel_timeout 17 demo_two)" by code_simp
  then show ?thesis
    using cancel_timeout_exact [OF demo_two_inv, of 17] demo_two_queue
    by (auto simp: split_def split: bool.splits)
qed

definition free_slots :: "'cb sched \<Rightarrow> nat list" where
  "free_slots s = filter (bit (free_bitmap s)) [0 ..< 16]"

lemma free_slots_first:
  assumes "i < 16" and "bit (free_bitmap s) i" and "\<And>j. j < i \<Longrightarrow> \<not> bit (free_bitmap s) j"
  shows "free_slots s \<noteq> [] \<and> hd (free_slots s) = i"
  using filter_upt_first [of i 16 "bit (free_bitmap s)" "\<lambda>j. bit (free_bitmap s) j \<and> j \<noteq> i"] assms
  by (simp add: free_slots_def)

lemma free_slots_none: "\<forall>i < 16. \<not> bit (free_bitmap s) i \<Longrightarrow> free_slots s = []"
  by (simp add: free_slots_def filter_empty_conv)

lemma arm_facts:
  assumes "sched_inv s" "i < 16" "bit (free_bitmap s) i" "slot_ok i t True False False" "odd (unat tmo)"
  shows "live (arm i t tmo s) i" and "tasks (arm i t tmo s) = (tasks s)[i := t]"
    and "set (queue (arm i t tmo s)) = insert (of_nat i) (set (queue s))"
proof -
  show "tasks (arm i t tmo s) = (tasks s)[i := t]" by (simp add: arm_def)
  show "set (queue (arm i t tmo s)) = insert (of_nat i) (set (queue s))"
    by (rule arm_sched_inv(2) [OF assms])
  then show "live (arm i t tmo s) i"
    using slot_known(2) [OF arm_sched_inv(1) [OF assms] assms(2)] assms(2) by (simp add: live_def)
qed

text \<open>\<open>register_task\<close>: a null callback, a period of \<open>2 ^ 31\<close> or more and a full table are
  refused with \<open>INVALID_ID\<close> and no change; otherwise the lowest free slot is taken, its number is the
  identifier, and it holds a periodic task that is queued and fires one period (at least 1) after
  the current time.\<close>

theorem register_task_spec:
  assumes "sched_inv s" and "register_task p f s = (r, s')"
  shows "if f = None \<or> 2 ^ 31 \<le> unat p \<or> free_slots s = [] then r = of_nat INVALID_ID \<and> s' = s
    else let i = hd (free_slots s) in
      unat r = i \<and> live s' i \<and> set (queue s') = insert (of_nat i) (set (queue s)) \<and>
      (\<exists>t. tasks s' = (tasks s)[i := t] \<and> callback t = f \<and> repeating t \<and>
        period_us t = (if p = 0 then 1 else p) \<and>
        next_fire_us t = ucast (global_tick s + ucast (tim_cnt s)) + period_us t)"
  using assms(1)
proof (cases rule: register_task_cases [where p = p and f = f])
  case refused
  then have "f = None \<or> 2 ^ 31 \<le> unat p \<or> free_slots s = []" using free_slots_none by blast
  with refused(2) assms(2) show ?thesis by simp
next
  case (armed i t)
  have odd: "odd (unat (timeout_idx s))" by (rule sched_inv_parts [OF assms(1)])
  note facts = arm_facts [OF assms(1) armed(1-3) odd]
  have first: "free_slots s \<noteq> []" "hd (free_slots s) = i"
    using free_slots_first armed(1,2,9) by blast+
  moreover have r: "r = of_nat i" "s' = arm i t (timeout_idx s) s" using armed(11) assms(2) by auto
  moreover have u: "unat (of_nat i :: u16) = i" using armed(1) by (simp add: unat_of_nat)
  ultimately have ok: "\<not> (f = None \<or> 2 ^ 31 \<le> unat p \<or> free_slots s = [])"
    using armed(7,8) by simp
  show ?thesis
    unfolding if_not_P [OF ok] Let_def first(2) r
    by (intro conjI exI [of _ t] u facts) (simp_all add: armed ucast_add_u32)
qed

theorem register_task_spec_witness:
  "\<exists>s'. register_task 1000 (Some 1) (init_sched :: nat sched) = (0, s') \<and> live s' 0"
proof -
  obtain r s' where rs: "register_task 1000 (Some 1) (init_sched :: nat sched) = (r, s')" by fastforce
  have "free_slots (init_sched :: nat sched) = [0 ..< 16]"
    unfolding free_slots_def init_sched_def by code_simp
  then have "unat r = 0 \<and> live s' 0"
    using register_task_spec [OF init_sched_inv rs] by (simp add: Let_def)
  with rs show ?thesis by (auto simp: unat_eq_zero)
qed

text \<open>\<open>set_timeout\<close>: refused as a registration is; otherwise the lowest free slot is taken and
  the identifier is that slot plus sixteen times the counter of timeouts modulo 4096, never below
  \<open>kMaxTasks\<close> and never \<open>INVALID_ID\<close>; the timeout is queued and fires at the requested time.\<close>

theorem set_timeout_spec:
  assumes "sched_inv s" and "set_timeout us f s = (r, s')"
  shows "if f = None \<or> 2 ^ 31 \<le> unat us \<or> free_slots s = [] then r = of_nat INVALID_ID \<and> s' = s
    else let i = hd (free_slots s) in
      unat r = i + kMaxTasks * (unat (timeout_idx s) mod 4096) \<and> kMaxTasks \<le> unat r \<and>
      unat r \<noteq> INVALID_ID \<and> live s' i \<and>
      set (queue s') = insert (of_nat i) (set (queue s)) \<and>
      (\<exists>t. tasks s' = (tasks s)[i := t] \<and> callback t = f \<and> \<not> repeating t \<and> task_id t = r \<and>
        next_fire_us t = ucast (global_tick s + ucast (tim_cnt s)) + (if us = 0 then 1 else us))"
  using assms(1)
proof (cases rule: set_timeout_cases [where us = us and f = f])
  case refused
  then have "f = None \<or> 2 ^ 31 \<le> unat us \<or> free_slots s = []" using free_slots_none by blast
  with refused(2) assms(2) show ?thesis by simp
next
  case (armed i t)
  have odd: "odd (unat (timeout_idx s))" by (rule sched_inv_parts [OF assms(1)])
  note facts = arm_facts [OF assms(1) armed(1-3) odd_timeout_idx [OF odd]]
  have first: "free_slots s \<noteq> []" "hd (free_slots s) = i"
    using free_slots_first armed(1,2,9) by blast+
  have r: "r = task_id t" "s' = arm i t (timeout_idx s + 2) s" using armed(12) assms(2) by auto
  have ok: "\<not> (f = None \<or> 2 ^ 31 \<le> unat us \<or> free_slots s = [])"
    using armed(7,8) first by simp
  have o: "odd (unat (timeout_idx s) mod 4096)" using odd by (simp add: dvd_mod_iff)
  have "i + 16 * x \<noteq> 32" "16 \<le> i + 16 * x" if "odd x" for x :: nat
  proof -
    have "x \<noteq> 0" "x \<noteq> 2" using that by (intro notI; simp)+
    then show "i + 16 * x \<noteq> 32" "16 \<le> i + 16 * x" using armed(1) by linarith+
  qed
  from this [OF o] have u: "kMaxTasks \<le> unat (task_id t)" "unat (task_id t) \<noteq> INVALID_ID"
    unfolding armed(11) kMaxTasks_def INVALID_ID_def by simp_all
  show ?thesis
    unfolding if_not_P [OF ok] Let_def first(2) r
    by (intro conjI exI [of _ t] u facts) (simp_all add: armed ucast_add_u32 kMaxTasks_def)
qed

theorem set_timeout_spec_witness:
  "\<exists>s'. set_timeout 500 (Some 1) (init_sched :: nat sched) = (16, s') \<and> live s' 0"
proof -
  obtain r s' where rs: "set_timeout 500 (Some 1) (init_sched :: nat sched) = (r, s')" by fastforce
  have "free_slots (init_sched :: nat sched) = [0 ..< 16]"
    unfolding free_slots_def init_sched_def by code_simp
  then have "unat r = 16 \<and> live s' 0"
    using set_timeout_spec [OF init_sched_inv rs]
    by (simp add: Let_def init_sched_def kMaxTasks_def)
  with rs show ?thesis by (auto simp: word_unat_eq_iff)
qed

lemma step_last_tick:
  assumes "sched_step s s'" and "sched_inv s"
  shows "last_tick s \<le> last_tick s'"
  using assms
proof (induction rule: sched_step.induct)
  case (start s freq)
  then show ?case by (simp add: Scheduler_start_def Let_def)
next
  case (register s p f)
  then show ?case
    by (cases rule: register_task_cases [where p = p and f = f]) (simp_all add: arm_last_tick)
next
  case (timeout s us f)
  then show ?case
    by (cases rule: set_timeout_cases [where us = us and f = f]) (simp_all add: arm_last_tick)
next
  case (interrupt s s')
  have "sched_inv (s\<lparr>tim_cnt := 0, egr_ug := False\<rparr>)"
    by (rule iffD2 [OF sched_inv_cong interrupt.prems]) simp_all
  then show ?case using on_timer_update_runs interrupt.hyps(2) by fastforce
next
  case (tick s)
  then show ?case by (auto simp: get_global_tick_def Let_def not_less)
qed (simp_all add: unregister_task_def cancel_timeout_def drop_slot_def release_slot_def
    remove_sorted_def Let_def finish_task_frame)

text \<open>The clock never goes back: of two reads of \<open>get_global_tick\<close>, with any operations and
  interrupts between them, the later one returns at least the earlier one's value.\<close>

theorem global_tick_monotone:
  assumes "sched_reachable s" and "get_global_tick s = (t1, s1)"
    and "sched_step\<^sup>*\<^sup>* s1 s2" and "get_global_tick s2 = (t2, s3)"
  shows "t1 \<le> t2"
proof -
  have inv1: "sched_inv s1"
    using get_global_tick_inv [OF reachable_sched_inv [OF assms(1)]] assms(2) by simp
  have "last_tick s1 \<le> last_tick s2 \<and> sched_inv s2"
    using assms(3)
    by (induction rule: rtranclp_induct) (use inv1 step_last_tick sched_step_inv order_trans in blast)+
  moreover have "last_tick s1 = t1" using assms(2) by (auto simp: get_global_tick_def Let_def split: if_splits)
  moreover have "last_tick s2 \<le> t2" using assms(4) by (auto simp: get_global_tick_def Let_def split: if_splits)
  ultimately show ?thesis by (meson order_trans)
qed

theorem global_tick_monotone_witness:
  "fst (get_global_tick (init_sched :: nat sched)) \<le>
    fst (get_global_tick ((snd (get_global_tick (init_sched :: nat sched)))\<lparr>tim_cnt := 7\<rparr>))"
proof (rule global_tick_monotone)
  show "sched_reachable (init_sched :: nat sched)" by (simp add: sched_reachable_def)
  show "get_global_tick (init_sched :: nat sched) =
      (fst (get_global_tick (init_sched :: nat sched)), snd (get_global_tick init_sched))"
    by (rule surjective_pairing)
  show "sched_step\<^sup>*\<^sup>* (snd (get_global_tick (init_sched :: nat sched)))
      ((snd (get_global_tick init_sched))\<lparr>tim_cnt := 7\<rparr>)"
    by (rule r_into_rtranclp) (rule sched_step.counter)
qed (rule surjective_pairing)

lemma unat_of_sint: "0 \<le> sint (w :: u32) \<Longrightarrow> int (unat w) = sint w"
  "sint (w :: u32) \<le> 0 \<Longrightarrow> int (unat (- w)) = - sint w"
proof -
  have b: "- (2 ^ 31) \<le> sint w" "sint w < 2 ^ 31" using sint_ge [of w] sint_lt [of w] by simp_all
  have "uint (word_of_int k :: u32) = k" if "0 \<le> k" "k \<le> 2 ^ 31" for k
    using that by (simp add: uint_word_of_int)
  from this [of "sint w"] this [of "- sint w"] b
  show "0 \<le> sint w \<Longrightarrow> int (unat w) = sint w" "sint w \<le> 0 \<Longrightarrow> int (unat (- w)) = - sint w"
    by simp_all
qed

text \<open>Programming the timer, with a task queued whose deadline is \<open>d\<close> microseconds away: the
  interval is \<open>|d|\<close>, at least 1; the sum of the tick and the counter, the current time, is not
  changed; the counter is running, and either an update event is requested (\<open>|d|\<close> at most 1) or the
  reload value is the interval less one and the counter does not exceed it.\<close>

theorem schedule_next_interval_spec:
  assumes "queue s \<noteq> []"
    and "d = sint (next_fire_us (tasks s ! unat (hd (queue s))) - ucast (global_tick s))"
    and "s' = schedule_next_interval s"
  shows "int (unat (current_interval s')) = max 1 \<bar>d\<bar> \<and>
    global_tick s' + ucast (tim_cnt s') = global_tick s + ucast (tim_cnt s) \<and>
    (if \<bar>d\<bar> \<le> 1 then egr_ug s'
     else tim_arr s' = current_interval s' - 1 \<and> tim_cnt s' \<le> tim_arr s') \<and>
    bit (tim_cr1 s') 0"
proof -
  let ?w = "next_fire_us (tasks s ! unat (hd (queue s))) - ucast (global_tick s)"
  have nz: "active_count s \<noteq> 0" using assms(1) by (auto simp: queue_Nil_iff)
  have f: "front_id (SchedLock s) = hd (queue s)"
    using packed.front_hd [of "SchedLock s"] assms(1) by simp
  note eqs = schedule_next_interval_def Let_def f global_timer_enable_def TIM_CR1_CEN_def
  have cr: "bit (tim_cr1 s') 0"
    unfolding assms(3) eqs using nz by (simp add: bit_or_iff)
  consider "\<bar>d\<bar> \<le> 1" | "d < -1" | "1 < d" by linarith
  then show ?thesis
  proof cases
    case 1
    then have "-1 \<le> sint ?w \<and> sint ?w \<le> 1" unfolding assms(2) by linarith
    then show ?thesis using 1 cr nz unfolding assms(3) eqs by (simp add: SchedLock_def SchedUnlock_def)
  next
    case 2
    then have "sint ?w < -1" "\<not> (-1 \<le> sint ?w \<and> sint ?w \<le> 1)" unfolding assms(2) by linarith+
    then show ?thesis
      using 2 cr nz unat_of_sint(2) [of ?w] unfolding assms(3) eqs assms(2) by (simp add: SchedLock_def SchedUnlock_def not_less)
  next
    case 3
    then have "\<not> sint ?w < -1" "\<not> (-1 \<le> sint ?w \<and> sint ?w \<le> 1)" unfolding assms(2) by linarith+
    then show ?thesis
      using 3 cr nz unat_of_sint(1) [of ?w] unfolding assms(3) eqs assms(2) by (simp add: SchedLock_def SchedUnlock_def not_less)
  qed
qed

theorem schedule_next_interval_spec_witness:
  "int (unat (current_interval (schedule_next_interval demo_two))) = 500 \<and>
    tim_arr (schedule_next_interval demo_two) = current_interval (schedule_next_interval demo_two) - 1"
  using schedule_next_interval_spec [of demo_two 500 "schedule_next_interval demo_two"]
  by (simp add: demo_two_queue demo_two_facts)

text \<open>C5. The exception to C8. Cancelling the timeout of slot 0 after it has fired and before
  \<open>update\<close> has run it is accepted, but the search for the identifier 0 in the packed word finds an
  unused nibble: the task queued last is lost. It stays allocated, is no longer queued, and the
  invariant is broken.\<close>

theorem cancel_fired_zero_loses_task:
  assumes "sched_inv s" and "live s 0" and "\<not> repeating (tasks s ! 0)" and "bit (ready_bitmap s) 0"
    and "queue s \<noteq> []"
  shows "case cancel_timeout (task_id (tasks s ! 0)) s of (accepted, s') \<Rightarrow>
    accepted \<and> queue s' = butlast (queue s) \<and>
    live s' (unat (last (queue s))) \<and> last (queue s) \<notin> set (queue s') \<and> \<not> sched_inv s'"
proof -
  let ?l = "last (queue s)" and ?r = "remove_sorted 0 (SchedLock s)"
  note parts = sched_inv_parts [OF assms(1)]
  have slot: "slot_inv s 0" by (rule sched_inv_slot [OF assms(1)]) simp
  have fr: "\<not> bit (free_bitmap s) 0" using assms(2) by (simp add: live_def)
  have absent: "0 \<notin> set (queue s)" and id: "unat (task_id (tasks s ! 0)) mod 16 = 0"
    using slot assms(3,4) fr by (simp_all add: slot_inv_def slot_ok_def)
  have room: "length (queue s) < 16" by (rule queue_room [OF parts(2,3) _ absent]) simp
  have u: "unat ((ucast (task_id (tasks s ! 0)) :: u32) AND of_nat (kMaxTasks - 1)) = 0"
    unfolding timeout_slot by (rule id)
  then have z: "(ucast (task_id (tasks s ! 0)) :: u32) AND of_nat (kMaxTasks - 1) = 0"
    by (simp only: unat_eq_zero)
  have c: "cancel_timeout (task_id (tasks s ! 0)) s = (True, drop_slot 0 s)"
    unfolding cancel_timeout_def Let_def u slot_bit_clear_iff z using assms(3) fr by simp
  let ?s' = "drop_slot 0 s"
  have "queue ?s' = queue ?r"
    unfolding drop_slot_def queue_frame release_slot_def by (rule queue_cong) simp_all
  also have "\<dots> = butlast (queue s)"
    using queue_remove_zero_absent(2) [of "SchedLock s"] parts(2) absent room assms(5) by simp
  finally have q: "queue ?s' = butlast (queue s)" .
  have "ready_bitmap ?s' = ready_bitmap s AND NOT (push_bit 0 1)"
      "free_bitmap ?s' = free_bitmap s OR push_bit 0 1"
    by (simp_all add: drop_slot_def release_slot_def remove_sorted_def Let_def)
  then have bits: "bit (ready_bitmap ?s') k \<longleftrightarrow> bit (ready_bitmap s) k \<and> k \<noteq> 0"
      "bit (free_bitmap ?s') k \<longleftrightarrow> bit (free_bitmap s) k \<or> k = 0" for k
    by (simp_all only: bit_slot) simp
  have frame: "tasks ?s' = tasks s"
    by (simp add: drop_slot_def release_slot_def remove_sorted_def Let_def)
  have l1: "?l \<in> set (queue s)" using assms(5) by simp
  with absent have "?l \<noteq> 0" by auto
  with l1 have l: "?l \<in> set (queue s)" "unat ?l < 16" "unat ?l \<noteq> 0"
    using queue_ids [OF l1] u8_cases16 by (auto simp: unat_eq_zero)
  have sl: "slot_inv s (unat ?l)" by (rule sched_inv_slot [OF assms(1) l(2)])
  have lf: "\<not> bit (free_bitmap s) (unat ?l)"
    using slot_known(2) [OF assms(1) l(2)] l(1) by simp
  have lb: "?l \<notin> set (butlast (queue s))"
    using parts(3) assms(5) by (metis append_butlast_last_id distinct_append disjoint_iff list.set_intros(1))
  have live: "live ?s' (unat ?l)" using lf l by (auto simp: live_def bits)
  have "\<not> slot_inv ?s' (unat ?l)"
    using sl lf lb l live by (auto simp: slot_inv_def slot_ok_def live_def q frame bits split: if_splits)
  then have "\<not> sched_inv ?s'" using sched_inv_slot l(2) by blast
  with c q live lb show ?thesis by simp
qed

text \<open>A timeout in slot 0 that has fired and waits to run, and a periodic task in slot 1.\<close>

definition demo_fired :: "nat sched" where
  "demo_fired = init_sched\<lparr>
     tasks := [\<lparr>next_fire_us = 500, callback = Some 2, period_us = 500, task_id = 16, repeating = False\<rparr>,
       \<lparr>next_fire_us = 1000, callback = Some 1, period_us = 1000, task_id = 1, repeating = True\<rparr>]
       @ replicate 14 init_task,
     sorted_ids := 1, active_count := 1, ready_bitmap := 1, free_bitmap := 0xFFFFFFFC,
     current_interval := 500, timeout_idx := 3\<rparr>"

lemma two_slots_inv:
  assumes "length (tasks s) = 16" and "queue_inv s" and "distinct (queue s)"
    and "odd (unat (timeout_idx s))" and "slot_inv s 0" and "slot_inv s 1"
    and "set (queue s) \<subseteq> {0, 1}" and "free_bitmap s = 0xFFFFFFFC"
    and "\<And>i. 2 \<le> i \<Longrightarrow> \<not> bit (ready_bitmap s) i"
  shows "sched_inv s"
proof -
  have "list_all (bit (0xFFFFFFFC :: u32)) [2 ..< 32]" by code_simp
  then have f: "bit (free_bitmap s) i" if "2 \<le> i" "i < 32" for i
    using that unfolding list_all_upt assms(8) by blast
  have "slot_inv s i" if "2 \<le> i" "i < 16" for i
  proof -
    have "of_nat i \<notin> set (queue s)"
      using that of_nat_u8_inj [of i 0] of_nat_u8_inj [of i 1] assms(7) by auto
    then show ?thesis using that f assms(9) by (simp add: slot_inv_def slot_ok_def)
  qed
  then have "slot_inv s i" if "i < 16" for i
    using that assms(5,6) by (metis One_nat_def less_2_cases not_less)
  then show ?thesis
    using assms f by (intro sched_invI) auto
qed

lemma demo_fired_facts: "sched_inv demo_fired" "queue demo_fired = [1]"
proof -
  show q: "queue demo_fired = [1]" by code_simp
  have "queue_inv demo_fired" unfolding queue_inv_code by code_simp
  moreover have "slot_inv demo_fired 0" "slot_inv demo_fired 1"
  proof -
    have "\<not> bit (free_bitmap demo_fired) 0 \<and> \<not> bit (free_bitmap demo_fired) 1 \<and>
        bit (ready_bitmap demo_fired) 0 \<and> \<not> bit (ready_bitmap demo_fired) 1" by code_simp
    then show "slot_inv demo_fired 0" "slot_inv demo_fired 1"
      by (simp_all add: slot_inv_def q slot_ok_def) (simp_all add: demo_fired_def)
  qed
  moreover have "\<not> bit (ready_bitmap demo_fired) i" if "2 \<le> i" for i
    using that by (simp add: demo_fired_def bit_1_iff)
  ultimately show "sched_inv demo_fired"
    by (intro two_slots_inv) (simp_all add: q, simp_all add: demo_fired_def init_sched_def kMaxTasks_def)
qed

theorem cancel_fired_zero_loses_task_witness:
  "queue (snd (cancel_timeout 16 demo_fired)) = [] \<and> live (snd (cancel_timeout 16 demo_fired)) 1"
proof -
  have "live demo_fired 0" "bit (ready_bitmap demo_fired) 0" by code_simp+
  moreover have "tasks demo_fired ! 0 = \<lparr>next_fire_us = 500, callback = Some 2, period_us = 500,
      task_id = 16, repeating = False\<rparr>" by (simp add: demo_fired_def)
  ultimately show ?thesis
    using cancel_fired_zero_loses_task [OF demo_fired_facts(1)] by (auto simp: demo_fired_facts(2) split_def)
qed

end
