(* ===== verification/Protections.thy ===== *)
theory Protections
  imports Complex_Main Scheduler
begin

unbundle bit_operations_syntax

text \<open>
  The protections of \<open>Inc/ST-LIB_HIGH/Protections\<close>: the rules a user declares (\<open>Rules.hpp\<close>) and
  their validation, the evaluation of a rule on a sample, the tracking of its edges and of the
  time above a threshold, the snapshot reported with it, and the evaluation of a protection, which
  combines its rules (\<open>Protection.hpp\<close>, \<open>ProtectionTypes.hpp\<close>).

  The sample type \<open>T\<close> of the templates is the constructor of a \<open>sample\<close>: the samples and
  thresholds of one protection all have the same one. An integer is its value; comparison of two
  integers of the same type is comparison of their values. A float is a \<open>flt\<close>: not a number, an
  infinity or a rational number; comparing and taking the absolute value are exact on them. The
  rounding of the arithmetic on floats is the parameter \<open>rnd\<close>, the rounding to single precision
  (\<open>r32\<close>) and to double precision (\<open>r64\<close>).
\<close>

section \<open>Types\<close>

datatype flt = NaN | Fin rat | PInf | NInf

fun flt_less :: "flt \<Rightarrow> flt \<Rightarrow> bool" where
  "flt_less NaN y = False"
| "flt_less x NaN = False"
| "flt_less (Fin x) (Fin y) = (x < y)"
| "flt_less NInf y = (y \<noteq> NInf)"
| "flt_less x PInf = (x \<noteq> PInf)"
| "flt_less x y = False"

fun flt_eq :: "flt \<Rightarrow> flt \<Rightarrow> bool" where
  "flt_eq NaN y = False"
| "flt_eq x NaN = False"
| "flt_eq x y = (x = y)"

definition flt_le :: "flt \<Rightarrow> flt \<Rightarrow> bool" where
  "flt_le x y \<longleftrightarrow> flt_less x y \<or> flt_eq x y"

fun fabs :: "flt \<Rightarrow> flt" where
  "fabs NaN = NaN"
| "fabs (Fin x) = Fin \<bar>x\<bar>"
| "fabs PInf = PInf"
| "fabs NInf = PInf"

datatype sample = SBool bool | SSigned int | SUnsigned nat | SFloat32 flt | SFloat64 flt

datatype SampleEncoding = BOOL | SIGNED | UNSIGNED | FLOAT32 | FLOAT64

definition max_protections :: nat where "max_protections = 32"
definition max_rules_per_protection :: nat where "max_rules_per_protection = 16"
definition notify_delay_in_microseconds :: u64 where "notify_delay_in_microseconds = 2000000"
definition max_name_length :: nat where "max_name_length = 48"

datatype RuleKind = BELOW | ABOVE | RANGE | EQUALS | NOT_EQUALS | TIME_ACCUMULATION

datatype RuleState = NORMAL | WARNING | FAULT

datatype RuleEdge = NO_EDGE | WARNING_RAISED | FAULT_RAISED | RECOVERED

datatype RuleConfigError = INVALID_WARNING_THRESHOLD | INVALID_RANGE_THRESHOLDS | INVALID_WINDOW
  | INVALID_SAMPLE_RATE | WINDOW_CAPACITY_EXCEEDED

text \<open>\<open>NumericValue\<close>, the union read by the encoding, is the sample itself.\<close>

record RuleSnapshot =
  rs_kind :: RuleKind
  sample_encoding :: SampleEncoding
  observed_value :: sample
  threshold_a :: sample
  threshold_b :: sample
  has_threshold_b :: bool
  uses_warning_threshold :: bool
  time_window_s :: flt
  active_time_s :: flt

definition init_snapshot :: RuleSnapshot where
  "init_snapshot = \<lparr>rs_kind = BELOW, sample_encoding = SIGNED, observed_value = SUnsigned 0,
     threshold_a = SUnsigned 0, threshold_b = SUnsigned 0, has_threshold_b = False,
     uses_warning_threshold = False, time_window_s = Fin 0, active_time_s = Fin 0\<rparr>"

record RuleEvaluation =
  ev_state :: RuleState
  ev_edge :: RuleEdge
  ev_snapshot :: RuleSnapshot

record ProtectionEvaluation =
  aggregated_state :: RuleState
  has_active_fault :: bool
  active_fault_edge :: RuleEdge
  active_fault_snapshot :: RuleSnapshot
  events :: "RuleEvaluation list"

definition init_evaluation :: ProtectionEvaluation where
  "init_evaluation = \<lparr>aggregated_state = NORMAL, has_active_fault = False,
     active_fault_edge = NO_EDGE, active_fault_snapshot = init_snapshot, events = []\<rparr>"

fun sample_encoding_for :: "sample \<Rightarrow> SampleEncoding" where
  "sample_encoding_for (SBool b) = BOOL"
| "sample_encoding_for (SFloat32 x) = FLOAT32"
| "sample_encoding_for (SFloat64 x) = FLOAT64"
| "sample_encoding_for (SSigned i) = SIGNED"
| "sample_encoding_for (SUnsigned n) = UNSIGNED"

definition to_numeric_value :: "sample \<Rightarrow> sample" where
  "to_numeric_value v = v"

definition is_fault_state :: "RuleState \<Rightarrow> bool" where
  "is_fault_state st \<longleftrightarrow> st = FAULT"

definition is_warning_state :: "RuleState \<Rightarrow> bool" where
  "is_warning_state st \<longleftrightarrow> st = WARNING"

section \<open>Comparisons\<close>

fun is_below :: "sample \<Rightarrow> sample \<Rightarrow> bool" where
  "is_below (SBool a) (SBool b) = (\<not> a \<and> b)"
| "is_below (SSigned a) (SSigned b) = (a < b)"
| "is_below (SUnsigned a) (SUnsigned b) = (a < b)"
| "is_below (SFloat32 a) (SFloat32 b) = flt_less a b"
| "is_below (SFloat64 a) (SFloat64 b) = flt_less a b"
| "is_below _ _ = False"

definition is_above :: "sample \<Rightarrow> sample \<Rightarrow> bool" where
  "is_above s t = is_below t s"

fun is_equal_to :: "sample \<Rightarrow> sample \<Rightarrow> bool" where
  "is_equal_to (SFloat32 a) (SFloat32 b) = flt_eq a b"
| "is_equal_to (SFloat64 a) (SFloat64 b) = flt_eq a b"
| "is_equal_to a b = (a = b)"

definition is_not_equal_to :: "sample \<Rightarrow> sample \<Rightarrow> bool" where
  "is_not_equal_to a b \<longleftrightarrow> \<not> is_equal_to a b"

text \<open>\<open>lhs <= rhs\<close> of the sample type.\<close>

definition sample_le :: "sample \<Rightarrow> sample \<Rightarrow> bool" where
  "sample_le a b \<longleftrightarrow> is_below a b \<or> is_equal_to a b"

fun absolute_value :: "sample \<Rightarrow> sample" where
  "absolute_value (SFloat32 a) = SFloat32 (fabs a)"
| "absolute_value (SFloat64 a) = SFloat64 (fabs a)"
| "absolute_value (SSigned i) = SSigned (if i < 0 then - i else i)"
| "absolute_value v = v"

section \<open>Rules and their validation\<close>

datatype RuleDefinition =
    BelowRuleConfig sample "sample option"
  | AboveRuleConfig sample "sample option"
  | RangeRuleConfig sample sample "sample option" "sample option"
  | EqualsRuleConfig sample
  | NotEqualsRuleConfig sample
  | TimeAccumulationRuleConfig sample "sample option" flt

definition validate_below :: "sample option \<Rightarrow> sample \<Rightarrow> RuleConfigError + RuleDefinition" where
  "validate_below warning fault =
     (case warning of
        None \<Rightarrow> Inr (BelowRuleConfig fault None)
      | Some w \<Rightarrow> if \<not> sample_le fault w then Inl INVALID_WARNING_THRESHOLD
                  else Inr (BelowRuleConfig fault warning))"

definition validate_above :: "sample option \<Rightarrow> sample \<Rightarrow> RuleConfigError + RuleDefinition" where
  "validate_above warning fault =
     (case warning of
        None \<Rightarrow> Inr (AboveRuleConfig fault None)
      | Some w \<Rightarrow> if \<not> sample_le w fault then Inl INVALID_WARNING_THRESHOLD
                  else Inr (AboveRuleConfig fault warning))"

definition validate_range ::
    "sample \<Rightarrow> sample \<Rightarrow> sample option \<Rightarrow> sample option \<Rightarrow> RuleConfigError + RuleDefinition" where
  "validate_range low_fault high_fault low_warning high_warning =
     (if \<not> sample_le low_fault high_fault then Inl INVALID_RANGE_THRESHOLDS
      else if (low_warning \<noteq> None) \<noteq> (high_warning \<noteq> None) then Inl INVALID_RANGE_THRESHOLDS
      else case (low_warning, high_warning) of
        (Some lw, Some hw) \<Rightarrow>
          if \<not> (sample_le low_fault lw \<and> sample_le lw hw \<and> sample_le hw high_fault)
          then Inl INVALID_RANGE_THRESHOLDS
          else Inr (RangeRuleConfig low_fault high_fault low_warning high_warning)
      | _ \<Rightarrow> Inr (RangeRuleConfig low_fault high_fault low_warning high_warning))"

definition validate_time_accumulation ::
    "sample \<Rightarrow> sample option \<Rightarrow> flt \<Rightarrow> RuleConfigError + RuleDefinition" where
  "validate_time_accumulation fault warning window =
     (if \<not> flt_less (Fin 0) window then Inl INVALID_WINDOW
      else case warning of
        None \<Rightarrow> Inr (TimeAccumulationRuleConfig fault warning window)
      | Some w \<Rightarrow> if \<not> sample_le w fault then Inl INVALID_WARNING_THRESHOLD
                  else Inr (TimeAccumulationRuleConfig fault warning window))"

definition rule_below :: "sample \<Rightarrow> sample option \<Rightarrow> RuleConfigError + RuleDefinition" where
  "rule_below fault warning = validate_below warning fault"

definition rule_above :: "sample \<Rightarrow> sample option \<Rightarrow> RuleConfigError + RuleDefinition" where
  "rule_above fault warning = validate_above warning fault"

definition rule_range :: "sample \<Rightarrow> sample \<Rightarrow> (sample \<times> sample) option \<Rightarrow> RuleConfigError + RuleDefinition" where
  "rule_range low high warnings = validate_range low high (map_option fst warnings) (map_option snd warnings)"

definition rule_equals :: "sample \<Rightarrow> RuleConfigError + RuleDefinition" where
  "rule_equals v = Inr (EqualsRuleConfig v)"

definition rule_not_equals :: "sample \<Rightarrow> RuleConfigError + RuleDefinition" where
  "rule_not_equals v = Inr (NotEqualsRuleConfig v)"

definition rule_time_accumulation :: "sample \<Rightarrow> sample option \<Rightarrow> flt \<Rightarrow> RuleConfigError + RuleDefinition" where
  "rule_time_accumulation fault warning window = validate_time_accumulation fault warning window"

section \<open>Edges and snapshots\<close>

text \<open>\<open>RuleStateTracker::advance\<close> on the last state: the edge and the new last state.\<close>

definition advance :: "RuleState \<Rightarrow> RuleState \<Rightarrow> RuleEdge \<times> RuleState" where
  "advance last_state current =
     (if current = FAULT \<and> last_state \<noteq> FAULT then FAULT_RAISED
      else if current = WARNING \<and> last_state \<noteq> WARNING then WARNING_RAISED
      else if current = NORMAL \<and> last_state \<noteq> NORMAL then RECOVERED
      else NO_EDGE, current)"

definition should_use_warning_threshold :: "RuleState \<Rightarrow> RuleEdge \<Rightarrow> RuleState \<Rightarrow> bool \<Rightarrow> bool" where
  "should_use_warning_threshold current edge previous has_warning \<longleftrightarrow>
     has_warning \<and> (current = WARNING \<or> edge = RECOVERED \<and> previous = WARNING)"

definition value_or :: "'a option \<Rightarrow> 'a \<Rightarrow> 'a" where
  "value_or x d = (case x of None \<Rightarrow> d | Some v \<Rightarrow> v)"

definition single_threshold ::
    "RuleKind \<Rightarrow> sample \<Rightarrow> RuleState \<Rightarrow> RuleEdge \<Rightarrow> RuleState \<Rightarrow> sample \<Rightarrow> sample option
      \<Rightarrow> flt \<Rightarrow> flt \<Rightarrow> RuleSnapshot" where
  "single_threshold kind observed current edge previous fault warning window active =
     (let uses = should_use_warning_threshold current edge previous (warning \<noteq> None)
      in init_snapshot\<lparr>rs_kind := kind, sample_encoding := sample_encoding_for observed,
           observed_value := to_numeric_value observed, time_window_s := window,
           active_time_s := active, uses_warning_threshold := uses,
           threshold_a := to_numeric_value (if uses then value_or warning fault else fault)\<rparr>)"

definition range_snapshot ::
    "sample \<Rightarrow> RuleState \<Rightarrow> RuleEdge \<Rightarrow> RuleState \<Rightarrow> sample \<Rightarrow> sample \<Rightarrow> sample option \<Rightarrow> sample option
      \<Rightarrow> RuleSnapshot" where
  "range_snapshot observed current edge previous low_fault high_fault low_warning high_warning =
     (let uses = should_use_warning_threshold current edge previous
            (low_warning \<noteq> None \<and> high_warning \<noteq> None)
      in init_snapshot\<lparr>rs_kind := RANGE, sample_encoding := sample_encoding_for observed,
           observed_value := to_numeric_value observed, has_threshold_b := True,
           uses_warning_threshold := uses,
           threshold_a := to_numeric_value (if uses then value_or low_warning low_fault else low_fault),
           threshold_b := to_numeric_value (if uses then value_or high_warning high_fault else high_fault)\<rparr>)"

section \<open>Evaluators\<close>

definition BelowEvaluator :: "sample \<Rightarrow> sample \<Rightarrow> sample option \<Rightarrow> RuleState" where
  "BelowEvaluator s fault warning =
     (if is_below s fault then FAULT
      else if (case warning of None \<Rightarrow> False | Some w \<Rightarrow> is_below s w) then WARNING else NORMAL)"

definition AboveEvaluator :: "sample \<Rightarrow> sample \<Rightarrow> sample option \<Rightarrow> RuleState" where
  "AboveEvaluator s fault warning =
     (if is_above s fault then FAULT
      else if (case warning of None \<Rightarrow> False | Some w \<Rightarrow> is_above s w) then WARNING else NORMAL)"

definition RangeEvaluator ::
    "sample \<Rightarrow> sample \<Rightarrow> sample \<Rightarrow> sample option \<Rightarrow> sample option \<Rightarrow> RuleState" where
  "RangeEvaluator s low_fault high_fault low_warning high_warning =
     (if is_below s low_fault \<or> is_above s high_fault then FAULT
      else case (low_warning, high_warning) of
        (Some lw, Some hw) \<Rightarrow> if is_below s lw \<or> is_above s hw then WARNING else NORMAL
      | _ \<Rightarrow> NORMAL)"

definition EqualsEvaluator :: "sample \<Rightarrow> sample \<Rightarrow> RuleState" where
  "EqualsEvaluator s v = (if is_equal_to s v then FAULT else NORMAL)"

definition NotEqualsEvaluator :: "sample \<Rightarrow> sample \<Rightarrow> RuleState" where
  "NotEqualsEvaluator s v = (if is_not_equal_to s v then FAULT else NORMAL)"

record time_state =
  configured_window_us :: u64
  has_last_tick :: bool
  last_tick_us :: u64
  warning_active_time_us :: u64
  fault_active_time_us :: u64
  active_magnitude :: sample
  rule_active_time_s :: flt

text \<open>\<open>r_llround\<close> is what \<open>llround\<close> gives for an argument that is not finite.\<close>

record rnd =
  r32 :: "rat \<Rightarrow> rat"
  r64 :: "rat \<Rightarrow> rat"
  r_llround :: u64

text \<open>\<open>static_cast<float>(us) / 1'000'000.0f\<close>.\<close>

definition seconds_of :: "rnd \<Rightarrow> u64 \<Rightarrow> flt" where
  "seconds_of r us = Fin (r32 r (r32 r (of_nat (unat us)) / 1000000))"

text \<open>\<open>now\<close> is the value of \<open>Scheduler::get_global_tick\<close>.\<close>

definition TimeAccumulationEvaluator ::
    "rnd \<Rightarrow> u64 \<Rightarrow> sample \<Rightarrow> sample \<Rightarrow> sample option \<Rightarrow> time_state \<Rightarrow> RuleState \<times> time_state" where
  "TimeAccumulationEvaluator r now s fault warning ts =
     (let elapsed = (if has_last_tick ts then now - last_tick_us ts else 0);
          ts = ts\<lparr>has_last_tick := True, last_tick_us := now, active_magnitude := absolute_value s\<rparr>;
          ts = ts\<lparr>fault_active_time_us :=
                 (if is_above (active_magnitude ts) fault then fault_active_time_us ts + elapsed else 0)\<rparr>;
          ts = ts\<lparr>warning_active_time_us :=
                 (if (case warning of None \<Rightarrow> False | Some w \<Rightarrow> is_above (active_magnitude ts) w)
                  then warning_active_time_us ts + elapsed else 0)\<rparr>
      in if fault_active_time_us ts \<ge> configured_window_us ts
         then (FAULT, ts\<lparr>rule_active_time_s := seconds_of r (fault_active_time_us ts)\<rparr>)
         else if warning \<noteq> None \<and> warning_active_time_us ts \<ge> configured_window_us ts
         then (WARNING, ts\<lparr>rule_active_time_s := seconds_of r (warning_active_time_us ts)\<rparr>)
         else (NORMAL, ts\<lparr>rule_active_time_s := seconds_of r
                (if warning \<noteq> None then warning_active_time_us ts else fault_active_time_us ts)\<rparr>))"

section \<open>Rule models\<close>

text \<open>A \<open>RuleModel\<close> holds a rule of every kind and evaluates the one of its \<open>kind\<close>; the others keep
  their initial values. Here it is the definition of that one rule, its tracker, and the state of
  the time accumulation.\<close>

record rule_model =
  rm_definition :: RuleDefinition
  rm_tracker :: RuleState
  rm_time :: time_state

fun zero_value :: "sample \<Rightarrow> sample" where
  "zero_value (SBool b) = SBool False"
| "zero_value (SSigned i) = SSigned 0"
| "zero_value (SUnsigned n) = SUnsigned 0"
| "zero_value (SFloat32 x) = SFloat32 (Fin 0)"
| "zero_value (SFloat64 x) = SFloat64 (Fin 0)"

definition llround :: "rat \<Rightarrow> int" where
  "llround x = (if 0 \<le> x then \<lfloor>x + 1 / 2\<rfloor> else - \<lfloor>- x + 1 / 2\<rfloor>)"

fun window_us :: "rnd \<Rightarrow> flt \<Rightarrow> u64" where
  "window_us r (Fin x) = word_of_int (llround (r64 r (x * 1000000)))"
| "window_us r _ = r_llround r"

definition init_time_state :: "sample \<Rightarrow> time_state" where
  "init_time_state z = \<lparr>configured_window_us = 1, has_last_tick = False, last_tick_us = 0,
     warning_active_time_us = 0, fault_active_time_us = 0, active_magnitude = z,
     rule_active_time_s = Fin 0\<rparr>"

definition TimeAccumulationRule :: "rnd \<Rightarrow> sample \<Rightarrow> flt \<Rightarrow> time_state" where
  "TimeAccumulationRule r fault window =
     (let us = window_us r window
      in (init_time_state (zero_value fault))\<lparr>configured_window_us := (if us = 0 then 1 else us)\<rparr>)"

fun make_rule_model :: "rnd \<Rightarrow> RuleDefinition \<Rightarrow> rule_model" where
  "make_rule_model r (TimeAccumulationRuleConfig fault warning window) =
     \<lparr>rm_definition = TimeAccumulationRuleConfig fault warning window, rm_tracker = NORMAL,
      rm_time = TimeAccumulationRule r fault window\<rparr>"
| "make_rule_model r d =
     \<lparr>rm_definition = d, rm_tracker = NORMAL, rm_time = init_time_state (SUnsigned 0)\<rparr>"

text \<open>\<open>clock\<close> reads the global tick of the world; only the time accumulation calls it. The result
  is the state of the rule, its time state and the world.\<close>

fun compute_rule :: "rnd \<Rightarrow> ('w \<Rightarrow> u64 \<times> 'w) \<Rightarrow> sample \<Rightarrow> RuleDefinition \<Rightarrow> time_state \<Rightarrow> 'w
    \<Rightarrow> RuleState \<times> time_state \<times> 'w" where
  "compute_rule r clock s (BelowRuleConfig fault warning) ts w = (BelowEvaluator s fault warning, ts, w)"
| "compute_rule r clock s (AboveRuleConfig fault warning) ts w = (AboveEvaluator s fault warning, ts, w)"
| "compute_rule r clock s (RangeRuleConfig lf hf lw hw) ts w = (RangeEvaluator s lf hf lw hw, ts, w)"
| "compute_rule r clock s (EqualsRuleConfig v) ts w = (EqualsEvaluator s v, ts, w)"
| "compute_rule r clock s (NotEqualsRuleConfig v) ts w = (NotEqualsEvaluator s v, ts, w)"
| "compute_rule r clock s (TimeAccumulationRuleConfig fault warning window) ts w =
     (let (now, w) = clock w;
          (st, ts) = TimeAccumulationEvaluator r now s fault warning ts
      in (st, ts, w))"

fun rule_snapshot :: "sample \<Rightarrow> RuleState \<Rightarrow> RuleEdge \<Rightarrow> RuleState \<Rightarrow> RuleDefinition \<Rightarrow> time_state \<Rightarrow> RuleSnapshot" where
  "rule_snapshot s st e prev (BelowRuleConfig fault warning) ts =
     single_threshold BELOW s st e prev fault warning (Fin 0) (Fin 0)"
| "rule_snapshot s st e prev (AboveRuleConfig fault warning) ts =
     single_threshold ABOVE s st e prev fault warning (Fin 0) (Fin 0)"
| "rule_snapshot s st e prev (RangeRuleConfig lf hf lw hw) ts = range_snapshot s st e prev lf hf lw hw"
| "rule_snapshot s st e prev (EqualsRuleConfig v) ts =
     single_threshold EQUALS s st e prev v None (Fin 0) (Fin 0)"
| "rule_snapshot s st e prev (NotEqualsRuleConfig v) ts =
     single_threshold NOT_EQUALS s st e prev v None (Fin 0) (Fin 0)"
| "rule_snapshot s st e prev (TimeAccumulationRuleConfig fault warning window) ts =
     single_threshold TIME_ACCUMULATION (active_magnitude ts) st e prev fault warning window
       (rule_active_time_s ts)"

definition evaluate_rule :: "rnd \<Rightarrow> ('w \<Rightarrow> u64 \<times> 'w) \<Rightarrow> sample \<Rightarrow> rule_model \<Rightarrow> 'w
    \<Rightarrow> RuleEvaluation \<times> rule_model \<times> 'w" where
  "evaluate_rule r clock s m w =
     (let previous = rm_tracker m;
          (st, ts, w) = compute_rule r clock s (rm_definition m) (rm_time m) w;
          (edge, tracker) = advance previous st
      in (\<lparr>ev_state = st, ev_edge = edge,
           ev_snapshot = rule_snapshot s st edge previous (rm_definition m) ts\<rparr>,
          m\<lparr>rm_tracker := tracker, rm_time := ts\<rparr>, w))"

section \<open>A protection\<close>

record protection =
  pr_name :: string
  pr_definitions :: "RuleDefinition list"
  pr_rules :: "rule_model list"
  last_fault_publish_tick :: u64

definition make_protection :: "rnd \<Rightarrow> string \<Rightarrow> RuleDefinition list \<Rightarrow> protection" where
  "make_protection r name defs =
     \<lparr>pr_name = name, pr_definitions = defs, pr_rules = map (make_rule_model r) defs,
      last_fault_publish_tick = 0\<rparr>"

text \<open>The body of the loop over the rules, for one evaluated rule.\<close>

definition combine :: "ProtectionEvaluation \<Rightarrow> RuleEvaluation \<Rightarrow> ProtectionEvaluation" where
  "combine e v =
     (let e = (if ev_edge v \<noteq> NO_EDGE \<and> length (events e) < max_rules_per_protection
               then e\<lparr>events := events e @ [v]\<rparr> else e)
      in if ev_state v = FAULT \<and> \<not> has_active_fault e
         then e\<lparr>has_active_fault := True, active_fault_edge := ev_edge v,
                active_fault_snapshot := ev_snapshot v, aggregated_state := FAULT\<rparr>
         else if aggregated_state e \<noteq> FAULT \<and> ev_state v = WARNING
         then e\<lparr>aggregated_state := WARNING\<rparr> else e)"

fun evaluate_rules :: "rnd \<Rightarrow> ('w \<Rightarrow> u64 \<times> 'w) \<Rightarrow> sample \<Rightarrow> rule_model list \<Rightarrow> ProtectionEvaluation \<Rightarrow> 'w
    \<Rightarrow> ProtectionEvaluation \<times> rule_model list \<times> 'w" where
  "evaluate_rules r clock s [] e w = (e, [], w)"
| "evaluate_rules r clock s (m # ms) e w =
     (let (v, m, w) = evaluate_rule r clock s m w;
          (e, ms, w) = evaluate_rules r clock s ms (combine e v) w
      in (e, m # ms, w))"

text \<open>\<open>s\<close> is the sample the source gives.\<close>

definition evaluate_protection :: "rnd \<Rightarrow> ('w \<Rightarrow> u64 \<times> 'w) \<Rightarrow> sample \<Rightarrow> protection \<Rightarrow> 'w
    \<Rightarrow> ProtectionEvaluation \<times> protection \<times> 'w" where
  "evaluate_protection r clock s p w =
     (let (e, ms, w) = evaluate_rules r clock s (pr_rules p) init_evaluation w
      in (e, p\<lparr>pr_rules := ms\<rparr>, w))"

definition clear_runtime_state :: "rnd \<Rightarrow> protection \<Rightarrow> protection" where
  "clear_runtime_state r p =
     p\<lparr>pr_rules := map (make_rule_model r) (pr_definitions p), last_fault_publish_tick := 0\<rparr>"

section \<open>Lemmas\<close>

instantiation RuleState :: linorder
begin

definition severity :: "RuleState \<Rightarrow> nat" where
  "severity st = (case st of NORMAL \<Rightarrow> 0 | WARNING \<Rightarrow> 1 | FAULT \<Rightarrow> 2)"

definition less_eq_RuleState :: "RuleState \<Rightarrow> RuleState \<Rightarrow> bool" where
  "less_eq_RuleState a b \<longleftrightarrow> severity a \<le> severity b"

definition less_RuleState :: "RuleState \<Rightarrow> RuleState \<Rightarrow> bool" where
  "less_RuleState a b \<longleftrightarrow> severity a < severity b"

instance
  by standard (auto simp: less_eq_RuleState_def less_RuleState_def severity_def split: RuleState.splits)

end

lemma RuleState_le [simp]: "NORMAL \<le> st" "st \<le> FAULT" "FAULT \<le> st \<longleftrightarrow> st = FAULT" "st \<le> NORMAL \<longleftrightarrow> st = NORMAL"
  "WARNING \<le> FAULT" "\<not> WARNING \<le> NORMAL"
  by (cases st; simp add: less_eq_RuleState_def severity_def)+

lemma RuleState_max [simp]: "max NORMAL st = st" "max st NORMAL = st" "max FAULT st = FAULT" "max st FAULT = FAULT"
  by (simp_all add: max_def)


lemma init_evaluation_simps [simp]:
  "aggregated_state init_evaluation = NORMAL" "has_active_fault init_evaluation = False"
  "active_fault_edge init_evaluation = NO_EDGE" "active_fault_snapshot init_evaluation = init_snapshot"
  "events init_evaluation = []"
  by (simp_all add: init_evaluation_def)

lemma flt_less_trans: "flt_less a b \<Longrightarrow> flt_less b c \<Longrightarrow> flt_less a c"
  by (cases a; cases b; cases c) auto

lemma flt_le_trans: "flt_less a b \<Longrightarrow> flt_le b c \<Longrightarrow> flt_less a c"
  by (cases a; cases b; cases c) (auto simp: flt_le_def)

lemma flt_trans_le: "flt_le a b \<Longrightarrow> flt_less b c \<Longrightarrow> flt_less a c"
  by (cases a; cases b; cases c) (auto simp: flt_le_def)

lemma below_le_trans: "is_below s f \<Longrightarrow> sample_le f w \<Longrightarrow> is_below s w"
  by (cases s; cases f; cases w) (auto simp: sample_le_def flt_le_trans flt_le_def)

lemma le_below_trans: "sample_le w f \<Longrightarrow> is_below f s \<Longrightarrow> is_below w s"
  by (cases s; cases f; cases w) (auto simp: sample_le_def flt_trans_le flt_le_def)

text \<open>The evaluations of the rules of a protection for one sample, in order.\<close>

fun rule_evaluations :: "rnd \<Rightarrow> ('w \<Rightarrow> u64 \<times> 'w) \<Rightarrow> sample \<Rightarrow> rule_model list \<Rightarrow> 'w \<Rightarrow> RuleEvaluation list" where
  "rule_evaluations r clock s [] w = []"
| "rule_evaluations r clock s (m # ms) w =
     (case evaluate_rule r clock s m w of (v, m', w') \<Rightarrow> v # rule_evaluations r clock s ms w')"

lemma evaluate_rules_fold:
  "fst (evaluate_rules r clock s ms e w) = foldl combine e (rule_evaluations r clock s ms w)"
  by (induction ms arbitrary: e w) (auto split: prod.splits, metis fst_conv)

lemma evaluate_rule_definition: "evaluate_rule r clock s m w = (v, m', w') \<Longrightarrow> rm_definition m' = rm_definition m"
  by (auto simp: evaluate_rule_def Let_def split: prod.splits)

lemma evaluate_rules_definitions:
  "evaluate_rules r clock s ms e w = (e', ms', w') \<Longrightarrow> map rm_definition ms' = map rm_definition ms"
  by (induction ms arbitrary: e w e' ms' w') (auto dest: evaluate_rule_definition split: prod.splits)

lemma combine_events:
  "events (combine e v) = (if ev_edge v \<noteq> NO_EDGE \<and> length (events e) < max_rules_per_protection
     then events e @ [v] else events e)"
  by (simp add: combine_def Let_def)

lemma fold_combine_events:
  assumes "length (events e) \<le> max_rules_per_protection"
  shows "events (foldl combine e vs)
    = take max_rules_per_protection (events e @ filter (\<lambda>v. ev_edge v \<noteq> NO_EDGE) vs)"
  using assms
proof (induction vs arbitrary: e)
  case (Cons v vs)
  show ?case
  proof (cases "ev_edge v \<noteq> NO_EDGE \<and> length (events e) < max_rules_per_protection")
    case True
    then show ?thesis using Cons.IH [of "combine e v"] by (simp add: combine_events)
  next
    case False
    then show ?thesis using Cons.IH [of "combine e v"] Cons.prems by (auto simp: combine_events)
  qed
qed simp

lemma combine_fault:
  "has_active_fault (combine e v) \<longleftrightarrow> has_active_fault e \<or> ev_state v = FAULT"
  "has_active_fault e \<Longrightarrow> active_fault_edge (combine e v) = active_fault_edge e
     \<and> active_fault_snapshot (combine e v) = active_fault_snapshot e"
  "\<not> has_active_fault e \<Longrightarrow> ev_state v = FAULT \<Longrightarrow> active_fault_edge (combine e v) = ev_edge v
     \<and> active_fault_snapshot (combine e v) = ev_snapshot v"
  "\<not> has_active_fault e \<Longrightarrow> ev_state v \<noteq> FAULT \<Longrightarrow> active_fault_edge (combine e v) = active_fault_edge e
     \<and> active_fault_snapshot (combine e v) = active_fault_snapshot e"
  by (auto simp: combine_def Let_def)

text \<open>What a list of evaluations says of the active fault, on top of \<open>e\<close>.\<close>

definition active_of :: "ProtectionEvaluation \<Rightarrow> RuleEvaluation list \<Rightarrow> bool \<times> RuleEdge \<times> RuleSnapshot" where
  "active_of e vs =
     (if has_active_fault e then (True, active_fault_edge e, active_fault_snapshot e)
      else case find (\<lambda>v. ev_state v = FAULT) vs of
        None \<Rightarrow> (False, active_fault_edge e, active_fault_snapshot e)
      | Some v \<Rightarrow> (True, ev_edge v, ev_snapshot v))"

lemma fold_combine_active:
  "(has_active_fault (foldl combine e vs), active_fault_edge (foldl combine e vs),
    active_fault_snapshot (foldl combine e vs)) = active_of e vs"
proof (induction vs arbitrary: e)
  case (Cons v vs)
  then show ?case
    by (cases "has_active_fault e"; cases "ev_state v = FAULT")
      (simp_all add: active_of_def combine_fault split: option.splits)
qed (simp add: active_of_def)

lemma combine_aggregated:
  assumes "has_active_fault e \<longleftrightarrow> aggregated_state e = FAULT"
  shows "aggregated_state (combine e v) = max (aggregated_state e) (ev_state v)"
    and "has_active_fault (combine e v) \<longleftrightarrow> aggregated_state (combine e v) = FAULT"
proof -
  show *: "aggregated_state (combine e v) = max (aggregated_state e) (ev_state v)"
    using assms
    by (cases "ev_state v"; cases "aggregated_state e")
      (auto simp: combine_def Let_def max_def less_eq_RuleState_def severity_def)
  show "has_active_fault (combine e v) \<longleftrightarrow> aggregated_state (combine e v) = FAULT"
    using assms unfolding * combine_fault(1)
    by (cases "ev_state v"; cases "aggregated_state e")
      (auto simp: max_def less_eq_RuleState_def severity_def)
qed

lemma fold_combine_aggregated:
  assumes "has_active_fault e \<longleftrightarrow> aggregated_state e = FAULT"
  shows "aggregated_state (foldl combine e vs) = foldl max (aggregated_state e) (map ev_state vs)"
  using assms
proof (induction vs arbitrary: e)
  case (Cons v vs)
  have "aggregated_state (foldl combine (combine e v) vs)
      = foldl max (aggregated_state (combine e v)) (map ev_state vs)"
    by (rule Cons.IH) (rule combine_aggregated(2) [OF Cons.prems])
  then show ?case by (simp add: combine_aggregated(1) [OF Cons.prems])
qed simp

text \<open>C8. The evaluation of a protection reports, for one sample, the first sixteen rules whose state
  changed, in the order of the rules; the most severe state of any rule; and as its active fault the
  edge and the snapshot of the first rule that is in the fault state, whether or not that rule just
  entered it. The definitions of the rules stay as configured.\<close>

theorem evaluate_protection_spec:
  assumes "evaluate_protection r clock s p w = (e, p', w')"
  defines "vs \<equiv> rule_evaluations r clock s (pr_rules p) w"
  shows "events e = take 16 (filter (\<lambda>v. ev_edge v \<noteq> NO_EDGE) vs)
    \<and> aggregated_state e = foldl max NORMAL (map ev_state vs)
    \<and> (has_active_fault e, active_fault_edge e, active_fault_snapshot e)
        = (case find (\<lambda>v. ev_state v = FAULT) vs of
             None \<Rightarrow> (False, NO_EDGE, init_snapshot)
           | Some v \<Rightarrow> (True, ev_edge v, ev_snapshot v))
    \<and> map rm_definition (pr_rules p') = map rm_definition (pr_rules p)
    \<and> pr_definitions p' = pr_definitions p \<and> last_fault_publish_tick p' = last_fault_publish_tick p"
proof -
  obtain ms where e: "evaluate_rules r clock s (pr_rules p) init_evaluation w = (e, ms, w')"
    and p': "p' = p\<lparr>pr_rules := ms\<rparr>"
    using assms(1) by (auto simp: evaluate_protection_def Let_def split: prod.splits)
  have f: "e = foldl combine init_evaluation vs"
    using evaluate_rules_fold [of r clock s "pr_rules p" init_evaluation w] e by (simp add: vs_def)
  have "events e = take 16 (filter (\<lambda>v. ev_edge v \<noteq> NO_EDGE) vs)"
    unfolding f by (subst fold_combine_events) (simp_all add: max_rules_per_protection_def)
  moreover have "aggregated_state e = foldl max NORMAL (map ev_state vs)"
    unfolding f by (subst fold_combine_aggregated) simp_all
  moreover have "(has_active_fault e, active_fault_edge e, active_fault_snapshot e)
        = (case find (\<lambda>v. ev_state v = FAULT) vs of
             None \<Rightarrow> (False, NO_EDGE, init_snapshot) | Some v \<Rightarrow> (True, ev_edge v, ev_snapshot v))"
    unfolding f by (subst fold_combine_active) (simp add: active_of_def split: option.splits)
  ultimately show ?thesis using evaluate_rules_definitions [OF e] by (simp add: p')
qed


text \<open>The witness: of three rules on the sample 12 the third faults and the first warns.\<close>

definition ideal :: rnd where
  "ideal = \<lparr>r32 = \<lambda>x. x, r64 = \<lambda>x. x, r_llround = 0\<rparr>"

definition still :: "u64 \<Rightarrow> u64 \<times> u64" where
  "still w = (w, w)"

definition sample_protection :: protection where
  "sample_protection = make_protection ideal ''bus''
     [AboveRuleConfig (SSigned 20) (Some (SSigned 10)), EqualsRuleConfig (SSigned 3),
      RangeRuleConfig (SSigned 0) (SSigned 11) None None]"

lemma evaluate_protection_spec_witness:
  "case evaluate_protection ideal still (SSigned 12) sample_protection 0 of
     (e, p', w') \<Rightarrow> aggregated_state e = FAULT \<and> map ev_edge (events e) = [WARNING_RAISED, FAULT_RAISED]"
proof -
  obtain e p' w' where e: "evaluate_protection ideal still (SSigned 12) sample_protection 0 = (e, p', w')"
    by (cases "evaluate_protection ideal still (SSigned 12) sample_protection 0") auto
  have vs: "map (\<lambda>v. (ev_state v, ev_edge v)) (rule_evaluations ideal still (SSigned 12)
      (pr_rules sample_protection) 0) = [(WARNING, WARNING_RAISED), (NORMAL, NO_EDGE), (FAULT, FAULT_RAISED)]"
    by (simp add: sample_protection_def make_protection_def evaluate_rule_def Let_def AboveEvaluator_def
        EqualsEvaluator_def RangeEvaluator_def is_above_def advance_def)
  then show ?thesis
    using evaluate_protection_spec [OF e] e by (auto simp: map_eq_Cons_conv max_def)
qed

section \<open>Edges\<close>

text \<open>Evaluations of one rule, one after the other, each with the sample it gets.\<close>

fun run_rule :: "rnd \<Rightarrow> ('w \<Rightarrow> u64 \<times> 'w) \<Rightarrow> sample list \<Rightarrow> rule_model \<Rightarrow> 'w \<Rightarrow> RuleEvaluation list \<times> rule_model \<times> 'w" where
  "run_rule r clock [] m w = ([], m, w)"
| "run_rule r clock (s # ss) m w =
     (let (v, m, w) = evaluate_rule r clock s m w; (vs, m, w) = run_rule r clock ss m w in (v # vs, m, w))"

text \<open>What a listener that only gets the edges believes the state to be.\<close>

fun follow_edge :: "RuleState \<Rightarrow> RuleEdge \<Rightarrow> RuleState" where
  "follow_edge st NO_EDGE = st"
| "follow_edge st WARNING_RAISED = WARNING"
| "follow_edge st FAULT_RAISED = FAULT"
| "follow_edge st RECOVERED = NORMAL"

lemma advance_follow: "advance prev st = (e, t) \<Longrightarrow> follow_edge prev e = st \<and> t = st \<and> (e = NO_EDGE \<longleftrightarrow> st = prev)"
  by (cases st; cases prev) (auto simp: advance_def)

lemma evaluate_rule_edge:
  assumes "evaluate_rule r clock s m w = (v, m', w')"
  shows "follow_edge (rm_tracker m) (ev_edge v) = ev_state v" "rm_tracker m' = ev_state v"
    "ev_edge v = NO_EDGE \<longleftrightarrow> ev_state v = rm_tracker m"
  using assms advance_follow [of "rm_tracker m" "ev_state v"]
  by (auto simp: evaluate_rule_def Let_def split: prod.splits)

lemma run_rule_edges:
  "run_rule r clock ss m w = (vs, m', w') \<Longrightarrow>
     length vs = length ss
     \<and> foldl follow_edge (rm_tracker m) (map ev_edge vs) = rm_tracker m'
     \<and> rm_tracker m' = last (rm_tracker m # map ev_state vs)"
proof (induction ss arbitrary: m w vs)
  case (Cons s ss)
  obtain v m1 w1 where v: "evaluate_rule r clock s m w = (v, m1, w1)" by (cases "evaluate_rule r clock s m w") auto
  obtain vs1 where vs1: "run_rule r clock ss m1 w1 = (vs1, m', w')" and vs: "vs = v # vs1"
    using Cons.prems v by (auto split: prod.splits)
  show ?case
    using Cons.IH [OF vs1] evaluate_rule_edge [OF v] by (auto simp: vs)
qed simp

text \<open>The edges a rule reports lose nothing: a listener that starts at normal and follows only the
  edges always knows the state of the rule, and an evaluation reports an edge exactly when the state
  differs from the one before.\<close>

theorem edges_tell_states:
  assumes "run_rule r clock (ss @ [s]) (make_rule_model r d) w = (vs, m', w')"
  shows "foldl follow_edge NORMAL (map ev_edge vs) = ev_state (last vs)
    \<and> (ev_edge (last vs) = NO_EDGE \<longleftrightarrow> ev_state (last vs) = last (NORMAL # map ev_state (butlast vs)))"
proof -
  have tr: "rm_tracker (make_rule_model r d) = NORMAL" by (cases d) simp_all
  have split: "run_rule r clock (ss @ [s]) m w = (let (vs1, m1, w1) = run_rule r clock ss m w;
      (v, m2, w2) = evaluate_rule r clock s m1 w1 in (vs1 @ [v], m2, w2))" for m
    by (induction ss arbitrary: m w) (auto simp: Let_def split: prod.splits)
  obtain vs1 m1 w1 v where vs1: "run_rule r clock ss (make_rule_model r d) w = (vs1, m1, w1)"
    and v: "evaluate_rule r clock s m1 w1 = (v, m', w')" and vs: "vs = vs1 @ [v]"
    using assms unfolding split by (auto simp: Let_def split: prod.splits)
  show ?thesis
    using run_rule_edges [OF assms] run_rule_edges [OF vs1] evaluate_rule_edge [OF v] by (auto simp: vs tr)
qed

lemma edges_tell_states_witness:
  "case run_rule ideal still ([SSigned 5, SSigned 12] @ [SSigned 12])
      (make_rule_model ideal (AboveRuleConfig (SSigned 10) None)) 0 of
     (vs, m', w') \<Rightarrow> ev_state (last vs) = FAULT \<and> ev_edge (last vs) = NO_EDGE
       \<and> foldl follow_edge NORMAL (map ev_edge vs) = FAULT"
proof -
  obtain vs m' w' where e: "run_rule ideal still ([SSigned 5, SSigned 12] @ [SSigned 12])
      (make_rule_model ideal (AboveRuleConfig (SSigned 10) None)) 0 = (vs, m', w')"
    by (cases "run_rule ideal still ([SSigned 5, SSigned 12] @ [SSigned 12])
      (make_rule_model ideal (AboveRuleConfig (SSigned 10) None)) 0") auto
  have "map ev_state vs = [NORMAL, FAULT, FAULT]"
    using e by (auto simp: evaluate_rule_def Let_def AboveEvaluator_def is_above_def advance_def)
  then show ?thesis
    using edges_tell_states [OF e] e by (auto simp: map_eq_Cons_conv)
qed


section \<open>Accepted thresholds\<close>

lemma below_regions:
  assumes "rule_below f (Some w) = Inr d"
  shows "fst (compute_rule r clock s d ts x) = FAULT \<longleftrightarrow> is_below s f"
    and "WARNING \<le> fst (compute_rule r clock s d ts x) \<longleftrightarrow> is_below s w"
  using assms below_le_trans [of s f w]
  by (auto simp: rule_below_def validate_below_def BelowEvaluator_def split: if_splits)

lemma above_regions:
  assumes "rule_above f (Some w) = Inr d"
  shows "fst (compute_rule r clock s d ts x) = FAULT \<longleftrightarrow> is_above s f"
    and "WARNING \<le> fst (compute_rule r clock s d ts x) \<longleftrightarrow> is_above s w"
  using assms le_below_trans [of w f s]
  by (auto simp: rule_above_def validate_above_def AboveEvaluator_def is_above_def split: if_splits)

lemma range_regions:
  assumes "rule_range lf hf (Some (lw, hw)) = Inr d"
  shows "fst (compute_rule r clock s d ts x) = FAULT \<longleftrightarrow> is_below s lf \<or> is_above s hf"
    and "WARNING \<le> fst (compute_rule r clock s d ts x) \<longleftrightarrow> is_below s lw \<or> is_above s hw"
  using assms le_below_trans [of hw hf s] below_le_trans [of s lf lw]
  by (auto simp: rule_range_def validate_range_def RangeEvaluator_def is_above_def split: if_splits)

text \<open>Where the thresholds of a rule with a warning level are accepted, the warning region encloses
  the fault region: the rule faults exactly beyond the fault thresholds and warns or faults exactly
  beyond the warning thresholds, so that a sample on its way to a fault is past the warning level
  first. This holds for every sample type, the floats with their infinities and not-a-number, which
  none of these rules ever reports.\<close>

theorem warning_encloses_fault:
  assumes "fst (compute_rule r clock s d ts x) = st"
  shows "(rule_below f (Some w) = Inr d \<longrightarrow> (st = FAULT \<longleftrightarrow> is_below s f) \<and> (WARNING \<le> st \<longleftrightarrow> is_below s w))
    \<and> (rule_above f (Some w) = Inr d \<longrightarrow> (st = FAULT \<longleftrightarrow> is_above s f) \<and> (WARNING \<le> st \<longleftrightarrow> is_above s w))
    \<and> (rule_range lf hf (Some (lw, hw)) = Inr d \<longrightarrow>
        (st = FAULT \<longleftrightarrow> is_below s lf \<or> is_above s hf)
        \<and> (WARNING \<le> st \<longleftrightarrow> is_below s lw \<or> is_above s hw))
    \<and> (s = SFloat32 NaN \<longrightarrow> rule_below f (Some w) = Inr d \<or> rule_above f (Some w) = Inr d
        \<or> rule_range lf hf (Some (lw, hw)) = Inr d \<longrightarrow> st = NORMAL)"
proof -
  have nan: "\<not> is_below (SFloat32 NaN) y" "\<not> is_above (SFloat32 NaN) y" for y
    by (cases y rule: sample.exhaust; simp add: is_above_def)
      (cases y rule: sample.exhaust; simp add: is_above_def; rename_tac z; case_tac z; simp)
  have N: "st = NORMAL \<longleftrightarrow> \<not> WARNING \<le> st" by (cases st) (simp_all add: less_eq_RuleState_def severity_def)
  show ?thesis
    using below_regions [of f w d r clock s ts x] above_regions [of f w d r clock s ts x]
      range_regions [of lf hf lw hw d r clock s ts x] nan assms N
    by auto
qed

lemma warning_encloses_fault_witness:
  "rule_range (SSigned 0) (SSigned 100) (Some (SSigned 10, SSigned 90))
      = Inr (RangeRuleConfig (SSigned 0) (SSigned 100) (Some (SSigned 10)) (Some (SSigned 90)))
    \<and> WARNING \<le> fst (compute_rule ideal still (SSigned 95)
         (RangeRuleConfig (SSigned 0) (SSigned 100) (Some (SSigned 10)) (Some (SSigned 90)))
         (init_time_state (SSigned 0)) 0)"
proof -
  have r: "rule_range (SSigned 0) (SSigned 100) (Some (SSigned 10, SSigned 90))
      = Inr (RangeRuleConfig (SSigned 0) (SSigned 100) (Some (SSigned 10)) (Some (SSigned 90)))"
    by (simp add: rule_range_def validate_range_def sample_le_def)
  show ?thesis
    using r warning_encloses_fault [OF refl, of "SSigned 0" "SSigned 0"
        "RangeRuleConfig (SSigned 0) (SSigned 100) (Some (SSigned 10)) (Some (SSigned 90))"
        ideal still "SSigned 95" "init_time_state (SSigned 0)" 0
        "SSigned 0" "SSigned 100" "SSigned 10" "SSigned 90"]
    by (simp add: is_above_def)
qed

section \<open>Accumulated time\<close>

text \<open>Evaluations at the ticks and with the samples of a list.\<close>

fun observe :: "rnd \<Rightarrow> sample \<Rightarrow> sample option \<Rightarrow> (u64 \<times> sample) list \<Rightarrow> time_state \<Rightarrow> time_state" where
  "observe r fault warning [] ts = ts"
| "observe r fault warning ((now, s) # h) ts =
     observe r fault warning h (snd (TimeAccumulationEvaluator r now s fault warning ts))"

abbreviation over :: "sample \<Rightarrow> sample \<Rightarrow> bool" where
  "over fault s \<equiv> is_above (absolute_value s) fault"

lemma accumulate_step:
  fixes r now s fault warning and ts :: time_state
  defines "ts' \<equiv> snd (TimeAccumulationEvaluator r now s fault warning ts)"
  shows "has_last_tick ts'" "last_tick_us ts' = now"
    "configured_window_us ts' = configured_window_us ts"
    "fault_active_time_us ts' = (if over fault s
       then fault_active_time_us ts + (if has_last_tick ts then now - last_tick_us ts else 0) else 0)"
    "fst (TimeAccumulationEvaluator r now s fault warning ts) = FAULT
       \<longleftrightarrow> configured_window_us ts \<le> fault_active_time_us ts'"
  by (auto simp: ts'_def TimeAccumulationEvaluator_def Let_def)

lemma observe_append:
  "observe r fault warning (h @ h') ts = observe r fault warning h' (observe r fault warning h ts)"
  by (induction h arbitrary: ts) auto

lemma observe_window: "configured_window_us (observe r fault warning h ts) = configured_window_us ts"
  by (induction h arbitrary: ts) (auto simp: accumulate_step)

lemma observe_over:
  assumes "list_all (\<lambda>(t, s). over fault s) h" "has_last_tick ts"
  shows "has_last_tick (observe r fault warning h ts)
    \<and> fault_active_time_us (observe r fault warning h ts) - last_tick_us (observe r fault warning h ts)
        = fault_active_time_us ts - last_tick_us ts"
  using assms
proof (induction h arbitrary: ts)
  case (Cons a h)
  obtain now s where a: "a = (now, s)" by (cases a)
  show ?case
    using Cons.IH [of "snd (TimeAccumulationEvaluator r now s fault warning ts)"] Cons.prems
    by (simp add: a accumulate_step)
qed simp

lemma TimeAccumulationRule_simps [simp]:
  "fault_active_time_us (TimeAccumulationRule r fault window) = 0"
  "has_last_tick (TimeAccumulationRule r fault window) = False"
  "configured_window_us (TimeAccumulationRule r fault window)
     = (if window_us r window = 0 then 1 else window_us r window)"
  by (simp_all add: TimeAccumulationRule_def init_time_state_def Let_def)

text \<open>A time accumulation rule measures how long the magnitude of the sample has been above the
  fault threshold without a break: where the latest evaluations were all above it since the one at
  \<open>t0\<close>, which is the first of all or one that was not above, the rule is in fault at \<open>now\<close> exactly
  when \<open>now - t0\<close> has reached the window, whatever happened before and however unevenly the
  evaluations were spaced. An evaluation that is not above is never a fault, however short the
  window. The time is counted from \<open>t0\<close>, so that the interval before the first evaluation above the
  threshold is part of it.\<close>

theorem accumulates_time_above:
  fixes r fault warning window pre t0 s0 streak now s
  defines "ts \<equiv> observe r fault warning (pre @ (t0, s0) # streak) (TimeAccumulationRule r fault window)"
    and "win \<equiv> (if window_us r window = 0 then 1 else window_us r window)"
  assumes "pre = [] \<or> \<not> over fault s0"
    and "list_all (\<lambda>(t, s). over fault s) streak"
  shows "(over fault s \<longrightarrow>
      (fst (TimeAccumulationEvaluator r now s fault warning ts) = FAULT \<longleftrightarrow> win \<le> now - t0))
    \<and> (\<not> over fault s \<longrightarrow> fst (TimeAccumulationEvaluator r now s fault warning ts) \<noteq> FAULT)"
proof -
  define a where "a = observe r fault warning pre (TimeAccumulationRule r fault window)"
  define b where "b = snd (TimeAccumulationEvaluator r t0 s0 fault warning a)"
  have ts: "ts = observe r fault warning streak b"
    by (simp add: ts_def observe_append b_def a_def)
  have b: "has_last_tick b" "last_tick_us b = t0" "fault_active_time_us b = 0"
    using assms(3) by (auto simp: b_def accumulate_step a_def)
  have f: "has_last_tick ts" "fault_active_time_us ts - last_tick_us ts = - t0"
    using observe_over [OF assms(4) b(1), of r warning] b by (simp_all add: ts)
  have "fault_active_time_us ts = last_tick_us ts - t0"
    using f(2) by (simp add: algebra_simps)
  then have "over fault s \<Longrightarrow> fault_active_time_us (snd (TimeAccumulationEvaluator r now s fault warning ts)) = now - t0"
    by (simp add: accumulate_step f(1))
  moreover have w: "configured_window_us ts = win"
    by (simp add: ts b_def a_def accumulate_step observe_window win_def)
  moreover have "\<not> win \<le> 0" by (simp add: win_def)
  ultimately show ?thesis by (auto simp: accumulate_step(5) accumulate_step(4))
qed

lemma accumulates_time_above_witness:
  "fst (TimeAccumulationEvaluator ideal 3000 (SFloat32 (Fin (- 9))) (SFloat32 (Fin 5)) None
      (observe ideal (SFloat32 (Fin 5)) None ([(500, SFloat32 (Fin 8))] @ (1000, SFloat32 (Fin 1))
        # [(1700, SFloat32 (Fin 7))]) (TimeAccumulationRule ideal (SFloat32 (Fin 5)) (Fin (1 / 500))))) = FAULT"
proof -
  have "\<lfloor>4001 / 2 :: rat\<rfloor> = 2000" by (simp add: floor_eq_iff)
  then have w: "window_us ideal (Fin (1 / 500)) = 2000"
    by (simp add: ideal_def llround_def)
  show ?thesis
    using accumulates_time_above [where pre = "[(500, SFloat32 (Fin 8))]" and fault = "SFloat32 (Fin 5)"
        and ?s0.0 = "SFloat32 (Fin 1)" and streak = "[(1700, SFloat32 (Fin 7))]" and ?t0.0 = 1000
        and s = "SFloat32 (Fin (- 9))" and now = 3000 and warning = None and r = ideal
        and window = "Fin (1 / 500)"]
    by (simp add: is_above_def w del: window_us.simps)
qed

section \<open>Clearing\<close>

text \<open>A protection that has been evaluated, one sample after the other.\<close>

fun run_protection :: "rnd \<Rightarrow> ('w \<Rightarrow> u64 \<times> 'w) \<Rightarrow> sample list \<Rightarrow> protection \<Rightarrow> 'w \<Rightarrow> protection \<times> 'w" where
  "run_protection r clock [] p w = (p, w)"
| "run_protection r clock (s # ss) p w =
     (let (e, p, w) = evaluate_protection r clock s p w in run_protection r clock ss p w)"

lemma run_protection_definitions:
  "run_protection r clock ss p w = (p', w') \<Longrightarrow> pr_definitions p' = pr_definitions p \<and> pr_name p' = pr_name p"
  by (induction ss arbitrary: p w) (auto simp: evaluate_protection_def Let_def split: prod.splits)

text \<open>Clearing the runtime state of a protection, after any evaluations, gives the protection as it
  was constructed: every rule is at normal, with no accumulated time, and no fault was published.\<close>

theorem clear_restores_protection:
  assumes "run_protection r clock ss (make_protection r name defs) w = (p, w')"
  shows "clear_runtime_state r (p\<lparr>last_fault_publish_tick := tick\<rparr>) = make_protection r name defs"
  using run_protection_definitions [OF assms] by (simp add: clear_runtime_state_def make_protection_def)

lemma clear_restores_protection_witness:
  "clear_runtime_state ideal ((fst (run_protection ideal still [SSigned 12, SSigned 30]
      (make_protection ideal ''bus'' [EqualsRuleConfig (SSigned 30)]) 0))\<lparr>last_fault_publish_tick := 7\<rparr>)
    = make_protection ideal ''bus'' [EqualsRuleConfig (SSigned 30)]"
  by (rule clear_restores_protection [OF prod.collapse [symmetric]])

end
