(* ===== verification/Rtc.thy ===== *)
theory Rtc
  imports Prelude
begin

unbundle bit_operations_syntax

text \<open>
  The real-time clock of \<open>Src/HALAL/Services/Time/RTC.cpp\<close>, compiled with
  \<open>HAL_RTC_MODULE_ENABLED\<close>: its three flags, the last time read, and the start, reading and setting
  of the clock. The calls of the HAL are the operations of \<open>rtc_hal\<close>; \<open>PANIC\<close> is
  \<open>hal_panic\<close>, an effect on the world \<open>'w\<close>.
\<close>

section \<open>State\<close>

record RTCData =
  rtc_counter :: u16
  rtc_second :: u8
  rtc_minute :: u8
  rtc_hour :: u8
  rtc_day :: u8
  rtc_month :: u8
  rtc_year :: u16

definition zero_rtc :: RTCData where
  "zero_rtc = \<lparr>rtc_counter = 0, rtc_second = 0, rtc_minute = 0, rtc_hour = 0, rtc_day = 0,
     rtc_month = 0, rtc_year = 0\<rparr>"

text \<open>The fields of \<open>RTC_TimeTypeDef\<close> and \<open>RTC_DateTypeDef\<close> that the code writes and reads.\<close>

record rtc_time =
  Hours :: u8
  Minutes :: u8
  Seconds :: u8
  SubSeconds :: u32
  SecondFraction :: u32

record rtc_date =
  WeekDay :: u8
  Month :: u8
  Date :: u8
  Year :: u8

record 'w rtc_hal =
  hal_init :: "u32 \<Rightarrow> u32 \<Rightarrow> 'w \<Rightarrow> bool \<times> 'w"
  hal_set_time :: "rtc_time \<Rightarrow> 'w \<Rightarrow> bool \<times> 'w"
  hal_set_date :: "rtc_date \<Rightarrow> 'w \<Rightarrow> bool \<times> 'w"
  hal_get_time :: "'w \<Rightarrow> rtc_time \<times> 'w"
  hal_get_date :: "'w \<Rightarrow> rtc_date \<times> 'w"
  hal_panic :: "string \<Rightarrow> 'w \<Rightarrow> 'w"

record rtc =
  rtc_started :: bool
  rtc_start_in_progress :: bool
  rtc_time_valid :: bool
  global_RTC :: RTCData

definition init_rtc :: rtc where
  "init_rtc = \<lparr>rtc_started = False, rtc_start_in_progress = False, rtc_time_valid = False,
     global_RTC = zero_rtc\<rparr>"

definition rtc_async_prediv :: u32 where "rtc_async_prediv = 0x7F"
definition rtc_sync_prediv :: u32 where "rtc_sync_prediv = 0xF9"

section \<open>Operations\<close>

definition start_rtc :: "'w rtc_hal \<Rightarrow> rtc \<Rightarrow> 'w \<Rightarrow> rtc \<times> 'w" where
  "start_rtc hal r w =
     (if rtc_started r \<or> rtc_start_in_progress r then (r, w)
      else let r = r\<lparr>rtc_start_in_progress := True\<rparr>;
               (ok, w) = hal_init hal rtc_async_prediv rtc_sync_prediv w
           in if \<not> ok
              then (r\<lparr>rtc_start_in_progress := False\<rparr>, hal_panic hal ''Error on RTC Init'' w)
              else let (ok, w) = hal_set_time hal
                         \<lparr>Hours = 0, Minutes = 0, Seconds = 0, SubSeconds = 0, SecondFraction = 0\<rparr> w
                   in if \<not> ok
                      then (r\<lparr>rtc_start_in_progress := False\<rparr>,
                            hal_panic hal ''Error while setting time at RTC start'' w)
                      else let (ok, w) = hal_set_date hal \<lparr>WeekDay = 1, Month = 1, Date = 1, Year = 23\<rparr> w
                           in if \<not> ok
                              then (r\<lparr>rtc_start_in_progress := False\<rparr>,
                                    hal_panic hal ''Error while setting date at RTC start'' w)
                              else (r\<lparr>rtc_time_valid := False, rtc_started := True,
                                      rtc_start_in_progress := False\<rparr>, w))"

definition ensure_started :: "'w rtc_hal \<Rightarrow> rtc \<Rightarrow> 'w \<Rightarrow> bool \<times> rtc \<times> 'w" where
  "ensure_started hal r w =
     (let (r, w) = (if \<not> rtc_started r \<and> \<not> rtc_start_in_progress r then start_rtc hal r w else (r, w))
      in (rtc_started r, r, w))"

definition is_started :: "rtc \<Rightarrow> bool" where
  "is_started r = rtc_started r"

definition has_valid_time :: "rtc \<Rightarrow> bool" where
  "has_valid_time r = rtc_time_valid r"

definition get_rtc_timestamp :: "'w rtc_hal \<Rightarrow> 'w \<Rightarrow> RTCData \<times> 'w" where
  "get_rtc_timestamp hal w =
     (let (t, w) = hal_get_time hal w; (d, w) = hal_get_date hal w
      in (\<lparr>rtc_counter = ucast (SecondFraction t - SubSeconds t), rtc_second = Seconds t,
           rtc_minute = Minutes t, rtc_hour = Hours t, rtc_day = Date d, rtc_month = Month d,
           rtc_year = 2000 + ucast (Year d)\<rparr>, w))"

definition set_rtc_data :: "'w rtc_hal \<Rightarrow> RTCData \<Rightarrow> rtc \<Rightarrow> 'w \<Rightarrow> rtc \<times> 'w" where
  "set_rtc_data hal v r w =
     (let (up, r, w) = ensure_started hal r w
      in if \<not> up then (r, w)
         else let (ok1, w) = hal_set_time hal
                    \<lparr>Hours = rtc_hour v, Minutes = rtc_minute v, Seconds = rtc_second v,
                     SubSeconds = ucast (rtc_counter v), SecondFraction = 0\<rparr> w;
                  w = (if ok1 then w else hal_panic hal ''Error on writing Time on the RTC'' w);
                  (ok2, w) = hal_set_date hal
                    \<lparr>WeekDay = 0, Month = rtc_month v, Date = rtc_day v, Year = ucast (rtc_year v - 2000)\<rparr> w;
                  w = (if ok2 then w else hal_panic hal ''Error on writing Date on the RTC'' w);
                  r = r\<lparr>rtc_time_valid := ok1 \<and> ok2\<rparr>
              in if ok1 \<and> ok2
                 then let (t, w) = get_rtc_timestamp hal w in (r\<lparr>global_RTC := t\<rparr>, w)
                 else (r, w))"

definition update_rtc_data :: "'w rtc_hal \<Rightarrow> rtc \<Rightarrow> 'w \<Rightarrow> rtc \<times> 'w" where
  "update_rtc_data hal r w =
     (let (up, r, w) = ensure_started hal r w
      in if \<not> up then (r, w)
         else if \<not> rtc_time_valid r then (r\<lparr>global_RTC := zero_rtc\<rparr>, w)
         else let (t, w) = get_rtc_timestamp hal w in (r\<lparr>global_RTC := t\<rparr>, w))"

section \<open>Properties\<close>

text \<open>The clock is never left half started, and its time counts as valid only while it runs.\<close>

definition rtc_inv :: "rtc \<Rightarrow> bool" where
  "rtc_inv r \<longleftrightarrow> \<not> rtc_start_in_progress r \<and> (rtc_time_valid r \<longrightarrow> rtc_started r)"

datatype rtc_call = Start | Ensure | SetTime RTCData | Update

fun rtc_do :: "'w rtc_hal \<Rightarrow> rtc_call \<Rightarrow> rtc \<times> 'w \<Rightarrow> rtc \<times> 'w" where
  "rtc_do hal Start (r, w) = start_rtc hal r w"
| "rtc_do hal Ensure (r, w) = snd (ensure_started hal r w)"
| "rtc_do hal (SetTime v) (r, w) = set_rtc_data hal v r w"
| "rtc_do hal Update (r, w) = update_rtc_data hal r w"

lemma start_rtc_inv: "rtc_inv r \<Longrightarrow> rtc_inv (fst (start_rtc hal r w))"
  by (auto simp: rtc_inv_def start_rtc_def Let_def split: prod.splits)

lemma ensure_started_inv: "rtc_inv r \<Longrightarrow> ensure_started hal r w = (b, r', w') \<Longrightarrow> rtc_inv r' \<and> b = rtc_started r'"
  using start_rtc_inv [of r hal w] by (auto simp: ensure_started_def split: prod.splits if_splits)

lemma rtc_do_inv: "rtc_inv (fst p) \<Longrightarrow> rtc_inv (fst (rtc_do hal c p))"
proof (cases p)
  case (Pair r w)
  assume i: "rtc_inv (fst p)"
  obtain b r' w' where e: "ensure_started hal r w = (b, r', w')" by (cases "ensure_started hal r w") auto
  have j: "rtc_inv r'" "b = rtc_started r'" using ensure_started_inv [OF _ e] i Pair by auto
  show ?thesis
  proof (cases c)
    case Start
    then show ?thesis using start_rtc_inv i Pair by auto
  next
    case Ensure
    then show ?thesis using j e Pair by auto
  next
    case (SetTime v)
    then show ?thesis using j e Pair
      by (auto simp: set_rtc_data_def rtc_inv_def Let_def split: prod.splits)
  next
    case Update
    then show ?thesis using j e Pair
      by (auto simp: update_rtc_data_def rtc_inv_def Let_def split: prod.splits)
  qed
qed

lemma init_rtc_inv: "rtc_inv init_rtc"
  by (simp add: rtc_inv_def init_rtc_def)

text \<open>Whatever the clock's hardware answers, and in whatever order the clock is started, set and
  read, no start is left in progress, so that a failed start can be tried again, and the time is
  reported as valid only if the clock was started. Setting the time makes it valid exactly when both
  writes succeed: a failed write makes the time invalid even if an earlier one was valid.\<close>

theorem rtc_valid_when_set:
  assumes "s = fold (rtc_do hal) cs (init_rtc, w)"
  shows "\<not> rtc_start_in_progress (fst s) \<and> (has_valid_time (fst s) \<longrightarrow> is_started (fst s))
    \<and> (is_started (fst s) \<longrightarrow>
        (let (ok1, w1) = hal_set_time hal \<lparr>Hours = rtc_hour v, Minutes = rtc_minute v,
               Seconds = rtc_second v, SubSeconds = ucast (rtc_counter v), SecondFraction = 0\<rparr> (snd s);
             w2 = (if ok1 then w1 else hal_panic hal ''Error on writing Time on the RTC'' w1);
             ok2 = fst (hal_set_date hal \<lparr>WeekDay = 0, Month = rtc_month v, Date = rtc_day v,
               Year = ucast (rtc_year v - 2000)\<rparr> w2)
         in has_valid_time (fst (set_rtc_data hal v (fst s) (snd s))) \<longleftrightarrow> ok1 \<and> ok2))"
proof -
  have "rtc_inv (fst (fold (rtc_do hal) cs p))" if "rtc_inv (fst p)" for p
    using that
  proof (induction cs arbitrary: p)
    case (Cons c cs)
    then show ?case using Cons.IH [OF rtc_do_inv [OF Cons.prems]] by simp
  qed simp
  from this [of "(init_rtc, w)"] have i: "rtc_inv (fst s)" by (simp add: assms init_rtc_inv)
  moreover have "is_started (fst s) \<Longrightarrow> ensure_started hal (fst s) (snd s) = (True, fst s, snd s)"
    by (cases s) (simp add: ensure_started_def is_started_def)
  ultimately show ?thesis
    by (auto simp: rtc_inv_def has_valid_time_def is_started_def set_rtc_data_def Let_def split: prod.splits)
qed

text \<open>A clock whose writes work except that of the date the second time.\<close>

definition flaky_hal :: "nat rtc_hal" where
  "flaky_hal = \<lparr>hal_init = \<lambda>_ _ w. (True, w), hal_set_time = \<lambda>_ w. (True, w),
     hal_set_date = \<lambda>_ w. (w = 0, Suc w),
     hal_get_time = \<lambda>w. (\<lparr>Hours = 1, Minutes = 2, Seconds = 3, SubSeconds = 4, SecondFraction = 249\<rparr>, w),
     hal_get_date = \<lambda>w. (\<lparr>WeekDay = 1, Month = 1, Date = 1, Year = 23\<rparr>, w), hal_panic = \<lambda>_ w. w\<rparr>"

lemma rtc_valid_when_set_witness:
  "is_started (fst (fold (rtc_do flaky_hal) [Start] (init_rtc, 0)))
    \<and> \<not> has_valid_time (fst (set_rtc_data flaky_hal zero_rtc
         (fst (fold (rtc_do flaky_hal) [Start] (init_rtc, 0)))
         (snd (fold (rtc_do flaky_hal) [Start] (init_rtc, 0)))))"
proof -
  have s: "is_started (fst (fold (rtc_do flaky_hal) [Start] (init_rtc, 0)))"
    "snd (fold (rtc_do flaky_hal) [Start] (init_rtc, 0)) = 1"
    by (simp_all add: start_rtc_def flaky_hal_def init_rtc_def is_started_def)
  have "hal_set_date flaky_hal d 1 = (False, 2)" "hal_set_time flaky_hal t 1 = (True, 1)" for d t
    by (simp_all add: flaky_hal_def)
  then show ?thesis
    using rtc_valid_when_set [OF refl, of flaky_hal "[Start]" 0 zero_rtc] s by (simp add: Let_def)
qed

end
