(* ===== verification/Diagnostics.thy ===== *)
theory Diagnostics
  imports Protections Rtc
begin

unbundle bit_operations_syntax

text \<open>
  The diagnostics of \<open>HALAL/Services/Diagnostics\<close>: the records and how they are made
  (\<open>RecordFactory\<close>), their timestamps (\<open>DiagnosticTimestampProvider.cpp\<close>), and the hub
  (\<open>DiagnosticsHub.cpp\<close>), which keeps a history, queues what is to be delivered, and delivers it
  to the installed sinks.

  A C string is a \<open>string\<close> without its terminating zero; a null pointer is \<open>None\<close>. The sinks are
  values of a type \<open>'s\<close>; what publishing to one does, and what reading the clock does, are the
  operations of \<open>diag_ops\<close> on a world \<open>'w\<close>, which the hub is not part of: a sink that published to
  the hub again from its own \<open>publish\<close> is not modelled. \<open>op_eth\<close> tells whether the library is
  compiled with \<open>STLIB_ETH\<close>. The severities and priorities have a prefix where their names clash
  with those of the states of a rule.
\<close>

section \<open>Records\<close>

definition max_sinks :: nat where "max_sinks = 4"
definition history_capacity :: nat where "history_capacity = 16"
definition pending_capacity :: nat where "pending_capacity = 16"
definition origin_capacity :: nat where "origin_capacity = max_name_length"
definition runtime_message_capacity :: nat where "runtime_message_capacity = 160"
definition function_capacity :: nat where "function_capacity = 64"
definition file_capacity :: nat where "file_capacity = 96"
definition formatted_message_capacity :: nat where "formatted_message_capacity = 320"

datatype Severity = SEV_INFO | SEV_WARNING | SEV_FAULT

datatype DiagnosticPriority = PRIO_NORMAL | URGENT

datatype Category = RUNTIME_PANIC | RUNTIME_FAULT | RUNTIME_WARNING | RUNTIME_INFO | PROTECTION_EVENT

datatype RegistrationError = CAPACITY_EXCEEDED | STORAGE_TOO_SMALL

record Timestamp =
  has_rtc :: bool
  ts_counter :: u16
  ts_second :: u8
  ts_minute :: u8
  ts_hour :: u8
  ts_day :: u8
  ts_month :: u8
  ts_year :: u16
  uptime_us :: u64

definition zero_timestamp :: Timestamp where
  "zero_timestamp = \<lparr>has_rtc = False, ts_counter = 0, ts_second = 0, ts_minute = 0, ts_hour = 0,
     ts_day = 0, ts_month = 0, ts_year = 0, uptime_us = 0\<rparr>"

record RuntimeDiagnosticPayload =
  rt_line :: u32
  rt_truncated :: bool
  rt_message :: string
  rt_function_name :: string
  rt_file_name :: string

record ProtectionDiagnosticPayload =
  pd_rule_kind :: RuleKind
  pd_state :: RuleState
  pd_edge :: RuleEdge
  pd_sample_encoding :: SampleEncoding
  pd_observed_value :: sample
  pd_threshold_a :: sample
  pd_threshold_b :: sample
  pd_has_threshold_b :: bool
  pd_uses_warning_threshold :: bool
  pd_time_window_s :: flt
  pd_active_time_s :: flt

datatype DiagnosticPayload = RuntimePayload RuntimeDiagnosticPayload | ProtectionPayload ProtectionDiagnosticPayload

record DiagnosticRecord =
  priority :: DiagnosticPriority
  severity :: Severity
  category :: Category
  timestamp :: Timestamp
  origin :: string
  payload :: DiagnosticPayload

record RuntimeSourceMetadata =
  md_line :: int
  md_function_name :: "string option"
  md_file_name :: "string option"

section \<open>Strings\<close>

fun strnlen :: "string \<Rightarrow> nat \<Rightarrow> nat" where
  "strnlen s 0 = 0"
| "strnlen [] (Suc n) = 0"
| "strnlen (c # s) (Suc n) = Suc (strnlen s n)"

definition bounded_strnlen :: "string option \<Rightarrow> nat \<Rightarrow> nat" where
  "bounded_strnlen src n = (case src of None \<Rightarrow> 0 | Some s \<Rightarrow> strnlen s n)"

text \<open>The result is the string in the destination of \<open>capacity\<close> bytes, and the flag.\<close>

definition copy_c_string :: "nat \<Rightarrow> string option \<Rightarrow> bool \<Rightarrow> string \<times> bool" where
  "copy_c_string capacity src truncated =
     (if capacity = 0 then ([], True)
      else case src of
        None \<Rightarrow> ([], truncated)
      | Some s \<Rightarrow> let n = bounded_strnlen src (capacity - 1) in (take n s, truncated \<or> n < length s))"

section \<open>Timestamps\<close>

text \<open>\<open>rtc_on\<close> and \<open>tim_on\<close> tell whether the real-time clock and the timers are compiled in.\<close>

definition capture :: "bool \<Rightarrow> bool \<Rightarrow> 'w rtc_hal \<Rightarrow> ('w \<Rightarrow> u64 \<times> 'w) \<Rightarrow> rtc \<times> 'w \<Rightarrow> Timestamp \<times> rtc \<times> 'w" where
  "capture rtc_on tim_on hal clock rw =
     (let (r, w) = rw
      in if rtc_on \<and> is_started r \<and> has_valid_time r
         then let (r, w) = update_rtc_data hal r w; t = global_RTC r
              in (zero_timestamp\<lparr>has_rtc := True, ts_counter := rtc_counter t, ts_second := rtc_second t,
                    ts_minute := rtc_minute t, ts_hour := rtc_hour t, ts_day := rtc_day t,
                    ts_month := rtc_month t, ts_year := rtc_year t\<rparr>, r, w)
         else if tim_on then let (t, w) = clock w in (zero_timestamp\<lparr>uptime_us := t\<rparr>, r, w)
         else (zero_timestamp, r, w))"

section \<open>Making records\<close>

definition source_line :: "int \<Rightarrow> u32" where
  "source_line n = word_of_int (if n < 0 then 0 else n)"

definition runtime_record :: "Severity \<Rightarrow> Category \<Rightarrow> string \<Rightarrow> ('w \<Rightarrow> Timestamp \<times> 'w) \<Rightarrow> string option
    \<Rightarrow> bool \<Rightarrow> RuntimeSourceMetadata \<Rightarrow> DiagnosticPriority \<Rightarrow> 'w \<Rightarrow> DiagnosticRecord \<times> 'w" where
  "runtime_record sev cat orig time message truncated md prio w =
     (let (t, w) = time w;
          (msg, shortened) = copy_c_string (runtime_message_capacity + 1) message truncated
      in (\<lparr>priority = prio, severity = sev, category = cat, timestamp = t,
           origin = fst (copy_c_string (origin_capacity + 1) (Some orig) False),
           payload = RuntimePayload \<lparr>rt_line = source_line (md_line md), rt_truncated = shortened, rt_message = msg,
             rt_function_name = fst (copy_c_string (function_capacity + 1) (md_function_name md) False),
             rt_file_name = fst (copy_c_string (file_capacity + 1) (md_file_name md) False)\<rparr>\<rparr>, w))"

definition record_runtime_fault :: "('w \<Rightarrow> Timestamp \<times> 'w) \<Rightarrow> string option \<Rightarrow> bool \<Rightarrow> RuntimeSourceMetadata
    \<Rightarrow> DiagnosticPriority \<Rightarrow> 'w \<Rightarrow> DiagnosticRecord \<times> 'w" where
  "record_runtime_fault = runtime_record SEV_FAULT RUNTIME_FAULT ''runtime_fault''"

definition record_runtime_panic :: "('w \<Rightarrow> Timestamp \<times> 'w) \<Rightarrow> string option \<Rightarrow> bool \<Rightarrow> RuntimeSourceMetadata
    \<Rightarrow> DiagnosticPriority \<Rightarrow> 'w \<Rightarrow> DiagnosticRecord \<times> 'w" where
  "record_runtime_panic = runtime_record SEV_FAULT RUNTIME_PANIC ''runtime_panic''"

definition record_runtime_warning :: "('w \<Rightarrow> Timestamp \<times> 'w) \<Rightarrow> string option \<Rightarrow> bool \<Rightarrow> RuntimeSourceMetadata
    \<Rightarrow> DiagnosticPriority \<Rightarrow> 'w \<Rightarrow> DiagnosticRecord \<times> 'w" where
  "record_runtime_warning = runtime_record SEV_WARNING RUNTIME_WARNING ''runtime_warning''"

definition record_runtime_info :: "('w \<Rightarrow> Timestamp \<times> 'w) \<Rightarrow> string option \<Rightarrow> bool \<Rightarrow> RuntimeSourceMetadata
    \<Rightarrow> DiagnosticPriority \<Rightarrow> 'w \<Rightarrow> DiagnosticRecord \<times> 'w" where
  "record_runtime_info = runtime_record SEV_INFO RUNTIME_INFO ''runtime_info''"

definition record_protection_event :: "('w \<Rightarrow> Timestamp \<times> 'w) \<Rightarrow> string option \<Rightarrow> RuleState \<Rightarrow> RuleEdge
    \<Rightarrow> RuleSnapshot \<Rightarrow> DiagnosticPriority \<Rightarrow> 'w \<Rightarrow> DiagnosticRecord \<times> 'w" where
  "record_protection_event time name st edge snap prio w =
     (let sev = (case st of FAULT \<Rightarrow> SEV_FAULT | WARNING \<Rightarrow> SEV_WARNING | NORMAL \<Rightarrow> SEV_INFO);
          (t, w) = time w
      in (\<lparr>priority = prio, severity = sev, category = PROTECTION_EVENT, timestamp = t,
           origin = fst (copy_c_string (origin_capacity + 1) name False),
           payload = ProtectionPayload \<lparr>pd_rule_kind = rs_kind snap, pd_state = st, pd_edge = edge,
             pd_sample_encoding = sample_encoding snap, pd_observed_value = observed_value snap,
             pd_threshold_a = threshold_a snap, pd_threshold_b = threshold_b snap,
             pd_has_threshold_b = has_threshold_b snap,
             pd_uses_warning_threshold = uses_warning_threshold snap,
             pd_time_window_s = time_window_s snap, pd_active_time_s = active_time_s snap\<rparr>\<rparr>, w))"

section \<open>The hub\<close>

record 's hub =
  sinks :: "'s list"
  history :: "DiagnosticRecord list"
  history_count :: nat
  history_next_index :: nat
  pending :: "(DiagnosticRecord \<times> u8) list"
  last_urgent_flush_us :: u64
  last_normal_flush_us :: u64

definition zero_record :: DiagnosticRecord where
  "zero_record = \<lparr>priority = PRIO_NORMAL, severity = SEV_INFO, category = RUNTIME_INFO,
     timestamp = zero_timestamp, origin = [],
     payload = RuntimePayload \<lparr>rt_line = 0, rt_truncated = False, rt_message = [], rt_function_name = [],
       rt_file_name = []\<rparr>\<rparr>"

definition init_hub :: "'s hub" where
  "init_hub = \<lparr>sinks = [], history = replicate history_capacity zero_record, history_count = 0,
     history_next_index = 0, pending = [], last_urgent_flush_us = 0, last_normal_flush_us = 0\<rparr>"

record ('s, 'w) diag_ops =
  op_eth :: bool
  op_time :: "'w \<Rightarrow> Timestamp \<times> 'w"
  op_clock :: "'w \<Rightarrow> u64 \<times> 'w"
  op_sink :: "'s \<Rightarrow> DiagnosticRecord \<Rightarrow> 'w \<Rightarrow> bool \<times> 'w"

definition push_history :: "DiagnosticRecord \<Rightarrow> 's hub \<Rightarrow> 's hub" where
  "push_history r h =
     (let h = h\<lparr>history := (history h)[history_next_index h := r]\<rparr>;
          h = h\<lparr>history_next_index := (history_next_index h + 1) mod history_capacity\<rparr>
      in if history_count h < history_capacity then h\<lparr>history_count := history_count h + 1\<rparr> else h)"

definition remove_pending :: "nat \<Rightarrow> (DiagnosticRecord \<times> u8) list \<Rightarrow> (DiagnosticRecord \<times> u8) list" where
  "remove_pending i ps = (if i \<ge> length ps then ps else take i ps @ drop (i + 1) ps)"

text \<open>The search returns the number of pending records where there is no normal one.\<close>

fun find_oldest_normal_pending :: "(DiagnosticRecord \<times> u8) list \<Rightarrow> nat" where
  "find_oldest_normal_pending [] = 0"
| "find_oldest_normal_pending ((r, m) # ps) =
     (if priority r = PRIO_NORMAL then 0 else Suc (find_oldest_normal_pending ps))"

definition push_pending :: "DiagnosticRecord \<Rightarrow> (DiagnosticRecord \<times> u8) list \<Rightarrow> (DiagnosticRecord \<times> u8) list" where
  "push_pending r ps =
     (let ps = (if length ps = pending_capacity
                then if priority r = URGENT
                     then let i = find_oldest_normal_pending ps
                          in remove_pending (if i = length ps then 0 else i) ps
                     else remove_pending 0 ps
                else ps)
      in ps @ [(r, 0)])"

definition replay_history_to_pending :: "'s hub \<Rightarrow> 's hub" where
  "replay_history_to_pending h =
     (if length (sinks h) = 0 \<or> history_count h = 0 \<or> length (pending h) \<noteq> 0 then h
      else let oldest = (if history_count h = history_capacity then history_next_index h else 0)
           in h\<lparr>pending := fold (\<lambda>i. push_pending (history h ! ((oldest + i) mod history_capacity)))
                           [0..<history_count h] (pending h)\<rparr>)"

text \<open>\<open>fits\<close> is the check of the sink's size and alignment at compile time.\<close>

definition emplace_sink :: "bool \<Rightarrow> 's \<Rightarrow> 's hub \<Rightarrow> RegistrationError option \<times> 's hub" where
  "emplace_sink fits s h =
     (let had_no_sinks = (length (sinks h) = 0)
      in if length (sinks h) \<ge> max_sinks then (Some CAPACITY_EXCEEDED, h)
         else if \<not> fits then (Some STORAGE_TOO_SMALL, h)
         else let h = h\<lparr>sinks := sinks h @ [s]\<rparr>
              in (None, if had_no_sinks then replay_history_to_pending h else h))"

definition publish :: "DiagnosticRecord \<Rightarrow> 's hub \<Rightarrow> 's hub" where
  "publish r h =
     (let h = push_history r h
      in if length (sinks h) = 0 then h else h\<lparr>pending := push_pending r (pending h)\<rparr>)"

definition publish_runtime_fault :: "('s, 'w) diag_ops \<Rightarrow> string option \<Rightarrow> bool \<Rightarrow> int \<Rightarrow> string option
    \<Rightarrow> string option \<Rightarrow> 's hub \<times> 'w \<Rightarrow> 's hub \<times> 'w" where
  "publish_runtime_fault ops msg shortened line func file hw =
     (let (r, w) = record_runtime_fault (op_time ops) msg shortened \<lparr>md_line = line, md_function_name = func, md_file_name = file\<rparr>
                     PRIO_NORMAL (snd hw) in (publish r (fst hw), w))"

definition publish_runtime_panic :: "('s, 'w) diag_ops \<Rightarrow> string option \<Rightarrow> bool \<Rightarrow> int \<Rightarrow> string option
    \<Rightarrow> string option \<Rightarrow> 's hub \<times> 'w \<Rightarrow> 's hub \<times> 'w" where
  "publish_runtime_panic ops msg shortened line func file hw =
     (let (r, w) = record_runtime_panic (op_time ops) msg shortened \<lparr>md_line = line, md_function_name = func, md_file_name = file\<rparr>
                     PRIO_NORMAL (snd hw) in (publish r (fst hw), w))"

definition publish_runtime_warning :: "('s, 'w) diag_ops \<Rightarrow> string option \<Rightarrow> bool \<Rightarrow> int \<Rightarrow> string option
    \<Rightarrow> string option \<Rightarrow> 's hub \<times> 'w \<Rightarrow> 's hub \<times> 'w" where
  "publish_runtime_warning ops msg shortened line func file hw =
     (let (r, w) = record_runtime_warning (op_time ops) msg shortened \<lparr>md_line = line, md_function_name = func, md_file_name = file\<rparr>
                     PRIO_NORMAL (snd hw) in (publish r (fst hw), w))"

definition publish_runtime_info :: "('s, 'w) diag_ops \<Rightarrow> string option \<Rightarrow> bool \<Rightarrow> int \<Rightarrow> string option
    \<Rightarrow> string option \<Rightarrow> 's hub \<times> 'w \<Rightarrow> 's hub \<times> 'w" where
  "publish_runtime_info ops msg shortened line func file hw =
     (let (r, w) = record_runtime_info (op_time ops) msg shortened \<lparr>md_line = line, md_function_name = func, md_file_name = file\<rparr>
                     PRIO_NORMAL (snd hw) in (publish r (fst hw), w))"

definition publish_protection_event :: "('s, 'w) diag_ops \<Rightarrow> string option \<Rightarrow> RuleState \<Rightarrow> RuleEdge
    \<Rightarrow> RuleSnapshot \<Rightarrow> 's hub \<times> 'w \<Rightarrow> 's hub \<times> 'w" where
  "publish_protection_event ops name st edge snap hw =
     (let (r, w) = record_protection_event (op_time ops) name st edge snap PRIO_NORMAL (snd hw)
      in (publish r (fst hw), w))"

subsection \<open>Delivery\<close>

text \<open>The loop over the sinks, from sink \<open>i\<close> on, for one record: the mask of the sinks that have it,
  the time of the last flush, and the world.\<close>

fun deliver :: "('s, 'w) diag_ops \<Rightarrow> u64 \<Rightarrow> DiagnosticRecord \<Rightarrow> nat \<Rightarrow> 's list \<Rightarrow> u8 \<Rightarrow> u64 \<Rightarrow> 'w \<Rightarrow> u8 \<times> u64 \<times> 'w" where
  "deliver ops now r i [] got lst w = (got, lst, w)"
| "deliver ops now r i (s # ss) got lst w =
     (let sink_mask = push_bit i 1
      in if (got AND sink_mask) \<noteq> 0 then deliver ops now r (Suc i) ss got lst w
         else let (ok, w) = op_sink ops s r w
              in if ok then deliver ops now r (Suc i) ss (got OR sink_mask) (if op_eth ops then now else lst) w
                 else deliver ops now r (Suc i) ss got lst w)"

text \<open>The loop over the pending records; those that stay are the result.\<close>

fun flush_records :: "('s, 'w) diag_ops \<Rightarrow> bool \<Rightarrow> u64 \<Rightarrow> 's list \<Rightarrow> (DiagnosticRecord \<times> u8) list \<Rightarrow> u64 \<Rightarrow> 'w
    \<Rightarrow> (DiagnosticRecord \<times> u8) list \<times> u64 \<times> 'w" where
  "flush_records ops urgent_only now ss [] lst w = ([], lst, w)"
| "flush_records ops urgent_only now ss ((r, got) # ps) lst w =
     (if urgent_only \<and> priority r \<noteq> URGENT
         \<or> op_eth ops \<and> lst \<noteq> 0 \<and> now - lst < 100000
      then let (ps, lst, w) = flush_records ops urgent_only now ss ps lst w in ((r, got) # ps, lst, w)
      else let (got, lst, w) = deliver ops now r 0 ss got lst w;
               target_mask = (if length ss = 0 then 0 else push_bit (length ss) 1 - 1);
               (ps, lst, w) = flush_records ops urgent_only now ss ps lst w
           in (if got = target_mask then ps else (r, got) # ps, lst, w))"

definition flush_pending :: "('s, 'w) diag_ops \<Rightarrow> bool \<Rightarrow> 's hub \<times> 'w \<Rightarrow> 's hub \<times> 'w" where
  "flush_pending ops urgent_only hw =
     (let (h, w) = hw;
          (now, w) = (if op_eth ops then op_clock ops w else (0, w));
          lst = (if urgent_only then last_urgent_flush_us h else last_normal_flush_us h);
          (ps, lst, w) = flush_records ops urgent_only now (sinks h) (pending h) lst w;
          h = h\<lparr>pending := ps\<rparr>
      in (if \<not> op_eth ops then h
          else if urgent_only then h\<lparr>last_urgent_flush_us := lst\<rparr> else h\<lparr>last_normal_flush_us := lst\<rparr>, w))"

definition flush_urgent :: "('s, 'w) diag_ops \<Rightarrow> 's hub \<times> 'w \<Rightarrow> 's hub \<times> 'w" where
  "flush_urgent ops hw = flush_pending ops True hw"

definition flush :: "('s, 'w) diag_ops \<Rightarrow> 's hub \<times> 'w \<Rightarrow> 's hub \<times> 'w" where
  "flush ops hw = flush_pending ops False (flush_urgent ops hw)"


section \<open>History\<close>

text \<open>The history in the order of publication, oldest first.\<close>

definition history_list :: "'s hub \<Rightarrow> DiagnosticRecord list" where
  "history_list h =
     (let oldest = (if history_count h = history_capacity then history_next_index h else 0)
      in map (\<lambda>i. history h ! ((oldest + i) mod history_capacity)) [0..<history_count h])"

definition history_inv :: "'s hub \<Rightarrow> bool" where
  "history_inv h \<longleftrightarrow> length (history h) = history_capacity \<and> history_count h \<le> history_capacity
     \<and> history_next_index h < history_capacity
     \<and> (history_count h < history_capacity \<longrightarrow> history_next_index h = history_count h)"

definition last_of :: "nat \<Rightarrow> 'a list \<Rightarrow> 'a list" where
  "last_of n xs = drop (length xs - n) xs"

lemma last_of_snoc: "last_of n (xs @ [x]) = (if length xs < n then xs @ [x] else drop (Suc (length xs) - n) xs @ [x])" if "0 < n"
  using that by (auto simp: last_of_def)

lemma push_history_fields [simp]:
  "sinks (push_history r h) = sinks h" "pending (push_history r h) = pending h"
  "last_urgent_flush_us (push_history r h) = last_urgent_flush_us h"
  "last_normal_flush_us (push_history r h) = last_normal_flush_us h"
  by (simp_all add: push_history_def Let_def)

lemma push_history_inv:
  assumes "history_inv h"
  shows "history_inv (push_history r h)"
  using assms by (auto simp: history_inv_def push_history_def Let_def history_capacity_def mod_Suc)

lemma push_history_list:
  assumes "history_inv h"
  shows "history_list (push_history r h) = last_of history_capacity (history_list h @ [r])"
proof (cases "history_count h < history_capacity")
  case True
  have n: "history_next_index h = history_count h" "length (history h) = history_capacity"
    using assms True by (auto simp: history_inv_def)
  have len: "length (history_list h) = history_count h" by (simp add: history_list_def Let_def)
  have pr: "history_list (push_history r h) = history_list h @ [r]"
  proof (rule nth_equalityI)
    show "length (history_list (push_history r h)) = length (history_list h @ [r])"
      using True by (simp add: history_list_def push_history_def Let_def)
    fix i assume "i < length (history_list (push_history r h))"
    then have i: "i < Suc (history_count h)" using True by (simp add: history_list_def push_history_def Let_def)
    have m: "i mod history_capacity = i" using i True by simp
    have old: "(if Suc (history_count h) = history_capacity then Suc (history_count h) mod history_capacity else 0) = 0"
      by simp
    show "history_list (push_history r h) ! i = (history_list h @ [r]) ! i"
      using i True n m old
      by (auto simp: history_list_def push_history_def Let_def nth_append nth_list_update less_Suc_eq)
  qed
  show ?thesis unfolding pr using True len
    by (simp add: last_of_def)
next
  case False
  then have c: "history_count h = history_capacity" "length (history h) = history_capacity"
      "history_next_index h < history_capacity"
    using assms by (auto simp: history_inv_def)
  let ?n = history_capacity and ?k = "history_next_index h"
  have pos: "0 < ?n" by (simp add: history_capacity_def)
  have len: "length (history_list h) = ?n" by (simp add: history_list_def Let_def c)
  have "history_list (push_history r h) = drop 1 (history_list h) @ [r]"
  proof (rule nth_equalityI)
    show "length (history_list (push_history r h)) = length (drop 1 (history_list h) @ [r])"
      using pos by (simp add: history_list_def push_history_def Let_def c)
    fix i assume "i < length (history_list (push_history r h))"
    then have i: "i < ?n" by (simp add: history_list_def push_history_def Let_def c)
    have shift: "((?k + 1) mod ?n + i) mod ?n = (?k + Suc i) mod ?n" by (rule mod_add_Suc_shift)
    have lst: "Suc i = ?n \<Longrightarrow> (?k + Suc i) mod ?n = ?k" using c(3) by simp
    have other: "Suc i < ?n \<Longrightarrow> (?k + Suc i) mod ?n \<noteq> ?k"
      using mod_inj_window [of "Suc i" ?n 0 ?k] c(3) pos by auto
    have l: "history_list (push_history r h) ! i = (history h)[?k := r] ! ((?k + Suc i) mod ?n)"
      using i shift by (simp add: history_list_def push_history_def Let_def c)
    show "history_list (push_history r h) ! i = (drop 1 (history_list h) @ [r]) ! i"
    proof (cases "Suc i = ?n")
      case True
      then show ?thesis using l lst c by (simp add: nth_append len)
    next
      case False
      then have "Suc i < ?n" using i by simp
      then show ?thesis using l other
        by (simp add: nth_append len nth_list_update) (simp add: history_list_def Let_def c)
    qed
  qed
  then show ?thesis using pos by (simp add: last_of_def len)
qed

lemma init_hub_history [simp]: "history_inv init_hub" "history_list init_hub = []"
  by (simp_all add: history_inv_def init_hub_def history_capacity_def history_list_def)

lemma last_of_absorb: "last_of n (last_of n xs @ ys) = last_of n (xs @ ys)"
  by (cases "length xs \<le> n") (simp_all add: last_of_def add.commute)

lemma publish_history:
  "history_inv h \<Longrightarrow> history_inv (publish r h)"
  "history_inv h \<Longrightarrow> history_list (publish r h) = last_of history_capacity (history_list h @ [r])"
proof -
  have c: "history_list (h\<lparr>pending := ps\<rparr>) = history_list h" "history_inv (h\<lparr>pending := ps\<rparr>) = history_inv h"
    for h :: "'a hub" and ps by (simp_all add: history_list_def history_inv_def)
  show "history_inv h \<Longrightarrow> history_inv (publish r h)"
    using push_history_inv by (simp add: publish_def Let_def c)
  show "history_inv h \<Longrightarrow> history_list (publish r h) = last_of history_capacity (history_list h @ [r])"
    using push_history_list by (simp add: publish_def Let_def c)
qed

lemma fold_publish_history:
  assumes "history_inv h"
  shows "history_inv (fold publish rs h) \<and>
    history_list (fold publish rs h) = last_of history_capacity (last_of history_capacity (history_list h) @ rs)"
  using assms
proof (induction rs arbitrary: h)
  case Nil
  then show ?case by (simp add: last_of_absorb last_of_def history_inv_def) (simp add: history_list_def Let_def)
next
  case (Cons r rs)
  show ?case
    using Cons.IH [OF publish_history(1) [OF Cons.prems]] publish_history(2) [OF Cons.prems]
    by (simp add: last_of_absorb)
qed

lemma fold_publish_no_sink:
  "sinks h = [] \<Longrightarrow> sinks (fold publish rs h) = [] \<and> pending (fold publish rs h) = pending h"
  by (induction rs arbitrary: h) (simp_all add: publish_def Let_def)

lemma fold_push_pending:
  "length ps + length rs \<le> pending_capacity \<Longrightarrow> fold push_pending rs ps = ps @ map (\<lambda>r. (r, 0)) rs"
proof (induction rs arbitrary: ps)
  case (Cons r rs)
  have "push_pending r ps = ps @ [(r, 0)]" using Cons.prems by (simp add: push_pending_def)
  then show ?case using Cons.IH [of "ps @ [(r, 0)]"] Cons.prems by simp
qed simp

lemma replay_history:
  assumes "history_inv h" "pending h = []" "sinks h \<noteq> []"
  shows "pending (replay_history_to_pending h) = map (\<lambda>r. (r, 0)) (history_list h)"
proof (cases "history_count h = 0")
  case True
  then show ?thesis using assms by (simp add: replay_history_to_pending_def history_list_def)
next
  case False
  let ?o = "if history_count h = history_capacity then history_next_index h else 0"
  have f: "fold (\<lambda>i. push_pending (history h ! ((?o + i) mod history_capacity))) is ps
      = fold push_pending (map (\<lambda>i. history h ! ((?o + i) mod history_capacity)) is) ps" for "is" ps
    by (simp add: fold_map comp_def)
  have "length (history_list h) \<le> pending_capacity"
    using assms(1) by (simp add: history_list_def Let_def history_inv_def history_capacity_def pending_capacity_def)
  then have "fold push_pending (history_list h) [] = map (\<lambda>r. (r, 0)) (history_list h)"
    by (simp add: fold_push_pending)
  then show ?thesis
    using False assms(2,3) f by (simp add: replay_history_to_pending_def Let_def history_list_def)
qed

text \<open>Nothing published before there is a sink is lost up to the capacity of the history: when
  the first sink is installed, the last sixteen records published (all of them, if there were fewer)
  are queued for it, oldest first, and undelivered; and the history is exactly these records,
  whatever was published before.\<close>

theorem first_sink_gets_history:
  "case emplace_sink True (s :: 'a) (fold publish rs init_hub) of (e, h) \<Rightarrow>
     e = None \<and> sinks h = [s] \<and> pending h = map (\<lambda>r. (r, 0)) (last_of 16 rs)
     \<and> history_list (fold publish rs (init_hub :: 'a hub)) = last_of 16 rs"
proof -
  let ?h = "fold publish rs (init_hub :: 'a hub)"
  have n: "sinks ?h = []" "pending ?h = []"
    using fold_publish_no_sink [of "init_hub :: 'a hub" rs] by (simp_all add: init_hub_def)
  have h: "history_inv ?h" "history_list ?h = last_of 16 rs"
    using fold_publish_history [of "init_hub :: 'a hub" rs]
    by (simp_all add: history_capacity_def last_of_def)
  have c: "history_list (h\<lparr>sinks := ss\<rparr>) = history_list h" "history_inv (h\<lparr>sinks := ss\<rparr>) = history_inv h"
    for h :: "'a hub" and ss by (simp_all add: history_list_def history_inv_def)
  have "pending (replay_history_to_pending (?h\<lparr>sinks := [s]\<rparr>)) = map (\<lambda>r. (r, 0)) (last_of 16 rs)"
    using replay_history [of "?h\<lparr>sinks := [s]\<rparr>"] h n by (simp add: c)
  moreover have "sinks (replay_history_to_pending (?h\<lparr>sinks := [s]\<rparr>)) = [s]"
    by (simp add: replay_history_to_pending_def Let_def)
  ultimately show ?thesis
    using n h by (simp add: emplace_sink_def max_sinks_def)
qed

section \<open>The queue\<close>

lemma find_oldest_spec:
  "find_oldest_normal_pending ps \<le> length ps
   \<and> list_all (\<lambda>(r, m). priority r = URGENT) (take (find_oldest_normal_pending ps) ps)
   \<and> (find_oldest_normal_pending ps < length ps
        \<longrightarrow> priority (fst (ps ! find_oldest_normal_pending ps)) = PRIO_NORMAL)"
proof (induction ps rule: find_oldest_normal_pending.induct)
  case (2 r m ps)
  then show ?case by (cases "priority r") auto
qed simp

text \<open>Queueing a record takes the last place. On a full queue an urgent record displaces the
  oldest normal one, and an urgent one, the oldest, only where all are urgent; a normal record
  displaces the oldest of all, urgent or not. The queue never exceeds its capacity.\<close>

theorem push_pending_spec:
  assumes "length ps \<le> 16"
  shows "length (push_pending r ps) \<le> 16
    \<and> (length ps < 16 \<longrightarrow> push_pending r ps = ps @ [(r, 0)])
    \<and> (length ps = 16 \<and> priority r = PRIO_NORMAL \<longrightarrow> push_pending r ps = tl ps @ [(r, 0)])
    \<and> (length ps = 16 \<and> priority r = URGENT \<longrightarrow>
        (if list_all (\<lambda>(q, m). priority q = URGENT) ps then push_pending r ps = tl ps @ [(r, 0)]
         else \<exists>a q m b. ps = a @ (q, m) # b \<and> priority q = PRIO_NORMAL
           \<and> list_all (\<lambda>(q, m). priority q = URGENT) a \<and> push_pending r ps = a @ b @ [(r, 0)]))"
proof -
  let ?i = "find_oldest_normal_pending ps"
  note f = find_oldest_spec [of ps]
  have tl: "remove_pending 0 ps = tl ps" if "length ps = 16"
    using that by (cases ps) (auto simp: remove_pending_def)
  have all: "list_all (\<lambda>(q, m). priority q = URGENT) ps \<longleftrightarrow> ?i = length ps"
  proof
    assume a: "list_all (\<lambda>(q, m). priority q = URGENT) ps"
    have "\<not> ?i < length ps"
    proof
      assume "?i < length ps"
      then show False using f a by (force simp: list_all_length split_def)
    qed
    then show "?i = length ps" using f by simp
  next
    assume "?i = length ps"
    then show "list_all (\<lambda>(q, m). priority q = URGENT) ps" using f by simp
  qed
  have cut: "\<exists>a q m b. ps = a @ (q, m) # b \<and> priority q = PRIO_NORMAL
      \<and> list_all (\<lambda>(q, m). priority q = URGENT) a \<and> remove_pending ?i ps = a @ b" if "?i < length ps"
    using that f id_take_nth_drop [OF that]
    by (intro exI [of _ "take ?i ps"] exI [of _ "fst (ps ! ?i)"] exI [of _ "snd (ps ! ?i)"]
        exI [of _ "drop (Suc ?i) ps"]) (simp add: remove_pending_def)
  have len: "length (remove_pending i ps) = 15" if "length ps = 16" "i < 16" for i
    using that by (simp add: remove_pending_def)
  show ?thesis
  proof (cases "length ps = 16")
    case True
    show ?thesis
    proof (cases "priority r")
      case PRIO_NORMAL
      then show ?thesis using True tl len [of 0] by (simp add: push_pending_def pending_capacity_def)
    next
      case URGENT
      show ?thesis
      proof (cases "?i = length ps")
        case True
        then show ?thesis
          using URGENT all tl len [of 0] \<open>length ps = 16\<close> by (simp add: push_pending_def pending_capacity_def)
      next
        case False
        then have "?i < 16" using f \<open>length ps = 16\<close> by simp
        moreover have "push_pending r ps = remove_pending ?i ps @ [(r, 0)]"
          using URGENT False \<open>length ps = 16\<close> by (simp add: push_pending_def pending_capacity_def)
        ultimately show ?thesis
          using URGENT False all cut len [of ?i] \<open>length ps = 16\<close> by auto
      qed
    qed
  next
    case False
    then show ?thesis using assms by (simp add: push_pending_def pending_capacity_def)
  qed
qed

lemma push_pending_spec_witness:
  "push_pending zero_record (replicate 16 (zero_record\<lparr>priority := URGENT\<rparr>, 0))
     = replicate 15 (zero_record\<lparr>priority := URGENT\<rparr>, 0) @ [(zero_record, 0)]"
proof -
  have "tl (replicate 16 x) = replicate 15 x" for x :: "DiagnosticRecord \<times> u8"
    by (simp add: eval_nat_numeral)
  then show ?thesis
    using push_pending_spec [of "replicate 16 (zero_record\<lparr>priority := URGENT\<rparr>, 0)" zero_record]
    by (simp add: zero_record_def)
qed


section \<open>Delivery\<close>

text \<open>The operations with a log of the deliveries the sinks accepted, beside the world.\<close>

definition logging :: "('s, 'x) diag_ops \<Rightarrow> ('s, ('s \<times> DiagnosticRecord) list \<times> 'x) diag_ops" where
  "logging ops = \<lparr>op_eth = op_eth ops,
     op_time = \<lambda>(dlog, x). let (t, x) = op_time ops x in (t, dlog, x),
     op_clock = \<lambda>(dlog, x). let (t, x) = op_clock ops x in (t, dlog, x),
     op_sink = \<lambda>s r (dlog, x). let (ok, x) = op_sink ops s r x in (ok, if ok then dlog @ [(s, r)] else dlog, x)\<rparr>"

definition accepted :: "'s \<Rightarrow> ('s \<times> DiagnosticRecord) list \<Rightarrow> DiagnosticRecord multiset" where
  "accepted s dlog = mset (map snd (filter (\<lambda>(t, r). t = s) dlog))"

text \<open>The records that sink number \<open>i\<close> has still to get.\<close>

definition owed :: "nat \<Rightarrow> (DiagnosticRecord \<times> u8) list \<Rightarrow> DiagnosticRecord multiset" where
  "owed i ps = mset (map fst (filter (\<lambda>(r, m). \<not> bit m i) ps))"

definition owed_one :: "nat \<Rightarrow> DiagnosticRecord \<Rightarrow> u8 \<Rightarrow> DiagnosticRecord multiset" where
  "owed_one i r m = (if bit m i then {#} else {#r#})"

lemma owed_simps [simp]: "owed i [] = {#}" "owed i ((r, m) # ps) = owed_one i r m + owed i ps"
  "owed i (ps @ qs) = owed i ps + owed i qs"
  by (simp_all add: owed_def owed_one_def)

lemma accepted_simps [simp]: "accepted s [] = {#}"
  "accepted s (dlog @ [(t, r)]) = accepted s dlog + (if t = s then {#r#} else {#})"
  by (simp_all add: accepted_def)

lemma logging_simps [simp]:
  "op_eth (logging ops) = op_eth ops"
  "op_sink (logging ops) s r (dlog, x) =
     (let (ok, x) = op_sink ops s r x in (ok, if ok then dlog @ [(s, r)] else dlog, x))"
  "op_clock (logging ops) (dlog, x) = (let (t, x) = op_clock ops x in (t, dlog, x))"
  by (simp_all add: logging_def)

lemma mask_bit_test: "(m AND push_bit i (1 :: u8)) = 0 \<longleftrightarrow> \<not> bit m i"
  by (simp add: push_bit_of_1 and_exp_eq_0_iff_not_bit)

lemmas mask_bit_tests = mask_bit_test mask_bit_test [unfolded push_bit_of_1]

lemma bit_or_slot: "i < 8 \<Longrightarrow> bit (m OR push_bit i (1 :: u8)) j \<longleftrightarrow> bit m j \<or> j = i"
  by (auto simp: bit_or_iff push_bit_of_1 bit_exp_iff)

lemma deliver_log:
  assumes "deliver (logging ops) now r i ss m lst (dlog, x) = (m', lst', (dlog', x'))"
    and "distinct ss" and "i + length ss \<le> 8"
  shows "(\<forall>j < length ss. accepted (ss ! j) dlog' + owed_one (i + j) r m' = accepted (ss ! j) dlog + owed_one (i + j) r m)
    \<and> (\<forall>s. s \<notin> set ss \<longrightarrow> accepted s dlog' = accepted s dlog) \<and> (\<forall>k < i. bit m' k = bit m k)"
  using assms
proof (induction ss arbitrary: i m lst dlog x)
  case (Cons s ss)
  have bnd: "Suc i + length ss \<le> 8" "distinct ss" "s \<notin> set ss" using Cons.prems by auto
  obtain ok lst1 x1 where ok: "ok \<longrightarrow> \<not> bit m i"
    and d: "deliver (logging ops) now r (Suc i) ss (if ok then m OR push_bit i 1 else m) lst1
      (if ok then dlog @ [(s, r)] else dlog, x1) = (m', lst', (dlog', x'))"
  proof (cases "bit m i")
    case True
    then show ?thesis using Cons.prems(1) that [of False lst x] by (simp add: mask_bit_tests Let_def)
  next
    case False
    obtain ok x1 where o: "op_sink ops s r x = (ok, x1)" by (cases "op_sink ops s r x")
    show ?thesis
      using Cons.prems(1) False o that [of ok "if ok \<and> op_eth ops then now else lst" x1]
      by (simp add: mask_bit_tests Let_def split: if_splits)
  qed
  define m1 where "m1 = (if ok then m OR push_bit i 1 else m)"
  define dlog1 where "dlog1 = (if ok then dlog @ [(s, r)] else dlog)"
  have b1: "bit m1 j \<longleftrightarrow> bit m j \<or> (ok \<and> j = i)" for j
    using bit_or_slot [of i m j] bnd(1) by (simp add: m1_def)
  have IH: "\<forall>j < length ss. accepted (ss ! j) dlog' + owed_one (Suc i + j) r m' = accepted (ss ! j) dlog1 + owed_one (Suc i + j) r m1"
    "\<forall>s. s \<notin> set ss \<longrightarrow> accepted s dlog' = accepted s dlog1" "\<forall>k < Suc i. bit m' k = bit m1 k"
    using Cons.IH [OF d bnd(2,1)] unfolding m1_def dlog1_def by blast+
  have a1: "accepted t dlog1 = accepted t dlog + (if ok \<and> t = s then {#r#} else {#})" for t
    by (auto simp: dlog1_def)
  have main: "accepted ((s # ss) ! j) dlog' + owed_one (i + j) r m' = accepted ((s # ss) ! j) dlog + owed_one (i + j) r m"
    if "j < length (s # ss)" for j
  proof (cases j)
    case 0
    have "accepted s dlog' = accepted s dlog1" "bit m' i = bit m1 i" using IH(2,3) bnd(3) by auto
    then show ?thesis using 0 ok by (simp add: a1 owed_one_def b1)
  next
    case (Suc k)
    have "ss ! k \<noteq> s" using that Suc bnd(3) nth_mem [of k ss] by auto
    moreover have "owed_one (Suc i + k) r m1 = owed_one (Suc i + k) r m" by (simp add: owed_one_def b1)
    ultimately show ?thesis using IH(1) that Suc by (simp add: a1)
  qed
  have "accepted t dlog' = accepted t dlog" if "t \<notin> set (s # ss)" for t
    using IH(2) that by (simp add: a1)
  moreover have "bit m' k = bit m k" if "k < i" for k
    using IH(3) that by (simp add: b1)
  ultimately show ?case using main by blast
qed simp

lemma full_mask_owes_nothing: "0 < n \<Longrightarrow> n \<le> 4 \<Longrightarrow> i < n \<Longrightarrow> owed_one i r (push_bit n (1 :: u8) - 1) = {#}"
  using bit_mask_iff [of n i, where 'a = u8] by (simp add: owed_one_def mask_eq_exp_minus_1 push_bit_of_1)

lemma flush_records_log:
  assumes "flush_records (logging ops) u now ss ps lst (dlog, x) = (ps', lst', (dlog', x'))"
    and "distinct ss" and "length ss \<le> 4" and "i < length ss"
  shows "accepted (ss ! i) dlog' + owed i ps' = accepted (ss ! i) dlog + owed i ps"
  using assms(1)
proof (induction ps arbitrary: lst dlog x ps')
  case (Cons p ps)
  obtain r m where p: "p = (r, m)" by (cases p)
  show ?case
  proof (cases "u \<and> priority r \<noteq> URGENT \<or> op_eth ops \<and> lst \<noteq> 0 \<and> now - lst < 100000")
    case True
    then obtain ps1 where f: "flush_records (logging ops) u now ss ps lst (dlog, x) = (ps1, lst', (dlog', x'))"
      and ps': "ps' = (r, m) # ps1"
      using Cons.prems by (auto simp: p split: prod.splits)
    show ?thesis using Cons.IH [OF f] by (simp add: ps' p)
  next
    case False
    obtain m1 lst1 dlog1 x1 where d: "deliver (logging ops) now r 0 ss m lst (dlog, x) = (m1, lst1, (dlog1, x1))"
      by (cases "deliver (logging ops) now r 0 ss m lst (dlog, x)") auto
    obtain ps1 where f: "flush_records (logging ops) u now ss ps lst1 (dlog1, x1) = (ps1, lst', (dlog', x'))"
      and ps': "ps' = (if m1 = (if length ss = 0 then 0 else push_bit (length ss) 1 - 1) then ps1 else (r, m1) # ps1)"
      using Cons.prems False d by (auto simp: p Let_def split: prod.splits)
    have D: "accepted (ss ! i) dlog1 + owed_one i r m1 = accepted (ss ! i) dlog + owed_one i r m"
      using deliver_log [OF d assms(2)] assms(3,4) by auto
    have "0 < length ss" using assms(4) by auto
    then have "owed i ps' = owed_one i r m1 + owed i ps1"
      using full_mask_owes_nothing [of "length ss" i r] assms(3,4) by (auto simp: ps')
    then have "accepted (ss ! i) dlog' + owed i ps' = owed_one i r m1 + (accepted (ss ! i) dlog' + owed i ps1)"
      by (simp add: ac_simps)
    also have "\<dots> = (accepted (ss ! i) dlog1 + owed_one i r m1) + owed i ps"
      using Cons.IH [OF f] by (simp add: ac_simps)
    also have "\<dots> = accepted (ss ! i) dlog + owed i (p # ps)"
      using D by (simp add: p ac_simps)
    finally show ?thesis .
  qed
qed simp

text \<open>C9. Delivery loses and repeats nothing: through any flush, urgent or not, throttled or not,
  the records that a sink has accepted together with those it is still owed stay the same, counted
  with their multiplicity. A record leaves the queue only when every sink has accepted it, and no
  sink is given a record again that it accepted.\<close>

theorem flush_delivers_once:
  assumes "flush_pending (logging ops) u (h, (dlog, x)) = (h', (dlog', x'))"
    and "distinct (sinks h)" and "length (sinks h) \<le> max_sinks" and "i < length (sinks h)"
  shows "accepted (sinks h ! i) dlog' + owed i (pending h') = accepted (sinks h ! i) dlog + owed i (pending h)
    \<and> sinks h' = sinks h \<and> history_list h' = history_list h"
proof -
  obtain now x1 where c: "(if op_eth ops then op_clock (logging ops) (dlog, x) else (0, (dlog, x))) = (now, (dlog, x1))"
    by (cases "op_eth ops"; cases "op_clock ops x") auto
  obtain ps lst where f: "flush_records (logging ops) u now (sinks h) (pending h)
        (if u then last_urgent_flush_us h else last_normal_flush_us h) (dlog, x1) = (ps, lst, (dlog', x'))"
      and h': "pending h' = ps" "sinks h' = sinks h" "history_list h' = history_list h"
    using assms(1) c
    by (auto simp: flush_pending_def Let_def history_list_def split: prod.splits if_splits)
  show ?thesis
    using flush_records_log [OF f assms(2) _ assms(4)] assms(3) by (simp add: h' max_sinks_def)
qed

text \<open>The witness: two sinks, of which the second always refuses.\<close>

definition demo_ops :: "bool \<Rightarrow> (nat, u64) diag_ops" where
  "demo_ops eth = \<lparr>op_eth = eth, op_time = \<lambda>w. (zero_timestamp, w), op_clock = \<lambda>w. (w, w),
     op_sink = \<lambda>s r w. (s = 0, w)\<rparr>"

definition demo_hub :: "nat hub" where
  "demo_hub = (init_hub :: nat hub)\<lparr>sinks := [0, 1], pending := [(zero_record, 0), (zero_record, 0)]\<rparr>"

lemma flush_delivers_once_witness:
  "case flush_pending (logging (demo_ops False)) False (demo_hub, ([], 5)) of
     (h', (dlog', x')) \<Rightarrow> accepted 0 dlog' + owed 0 (pending h') = {#zero_record, zero_record#}
       \<and> accepted 1 dlog' + owed 1 (pending h') = {#zero_record, zero_record#}"
proof -
  obtain h' dlog' x' where f: "flush_pending (logging (demo_ops False)) False (demo_hub, ([], 5)) = (h', (dlog', x'))"
    by (cases "flush_pending (logging (demo_ops False)) False (demo_hub, ([], 5))") auto
  have "distinct (sinks demo_hub)" "length (sinks demo_hub) \<le> max_sinks" "sinks demo_hub = [0, 1]"
    "pending demo_hub = [(zero_record, 0), (zero_record, 0)]"
    by (simp_all add: demo_hub_def max_sinks_def)
  then show ?thesis
    using flush_delivers_once [OF f, of 0] flush_delivers_once [OF f, of 1] f by (simp add: owed_one_def)
qed

text \<open>With \<open>STLIB_ETH\<close>: after an accepted delivery the rest of the loop is throttled.\<close>

lemma flush_records_throttled:
  assumes "op_eth ops" "lst \<noteq> 0" "now - lst < 100000"
  shows "flush_records ops u now ss ps lst w = (ps, lst, w)"
  using assms by (induction ps arbitrary: w) auto

lemma deliver_last:
  assumes "deliver ops now r i ss m lst w = (m', lst', w')" "op_eth ops"
  shows "lst' = now \<or> lst' = lst \<and> m' = m"
  using assms
proof (induction ss arbitrary: i m lst w)
  case (Cons s ss)
  then show ?case by (auto simp: Let_def split: if_splits prod.splits)
qed simp

definition changes_at_most_one :: "'a list \<Rightarrow> 'a list \<Rightarrow> bool" where
  "changes_at_most_one ps qs \<longleftrightarrow>
     ps = qs \<or> (\<exists>a x b. ps = a @ x # b \<and> (qs = a @ b \<or> (\<exists>y. qs = a @ y # b)))"

lemma changes_at_most_one_Cons: "changes_at_most_one ps qs \<Longrightarrow> changes_at_most_one (p # ps) (p # qs)"
  by (auto simp: changes_at_most_one_def) (metis append_Cons)+

lemma flush_records_one:
  assumes "flush_records ops u now ss ps lst w = (ps', lst', w')" "op_eth ops" "now \<noteq> 0" "ss \<noteq> []" "length ss \<le> 4"
    and "list_all (\<lambda>(r, m). m \<noteq> push_bit (length ss) 1 - 1) ps"
  shows "changes_at_most_one ps ps'"
  using assms(1,6)
proof (induction ps arbitrary: lst w ps')
  case (Cons p ps)
  obtain r m where p: "p = (r, m)" by (cases p)
  show ?case
  proof (cases "u \<and> priority r \<noteq> URGENT \<or> op_eth ops \<and> lst \<noteq> 0 \<and> now - lst < 100000")
    case True
    then obtain ps1 where f: "flush_records ops u now ss ps lst w = (ps1, lst', w')" and ps': "ps' = p # ps1"
      using Cons.prems by (auto simp: p split: prod.splits)
    show ?thesis using Cons.IH [OF f] Cons.prems(2) by (simp add: ps' changes_at_most_one_Cons)
  next
    case False
    obtain m1 lst1 w1 where d: "deliver ops now r 0 ss m lst w = (m1, lst1, w1)"
      by (cases "deliver ops now r 0 ss m lst w") auto
    obtain ps1 where f: "flush_records ops u now ss ps lst1 w1 = (ps1, lst', w')"
      and ps': "ps' = (if m1 = push_bit (length ss) 1 - 1 then ps1 else (r, m1) # ps1)"
      using Cons.prems False d assms(4) by (auto simp: p Let_def split: prod.splits)
    show ?thesis
    proof (cases "lst1 = now")
      case True
      then have "ps1 = ps" using f flush_records_throttled [OF assms(2), of now now u ss ps w1] assms(3) by simp
      then show ?thesis by (auto simp: changes_at_most_one_def ps' p intro: exI [of _ "[]"])
    next
      case False
      then have "m1 = m" using deliver_last [OF d assms(2)] by simp
      then have "ps' = p # ps1" using Cons.prems(2) by (simp add: ps' p)
      then show ?thesis using Cons.IH [OF f] Cons.prems(2) by (simp add: changes_at_most_one_Cons)
    qed
  qed
qed (simp add: changes_at_most_one_def)

text \<open>With Ethernet, a flush serves at most one record: when some sink has accepted it, every
  later one of the queue waits, and so does the whole queue in a flush less than 100 milliseconds
  after an accepted delivery.\<close>

theorem eth_flush_serves_one:
  assumes "op_eth ops" and "op_clock ops w = (now, w1)" and "now \<noteq> 0"
    and "sinks h \<noteq> []" and "length (sinks h) \<le> max_sinks"
    and "list_all (\<lambda>(r, m). m \<noteq> push_bit (length (sinks h)) 1 - 1) (pending h)"
    and "flush_pending ops u (h, w) = (h', w')"
  shows "changes_at_most_one (pending h) (pending h')
    \<and> (let lst = (if u then last_urgent_flush_us h else last_normal_flush_us h)
       in lst \<noteq> 0 \<and> now - lst < 100000 \<longrightarrow> pending h' = pending h \<and> w' = w1)"
proof -
  define lst where "lst = (if u then last_urgent_flush_us h else last_normal_flush_us h)"
  obtain ps l2 where f: "flush_records ops u now (sinks h) (pending h) lst w1 = (ps, l2, w')"
    and h': "pending h' = ps"
    using assms(1,2,7) by (auto simp: flush_pending_def Let_def lst_def split: prod.splits if_splits)
  have "changes_at_most_one (pending h) ps"
    using flush_records_one [OF f assms(1,3,4) _ assms(6)] assms(5) by (simp add: max_sinks_def)
  moreover have "ps = pending h \<and> w' = w1" if "lst \<noteq> 0" "now - lst < 100000"
    using f flush_records_throttled [OF assms(1) that] by simp
  ultimately show ?thesis by (simp add: h' lst_def [symmetric])
qed

lemma eth_flush_serves_one_witness:
  "changes_at_most_one (pending demo_hub) (pending (fst (flush_pending (demo_ops True) False (demo_hub, 500))))"
proof -
  obtain h' w' where f: "flush_pending (demo_ops True) False (demo_hub, 500) = (h', w')"
    by (cases "flush_pending (demo_ops True) False (demo_hub, 500)") auto
  show ?thesis
    using eth_flush_serves_one [of "demo_ops True" 500 500 500 demo_hub False h' w'] f
    by (simp add: demo_ops_def demo_hub_def max_sinks_def push_bit_of_1)
qed


section \<open>Records fit\<close>

lemma strnlen_min [simp]: "strnlen s n = min (length s) n"
  by (induction s n rule: strnlen.induct) auto

lemma copy_c_string_simps [simp]:
  "0 < n \<Longrightarrow> copy_c_string n None b = ([], b)"
  "0 < n \<Longrightarrow> copy_c_string n (Some s) b = (take (n - 1) s, b \<or> n - 1 < length s)"
  by (auto simp: copy_c_string_def bounded_strnlen_def Let_def min_def)

text \<open>A runtime record holds the longest part of the message, the function and the file that fits
  its buffers with their terminating zeros, and says that the message is truncated exactly when it
  was cut here or had been before. A line below zero is recorded as 0.\<close>

theorem runtime_record_fits:
  "case runtime_record sev cat org time (Some msg) shortened
      \<lparr>md_line = n, md_function_name = func, md_file_name = file\<rparr> prio w of
     (r, w') \<Rightarrow> w' = snd (time w) \<and> timestamp r = fst (time w) \<and> severity r = sev \<and> category r = cat
       \<and> priority r = prio \<and> length (origin r) \<le> 48
       \<and> (case payload r of RuntimePayload p \<Rightarrow>
            rt_message p = take 160 msg \<and> rt_truncated p = (shortened \<or> 160 < length msg)
            \<and> rt_function_name p = take 64 (case func of None \<Rightarrow> [] | Some s \<Rightarrow> s)
            \<and> rt_file_name p = take 96 (case file of None \<Rightarrow> [] | Some s \<Rightarrow> s)
            \<and> rt_line p = word_of_int (max 0 n)
          | ProtectionPayload q \<Rightarrow> False)"
  by (simp add: runtime_record_def Let_def split_def source_line_def origin_capacity_def max_name_length_def
      runtime_message_capacity_def function_capacity_def file_capacity_def max_def split: option.splits)

end
