(* ===== verification/Transport.thy ===== *)
theory Transport
  imports Diagnostics
begin

unbundle bit_operations_syntax

text \<open>
  What becomes of a diagnostic record outside the hub: the text it is described with
  (\<open>DiagnosticFormatter.cpp\<close>), and the order that carries it to another board, with the sink that
  sends it and the parsing of a received one (\<open>DiagnosticSinks.cpp\<close>).

  The conversions of \<open>printf\<close> are those of the C library; the one of a floating-point number with
  \<open>n\<close> decimals is the parameter \<open>fmt n\<close>. A text is a \<open>string\<close>, a message on the wire a list of bytes.
\<close>

section \<open>Text\<close>

fun decimal_digits :: "nat \<Rightarrow> string" where
  "decimal_digits n = (if n < 10 then [char_of (48 + n)] else decimal_digits (n div 10) @ [char_of (48 + n mod 10)])"

declare decimal_digits.simps [simp del]

definition decimal :: "int \<Rightarrow> string" where
  "decimal i = (if i < 0 then ''-'' @ decimal_digits (nat (- i)) else decimal_digits (nat i))"

definition padded :: "nat \<Rightarrow> nat \<Rightarrow> string" where
  "padded width n = (let s = decimal_digits n in replicate (width - length s) (CHR ''0'') @ s)"

text \<open>\<open>DiagnosticStringBuilder\<close>: the size of the buffer and the text in it, whose length is the offset.\<close>

record builder =
  buffer_size :: nat
  buffer_text :: string

definition make_builder :: "nat \<Rightarrow> builder" where
  "make_builder n = \<lparr>buffer_size = n, buffer_text = []\<rparr>"

definition append :: "string \<Rightarrow> builder \<Rightarrow> builder" where
  "append s b =
     (let offset = length (buffer_text b)
      in if buffer_size b = 0 \<or> offset \<ge> buffer_size b - 1 then b
         else let remaining = buffer_size b - offset
              in if length s \<ge> remaining then b\<lparr>buffer_text := buffer_text b @ take (remaining - 1) s\<rparr>
                 else b\<lparr>buffer_text := buffer_text b @ s\<rparr>)"

fun rule_kind_label :: "RuleKind \<Rightarrow> string" where
  "rule_kind_label BELOW = ''below''"
| "rule_kind_label ABOVE = ''above''"
| "rule_kind_label RANGE = ''range''"
| "rule_kind_label EQUALS = ''equals''"
| "rule_kind_label NOT_EQUALS = ''not_equals''"
| "rule_kind_label TIME_ACCUMULATION = ''time_accumulation''"

fun rule_state_label :: "RuleState \<Rightarrow> string" where
  "rule_state_label FAULT = ''fault''"
| "rule_state_label WARNING = ''warning''"
| "rule_state_label NORMAL = ''normal''"

fun rule_edge_label :: "RuleEdge \<Rightarrow> string" where
  "rule_edge_label FAULT_RAISED = ''fault_raised''"
| "rule_edge_label WARNING_RAISED = ''warning_raised''"
| "rule_edge_label RECOVERED = ''recovered''"
| "rule_edge_label NO_EDGE = ''none''"

text \<open>The text of a value in full, by the encoding. The encoding of a snapshot is that of its values
  (lemma \<open>snapshot_encoding\<close>), so that the other member of the union is never read.\<close>

fun numeric_text :: "(nat \<Rightarrow> flt \<Rightarrow> string) \<Rightarrow> SampleEncoding \<Rightarrow> sample \<Rightarrow> string" where
  "numeric_text fmt BOOL (SBool b) = (if b then ''true'' else ''false'')"
| "numeric_text fmt SIGNED (SSigned i) = decimal i"
| "numeric_text fmt UNSIGNED (SUnsigned n) = decimal (int n)"
| "numeric_text fmt FLOAT32 (SFloat32 x) = fmt 6 x"
| "numeric_text fmt FLOAT64 (SFloat64 x) = fmt 6 x"
| "numeric_text fmt _ _ = []"

text \<open>The result is whether the value fitted, and the text in the buffer.\<close>

definition format_numeric_value :: "(nat \<Rightarrow> flt \<Rightarrow> string) \<Rightarrow> SampleEncoding \<Rightarrow> sample \<Rightarrow> nat \<Rightarrow> bool \<times> string" where
  "format_numeric_value fmt enc v cap =
     (if cap = 0 then (False, [])
      else let s = numeric_text fmt enc v in (length s < cap, take (cap - 1) s))"

text \<open>Days, hours, minutes, seconds and microseconds of an uptime.\<close>

definition uptime_fields :: "u64 \<Rightarrow> u64 \<times> u64 \<times> u64 \<times> u64 \<times> u64" where
  "uptime_fields us =
     (let total = us div 1000000
      in (total div 86400, (total div 3600) mod 24, (total div 60) mod 60, total mod 60, us mod 1000000))"

definition append_timestamp_suffix :: "bool \<Rightarrow> Timestamp \<Rightarrow> builder \<Rightarrow> builder" where
  "append_timestamp_suffix tim_on t b =
     (if has_rtc t
      then append ('' | Timestamp: '' @ padded 4 (unat (ts_year t)) @ ''-'' @ padded 2 (unat (ts_month t)) @ ''-''
             @ padded 2 (unat (ts_day t)) @ '' '' @ padded 2 (unat (ts_hour t)) @ '':''
             @ padded 2 (unat (ts_minute t)) @ '':'' @ padded 2 (unat (ts_second t)) @ ''.''
             @ padded 5 (unat (ts_counter t))) b
      else if tim_on
      then (case uptime_fields (uptime_us t) of (days, hours, minutes, seconds, micros) \<Rightarrow>
             let clock = padded 2 (unat hours) @ '':'' @ padded 2 (unat minutes) @ '':''
                         @ padded 2 (unat seconds) @ ''.'' @ padded 6 (unat micros)
             in if days > 0 then append ('' | Uptime: '' @ decimal_digits (unat days) @ ''d '' @ clock) b
                else append ('' | Uptime: '' @ clock) b)
      else b)"

definition format_runtime_record :: "bool \<Rightarrow> Timestamp \<Rightarrow> RuntimeDiagnosticPayload \<Rightarrow> builder \<Rightarrow> builder" where
  "format_runtime_record tim_on t p b =
     (let b = append (rt_message p @ '' | Line: '' @ decimal_digits (unat (rt_line p)) @ '' Function: ''
                @ [char_of (39 :: nat)] @ rt_function_name p @ [char_of (39 :: nat)] @ '' File: ''
                @ rt_file_name p) b;
          b = append_timestamp_suffix tim_on t b
      in if rt_truncated p then append '' | Message truncated'' b else b)"

definition format_protection_record :: "(nat \<Rightarrow> flt \<Rightarrow> string) \<Rightarrow> bool \<Rightarrow> Timestamp \<Rightarrow> string
    \<Rightarrow> ProtectionDiagnosticPayload \<Rightarrow> builder \<Rightarrow> builder" where
  "format_protection_record fmt tim_on t org p b =
     (let number = \<lambda>v. snd (format_numeric_value fmt (pd_sample_encoding p) v 32);
          b = append (''Protection '' @ rule_state_label (pd_state p) @ '' ['' @ rule_edge_label (pd_edge p)
                @ ''] '' @ org @ '' | Rule: '' @ rule_kind_label (pd_rule_kind p) @ '' | Value: ''
                @ number (pd_observed_value p) @ '' | ThresholdA: '' @ number (pd_threshold_a p)) b;
          b = (if pd_has_threshold_b p then append ('' | ThresholdB: '' @ number (pd_threshold_b p)) b else b);
          b = (if pd_rule_kind p = TIME_ACCUMULATION
               then append ('' | Window: '' @ fmt 3 (pd_time_window_s p) @ ''s | Active: ''
                      @ fmt 3 (pd_active_time_s p) @ ''s'') b
               else b)
      in append_timestamp_suffix tim_on t b)"

text \<open>\<open>describe\<close> tells the kinds of payload apart by the category.\<close>

definition describe :: "(nat \<Rightarrow> flt \<Rightarrow> string) \<Rightarrow> bool \<Rightarrow> DiagnosticRecord \<Rightarrow> nat \<Rightarrow> string" where
  "describe fmt tim_on r cap =
     (if cap = 0 then []
      else buffer_text (case payload r of
        RuntimePayload p \<Rightarrow> format_runtime_record tim_on (timestamp r) p (make_builder cap)
      | ProtectionPayload p \<Rightarrow>
          format_protection_record fmt tim_on (timestamp r) (origin r) p (make_builder cap)))"

section \<open>The transport order\<close>

definition DIAGNOSTIC_FAULT_ORDER_ID :: u16 where "DIAGNOSTIC_FAULT_ORDER_ID = 1555"
definition DIAGNOSTIC_WARNING_ORDER_ID :: u16 where "DIAGNOSTIC_WARNING_ORDER_ID = 2555"
definition DIAGNOSTIC_OK_ORDER_ID :: u16 where "DIAGNOSTIC_OK_ORDER_ID = 3000"
definition DIAGNOSTIC_CHAR_TYPE :: u8 where "DIAGNOSTIC_CHAR_TYPE = 3"
definition DIAGNOSTIC_ERROR_HANDLER_KIND :: u8 where "DIAGNOSTIC_ERROR_HANDLER_KIND = 5"
definition DIAGNOSTIC_WARNING_KIND :: u8 where "DIAGNOSTIC_WARNING_KIND = 7"

definition transport_buffer_capacity :: nat where
  "transport_buffer_capacity = 2 + 1 + 1 + 2 + 1 + 1 + 1 + 1 + 1 + 2 + origin_capacity + 1
     + formatted_message_capacity + 1"

record transport_order =
  to_id :: u16
  to_kind :: u8
  to_origin :: string
  to_message :: string
  to_counter :: u16
  to_second :: u8
  to_minute :: u8
  to_hour :: u8
  to_day :: u8
  to_month :: u8
  to_year :: u16
  to_size :: nat
  to_buffer :: "u8 list"

text \<open>\<open>id\<close> is not initialised by the code; here it starts as 0.\<close>

definition init_transport_order :: transport_order where
  "init_transport_order = \<lparr>to_id = 0, to_kind = DIAGNOSTIC_WARNING_KIND, to_origin = [], to_message = [],
     to_counter = 0, to_second = 0, to_minute = 0, to_hour = 0, to_day = 0, to_month = 0, to_year = 0,
     to_size = 0, to_buffer = []\<rparr>"

fun id_for :: "Severity \<Rightarrow> u16" where
  "id_for SEV_FAULT = DIAGNOSTIC_FAULT_ORDER_ID"
| "id_for SEV_WARNING = DIAGNOSTIC_WARNING_ORDER_ID"
| "id_for SEV_INFO = DIAGNOSTIC_OK_ORDER_ID"

definition kind_for :: "Severity \<Rightarrow> u8" where
  "kind_for s = (if s = SEV_FAULT then DIAGNOSTIC_ERROR_HANDLER_KIND else DIAGNOSTIC_WARNING_KIND)"

definition encoded_size :: "transport_order \<Rightarrow> nat" where
  "encoded_size q = 2 + 1 + 1 + bounded_strnlen (Some (to_origin q)) (origin_capacity + 1) + 1
     + bounded_strnlen (Some (to_message q)) (formatted_message_capacity + 1) + 1 + 2 + 1 + 1 + 1 + 1 + 1 + 2"

definition set_record :: "DiagnosticRecord \<Rightarrow> string \<Rightarrow> transport_order \<Rightarrow> transport_order" where
  "set_record r description q =
     (let t = timestamp r;
          q = q\<lparr>to_id := id_for (severity r), to_kind := kind_for (severity r),
                to_origin := fst (copy_c_string (origin_capacity + 1) (Some (origin r)) False),
                to_message := fst (copy_c_string (formatted_message_capacity + 1) (Some description) False),
                to_counter := ts_counter t, to_second := ts_second t, to_minute := ts_minute t,
                to_hour := ts_hour t, to_day := ts_day t, to_month := ts_month t, to_year := ts_year t\<rparr>
      in q\<lparr>to_size := encoded_size q\<rparr>)"

definition bytes16 :: "u16 \<Rightarrow> u8 list" where
  "bytes16 x = [ucast x, ucast (drop_bit 8 x)]"

definition word16 :: "u8 \<Rightarrow> u8 \<Rightarrow> u16" where
  "word16 l h = ucast l OR push_bit 8 (ucast h)"

definition string_bytes :: "string \<Rightarrow> u8 list" where
  "string_bytes s = map of_char s"

definition bytes_string :: "u8 list \<Rightarrow> string" where
  "bytes_string bs = map (\<lambda>b. char_of (unat b)) bs"

text \<open>The bytes written so far are \<open>out\<close>.\<close>

definition write_string :: "string \<Rightarrow> u8 list \<Rightarrow> u8 list" where
  "write_string s out =
     out @ string_bytes (take (bounded_strnlen (Some s) (transport_buffer_capacity - length out - 1)) s) @ [0]"

definition build :: "transport_order \<Rightarrow> transport_order" where
  "build q =
     (let out = bytes16 (to_id q) @ [DIAGNOSTIC_CHAR_TYPE, to_kind q];
          out = write_string (to_message q) (write_string (to_origin q) out);
          out = out @ bytes16 (to_counter q)
                @ [to_second q, to_minute q, to_hour q, to_day q, to_month q] @ bytes16 (to_year q)
      in q\<lparr>to_size := length out, to_buffer := out\<rparr>)"

text \<open>\<open>bounded_strnlen\<close> on received bytes; \<open>None\<close> is a read past the end of the data.\<close>

fun strnlen_bytes :: "u8 list \<Rightarrow> nat \<Rightarrow> nat option" where
  "strnlen_bytes bs 0 = Some 0"
| "strnlen_bytes [] (Suc n) = None"
| "strnlen_bytes (b # bs) (Suc n) = (if b = 0 then Some 0 else map_option Suc (strnlen_bytes bs n))"

text \<open>The copy of the nine bytes that \<open>counter\<close> to \<open>year\<close> have on the wire into the object at
  \<open>counter\<close>. In the object \<open>year\<close> is aligned to an even address: the byte after \<open>month\<close> is padding,
  the eighth byte of the copy falls into it, the ninth into the low byte of \<open>year\<close>, and the high byte
  of \<open>year\<close> is not written.\<close>

definition copy_tail :: "u8 list \<Rightarrow> transport_order \<Rightarrow> transport_order" where
  "copy_tail bs q =
     q\<lparr>to_counter := word16 (bs ! 0) (bs ! 1), to_second := bs ! 2, to_minute := bs ! 3, to_hour := bs ! 4,
       to_day := bs ! 5, to_month := bs ! 6, to_year := word16 (bs ! 8) (ucast (drop_bit 8 (to_year q)))\<rparr>"

text \<open>\<open>None\<close> is a read past the end of the data.\<close>

definition parse :: "u8 list \<Rightarrow> transport_order \<Rightarrow> transport_order option" where
  "parse bs q =
     (if length bs < 4 then None
      else let q = q\<lparr>to_id := word16 (bs ! 0) (bs ! 1), to_kind := bs ! 3\<rparr>; off = 4
           in case strnlen_bytes (drop off bs) origin_capacity of
                None \<Rightarrow> None
              | Some n \<Rightarrow>
                  let q = q\<lparr>to_origin := bytes_string (take n (drop off bs))\<rparr>; off = off + (n + 1)
                  in case strnlen_bytes (drop off bs) formatted_message_capacity of
                       None \<Rightarrow> None
                     | Some n \<Rightarrow>
                         let q = q\<lparr>to_message := bytes_string (take n (drop off bs))\<rparr>; off = off + (n + 1)
                         in if length bs < off + 9 then None
                            else Some ((copy_tail (take 9 (drop off bs)) q)\<lparr>to_size := off + 9\<rparr>))"

definition reset_for_receive :: "transport_order \<Rightarrow> transport_order" where
  "reset_for_receive q = q\<lparr>to_size := 0\<rparr>"

text \<open>\<open>process\<close>: the received message is published to the hub of this board.\<close>

definition process :: "('s, 'w) diag_ops \<Rightarrow> transport_order \<Rightarrow> 's hub \<times> 'w \<Rightarrow> 's hub \<times> 'w" where
  "process ops q hw =
     (if to_id q = DIAGNOSTIC_FAULT_ORDER_ID
      then publish_runtime_fault ops (Some (to_message q)) False 0 (Some (to_origin q)) (Some []) hw
      else if to_id q = DIAGNOSTIC_WARNING_ORDER_ID
      then publish_runtime_warning ops (Some (to_message q)) False 0 (Some (to_origin q)) (Some []) hw
      else if to_id q = DIAGNOSTIC_OK_ORDER_ID
      then publish_runtime_info ops (Some (to_message q)) False 0 (Some (to_origin q)) (Some []) hw
      else hw)"

text \<open>\<open>OrderProtocolDiagnosticSink::publish\<close>; \<open>send\<close> is \<open>send_order\<close> of the target.\<close>

definition sink_publish :: "(nat \<Rightarrow> flt \<Rightarrow> string) \<Rightarrow> bool \<Rightarrow> ('t \<Rightarrow> transport_order \<Rightarrow> 'w \<Rightarrow> bool \<times> 'w)
    \<Rightarrow> 't option \<Rightarrow> DiagnosticRecord \<Rightarrow> transport_order \<times> 'w \<Rightarrow> bool \<times> transport_order \<times> 'w" where
  "sink_publish fmt tim_on send tgt r ow =
     (case tgt of None \<Rightarrow> (False, ow)
      | Some t \<Rightarrow>
          let q = build (set_record r (describe fmt tim_on r (formatted_message_capacity + 1)) (fst ow));
              (delivered, w) = send t q (snd ow)
          in (delivered, reset_for_receive q, w))"

text \<open>\<open>UartDiagnosticSink::publish\<close>; \<open>print\<close> is \<open>printf\<close> of the line.\<close>

fun severity_number :: "Severity \<Rightarrow> nat" where
  "severity_number SEV_INFO = 0"
| "severity_number SEV_WARNING = 1"
| "severity_number SEV_FAULT = 2"

definition uart_publish :: "(nat \<Rightarrow> flt \<Rightarrow> string) \<Rightarrow> bool \<Rightarrow> (string \<Rightarrow> 'w \<Rightarrow> 'w) \<Rightarrow> bool \<Rightarrow> DiagnosticRecord
    \<Rightarrow> 'w \<Rightarrow> bool \<times> 'w" where
  "uart_publish fmt tim_on print ready r w =
     (if \<not> ready then (False, w)
      else (True, print (decimal_digits (severity_number (severity r)) @ '': ''
              @ describe fmt tim_on r (formatted_message_capacity + 1) @ [char_of (10 :: nat), char_of (13 :: nat)]) w))"


section \<open>The text\<close>

definition holds_text :: "nat \<Rightarrow> string \<Rightarrow> builder \<Rightarrow> bool" where
  "holds_text n s b \<longleftrightarrow> buffer_size b = n \<and> buffer_text b = take (n - 1) s"

text \<open>A step of the formatting appends the same text whatever the size of the buffer.\<close>

definition appends :: "(builder \<Rightarrow> builder) \<Rightarrow> bool" where
  "appends f \<longleftrightarrow> (\<exists>x. \<forall>n b s. 0 < n \<longrightarrow> holds_text n s b \<longrightarrow> holds_text n (s @ x) (f b))"

lemma append_appends: "appends (append x)"
proof -
  have "holds_text n (s @ x) (append x b)" if "0 < n" "holds_text n s b" for n b s
    using that by (auto simp: holds_text_def append_def Let_def min_def)
  then show ?thesis unfolding appends_def by blast
qed

lemma appends_id: "appends (\<lambda>b. b)"
  unfolding appends_def by (rule exI [of _ "[]"]) simp

lemma appends_then: "appends f \<Longrightarrow> appends g \<Longrightarrow> appends (\<lambda>b. g (f b))"
  unfolding appends_def by (metis append_assoc)

lemma appends_if: "(c \<Longrightarrow> appends f) \<Longrightarrow> (\<not> c \<Longrightarrow> appends g) \<Longrightarrow> appends (\<lambda>b. if c then f b else g b)"
  by (cases c) auto

lemma appends_timestamp: "appends (append_timestamp_suffix tim_on t)"
  unfolding append_timestamp_suffix_def split_def Let_def
  by (intro appends_if append_appends appends_id)

lemma appends_runtime: "appends (format_runtime_record tim_on t p)"
  unfolding format_runtime_record_def Let_def
  by (intro appends_if appends_then [OF append_appends] appends_then [OF appends_then, OF append_appends]
      appends_then [OF _ append_appends] appends_timestamp append_appends appends_then [of _ "append_timestamp_suffix tim_on t"])

lemma appends_protection: "appends (format_protection_record fmt tim_on t org p)"
  unfolding format_protection_record_def Let_def
  by (rule appends_then [OF _ appends_timestamp], intro appends_if appends_then [OF _ append_appends] append_appends)

text \<open>The description of a record is cut at the size of the buffer and nowhere else: a smaller
  buffer holds the beginning of what a larger one holds, with place for the terminating zero.\<close>

theorem describe_prefix:
  assumes "0 < n" and "n \<le> m"
  shows "length (describe fmt tim_on r n) < n \<and> describe fmt tim_on r n = take (n - 1) (describe fmt tim_on r m)"
proof -
  define f where "f = (case payload r of RuntimePayload p \<Rightarrow> format_runtime_record tim_on (timestamp r) p
      | ProtectionPayload p \<Rightarrow> format_protection_record fmt tim_on (timestamp r) (origin r) p)"
  have "appends f" by (cases "payload r") (simp_all add: f_def appends_runtime appends_protection)
  then obtain x where x: "0 < k \<Longrightarrow> holds_text k s b \<Longrightarrow> holds_text k (s @ x) (f b)" for k s b
    unfolding appends_def by blast
  have d: "describe fmt tim_on r k = take (k - 1) x" if "0 < k" for k
    using x [OF that, of "[]" "make_builder k"] that
    by (cases "payload r") (simp_all add: describe_def f_def holds_text_def make_builder_def)
  show ?thesis using assms d [of n] d [of m] by (auto simp: min_def)
qed

lemma describe_prefix_witness:
  "describe (\<lambda>_ _. []) True zero_record 20 = take 19 (describe (\<lambda>_ _. []) True zero_record 321)"
  using describe_prefix [of 20 321 "\<lambda>_ _. []" True zero_record] by simp

lemma snapshot_encoding:
  "sample_encoding (single_threshold k v st e prev f wn win act) = sample_encoding_for (observed_value (single_threshold k v st e prev f wn win act))"
  "sample_encoding (range_snapshot v st e prev lf hf lw hw) = sample_encoding_for (observed_value (range_snapshot v st e prev lf hf lw hw))"
  by (simp_all add: single_threshold_def range_snapshot_def to_numeric_value_def Let_def)

text \<open>The fields of a printed uptime are in their ranges and together are the uptime.\<close>

theorem uptime_fields_exact:
  "case uptime_fields us of (days, hours, minutes, seconds, micros) \<Rightarrow>
     unat hours < 24 \<and> unat minutes < 60 \<and> unat seconds < 60 \<and> unat micros < 1000000
     \<and> (((unat days * 24 + unat hours) * 60 + unat minutes) * 60 + unat seconds) * 1000000 + unat micros = unat us"
proof -
  define t where "t = unat us div 1000000"
  have e: "(((t div 86400 * 24 + t div 3600 mod 24) * 60 + t div 60 mod 60) * 60 + t mod 60) = t"
  proof -
    have "t div 3600 = t div 60 div 60" "t div 86400 = t div 3600 div 24" by (simp_all flip: div_mult2_eq)
    then show ?thesis by (metis div_mult_mod_eq)
  qed
  have "t * 1000000 + unat us mod 1000000 = unat us" by (simp add: t_def)
  then show ?thesis
    using e by (simp add: uptime_fields_def Let_def unat_div unat_mod t_def [symmetric])
qed

section \<open>The wire\<close>

lemma unat_of_char: "unat (of_char c :: u8) = of_char c"
proof -
  have "(of_char c :: u8) = of_nat (of_char c)" by (simp only: of_nat_of_char)
  moreover have "unat (of_nat (of_char c) :: u8) = of_char c" by (simp only: unat_of_nat) simp
  ultimately show ?thesis by (simp only:)
qed

lemma of_char_zero: "(of_char c :: u8) = 0 \<longleftrightarrow> c = CHR 0x00"
proof -
  have "(of_char c :: u8) = 0 \<longleftrightarrow> (of_char c :: nat) = 0"
    by (simp only: unat_of_char [symmetric] unsigned_eq_0_iff)
  also have "\<dots> \<longleftrightarrow> of_char c = (of_char (CHR 0x00) :: nat)" by simp
  also have "\<dots> \<longleftrightarrow> c = CHR 0x00" by (simp only: of_char_eq_iff)
  finally show ?thesis .
qed

lemma bytes_string_inverse [simp]: "bytes_string (string_bytes s) = s"
  by (simp add: bytes_string_def string_bytes_def unat_of_char comp_def)

lemma length_string_bytes [simp]: "length (string_bytes s) = length s"
  by (simp add: string_bytes_def)

definition c_string :: "string \<Rightarrow> bool" where
  "c_string s \<longleftrightarrow> list_all (\<lambda>c. c \<noteq> CHR 0x00) s"

lemma c_string_take: "c_string s \<Longrightarrow> c_string (take n s)"
  by (auto simp: c_string_def list_all_iff dest: in_set_takeD)

lemma strnlen_string:
  "c_string s \<Longrightarrow> length s \<le> n \<Longrightarrow> strnlen_bytes (string_bytes s @ 0 # rest) n = Some (length s)"
proof (induction s arbitrary: n)
  case Nil
  then show ?case by (cases n) (simp_all add: string_bytes_def)
next
  case (Cons c s)
  then obtain k where "n = Suc k" by (cases n) auto
  then show ?case using Cons by (simp add: string_bytes_def c_string_def of_char_zero)
qed

lemma word16_bytes: "word16 (ucast x) (ucast (drop_bit 8 x)) = x"
  by (rule bit_word_eqI) (auto simp: word16_def bit_simps)

lemma bytes16_list: "bytes16 x = [ucast x, ucast (drop_bit 8 x)]" by (rule bytes16_def)

definition wire :: "transport_order \<Rightarrow> u8 list" where
  "wire q = bytes16 (to_id q) @ DIAGNOSTIC_CHAR_TYPE # to_kind q # string_bytes (to_origin q) @ 0
     # string_bytes (to_message q) @ 0 # bytes16 (to_counter q)
     @ [to_second q, to_minute q, to_hour q, to_day q, to_month q] @ bytes16 (to_year q)"

lemma build_wire:
  assumes "length (to_origin q) \<le> 48" "length (to_message q) \<le> 320"
  shows "build q = q\<lparr>to_size := length (wire q), to_buffer := wire q\<rparr>"
    and "length (wire q) = 15 + length (to_origin q) + length (to_message q)"
  using assms
  by (simp_all add: build_def wire_def write_string_def bounded_strnlen_def transport_buffer_capacity_def
      origin_capacity_def max_name_length_def formatted_message_capacity_def bytes16_list)


lemma drop_plus: "drop (a + b) xs = drop b (drop a xs)"
  by (simp add: add.commute)

lemma drop_past: "n = length xs \<Longrightarrow> drop (n + 1) (xs @ y # ys) = ys"
  by simp

lemma parse_wire:
  assumes "c_string (to_origin q)" "c_string (to_message q)"
    and "length (to_origin q) \<le> 48" "length (to_message q) \<le> 320"
  shows "parse (wire q @ rest) p = Some (p\<lparr>to_id := to_id q, to_kind := to_kind q, to_origin := to_origin q,
    to_message := to_message q, to_counter := to_counter q, to_second := to_second q,
    to_minute := to_minute q, to_hour := to_hour q, to_day := to_day q, to_month := to_month q,
    to_year := word16 (ucast (drop_bit 8 (to_year q))) (ucast (drop_bit 8 (to_year p))),
    to_size := length (wire q)\<rparr>)"
proof -
  define tail where "tail = bytes16 (to_counter q)
     @ [to_second q, to_minute q, to_hour q, to_day q, to_month q] @ bytes16 (to_year q)"
  define mid where "mid = string_bytes (to_message q) @ 0 # tail @ rest"
  have w: "wire q @ rest = bytes16 (to_id q) @ DIAGNOSTIC_CHAR_TYPE # to_kind q # string_bytes (to_origin q) @ 0 # mid"
    by (simp add: wire_def mid_def tail_def)
  have n1: "strnlen_bytes (string_bytes (to_origin q) @ 0 # mid) 48 = Some (length (to_origin q))"
    using strnlen_string [OF assms(1,3)] .
  have n2: "strnlen_bytes mid 320 = Some (length (to_message q))"
    unfolding mid_def using strnlen_string [OF assms(2,4)] .
  have t9: "take 9 (tail @ rest) = tail" "length tail = 9" by (simp_all add: tail_def bytes16_list)
  have c: "copy_tail tail r = r\<lparr>to_counter := to_counter q, to_second := to_second q,
      to_minute := to_minute q, to_hour := to_hour q, to_day := to_day q, to_month := to_month q,
      to_year := word16 (ucast (drop_bit 8 (to_year q))) (ucast (drop_bit 8 (to_year r)))\<rparr>" for r
    by (simp add: copy_tail_def tail_def bytes16_list word16_bytes)
  have lw: "length (wire q) = 15 + length (to_origin q) + length (to_message q)"
    by (rule build_wire [OF assms(3,4)])
  have cap: "origin_capacity = 48" "formatted_message_capacity = 320"
    by (simp_all add: origin_capacity_def max_name_length_def formatted_message_capacity_def)
  have d1: "drop 4 (wire q @ rest) = string_bytes (to_origin q) @ 0 # mid"
    by (simp add: w bytes16_list)
  have d2: "drop (4 + (length (to_origin q) + 1)) (wire q @ rest) = mid"
    unfolding drop_plus [of 4] d1 by (rule drop_past) simp
  have d3: "drop (4 + (length (to_origin q) + 1) + (length (to_message q) + 1)) (wire q @ rest) = tail @ rest"
    unfolding drop_plus [of "4 + (length (to_origin q) + 1)"] d2 mid_def by (rule drop_past) simp
  have m: "take (length (to_message q)) mid = string_bytes (to_message q)" by (simp add: mid_def)
  have first: "(wire q @ rest) ! 0 = ucast (to_id q)" "(wire q @ rest) ! 1 = ucast (drop_bit 8 (to_id q))"
    "(wire q @ rest) ! 3 = to_kind q"
    by (simp_all add: w bytes16_list eval_nat_numeral)
  show ?thesis
    unfolding parse_def Let_def cap first d1 n1 option.case d2 n2 d3
    using lw by (simp add: d1 d2 d3 m t9 c word16_bytes)
qed

text \<open>C10. What one board sends of a diagnostic record and the other parses: the parser reads only
  within the message, whatever follows it in the buffer, and gets back the severity (as the order's
  identifier), the kind, the origin and the description as they were cut to the sender's buffers,
  and the time of day and the day and month. It does not get back the year: the low byte of the
  parsed year is the high byte of the one sent, and its high byte is what the receiving order held
  before. The message fits the sender's buffer.\<close>

theorem transport_roundtrip:
  fixes r d q0 rest p0
  assumes "c_string (origin r)" and "c_string d"
  defines "q \<equiv> build (set_record r d q0)"
  shows "\<exists>p. parse (to_buffer q @ rest) p0 = Some p
    \<and> to_id p = id_for (severity r) \<and> to_kind p = kind_for (severity r)
    \<and> to_origin p = take 48 (origin r) \<and> to_message p = take 320 d
    \<and> to_counter p = ts_counter (timestamp r) \<and> to_second p = ts_second (timestamp r)
    \<and> to_minute p = ts_minute (timestamp r) \<and> to_hour p = ts_hour (timestamp r)
    \<and> to_day p = ts_day (timestamp r) \<and> to_month p = ts_month (timestamp r)
    \<and> to_year p = word16 (ucast (drop_bit 8 (ts_year (timestamp r)))) (ucast (drop_bit 8 (to_year p0)))
    \<and> to_size p = to_size q \<and> to_size q = length (to_buffer q)
    \<and> to_size q = encoded_size (set_record r d q0) \<and> to_size q \<le> transport_buffer_capacity"
proof -
  let ?s = "set_record r d q0"
  have f: "to_origin ?s = take 48 (origin r)" "to_message ?s = take 320 d" "to_id ?s = id_for (severity r)"
    "to_kind ?s = kind_for (severity r)" "to_counter ?s = ts_counter (timestamp r)"
    "to_second ?s = ts_second (timestamp r)" "to_minute ?s = ts_minute (timestamp r)"
    "to_hour ?s = ts_hour (timestamp r)" "to_day ?s = ts_day (timestamp r)"
    "to_month ?s = ts_month (timestamp r)" "to_year ?s = ts_year (timestamp r)"
    by (simp_all add: set_record_def Let_def origin_capacity_def max_name_length_def formatted_message_capacity_def)
  have b: "length (to_origin ?s) \<le> 48" "length (to_message ?s) \<le> 320" by (simp_all add: f)
  have c: "c_string (to_origin ?s)" "c_string (to_message ?s)" using assms(1,2) by (simp_all add: f c_string_take)
  have q: "to_buffer q = wire ?s" "to_size q = length (wire ?s)" unfolding q_def build_wire(1) [OF b] by simp_all
  have l: "length (wire ?s) = 15 + length (to_origin ?s) + length (to_message ?s)" by (rule build_wire(2) [OF b])
  have e: "encoded_size ?s = length (wire ?s)"
    using b by (simp add: encoded_size_def bounded_strnlen_def l origin_capacity_def max_name_length_def
        formatted_message_capacity_def)
  have t: "length (wire ?s) \<le> transport_buffer_capacity"
    using b by (simp add: l transport_buffer_capacity_def origin_capacity_def max_name_length_def
        formatted_message_capacity_def)
  show ?thesis
    unfolding q parse_wire [OF c b] using e t by (simp add: f)
qed

text \<open>The witness: of the year 2025 the receiver, whose order held no year yet, gets 7.\<close>

definition dated_record :: DiagnosticRecord where
  "dated_record = zero_record\<lparr>origin := ''bms'', timestamp := zero_timestamp\<lparr>ts_year := 2025\<rparr>\<rparr>"

lemma transport_roundtrip_witness:
  "\<exists>p. parse (to_buffer (build (set_record dated_record ''hot'' init_transport_order)) @ [9]) init_transport_order = Some p
     \<and> to_message p = ''hot'' \<and> to_year p = 7"
proof -
  have y: "word16 (ucast (drop_bit 8 (2025 :: u16))) (ucast (drop_bit 8 (0 :: u16))) = 7"
    by (simp add: word16_def drop_bit_eq_div)
  have "c_string (origin dated_record)" "c_string ''hot''" "ts_year (timestamp dated_record) = 2025"
    "to_year init_transport_order = 0"
    by (simp_all add: dated_record_def c_string_def init_transport_order_def)
  then show ?thesis
    using transport_roundtrip [of dated_record "''hot''" init_transport_order "[9]" init_transport_order] y by auto
qed

end
