(* ===== verification/StateMachine.thy ===== *)
theory StateMachine
  imports Scheduler
begin

unbundle bit_operations_syntax

text \<open>
  The state machines of \<open>Inc/ST-LIB_LOW/StateMachine/StateMachine.hpp\<close>: states with enter, exit and
  timed actions, transitions with guards, and machines nested in the states of another machine.

  A machine and the machines nested in it form a tree of values: the bindings of a machine are
  taken to name distinct machines. A state is its number in the enumeration. What the code calls
  outside this file is the record \<open>sm_ops\<close>: running a callback, asking a guard, the two operations of
  the scheduler, \<open>PANIC\<close>, and the state orders. All of them act on a world \<open>'w\<close>. A
  \<open>StaticVector\<close> is the list of its elements, its capacity checked where the code pushes. A
  \<open>PANIC\<close> during constant evaluation is a compile error, the left value of a sum here.
\<close>

section \<open>Data\<close>

definition NUMBER_OF_ACTIONS :: nat where
  "NUMBER_OF_ACTIONS = 16"

datatype AlarmType = Milliseconds | Microseconds

record 'cb timed_action =
  action :: "'cb option"
  period :: u32
  alarm_precision :: AlarmType
  ta_id :: u8
  is_on :: bool

definition no_action :: "'cb timed_action" where
  "no_action = \<lparr>action = None, period = 0, alarm_precision = Milliseconds, ta_id = 255, is_on = False\<rparr>"

record 'g transition =
  target :: nat
  predicate :: 'g

record ('cb, 'g) state =
  state_id :: nat
  cyclic_actions :: "'cb timed_action list"
  on_enter_actions :: "'cb option list"
  on_exit_actions :: "'cb option list"
  state_transitions :: "'g transition list"
  state_orders_ids :: "u16 list"

datatype ('cb, 'g) machine = Machine
  (current_state: nat)
  (states: "('cb, 'g) state list")
  (transitions: "'g transition list")
  (transitions_assoc: "(nat \<times> nat) list")
  (called_start: bool)
  (nested_machines: "(nat \<times> ('cb, 'g) machine option) list")

record ('cb, 'g, 'w) sm_ops =
  op_run :: "'cb \<Rightarrow> 'w \<Rightarrow> 'w"
  op_ask :: "'g \<Rightarrow> 'w \<Rightarrow> bool \<times> 'w"
  op_register :: "u32 \<Rightarrow> 'cb option \<Rightarrow> 'w \<Rightarrow> u16 \<times> 'w"
  op_unregister :: "u16 \<Rightarrow> 'w \<Rightarrow> bool \<times> 'w"
  op_panic :: "string \<Rightarrow> 'w \<Rightarrow> 'w"
  op_add_orders :: "u16 list \<Rightarrow> 'w \<Rightarrow> 'w"
  op_remove_orders :: "u16 list \<Rightarrow> 'w \<Rightarrow> 'w"

section \<open>States\<close>

definition make_state :: "nat \<Rightarrow> 'g transition list \<Rightarrow> string + ('cb, 'g) state" where
  "make_state s ts =
     (if list_ex (\<lambda>t. target t = s) ts
      then Inl ''Current state cannot be the target of a transition''
      else Inr \<lparr>state_id = s, cyclic_actions = [], on_enter_actions = [], on_exit_actions = [],
                state_transitions = ts, state_orders_ids = []\<rparr>)"

text \<open>\<open>push_back\<close> on a vector of capacity \<open>n\<close>.\<close>

definition push_within :: "nat \<Rightarrow> 'a list \<Rightarrow> 'a \<Rightarrow> string + 'a list" where
  "push_within n xs x =
     (if length xs \<ge> n then Inl ''StaticVector capacity exceeded'' else Inr (xs @ [x]))"

definition state_add_enter_action :: "'cb option \<Rightarrow> ('cb, 'g) state \<Rightarrow> string + ('cb, 'g) state" where
  "state_add_enter_action f st =
     map_sum id (\<lambda>xs. st\<lparr>on_enter_actions := xs\<rparr>) (push_within NUMBER_OF_ACTIONS (on_enter_actions st) f)"

definition state_add_exit_action :: "'cb option \<Rightarrow> ('cb, 'g) state \<Rightarrow> string + ('cb, 'g) state" where
  "state_add_exit_action f st =
     map_sum id (\<lambda>xs. st\<lparr>on_exit_actions := xs\<rparr>) (push_within NUMBER_OF_ACTIONS (on_exit_actions st) f)"

text \<open>The result is the index of the new action, for the pointer the code returns.\<close>

definition state_add_cyclic_action ::
    "'cb option \<Rightarrow> AlarmType \<Rightarrow> u32 \<Rightarrow> ('cb, 'g) state \<Rightarrow> string + nat \<times> ('cb, 'g) state" where
  "state_add_cyclic_action f unit p st =
     map_sum id (\<lambda>xs. (length xs - 1, st\<lparr>cyclic_actions := xs\<rparr>))
       (push_within NUMBER_OF_ACTIONS (cyclic_actions st)
         (no_action\<lparr>alarm_precision := unit, period := p, action := f\<rparr>))"

definition add_state_order :: "nat \<Rightarrow> u16 \<Rightarrow> ('cb, 'g) state \<Rightarrow> string + ('cb, 'g) state" where
  "add_state_order n i st =
     map_sum id (\<lambda>xs. st\<lparr>state_orders_ids := xs\<rparr>) (push_within n (state_orders_ids st) i)"

definition run_actions :: "('cb, 'g, 'w) sm_ops \<Rightarrow> 'cb option list \<Rightarrow> 'w \<Rightarrow> 'w" where
  "run_actions ops fs w = fold (\<lambda>f w. case f of None \<Rightarrow> w | Some c \<Rightarrow> op_run ops c w) fs w"

text \<open>The loop over the timed actions that are on, also the roll-back loop of the registration.\<close>

fun unregister_all_timed_actions ::
    "('cb, 'g, 'w) sm_ops \<Rightarrow> 'cb timed_action list \<Rightarrow> 'w \<Rightarrow> 'cb timed_action list \<times> 'w" where
  "unregister_all_timed_actions ops [] w = ([], w)"
| "unregister_all_timed_actions ops (a # as) w =
     (if action a = None \<or> \<not> is_on a
      then let (as, w) = unregister_all_timed_actions ops as w in (a # as, w)
      else let (ok, w) = op_unregister ops (ucast (ta_id a)) w;
               (as, w) = unregister_all_timed_actions ops as w
           in (a\<lparr>is_on := False\<rparr> # as, w))"

text \<open>The registration loop: \<open>done\<close> holds the actions before the current one. A refused
  registration takes back those before it and leaves those after it alone.\<close>

definition period_us_of :: "'cb timed_action \<Rightarrow> u32" where
  "period_us_of a = (case alarm_precision a of Milliseconds \<Rightarrow> period a * 1000 | Microseconds \<Rightarrow> period a)"

fun register_from ::
    "('cb, 'g, 'w) sm_ops \<Rightarrow> 'cb timed_action list \<Rightarrow> 'cb timed_action list \<Rightarrow> 'w
      \<Rightarrow> 'cb timed_action list \<times> 'w" where
  "register_from ops done [] w = (done, w)"
| "register_from ops done (a # as) w =
     (if action a = None then register_from ops (done @ [a]) as w
      else let (i, w) = op_register ops (period_us_of a) (action a) w;
               a = a\<lparr>ta_id := ucast i\<rparr>
           in if ta_id a = of_nat INVALID_ID
              then let (done, w) = unregister_all_timed_actions ops done w
                   in (done @ a # as, op_panic ops ''Failed to register timed action'' w)
              else register_from ops (done @ [a\<lparr>is_on := True\<rparr>]) as w)"

definition register_all_timed_actions ::
    "('cb, 'g, 'w) sm_ops \<Rightarrow> 'cb timed_action list \<Rightarrow> 'w \<Rightarrow> 'cb timed_action list \<times> 'w" where
  "register_all_timed_actions ops as w = register_from ops [] as w"

definition state_enter :: "('cb, 'g, 'w) sm_ops \<Rightarrow> ('cb, 'g) state \<Rightarrow> 'w \<Rightarrow> ('cb, 'g) state \<times> 'w" where
  "state_enter ops st w =
     (let w = run_actions ops (on_enter_actions st) w;
          (as, w) = register_all_timed_actions ops (cyclic_actions st) w
      in (st\<lparr>cyclic_actions := as\<rparr>, w))"

definition state_exit :: "('cb, 'g, 'w) sm_ops \<Rightarrow> ('cb, 'g) state \<Rightarrow> 'w \<Rightarrow> ('cb, 'g) state \<times> 'w" where
  "state_exit ops st w =
     (let (as, w) = unregister_all_timed_actions ops (cyclic_actions st) w
      in (st\<lparr>cyclic_actions := as\<rparr>, run_actions ops (on_exit_actions st) w))"

definition unregister_timed_action ::
    "('cb, 'g, 'w) sm_ops \<Rightarrow> 'cb timed_action \<Rightarrow> 'w \<Rightarrow> 'cb timed_action \<times> 'w" where
  "unregister_timed_action ops a w =
     (let (ok, w) = op_unregister ops (ucast (ta_id a)) w in (a\<lparr>is_on := False\<rparr>, w))"

text \<open>\<open>k\<close> is the index of the action the pointer names.\<close>

definition state_remove_cyclic_action ::
    "('cb, 'g, 'w) sm_ops \<Rightarrow> nat \<Rightarrow> ('cb, 'g) state \<Rightarrow> 'w \<Rightarrow> ('cb, 'g) state \<times> 'w" where
  "state_remove_cyclic_action ops k st w =
     (let a = cyclic_actions st ! k;
          (a, w) = (if is_on a then unregister_timed_action ops a w else (a, w))
      in (st\<lparr>cyclic_actions := (cyclic_actions st)[k := no_action]\<rparr>, w))"

section \<open>Machines\<close>

fun set_state :: "('cb, 'g) state \<Rightarrow> ('cb, 'g) machine \<Rightarrow> ('cb, 'g) machine" where
  "set_state st (Machine c ss ts as b ns) = Machine c (ss[c := st]) ts as b ns"

fun set_current :: "nat \<Rightarrow> ('cb, 'g) machine \<Rightarrow> ('cb, 'g) machine" where
  "set_current c' (Machine c ss ts as b ns) = Machine c' ss ts as b ns"

fun set_started :: "('cb, 'g) machine \<Rightarrow> ('cb, 'g) machine" where
  "set_started (Machine c ss ts as b ns) = Machine c ss ts as True ns"

fun set_nested :: "(nat \<times> ('cb, 'g) machine option) list \<Rightarrow> ('cb, 'g) machine \<Rightarrow> ('cb, 'g) machine" where
  "set_nested ns' (Machine c ss ts as b ns) = Machine c ss ts as b ns'"

definition machine_enter :: "('cb, 'g, 'w) sm_ops \<Rightarrow> ('cb, 'g) machine \<Rightarrow> 'w \<Rightarrow> ('cb, 'g) machine \<times> 'w" where
  "machine_enter ops m w =
     (let (st, w) = state_enter ops (states m ! current_state m) w in (set_state st m, w))"

definition machine_exit :: "('cb, 'g, 'w) sm_ops \<Rightarrow> ('cb, 'g) machine \<Rightarrow> 'w \<Rightarrow> ('cb, 'g) machine \<times> 'w" where
  "machine_exit ops m w =
     (let (st, w) = state_exit ops (states m ! current_state m) w in (set_state st m, w))"

text \<open>The folds over the bindings with \<open>||\<close>: the action runs on the first binding of the state
  that has a machine.\<close>

fun on_first :: "(nat \<Rightarrow> bool) \<Rightarrow> (('cb, 'g) machine \<Rightarrow> 'w \<Rightarrow> ('cb, 'g) machine \<times> 'w) \<Rightarrow>
    (nat \<times> ('cb, 'g) machine option) list \<Rightarrow> 'w \<Rightarrow> (nat \<times> ('cb, 'g) machine option) list \<times> 'w" where
  "on_first p f [] w = ([], w)"
| "on_first p f ((s, None) # ns) w = (let (ns, w) = on_first p f ns w in ((s, None) # ns, w))"
| "on_first p f ((s, Some m) # ns) w =
     (if p s then let (m, w) = f m w in ((s, Some m) # ns, w)
      else let (ns, w) = on_first p f ns w in ((s, Some m) # ns, w))"

definition nested_do :: "(('cb, 'g) machine \<Rightarrow> 'w \<Rightarrow> ('cb, 'g) machine \<times> 'w) \<Rightarrow>
    ('cb, 'g) machine \<Rightarrow> 'w \<Rightarrow> ('cb, 'g) machine \<times> 'w" where
  "nested_do f m w =
     (let (ns, w) = on_first (\<lambda>s. s = current_state m) f (nested_machines m) w in (set_nested ns m, w))"

definition refresh_state_orders :: "('cb, 'g, 'w) sm_ops \<Rightarrow> ('cb, 'g) machine \<Rightarrow> 'w \<Rightarrow> 'w" where
  "refresh_state_orders ops m w =
     (let ids = state_orders_ids (states m ! current_state m)
      in if length ids \<noteq> 0 then op_add_orders ops ids w else w)"

definition remove_state_orders :: "('cb, 'g, 'w) sm_ops \<Rightarrow> ('cb, 'g) machine \<Rightarrow> 'w \<Rightarrow> 'w" where
  "remove_state_orders ops m w =
     (let ids = state_orders_ids (states m ! current_state m)
      in if length ids \<noteq> 0 then op_remove_orders ops ids w else w)"

definition perform_state_change ::
    "('cb, 'g, 'w) sm_ops \<Rightarrow> nat \<Rightarrow> ('cb, 'g) machine \<Rightarrow> 'w \<Rightarrow> ('cb, 'g) machine \<times> 'w" where
  "perform_state_change ops new m w =
     (if current_state m = new then (m, w)
      else let (m, w) = machine_exit ops m w;
               (m, w) = nested_do (machine_exit ops) m w;
               w = remove_state_orders ops m w;
               m = set_current new m;
               (m, w) = machine_enter ops m w;
               (m, w) = nested_do (machine_enter ops) m w
           in (m, refresh_state_orders ops m w))"

text \<open>The guards are asked in order until one holds.\<close>

fun first_open :: "('cb, 'g, 'w) sm_ops \<Rightarrow> 'g transition list \<Rightarrow> 'w \<Rightarrow> nat option \<times> 'w" where
  "first_open ops [] w = (None, w)"
| "first_open ops (t # ts) w =
     (let (b, w) = op_ask ops (predicate t) w
      in if b then (Some (target t), w) else first_open ops ts w)"

definition own_transitions :: "('cb, 'g) machine \<Rightarrow> 'g transition list" where
  "own_transitions m = (let (i, n) = transitions_assoc m ! current_state m in take n (drop i (transitions m)))"

definition take_transition :: "('cb, 'g, 'w) sm_ops \<Rightarrow> ('cb, 'g) machine \<Rightarrow> 'w \<Rightarrow> ('cb, 'g) machine \<times> 'w" where
  "take_transition ops m w =
     (let (t, w) = first_open ops (own_transitions m) w
      in case t of None \<Rightarrow> (m, w) | Some new \<Rightarrow> perform_state_change ops new m w)"

definition force_change_state :: "('cb, 'g, 'w) sm_ops \<Rightarrow> nat \<Rightarrow> ('cb, 'g) machine \<Rightarrow> 'w \<Rightarrow> ('cb, 'g) machine \<times> 'w" where
  "force_change_state ops s m w = perform_state_change ops s m w"

subsection \<open>Recursion over the nested machines\<close>

text \<open>The number of machines in the tree, the measure of the recursions that enter nested
  machines: no operation on a state changes it.\<close>

fun nest :: "('cb, 'g) machine \<Rightarrow> nat" where
  "nest (Machine c ss ts as b ns) =
     Suc (sum_list (map (\<lambda>(s, mo). case mo of None \<Rightarrow> 0 | Some m \<Rightarrow> nest m) ns))"

lemma nest_set [simp]:
  "nest (set_state st m) = nest m" "nest (set_current c m) = nest m" "nest (set_started m) = nest m"
  by (cases m; simp)+

definition nests :: "(nat \<times> ('cb, 'g) machine option) list \<Rightarrow> nat" where
  "nests ns = sum_list (map (\<lambda>(s, mo). case mo of None \<Rightarrow> 0 | Some m \<Rightarrow> nest m) ns)"

lemma nests_simps [simp]:
  "nests [] = 0" "nests ((s, None) # ns) = nests ns" "nests ((s, Some m) # ns) = nest m + nests ns"
  by (simp_all add: nests_def)

lemma nest_eq: "nest m = Suc (nests (nested_machines m))"
  by (cases m) (simp add: nests_def)

lemma nest_set_nested: "nest (set_nested ns m) = Suc (nests ns)"
  by (cases m) (simp add: nests_def)

lemma nest_machine_enter [simp]: "nest (fst (machine_enter ops m w)) = nest m"
  by (simp add: machine_enter_def split_def Let_def)

lemma nest_machine_exit [simp]: "nest (fst (machine_exit ops m w)) = nest m"
  by (simp add: machine_exit_def split_def Let_def)

lemma nests_on_first:
  assumes "\<And>m w. nest (fst (f m w)) = nest m"
  shows "nests (fst (on_first p f ns w)) = nests ns"
  using assms by (induction p f ns w rule: on_first.induct) (simp_all add: split_def Let_def)

lemma nest_nested_do:
  assumes "\<And>m w. nest (fst (f m w)) = nest m"
  shows "nest (fst (nested_do f m w)) = nest m"
  by (simp add: nested_do_def split_def Let_def nest_set_nested nests_on_first [OF assms] nest_eq [of m])

lemma nest_perform_state_change [simp]: "nest (fst (perform_state_change ops new m w)) = nest m"
  by (simp add: perform_state_change_def split_def Let_def nest_nested_do)

lemma nest_take_transition [simp]: "nest (fst (take_transition ops m w)) = nest m"
  by (simp add: take_transition_def split_def Let_def split: option.split)

lemma nests_member: "(s, Some m) \<in> set ns \<Longrightarrow> nest m \<le> nests ns"
proof (induction ns)
  case (Cons x ns)
  then show ?case by (cases x; cases "snd x") auto
qed simp

lemma nest_nested_less: "(s, Some m') \<in> set (nested_machines m) \<Longrightarrow> nest m' < nest m"
  using nests_member by (fastforce simp: nest_eq [of m])

lemma on_first_cong:
  assumes "\<And>s m w. (s, Some m) \<in> set ns \<Longrightarrow> f m w = g m w"
  shows "on_first p f ns w = on_first p g ns w"
  using assms
proof (induction p f ns w rule: on_first.induct)
  case (3 p f s m ns w)
  then have "f m w = g m w" "\<not> p s \<Longrightarrow> on_first p f ns w = on_first p g ns w" by auto
  then show ?case by simp
qed auto

lemma nested_do_cong [fundef_cong]:
  assumes "m = m'" and "w = w'" and "\<And>s k v. (s, Some k) \<in> set (nested_machines m') \<Longrightarrow> f k v = g k v"
  shows "nested_do f m w = nested_do g m' w'"
  unfolding nested_do_def assms(1,2)
  by (subst on_first_cong [of _ f g]) (use assms(3) in auto)

function check_transitions :: "('cb, 'g, 'w) sm_ops \<Rightarrow> ('cb, 'g) machine \<Rightarrow> 'w \<Rightarrow> ('cb, 'g) machine \<times> 'w" where
  "check_transitions ops m w =
     (if \<not> called_start m
      then (m, op_panic ops ''Error: check_transitions called before StateMachine.start()'' w)
      else let mw = take_transition ops m w
           in nested_do (check_transitions ops) (fst mw) (snd mw))"
  by pat_completeness auto
termination
  by (relation "measure (\<lambda>(ops, m, w). nest m)") (auto dest: nest_nested_less)

text \<open>\<open>start\<close> enters the current state, starts the machine nested in it, and then marks as started
  the first nested machine there is: the fold with \<open>||\<close> stops at the first one.\<close>

function start :: "('cb, 'g, 'w) sm_ops \<Rightarrow> ('cb, 'g) machine \<Rightarrow> 'w \<Rightarrow> ('cb, 'g) machine \<times> 'w" where
  "start ops m w =
     (let mw = machine_enter ops (set_started m) w;
          mw = nested_do (start ops) (fst mw) (snd mw);
          (ns, u) = on_first (\<lambda>s. True) (\<lambda>k w. (set_started k, w)) (nested_machines (fst mw)) ()
      in (set_nested ns (fst mw), snd mw))"
  by pat_completeness auto
termination
  by (relation "measure (\<lambda>(ops, m, w). nest m)") (auto dest: nest_nested_less)

declare check_transitions.simps [simp del] start.simps [simp del]

section \<open>Construction\<close>

text \<open>One inner pass of the sort, and as many passes as there are states.\<close>

fun bubble_pass :: "('cb, 'g) state list \<Rightarrow> ('cb, 'g) state list" where
  "bubble_pass (x # y # xs) =
     (if state_id x > state_id y then y # bubble_pass (x # xs) else x # bubble_pass (y # xs))"
| "bubble_pass [] = []"
| "bubble_pass [x] = [x]"

fun bubble_sort :: "nat \<Rightarrow> ('cb, 'g) state list \<Rightarrow> ('cb, 'g) state list" where
  "bubble_sort 0 xs = xs"
| "bubble_sort (Suc n) xs = bubble_sort n (bubble_pass xs)"

text \<open>\<open>process_state\<close>: the transitions of a state are appended and their place is noted.\<close>

definition process_state ::
    "('cb, 'g) state \<Rightarrow> nat \<Rightarrow> 'g transition list \<times> (nat \<times> nat) list \<Rightarrow> 'g transition list \<times> (nat \<times> nat) list" where
  "process_state st offset acc =
     (let ts = state_transitions st; offset = offset + length ts
      in (fst acc @ ts, (snd acc)[state_id st := (offset - length ts, length ts)]))"

fun process_states ::
    "('cb, 'g) state list \<Rightarrow> nat \<Rightarrow> 'g transition list \<times> (nat \<times> nat) list \<Rightarrow> 'g transition list \<times> (nat \<times> nat) list" where
  "process_states [] offset acc = acc"
| "process_states (st # ss) offset acc =
     process_states ss (offset + length (state_transitions st)) (process_state st offset acc)"

definition duplicate_ids :: "('cb, 'g) state list \<Rightarrow> bool" where
  "duplicate_ids ss \<longleftrightarrow> list_ex (\<lambda>i. list_ex (\<lambda>j. state_id (ss ! i) = state_id (ss ! j))
     [i + 1 ..< length ss]) [0 ..< length ss - 1]"

definition not_contiguous :: "('cb, 'g) state list \<Rightarrow> bool" where
  "not_contiguous ss \<longleftrightarrow> list_ex (\<lambda>i. state_id (ss ! i) \<noteq> i) [0 ..< length ss]"

definition make_state_machine ::
    "nat \<Rightarrow> (nat \<times> ('cb, 'g) machine option) list \<Rightarrow> ('cb, 'g) state list \<Rightarrow> string + ('cb, 'g) machine" where
  "make_state_machine initial ns input =
     (let ss = bubble_sort (length input) input
      in if duplicate_ids ss then Inl ''Duplicate state found in StateMachine constructor''
         else if not_contiguous ss then Inl ''States Enum must be contiguous and start from 0''
         else let (ts, assoc) = process_states ss 0 ([], replicate (length ss) (0, 0))
              in Inr (Machine initial ss ts assoc False ns))"

definition add_nested_machines ::
    "(nat \<times> ('cb, 'g) machine option) list \<Rightarrow> string + (nat \<times> ('cb, 'g) machine option) list" where
  "add_nested_machines bindings =
     (if list_ex (\<lambda>i. list_ex (\<lambda>j. fst (bindings ! i) = fst (bindings ! j)) [i + 1 ..< length bindings])
           [0 ..< length bindings]
      then Inl ''Duplicate state found in add_nested_machines'' else Inr bindings)"

text \<open>The operations that look a state up by its number.\<close>

fun find_state :: "nat \<Rightarrow> ('cb, 'g) state list \<Rightarrow> nat option" where
  "find_state s [] = None"
| "find_state s (st # ss) = (if state_id st = s then Some 0 else map_option Suc (find_state s ss))"

definition not_added :: string where
  "not_added = ''Error: The state is not added to the state machine''"

fun update_state :: "nat \<Rightarrow> (('cb, 'g) state \<Rightarrow> string + ('cb, 'g) state) \<Rightarrow> ('cb, 'g) machine
    \<Rightarrow> string + ('cb, 'g) machine" where
  "update_state s f (Machine c ss ts as b ns) =
     (case find_state s ss of
        None \<Rightarrow> Inl not_added
      | Some i \<Rightarrow> map_sum id (\<lambda>st. Machine c (ss[i := st]) ts as b ns) (f (ss ! i)))"

definition add_enter_action :: "'cb option \<Rightarrow> nat \<Rightarrow> ('cb, 'g) machine \<Rightarrow> string + ('cb, 'g) machine" where
  "add_enter_action f s m = update_state s (state_add_enter_action f) m"

definition add_exit_action :: "'cb option \<Rightarrow> nat \<Rightarrow> ('cb, 'g) machine \<Rightarrow> string + ('cb, 'g) machine" where
  "add_exit_action f s m = update_state s (state_add_exit_action f) m"

definition add_cyclic_action ::
    "'cb option \<Rightarrow> AlarmType \<Rightarrow> u32 \<Rightarrow> nat \<Rightarrow> ('cb, 'g) machine \<Rightarrow> string + ('cb, 'g) machine" where
  "add_cyclic_action f unit p s m = update_state s (\<lambda>st. map_sum id snd (state_add_cyclic_action f unit p st)) m"

fun remove_cyclic_action ::
    "('cb, 'g, 'w) sm_ops \<Rightarrow> nat \<Rightarrow> nat \<Rightarrow> ('cb, 'g) machine \<Rightarrow> 'w \<Rightarrow> ('cb, 'g) machine \<times> 'w" where
  "remove_cyclic_action ops k s (Machine c ss ts as b ns) w =
     (case find_state s ss of
        None \<Rightarrow> (Machine c ss ts as b ns, op_panic ops not_added w)
      | Some i \<Rightarrow> let (st, w) = state_remove_cyclic_action ops k (ss ! i) w
                  in (Machine c (ss[i := st]) ts as b ns, w))"

section \<open>The timed actions and the scheduler\<close>

text \<open>The identifiers of the timed actions that are on; no action on; every action on that has a
  callback.\<close>

definition on_ids :: "'cb timed_action list \<Rightarrow> u16 list" where
  "on_ids as = map (\<lambda>a. ucast (ta_id a)) (filter is_on as)"

definition idle :: "'cb timed_action list \<Rightarrow> bool" where
  "idle as \<longleftrightarrow> list_all (\<lambda>a. \<not> is_on a) as"


text \<open>A machine all of whose states but the current one have their actions off.\<close>

definition tidy :: "('cb, 'g) machine \<Rightarrow> bool" where
  "tidy m \<longleftrightarrow> current_state m < length (states m) \<and>
     list_all (\<lambda>i. i \<noteq> current_state m \<longrightarrow> idle (cyclic_actions (states m ! i))) [0 ..< length (states m)]"

definition current_actions :: "('cb, 'g) machine \<Rightarrow> 'cb timed_action list" where
  "current_actions m = cyclic_actions (states m ! current_state m)"

lemma machine_set_simps [simp]:
  "current_state (set_state st m) = current_state m" "states (set_state st m) = (states m)[current_state m := st]"
  "transitions (set_state st m) = transitions m" "transitions_assoc (set_state st m) = transitions_assoc m"
  "called_start (set_state st m) = called_start m" "nested_machines (set_state st m) = nested_machines m"
  "current_state (set_current c m) = c" "states (set_current c m) = states m"
  "transitions (set_current c m) = transitions m" "transitions_assoc (set_current c m) = transitions_assoc m"
  "called_start (set_current c m) = called_start m" "nested_machines (set_current c m) = nested_machines m"
  "current_state (set_nested ns m) = current_state m" "states (set_nested ns m) = states m"
  "transitions (set_nested ns m) = transitions m" "transitions_assoc (set_nested ns m) = transitions_assoc m"
  "called_start (set_nested ns m) = called_start m" "nested_machines (set_nested ns m) = ns"
  "current_state (set_started m) = current_state m" "states (set_started m) = states m"
  "called_start (set_started m)" "nested_machines (set_started m) = nested_machines m"
  by (cases m; simp)+

lemma set_nested_same [simp]: "set_nested (nested_machines m) m = m"
  by (cases m) simp

lemma nested_do_none: "nested_machines m = [] \<Longrightarrow> nested_do f m w = (m, w)"
  by (cases m) (simp add: nested_do_def)

lemma on_ids_simps [simp]:
  "on_ids [] = []" "on_ids (a # as) = (if is_on a then ucast (ta_id a) # on_ids as else on_ids as)"
  "on_ids (as @ bs) = on_ids as @ on_ids bs"
  by (simp_all add: on_ids_def)


lemma off_map_on_ids [simp]: "on_ids (map (\<lambda>a. a\<lparr>is_on := False\<rparr>) as) = []"
  by (induction as) simp_all

lemma off_map_idle [simp]: "idle (map (\<lambda>a. a\<lparr>is_on := False\<rparr>) as)"
  by (simp add: idle_def list_all_iff)



section \<open>The scheduler as the registry\<close>

text \<open>The environment of a machine on the model's scheduler: a log of what was called, and the
  scheduler's state. \<open>ask\<close> is the value of a guard.\<close>

datatype 'cb sm_event = Ran 'cb | Panicked string | AddedOrders "u16 list" | RemovedOrders "u16 list"

definition sched_ops :: "('g \<Rightarrow> bool) \<Rightarrow> ('cb, 'g, 'cb sm_event list \<times> 'cb sched) sm_ops" where
  "sched_ops ask =
     \<lparr>op_run = (\<lambda>c (l, s). (l @ [Ran c], s)),
      op_ask = (\<lambda>g w. (ask g, w)),
      op_register = (\<lambda>p f (l, s). let (i, s) = register_task p f s in (i, (l, s))),
      op_unregister = (\<lambda>i (l, s). let (b, s) = unregister_task i s in (b, (l, s))),
      op_panic = (\<lambda>msg (l, s). (l @ [Panicked msg], s)),
      op_add_orders = (\<lambda>ids (l, s). (l @ [AddedOrders ids], s)),
      op_remove_orders = (\<lambda>ids (l, s). (l @ [RemovedOrders ids], s))\<rparr>"










section \<open>Properties\<close>











lemma sched_panic: "op_panic (sched_ops ask) msg (l, s) = (l @ [Panicked msg], s)"
  by (simp add: sched_ops_def)

lemma first_open_sched: "first_open (sched_ops ask) ts w =
    (map_option target (find (\<lambda>t. ask (predicate t)) ts), w)"
  by (induction ts) (simp_all add: sched_ops_def)

text \<open>\<open>check_transitions\<close> before \<open>start\<close> panics and changes nothing; after it, it takes the
  first transition of the current state, in the order of declaration, whose guard holds, and only
  that one; if none holds nothing happens.\<close>

theorem check_transitions_first_open:
  assumes "nested_machines m = []"
  shows "check_transitions (sched_ops ask) m (l, s) =
    (if \<not> called_start m
     then (m, (l @ [Panicked ''Error: check_transitions called before StateMachine.start()''], s))
     else case find (\<lambda>t. ask (predicate t)) (own_transitions m) of
       None \<Rightarrow> (m, (l, s))
     | Some t \<Rightarrow> perform_state_change (sched_ops ask) (target t) m (l, s))"
proof -
  have "nested_machines (fst (take_transition (sched_ops ask) m (l, s))) = []"
    using assms by (simp add: take_transition_def perform_state_change_def machine_exit_def
        machine_enter_def nested_do_def split_def Let_def split: option.split)
  then show ?thesis
    by (subst check_transitions.simps)
      (auto simp: nested_do_none take_transition_def first_open_sched Let_def sched_panic split: option.split)
qed

lemma mset_bubble_pass: "mset (bubble_pass xs) = mset xs"
  by (induction xs rule: bubble_pass.induct) (auto simp: add_mset_commute)

lemma mset_bubble_sort: "mset (bubble_sort n xs) = mset xs"
  by (induction n arbitrary: xs) (simp_all add: mset_bubble_pass)

definition by_id :: "('cb, 'g) state list \<Rightarrow> bool" where
  "by_id ss \<longleftrightarrow> sorted (map state_id ss)"

lemma bubble_pass_sorted: "by_id ys \<Longrightarrow> bubble_pass ys = ys"
  by (induction ys rule: bubble_pass.induct) (auto simp: by_id_def)

lemma bubble_pass_max:
  "xs \<noteq> [] \<Longrightarrow> \<exists>zs z. bubble_pass xs = zs @ [z] \<and> (\<forall>x \<in> set zs. state_id x \<le> state_id z)"
proof (induction xs rule: bubble_pass.induct)
  case (1 x y xs)
  show ?case
  proof (cases "state_id x > state_id y")
    case True
    then obtain zs z where z: "bubble_pass (x # xs) = zs @ [z]" "\<forall>x \<in> set zs. state_id x \<le> state_id z"
      using 1 by blast
    then have "x \<in> set (zs @ [z])" using mset_bubble_pass [of "x # xs"] by (metis list.set_intros(1) set_mset_mset)
    then have "state_id x \<le> state_id z" using z(2) by auto
    then have "\<forall>u \<in> set (y # zs). state_id u \<le> state_id z" using True z(2) by auto
    then show ?thesis using True z(1) by (intro exI [of _ "y # zs"] exI [of _ z]) simp
  next
    case False
    then obtain zs z where z: "bubble_pass (y # xs) = zs @ [z]" "\<forall>x \<in> set zs. state_id x \<le> state_id z"
      using 1 by blast
    then have "y \<in> set (zs @ [z])" using mset_bubble_pass [of "y # xs"] by (metis list.set_intros(1) set_mset_mset)
    then have "state_id y \<le> state_id z" using z(2) by auto
    then have "\<forall>u \<in> set (x # zs). state_id u \<le> state_id z" using False z(2) by auto
    then show ?thesis using False z(1) by (intro exI [of _ "x # zs"] exI [of _ z]) simp
  qed
next
  case (3 x)
  then show ?case by (intro exI [of _ "[]"] exI [of _ x]) simp
qed simp

lemma bubble_pass_append:
  "by_id ys \<Longrightarrow> (\<And>x y. x \<in> set xs \<Longrightarrow> y \<in> set ys \<Longrightarrow> state_id x \<le> state_id y) \<Longrightarrow>
    bubble_pass (xs @ ys) = bubble_pass xs @ ys"
proof (induction xs rule: bubble_pass.induct)
  case 2
  then show ?case by (simp add: bubble_pass_sorted)
next
  case (3 x)
  then have "by_id (x # ys)" by (simp add: by_id_def)
  then show ?case using bubble_pass_sorted [of "x # ys"] by simp
qed auto

lemma bubble_sort_sorts_from:
  "by_id ys \<Longrightarrow> (\<And>x y. x \<in> set xs \<Longrightarrow> y \<in> set ys \<Longrightarrow> state_id x \<le> state_id y) \<Longrightarrow>
    length xs \<le> n \<Longrightarrow> by_id (bubble_sort n (xs @ ys))"
proof (induction n arbitrary: xs ys)
  case (Suc n)
  show ?case
  proof (cases "xs = []")
    case True
    with Suc.IH [of ys "[]"] Suc.prems(1) show ?thesis by (simp add: bubble_pass_sorted)
  next
    case False
    then obtain zs z where z: "bubble_pass xs = zs @ [z]" "\<forall>x \<in> set zs. state_id x \<le> state_id z"
      using bubble_pass_max by blast
    have m: "set (zs @ [z]) = set xs" "length (zs @ [z]) = length xs"
      using mset_bubble_pass [of xs] z(1) by (metis set_mset_mset, metis size_mset)
    have z': "z \<in> set xs" using m(1) by auto
    have "by_id (z # ys)" using Suc.prems(1,2) z' by (auto simp: by_id_def)
    moreover have "state_id x \<le> state_id y" if "x \<in> set zs" "y \<in> set (z # ys)" for x y
      using that z(2) Suc.prems(2) m(1) by auto
    moreover have "length zs \<le> n" using m(2) Suc.prems(3) by simp
    ultimately have "by_id (bubble_sort n (zs @ z # ys))" by (rule Suc.IH)
    then show ?thesis using bubble_pass_append [OF Suc.prems(1,2)] z(1) by simp
  qed
qed simp

lemma bubble_sort_sorts: "by_id (bubble_sort (length xs) xs)"
  using bubble_sort_sorts_from [of "[]" xs "length xs"] by (simp add: by_id_def)

lemma process_states_spec:
  "offset = length ts \<Longrightarrow> map state_id ss = [k ..< k + length ss] \<Longrightarrow> k + length ss \<le> length as \<Longrightarrow>
    \<exists>as'. process_states ss offset (ts, as) = (ts @ concat (map state_transitions ss), as') \<and>
      length as' = length as \<and> take k as' = take k as \<and>
      (\<forall>i < length ss. as' ! (k + i) =
        (length ts + length (concat (map state_transitions (take i ss))), length (state_transitions (ss ! i))))"
proof (induction ss arbitrary: offset ts as k)
  case (Cons st ss)
  let ?ts = "ts @ state_transitions st"
  let ?as = "as[k := (length ts, length (state_transitions st))]"
  have k: "state_id st = k" "map state_id ss = [Suc k ..< Suc k + length ss]"
    using Cons.prems(2) by (simp_all add: upt_rec)
  have "process_states (st # ss) offset (ts, as) = process_states ss (length ?ts) (?ts, ?as)"
    using Cons.prems(1) k(1) by (simp add: process_state_def Let_def)
  moreover obtain as' where as': "process_states ss (length ?ts) (?ts, ?as) =
      (?ts @ concat (map state_transitions ss), as')" "length as' = length ?as"
      "take (Suc k) as' = take (Suc k) ?as"
      "\<forall>i < length ss. as' ! (Suc k + i) = (length ?ts + length (concat (map state_transitions (take i ss))),
         length (state_transitions (ss ! i)))"
    using Cons.IH [OF refl k(2), of ?as ?ts] Cons.prems(3) by auto
  moreover have "take k as' = take k as"
    using arg_cong [OF as'(3), of "take k"] by (simp add: min_def)
  moreover have "as' ! k = ?as ! k"
    using arg_cong [OF as'(3), of "\<lambda>xs. xs ! k"] by simp
  moreover have "as' ! (k + i) = (length ts + length (concat (map state_transitions (take i (st # ss)))),
      length (state_transitions ((st # ss) ! i)))" if "i < length (st # ss)" for i
    using that as'(4) \<open>as' ! k = ?as ! k\<close> Cons.prems(3) by (cases i) auto
  ultimately show ?case by (intro exI [of _ as']) simp
qed simp

lemma concat_slice:
  "i < length xss \<Longrightarrow> take (length (xss ! i)) (drop (length (concat (take i xss))) (concat xss)) = xss ! i"
proof -
  assume i: "i < length xss"
  then have "concat xss = concat (take i xss) @ xss ! i @ concat (drop (Suc i) xss)"
    by (metis concat.simps(2) concat_append id_take_nth_drop)
  then show ?thesis by simp
qed

text \<open>The constructor accepts exactly the lists of states whose numbers are \<open>0, ..., n - 1\<close> in
  some order; the machine then has the same states sorted by number (the bubble sort), and the slice
  of the joint transition table noted for each state is that state's own list of transitions.\<close>

theorem constructor_builds:
  "case make_state_machine c ns input of
     Inl msg \<Rightarrow> mset (map state_id input) \<noteq> mset [0 ..< length input]
   | Inr m \<Rightarrow> mset (map state_id input) = mset [0 ..< length input] \<and> mset (states m) = mset input \<and>
       map state_id (states m) = [0 ..< length input] \<and>
       map (\<lambda>i. own_transitions (set_current i m)) [0 ..< length input] = map state_transitions (states m) \<and>
       current_state m = c \<and> \<not> called_start m \<and> nested_machines m = ns"
proof -
  let ?ss = "bubble_sort (length input) input" and ?n = "length input"
  have ms: "mset ?ss = mset input" by (rule mset_bubble_sort)
  then have len: "length ?ss = ?n" by (metis size_mset)
  have ids: "mset (map state_id ?ss) = mset (map state_id input)" by (simp add: ms)
  have sorted: "sorted (map state_id ?ss)" using bubble_sort_sorts [of input] by (simp add: by_id_def)
  show ?thesis
  proof (cases "map state_id ?ss = [0 ..< ?n]")
    case False
    have "mset (map state_id input) \<noteq> mset [0 ..< ?n]"
    proof
      assume "mset (map state_id input) = mset [0 ..< ?n]"
      then have "mset (map state_id ?ss) = mset [0 ..< ?n]" using ids by simp
      then have "sort [0 ..< ?n] = map state_id ?ss" using sorted by (rule properties_for_sort)
      moreover have "sort [0 ..< ?n] = [0 ..< ?n]" by (rule sorted_sort_id) simp
      ultimately have "map state_id ?ss = [0 ..< ?n]" by (simp only:)
      with False show False by contradiction
    qed
    moreover have "not_contiguous ?ss"
    proof (rule ccontr)
      assume "\<not> not_contiguous ?ss"
      then have "map state_id ?ss = [0 ..< ?n]"
        using len by (intro nth_equalityI) (auto simp: not_contiguous_def list_ex_iff)
      with False show False by contradiction
    qed
    ultimately show ?thesis by (simp add: make_state_machine_def Let_def)
  next
    case True
    have nth: "state_id (?ss ! i) = i" if "i < ?n" for i
      using arg_cong [OF True, of "\<lambda>xs. xs ! i"] that len by simp
    have ok: "\<not> duplicate_ids ?ss" "\<not> not_contiguous ?ss"
      using nth len by (auto simp: duplicate_ids_def not_contiguous_def list_ex_iff)
    obtain as where as: "process_states ?ss 0 ([], replicate ?n (0, 0)) = (concat (map state_transitions ?ss), as)"
        "\<And>i. i < ?n \<Longrightarrow> as ! i = (length (concat (map state_transitions (take i ?ss))),
          length (state_transitions (?ss ! i)))"
      using process_states_spec [of 0 "[]" ?ss 0 "replicate ?n (0, 0)"] True len by auto
    have m: "make_state_machine c ns input = Inr (Machine c ?ss (concat (map state_transitions ?ss)) as False ns)"
      using ok as(1) len by (simp add: make_state_machine_def Let_def)
    have "own_transitions (set_current i (Machine c ?ss (concat (map state_transitions ?ss)) as False ns)) =
        state_transitions (?ss ! i)" if "i < ?n" for i
      using concat_slice [of i "map state_transitions ?ss"] that len as(2) [OF that]
      by (simp add: own_transitions_def take_map)
    then have "map (\<lambda>i. own_transitions (set_current i (Machine c ?ss (concat (map state_transitions ?ss)) as False ns)))
        [0 ..< ?n] = map state_transitions ?ss"
      using len by (intro nth_equalityI) simp_all
    then show ?thesis using m ms True ids by simp
  qed
qed

text \<open>Of two machines nested in different states only the first is ever marked as started by
  \<open>start\<close> (the fold stops at the first binding): the second stays as it was, and when its state is
  entered later its \<open>check_transitions\<close> panics.\<close>

theorem second_nested_never_started:
  assumes "nested_machines m = [(a, Some k1), (b, Some k2)]" and "current_state m \<noteq> b"
    and "\<not> called_start k2" and "start ops m w = (m', w')"
  shows "\<exists>k1'. nested_machines m' = [(a, Some k1'), (b, Some k2)] \<and> called_start k1' \<and>
    called_start m' \<and>
    check_transitions ops k2 v = (k2, op_panic ops ''Error: check_transitions called before StateMachine.start()'' v)"
proof -
  obtain m1 w1 where e: "machine_enter ops (set_started m) w = (m1, w1)" by fastforce
  have m1: "nested_machines m1 = [(a, Some k1), (b, Some k2)]" "current_state m1 = current_state m" "called_start m1"
    using e assms(1) by (auto simp: machine_enter_def split_def Let_def)
  obtain k w2 where n: "nested_do (start ops) m1 w1 = (set_nested [(a, Some k), (b, Some k2)] m1, w2)"
    using assms(2) m1 by (cases "a = current_state m") (auto simp: nested_do_def split_def Let_def)
  have "m' = set_nested [(a, Some (set_started k)), (b, Some k2)] m1"
    using assms(4) e n by (subst (asm) start.simps) (cases m1, simp add: Let_def)
  moreover have "check_transitions ops k2 v =
      (k2, op_panic ops ''Error: check_transitions called before StateMachine.start()'' v)"
    using assms(3) by (subst check_transitions.simps) simp
  ultimately show ?thesis using m1(3) by simp
qed

text \<open>Two states with a timed action each, for the witnesses.\<close>

definition demo_action :: "nat timed_action" where
  "demo_action = no_action\<lparr>action := Some 7, period := 2\<rparr>"

definition demo_state :: "nat \<Rightarrow> (nat, nat) state" where
  "demo_state i = \<lparr>state_id = i, cyclic_actions = [demo_action], on_enter_actions = [Some 1],
     on_exit_actions = [Some 2, None], state_transitions = [], state_orders_ids = []\<rparr>"

definition demo_machine :: "(nat, nat) machine" where
  "demo_machine = Machine 0 [demo_state 0, demo_state 1] [\<lparr>target = 1, predicate = 5\<rparr>] [(0, 1), (1, 0)] True []"

lemma demo_machine_facts:
  "tidy demo_machine" "current_state demo_machine = 0" "length (states demo_machine) = 2"
  "nested_machines demo_machine = []" "idle (current_actions demo_machine)"
  by (simp_all add: demo_machine_def tidy_def demo_state_def idle_def demo_action_def no_action_def
      current_actions_def upt_rec)



theorem check_transitions_first_open_witness:
  "check_transitions (sched_ops (\<lambda>g. g = 5)) demo_machine ([], init_sched) =
    perform_state_change (sched_ops (\<lambda>g. g = 5)) 1 demo_machine ([], init_sched)"
  using check_transitions_first_open [OF demo_machine_facts(4), of "\<lambda>g. g = 5" "[]" init_sched]
  by (simp add: demo_machine_def own_transitions_def)

definition demo_nested :: "(nat, nat) machine" where
  "demo_nested = Machine 0 [demo_state 0, demo_state 1] [] [(0, 0), (0, 0)] False
     [(0, Some (Machine 0 [demo_state 0] [] [(0, 0)] False [])), (1, Some (Machine 0 [demo_state 0] [] [(0, 0)] False []))]"

theorem second_nested_never_started_witness:
  "\<exists>k1. nested_machines (fst (start (sched_ops (\<lambda>g. g = 5)) demo_nested ([], init_sched))) =
    [(0, Some k1), (1, Some (Machine 0 [demo_state 0] [] [(0, 0)] False []))] \<and> called_start k1"
proof -
  let ?k = "Machine 0 [demo_state 0] [] [(0, 0)] False [] :: (nat, nat) machine"
  have n: "nested_machines demo_nested = [(0, Some ?k), (1, Some ?k)]" by (simp add: demo_nested_def)
  have c: "current_state demo_nested \<noteq> 1" by (simp add: demo_nested_def)
  show ?thesis
    using second_nested_never_started [OF n c _ surjective_pairing, of "sched_ops (\<lambda>g. g = 5)" "([], init_sched)"]
    by auto
qed

text \<open>The period of a timed action in milliseconds is converted in 32 bits.\<close>

lemma period_wraps: "unat (period_us_of a) =
    (case alarm_precision a of Milliseconds \<Rightarrow> unat (period a) * 1000 mod 2 ^ 32 | Microseconds \<Rightarrow> unat (period a))"
  by (cases "alarm_precision a") (simp_all add: period_us_of_def unat_word_ariths)

end
