(* ===== verification/Fault.thy ===== *)
theory Fault
  imports StateMachine Diagnostics
begin

unbundle bit_operations_syntax

text \<open>
  The fault runtime: the controller of \<open>FaultController.cpp\<close> with its global machine of the two states
  \<open>OPERATIONAL\<close> and \<open>FAULT\<close>, the latched cause, the propagation of a fault to other boards, the
  reporters of \<open>ErrorHandler.cpp\<close> and \<open>InfoWarning.cpp\<close>, and the engine that evaluates the
  protections of a board and asks for a fault (\<open>ProtectionEngine.hpp\<close>).

  The controller's static variables, with the diagnostics hub it publishes to, are the record
  \<open>fault_ctl\<close>. The machine is a machine of the state machine library; the one the application
  nests in \<open>OPERATIONAL\<close> is part of it and keeps its own state when the controller builds the
  global machine again. The rest of the board is a world \<open>'w\<close>, acted on by \<open>fault_ops\<close>: the user's
  callbacks and guards and the scheduler (\<open>fo_sm\<close>), the sinks and the clock (\<open>fo_diag\<close>), and the
  sending of an order to a peer (\<open>fo_send\<close>). A callback that itself asks for a fault is not
  modelled.
\<close>

section \<open>Causes\<close>

datatype FaultCauseKind = PANIC | CAUSE_RUNTIME_FAULT | PROTECTION

record FaultRuntimePayload =
  frp_line :: u32
  frp_truncated :: bool
  frp_message :: string
  frp_function_name :: string
  frp_file_name :: string

record FaultProtectionPayload =
  fpp_edge :: RuleEdge
  fpp_snapshot :: RuleSnapshot

record FaultCause =
  fc_kind :: FaultCauseKind
  fc_origin :: string
  fc_runtime :: FaultRuntimePayload
  fc_protection_event :: FaultProtectionPayload

definition init_cause :: FaultCause where
  "init_cause = \<lparr>fc_kind = PANIC, fc_origin = [],
     fc_runtime = \<lparr>frp_line = 0, frp_truncated = False, frp_message = [], frp_function_name = [], frp_file_name = []\<rparr>,
     fc_protection_event = \<lparr>fpp_edge = NO_EDGE, fpp_snapshot = init_snapshot\<rparr>\<rparr>"

definition runtime_cause :: "FaultCauseKind \<Rightarrow> string \<Rightarrow> string option \<Rightarrow> bool \<Rightarrow> int \<Rightarrow> string option
    \<Rightarrow> string option \<Rightarrow> FaultCause" where
  "runtime_cause kind orig message shortened line func file =
     (let (msg, cutoff) = copy_c_string (runtime_message_capacity + 1) message shortened
      in init_cause\<lparr>fc_kind := kind,
           fc_origin := fst (copy_c_string (origin_capacity + 1) (Some orig) False),
           fc_runtime := \<lparr>frp_line = source_line line, frp_truncated = cutoff, frp_message = msg,
             frp_function_name = fst (copy_c_string (function_capacity + 1) func False),
             frp_file_name = fst (copy_c_string (file_capacity + 1) file False)\<rparr>\<rparr>)"

definition cause_panic :: "string option \<Rightarrow> bool \<Rightarrow> int \<Rightarrow> string option \<Rightarrow> string option \<Rightarrow> FaultCause" where
  "cause_panic = runtime_cause PANIC ''runtime_panic''"

definition cause_runtime_fault :: "string option \<Rightarrow> bool \<Rightarrow> int \<Rightarrow> string option \<Rightarrow> string option \<Rightarrow> FaultCause" where
  "cause_runtime_fault = runtime_cause CAUSE_RUNTIME_FAULT ''runtime_fault''"

definition cause_protection :: "string option \<Rightarrow> RuleEdge \<Rightarrow> RuleSnapshot \<Rightarrow> FaultCause" where
  "cause_protection name edge snap =
     init_cause\<lparr>fc_kind := PROTECTION, fc_origin := fst (copy_c_string (origin_capacity + 1) name False),
       fc_protection_event := \<lparr>fpp_edge = edge, fpp_snapshot = snap\<rparr>\<rparr>"

definition to_record :: "('w \<Rightarrow> Timestamp \<times> 'w) \<Rightarrow> FaultCause \<Rightarrow> 'w \<Rightarrow> DiagnosticRecord \<times> 'w" where
  "to_record time c w =
     (let p = fc_runtime c;
          md = \<lparr>md_line = sint (frp_line p), md_function_name = Some (frp_function_name p),
                md_file_name = Some (frp_file_name p)\<rparr>
      in case fc_kind c of
           PANIC \<Rightarrow> record_runtime_panic time (Some (frp_message p)) (frp_truncated p) md URGENT w
         | CAUSE_RUNTIME_FAULT \<Rightarrow> record_runtime_fault time (Some (frp_message p)) (frp_truncated p) md URGENT w
         | PROTECTION \<Rightarrow> record_protection_event time (Some (fc_origin c)) FAULT
             (fpp_edge (fc_protection_event c)) (fpp_snapshot (fc_protection_event c)) URGENT w)"

section \<open>The controller's state\<close>

definition OPERATIONAL :: nat where "OPERATIONAL = 0"
definition FAULT_STATE :: nat where "FAULT_STATE = 1"
definition max_propagation_targets :: nat where "max_propagation_targets = 8"
definition propagation_retry_period_us :: u64 where "propagation_retry_period_us = 100000"

text \<open>The callbacks of the machines: those of the user, and \<open>FaultController::on_fault_state_enter\<close>.\<close>

datatype 'cb callback = User 'cb | OnFaultStateEnter

text \<open>A fault policy: the operational machine, if there is one, and the callback for a fault.\<close>

record ('cb, 'g) policy =
  operational_machine :: "('cb callback, 'g) machine option"
  pol_on_fault_enter :: "'cb option"

record ('k, 'o) FaultPropagationTarget =
  tg_socket :: 'k
  tg_fault_order :: 'o
  tg_pending :: bool

text \<open>\<open>global_machine\<close> is \<open>runtime_storage.machine\<close>; \<open>rebuild_as_fault\<close>, where set, is the function
  that builds the machine of the policy again, and holds that policy's callback.\<close>

record ('cb, 'g, 's, 'k, 'o) fault_ctl =
  global_machine :: "('cb callback, 'g) machine option"
  rebuild_as_fault :: "'cb option option"
  on_fault_enter :: "'cb option"
  latched_cause :: FaultCause
  has_latched_cause :: bool
  faulted :: bool
  runtime_started :: bool
  propagation_targets :: "('k, 'o) FaultPropagationTarget list"
  last_retry_us :: u64
  fc_hub :: "'s hub"

definition init_fault_ctl :: "('cb, 'g, 's, 'k, 'o) fault_ctl" where
  "init_fault_ctl = \<lparr>global_machine = None, rebuild_as_fault = None, on_fault_enter = None,
     latched_cause = init_cause, has_latched_cause = False, faulted = False, runtime_started = False,
     propagation_targets = [], last_retry_us = 0, fc_hub = init_hub\<rparr>"

record ('cb, 'g, 's, 'k, 'o, 'w) fault_ops =
  fo_sm :: "('cb, 'g, 'w) sm_ops"
  fo_diag :: "('s, 'w) diag_ops"
  fo_send :: "'k \<Rightarrow> 'o \<Rightarrow> 'w \<Rightarrow> bool \<times> 'w"
  fo_set_callback :: "'o \<Rightarrow> 'w \<Rightarrow> 'w"
  fo_file :: string

text \<open>The environment of the global machine: its callbacks are the user's, and the controller's own,
  which calls the policy's.\<close>

definition run_user :: "('cb, 'g, 'w) sm_ops \<Rightarrow> 'cb option \<Rightarrow> 'w \<Rightarrow> 'w" where
  "run_user ops cb w = (case cb of None \<Rightarrow> w | Some c \<Rightarrow> op_run ops c w)"

definition on_fault_state_enter :: "('cb, 'g, 'w) sm_ops \<Rightarrow> 'cb option \<Rightarrow> 'w \<Rightarrow> 'w" where
  "on_fault_state_enter ops enter w = run_user ops enter w"

fun run_callback :: "('cb, 'g, 'w) sm_ops \<Rightarrow> 'cb option \<Rightarrow> 'cb callback \<Rightarrow> 'w \<Rightarrow> 'w" where
  "run_callback ops enter (User c) w = op_run ops c w"
| "run_callback ops enter OnFaultStateEnter w = on_fault_state_enter ops enter w"

text \<open>The scheduler registers the user's callbacks; the controller's own is never a timed action.\<close>

fun user_of :: "'cb callback option \<Rightarrow> 'cb option" where
  "user_of (Some (User c)) = Some c"
| "user_of _ = None"

definition machine_ops :: "('cb, 'g, 'w) sm_ops \<Rightarrow> 'cb option \<Rightarrow> ('cb callback, 'g, 'w) sm_ops" where
  "machine_ops ops enter = \<lparr>op_run = run_callback ops enter, op_ask = op_ask ops,
     op_register = \<lambda>p f. op_register ops p (user_of f), op_unregister = op_unregister ops,
     op_panic = op_panic ops, op_add_orders = op_add_orders ops, op_remove_orders = op_remove_orders ops\<rparr>"

section \<open>Building the global machine\<close>

text \<open>\<open>build_runtime_machine\<close>, with the errors of the construction at compile time.\<close>

definition bind_sum :: "'e + 'a \<Rightarrow> ('a \<Rightarrow> 'e + 'b) \<Rightarrow> 'e + 'b" where
  "bind_sum x f = (case x of Inl e \<Rightarrow> Inl e | Inr a \<Rightarrow> f a)"

definition build_runtime_machine ::
    "('cb callback, 'g) machine option \<Rightarrow> nat \<Rightarrow> string + ('cb callback, 'g) machine" where
  "build_runtime_machine app initial =
     bind_sum (make_state OPERATIONAL []) (\<lambda>operational.
     bind_sum (make_state FAULT_STATE []) (\<lambda>fault.
     bind_sum (case app of None \<Rightarrow> Inr [] | Some a \<Rightarrow> add_nested_machines [(OPERATIONAL, Some a)]) (\<lambda>nested.
     bind_sum (make_state_machine initial nested [operational, fault]) (\<lambda>m.
     add_enter_action (Some OnFaultStateEnter) FAULT_STATE m))))"

definition reset_runtime_storage :: "('cb, 'g, 's, 'k, 'o) fault_ctl \<Rightarrow> ('cb, 'g, 's, 'k, 'o) fault_ctl" where
  "reset_runtime_storage f = f\<lparr>global_machine := None, rebuild_as_fault := None\<rparr>"

definition emplace_runtime_machine ::
    "('cb callback, 'g) machine option \<Rightarrow> nat \<Rightarrow> ('cb, 'g, 's, 'k, 'o) fault_ctl \<Rightarrow> ('cb, 'g, 's, 'k, 'o) fault_ctl" where
  "emplace_runtime_machine app initial f =
     (case build_runtime_machine app initial of
        Inl e \<Rightarrow> f
      | Inr m \<Rightarrow> f\<lparr>global_machine := Some m\<rparr>)"

definition reconstruct_runtime_machine ::
    "('cb, 'g) policy \<Rightarrow> nat \<Rightarrow> ('cb, 'g, 's, 'k, 'o) fault_ctl \<Rightarrow> ('cb, 'g, 's, 'k, 'o) fault_ctl" where
  "reconstruct_runtime_machine pol initial f =
     (let f = emplace_runtime_machine (operational_machine pol) initial (reset_runtime_storage f)
      in f\<lparr>rebuild_as_fault := Some (pol_on_fault_enter pol), on_fault_enter := pol_on_fault_enter pol\<rparr>)"

text \<open>The application's machine, as it is now, inside the global one.\<close>

definition nested_app :: "('cb callback, 'g) machine \<Rightarrow> ('cb callback, 'g) machine option" where
  "nested_app m = (case nested_machines m of [] \<Rightarrow> None | (s, a) # ns \<Rightarrow> a)"

definition rebuild :: "'cb option \<Rightarrow> ('cb callback, 'g) machine \<Rightarrow> ('cb, 'g, 's, 'k, 'o) fault_ctl
    \<Rightarrow> ('cb, 'g, 's, 'k, 'o) fault_ctl" where
  "rebuild enter m f =
     reconstruct_runtime_machine \<lparr>operational_machine = nested_app m, pol_on_fault_enter = enter\<rparr> FAULT_STATE f"

definition install_runtime :: "('s, 'w) diag_ops \<Rightarrow> ('cb, 'g) policy \<Rightarrow> ('cb, 'g, 's, 'k, 'o) fault_ctl
    \<Rightarrow> ('cb, 'g, 's, 'k, 'o) fault_ctl" where
  "install_runtime dops pol f =
     (let preserve = (global_machine f = None \<and> \<not> runtime_started f \<and> faulted f \<and> has_latched_cause f);
          f = f\<lparr>runtime_started := False, faulted := preserve, has_latched_cause := preserve,
                latched_cause := (if preserve then latched_cause f else init_cause)\<rparr>;
          f = reconstruct_runtime_machine pol (if preserve then FAULT_STATE else OPERATIONAL) f
      in if op_eth dops then f\<lparr>propagation_targets := [], last_retry_us := 0\<rparr> else f)"

section \<open>Operations\<close>

type_synonym ('cb, 'g, 's, 'k, 'o, 'w) fault_world = "('cb, 'g, 's, 'k, 'o) fault_ctl \<times> 'w"

text \<open>An operation of the hub on the controller's state.\<close>

definition on_hub :: "('s hub \<times> 'w \<Rightarrow> 's hub \<times> 'w) \<Rightarrow> ('cb, 'g, 's, 'k, 'o, 'w) fault_world
    \<Rightarrow> ('cb, 'g, 's, 'k, 'o, 'w) fault_world" where
  "on_hub g fw = (let (f, w) = fw; (h, w) = g (fc_hub f, w) in (f\<lparr>fc_hub := h\<rparr>, w))"

definition publish_fault_diagnostic :: "('cb, 'g, 's, 'k, 'o, 'w) fault_ops \<Rightarrow> FaultCause
    \<Rightarrow> ('cb, 'g, 's, 'k, 'o, 'w) fault_world \<Rightarrow> ('cb, 'g, 's, 'k, 'o, 'w) fault_world" where
  "publish_fault_diagnostic ops c fw =
     on_hub (\<lambda>(h, w). let (r, w) = to_record (op_time (fo_diag ops)) c w
                       in flush_urgent (fo_diag ops) (publish r h, w)) fw"

text \<open>The loop of \<open>propagate_fault\<close>; \<open>done\<close> are the targets before the current one. The pointers of a
  registered target are never null.\<close>

fun propagate_from :: "('cb, 'g, 's, 'k, 'o, 'w) fault_ops \<Rightarrow> ('k, 'o) FaultPropagationTarget list
    \<Rightarrow> ('k, 'o) FaultPropagationTarget list \<Rightarrow> 's hub \<times> 'w
    \<Rightarrow> ('k, 'o) FaultPropagationTarget list \<times> 's hub \<times> 'w" where
  "propagate_from ops done [] hw = (done, hw)"
| "propagate_from ops done (t # ts) hw =
     (let (h, w) = hw;
          t = t\<lparr>tg_pending := True\<rparr>;
          (ok, w) = fo_send ops (tg_socket t) (tg_fault_order t) w
      in if ok then propagate_from ops (done @ [t\<lparr>tg_pending := False\<rparr>]) ts (h, w)
         else propagate_from ops (done @ [t]) ts
           (flush_urgent (fo_diag ops) (publish_runtime_warning (fo_diag ops)
              (Some ''FAULT order propagation failed, will retry'') False 221 (Some ''propagate_fault'')
              (Some (fo_file ops)) (h, w))))"

definition propagate_fault :: "('cb, 'g, 's, 'k, 'o, 'w) fault_ops \<Rightarrow> ('cb, 'g, 's, 'k, 'o, 'w) fault_world
    \<Rightarrow> ('cb, 'g, 's, 'k, 'o, 'w) fault_world" where
  "propagate_fault ops fw =
     (let (f, w) = fw; (ts, h, w) = propagate_from ops [] (propagation_targets f) (fc_hub f, w)
      in (f\<lparr>propagation_targets := ts, fc_hub := h\<rparr>, w))"

fun retry_from :: "('cb, 'g, 's, 'k, 'o, 'w) fault_ops \<Rightarrow> ('k, 'o) FaultPropagationTarget list
    \<Rightarrow> ('k, 'o) FaultPropagationTarget list \<Rightarrow> 's hub \<times> 'w
    \<Rightarrow> ('k, 'o) FaultPropagationTarget list \<times> 's hub \<times> 'w" where
  "retry_from ops done [] hw = (done, hw)"
| "retry_from ops done (t # ts) hw =
     (if \<not> tg_pending t then retry_from ops (done @ [t]) ts hw
      else let (h, w) = hw;
               (ok, w) = fo_send ops (tg_socket t) (tg_fault_order t) w
           in if ok then retry_from ops (done @ [t\<lparr>tg_pending := False\<rparr>]) ts
                (flush_urgent (fo_diag ops) (publish_runtime_info (fo_diag ops)
                   (Some ''FAULT order propagation succeeded after retry'') False 240
                   (Some ''retry_pending_fault_propagation'') (Some (fo_file ops)) (h, w)))
              else retry_from ops (done @ [t]) ts (h, w))"

definition retry_pending_fault_propagation :: "('cb, 'g, 's, 'k, 'o, 'w) fault_ops
    \<Rightarrow> ('cb, 'g, 's, 'k, 'o, 'w) fault_world \<Rightarrow> ('cb, 'g, 's, 'k, 'o, 'w) fault_world" where
  "retry_pending_fault_propagation ops fw =
     (let (f, w) = fw; (ts, h, w) = retry_from ops [] (propagation_targets f) (fc_hub f, w)
      in (f\<lparr>propagation_targets := ts, fc_hub := h\<rparr>, w))"

text \<open>The global machine enters the fault state: running, it is forced there; built but not started,
  it is built again in it.\<close>

definition force_fault_state :: "('cb, 'g, 's, 'k, 'o, 'w) fault_ops \<Rightarrow> ('cb, 'g, 's, 'k, 'o, 'w) fault_world
    \<Rightarrow> ('cb, 'g, 's, 'k, 'o, 'w) fault_world" where
  "force_fault_state ops fw =
     (let (f, w) = fw
      in case global_machine f of
           None \<Rightarrow> fw
         | Some m \<Rightarrow>
             if runtime_started f
             then let (m, w) = force_change_state (machine_ops (fo_sm ops) (on_fault_enter f)) FAULT_STATE m w
                  in (f\<lparr>global_machine := Some m\<rparr>, w)
             else case rebuild_as_fault f of
                    None \<Rightarrow> fw
                  | Some enter \<Rightarrow> (rebuild enter m f, w))"

definition request_fault :: "('cb, 'g, 's, 'k, 'o, 'w) fault_ops \<Rightarrow> FaultCause
    \<Rightarrow> ('cb, 'g, 's, 'k, 'o, 'w) fault_world \<Rightarrow> ('cb, 'g, 's, 'k, 'o, 'w) fault_world" where
  "request_fault ops c fw =
     (let (f, w) = fw;
          fw = (if \<not> faulted f
                then let fw = force_fault_state ops
                           (f\<lparr>latched_cause := c, has_latched_cause := True, faulted := True\<rparr>, w)
                     in if op_eth (fo_diag ops) then propagate_fault ops fw else fw
                else fw)
      in publish_fault_diagnostic ops c fw)"

definition fault_start :: "('cb, 'g, 's, 'k, 'o, 'w) fault_ops \<Rightarrow> ('cb, 'g, 's, 'k, 'o, 'w) fault_world
    \<Rightarrow> ('cb, 'g, 's, 'k, 'o, 'w) fault_world" where
  "fault_start ops fw =
     (let (f, w) = fw
      in case global_machine f of
           None \<Rightarrow> fw
         | Some m \<Rightarrow>
             if runtime_started f then fw
             else let f = f\<lparr>runtime_started := True\<rparr>;
                      (m, w) = start (machine_ops (fo_sm ops) (on_fault_enter f)) m w;
                      f = f\<lparr>global_machine := Some m\<rparr>
                  in if faulted f then on_hub (flush_urgent (fo_diag ops)) (f, w) else (f, w))"

definition fault_check_transitions :: "('cb, 'g, 's, 'k, 'o, 'w) fault_ops \<Rightarrow> ('cb, 'g, 's, 'k, 'o, 'w) fault_world
    \<Rightarrow> ('cb, 'g, 's, 'k, 'o, 'w) fault_world" where
  "fault_check_transitions ops fw =
     (let (f, w) = fw
      in case global_machine f of
           None \<Rightarrow> fw
         | Some m \<Rightarrow>
             if \<not> runtime_started f then fw
             else let (m, w) = check_transitions (machine_ops (fo_sm ops) (on_fault_enter f)) m w;
                      f = f\<lparr>global_machine := Some m\<rparr>
                  in if op_eth (fo_diag ops) \<and> faulted f
                     then let (now, w) = op_clock (fo_diag ops) w
                          in if now - last_retry_us f \<ge> propagation_retry_period_us
                             then retry_pending_fault_propagation ops (f\<lparr>last_retry_us := now\<rparr>, w)
                             else (f, w)
                     else (f, w))"

definition register_fault_propagation :: "('cb, 'g, 's, 'k, 'o, 'w) fault_ops \<Rightarrow> 'k option \<Rightarrow> 'o option
    \<Rightarrow> ('cb, 'g, 's, 'k, 'o, 'w) fault_world \<Rightarrow> ('cb, 'g, 's, 'k, 'o, 'w) fault_world" where
  "register_fault_propagation ops socket order fw =
     (let (f, w) = fw
      in case (socket, order) of
           (Some k, Some q) \<Rightarrow>
             if length (propagation_targets f) \<ge> max_propagation_targets then fw
             else (f\<lparr>propagation_targets := propagation_targets f @
                      [\<lparr>tg_socket = k, tg_fault_order = q, tg_pending = False\<rparr>]\<rparr>, fo_set_callback ops q w)
         | _ \<Rightarrow> fw)"

definition on_fault_order_received :: "('cb, 'g, 's, 'k, 'o, 'w) fault_ops
    \<Rightarrow> ('cb, 'g, 's, 'k, 'o, 'w) fault_world \<Rightarrow> ('cb, 'g, 's, 'k, 'o, 'w) fault_world" where
  "on_fault_order_received ops fw =
     request_fault ops (cause_runtime_fault (Some ''FAULT order received from peer'') False 204
       (Some ''on_fault_order_received'') (Some (fo_file ops))) fw"

definition is_faulted :: "('cb, 'g, 's, 'k, 'o) fault_ctl \<Rightarrow> bool" where
  "is_faulted f = faulted f"

definition latched_fault_cause :: "('cb, 'g, 's, 'k, 'o) fault_ctl \<Rightarrow> FaultCause option" where
  "latched_fault_cause f = (if has_latched_cause f then Some (latched_cause f) else None)"

section \<open>The reporters\<close>

text \<open>The text is the formatted message in full, \<open>None\<close> where the formatting fails; the result is what
  the buffer holds and whether the message was cut.\<close>

definition format_runtime_fatal_message :: "string option \<Rightarrow> string \<times> bool" where
  "format_runtime_fatal_message txt =
     (case txt of
        None \<Rightarrow> ([], True)
      | Some s \<Rightarrow> (take runtime_message_capacity s, length s \<ge> runtime_message_capacity + 1))"

definition fault_reporter :: "('cb, 'g, 's, 'k, 'o, 'w) fault_ops \<Rightarrow> RuntimeSourceMetadata \<Rightarrow> string option
    \<Rightarrow> ('cb, 'g, 's, 'k, 'o, 'w) fault_world \<Rightarrow> ('cb, 'g, 's, 'k, 'o, 'w) fault_world" where
  "fault_reporter ops loc txt fw =
     (let (msg, shortened) = format_runtime_fatal_message txt
      in request_fault ops (cause_runtime_fault (Some msg) shortened (md_line loc) (md_function_name loc)
           (md_file_name loc)) fw)"

definition panic_reporter :: "('cb, 'g, 's, 'k, 'o, 'w) fault_ops \<Rightarrow> RuntimeSourceMetadata \<Rightarrow> string option
    \<Rightarrow> ('cb, 'g, 's, 'k, 'o, 'w) fault_world \<Rightarrow> ('cb, 'g, 's, 'k, 'o, 'w) fault_world" where
  "panic_reporter ops loc txt fw =
     (let (msg, shortened) = format_runtime_fatal_message txt
      in request_fault ops (cause_panic (Some msg) shortened (md_line loc) (md_function_name loc)
           (md_file_name loc)) fw)"

definition reporter_flush :: "('cb, 'g, 's, 'k, 'o, 'w) fault_ops
    \<Rightarrow> ('cb, 'g, 's, 'k, 'o, 'w) fault_world \<Rightarrow> ('cb, 'g, 's, 'k, 'o, 'w) fault_world" where
  "reporter_flush ops fw = on_hub (flush (fo_diag ops)) fw"

definition publish_runtime_diagnostic :: "('s, 'w) diag_ops \<Rightarrow> Severity \<Rightarrow> RuntimeSourceMetadata \<Rightarrow> string option
    \<Rightarrow> 's hub \<times> 'w \<Rightarrow> 's hub \<times> 'w" where
  "publish_runtime_diagnostic dops sev loc txt hw =
     (let (msg, shortened) = format_runtime_fatal_message txt
      in case sev of
           SEV_WARNING \<Rightarrow> publish_runtime_warning dops (Some msg) shortened (md_line loc) (md_function_name loc)
             (md_file_name loc) hw
         | SEV_INFO \<Rightarrow> publish_runtime_info dops (Some msg) shortened (md_line loc) (md_function_name loc)
             (md_file_name loc) hw
         | SEV_FAULT \<Rightarrow> hw)"

section \<open>The protection engine\<close>

fun publish_events :: "('s, 'w) diag_ops \<Rightarrow> string \<Rightarrow> RuleEvaluation list \<Rightarrow> 's hub \<times> 'w \<Rightarrow> 's hub \<times> 'w" where
  "publish_events dops name [] hw = hw"
| "publish_events dops name (v # vs) hw =
     (if ev_state v = FAULT then publish_events dops name vs hw
      else publish_events dops name vs
        (publish_protection_event dops (Some name) (ev_state v) (ev_edge v) (ev_snapshot v) hw))"

definition publish_edge_events :: "('cb, 'g, 's, 'k, 'o, 'w) fault_ops \<Rightarrow> protection \<Rightarrow> ProtectionEvaluation
    \<Rightarrow> ('cb, 'g, 's, 'k, 'o, 'w) fault_world \<Rightarrow> ('cb, 'g, 's, 'k, 'o, 'w) fault_world" where
  "publish_edge_events ops p e fw = on_hub (publish_events (fo_diag ops) (pr_name p) (events e)) fw"

definition request_fault_if_due :: "('cb, 'g, 's, 'k, 'o, 'w) fault_ops \<Rightarrow> protection \<Rightarrow> ProtectionEvaluation
    \<Rightarrow> ('cb, 'g, 's, 'k, 'o, 'w) fault_world \<Rightarrow> protection \<times> ('cb, 'g, 's, 'k, 'o, 'w) fault_world" where
  "request_fault_if_due ops p e fw =
     (let (f, w) = fw;
          (tick, w) = op_clock (fo_diag ops) w;
          lst = last_fault_publish_tick p
      in if lst \<noteq> 0 \<and> tick - lst < notify_delay_in_microseconds then (p, (f, w))
         else (p\<lparr>last_fault_publish_tick := tick\<rparr>,
               request_fault ops (cause_protection (Some (pr_name p)) (active_fault_edge e)
                 (active_fault_snapshot e)) (f, w)))"

text \<open>\<open>read\<close> reads the source of the protection.\<close>

definition evaluate_one :: "rnd \<Rightarrow> ('cb, 'g, 's, 'k, 'o, 'w) fault_ops \<Rightarrow> ('w \<Rightarrow> sample \<times> 'w) \<Rightarrow> protection
    \<Rightarrow> ('cb, 'g, 's, 'k, 'o, 'w) fault_world \<Rightarrow> protection \<times> ('cb, 'g, 's, 'k, 'o, 'w) fault_world" where
  "evaluate_one r ops read p fw =
     (let (f, w) = fw;
          (s, w) = read w;
          (e, p, w) = evaluate_protection r (op_clock (fo_diag ops)) s p w;
          fw = publish_edge_events ops p e (f, w)
      in if has_active_fault e then request_fault_if_due ops p e fw else (p, fw))"

fun engine_evaluate :: "rnd \<Rightarrow> ('cb, 'g, 's, 'k, 'o, 'w) fault_ops \<Rightarrow> (('w \<Rightarrow> sample \<times> 'w) \<times> protection) list
    \<Rightarrow> ('cb, 'g, 's, 'k, 'o, 'w) fault_world
    \<Rightarrow> (('w \<Rightarrow> sample \<times> 'w) \<times> protection) list \<times> ('cb, 'g, 's, 'k, 'o, 'w) fault_world" where
  "engine_evaluate r ops [] fw = ([], fw)"
| "engine_evaluate r ops ((read, p) # ps) fw =
     (let (p, fw) = evaluate_one r ops read p fw; (ps, fw) = engine_evaluate r ops ps fw
      in ((read, p) # ps, fw))"

definition engine_reset :: "rnd \<Rightarrow> ('a \<times> protection) list \<Rightarrow> ('a \<times> protection) list" where
  "engine_reset r ps = map (\<lambda>(read, p). (read, clear_runtime_state r p)) ps"


definition engine_initialize :: "bool \<Rightarrow> 'h rtc_hal \<Rightarrow> rnd \<Rightarrow> ('a \<times> protection) list \<Rightarrow> rtc \<times> 'h
    \<Rightarrow> ('a \<times> protection) list \<times> rtc \<times> 'h" where
  "engine_initialize rtc_on hal r ps rw =
     (let rw = (if rtc_on then snd (ensure_started hal (fst rw) (snd rw)) else rw) in (engine_reset r ps, rw))"

section \<open>The shape of the global machine\<close>

definition operational_state :: "('cb callback, 'g) state" where
  "operational_state = \<lparr>state_id = 0, cyclic_actions = [], on_enter_actions = [], on_exit_actions = [],
     state_transitions = [], state_orders_ids = []\<rparr>"

definition fault_state :: "('cb callback, 'g) state" where
  "fault_state = \<lparr>state_id = 1, cyclic_actions = [], on_enter_actions = [Some OnFaultStateEnter], on_exit_actions = [],
     state_transitions = [], state_orders_ids = []\<rparr>"

definition runtime_machine :: "nat \<Rightarrow> bool \<Rightarrow> (nat \<times> ('cb callback, 'g) machine option) list \<Rightarrow> ('cb callback, 'g) machine" where
  "runtime_machine c b ns = Machine c [operational_state, fault_state] [] [(0, 0), (0, 0)] b ns"

definition in_operational :: "(nat \<times> 'a) list \<Rightarrow> bool" where
  "in_operational ns \<longleftrightarrow> list_all (\<lambda>(s, a). s = 0) ns"

lemma runtime_machine_simps [simp]:
  "current_state (runtime_machine c b ns) = c" "nested_machines (runtime_machine c b ns) = ns"
  "called_start (runtime_machine c b ns) = b" "set_nested ns' (runtime_machine c b ns) = runtime_machine c b ns'"
  "set_started (runtime_machine c b ns) = runtime_machine c True ns"
  "set_current c' (runtime_machine c b ns) = runtime_machine c' b ns"
  "states (runtime_machine c b ns) = [operational_state, fault_state]"
  by (simp_all add: runtime_machine_def)

lemma build_runtime: "c < 2 \<Longrightarrow>
  build_runtime_machine app c = Inr (runtime_machine c False (case app of None \<Rightarrow> [] | Some a \<Rightarrow> [(0, Some a)]))"
  by (cases app)
    (simp_all add: build_runtime_machine_def bind_sum_def make_state_def OPERATIONAL_def FAULT_STATE_def
      add_nested_machines_def make_state_machine_def duplicate_ids_def not_contiguous_def process_state_def
      add_enter_action_def state_add_enter_action_def push_within_def NUMBER_OF_ACTIONS_def
      runtime_machine_def operational_state_def fault_state_def Let_def eval_nat_numeral)

section \<open>The global machine follows the fault\<close>

lemma on_first_in_operational: "in_operational ns \<Longrightarrow> in_operational (fst (on_first p f ns w))"
  by (induction p f ns w rule: on_first.induct) (auto simp: in_operational_def split_def Let_def)

lemma on_first_not_operational: "in_operational ns \<Longrightarrow> c \<noteq> 0 \<Longrightarrow> on_first (\<lambda>s. s = c) f ns w = (ns, w)"
  by (induction "\<lambda>s. s = c" f ns w rule: on_first.induct) (auto simp: in_operational_def)

lemma nested_do_runtime:
  assumes "in_operational ns"
  shows "\<exists>ns' w'. nested_do f (runtime_machine c b ns) w = (runtime_machine c b ns', w') \<and> in_operational ns'"
    and "c \<noteq> 0 \<Longrightarrow> nested_do f (runtime_machine c b ns) w = (runtime_machine c b ns, w)"
  using on_first_in_operational [OF assms, of "\<lambda>s. s = c" f w] on_first_not_operational [OF assms, of c f w]
  by (auto simp: nested_do_def Let_def split_def)

lemma set_state_runtime:
  "set_state operational_state (runtime_machine 0 b ns) = runtime_machine 0 b ns"
  "set_state fault_state (runtime_machine (Suc 0) b ns) = runtime_machine (Suc 0) b ns"
  by (simp_all add: runtime_machine_def)

lemma machine_exit_operational: "machine_exit ops (runtime_machine 0 b ns) w = (runtime_machine 0 b ns, w)"
  using set_state_runtime(1) [of b ns]
  by (simp add: machine_exit_def state_exit_def run_actions_def Let_def) (simp add: operational_state_def)

lemma machine_enter_runtime:
  "machine_enter (machine_ops ops enter) (runtime_machine 0 b ns) w = (runtime_machine 0 b ns, w)"
  "machine_enter (machine_ops ops enter) (runtime_machine (Suc 0) b ns) w
     = (runtime_machine (Suc 0) b ns, run_user ops enter w)"
  using set_state_runtime [of b ns]
  by (simp add: machine_enter_def state_enter_def run_actions_def register_all_timed_actions_def Let_def,
      simp add: operational_state_def,
      simp add: machine_enter_def state_enter_def run_actions_def register_all_timed_actions_def Let_def,
      simp add: fault_state_def machine_ops_def on_fault_state_enter_def)

lemma state_orders_runtime:
  "remove_state_orders ops (runtime_machine 0 b ns) w = w"
  "refresh_state_orders ops (runtime_machine (Suc 0) b ns) w = w"
  by (simp_all add: remove_state_orders_def refresh_state_orders_def operational_state_def fault_state_def)

text \<open>Forcing the running machine into the fault state leaves the application's machine (its exit
  actions), then calls the policy's callback.\<close>

lemma force_runtime:
  assumes "in_operational ns"
  shows "\<exists>ns'. in_operational ns' \<and>
    force_change_state (machine_ops ops enter) FAULT_STATE (runtime_machine 0 b ns) w =
      (runtime_machine FAULT_STATE b ns',
       run_user ops enter (snd (nested_do (machine_exit (machine_ops ops enter)) (runtime_machine 0 b ns) w)))"
proof -
  obtain ns' w' where n: "nested_do (machine_exit (machine_ops ops enter)) (runtime_machine 0 b ns) w
      = (runtime_machine 0 b ns', w')" "in_operational ns'"
    using nested_do_runtime(1) [OF assms, of "machine_exit (machine_ops ops enter)" 0 b w] by blast
  show ?thesis
    using n by (auto simp: nested_do_runtime(2) [OF n(2)] force_change_state_def perform_state_change_def FAULT_STATE_def machine_exit_operational
        machine_enter_runtime state_orders_runtime Let_def)
qed

lemma check_runtime:
  assumes "in_operational ns"
  shows "\<exists>ns' w'. check_transitions ops (runtime_machine c b ns) w = (runtime_machine c b ns', w') \<and> in_operational ns'"
proof -
  have "take_transition ops (runtime_machine c b ns) w = (runtime_machine c b ns, w)"
    by (simp add: take_transition_def own_transitions_def runtime_machine_def split_def Let_def)
  then show ?thesis
    using nested_do_runtime(1) [OF assms, of "check_transitions ops" c b w] assms
    by (subst check_transitions.simps) (auto simp: Let_def)
qed

lemma start_runtime:
  assumes "in_operational ns" and "c < 2"
  shows "\<exists>ns' w'. start (machine_ops ops enter) (runtime_machine c b ns) w = (runtime_machine c True ns', w')
    \<and> in_operational ns'"
proof -
  obtain v where e: "machine_enter (machine_ops ops enter) (runtime_machine c True ns) w = (runtime_machine c True ns, v)"
    using assms(2) machine_enter_runtime [of ops enter True ns w] by (cases c) (auto simp: less_Suc_eq)
  obtain ns1 w1 where n: "nested_do (start (machine_ops ops enter)) (runtime_machine c True ns) v
      = (runtime_machine c True ns1, w1)" "in_operational ns1"
    using nested_do_runtime(1) [OF assms(1), of "start (machine_ops ops enter)" c True v] by blast
  show ?thesis
    using on_first_in_operational [OF n(2), of "\<lambda>s. True" "\<lambda>k w. (set_started k, w)" "()"]
    by (subst start.simps) (auto simp: e n(1) split_def Let_def)
qed

text \<open>What holds of the controller between two operations.\<close>

definition fault_inv :: "('cb, 'g, 's, 'k, 'o) fault_ctl \<Rightarrow> bool" where
  "fault_inv f \<longleftrightarrow>
     (case global_machine f of
        None \<Rightarrow> \<not> runtime_started f
      | Some m \<Rightarrow> rebuild_as_fault f \<noteq> None
          \<and> (\<exists>b ns. m = runtime_machine (if faulted f then FAULT_STATE else OPERATIONAL) b ns \<and> in_operational ns))
     \<and> has_latched_cause f = faulted f \<and> length (propagation_targets f) \<le> max_propagation_targets
     \<and> history_inv (fc_hub f)"

lemma fault_inv_cong:
  "fault_inv f \<Longrightarrow> global_machine f' = global_machine f \<Longrightarrow> rebuild_as_fault f' = rebuild_as_fault f
    \<Longrightarrow> runtime_started f' = runtime_started f \<Longrightarrow> faulted f' = faulted f
    \<Longrightarrow> has_latched_cause f' = has_latched_cause f
    \<Longrightarrow> length (propagation_targets f') \<le> max_propagation_targets \<Longrightarrow> history_inv (fc_hub f') \<Longrightarrow> fault_inv f'"
  by (cases "global_machine f") (simp_all add: fault_inv_def)

lemma reconstruct_fields:
  assumes "c < 2"
  shows "reconstruct_runtime_machine pol c f = f\<lparr>
     global_machine := Some (runtime_machine c False
        (case operational_machine pol of None \<Rightarrow> [] | Some a \<Rightarrow> [(0, Some a)])),
     rebuild_as_fault := Some (pol_on_fault_enter pol), on_fault_enter := pol_on_fault_enter pol\<rparr>"
  by (simp add: reconstruct_runtime_machine_def emplace_runtime_machine_def build_runtime [OF assms]
      reset_runtime_storage_def Let_def)

lemma in_operational_app: "in_operational (case a of None \<Rightarrow> [] | Some a \<Rightarrow> [(0, Some a)])"
  by (simp add: in_operational_def split: option.split)

lemma RS [simp]: "OPERATIONAL < 2" "FAULT_STATE < 2" "OPERATIONAL \<noteq> FAULT_STATE" "FAULT_STATE \<noteq> OPERATIONAL"
  by (simp_all add: OPERATIONAL_def FAULT_STATE_def)

lemma install_inv: "history_inv (fc_hub f) \<Longrightarrow> length (propagation_targets f) \<le> max_propagation_targets
    \<Longrightarrow> fault_inv (install_runtime dops pol f)"
  using in_operational_app [of "operational_machine pol"]
  by (auto simp: fault_inv_def install_runtime_def reconstruct_fields Let_def)

text \<open>The first half of a request: the cause is latched and the machine enters the fault state.\<close>

lemma force_fault_state_inv:
  assumes i: "fault_inv f" and nf: "\<not> faulted f"
    and e: "force_fault_state ops (f\<lparr>latched_cause := c, has_latched_cause := True, faulted := True\<rparr>, w) = (f', w')"
  shows "fault_inv f' \<and> faulted f' \<and> latched_cause f' = c \<and> propagation_targets f' = propagation_targets f
    \<and> fc_hub f' = fc_hub f \<and> last_retry_us f' = last_retry_us f \<and> runtime_started f' = runtime_started f"
proof (cases "global_machine f")
  case None
  then show ?thesis using i e by (auto simp: force_fault_state_def fault_inv_def)
next
  case (Some m)
  obtain b ns r where m: "m = runtime_machine OPERATIONAL b ns" "in_operational ns" and r: "rebuild_as_fault f = Some r"
    using i nf Some by (auto simp: fault_inv_def)
  show ?thesis
  proof (cases "runtime_started f")
    case True
    obtain ns' v where n: "in_operational ns'"
      "force_change_state (machine_ops (fo_sm ops) (on_fault_enter f)) FAULT_STATE m w = (runtime_machine FAULT_STATE b ns', v)"
      using force_runtime [OF m(2), of "fo_sm ops" "on_fault_enter f" b w] m(1) by (auto simp: OPERATIONAL_def)
    then have "f' = f\<lparr>latched_cause := c, has_latched_cause := True, faulted := True,
        global_machine := Some (runtime_machine FAULT_STATE b ns')\<rparr>"
      using e Some True by (auto simp: force_fault_state_def)
    then show ?thesis using i n r by (auto simp: fault_inv_def)
  next
    case False
    then have "f' = rebuild r m (f\<lparr>latched_cause := c, has_latched_cause := True, faulted := True\<rparr>)"
      using e Some r by (auto simp: force_fault_state_def)
    then show ?thesis using i in_operational_app [of "nested_app m"]
      by (auto simp: rebuild_def reconstruct_fields fault_inv_def)
  qed
qed

lemma run_hub_history:
  "history_list (fst (flush_pending d u (h, w))) = history_list h"
  "history_inv (fst (flush_pending d u (h, w))) = history_inv h"
  by (auto simp: flush_pending_def Let_def history_list_def history_inv_def split: prod.splits)

lemma flush_urgent_history [simp]:
  "history_list (fst (flush_urgent d hw)) = history_list (fst hw)"
  "history_inv (fst (flush_urgent d hw)) = history_inv (fst hw)"
  using run_hub_history [of d True "fst hw" "snd hw"] by (simp_all add: flush_urgent_def)

lemma publish_warning_history:
  "history_inv (fst hw) \<Longrightarrow> history_inv (fst (publish_runtime_warning d msg b n func src hw))"
  "history_inv (fst hw) \<Longrightarrow> history_inv (fst (publish_runtime_info d msg b n func src hw))"
  using publish_history(1) by (auto simp: publish_runtime_warning_def publish_runtime_info_def split: prod.splits)

lemma propagate_from_inv:
  "history_inv (fst hw) \<Longrightarrow> propagate_from ops done ts hw = (ts', h', w')
    \<Longrightarrow> history_inv h' \<and> length ts' = length done + length ts"
proof (induction ts arbitrary: "done" hw)
  case (Cons t ts)
  obtain h w ok w1 where hw: "hw = (h, w)" and s: "fo_send ops (tg_socket t) (tg_fault_order t) w = (ok, w1)"
    by (metis surj_pair)
  have p: "history_inv (fst (flush_urgent (fo_diag ops) (publish_runtime_warning (fo_diag ops) msg False n func src (h, w1))))"
    for msg n func src using Cons.prems(1) hw by (simp add: publish_warning_history)
  show ?case
    using Cons.prems(2) Cons.IH [OF p] Cons.IH [of "(h, w1)"] Cons.prems(1) s hw
    by (cases ok) (fastforce simp: Let_def)+
qed simp

lemma retry_from_inv:
  "history_inv (fst hw) \<Longrightarrow> retry_from ops done ts hw = (ts', h', w')
    \<Longrightarrow> history_inv h' \<and> length ts' = length done + length ts"
proof (induction ts arbitrary: "done" hw)
  case (Cons t ts)
  obtain h w ok w1 where hw: "hw = (h, w)" and s: "fo_send ops (tg_socket t) (tg_fault_order t) w = (ok, w1)"
    by (metis surj_pair)
  have p: "history_inv (fst (flush_urgent (fo_diag ops) (publish_runtime_info (fo_diag ops) msg False n func src (h, w1))))"
    for msg n func src using Cons.prems(1) hw by (simp add: publish_warning_history)
  show ?case
  proof (cases "tg_pending t")
    case False
    then show ?thesis using Cons.prems Cons.IH [of hw] by fastforce
  next
    case True
    then show ?thesis
      using Cons.prems(2) Cons.IH [OF p] Cons.IH [of "(h, w1)"] Cons.prems(1) s hw
      by (cases ok) (fastforce simp: Let_def)+
  qed
qed simp

lemma propagate_fault_keeps:
  assumes "propagate_fault ops (f, w) = (f', w')" "fault_inv f"
  shows "fault_inv f' \<and> faulted f' = faulted f \<and> latched_cause f' = latched_cause f"
proof -
  obtain ts h where p: "propagate_from ops [] (propagation_targets f) (fc_hub f, w) = (ts, h, w')"
    and f': "f' = f\<lparr>propagation_targets := ts, fc_hub := h\<rparr>"
    using assms(1) by (auto simp: propagate_fault_def Let_def split: prod.splits)
  have "history_inv h \<and> length ts = length (propagation_targets f)"
    using propagate_from_inv [OF _ p] assms(2) by (simp add: fault_inv_def)
  then have "fault_inv f'" by (intro fault_inv_cong [OF assms(2)]) (use assms(2) in \<open>simp_all add: f' fault_inv_def\<close>)
  then show ?thesis by (simp add: f')
qed

lemma retry_keeps:
  assumes "retry_pending_fault_propagation ops (f, w) = (f', w')" "fault_inv f"
  shows "fault_inv f' \<and> faulted f' = faulted f \<and> latched_cause f' = latched_cause f"
proof -
  obtain ts h where p: "retry_from ops [] (propagation_targets f) (fc_hub f, w) = (ts, h, w')"
    and f': "f' = f\<lparr>propagation_targets := ts, fc_hub := h\<rparr>"
    using assms(1) by (auto simp: retry_pending_fault_propagation_def Let_def split: prod.splits)
  have "history_inv h \<and> length ts = length (propagation_targets f)"
    using retry_from_inv [OF _ p] assms(2) by (simp add: fault_inv_def)
  then have "fault_inv f'" by (intro fault_inv_cong [OF assms(2)]) (use assms(2) in \<open>simp_all add: f' fault_inv_def\<close>)
  then show ?thesis by (simp add: f')
qed

lemma on_hub_keeps:
  assumes "on_hub g (f, w) = (f', w')" "fault_inv f" "history_inv (fst (g (fc_hub f, w)))"
  shows "fault_inv f' \<and> faulted f' = faulted f \<and> latched_cause f' = latched_cause f
    \<and> global_machine f' = global_machine f \<and> fc_hub f' = fst (g (fc_hub f, w))"
proof -
  have f': "f' = f\<lparr>fc_hub := fst (g (fc_hub f, w))\<rparr>" using assms(1) by (auto simp: on_hub_def split: prod.splits)
  have "fault_inv f'" by (intro fault_inv_cong [OF assms(2)]) (use assms(2,3) in \<open>simp_all add: f' fault_inv_def\<close>)
  then show ?thesis by (simp add: f')
qed

lemma publish_fault_diagnostic_keeps:
  assumes "publish_fault_diagnostic ops c (f, w) = (f', w')" "fault_inv f"
  shows "fault_inv f' \<and> faulted f' = faulted f \<and> latched_cause f' = latched_cause f
    \<and> global_machine f' = global_machine f
    \<and> history_list (fc_hub f') = last_of history_capacity
        (history_list (fc_hub f) @ [fst (to_record (op_time (fo_diag ops)) c w)])"
proof -
  have h: "history_inv (fc_hub f)" using assms(2) by (simp add: fault_inv_def)
  have k: "on_hub (\<lambda>(h, w). let (r, w) = to_record (op_time (fo_diag ops)) c w
                       in flush_urgent (fo_diag ops) (publish r h, w)) (f, w) = (f', w')"
    using assms(1) by (simp add: publish_fault_diagnostic_def)
  show ?thesis
    using on_hub_keeps [OF k assms(2)] publish_history [OF h] by (simp add: split_def Let_def)
qed

lemma request_fault_keeps:
  assumes r: "request_fault ops c (f, w) = (f', w')" and i: "fault_inv f"
  shows "fault_inv f' \<and> faulted f' \<and> latched_cause f' = (if faulted f then latched_cause f else c)
    \<and> (\<exists>v hl. history_list (fc_hub f') = last_of history_capacity (hl @ [fst (to_record (op_time (fo_diag ops)) c v)]))"
proof (cases "faulted f")
  case True
  then show ?thesis using r i publish_fault_diagnostic_keeps [of ops c f w f' w']
    by (auto simp: request_fault_def)
next
  case False
  obtain f1 w1 where a: "force_fault_state ops (f\<lparr>latched_cause := c, has_latched_cause := True, faulted := True\<rparr>, w) = (f1, w1)"
    by fastforce
  have A: "fault_inv f1" "faulted f1" "latched_cause f1 = c" using force_fault_state_inv [OF i False a] by auto
  obtain f2 w2 where b: "(if op_eth (fo_diag ops) then propagate_fault ops (f1, w1) else (f1, w1)) = (f2, w2)"
    by fastforce
  have B: "fault_inv f2" "faulted f2" "latched_cause f2 = c"
    using b A propagate_fault_keeps [of ops f1 w1 f2 w2] by (auto split: if_splits)
  have "publish_fault_diagnostic ops c (f2, w2) = (f', w')"
    using r False unfolding request_fault_def Let_def prod.case a b if_True not_False_eq_True
    by (simp only: prod.case a b if_True not_False_eq_True)
  then show ?thesis using publish_fault_diagnostic_keeps [of ops c f2 w2 f' w'] B False by auto
qed

section \<open>Runs of the controller\<close>

text \<open>The calls the board makes: the installation of a policy, the start, a poll, a fault for any
  cause (with the reporters and a peer's order), the registration of a peer, and a flush.\<close>

datatype ('cb, 'g, 'k, 'o) fault_call = Install "('cb, 'g) policy" | StartRuntime | Poll | Request FaultCause
  | ReportFault RuntimeSourceMetadata "string option" | ReportPanic RuntimeSourceMetadata "string option"
  | PeerFault | RegisterPeer "'k option" "'o option" | Flush

fun fault_do :: "('cb, 'g, 's, 'k, 'o, 'w) fault_ops \<Rightarrow> ('cb, 'g, 'k, 'o) fault_call
    \<Rightarrow> ('cb, 'g, 's, 'k, 'o, 'w) fault_world \<Rightarrow> ('cb, 'g, 's, 'k, 'o, 'w) fault_world" where
  "fault_do ops (Install pol) (f, w) = (install_runtime (fo_diag ops) pol f, w)"
| "fault_do ops StartRuntime fw = fault_start ops fw"
| "fault_do ops Poll fw = fault_check_transitions ops fw"
| "fault_do ops (Request c) fw = request_fault ops c fw"
| "fault_do ops (ReportFault loc txt) fw = fault_reporter ops loc txt fw"
| "fault_do ops (ReportPanic loc txt) fw = panic_reporter ops loc txt fw"
| "fault_do ops PeerFault fw = on_fault_order_received ops fw"
| "fault_do ops (RegisterPeer k q) fw = register_fault_propagation ops k q fw"
| "fault_do ops Flush fw = reporter_flush ops fw"

fun is_install :: "('cb, 'g, 'k, 'o) fault_call \<Rightarrow> bool" where
  "is_install (Install pol) = True"
| "is_install _ = False"

lemma flush_history: "history_inv (fst hw) \<Longrightarrow> history_inv (fst (flush d hw))"
  using run_hub_history(2) [of d False "fst (flush_urgent d hw)" "snd (flush_urgent d hw)"] by (simp add: flush_def)

lemma fault_inv_history: "fault_inv f \<Longrightarrow> history_inv (fc_hub f)"
  by (simp add: fault_inv_def)

lemma fault_inv_machine:
  assumes "fault_inv f" "global_machine f = Some m"
  obtains c b ns where "m = runtime_machine c b ns" "in_operational ns" "c < 2"
    "c = (if faulted f then FAULT_STATE else OPERATIONAL)" "rebuild_as_fault f \<noteq> None"
  using assms by (auto simp: fault_inv_def split: if_splits)

lemma fault_inv_replace:
  assumes "fault_inv f" "c = (if faulted f then FAULT_STATE else OPERATIONAL)" "in_operational ns" "rebuild_as_fault f \<noteq> None"
  shows "fault_inv (f\<lparr>runtime_started := s, global_machine := Some (runtime_machine c b ns)\<rparr>)"
    "fault_inv (f\<lparr>global_machine := Some (runtime_machine c b ns)\<rparr>)"
  using assms by (auto simp: fault_inv_def)

lemma fault_start_keeps:
  assumes "fault_start ops (f, w) = (f', w')" "fault_inv f"
  shows "fault_inv f' \<and> faulted f' = faulted f \<and> latched_cause f' = latched_cause f"
proof (cases "global_machine f = None \<or> runtime_started f")
  case True
  then show ?thesis using assms by (auto simp: fault_start_def split: option.splits)
next
  case False
  then obtain m where m: "global_machine f = Some m" "\<not> runtime_started f" by auto
  obtain c b ns where mm: "m = runtime_machine c b ns" "in_operational ns" "c < 2"
    and cc: "c = (if faulted f then FAULT_STATE else OPERATIONAL)" "rebuild_as_fault f \<noteq> None"
    by (rule fault_inv_machine [OF assms(2) m(1)])
  obtain ns' v where s: "start (machine_ops (fo_sm ops) (on_fault_enter f)) m w = (runtime_machine c True ns', v)"
      "in_operational ns'"
    using start_runtime [OF mm(2,3), of "fo_sm ops" "on_fault_enter f" b w] unfolding mm(1) by blast
  define f1 where "f1 = f\<lparr>runtime_started := True, global_machine := Some (runtime_machine c True ns')\<rparr>"
  have i1: "fault_inv f1" unfolding f1_def by (rule fault_inv_replace(1) [OF assms(2) cc(1) s(2) cc(2)])
  have e: "(if faulted f then on_hub (flush_urgent (fo_diag ops)) (f1, v) else (f1, v)) = (f', w')"
    unfolding f1_def using assms(1) m s(1) by (simp add: fault_start_def Let_def split del: if_split)
  have "history_inv (fst (flush_urgent (fo_diag ops) (fc_hub f1, v)))" using i1 by (simp add: fault_inv_def)
  then show ?thesis
    using e i1 on_hub_keeps [of "flush_urgent (fo_diag ops)" f1 v f' w'] by (auto simp: f1_def split: if_splits)
qed

lemma fault_check_keeps:
  assumes "fault_check_transitions ops (f, w) = (f', w')" "fault_inv f"
  shows "fault_inv f' \<and> faulted f' = faulted f \<and> latched_cause f' = latched_cause f"
proof (cases "global_machine f = None \<or> \<not> runtime_started f")
  case True
  then show ?thesis using assms by (auto simp: fault_check_transitions_def split: option.splits)
next
  case False
  then obtain m where m: "global_machine f = Some m" "runtime_started f" by auto
  obtain c b ns where mm: "m = runtime_machine c b ns" "in_operational ns" "c < 2"
    and cc: "c = (if faulted f then FAULT_STATE else OPERATIONAL)" "rebuild_as_fault f \<noteq> None"
    by (rule fault_inv_machine [OF assms(2) m(1)])
  obtain ns' v where s: "check_transitions (machine_ops (fo_sm ops) (on_fault_enter f)) m w = (runtime_machine c b ns', v)"
      "in_operational ns'"
    using check_runtime [OF mm(2), of "machine_ops (fo_sm ops) (on_fault_enter f)" c b w] unfolding mm(1) by blast
  define f1 where "f1 = f\<lparr>global_machine := Some (runtime_machine c b ns')\<rparr>"
  have i1: "fault_inv f1" unfolding f1_def by (rule fault_inv_replace(2) [OF assms(2) cc(1) s(2) cc(2)])
  obtain now v1 where cl: "op_clock (fo_diag ops) v = (now, v1)" by fastforce
  have i2: "fault_inv (f1\<lparr>last_retry_us := now\<rparr>)"
    by (rule fault_inv_cong [OF i1]) (use i1 in \<open>simp_all add: fault_inv_def\<close>)
  have "(f', w') = (f1, v) \<or> (f', w') = (f1, v1)
      \<or> retry_pending_fault_propagation ops (f1\<lparr>last_retry_us := now\<rparr>, v1) = (f', w')"
    using assms(1) m s(1) cl by (auto simp: fault_check_transitions_def f1_def Let_def split: if_splits)
  then show ?thesis
    using i1 retry_keeps [of ops "f1\<lparr>last_retry_us := now\<rparr>" v1 f' w', OF _ i2] by (auto simp: f1_def)
qed

lemma register_keeps:
  assumes "register_fault_propagation ops k q (f, w) = (f', w')" "fault_inv f"
  shows "fault_inv f' \<and> faulted f' = faulted f \<and> latched_cause f' = latched_cause f"
proof -
  have "f' = f \<or> length (propagation_targets f) < max_propagation_targets
      \<and> (\<exists>t. f' = f\<lparr>propagation_targets := propagation_targets f @ [t]\<rparr>)"
    using assms(1) by (auto simp: register_fault_propagation_def Let_def not_le split: option.splits if_splits)
  then show ?thesis
  proof (elim disjE conjE exE)
    fix t assume t: "length (propagation_targets f) < max_propagation_targets"
      "f' = f\<lparr>propagation_targets := propagation_targets f @ [t]\<rparr>"
    have "fault_inv f'" by (rule fault_inv_cong [OF assms(2)]) (use t assms(2) in \<open>simp_all add: fault_inv_def\<close>)
    then show ?thesis by (simp add: t)
  qed (use assms(2) in simp)
qed

lemma fault_do_keeps:
  assumes "fault_do ops c (f, w) = (f', w')" "fault_inv f"
  shows "fault_inv f' \<and> (faulted f \<and> \<not> is_install c \<longrightarrow> faulted f' \<and> latched_cause f' = latched_cause f)"
proof (cases c)
  case (Install pol)
  then show ?thesis using assms install_inv [of f "fo_diag ops" pol] by (simp add: fault_inv_def)
next
  case Flush
  then show ?thesis
    using assms on_hub_keeps [of "flush (fo_diag ops)" f w f' w'] flush_history [of "(fc_hub f, w)" "fo_diag ops"]
    by (simp add: reporter_flush_def fault_inv_history)
next
  case (Request d)
  then show ?thesis using assms by (auto dest!: request_fault_keeps split: if_splits)
next
  case (ReportFault l t)
  then show ?thesis using assms by (auto simp: fault_reporter_def dest!: request_fault_keeps split: prod.splits)
next
  case (ReportPanic l t)
  then show ?thesis using assms by (auto simp: panic_reporter_def dest!: request_fault_keeps split: prod.splits)
next
  case PeerFault
  then show ?thesis using assms by (auto simp: on_fault_order_received_def dest!: request_fault_keeps)
qed (use assms in \<open>auto dest!: fault_start_keeps fault_check_keeps register_keeps\<close>)

lemma fault_run_keeps:
  assumes "fold (fault_do ops) cs (f, w) = (f', w')" "fault_inv f"
  shows "fault_inv f' \<and> (faulted f \<and> list_all (\<lambda>c. \<not> is_install c) cs \<longrightarrow> faulted f' \<and> latched_cause f' = latched_cause f)"
  using assms
proof (induction cs arbitrary: f w)
  case (Cons c cs)
  obtain f1 w1 where c: "fault_do ops c (f, w) = (f1, w1)" by fastforce
  have "fold (fault_do ops) cs (f1, w1) = (f', w')" using Cons.prems(1) c by simp
  then show ?case using Cons.IH [of f1 w1] fault_do_keeps [OF c Cons.prems(2)] by auto
qed simp

lemma init_fault_inv: "fault_inv init_fault_ctl"
  by (simp add: fault_inv_def init_fault_ctl_def)


text \<open>The first cause stays: once a fault has been requested, no later call (a further fault, a
  start, a poll, a peer's order) changes the latched cause or clears the fault; only installing a
  new policy over an installed one does.\<close>

theorem first_cause_stays:
  assumes "fold (fault_do ops) cs (init_fault_ctl, w) = (f, w1)" and "\<not> is_faulted f"
    and "request_fault ops c (f, w1) = (f1, w2)"
    and "fold (fault_do ops) ds (f1, w2) = (f', w')" and "list_all (\<lambda>d. \<not> is_install d) ds"
  shows "is_faulted f' \<and> latched_fault_cause f' = Some c"
proof -
  have i: "fault_inv f" using fault_run_keeps [OF assms(1) init_fault_inv] by simp
  have r: "fault_inv f1" "faulted f1" "latched_cause f1 = c"
    using request_fault_keeps [OF assms(3) i] assms(2) by (auto simp: is_faulted_def)
  then show ?thesis
    using fault_run_keeps [OF assms(4) r(1)] assms(5)
    by (auto simp: is_faulted_def latched_fault_cause_def fault_inv_def)
qed

text \<open>C13. Every request is reported, the first and every later one: when it returns, the newest record
  of the history is an urgent one of severity fault for its cause.\<close>

theorem every_request_reported:
  assumes "fold (fault_do ops) cs (init_fault_ctl, w) = (f, w1)"
    and "request_fault ops c (f, w1) = (f', w')"
  shows "history_list (fc_hub f') \<noteq> [] \<and> priority (last (history_list (fc_hub f'))) = URGENT
    \<and> severity (last (history_list (fc_hub f'))) = SEV_FAULT
    \<and> category (last (history_list (fc_hub f')))
        = (case fc_kind c of PANIC \<Rightarrow> RUNTIME_PANIC | CAUSE_RUNTIME_FAULT \<Rightarrow> RUNTIME_FAULT | PROTECTION \<Rightarrow> PROTECTION_EVENT)"
proof -
  have i: "fault_inv f" using fault_run_keeps [OF assms(1) init_fault_inv] by simp
  obtain v hl where h: "history_list (fc_hub f') = last_of history_capacity (hl @ [fst (to_record (op_time (fo_diag ops)) c v)])"
    using request_fault_keeps [OF assms(2) i] by blast
  have l: "history_list (fc_hub f') \<noteq> []" "last (history_list (fc_hub f')) = fst (to_record (op_time (fo_diag ops)) c v)"
    by (simp_all add: h last_of_snoc history_capacity_def)
  then show ?thesis
    by (simp add: to_record_def record_runtime_panic_def record_runtime_fault_def runtime_record_def
        record_protection_event_def Let_def split_def split: FaultCauseKind.split)
qed

section \<open>Propagation\<close>

text \<open>What a sending to a peer leaves in a journal of the world: who was sent what, and whether it
  succeeded. The clock, the timestamps and the sinks leave the journal alone.\<close>

definition journals :: "('w \<Rightarrow> ('k \<times> 'o \<times> bool) list) \<Rightarrow> ('cb, 'g, 's, 'k, 'o, 'w) fault_ops \<Rightarrow> bool" where
  "journals jn ops \<longleftrightarrow>
     (\<forall>k q w. jn (snd (fo_send ops k q w)) = jn w @ [(k, q, fst (fo_send ops k q w))])
     \<and> (\<forall>w. jn (snd (op_time (fo_diag ops) w)) = jn w) \<and> (\<forall>w. jn (snd (op_clock (fo_diag ops) w)) = jn w)
     \<and> (\<forall>s r w. jn (snd (op_sink (fo_diag ops) s r w)) = jn w)"

lemma journals_send: "journals jn ops \<Longrightarrow> fo_send ops k q w = (ok, w') \<Longrightarrow> jn w' = jn w @ [(k, q, ok)]"
  unfolding journals_def by (metis fst_conv snd_conv)

lemma deliver_journal: "journals jn ops \<Longrightarrow> jn (snd (snd (deliver (fo_diag ops) now r i ss m lst w))) = jn w"
proof (induction ss arbitrary: i m lst w)
  case (Cons s ss)
  have "jn (snd (op_sink (fo_diag ops) s r w)) = jn w" using Cons.prems by (simp add: journals_def)
  then show ?case using Cons.IH [OF Cons.prems] by (auto simp: Let_def split: prod.splits)
qed simp

lemma flush_records_journal:
  "journals jn ops \<Longrightarrow> jn (snd (snd (flush_records (fo_diag ops) u now ss ps lst w))) = jn w"
proof (induction ps arbitrary: lst w)
  case (Cons p ps)
  then show ?case
    using deliver_journal [OF Cons.prems] by (cases p) (auto simp: Let_def split: prod.splits, (metis snd_conv)+)
qed simp

lemma flush_urgent_journal: "journals jn ops \<Longrightarrow> jn (snd (flush_urgent (fo_diag ops) (h, w))) = jn w"
proof -
  assume j: "journals jn ops"
  have c: "jn (snd (op_clock (fo_diag ops) w)) = jn w" using j by (simp add: journals_def)
  show ?thesis
    using flush_records_journal [OF j] c
    by (auto simp: flush_urgent_def flush_pending_def Let_def split: prod.splits if_splits, (metis snd_conv)+)
qed

lemma publish_journal:
  assumes "journals jn ops"
  shows "jn (snd (publish_runtime_warning (fo_diag ops) msg b n func src (h, w))) = jn w"
    and "jn (snd (publish_runtime_info (fo_diag ops) msg b n func src (h, w))) = jn w"
proof -
  have "jn (snd (op_time (fo_diag ops) w)) = jn w" using assms by (simp add: journals_def)
  then show "jn (snd (publish_runtime_warning (fo_diag ops) msg b n func src (h, w))) = jn w"
    "jn (snd (publish_runtime_info (fo_diag ops) msg b n func src (h, w))) = jn w"
    by (simp_all add: publish_runtime_warning_def publish_runtime_info_def record_runtime_warning_def
        record_runtime_info_def runtime_record_def split_def Let_def)
qed

definition peers :: "('k, 'o) FaultPropagationTarget list \<Rightarrow> ('k \<times> 'o) list" where
  "peers ts = map (\<lambda>t. (tg_socket t, tg_fault_order t)) ts"

lemma peers_simps [simp]: "peers [] = []" "peers (t # ts) = (tg_socket t, tg_fault_order t) # peers ts"
  "peers (ts @ us) = peers ts @ peers us"
  by (simp_all add: peers_def)

text \<open>Those a list of attempts to send did not reach.\<close>

definition unreached :: "('k \<times> 'o \<times> bool) list \<Rightarrow> ('k \<times> 'o) list" where
  "unreached es = map (\<lambda>(k, q, ok). (k, q)) (filter (\<lambda>(k, q, ok). \<not> ok) es)"

lemma unreached_simps [simp]: "unreached [] = []" "unreached ((k, q, ok) # es) = (if ok then unreached es else (k, q) # unreached es)"
  by (simp_all add: unreached_def)

definition receivers :: "('k \<times> 'o \<times> bool) list \<Rightarrow> ('k \<times> 'o) list" where
  "receivers es = map (\<lambda>(k, q, ok). (k, q)) es"

lemma receivers_simps [simp]: "receivers [] = []" "receivers ((k, q, ok) # es) = (k, q) # receivers es"
  by (simp_all add: receivers_def)

lemma propagate_from_journal:
  assumes j: "journals jn ops"
  shows "propagate_from ops done ts (h, w) = (ts', h', w') \<Longrightarrow>
    \<exists>es us. jn w' = jn w @ es \<and> receivers es = peers ts \<and> ts' = done @ us \<and> peers us = peers ts
      \<and> peers (filter tg_pending us) = unreached es"
proof (induction ts arbitrary: "done" h w)
  case (Cons t ts)
  obtain ok w1 where s: "fo_send ops (tg_socket t) (tg_fault_order t) w = (ok, w1)" by fastforce
  have js: "jn w1 = jn w @ [(tg_socket t, tg_fault_order t, ok)]" by (rule journals_send [OF j s])
  define t' where "t' = t\<lparr>tg_pending := \<not> ok\<rparr>"
  obtain h2 w2 where p: "propagate_from ops (done @ [t']) ts (h2, w2) = (ts', h', w')" and j2: "jn w2 = jn w1"
  proof (cases ok)
    case True
    then show ?thesis using Cons.prems s that [of h w1] by (simp add: t'_def Let_def)
  next
    case False
    let ?hw = "publish_runtime_warning (fo_diag ops) (Some ''FAULT order propagation failed, will retry'') False 221
        (Some ''propagate_fault'') (Some (fo_file ops)) (h, w1)"
    have "jn (snd (flush_urgent (fo_diag ops) ?hw)) = jn w1"
      using flush_urgent_journal [OF j, of "fst ?hw" "snd ?hw"] publish_journal(1) [OF j] by simp
    then show ?thesis using Cons.prems s False
      that [of "fst (flush_urgent (fo_diag ops) ?hw)" "snd (flush_urgent (fo_diag ops) ?hw)"]
      by (simp add: t'_def Let_def)
  qed
  obtain es us where i: "jn w' = jn w2 @ es" "receivers es = peers ts" "ts' = (done @ [t']) @ us" "peers us = peers ts"
      "peers (filter tg_pending us) = unreached es"
    using Cons.IH [OF p] by blast
  show ?case
    by (rule exI [of _ "(tg_socket t, tg_fault_order t, ok) # es"], rule exI [of _ "t' # us"])
      (simp add: i js j2 t'_def)
qed simp

lemma retry_from_journal:
  assumes j: "journals jn ops"
  shows "retry_from ops done ts (h, w) = (ts', h', w') \<Longrightarrow>
    \<exists>es us. jn w' = jn w @ es \<and> receivers es = peers (filter tg_pending ts) \<and> ts' = done @ us \<and> peers us = peers ts
      \<and> peers (filter tg_pending us) = unreached es"
proof (induction ts arbitrary: "done" h w)
  case (Cons t ts)
  show ?case
  proof (cases "tg_pending t")
    case False
    then have p: "retry_from ops (done @ [t]) ts (h, w) = (ts', h', w')" using Cons.prems by simp
    obtain es us where i: "jn w' = jn w @ es" "receivers es = peers (filter tg_pending ts)" "ts' = (done @ [t]) @ us"
        "peers us = peers ts" "peers (filter tg_pending us) = unreached es"
      using Cons.IH [OF p] by blast
    show ?thesis by (rule exI [of _ es], rule exI [of _ "t # us"]) (simp add: i False)
  next
    case True
    obtain ok w1 where s: "fo_send ops (tg_socket t) (tg_fault_order t) w = (ok, w1)" by fastforce
    have js: "jn w1 = jn w @ [(tg_socket t, tg_fault_order t, ok)]" by (rule journals_send [OF j s])
    define t' where "t' = (if ok then t\<lparr>tg_pending := False\<rparr> else t)"
    obtain h2 w2 where p: "retry_from ops (done @ [t']) ts (h2, w2) = (ts', h', w')" and j2: "jn w2 = jn w1"
    proof (cases ok)
      case False
      then show ?thesis using Cons.prems s True that [of h w1] by (simp add: t'_def Let_def)
    next
      case ok: True
      let ?hw = "publish_runtime_info (fo_diag ops) (Some ''FAULT order propagation succeeded after retry'') False 240
          (Some ''retry_pending_fault_propagation'') (Some (fo_file ops)) (h, w1)"
      have "jn (snd (flush_urgent (fo_diag ops) ?hw)) = jn w1"
        using flush_urgent_journal [OF j, of "fst ?hw" "snd ?hw"] publish_journal(2) [OF j] by simp
      then show ?thesis using Cons.prems s True ok
        that [of "fst (flush_urgent (fo_diag ops) ?hw)" "snd (flush_urgent (fo_diag ops) ?hw)"]
        by (simp add: t'_def Let_def)
    qed
    obtain es us where i: "jn w' = jn w2 @ es" "receivers es = peers (filter tg_pending ts)" "ts' = (done @ [t']) @ us"
        "peers us = peers ts" "peers (filter tg_pending us) = unreached es"
      using Cons.IH [OF p] by blast
    show ?thesis
      by (rule exI [of _ "(tg_socket t, tg_fault_order t, ok) # es"], rule exI [of _ "t' # us"])
        (simp add: i js j2 t'_def True)
  qed
qed simp

text \<open>C14. A fault is sent to every registered peer once, in the order of registration, and stays pending
  for exactly those it could not be sent to; a retry sends it again to exactly the pending ones, and
  what stays pending is what failed again. No peer that took the order gets it a second time, and
  none that did not is forgotten.\<close>

theorem peers_told_until_reached:
  assumes "journals jn ops"
  shows "(propagate_fault ops (f, w) = (f', w') \<longrightarrow>
      (\<exists>es. jn w' = jn w @ es \<and> receivers es = peers (propagation_targets f)
        \<and> peers (propagation_targets f') = peers (propagation_targets f)
        \<and> peers (filter tg_pending (propagation_targets f')) = unreached es))
    \<and> (retry_pending_fault_propagation ops (f, w) = (f', w') \<longrightarrow>
      (\<exists>es. jn w' = jn w @ es \<and> receivers es = peers (filter tg_pending (propagation_targets f))
        \<and> peers (propagation_targets f') = peers (propagation_targets f)
        \<and> peers (filter tg_pending (propagation_targets f')) = unreached es))"
proof (intro conjI impI)
  assume "propagate_fault ops (f, w) = (f', w')"
  then obtain ts h where p: "propagate_from ops [] (propagation_targets f) (fc_hub f, w) = (ts, h, w')"
    and f': "f' = f\<lparr>propagation_targets := ts, fc_hub := h\<rparr>"
    by (auto simp: propagate_fault_def Let_def split: prod.splits)
  show "\<exists>es. jn w' = jn w @ es \<and> receivers es = peers (propagation_targets f)
        \<and> peers (propagation_targets f') = peers (propagation_targets f)
        \<and> peers (filter tg_pending (propagation_targets f')) = unreached es"
    using propagate_from_journal [OF assms p] by (auto simp: f')
next
  assume "retry_pending_fault_propagation ops (f, w) = (f', w')"
  then obtain ts h where p: "retry_from ops [] (propagation_targets f) (fc_hub f, w) = (ts, h, w')"
    and f': "f' = f\<lparr>propagation_targets := ts, fc_hub := h\<rparr>"
    by (auto simp: retry_pending_fault_propagation_def Let_def split: prod.splits)
  show "\<exists>es. jn w' = jn w @ es \<and> receivers es = peers (filter tg_pending (propagation_targets f))
        \<and> peers (propagation_targets f') = peers (propagation_targets f)
        \<and> peers (filter tg_pending (propagation_targets f')) = unreached es"
    using retry_from_journal [OF assms p] by (auto simp: f')
qed

section \<open>Protections and the runtime\<close>

lemma publish_events_history: "history_inv (fst hw) \<Longrightarrow> history_inv (fst (publish_events d name vs hw))"
  by (induction d name vs hw rule: publish_events.induct)
    (auto simp: publish_protection_event_def publish_history(1) split: prod.splits)

text \<open>C12. A protection in fault brings the board into the fault state: when one of its rules is in fault
  at an evaluation, then after that evaluation the runtime is in fault with its machine in the fault
  state, and if no fault had been requested before, this protection is the latched cause, with the
  edge and snapshot of its first faulting rule. The delay between two reports of the same protection
  does not weaken this, because a protection that has reported before has put the runtime in fault
  already. Where no rule is in fault, the evaluation changes neither the fault nor its cause.\<close>

theorem protection_fault_reaches_runtime:
  assumes "fold (fault_do ops) cs (init_fault_ctl, w0) = (f, w)"
    and "last_fault_publish_tick p \<noteq> 0 \<longrightarrow> is_faulted f"
    and "read w = (s, w1)" and "evaluate_protection r (op_clock (fo_diag ops)) s p w1 = (e, p1, w2)"
    and "evaluate_one r ops read p (f, w) = (p', (f', w'))"
  shows "(has_active_fault e \<longrightarrow> is_faulted f'
        \<and> (case global_machine f' of None \<Rightarrow> True | Some m \<Rightarrow> current_state m = FAULT_STATE)
        \<and> (\<not> is_faulted f \<longrightarrow> latched_fault_cause f' =
             Some (cause_protection (Some (pr_name p)) (active_fault_edge e) (active_fault_snapshot e))))
    \<and> (\<not> has_active_fault e \<longrightarrow> is_faulted f' = is_faulted f \<and> latched_fault_cause f' = latched_fault_cause f)
    \<and> (last_fault_publish_tick p' \<noteq> 0 \<longrightarrow> is_faulted f')"
proof -
  have i: "fault_inv f" using fault_run_keeps [OF assms(1) init_fault_inv] by simp
  have p1: "pr_name p1 = pr_name p" "last_fault_publish_tick p1 = last_fault_publish_tick p"
    using assms(4) by (auto simp: evaluate_protection_def Let_def split: prod.splits)
  obtain f2 w3 where ev: "publish_edge_events ops p1 e (f, w2) = (f2, w3)" by fastforce
  have i2: "fault_inv f2" "faulted f2 = faulted f" "latched_cause f2 = latched_cause f"
    using ev on_hub_keeps [of "publish_events (fo_diag ops) (pr_name p1) (events e)" f w2 f2 w3] i
      publish_events_history [of "(fc_hub f, w2)" "fo_diag ops" "pr_name p1" "events e"]
    by (auto simp: publish_edge_events_def fault_inv_history)
  have one: "(if has_active_fault e then request_fault_if_due ops p1 e (f2, w3) else (p1, (f2, w3))) = (p', (f', w'))"
    using assms(5) unfolding evaluate_one_def Let_def prod.case assms(3,4) ev .
  have obs: "fault_inv g \<Longrightarrow> faulted g \<Longrightarrow> (case global_machine g of None \<Rightarrow> True | Some m \<Rightarrow> current_state m = FAULT_STATE)"
    "fault_inv g \<Longrightarrow> latched_fault_cause g = (if faulted g then Some (latched_cause g) else None)"
    for g :: "('a, 'b, 'c, 'd, 'e) fault_ctl"
    by (auto simp: fault_inv_def latched_fault_cause_def split: option.splits)
  show ?thesis
  proof (cases "has_active_fault e")
    case False
    then show ?thesis using one i i2 assms(2) p1 obs(2) [OF i] obs(2) [OF i2(1)] by (auto simp: is_faulted_def)
  next
    case True
    obtain tick w4 where c: "op_clock (fo_diag ops) w3 = (tick, w4)" by fastforce
    show ?thesis
    proof (cases "last_fault_publish_tick p1 \<noteq> 0 \<and> tick - last_fault_publish_tick p1 < notify_delay_in_microseconds")
      case due: True
      then have "p' = p1 \<and> f' = f2" using one True c by (simp add: request_fault_if_due_def)
      then show ?thesis using due i2 assms(2) p1 True obs(1) [OF i2(1)] by (auto simp: is_faulted_def)
    next
      case due: False
      then have q: "request_fault ops (cause_protection (Some (pr_name p)) (active_fault_edge e)
            (active_fault_snapshot e)) (f2, w4) = (f', w')"
        using one True c p1 by (auto simp: request_fault_if_due_def Let_def split: if_splits)
      note k = request_fault_keeps [OF q i2(1)]
      then show ?thesis using True i2 obs(1) [of f'] obs(2) [of f'] by (auto simp: is_faulted_def)
    qed
  qed
qed


section \<open>Witnesses\<close>

text \<open>A board with a clock, a journal of what it sent, and a sink that takes everything; the peer 0
  does not answer.\<close>

type_synonym demo_world = "u64 \<times> (nat \<times> nat \<times> bool) list"

definition demo_sm :: "(nat, nat, demo_world) sm_ops" where
  "demo_sm = \<lparr>op_run = \<lambda>c w. w, op_ask = \<lambda>g w. (False, w), op_register = \<lambda>p c w. (0, w),
     op_unregister = \<lambda>i w. (True, w), op_panic = \<lambda>s w. w, op_add_orders = \<lambda>ids w. w, op_remove_orders = \<lambda>ids w. w\<rparr>"

definition demo_diag :: "(nat, demo_world) diag_ops" where
  "demo_diag = \<lparr>op_eth = True, op_time = \<lambda>w. (zero_timestamp, w), op_clock = \<lambda>(t, j). (t, (t + 1000, j)),
     op_sink = \<lambda>s r w. (True, w)\<rparr>"

definition demo_fault :: "(nat, nat, nat, nat, nat, demo_world) fault_ops" where
  "demo_fault = \<lparr>fo_sm = demo_sm, fo_diag = demo_diag,
     fo_send = \<lambda>k q (t, j). (k \<noteq> 0, (t, j @ [(k, q, k \<noteq> 0)])), fo_set_callback = \<lambda>q w. w,
     fo_file = ''FaultController.cpp''\<rparr>"

definition demo_policy :: "(nat, nat) policy" where
  "demo_policy = \<lparr>operational_machine = None, pol_on_fault_enter = Some 5\<rparr>"

definition demo_calls :: "(nat, nat, nat, nat) fault_call list" where
  "demo_calls = [Install demo_policy, RegisterPeer (Some 0) (Some 7), RegisterPeer (Some 1) (Some 7), StartRuntime]"

lemma demo_journals: "journals snd demo_fault"
  by (simp add: journals_def demo_fault_def demo_diag_def split_def)

lemma demo_running:
  "case fold (fault_do demo_fault) demo_calls (init_fault_ctl, (5, [])) of
     (f, w) \<Rightarrow> \<not> is_faulted f \<and> global_machine f \<noteq> None \<and> runtime_started f"
proof -
  have s: "start (machine_ops demo_sm e) (runtime_machine OPERATIONAL False []) w = (runtime_machine OPERATIONAL True [], w)" for e w
    by (subst start.simps)
      (simp add: OPERATIONAL_def machine_enter_runtime(1) nested_do_none Let_def)
  show ?thesis
    by (simp add: demo_calls_def install_runtime_def init_fault_ctl_def reconstruct_fields Let_def
        register_fault_propagation_def max_propagation_targets_def fault_start_def demo_policy_def s
        is_faulted_def demo_fault_def demo_diag_def)
qed


lemma first_cause_stays_witness:
  "\<exists>f w. fold (fault_do demo_fault) (demo_calls @ [Request init_cause, PeerFault, Poll]) (init_fault_ctl, (5, [])) = (f, w)
     \<and> latched_fault_cause f = Some init_cause"
proof -
  obtain f w where e: "fold (fault_do demo_fault) demo_calls (init_fault_ctl, (5, [])) = (f, w)" by (rule prod.exhaust)
  have n: "\<not> is_faulted f" using demo_running by (simp add: e)
  obtain f1 w1 where r: "request_fault demo_fault init_cause (f, w) = (f1, w1)" by (rule prod.exhaust)
  obtain f2 w2 where d: "fold (fault_do demo_fault) [PeerFault, Poll] (f1, w1) = (f2, w2)" by (rule prod.exhaust)
  show ?thesis using first_cause_stays [OF e n r d] e r d by simp
qed

lemma every_request_reported_witness:
  "\<exists>f w f' w'. fold (fault_do demo_fault) demo_calls (init_fault_ctl, (5, [])) = (f, w)
     \<and> request_fault demo_fault init_cause (f, w) = (f', w')
     \<and> category (last (history_list (fc_hub f'))) = RUNTIME_PANIC"
proof -
  obtain f w where e: "fold (fault_do demo_fault) demo_calls (init_fault_ctl, (5, [])) = (f, w)" by (rule prod.exhaust)
  obtain f1 w1 where r: "request_fault demo_fault init_cause (f, w) = (f1, w1)" by (rule prod.exhaust)
  show ?thesis using every_request_reported [OF e r] e r by (auto simp: init_cause_def)
qed

definition demo_peers :: "(nat, nat, nat, nat, nat) fault_ctl" where
  "demo_peers = init_fault_ctl\<lparr>propagation_targets :=
     [\<lparr>tg_socket = 0, tg_fault_order = 7, tg_pending = False\<rparr>, \<lparr>tg_socket = 1, tg_fault_order = 7, tg_pending = False\<rparr>]\<rparr>"

lemma peers_told_until_reached_witness:
  "case propagate_fault demo_fault (demo_peers, (5, [])) of
     (f', w') \<Rightarrow> receivers (snd w') = [(0, 7), (1, 7)]
       \<and> peers (filter tg_pending (propagation_targets f')) = unreached (snd w')"
proof -
  obtain f' w' where e: "propagate_fault demo_fault (demo_peers, (5, [])) = (f', w')" by (rule prod.exhaust)
  show ?thesis
    using peers_told_until_reached [OF demo_journals, of demo_peers "(5, [])" f' w'] e
    by (auto simp: demo_peers_def)
qed

lemma protection_fault_reaches_runtime_witness:
  "\<exists>f w p' f' w'. fold (fault_do demo_fault) demo_calls (init_fault_ctl, (5, [])) = (f, w)
     \<and> evaluate_one ideal demo_fault (\<lambda>w. (SSigned 30, w)) (make_protection ideal ''bus'' [EqualsRuleConfig (SSigned 30)]) (f, w)
         = (p', (f', w')) \<and> is_faulted f'"
proof -
  let ?p = "make_protection ideal ''bus'' [EqualsRuleConfig (SSigned 30)]" and ?rd = "\<lambda>w :: demo_world. (SSigned 30, w)"
  obtain f w where e: "fold (fault_do demo_fault) demo_calls (init_fault_ctl, (5, [])) = (f, w)" by (rule prod.exhaust)
  obtain ev p1 w2 where v: "evaluate_protection ideal (op_clock (fo_diag demo_fault)) (SSigned 30) ?p w = (ev, p1, w2)"
    by (metis prod_cases3)
  have a: "has_active_fault ev"
    using v by (auto simp: evaluate_protection_def make_protection_def evaluate_rule_def EqualsEvaluator_def
        combine_def Let_def advance_def max_rules_per_protection_def)
  obtain p' f' w' where o: "evaluate_one ideal demo_fault ?rd ?p (f, w) = (p', (f', w'))" by (metis prod_cases3)
  have "last_fault_publish_tick ?p \<noteq> 0 \<longrightarrow> is_faulted f" by (simp add: make_protection_def)
  then show ?thesis
    using protection_fault_reaches_runtime [OF e _ refl v o] a e o by blast
qed

end
