(* ===== verification/Packets.thy ===== *)
theory Packets
  imports Transport
begin

unbundle bit_operations_syntax

text \<open>
  The packets and orders of \<open>Inc/HALAL/Models/Packets\<close>: values bound to variables of the program,
  packets that build a frame out of them and parse a frame into them, the two registries
  (\<open>Packet::packets\<close> and \<open>Order::orders\<close>) and the dispatch of a received frame.

  A variable of the program is a number, and a \<open>store\<close> gives its bytes, so that two values bound
  to one variable alias as they do in the code. The bytes of a container are those of its
  \<open>data()\<close>, the bytes of a string its characters and the terminator. A read past the received
  data, a write past a buffer and a string without its terminator are undefined in C++: an
  operation that meets one is \<open>None\<close>.
\<close>

section \<open>Values\<close>

type_synonym store = "nat \<Rightarrow> u8 list"

text \<open>The specialisations of \<open>PacketValue\<close>: a variable with \<open>sizeof(Type)\<close>; a container with the
  size of its elements; a string; an array; an array of pointers to variables.\<close>

datatype packet_value =
    Scalar nat nat
  | Cont nat nat
  | Str nat
  | Arr nat nat nat
  | PtrArr "nat list" nat

definition c_strlen :: "u8 list \<Rightarrow> nat" where
  "c_strlen bs = length (takeWhile (\<lambda>b. b \<noteq> 0) bs)"

fun value_size :: "packet_value \<Rightarrow> store \<Rightarrow> nat" where
  "value_size (Scalar a n) st = n"
| "value_size (Cont a e) st = (length (st a) div e) * e"
| "value_size (Str a) st = c_strlen (st a) + 1"
| "value_size (Arr a n e) st = n * e"
| "value_size (PtrArr ts e) st = length ts * e"

text \<open>\<open>strlen\<close> finds the terminator of the string a value is bound to.\<close>

fun terminated :: "packet_value \<Rightarrow> store \<Rightarrow> bool" where
  "terminated (Str a) st \<longleftrightarrow> 0 \<in> set (st a)"
| "terminated v st \<longleftrightarrow> True"

definition memcpy_into :: "u8 list \<Rightarrow> nat \<Rightarrow> u8 list \<Rightarrow> u8 list" where
  "memcpy_into dst n src = take n src @ drop n dst"

definition write_var :: "nat \<Rightarrow> nat \<Rightarrow> u8 list \<Rightarrow> store \<Rightarrow> store" where
  "write_var a n data st = st(a := memcpy_into (st a) n data)"

fun write_targets :: "nat list \<Rightarrow> nat \<Rightarrow> u8 list \<Rightarrow> store \<Rightarrow> store" where
  "write_targets [] e data st = st"
| "write_targets (a # ts) e data st = write_targets ts e (drop e data) (write_var a e data st)"

fun write_value :: "packet_value \<Rightarrow> u8 list \<Rightarrow> store \<Rightarrow> store" where
  "write_value (Scalar a n) data st = write_var a n data st"
| "write_value (Cont a e) data st = write_var a (value_size (Cont a e) st) data st"
| "write_value (Str a) data st = write_var a (value_size (Str a) st) data st"
| "write_value (Arr a n e) data st = write_var a (n * e) data st"
| "write_value (PtrArr ts e) data st = write_targets ts e data st"

text \<open>\<open>parse\<close>: copies as many bytes as the value has now.\<close>

definition value_parse :: "packet_value \<Rightarrow> u8 list \<Rightarrow> store \<Rightarrow> store option" where
  "value_parse v data st =
     (if \<not> terminated v st \<or> length data < value_size v st then None
      else Some (write_value v data st))"

text \<open>The bytes \<open>copy_to\<close> writes.\<close>

fun value_bytes :: "packet_value \<Rightarrow> store \<Rightarrow> u8 list" where
  "value_bytes (Scalar a n) st = take n (st a)"
| "value_bytes (Cont a e) st = take (value_size (Cont a e) st) (st a)"
| "value_bytes (Str a) st = take (value_size (Str a) st) (st a)"
| "value_bytes (Arr a n e) st = take (n * e) (st a)"
| "value_bytes (PtrArr ts e) st = concat (map (\<lambda>a. take e (st a)) ts)"

definition value_copy_to :: "packet_value \<Rightarrow> store \<Rightarrow> nat \<Rightarrow> u8 list \<Rightarrow> u8 list option" where
  "value_copy_to v st off buf =
     (if \<not> terminated v st \<or> length buf < off + value_size v st then None
      else Some (take off buf @ value_bytes v st @ drop (off + value_size v st) buf))"

section \<open>Packets\<close>

text \<open>\<open>Sized n\<close>: \<open>StackPacket<n, Types...>\<close> with its own buffer. \<open>Unsized\<close>:
  \<open>StackPacket<0, Types...>\<close> and \<open>HeapPacket\<close>, which allocate it. \<open>Bare\<close>: \<open>StackPacket<0>\<close>.\<close>

datatype packet_kind = Sized nat | Unsized | Bare

record packet =
  pk_kind :: packet_kind
  pk_id :: u16
  pk_values :: "packet_value list"
  pk_size :: nat
  pk_buffer :: "u8 list option"
  pk_buffer_size :: nat

definition id_bytes :: nat where
  "id_bytes = 2"

definition stack_packet :: "nat \<Rightarrow> u16 \<Rightarrow> packet_value list \<Rightarrow> u8 list \<Rightarrow> packet" where
  "stack_packet len i vs garbage =
     \<lparr>pk_kind = Sized len, pk_id = i, pk_values = vs, pk_size = len + id_bytes,
      pk_buffer = Some garbage, pk_buffer_size = 0\<rparr>"

definition heap_packet :: "u16 \<Rightarrow> packet_value list \<Rightarrow> packet" where
  "heap_packet i vs =
     \<lparr>pk_kind = Unsized, pk_id = i, pk_values = vs, pk_size = 0, pk_buffer = None, pk_buffer_size = 0\<rparr>"

definition bare_packet :: "u16 \<Rightarrow> packet" where
  "bare_packet i =
     \<lparr>pk_kind = Bare, pk_id = i, pk_values = [], pk_size = id_bytes, pk_buffer = None, pk_buffer_size = 0\<rparr>"

definition values_size :: "packet_value list \<Rightarrow> store \<Rightarrow> nat" where
  "values_size vs st = fold (\<lambda>v n. n + value_size v st) vs 0"

definition get_size :: "packet \<Rightarrow> store \<Rightarrow> nat" where
  "get_size p st =
     (case pk_kind p of
        Sized n \<Rightarrow> pk_size p
      | Unsized \<Rightarrow> values_size (pk_values p) st + id_bytes
      | Bare \<Rightarrow> id_bytes)"

fun copy_values :: "packet_value list \<Rightarrow> store \<Rightarrow> nat \<Rightarrow> u8 list \<Rightarrow> u8 list option" where
  "copy_values [] st off buf = Some buf"
| "copy_values (v # vs) st off buf =
     (case value_copy_to v st off buf of
        None \<Rightarrow> None
      | Some buf \<Rightarrow> copy_values vs st (off + value_size v st) buf)"

definition fill_buffer :: "packet \<Rightarrow> store \<Rightarrow> u8 list \<Rightarrow> u8 list option" where
  "fill_buffer p st buf =
     (if length buf < id_bytes then None
      else copy_values (pk_values p) st id_bytes (bytes16 (pk_id p) @ drop id_bytes buf))"

text \<open>The allocation rule of \<open>build\<close>; \<open>fresh\<close> are the bytes a new array happens to hold.\<close>

definition prepare_buffer :: "packet \<Rightarrow> store \<Rightarrow> (nat \<Rightarrow> u8 list) \<Rightarrow> packet" where
  "prepare_buffer p st fresh =
     (let n = get_size p st; p = p\<lparr>pk_size := n\<rparr> in
      case pk_buffer p of
        Some b \<Rightarrow>
          (if n > pk_buffer_size p \<or> n < pk_buffer_size p div 2
           then p\<lparr>pk_buffer := Some (fresh n), pk_buffer_size := n\<rparr> else p)
      | None \<Rightarrow> p\<lparr>pk_buffer := Some (fresh n), pk_buffer_size := n\<rparr>)"

text \<open>\<open>build\<close>: the packet, with its buffer written, and the buffer it returns.\<close>

definition build_packet :: "packet \<Rightarrow> store \<Rightarrow> (nat \<Rightarrow> u8 list) \<Rightarrow> (packet \<times> u8 list) option" where
  "build_packet p st fresh =
     (case pk_kind p of
        Bare \<Rightarrow> Some (p, bytes16 (pk_id p))
      | k \<Rightarrow>
          (let p = (if k = Unsized then prepare_buffer p st fresh else p) in
           case pk_buffer p of
             None \<Rightarrow> None
           | Some buf \<Rightarrow>
               (case fill_buffer p st buf of
                  None \<Rightarrow> None
                | Some buf \<Rightarrow> Some (p\<lparr>pk_buffer := Some buf\<rparr>, buf))))"

text \<open>\<open>parse\<close>: after each value the data pointer moves by the size the value has once parsed.\<close>

fun parse_values :: "packet_value list \<Rightarrow> u8 list \<Rightarrow> store \<Rightarrow> store option" where
  "parse_values [] data st = Some st"
| "parse_values (v # vs) data st =
     (case value_parse v data st of
        None \<Rightarrow> None
      | Some st \<Rightarrow>
          (if \<not> terminated v st then None
           else parse_values vs (drop (value_size v st) data) st))"

definition parse_packet :: "packet \<Rightarrow> u8 list \<Rightarrow> store \<Rightarrow> store option" where
  "parse_packet p data st =
     (case pk_kind p of
        Bare \<Rightarrow> Some st
      | _ \<Rightarrow> parse_values (pk_values p) (drop id_bytes data) st)"

text \<open>\<open>set_pointer\<close>: what the void pointer points to must be of the value's type.\<close>

datatype pointer = To_var nat | To_array "nat list"

fun retarget_value :: "packet_value \<Rightarrow> pointer \<Rightarrow> packet_value option" where
  "retarget_value (Scalar a n) (To_var b) = Some (Scalar b n)"
| "retarget_value (Cont a e) (To_var b) = Some (Cont b e)"
| "retarget_value (Str a) (To_var b) = Some (Str b)"
| "retarget_value (Arr a n e) (To_var b) = Some (Arr b n e)"
| "retarget_value (PtrArr ts e) (To_array us) = (if length us = length ts then Some (PtrArr us e) else None)"
| "retarget_value v ptr = None"

definition set_pointer :: "nat \<Rightarrow> pointer \<Rightarrow> packet \<Rightarrow> packet option" where
  "set_pointer i ptr p =
     (case pk_kind p of
        Bare \<Rightarrow> Some p
      | _ \<Rightarrow>
          (if i \<ge> length (pk_values p) then None
           else map_option (\<lambda>v. p\<lparr>pk_values := (pk_values p)[i := v]\<rparr>) (retarget_value (pk_values p ! i) ptr)))"

section \<open>Orders and the registries\<close>

text \<open>An order is a packet with a callback; \<open>or_ip\<close> is \<open>remote_ip\<close>.\<close>

record order =
  or_packet :: packet
  or_callback :: "nat option"
  or_ip :: "string option"

text \<open>The objects of the program by their addresses: a packet, or the packet an order is as well.\<close>

datatype pobject = Plain packet | Ordered order

fun packet_of :: "pobject \<Rightarrow> packet" where
  "packet_of (Plain p) = p"
| "packet_of (Ordered r) = or_packet r"

fun with_packet :: "packet \<Rightarrow> pobject \<Rightarrow> pobject" where
  "with_packet p (Plain q) = Plain p"
| "with_packet p (Ordered r) = Ordered (r\<lparr>or_packet := p\<rparr>)"

record registry =
  rg_vars :: store
  rg_objects :: "nat \<Rightarrow> pobject"
  rg_packets :: "u16 \<rightharpoonup> nat"
  rg_orders :: "u16 \<rightharpoonup> nat"
  rg_called :: "nat list"

text \<open>The constructors: the object enters the maps under its identifier, the last one to use an
  identifier replacing the one before.\<close>

definition new_packet :: "nat \<Rightarrow> packet \<Rightarrow> registry \<Rightarrow> registry" where
  "new_packet a p g =
     g\<lparr>rg_objects := (rg_objects g)(a := Plain p), rg_packets := (rg_packets g)(pk_id p \<mapsto> a)\<rparr>"

definition new_order :: "nat \<Rightarrow> packet \<Rightarrow> nat option \<Rightarrow> registry \<Rightarrow> registry" where
  "new_order a p cb g =
     g\<lparr>rg_objects := (rg_objects g)(a := Ordered \<lparr>or_packet = p, or_callback = cb, or_ip = None\<rparr>),
       rg_packets := (rg_packets g)(pk_id p \<mapsto> a),
       rg_orders := (rg_orders g)(pk_id p \<mapsto> a)\<rparr>"

definition on_order :: "(order \<Rightarrow> order) \<Rightarrow> nat \<Rightarrow> registry \<Rightarrow> registry" where
  "on_order f a g =
     g\<lparr>rg_objects := (rg_objects g)(a := (case rg_objects g a of Ordered r \<Rightarrow> Ordered (f r) | Plain p \<Rightarrow> Plain p))\<rparr>"

definition set_callback :: "nat option \<Rightarrow> nat \<Rightarrow> registry \<Rightarrow> registry" where
  "set_callback cb = on_order (\<lambda>r. r\<lparr>or_callback := cb\<rparr>)"

definition store_ip_order :: "string \<Rightarrow> nat \<Rightarrow> registry \<Rightarrow> registry" where
  "store_ip_order ip = on_order (\<lambda>r. r\<lparr>or_ip := Some ip\<rparr>)"

text \<open>The identifier at the head of a frame.\<close>

fun frame_id :: "u8 list \<Rightarrow> u16 option" where
  "frame_id (l # h # data) = Some (word16 l h)"
| "frame_id data = None"

definition parse_at :: "nat \<Rightarrow> u8 list \<Rightarrow> registry \<Rightarrow> registry option" where
  "parse_at a data g =
     map_option (\<lambda>st. g\<lparr>rg_vars := st\<rparr>) (parse_packet (packet_of (rg_objects g a)) data (rg_vars g))"

definition parse_data :: "u8 list \<Rightarrow> registry \<Rightarrow> registry option" where
  "parse_data data g =
     (case frame_id data of
        None \<Rightarrow> None
      | Some i \<Rightarrow> (case rg_packets g i of None \<Rightarrow> Some g | Some a \<Rightarrow> parse_at a data g))"

text \<open>\<open>process\<close> runs the user's callback \<open>run c\<close>, which may do anything to the program's state.\<close>

definition process_order :: "(nat \<Rightarrow> registry \<Rightarrow> registry) \<Rightarrow> nat \<Rightarrow> registry \<Rightarrow> registry" where
  "process_order run a g =
     (case rg_objects g a of
        Plain p \<Rightarrow> g
      | Ordered r \<Rightarrow>
          (case or_callback r of
             None \<Rightarrow> g
           | Some c \<Rightarrow> run c (g\<lparr>rg_called := rg_called g @ [c]\<rparr>)))"

definition process_by_id :: "(nat \<Rightarrow> registry \<Rightarrow> registry) \<Rightarrow> u16 \<Rightarrow> registry \<Rightarrow> registry" where
  "process_by_id run i g =
     (case rg_orders g i of None \<Rightarrow> g | Some a \<Rightarrow> process_order run a g)"

definition process_data :: "(nat \<Rightarrow> registry \<Rightarrow> registry) \<Rightarrow> u8 list \<Rightarrow> registry \<Rightarrow> registry option" where
  "process_data run data g =
     (case frame_id data of
        None \<Rightarrow> None
      | Some i \<Rightarrow>
          (case rg_orders g i of
             None \<Rightarrow> Some g
           | Some a \<Rightarrow> map_option (process_by_id run i) (parse_at a data g)))"

definition order_size :: "nat \<Rightarrow> registry \<Rightarrow> nat" where
  "order_size a g = get_size (packet_of (rg_objects g a)) (rg_vars g)"

definition build_at :: "nat \<Rightarrow> (nat \<Rightarrow> u8 list) \<Rightarrow> registry \<Rightarrow> (registry \<times> u8 list) option" where
  "build_at a fresh g =
     map_option (\<lambda>(p, buf). (g\<lparr>rg_objects := (rg_objects g)(a := with_packet p (rg_objects g a))\<rparr>, buf))
       (build_packet (packet_of (rg_objects g a)) (rg_vars g) fresh)"

section \<open>The state orders\<close>

text \<open>\<open>StateOrder\<close> of \<open>Inc/ST-LIB_LOW/StateMachine\<close>: the two orders that announce which orders the
  state a machine is in accepts. Both are bound to a count and to a \<open>std::span\<close> of identifiers. A
  span is no \<open>Container\<close> (it has no \<open>max_size\<close> and no \<open>==\<close>), so its value is that of a plain
  variable, \<open>sizeof(std::span)\<close> bytes: a pointer and a length. \<open>send\<close> is the \<open>send_order\<close> of
  the informer socket.\<close>

definition ADD_STATE_ORDERS :: u16 where
  "ADD_STATE_ORDERS = 5"

definition REMOVE_STATE_ORDERS :: u16 where
  "REMOVE_STATE_ORDERS = 6"

definition bytes32 :: "u32 \<Rightarrow> u8 list" where
  "bytes32 x = [ucast x, ucast (drop_bit 8 x), ucast (drop_bit 16 x), ucast (drop_bit 24 x)]"

definition state_orders_order :: "u16 \<Rightarrow> nat \<Rightarrow> nat \<Rightarrow> packet" where
  "state_orders_order i size_var ids_var = heap_packet i [Scalar size_var 2, Scalar ids_var 8]"

definition set_state_orders :: "nat \<Rightarrow> nat \<Rightarrow> u32 \<Rightarrow> u32 \<Rightarrow> store \<Rightarrow> store" where
  "set_state_orders size_var ids_var ptr n st =
     st(ids_var := bytes32 ptr @ bytes32 n, size_var := bytes16 (ucast n))"

definition announce_state_orders ::
  "(u16 \<Rightarrow> registry \<Rightarrow> bool \<times> registry) option \<Rightarrow> u16 \<Rightarrow> nat \<Rightarrow> nat \<Rightarrow> u32 \<Rightarrow> u32 \<Rightarrow> registry \<Rightarrow> string + registry" where
  "announce_state_orders informer i size_var ids_var ptr n g =
     (case informer of
        None \<Rightarrow> Inl ''Informer Socket has not been set''
      | Some send \<Rightarrow> Inr (snd (send i (g\<lparr>rg_vars := set_state_orders size_var ids_var ptr n (rg_vars g)\<rparr>))))"

definition add_state_orders ::
  "(u16 \<Rightarrow> registry \<Rightarrow> bool \<times> registry) option \<Rightarrow> nat \<Rightarrow> nat \<Rightarrow> u32 \<Rightarrow> u32 \<Rightarrow> registry \<Rightarrow> string + registry" where
  "add_state_orders informer = announce_state_orders informer ADD_STATE_ORDERS"

definition remove_state_orders ::
  "(u16 \<Rightarrow> registry \<Rightarrow> bool \<times> registry) option \<Rightarrow> nat \<Rightarrow> nat \<Rightarrow> u32 \<Rightarrow> u32 \<Rightarrow> registry \<Rightarrow> string + registry" where
  "remove_state_orders informer = announce_state_orders informer REMOVE_STATE_ORDERS"

section \<open>Raw packets\<close>

definition raw_packet_of :: "u8 list \<Rightarrow> u32 \<times> u8 list" where
  "raw_packet_of bytes = (of_nat (length bytes), bytes)"

text \<open>The size is the product of the count and \<open>sizeof(Type)\<close>, truncated to 32 bits.\<close>

definition raw_packet_array :: "u32 \<Rightarrow> nat \<Rightarrow> u8 list \<Rightarrow> (u32 \<times> u8 list) option" where
  "raw_packet_array items e mem =
     (let n = items * of_nat e in
      if unat n \<le> length mem then Some (n, take (unat n) mem) else None)"

section \<open>The layout of the values\<close>

fun value_vars :: "packet_value \<Rightarrow> nat list" where
  "value_vars (Scalar a n) = [a]"
| "value_vars (Cont a e) = [a]"
| "value_vars (Str a) = [a]"
| "value_vars (Arr a n e) = [a]"
| "value_vars (PtrArr ts e) = ts"

text \<open>The variable a value is bound to is of the value's type.\<close>

fun value_ok :: "store \<Rightarrow> packet_value \<Rightarrow> bool" where
  "value_ok st (Scalar a n) \<longleftrightarrow> length (st a) = n"
| "value_ok st (Cont a e) \<longleftrightarrow> e dvd length (st a)"
| "value_ok st (Str a) \<longleftrightarrow> 0 \<in> set (st a)"
| "value_ok st (Arr a n e) \<longleftrightarrow> length (st a) = n * e"
| "value_ok st (PtrArr ts e) \<longleftrightarrow> list_all (\<lambda>a. length (st a) = e) ts"

lemma c_strlen_less: "0 \<in> set bs \<Longrightarrow> c_strlen bs < length bs"
  unfolding c_strlen_def by (induction bs) auto

lemma c_strlen_prefix:
  assumes "n < length bs" "bs ! n = 0" "0 \<notin> set (take n bs)"
  shows "c_strlen bs = n"
  using assms
proof (induction bs arbitrary: n)
  case (Cons b bs)
  show ?case
  proof (cases n)
    case 0
    then show ?thesis using Cons.prems by (simp add: c_strlen_def)
  next
    case (Suc m)
    then have "c_strlen bs = m" "b \<noteq> 0"
      using Cons.IH [of m] Cons.prems by auto
    then show ?thesis using Suc by (simp add: c_strlen_def)
  qed
qed simp

lemma c_strlen_take: "0 \<notin> set (take (c_strlen bs) bs)"
  unfolding c_strlen_def by (metis takeWhile_eq_take set_takeWhileD)

lemma c_strlen_nth: "0 \<in> set bs \<Longrightarrow> bs ! c_strlen bs = 0"
  using nth_length_takeWhile [of "\<lambda>b. b \<noteq> 0" bs] c_strlen_less [of bs]
  by (simp add: c_strlen_def)

lemma value_ok_terminated: "value_ok st v \<Longrightarrow> terminated v st"
  by (cases v) auto

lemma length_concat_same:
  "list_all (\<lambda>a. length (f a) = e) ts \<Longrightarrow> length (concat (map f ts)) = length ts * e"
  by (induction ts) auto

lemma length_value_bytes [simp]:
  assumes "value_ok st v"
  shows "length (value_bytes v st) = value_size v st"
proof (cases v)
  case (PtrArr ts e)
  then have "list_all (\<lambda>a. length (take e (st a)) = e) ts"
    using assms by (simp add: list.pred_mono_strong)
  then show ?thesis using PtrArr length_concat_same [of "\<lambda>a. take e (st a)" e ts] by simp
next
  case (Str a)
  then show ?thesis using assms c_strlen_less [of "st a"] by simp
next
  case (Cont a e)
  then show ?thesis using assms by (simp add: div_times_less_eq_dividend)
qed (use assms in auto)

lemma values_size_sum: "values_size vs st = (\<Sum>v\<leftarrow>vs. value_size v st)"
proof -
  have "fold (\<lambda>v n. n + value_size v st) vs k = k + (\<Sum>v\<leftarrow>vs. value_size v st)" for k
    by (induction vs arbitrary: k) auto
  then show ?thesis by (simp add: values_size_def)
qed

section \<open>Building a frame\<close>

definition payload_bytes :: "packet_value list \<Rightarrow> store \<Rightarrow> u8 list" where
  "payload_bytes vs st = concat (map (\<lambda>v. value_bytes v st) vs)"

definition frame :: "packet \<Rightarrow> store \<Rightarrow> u8 list" where
  "frame p st = bytes16 (pk_id p) @ payload_bytes (pk_values p) st"

lemma payload_simps [simp]:
  "payload_bytes [] st = []" "payload_bytes (v # vs) st = value_bytes v st @ payload_bytes vs st"
  by (simp_all add: payload_bytes_def)

lemma length_payload:
  "list_all (value_ok st) vs \<Longrightarrow> length (payload_bytes vs st) = values_size vs st"
  by (induction vs) (auto simp: values_size_sum)

lemma length_bytes16 [simp]: "length (bytes16 x) = 2"
  by (simp add: bytes16_def)

lemma copy_values_payload:
  "list_all (value_ok st) vs \<Longrightarrow> off + values_size vs st \<le> length buf \<Longrightarrow>
   copy_values vs st off buf = Some (take off buf @ payload_bytes vs st @ drop (off + values_size vs st) buf)"
proof (induction vs arbitrary: off buf)
  case (Cons v vs)
  let ?n = "value_size v st"
  let ?buf = "take off buf @ value_bytes v st @ drop (off + ?n) buf"
  have ok: "value_ok st v" "list_all (value_ok st) vs"
    and fits: "off + ?n + values_size vs st \<le> length buf"
    using Cons.prems by (auto simp: values_size_sum)
  have "value_copy_to v st off buf = Some ?buf"
    using ok fits by (simp add: value_copy_to_def value_ok_terminated)
  moreover have "copy_values vs st (off + ?n) ?buf =
      Some (take (off + ?n) ?buf @ payload_bytes vs st @ drop (off + ?n + values_size vs st) ?buf)"
    by (rule Cons.IH) (use ok fits in auto)
  moreover have "take (off + ?n) ?buf = take off buf @ value_bytes v st"
    using ok fits by simp
  moreover have "drop (off + ?n + values_size vs st) ?buf = drop (off + values_size (v # vs) st) buf"
    using ok fits by (simp add: values_size_sum ac_simps)
  ultimately show ?case by simp
qed (simp add: values_size_sum)

text \<open>A packet whose values and buffer are those of its kind. \<open>BufferLength\<close> is the sum of the
  sizes of the types, none of them a container.\<close>

fun static_value :: "packet_value \<Rightarrow> bool" where
  "static_value (Scalar a n) \<longleftrightarrow> True"
| "static_value (Arr a n e) \<longleftrightarrow> True"
| "static_value v \<longleftrightarrow> False"

fun static_size :: "packet_value \<Rightarrow> nat" where
  "static_size (Scalar a n) = n"
| "static_size (Arr a n e) = n * e"
| "static_size v = 0"

definition packet_ok :: "store \<Rightarrow> packet \<Rightarrow> bool" where
  "packet_ok st p \<longleftrightarrow>
     list_all (value_ok st) (pk_values p) \<and>
     (case pk_kind p of
        Sized n \<Rightarrow> list_all static_value (pk_values p) \<and> n = (\<Sum>v\<leftarrow>pk_values p. static_size v) \<and>
          pk_size p = n + id_bytes \<and> (\<exists>b. pk_buffer p = Some b \<and> length b = n + id_bytes)
      | Unsized \<Rightarrow> (case pk_buffer p of None \<Rightarrow> True | Some b \<Rightarrow> length b = pk_buffer_size p)
      | Bare \<Rightarrow> pk_values p = [])"

lemma static_sizes: "list_all static_value vs \<Longrightarrow> (\<Sum>v\<leftarrow>vs. static_size v) = values_size vs st"
proof (induction vs)
  case (Cons v vs)
  then show ?case by (cases v) (auto simp: values_size_sum)
qed (simp add: values_size_sum)

lemma get_size_frame:
  assumes "packet_ok st p"
  shows "get_size p st = id_bytes + values_size (pk_values p) st"
  using assms static_sizes [of "pk_values p" st]
  by (cases "pk_kind p") (auto simp: get_size_def packet_ok_def values_size_sum)

lemma length_frame: "packet_ok st p \<Longrightarrow> length (frame p st) = get_size p st"
  by (simp add: get_size_frame frame_def length_payload packet_ok_def id_bytes_def)

lemma fill_buffer_frame:
  assumes "packet_ok st p" "get_size p st \<le> length buf"
  shows "fill_buffer p st buf = Some (frame p st @ drop (get_size p st) buf)"
proof -
  have ok: "list_all (value_ok st) (pk_values p)" using assms(1) by (simp add: packet_ok_def)
  have n: "get_size p st = 2 + values_size (pk_values p) st"
    using get_size_frame [OF assms(1)] by (simp add: id_bytes_def)
  have "copy_values (pk_values p) st 2 (bytes16 (pk_id p) @ drop 2 buf) =
      Some (take 2 (bytes16 (pk_id p) @ drop 2 buf) @ payload_bytes (pk_values p) st
        @ drop (2 + values_size (pk_values p) st) (bytes16 (pk_id p) @ drop 2 buf))"
    by (rule copy_values_payload) (use ok n assms(2) in auto)
  then show ?thesis
    using n assms(2) by (simp add: fill_buffer_def frame_def id_bytes_def)
qed

lemma prepare_buffer_spec:
  assumes ok: "packet_ok st p" and k: "pk_kind p = Unsized" and fresh: "\<And>n. length (fresh n) = n"
  defines "q \<equiv> prepare_buffer p st fresh"
  shows "\<exists>b. pk_buffer q = Some b \<and> length b = pk_buffer_size q"
    and "get_size p st \<le> pk_buffer_size q \<and> pk_buffer_size q div 2 \<le> get_size p st"
    and "pk_kind q = Unsized" "pk_id q = pk_id p" "pk_values q = pk_values p"
  using ok k fresh
  by (cases "pk_buffer p"; auto simp: q_def prepare_buffer_def packet_ok_def Let_def not_less)+

text \<open>Building a packet: the frame, and what is left of a buffer that is longer.\<close>

lemma build_frame:
  assumes ok: "packet_ok st p" and fresh: "\<And>n. length (fresh n) = n"
  obtains p' rest where "build_packet p st fresh = Some (p', frame p st @ rest)"
    and "packet_ok st p'" and "frame p' st = frame p st" and "get_size p' st = get_size p st"
    and "pk_kind p' = Unsized \<Longrightarrow> get_size p st \<le> pk_buffer_size p' \<and> pk_buffer_size p' div 2 \<le> get_size p st"
    and "pk_kind p' \<noteq> Unsized \<Longrightarrow> rest = []"
proof (cases "pk_kind p")
  case (Sized n)
  obtain b where b: "pk_buffer p = Some b" "length b = n + id_bytes"
    using ok Sized by (auto simp: packet_ok_def)
  have size: "get_size p st = n + id_bytes"
    using ok Sized by (simp add: packet_ok_def get_size_def)
  have "fill_buffer p st b = Some (frame p st @ [])"
    using fill_buffer_frame [OF ok, of b] b(2) size by simp
  then show ?thesis
    using that [of "p\<lparr>pk_buffer := Some (frame p st)\<rparr>" "[]"] b ok Sized size length_frame [OF ok]
    by (auto simp: build_packet_def packet_ok_def frame_def get_size_def)
next
  case Unsized
  define q where "q = prepare_buffer p st fresh"
  note spec = prepare_buffer_spec [OF ok Unsized fresh, folded q_def]
  obtain b where b: "pk_buffer q = Some b" "length b = pk_buffer_size q"
    using spec(1) by auto
  note q = spec(3-5)
  have okq: "packet_ok st q" and same: "frame q st = frame p st" "get_size q st = get_size p st"
    using ok q b Unsized by (auto simp: packet_ok_def frame_def get_size_def)
  have "fill_buffer q st b = Some (frame p st @ drop (get_size p st) b)"
    using fill_buffer_frame [OF okq, of b] b same spec(2) by simp
  then show ?thesis
    using that [of "q\<lparr>pk_buffer := Some (frame p st @ drop (get_size p st) b)\<rparr>" "drop (get_size p st) b"]
      b q Unsized length_frame [OF ok] okq ok spec(2)
    by (auto simp: build_packet_def q_def [symmetric] packet_ok_def frame_def get_size_def)
next
  case Bare
  then show ?thesis
    using that [of p "[]"] ok by (auto simp: build_packet_def packet_ok_def frame_def get_size_def)
qed

lemma build_kind: "build_packet p st fresh = Some (p', buf) \<Longrightarrow> pk_kind p' = pk_kind p"
  by (auto simp: build_packet_def prepare_buffer_def Let_def split: packet_kind.splits option.splits if_splits)

lemma build_buffer: "build_packet p st fresh = Some (p', buf) \<Longrightarrow> pk_kind p \<noteq> Bare \<Longrightarrow> pk_buffer p' = Some buf"
  by (auto simp: build_packet_def Let_def split: packet_kind.splits option.splits if_splits)

section \<open>Parsing a frame\<close>

text \<open>A value of the receiver that takes the bytes of a value of the sender.\<close>

fun same_shape :: "store \<Rightarrow> packet_value \<Rightarrow> store \<Rightarrow> packet_value \<Rightarrow> bool" where
  "same_shape st (Scalar a n) st' (Scalar b m) \<longleftrightarrow> n = m"
| "same_shape st (Cont a e) st' (Cont b f) \<longleftrightarrow> value_size (Cont a e) st = value_size (Cont b f) st'"
| "same_shape st (Str a) st' (Str b) \<longleftrightarrow> c_strlen (st a) = c_strlen (st' b)"
| "same_shape st (Arr a n e) st' (Arr b m f) \<longleftrightarrow> n * e = m * f"
| "same_shape st (PtrArr ts e) st' (PtrArr us f) \<longleftrightarrow> length ts = length us \<and> e = f"
| "same_shape st v st' w \<longleftrightarrow> False"

lemma same_shape_size: "same_shape st v st' w \<Longrightarrow> value_size v st = value_size w st'"
  by (cases v; cases w) auto

lemma length_memcpy_into [simp]:
  "n \<le> length src \<Longrightarrow> n \<le> length dst \<Longrightarrow> length (memcpy_into dst n src) = length dst"
  by (simp add: memcpy_into_def)

lemma take_memcpy_into [simp]: "n \<le> length src \<Longrightarrow> take n (memcpy_into dst n src) = take n src"
  by (simp add: memcpy_into_def)

lemma write_targets_other: "a \<notin> set ts \<Longrightarrow> write_targets ts e data st a = st a"
  by (induction ts e data st rule: write_targets.induct) (auto simp: write_var_def)

lemma write_targets_read:
  assumes "distinct ts" "list_all (\<lambda>a. length (st a) = e) ts" "length ts * e \<le> length data"
  shows "list_all (\<lambda>a. length (write_targets ts e data st a) = e) ts \<and>
         concat (map (\<lambda>a. take e (write_targets ts e data st a)) ts) = take (length ts * e) data"
  using assms
proof (induction ts e data st rule: write_targets.induct)
  case (2 a ts e data st)
  let ?st = "write_var a e data st"
  have keep: "list_all (\<lambda>b. length (?st b) = e) ts"
    using "2.prems" by (auto simp: write_var_def list_all_iff)
  have rest: "list_all (\<lambda>b. length (write_targets ts e (drop e data) ?st b) = e) ts"
    "concat (map (\<lambda>b. take e (write_targets ts e (drop e data) ?st b)) ts) = take (length ts * e) (drop e data)"
    using "2.IH" [OF _ keep] "2.prems" by auto
  have head: "write_targets ts e (drop e data) ?st a = take e data"
    using "2.prems" by (simp add: write_targets_other write_var_def memcpy_into_def)
  show ?case
    using rest head "2.prems" by (simp add: take_add)
qed simp

lemma write_value_other: "a \<notin> set (value_vars v) \<Longrightarrow> write_value v data st a = st a"
  by (cases v) (auto simp: write_var_def write_targets_other)

lemma value_local:
  assumes "\<And>a. a \<in> set (value_vars v) \<Longrightarrow> st' a = st a"
  shows "value_ok st' v = value_ok st v" "value_size v st' = value_size v st"
    and "value_bytes v st' = value_bytes v st" "terminated v st' = terminated v st"
  using assms by (cases v; simp add: list_all_iff cong: list.map_cong_simp)+

text \<open>The receiver's value after it parses data that begins with the sender's bytes.\<close>

lemma str_write:
  fixes st st' :: store and rest :: "u8 list"
  assumes recv: "value_ok st' (Str b)" and send: "value_ok st (Str a)"
    and len: "c_strlen (st a) = c_strlen (st' b)"
  defines "st2 \<equiv> write_value (Str b) (value_bytes (Str a) st @ rest) st'"
  shows "c_strlen (st2 b) = c_strlen (st' b)" "0 \<in> set (st2 b)"
    and "take (c_strlen (st' b) + 1) (st2 b) = take (c_strlen (st' b) + 1) (st a)"
proof -
  let ?k = "c_strlen (st' b)"
  have k: "?k < length (st a)" "?k < length (st' b)"
    using c_strlen_less [of "st a"] c_strlen_less [of "st' b"] recv send len by auto
  have st2: "st2 b = take (?k + 1) (st a) @ drop (?k + 1) (st' b)"
    using k len by (simp add: st2_def write_var_def memcpy_into_def)
  have z: "take (?k + 1) (st a) = take ?k (st a) @ [0]"
    using k len c_strlen_nth [of "st a"] send by (simp add: take_Suc_conv_app_nth)
  show "take (?k + 1) (st2 b) = take (?k + 1) (st a)" using k st2 by simp
  show "0 \<in> set (st2 b)" using st2 z by simp
  show "c_strlen (st2 b) = ?k"
  proof (rule c_strlen_prefix)
    show "?k < length (st2 b)" using st2 k by simp
    show "st2 b ! ?k = 0" using st2 z k by (simp add: nth_append)
    show "0 \<notin> set (take ?k (st2 b))" using c_strlen_take [of "st a"] st2 z k len by simp
  qed
qed

lemma value_parse_roundtrip:
  assumes recv: "value_ok st' w" "distinct (value_vars w)" and send: "value_ok st v"
    and shape: "same_shape st v st' w"
  shows "\<exists>st2. value_parse w (value_bytes v st @ rest) st' = Some st2 \<and>
           value_ok st2 w \<and> value_size w st2 = value_size w st' \<and>
           value_bytes w st2 = value_bytes v st \<and>
           (\<forall>a. a \<notin> set (value_vars w) \<longrightarrow> st2 a = st' a)"
proof -
  let ?d = "value_bytes v st @ rest" and ?st2 = "write_value w (value_bytes v st @ rest) st'"
  have size: "value_size v st = value_size w st'" by (rule same_shape_size [OF shape])
  have enough: "length (value_bytes v st) = value_size w st'" using send size by simp
  have parse_packet: "value_parse w ?d st' = Some ?st2"
    using recv(1) enough by (simp add: value_parse_def value_ok_terminated)
  have "value_ok ?st2 w \<and> value_size w ?st2 = value_size w st' \<and> value_bytes w ?st2 = value_bytes v st"
  proof (cases w)
    case (Str b)
    then obtain a where v: "v = Str a" using shape by (cases v) auto
    show ?thesis using str_write [of st' b st a rest] recv send shape Str v by simp
  next
    case (PtrArr us f)
    then show ?thesis using write_targets_read [of us st' f ?d] recv enough by auto
  next
    case (Cont b f)
    then have "f dvd length (st' b)" "length (value_bytes v st) = length (st' b)"
      using recv enough by (auto simp: dvd_div_mult_self)
    then show ?thesis using Cont by (simp add: write_var_def memcpy_into_def)
  qed (use recv enough in \<open>auto simp: write_var_def memcpy_into_def\<close>)
  then show ?thesis using parse_packet by (auto simp: write_value_other)
qed

lemma same_shape_local:
  assumes "\<And>a. a \<in> set (value_vars w) \<Longrightarrow> st1 a = st' a" "same_shape st v st' w"
  shows "same_shape st v st1 w"
  using assms by (cases v; cases w) auto

lemma parse_values_roundtrip:
  assumes "list_all2 (\<lambda>v w. same_shape st v st' w) vs ws" "list_all (value_ok st) vs" "list_all (value_ok st') ws"
    and "distinct (concat (map value_vars ws))"
  shows "\<exists>st2. parse_values ws (payload_bytes vs st @ rest) st' = Some st2 \<and>
           list_all2 (\<lambda>v w. value_bytes w st2 = value_bytes v st) vs ws \<and>
           (\<forall>a. a \<notin> set (concat (map value_vars ws)) \<longrightarrow> st2 a = st' a)"
  using assms
proof (induction ws arbitrary: vs st' rule: list.induct)
  case (Cons w ws)
  obtain v vt where us: "vs = v # vt" and hyps: "same_shape st v st' w" "list_all2 (\<lambda>v w. same_shape st v st' w) vt ws"
    using Cons.prems(1) by (cases vs) auto
  have "distinct (value_vars w)" "value_ok st' w" "value_ok st v" using Cons.prems us by auto
  from value_parse_roundtrip [OF this(2,1,3) hyps(1), of "payload_bytes vt st @ rest"]
  obtain st1 where st1: "value_parse w (value_bytes v st @ payload_bytes vt st @ rest) st' = Some st1"
      "value_ok st1 w" "value_size w st1 = value_size w st'" "value_bytes w st1 = value_bytes v st"
      "\<And>a. a \<notin> set (value_vars w) \<Longrightarrow> st1 a = st' a"
    by blast
  have apart: "u \<in> set ws \<Longrightarrow> a \<in> set (value_vars u) \<Longrightarrow> st1 a = st' a" for u a
    using st1(5) [of a] Cons.prems us by auto
  have ok: "list_all (value_ok st1) ws"
    using Cons.prems us apart by (auto simp: list_all_iff value_local(1) [of _ st1 st'])
  have shape: "list_all2 (\<lambda>v w. same_shape st v st1 w) vt ws"
    by (rule list.rel_mono_strong [OF hyps(2)]) (use apart same_shape_local in blast)
  have len: "length (value_bytes v st) = value_size w st1"
    using st1(3) hyps(1) Cons.prems us by (simp add: same_shape_size)
  obtain st2 where st2: "parse_values ws (payload_bytes vt st @ rest) st1 = Some st2"
      "list_all2 (\<lambda>v w. value_bytes w st2 = value_bytes v st) vt ws"
      "\<And>a. a \<notin> set (concat (map value_vars ws)) \<Longrightarrow> st2 a = st1 a"
    using Cons.IH [OF shape] ok Cons.prems us by auto
  have "value_bytes w st2 = value_bytes w st1"
    by (rule value_local(3)) (use st2(3) Cons.prems in auto)
  then show ?case
    using st1 st2 len us by (auto simp: value_ok_terminated)
qed simp

lemma get_id_frame [simp]: "frame_id (frame p st @ rest) = Some (pk_id p)"
  using word16_bytes [of "pk_id p"] by (simp add: frame_def bytes16_def)

lemma parse_frame:
  assumes ok: "packet_ok st p" "packet_ok st' q"
    and shape: "list_all2 (\<lambda>v w. same_shape st v st' w) (pk_values p) (pk_values q)"
    and apart: "distinct (concat (map value_vars (pk_values q)))"
  shows "\<exists>st2. parse_packet q (frame p st @ rest) st' = Some st2 \<and>
           list_all2 (\<lambda>v w. value_bytes w st2 = value_bytes v st) (pk_values p) (pk_values q) \<and>
           (\<forall>a. a \<notin> set (concat (map value_vars (pk_values q))) \<longrightarrow> st2 a = st' a)"
proof -
  have vals: "list_all (value_ok st) (pk_values p)" "list_all (value_ok st') (pk_values q)"
    using ok by (simp_all add: packet_ok_def)
  have "parse_packet q (frame p st @ rest) st' = parse_values (pk_values q) (payload_bytes (pk_values p) st @ rest) st'"
    using ok(2) by (cases "pk_kind q") (auto simp: parse_packet_def packet_ok_def frame_def id_bytes_def)
  with parse_values_roundtrip [OF shape vals apart, of rest] show ?thesis by simp
qed

text \<open>C15. A frame a packet builds is parsed back: a packet of the same shape on another board, its
  values bound to distinct variables, then has in each of them the bytes the sender had, and no
  other variable of the receiver changes. Sizes come from the values as they are, so the claim
  covers containers, strings of the same length and arrays of pointers.\<close>

theorem packet_roundtrip:
  assumes ok: "packet_ok st p" "packet_ok st' q" and fresh: "\<And>n. length (fresh n) = n"
    and shape: "list_all2 (\<lambda>v w. same_shape st v st' w) (pk_values p) (pk_values q)"
    and apart: "distinct (concat (map value_vars (pk_values q)))"
  shows "\<exists>p' buf st2. build_packet p st fresh = Some (p', buf) \<and> packet_ok st p' \<and>
           frame_id buf = Some (pk_id p) \<and> parse_packet q buf st' = Some st2 \<and>
           list_all2 (\<lambda>v w. value_bytes w st2 = value_bytes v st) (pk_values p) (pk_values q) \<and>
           (\<forall>a. a \<notin> set (concat (map value_vars (pk_values q))) \<longrightarrow> st2 a = st' a)"
proof -
  obtain p' rest where built: "build_packet p st fresh = Some (p', frame p st @ rest)" "packet_ok st p'"
    using build_frame [OF ok(1) fresh] by metis
  from parse_frame [OF ok shape apart, of rest]
  show ?thesis using built by auto
qed

text \<open>The static packet and the dynamic one are the same packet on the wire: with the same
  identifier and values, what a \<open>StackPacket\<close> returns from \<open>build\<close> is what a \<open>HeapPacket\<close> writes at
  the front of its buffer, whatever it has built before, and the two parse data alike. The
  dynamic buffer holds the frame and is never more than twice as long.\<close>

theorem static_dynamic_agree:
  assumes ok: "packet_ok st p" "packet_ok st q" and fresh: "\<And>n. length (fresh n) = n"
    and kinds: "pk_kind p = Sized n" "pk_kind q = Unsized"
    and same: "pk_id p = pk_id q" "pk_values p = pk_values q"
  shows "\<exists>p' q' buf rest. build_packet p st fresh = Some (p', buf) \<and> build_packet q st fresh = Some (q', buf @ rest) \<and>
           length buf = get_size p st \<and> get_size p st = get_size q st \<and>
           length (buf @ rest) div 2 \<le> length buf \<and>
           parse_packet p data st' = parse_packet q data st'"
proof -
  have fr: "frame p st = frame q st" "get_size p st = get_size q st"
    using same get_size_frame [OF ok(1)] get_size_frame [OF ok(2)] by (simp_all add: frame_def)
  obtain p' rest' where "build_packet p st fresh = Some (p', frame p st @ rest')" "pk_kind p' \<noteq> Unsized \<Longrightarrow> rest' = []"
    using build_frame [OF ok(1) fresh] by metis
  then have p': "build_packet p st fresh = Some (p', frame p st)"
    using build_kind [of p st fresh] kinds(1) by fastforce
  obtain q' rest where q': "build_packet q st fresh = Some (q', frame q st @ rest)" "packet_ok st q'"
      "pk_kind q' = Unsized \<Longrightarrow> pk_buffer_size q' div 2 \<le> get_size q st"
    using build_frame [OF ok(2) fresh] by metis
  have "pk_kind q' = Unsized" "pk_buffer q' = Some (frame q st @ rest)"
    using build_kind [OF q'(1)] build_buffer [OF q'(1)] kinds(2) by simp_all
  then have "length (frame q st @ rest) div 2 \<le> get_size q st"
    using q'(2,3) by (simp add: packet_ok_def)
  moreover have "parse_packet p data st' = parse_packet q data st'"
    using kinds same by (simp add: parse_packet_def)
  ultimately show ?thesis
    using p' q'(1) fr length_frame [OF ok(1)] by auto
qed

text \<open>A longer string than the receiver holds is not parsed: \<open>parse\<close> copies as many bytes as the
  receiver's string has now, its terminator included, so the copy of a longer string has no
  terminator in the buffer, and the length the packet then asks for reads past it.\<close>

theorem longer_string_undefined:
  assumes kinds: "pk_kind q \<noteq> Bare" and recv: "pk_values q = Str b # ws"
    and own: "length (st' b) = c_strlen (st' b) + 1"
    and send: "pk_values p = Str a # vs" "value_ok st (Str a)"
    and longer: "c_strlen (st' b) < c_strlen (st a)"
  shows "parse_packet q (frame p st @ rest) st' = None"
proof -
  let ?n = "c_strlen (st' b)"
  let ?data = "payload_bytes (pk_values p) st @ rest"
  have long: "?n + 1 \<le> c_strlen (st a)" using longer by simp
  have "take (?n + 1) (st a) = take (?n + 1) (take (c_strlen (st a)) (st a))"
    using long by simp
  then have clean: "0 \<notin> set (take (?n + 1) (st a))"
    using c_strlen_take [of "st a"] by (metis in_set_takeD)
  have "value_bytes (Str a) st = take (c_strlen (st a) + 1) (st a)" by simp
  then have "take (?n + 1) ?data = take (?n + 1) (st a)"
    using send long c_strlen_less [of "st a"] by (simp add: min_def)
  then have "\<not> terminated (Str b) (write_value (Str b) ?data st')"
    using own clean by (simp add: write_var_def memcpy_into_def)
  then have "parse_values (pk_values q) ?data st' = None"
    by (auto simp: recv value_parse_def)
  then show ?thesis
    using kinds by (cases "pk_kind q") (auto simp: parse_packet_def frame_def id_bytes_def)
qed

section \<open>The registries\<close>

text \<open>A map that objects enter under an identifier of their own: the interface \<open>Packet::packets\<close> and
  \<open>Order::orders\<close> share.\<close>

locale id_registry =
  fixes enter :: "'e \<Rightarrow> 's \<Rightarrow> 's" and found :: "'s \<Rightarrow> 'i \<Rightarrow> 'a option"
    and key :: "'e \<Rightarrow> 'i" and ref :: "'e \<Rightarrow> 'a"
  assumes found_enter: "found (enter e s) i = (if i = key e then Some (ref e) else found s i)"
begin

lemma found_fold:
  "found (fold enter es s) i =
     (case map_of (rev (map (\<lambda>e. (key e, ref e)) es)) i of Some a \<Rightarrow> Some a | None \<Rightarrow> found s i)"
proof (induction es rule: rev_induct)
  case (snoc e es)
  then show ?case by (auto simp: found_enter)
qed simp

end

definition enter_packet :: "nat \<times> packet \<Rightarrow> registry \<Rightarrow> registry" where
  "enter_packet e = new_packet (fst e) (snd e)"

definition enter_order :: "nat \<times> packet \<times> nat option \<Rightarrow> registry \<Rightarrow> registry" where
  "enter_order e = new_order (fst e) (fst (snd e)) (snd (snd e))"

interpretation packet_map: id_registry enter_packet rg_packets "\<lambda>e. pk_id (snd e)" fst
  by unfold_locales (simp add: enter_packet_def new_packet_def)

interpretation order_map: id_registry enter_order rg_orders "\<lambda>e. pk_id (fst (snd e))" fst
  by unfold_locales (simp add: enter_order_def new_order_def)

interpretation order_packet_map: id_registry enter_order rg_packets "\<lambda>e. pk_id (fst (snd e))" fst
  by unfold_locales (simp add: enter_order_def new_order_def)

section \<open>Receiving an order\<close>

text \<open>C16. An order that is sent runs its callback where it is received: a frame built by a packet of
  the order's identifier and shape is parsed into the order's variables, and then the callback
  runs, once, on the values received.\<close>

theorem order_reaches_callback:
  assumes ok: "packet_ok st p" "packet_ok (rg_vars g) (or_packet r)" and fresh: "\<And>n. length (fresh n) = n"
    and shape: "list_all2 (\<lambda>v w. same_shape st v (rg_vars g) w) (pk_values p) (pk_values (or_packet r))"
    and apart: "distinct (concat (map value_vars (pk_values (or_packet r))))"
    and known: "rg_orders g (pk_id p) = Some a" "rg_objects g a = Ordered r" "or_callback r = Some c"
  shows "\<exists>p' buf st2. build_packet p st fresh = Some (p', buf) \<and>
           process_data run buf g = Some (run c (g\<lparr>rg_vars := st2, rg_called := rg_called g @ [c]\<rparr>)) \<and>
           list_all2 (\<lambda>v w. value_bytes w st2 = value_bytes v st) (pk_values p) (pk_values (or_packet r))"
proof -
  obtain p' rest where built: "build_packet p st fresh = Some (p', frame p st @ rest)"
    using build_frame [OF ok(1) fresh] by metis
  from parse_frame [OF ok shape apart, of rest]
  obtain st2 where st2: "parse_packet (or_packet r) (frame p st @ rest) (rg_vars g) = Some st2"
      "list_all2 (\<lambda>v w. value_bytes w st2 = value_bytes v st) (pk_values p) (pk_values (or_packet r))"
    by blast
  have "process_data run (frame p st @ rest) g =
      Some (run c (g\<lparr>rg_vars := st2, rg_called := rg_called g @ [c]\<rparr>))"
    using st2(1) known
    by (simp add: process_data_def parse_at_def process_by_id_def process_order_def)
  then show ?thesis using built st2(2) by blast
qed

text \<open>What a state order carries: the count, and then the address and the length of the array of
  identifiers, not the identifiers.\<close>

lemma state_orders_frame:
  assumes "size_var \<noteq> ids_var"
  shows "frame (state_orders_order i size_var ids_var) (set_state_orders size_var ids_var ptr n st) =
    bytes16 i @ bytes16 (ucast n) @ bytes32 ptr @ bytes32 n"
  using assms
  by (simp add: frame_def state_orders_order_def set_state_orders_def heap_packet_def bytes32_def)

section \<open>Instances\<close>

definition demo_store :: store where
  "demo_store = (\<lambda>_. [])(0 := [1, 2], 1 := [65, 0], 2 := [9], 3 := [67, 68, 0], 7 := [0, 0], 8 := [66, 0], 9 := [5])"

lemma demo_store_simps [simp]:
  "demo_store 0 = [1, 2]" "demo_store (Suc 0) = [65, 0]" "demo_store 2 = [9]" "demo_store 3 = [67, 68, 0]"
  "demo_store 7 = [0, 0]" "demo_store 8 = [66, 0]" "demo_store 9 = [5]"
  by (simp_all add: demo_store_def)

lemma packet_roundtrip_witness:
  "\<exists>p' buf st2.
     build_packet (heap_packet 5 [Scalar 0 2, Str 1, PtrArr [2] 1]) demo_store (\<lambda>n. replicate n 0) = Some (p', buf) \<and>
     frame_id buf = Some 5 \<and>
     parse_packet (heap_packet 5 [Scalar 7 2, Str 8, PtrArr [9] 1]) buf demo_store = Some st2 \<and>
     take 2 (st2 7) = [1, 2] \<and> take 1 (st2 9) = [9] \<and> st2 3 = [67, 68, 0]"
proof -
  have "packet_ok demo_store (heap_packet 5 [Scalar 0 2, Str 1, PtrArr [2] 1])"
    and "packet_ok demo_store (heap_packet 5 [Scalar 7 2, Str 8, PtrArr [9] 1])"
    by (simp_all add: packet_ok_def heap_packet_def)
  from packet_roundtrip [OF this, of "\<lambda>n. replicate n 0"]
  show ?thesis by (fastforce simp: heap_packet_def c_strlen_def)
qed

lemma static_dynamic_agree_witness:
  "\<exists>p' q' buf rest.
     build_packet (stack_packet 3 5 [Scalar 0 2, Arr 2 1 1] (replicate 5 0)) demo_store (\<lambda>n. replicate n 0) = Some (p', buf) \<and>
     build_packet (heap_packet 5 [Scalar 0 2, Arr 2 1 1]) demo_store (\<lambda>n. replicate n 0) = Some (q', buf @ rest) \<and>
     length buf = 5"
proof -
  have "packet_ok demo_store (stack_packet 3 5 [Scalar 0 2, Arr 2 1 1] (replicate 5 0))"
    and "packet_ok demo_store (heap_packet 5 [Scalar 0 2, Arr 2 1 1])"
    by (simp_all add: packet_ok_def heap_packet_def stack_packet_def id_bytes_def)
  from static_dynamic_agree [OF this, of "\<lambda>n. replicate n 0" 3]
  show ?thesis by (fastforce simp: heap_packet_def stack_packet_def get_size_def id_bytes_def)
qed

lemma longer_string_undefined_witness:
  "parse_packet (heap_packet 5 [Str 1]) (frame (heap_packet 5 [Str 3]) demo_store) demo_store = None"
  using longer_string_undefined
    [of "heap_packet 5 [Str 1]" 1 "[]" demo_store "heap_packet 5 [Str 3]" 3 "[]" demo_store "[]"]
  by (simp add: heap_packet_def c_strlen_def)

definition demo_registry :: registry where
  "demo_registry = new_order 40 (heap_packet 5 [Scalar 7 2]) (Some 3)
     \<lparr>rg_vars = demo_store, rg_objects = (\<lambda>_. Plain (bare_packet 0)), rg_packets = Map.empty,
      rg_orders = Map.empty, rg_called = []\<rparr>"

lemma order_reaches_callback_witness:
  "\<exists>p' buf st2. build_packet (heap_packet 5 [Scalar 0 2]) demo_store (\<lambda>n. replicate n 0) = Some (p', buf) \<and>
     process_data (\<lambda>_ g. g) buf demo_registry = Some (demo_registry\<lparr>rg_vars := st2, rg_called := [3]\<rparr>) \<and>
     take 2 (st2 7) = [1, 2]"
proof -
  let ?r = "\<lparr>or_packet = heap_packet 5 [Scalar 7 2], or_callback = Some 3, or_ip = None\<rparr>"
  have "packet_ok demo_store (heap_packet 5 [Scalar 0 2])" "packet_ok (rg_vars demo_registry) (or_packet ?r)"
    by (simp_all add: packet_ok_def heap_packet_def demo_registry_def new_order_def)
  from order_reaches_callback [OF this, of "\<lambda>n. replicate n 0" 40 3 "\<lambda>_ g. g"]
  show ?thesis by (fastforce simp: demo_registry_def new_order_def heap_packet_def)
qed

end
