(* ===== verification/Streams.thy ===== *)
theory Streams
  imports Packets
begin

unbundle bit_operations_syntax

text \<open>
  The parser of the bytes a TCP connection delivers
  (\<open>Inc/HALAL/Services/Communication/Ethernet/LWIP/TCP/TcpOrderStreamParser.hpp\<close>): it finds the
  orders in the stream, has each of them parsed and processed, and keeps what is left for the next
  segment. The operations are those of the code; \<open>split_frames\<close> is the specification they are
  shown to implement.
\<close>

section \<open>The parser\<close>

definition MAX_RX_STREAM_BUFFER_BYTES :: nat where
  "MAX_RX_STREAM_BUFFER_BYTES = 8192"

text \<open>One order found at the front of \<open>rest\<close>: its address is stored, its bytes are parsed, its
  callback runs, and the bytes it takes are those of its size afterwards.\<close>

definition take_order ::
  "(nat \<Rightarrow> registry \<Rightarrow> registry) \<Rightarrow> string \<Rightarrow> nat \<Rightarrow> u8 list \<Rightarrow> registry \<Rightarrow> (nat \<times> registry) option" where
  "take_order run ip a rest g =
     map_option (\<lambda>g. (let consumed = order_size a g in if consumed > 0 then consumed else id_bytes, g))
       (process_data run rest (store_ip_order ip a g))"

lemma take_order_progress: "take_order run ip a rest g = Some (k, g') \<Longrightarrow> 0 < k"
  by (auto simp: take_order_def Let_def id_bytes_def split: if_splits)

text \<open>The loop from the position \<open>pos\<close>. A position past the end, which an order that grows while it is
  processed can reach, makes the size that is left wrap around and the next read undefined.\<close>

function parse_from ::
  "(nat \<Rightarrow> registry \<Rightarrow> registry) \<Rightarrow> string \<Rightarrow> u8 list \<Rightarrow> nat \<Rightarrow> registry \<Rightarrow> (nat \<times> registry) option" where
  "parse_from run ip buf pos g =
     (if length buf < pos then None
      else if length buf - pos < id_bytes then Some (pos, g)
      else
        (case frame_id (drop pos buf) of
           None \<Rightarrow> None
         | Some i \<Rightarrow>
             (case rg_orders g i of
                None \<Rightarrow> parse_from run ip buf (pos + 1) g
              | Some a \<Rightarrow>
                  (let n = order_size a g in
                   if n > 0 \<and> n < id_bytes then parse_from run ip buf (pos + 1) g
                   else if n > 0 \<and> length buf - pos < n then Some (pos, g)
                   else
                     (case take_order run ip a (drop pos buf) g of
                        None \<Rightarrow> None
                      | Some (k, g) \<Rightarrow> parse_from run ip buf (pos + k) g)))))"
  by pat_completeness auto

termination
  by (relation "measure (\<lambda>(run, ip, buf, pos, g). length buf - pos)")
     (auto simp: id_bytes_def dest!: take_order_progress split: option.splits)

declare parse_from.simps [simp del]

definition trim_stream :: "u8 list \<Rightarrow> u8 list" where
  "trim_stream buf =
     (if length buf > MAX_RX_STREAM_BUFFER_BYTES
      then drop (length buf - MAX_RX_STREAM_BUFFER_BYTES) buf else buf)"

definition process_stream ::
  "(nat \<Rightarrow> registry \<Rightarrow> registry) \<Rightarrow> string \<Rightarrow> u8 list \<Rightarrow> registry \<Rightarrow> (u8 list \<times> registry) option" where
  "process_stream run ip buf g =
     (if buf = [] then Some ([], g)
      else map_option (\<lambda>(pos, g). (trim_stream (drop pos buf), g)) (parse_from run ip buf 0 g))"

section \<open>Frames\<close>

lemma get_id_None: "frame_id buf = None \<longleftrightarrow> length buf < id_bytes"
  by (cases buf rule: frame_id.cases) (auto simp: id_bytes_def)

lemma get_id_Some_length: "frame_id buf = Some i \<Longrightarrow> 0 < length buf"
  by (cases buf) auto

lemma get_id_append [simp]: "id_bytes \<le> length buf \<Longrightarrow> frame_id (buf @ rest) = frame_id buf"
  by (cases buf rule: frame_id.cases) (auto simp: id_bytes_def)

text \<open>The specification: given the sizes of the orders, the frames of a stream and what is left of
  it. A byte no order begins at is skipped.\<close>

function split_frames :: "(u16 \<rightharpoonup> nat) \<Rightarrow> u8 list \<Rightarrow> u8 list list \<times> u8 list" where
  "split_frames sizes buf =
     (case frame_id buf of
        None \<Rightarrow> ([], buf)
      | Some i \<Rightarrow>
          (case sizes i of
             None \<Rightarrow> split_frames sizes (tl buf)
           | Some n \<Rightarrow>
               (if length buf < n then ([], buf)
                else if n = 0 then ([], buf)
                else (let (fs, left) = split_frames sizes (drop n buf) in (take n buf # fs, left)))))"
  by pat_completeness auto

termination
  by (relation "measure (\<lambda>(sizes, buf). length buf)")
     (auto dest: get_id_Some_length)

declare split_frames.simps [simp del]

lemma split_frames_short [simp]: "length buf < id_bytes \<Longrightarrow> split_frames sizes buf = ([], buf)"
  by (subst split_frames.simps) (simp add: get_id_None [symmetric])

definition framed :: "(u16 \<rightharpoonup> nat) \<Rightarrow> bool" where
  "framed sizes \<longleftrightarrow> (\<forall>i n. sizes i = Some n \<longrightarrow> id_bytes \<le> n)"

lemma framed_pos: "framed sizes \<Longrightarrow> sizes i = Some n \<Longrightarrow> n \<noteq> 0"
  by (fastforce simp: framed_def id_bytes_def)

lemma split_frames_skip:
  "frame_id buf = Some i \<Longrightarrow> sizes i = None \<Longrightarrow> split_frames sizes buf = split_frames sizes (tl buf)"
  by (subst split_frames.simps) simp

lemma split_frames_partial:
  "frame_id buf = Some i \<Longrightarrow> sizes i = Some n \<Longrightarrow> length buf < n \<Longrightarrow> split_frames sizes buf = ([], buf)"
  by (subst split_frames.simps) simp

lemma split_frames_take:
  "frame_id buf = Some i \<Longrightarrow> sizes i = Some n \<Longrightarrow> 0 < n \<Longrightarrow> n \<le> length buf \<Longrightarrow>
   split_frames sizes buf = (take n buf # fst (split_frames sizes (drop n buf)), snd (split_frames sizes (drop n buf)))"
  by (subst split_frames.simps) (simp add: split_beta Let_def)

lemmas split_frames_cases = split_frames_skip split_frames_partial split_frames_take

text \<open>A stream may be cut anywhere.\<close>

lemma split_frames_append:
  assumes "framed sizes"
  shows "split_frames sizes (xs @ ys) =
    (fst (split_frames sizes xs) @ fst (split_frames sizes (snd (split_frames sizes xs) @ ys)),
     snd (split_frames sizes (snd (split_frames sizes xs) @ ys)))"
proof (induction xs rule: length_induct)
  case (1 xs)
  show ?case
  proof (cases "frame_id xs")
    case None
    then show ?thesis by (simp add: get_id_None)
  next
    case (Some i)
    then have id: "frame_id (xs @ ys) = Some i" and two: "id_bytes \<le> length xs"
      by (metis get_id_append get_id_None not_less option.distinct(1))+
    show ?thesis
    proof (cases "sizes i")
      case None
      have "length (tl xs) < length xs" using get_id_Some_length [OF Some] by (cases xs) auto
      then have "split_frames sizes (tl xs @ ys) =
          (fst (split_frames sizes (tl xs)) @ fst (split_frames sizes (snd (split_frames sizes (tl xs)) @ ys)),
           snd (split_frames sizes (snd (split_frames sizes (tl xs)) @ ys)))"
        using 1 by blast
      moreover have "tl (xs @ ys) = tl xs @ ys" using get_id_Some_length [OF Some] by (cases xs) auto
      ultimately show ?thesis
        using split_frames_skip [of xs i sizes] split_frames_skip [OF id, of sizes] Some None by simp
    next
      case (Some n)
      note n = framed_pos [OF assms Some]
      show ?thesis
      proof (cases "length xs < n")
        case True
        then show ?thesis using split_frames_partial [of xs i sizes n] \<open>frame_id xs = Some i\<close> Some by simp
      next
        case False
        then have "length (drop n xs) < length xs" using n by simp
        then have rest: "split_frames sizes (drop n xs @ ys) =
            (fst (split_frames sizes (drop n xs)) @ fst (split_frames sizes (snd (split_frames sizes (drop n xs)) @ ys)),
             snd (split_frames sizes (snd (split_frames sizes (drop n xs)) @ ys)))"
          using 1 by blast
        show ?thesis
          using split_frames_take [of xs i sizes n] \<open>frame_id xs = Some i\<close> Some n False rest
            split_frames_take [of "xs @ ys" i sizes n] id by simp
      qed
    qed
  qed
qed

text \<open>What is left never holds a whole order.\<close>

lemma split_frames_left:
  assumes "framed sizes" and small: "\<forall>i n. sizes i = Some n \<longrightarrow> n \<le> m" and "id_bytes \<le> m"
  shows "length (snd (split_frames sizes xs)) < m"
proof (induction xs rule: length_induct)
  case (1 xs)
  show ?case
  proof (cases "frame_id xs")
    case None
    then show ?thesis using assms(3) by (simp add: get_id_None)
  next
    case (Some i)
    note len = get_id_Some_length [OF Some]
    show ?thesis
    proof (cases "sizes i")
      case None
      then show ?thesis using 1 Some len by (simp add: split_frames_skip)
    next
      case (Some n)
      note n = framed_pos [OF assms(1) Some]
      show ?thesis
      proof (cases "length xs < n")
        case True
        then show ?thesis using split_frames_partial [of xs i sizes n] \<open>frame_id xs = Some i\<close> Some small Some by fastforce
      next
        case False
        then show ?thesis using split_frames_take [of xs i sizes n] \<open>frame_id xs = Some i\<close> Some 1 n len by simp
      qed
    qed
  qed
qed

section \<open>Orders of a fixed size\<close>

definition static_packet :: "packet \<Rightarrow> bool" where
  "static_packet p \<longleftrightarrow>
     (case pk_kind p of
        Sized n \<Rightarrow> list_all static_value (pk_values p) \<and> n = (\<Sum>v\<leftarrow>pk_values p. static_size v) \<and>
          pk_size p = n + id_bytes
      | Bare \<Rightarrow> True
      | Unsized \<Rightarrow> False)"

definition packet_sig :: "packet \<Rightarrow> packet_kind \<times> u16 \<times> packet_value list \<times> nat" where
  "packet_sig p = (pk_kind p, pk_id p, pk_values p, (case pk_kind p of Sized n \<Rightarrow> pk_size p | _ \<Rightarrow> 0))"

definition static_orders :: "registry \<Rightarrow> bool" where
  "static_orders g \<longleftrightarrow> (\<forall>i a. rg_orders g i = Some a \<longrightarrow> static_packet (packet_of (rg_objects g a)))"

text \<open>The orders stay as they were declared; the variables and the callbacks may change.\<close>

definition same_orders :: "registry \<Rightarrow> registry \<Rightarrow> bool" where
  "same_orders g h \<longleftrightarrow> rg_orders h = rg_orders g \<and>
     (\<forall>i a. rg_orders g i = Some a \<longrightarrow>
        packet_sig (packet_of (rg_objects h a)) = packet_sig (packet_of (rg_objects g a)))"

definition keeps_orders :: "(nat \<Rightarrow> registry \<Rightarrow> registry) \<Rightarrow> bool" where
  "keeps_orders run \<longleftrightarrow> (\<forall>c g. same_orders g (run c g))"

definition order_table :: "registry \<Rightarrow> u16 \<rightharpoonup> nat" where
  "order_table g i = map_option (\<lambda>a. order_size a g) (rg_orders g i)"

lemma same_orders_refl [simp]: "same_orders g g"
  by (simp add: same_orders_def)

lemma same_orders_trans [trans]: "same_orders g h \<Longrightarrow> same_orders h k \<Longrightarrow> same_orders g k"
  by (simp add: same_orders_def)

lemma static_packet_sig: "packet_sig p = packet_sig q \<Longrightarrow> static_packet p = static_packet q"
  by (auto simp: packet_sig_def static_packet_def split: packet_kind.splits)

lemma static_size_sig:
  "packet_sig p = packet_sig q \<Longrightarrow> static_packet p \<Longrightarrow> get_size p st = get_size q st'"
  by (auto simp: packet_sig_def static_packet_def get_size_def split: packet_kind.splits)

lemma static_size_min: "static_packet p \<Longrightarrow> id_bytes \<le> get_size p st"
  by (auto simp: static_packet_def get_size_def split: packet_kind.splits)

lemma static_orders_same: "same_orders g h \<Longrightarrow> static_orders g \<Longrightarrow> static_orders h"
  unfolding static_orders_def same_orders_def using static_packet_sig by metis

lemma order_table_same:
  assumes "same_orders g h" "static_orders g"
  shows "order_table h = order_table g"
proof
  fix i
  show "order_table h i = order_table g i"
  proof (cases "rg_orders g i")
    case (Some a)
    have "packet_sig (packet_of (rg_objects g a)) = packet_sig (packet_of (rg_objects h a))"
      and "static_packet (packet_of (rg_objects g a))"
      using assms Some by (auto simp: same_orders_def static_orders_def)
    from static_size_sig [OF this, of "rg_vars g" "rg_vars h"] show ?thesis
      using assms Some by (simp add: order_table_def order_size_def same_orders_def)
  qed (use assms in \<open>simp add: order_table_def same_orders_def\<close>)
qed

lemma framed_order_table: "static_orders g \<Longrightarrow> framed (order_table g)"
  by (auto simp: framed_def order_table_def order_size_def static_orders_def static_size_min)

section \<open>The parser takes the frames\<close>

text \<open>What the parser does with one frame, and with a list of them.\<close>

definition deliver_frame ::
  "(nat \<Rightarrow> registry \<Rightarrow> registry) \<Rightarrow> string \<Rightarrow> u8 list \<Rightarrow> registry \<Rightarrow> registry option" where
  "deliver_frame run ip fr g =
     (case Option.bind (frame_id fr) (rg_orders g) of
        None \<Rightarrow> Some g
      | Some a \<Rightarrow> process_data run fr (store_ip_order ip a g))"

fun deliver_frames ::
  "(nat \<Rightarrow> registry \<Rightarrow> registry) \<Rightarrow> string \<Rightarrow> u8 list list \<Rightarrow> registry \<Rightarrow> registry option" where
  "deliver_frames run ip [] g = Some g"
| "deliver_frames run ip (fr # frs) g = Option.bind (deliver_frame run ip fr g) (deliver_frames run ip frs)"

lemma deliver_frames_append [simp]:
  "deliver_frames run ip (xs @ ys) g = Option.bind (deliver_frames run ip xs g) (deliver_frames run ip ys)"
  by (induction xs arbitrary: g) (auto split: bind_splits)

lemma write_var_append: "n \<le> length data \<Longrightarrow> write_var a n (data @ rest) st = write_var a n data st"
  by (simp add: write_var_def memcpy_into_def)

lemma parse_values_static:
  "list_all static_value vs \<Longrightarrow> (\<Sum>v\<leftarrow>vs. static_size v) \<le> length data \<Longrightarrow>
   \<exists>st'. parse_values vs data st = Some st' \<and> parse_values vs (data @ rest) st = Some st'"
proof (induction vs arbitrary: data st)
  case (Cons v vs)
  let ?n = "static_size v"
  have sz: "value_size v st = ?n" "terminated v st" "value_size v (write_value v data st) = ?n"
      "terminated v (write_value v data st)" "write_value v (data @ rest) st = write_value v data st"
    using Cons.prems by (cases v; simp add: write_var_append)+
  have "(\<Sum>v\<leftarrow>vs. static_size v) \<le> length (drop ?n data)" "list_all static_value vs"
    using Cons.prems by auto
  then obtain st' where "parse_values vs (drop ?n data) (write_value v data st) = Some st'"
      "parse_values vs (drop ?n data @ rest) (write_value v data st) = Some st'"
    using Cons.IH by blast
  then show ?case using sz Cons.prems by (simp add: value_parse_def)
qed simp

lemma parse_static:
  assumes "static_packet p" "get_size p st \<le> length data"
  obtains st' where "parse_packet p data st = Some st'" "parse_packet p (data @ rest) st = Some st'"
proof (cases "pk_kind p")
  case (Sized n)
  then have "list_all static_value (pk_values p)" "(\<Sum>v\<leftarrow>pk_values p. static_size v) \<le> length (drop id_bytes data)"
      "id_bytes \<le> length data"
    using assms by (auto simp: static_packet_def get_size_def)
  then show ?thesis
    using parse_values_static [of "pk_values p" "drop id_bytes data" st rest] that Sized
    by (auto simp: parse_packet_def)
next
  case Unsized
  then show ?thesis using assms by (simp add: static_packet_def)
next
  case Bare
  then show ?thesis using that by (simp add: parse_packet_def)
qed

lemma packet_of_on_order [simp]:
  "packet_of (rg_objects (store_ip_order ip a g) b) = packet_of (rg_objects g b)"
  by (auto simp: store_ip_order_def on_order_def split: pobject.splits)

lemma store_ip_order_simps [simp]:
  "rg_orders (store_ip_order ip a g) = rg_orders g" "rg_vars (store_ip_order ip a g) = rg_vars g"
  by (simp_all add: store_ip_order_def on_order_def)

lemma same_orders_store_ip: "same_orders g (store_ip_order ip a g)"
  by (simp add: same_orders_def)

lemma same_orders_process:
  assumes "keeps_orders run"
  shows "same_orders g (process_by_id run i g)"
proof -
  have "same_orders g (run c (g\<lparr>rg_called := cs\<rparr>))" for c cs
    using assms by (auto simp: keeps_orders_def same_orders_def)
  then show ?thesis
    by (auto simp: process_by_id_def process_order_def split: option.splits pobject.splits)
qed

text \<open>One order at the front of the data: its frame is delivered, and nothing else of the data is
  read.\<close>

lemma process_data_static:
  assumes run: "keeps_orders run" and static: "static_orders g"
    and id: "frame_id data = Some i" "rg_orders g i = Some a" and enough: "order_size a g \<le> length data"
  obtains h where "process_data run data g = Some h" "process_data run (data @ rest) g = Some h"
    and "same_orders g h"
proof -
  have "static_packet (packet_of (rg_objects g a))"
    using static id(2) by (auto simp: static_orders_def)
  then obtain st' where st': "parse_packet (packet_of (rg_objects g a)) data (rg_vars g) = Some st'"
      "parse_packet (packet_of (rg_objects g a)) (data @ rest) (rg_vars g) = Some st'"
    using enough parse_static unfolding order_size_def by metis
  have id': "frame_id (data @ rest) = Some i"
    using id(1) get_id_None [of data] by simp
  let ?h = "process_by_id run i (g\<lparr>rg_vars := st'\<rparr>)"
  have "same_orders g (g\<lparr>rg_vars := st'\<rparr>)" by (simp add: same_orders_def)
  then have "same_orders g ?h" using same_orders_process [OF run] same_orders_trans by blast
  then show ?thesis
    using that [of ?h] st' id id' by (simp add: process_data_def parse_at_def)
qed

lemma take_order_static:
  assumes run: "keeps_orders run" and static: "static_orders g"
    and id: "frame_id rest = Some i" "rg_orders g i = Some a" and enough: "order_size a g \<le> length rest"
  obtains h where "take_order run ip a rest g = Some (order_size a g, h)"
    and "deliver_frame run ip (take (order_size a g) rest) g = Some h" and "same_orders g h"
proof -
  let ?n = "order_size a g" and ?g = "store_ip_order ip a g" and ?fr = "take (order_size a g) rest"
  have T: "order_table g i = Some ?n" using id by (simp add: order_table_def)
  have n: "id_bytes \<le> ?n" using framed_order_table [OF static] T by (auto simp: framed_def)
  have split: "rest = ?fr @ drop ?n rest" by (rule append_take_drop_id [symmetric])
  have len: "length ?fr = ?n" using enough by simp
  have "frame_id (?fr @ drop ?n rest) = frame_id ?fr" by (rule get_id_append) (use len n in simp)
  then have fr: "frame_id ?fr = Some i" using id split by simp
  have g: "static_orders ?g" "rg_orders ?g i = Some a" "order_size a ?g = ?n"
    using static id static_orders_same [OF same_orders_store_ip, of g] by (simp_all add: order_size_def)
  obtain h where h: "process_data run ?fr ?g = Some h" "process_data run rest ?g = Some h" "same_orders ?g h"
    using process_data_static [OF run g(1) fr g(2), of "drop ?n rest"] len split g(3) by (metis order_refl)
  have same: "same_orders g h" using same_orders_store_ip h(3) same_orders_trans by blast
  have "order_size a h = ?n"
    using order_table_same [OF same static] T id same
    by (auto simp: order_table_def same_orders_def dest: fun_cong [where x = i])
  then have "take_order run ip a rest g = Some (?n, h)"
    using h(2) n by (simp add: take_order_def Let_def id_bytes_def)
  moreover have "deliver_frame run ip ?fr g = Some h"
    using fr id h(1) by (simp add: deliver_frame_def)
  ultimately show ?thesis using that same by blast
qed

text \<open>The parser from a position is the specification on what is left of the stream: it delivers
  the frames in their order, and what it leaves is what they leave.\<close>

lemma parse_from_frames:
  assumes run: "keeps_orders run" and "static_orders g" and "pos \<le> length buf"
  shows "\<exists>p h. parse_from run ip buf pos g = Some (p, h) \<and>
           deliver_frames run ip (fst (split_frames (order_table g) (drop pos buf))) g = Some h \<and>
           drop p buf = snd (split_frames (order_table g) (drop pos buf)) \<and> same_orders g h"
  using assms(2,3)
proof (induction "length buf - pos" arbitrary: pos g rule: less_induct)
  case less
  let ?rest = "drop pos buf" and ?T = "order_table g"
  have step: "split_frames ?T ?rest = (fs, l) \<Longrightarrow> parse_from run ip buf pos g = parse_from run ip buf q h \<Longrightarrow>
      deliver_frames run ip fs' g = Some h \<Longrightarrow> fs = fs' @ fst (split_frames ?T (drop q buf)) \<Longrightarrow>
      l = snd (split_frames ?T (drop q buf)) \<Longrightarrow> same_orders g h \<Longrightarrow> pos < q \<Longrightarrow> q \<le> length buf \<Longrightarrow> ?case"
    for fs fs' l q h
  proof -
    assume *: "split_frames ?T ?rest = (fs, l)" "parse_from run ip buf pos g = parse_from run ip buf q h"
      "deliver_frames run ip fs' g = Some h" "fs = fs' @ fst (split_frames ?T (drop q buf))"
      "l = snd (split_frames ?T (drop q buf))" "same_orders g h" "pos < q" "q \<le> length buf"
    have "static_orders h" by (rule static_orders_same [OF *(6) less.prems(1)])
    moreover have "order_table h = ?T" by (rule order_table_same [OF *(6) less.prems(1)])
    moreover have "length buf - q < length buf - pos" using *(7,8) by simp
    ultimately obtain p k where "parse_from run ip buf q h = Some (p, k)"
        "deliver_frames run ip (fst (split_frames ?T (drop q buf))) h = Some k"
        "drop p buf = snd (split_frames ?T (drop q buf))" "same_orders h k"
      using less.hyps [of q h] *(8) by auto
    then show ?case using * same_orders_trans by fastforce
  qed
  show ?case
  proof (cases "frame_id ?rest")
    case None
    then show ?thesis using less.prems
      by (subst parse_from.simps) (simp add: get_id_None)
  next
    case (Some i)
    then have two: "id_bytes \<le> length buf - pos" using get_id_None [of ?rest] by simp
    note body = parse_from.simps [of run ip buf pos g]
    show ?thesis
    proof (cases "rg_orders g i")
      case None
      have "parse_from run ip buf pos g = parse_from run ip buf (pos + 1) g"
        using body Some None two less.prems(2) by simp
      moreover have "split_frames ?T ?rest = split_frames ?T (drop (pos + 1) buf)"
        using split_frames_skip [OF Some, of ?T] None by (simp add: order_table_def tl_drop drop_Suc)
      ultimately show ?thesis
        using step [of "fst (split_frames ?T ?rest)" "snd (split_frames ?T ?rest)" "pos + 1" g "[]"] two
        by (simp add: id_bytes_def)
    next
      case known: (Some a)
      let ?n = "order_size a g"
      have T: "?T i = Some ?n" using known by (simp add: order_table_def)
      have n: "id_bytes \<le> ?n" using framed_order_table [OF less.prems(1)] T by (auto simp: framed_def)
      show ?thesis
      proof (cases "length ?rest < ?n")
        case True
        then have "parse_from run ip buf pos g = Some (pos, g)"
          using body Some known two less.prems(2) n by (simp add: id_bytes_def)
        then show ?thesis using split_frames_partial [of ?rest i ?T ?n] Some T True by simp
      next
        case False
        let ?fr = "take ?n ?rest"
        obtain h where h: "take_order run ip a ?rest g = Some (?n, h)" "deliver_frame run ip ?fr g = Some h"
            "same_orders g h"
          using take_order_static [OF run less.prems(1) Some known] False by auto
        from h(1) have A: "parse_from run ip buf pos g = parse_from run ip buf (pos + ?n) h"
          using body Some known two less.prems(2) n False by (simp add: id_bytes_def)
        have B: "deliver_frames run ip [?fr] g = Some h"
          using h(2) by simp
        have C: "split_frames ?T ?rest = (?fr # fst (split_frames ?T (drop (pos + ?n) buf)),
            snd (split_frames ?T (drop (pos + ?n) buf)))"
          using split_frames_take [of ?rest i ?T ?n] Some T False n by (simp add: id_bytes_def add.commute)
        have D: "pos < pos + ?n" "pos + ?n \<le> length buf"
          using n False less.prems(2) by (simp_all add: id_bytes_def)
        show ?thesis
          by (rule step [OF C A B _ _ h(3) D]) simp_all
      qed
    qed
  qed
qed

lemma stream_parser_step:
  assumes "keeps_orders run" and "static_orders g"
  shows "\<exists>h. process_stream run ip buf g =
               Some (trim_stream (snd (split_frames (order_table g) buf)), h) \<and>
             deliver_frames run ip (fst (split_frames (order_table g) buf)) g = Some h \<and>
             same_orders g h"
proof (cases "buf = []")
  case True
  then show ?thesis by (simp add: process_stream_def trim_stream_def id_bytes_def)
next
  case False
  obtain p h where "parse_from run ip buf 0 g = Some (p, h)"
      "deliver_frames run ip (fst (split_frames (order_table g) buf)) g = Some h"
      "drop p buf = snd (split_frames (order_table g) buf)" "same_orders g h"
    using parse_from_frames [OF assms, of 0 buf ip] by auto
  then show ?thesis using False by (simp add: process_stream_def)
qed

text \<open>C17. The stream parser implements the frames. For orders of a fixed size that stay as they were
  declared, it delivers every whole frame of the stream, in order, each to the callback of its
  order, never reads past the data, and keeps exactly what the frames leave, less what is more
  than the buffer's bound.\<close>

theorem stream_parser_refines:
  assumes "keeps_orders run" and "static_orders g"
  shows "\<exists>h. process_stream run ip buf g =
               Some (trim_stream (snd (split_frames (order_table g) buf)), h) \<and>
             deliver_frames run ip (fst (split_frames (order_table g) buf)) g = Some h \<and>
             same_orders g h"
  by (rule stream_parser_step [OF assms])

definition receive_segment ::
  "(nat \<Rightarrow> registry \<Rightarrow> registry) \<Rightarrow> string \<Rightarrow> u8 list \<Rightarrow> u8 list \<times> registry \<Rightarrow> (u8 list \<times> registry) option" where
  "receive_segment run ip seg s = process_stream run ip (fst s @ seg) (snd s)"

fun receive_segments ::
  "(nat \<Rightarrow> registry \<Rightarrow> registry) \<Rightarrow> string \<Rightarrow> u8 list list \<Rightarrow> u8 list \<times> registry \<Rightarrow> (u8 list \<times> registry) option" where
  "receive_segments run ip [] s = Some s"
| "receive_segments run ip (seg # segs) s =
     Option.bind (receive_segment run ip seg s) (receive_segments run ip segs)"

lemma untrimmed:
  assumes "static_orders g" and "\<forall>i n. order_table g i = Some n \<longrightarrow> n \<le> MAX_RX_STREAM_BUFFER_BYTES"
  shows "trim_stream (snd (split_frames (order_table g) buf)) = snd (split_frames (order_table g) buf)"
  using split_frames_left [OF framed_order_table [OF assms(1)] assms(2), of buf]
  by (simp add: trim_stream_def MAX_RX_STREAM_BUFFER_BYTES_def id_bytes_def)

lemma receive_segments_frames:
  assumes run: "keeps_orders run" and "static_orders g"
    and "\<forall>i n. order_table g i = Some n \<longrightarrow> n \<le> MAX_RX_STREAM_BUFFER_BYTES"
    and "snd (split_frames (order_table g) left) = left" "fst (split_frames (order_table g) left) = []"
  shows "\<exists>h. receive_segments run ip segs (left, g) =
               Some (snd (split_frames (order_table g) (left @ concat segs)), h) \<and>
             deliver_frames run ip (fst (split_frames (order_table g) (left @ concat segs))) g = Some h"
  using assms(2-)
proof (induction segs arbitrary: left g)
  case (Cons seg segs)
  let ?T = "order_table g" and ?buf = "left @ seg"
  note framed = framed_order_table [OF Cons.prems(1)]
  obtain h where h: "process_stream run ip ?buf g = Some (snd (split_frames ?T ?buf), h)"
      "deliver_frames run ip (fst (split_frames ?T ?buf)) g = Some h" "same_orders g h"
    using stream_parser_step [OF run Cons.prems(1), of ip ?buf] untrimmed [OF Cons.prems(1,2)] by auto
  let ?left = "snd (split_frames ?T ?buf)"
  have T: "order_table h = ?T" by (rule order_table_same [OF h(3) Cons.prems(1)])
  have "split_frames ?T ?left = ([], ?left)"
    using split_frames_append [OF framed, of ?buf "[]"] by (auto simp: prod_eq_iff)
  then obtain k where k: "receive_segments run ip segs (?left, h) =
        Some (snd (split_frames ?T (?left @ concat segs)), k)"
      "deliver_frames run ip (fst (split_frames ?T (?left @ concat segs))) h = Some k"
    using Cons.IH [of h ?left] static_orders_same [OF h(3) Cons.prems(1)] Cons.prems(2) T by auto
  show ?case
    using h k split_frames_append [OF framed, of ?buf "concat segs"] by (simp add: receive_segment_def)
qed simp

text \<open>C18. How the network cuts the stream does not matter: delivered in any segments, a stream runs
  the same orders and leaves the same rest as delivered at once.\<close>

theorem segmentation_irrelevant:
  assumes "keeps_orders run" and "static_orders g"
    and "\<forall>i n. order_table g i = Some n \<longrightarrow> n \<le> MAX_RX_STREAM_BUFFER_BYTES"
  shows "receive_segments run ip segs ([], g) = receive_segment run ip (concat segs) ([], g) \<and>
         receive_segments run ip segs ([], g) \<noteq> None"
proof -
  have "snd (split_frames (order_table g) []) = []" "fst (split_frames (order_table g) []) = []"
    by (simp_all add: id_bytes_def)
  from receive_segments_frames [OF assms this, of ip segs]
  show ?thesis
    using stream_parser_step [OF assms(1,2), of ip "concat segs"] untrimmed [OF assms(2,3)]
    by (auto simp: receive_segment_def)
qed

section \<open>Instances\<close>

definition static_registry :: registry where
  "static_registry = new_order 40 (stack_packet 2 5 [Scalar 7 2] (replicate 4 0)) (Some 3)
     \<lparr>rg_vars = demo_store, rg_objects = (\<lambda>_. Plain (bare_packet 0)), rg_packets = Map.empty,
      rg_orders = Map.empty, rg_called = []\<rparr>"

lemma static_registry_orders:
  "order_table static_registry = [5 \<mapsto> 4]" "static_orders static_registry"
  by (auto simp: fun_eq_iff order_table_def static_registry_def new_order_def stack_packet_def order_size_def
      get_size_def id_bytes_def static_orders_def static_packet_def split: if_splits)

lemma demo_stream:
  "split_frames [5 \<mapsto> 4] [7, 5, 0, 1, 2, 5] = ([[5, 0, 1, 2]], [5])"
proof -
  have "frame_id [7, 5, 0, 1, 2, 5] = Some 0x507" "frame_id [5, 0, 1, 2, 5] = Some 5"
    by (simp_all add: word16_def)
  then show ?thesis
    using split_frames_skip [of "[7, 5, 0, 1, 2, 5]" "0x507" "[5 \<mapsto> 4]"]
      split_frames_take [of "[5, 0, 1, 2, 5]" 5 "[5 \<mapsto> 4]" 4] by (simp add: id_bytes_def)
qed

lemma keeps_orders_id: "keeps_orders (\<lambda>_ g. g)"
  by (simp add: keeps_orders_def)

lemma stream_parser_refines_witness:
  "\<exists>h. process_stream (\<lambda>_ g. g) ''ip'' [7, 5, 0, 1, 2, 5] static_registry = Some ([5], h) \<and>
       deliver_frames (\<lambda>_ g. g) ''ip'' [[5, 0, 1, 2]] static_registry = Some h"
  using stream_parser_refines [OF keeps_orders_id static_registry_orders(2), of "''ip''" "[7, 5, 0, 1, 2, 5]"]
  by (auto simp: static_registry_orders demo_stream trim_stream_def MAX_RX_STREAM_BUFFER_BYTES_def)

lemma segmentation_irrelevant_witness:
  "receive_segments (\<lambda>_ g. g) ''ip'' [[7, 5], [0, 1], [2, 5]] ([], static_registry) =
     receive_segment (\<lambda>_ g. g) ''ip'' [7, 5, 0, 1, 2, 5] ([], static_registry)"
  using segmentation_irrelevant
    [OF keeps_orders_id static_registry_orders(2), of "''ip''" "[[7, 5], [0, 1], [2, 5]]"]
  by (simp add: static_registry_orders MAX_RX_STREAM_BUFFER_BYTES_def)

end
