(* ===== verification/Tcp.thy ===== *)
theory Tcp
  imports Streams
begin

unbundle bit_operations_syntax

text \<open>
  The TCP client socket (\<open>Socket.cpp\<close>, \<open>Socket.hpp\<close> under
  \<open>HALAL/Services/Communication/Ethernet/LWIP/TCP\<close>) over the lwIP stack.

  lwIP is not part of the repository: it is a state \<open>'l\<close> and the operations of \<open>tcp_ops\<close>, one for
  each call that returns something and \<open>op_do\<close> for the calls that do not. A control block is a
  number, a buffer of the network (\<open>pbuf\<close>) its bytes. The callbacks of lwIP are operations of the
  model; that one runs while another call into the socket is running is not modelled, nor is a
  user's callback of an order that uses the socket it came from.

  \<open>sk_written\<close> is a ghost: the bytes \<open>tcp_write\<close> accepted on the connection. \<open>None\<close> is undefined
  behaviour, which the building and the parsing of an order may have (\<open>Packets\<close>).
\<close>

section \<open>The stack\<close>

datatype err = ERR_OK | ERR_MEM | ERR_ISCONN | ERR_VAL | ERR_ABRT | ERR_OTHER

datatype lwip_call =
    Tcp_arg nat bool | Tcp_sent nat bool | Tcp_recv nat bool | Tcp_err nat bool | Tcp_poll nat bool
  | Tcp_accept nat bool | Nagle_disable nat | Set_reuse nat | Set_prio nat u8 | Keepalive nat "u32 \<times> u32 \<times> u32"
  | Tcp_recved nat nat | Tcp_output nat | Tcp_abort nat | Pbuf_free "u8 list"

type_synonym node = "u32 \<times> u32"

record 'l tcp_ops =
  op_do :: "lwip_call \<Rightarrow> 'l \<Rightarrow> 'l"
  op_new :: "'l \<Rightarrow> nat option \<times> 'l"
  op_bind :: "nat \<Rightarrow> node \<Rightarrow> 'l \<Rightarrow> err \<times> 'l"
  op_listen :: "nat \<Rightarrow> 'l \<Rightarrow> nat option \<times> 'l"
  op_connect :: "nat \<Rightarrow> node \<Rightarrow> 'l \<Rightarrow> err \<times> 'l"
  op_write :: "nat \<Rightarrow> u8 list \<Rightarrow> 'l \<Rightarrow> err \<times> 'l"
  op_close :: "nat \<Rightarrow> 'l \<Rightarrow> err \<times> 'l"
  op_sndbuf :: "nat \<Rightarrow> 'l \<Rightarrow> nat"
  op_remote :: "nat \<Rightarrow> 'l \<Rightarrow> string"
  op_local_port :: "nat \<Rightarrow> 'l \<Rightarrow> u32"
  op_syn_sent :: "nat \<Rightarrow> 'l \<Rightarrow> bool"
  op_alloc :: "nat \<Rightarrow> 'l \<Rightarrow> bool \<times> 'l"
  op_take :: "u8 list \<Rightarrow> 'l \<Rightarrow> err \<times> 'l"
  op_copy :: "u8 list \<Rightarrow> 'l \<Rightarrow> u8 list"
  op_run :: "nat \<Rightarrow> registry \<Rightarrow> registry"
  op_fresh :: "nat \<Rightarrow> nat \<Rightarrow> u8"

text \<open>From \<open>LWIP/Target/lwipopts.h\<close>.\<close>

definition TCP_SND_BUF :: nat where
  "TCP_SND_BUF = 5840"

text \<open>What the sockets share: the stack, the orders, the sockets that are connecting or listening,
  \<open>OrderProtocol::sockets\<close>, the priority of the next server connection, and the panics.\<close>

record 'l net =
  n_lwip :: 'l
  n_registry :: registry
  n_connecting :: "node \<rightharpoonup> nat"
  n_listening :: "u32 \<rightharpoonup> nat"
  n_protocols :: "nat list"
  n_priority :: u8
  n_running :: bool
  n_panics :: "string list"

definition on_lwip :: "('l \<Rightarrow> 'l) \<Rightarrow> 'l net \<Rightarrow> 'l net" where
  "on_lwip f n = n\<lparr>n_lwip := f (n_lwip n)\<rparr>"

definition calls :: "'l tcp_ops \<Rightarrow> lwip_call list \<Rightarrow> 'l net \<Rightarrow> 'l net" where
  "calls ops cs = on_lwip (fold (op_do ops) cs)"

definition ask :: "('l \<Rightarrow> 'a \<times> 'l) \<Rightarrow> 'l net \<Rightarrow> 'a \<times> 'l net" where
  "ask f n = (let (a, l) = f (n_lwip n) in (a, n\<lparr>n_lwip := l\<rparr>))"

definition panic :: "string \<Rightarrow> 'l net \<Rightarrow> 'l net" where
  "panic msg n = n\<lparr>n_panics := n_panics n @ [msg]\<rparr>"

definition enter_protocol :: "nat \<Rightarrow> 'l net \<Rightarrow> 'l net" where
  "enter_protocol this n =
     (if this \<in> set (n_protocols n) then n else n\<lparr>n_protocols := n_protocols n @ [this]\<rparr>)"

definition leave_protocol :: "nat \<Rightarrow> 'l net \<Rightarrow> 'l net" where
  "leave_protocol this n = n\<lparr>n_protocols := remove1 this (n_protocols n)\<rparr>"

section \<open>The socket\<close>

datatype SocketState = INACTIVE | CONNECTED | CLOSING

definition MAX_TX_QUEUE_DEPTH :: nat where
  "MAX_TX_QUEUE_DEPTH = 64"

record socket =
  sk_connection :: "nat option"
  sk_pcb :: "nat option"
  sk_tx :: "u8 list option list"
  sk_rx :: "u8 list option list"
  sk_stream :: "u8 list"
  sk_local :: node
  sk_remote :: node
  sk_remote_name :: string
  sk_state :: SocketState
  sk_pending_reset :: bool
  sk_poll_ticks :: u16
  sk_use_keepalives :: bool
  sk_keepalive :: "u32 \<times> u32 \<times> u32"
  sk_written :: "u8 list"

text \<open>\<open>clear_packet_queues\<close>: the buffers of both queues are freed, oldest first.\<close>

definition frees :: "u8 list option list \<Rightarrow> lwip_call list" where
  "frees q = concat (map (case_option [] (\<lambda>b. [Pbuf_free b])) q)"

definition clear_packet_queues :: "'l tcp_ops \<Rightarrow> socket \<times> 'l net \<Rightarrow> socket \<times> 'l net" where
  "clear_packet_queues ops st =
     (let (s, n) = st in (s\<lparr>sk_tx := [], sk_rx := []\<rparr>, calls ops (frees (sk_tx s) @ frees (sk_rx s)) n))"

definition is_connect_error :: "err \<Rightarrow> bool" where
  "is_connect_error e \<longleftrightarrow> e \<noteq> ERR_OK \<and> e \<noteq> ERR_ISCONN"

text \<open>What the constructor and \<open>reset\<close> do with a control block they could bind.\<close>

definition prepare_pcb :: "'l tcp_ops \<Rightarrow> nat \<Rightarrow> 'l net \<Rightarrow> 'l net" where
  "prepare_pcb ops p = calls ops [Nagle_disable p, Tcp_arg p True, Tcp_poll p True, Tcp_err p True]"

definition new_socket :: "node \<Rightarrow> node \<Rightarrow> string \<Rightarrow> bool \<Rightarrow> u32 \<times> u32 \<times> u32 \<Rightarrow> SocketState \<Rightarrow> socket" where
  "new_socket loc rem name use ka st =
     \<lparr>sk_connection = None, sk_pcb = None, sk_tx = [], sk_rx = [], sk_stream = [], sk_local = loc,
      sk_remote = rem, sk_remote_name = name, sk_state = st, sk_pending_reset = False, sk_poll_ticks = 0,
      sk_use_keepalives = use, sk_keepalive = ka, sk_written = []\<rparr>"

text \<open>The constructor; \<open>garbage\<close> is what the member \<open>state\<close>, which has no initializer, holds when the
  constructor returns before it sets it.\<close>

definition make_socket ::
  "'l tcp_ops \<Rightarrow> nat \<Rightarrow> node \<Rightarrow> node \<Rightarrow> string \<Rightarrow> bool \<Rightarrow> u32 \<times> u32 \<times> u32 \<Rightarrow> SocketState \<Rightarrow> 'l net \<Rightarrow> socket \<times> 'l net" where
  "make_socket ops this loc rem name use ka garbage n =
     (if \<not> n_running n
      then (new_socket loc rem name use ka garbage, panic ''Cannot declare TCP socket before Ethernet::start()'' n)
      else
        (let s = new_socket loc rem name use ka INACTIVE;
             (p, n) = ask (op_new ops) n in
         case p of
           None \<Rightarrow> (s, panic ''Cannot allocate TCP control block'' n)
         | Some p \<Rightarrow>
             (let n = calls ops [Set_reuse p] n;
                  (e, n) = ask (op_bind ops p loc) n in
              if e \<noteq> ERR_OK then (s, panic ''Cannot bind TCP socket'' (calls ops [Tcp_abort p] n))
              else
                (let n = prepare_pcb ops p n;
                     n = n\<lparr>n_connecting := (n_connecting n)(rem \<mapsto> this)\<rparr>;
                     (e, n) = ask (op_connect ops p rem) n;
                     bad = is_connect_error e;
                     n = (if bad then n\<lparr>n_connecting := (n_connecting n)(rem := None)\<rparr> else n)
                 in (s\<lparr>sk_connection := Some p, sk_pending_reset := bad\<rparr>, enter_protocol this n)))))"

text \<open>Moving a socket: \<open>other\<close> gives up its control blocks, and who refers to it is told. The queues
  and the stream buffer of \<open>other\<close> are left empty by their moves.\<close>

definition rebind :: "'l tcp_ops \<Rightarrow> nat \<Rightarrow> nat \<Rightarrow> socket \<Rightarrow> 'l net \<Rightarrow> 'l net" where
  "rebind ops this that s n =
     (let n = (case sk_connection s of None \<Rightarrow> n | Some p \<Rightarrow> calls ops [Tcp_arg p True] n);
          n = (case sk_pcb s of None \<Rightarrow> n | Some p \<Rightarrow> calls ops [Tcp_arg p True] n);
          n = (if n_connecting n (sk_remote s) = Some that
               then n\<lparr>n_connecting := (n_connecting n)(sk_remote s \<mapsto> this)\<rparr> else n)
      in enter_protocol this n)"

definition moved_from :: "socket \<Rightarrow> socket" where
  "moved_from s =
     s\<lparr>sk_connection := None, sk_pcb := None, sk_tx := [], sk_rx := [], sk_stream := [], sk_state := INACTIVE,
       sk_pending_reset := False, sk_poll_ticks := 0\<rparr>"

definition move_socket ::
  "'l tcp_ops \<Rightarrow> nat \<Rightarrow> nat \<Rightarrow> socket \<Rightarrow> 'l net \<Rightarrow> socket \<times> socket \<times> 'l net" where
  "move_socket ops this that other n = (other, moved_from other, rebind ops this that other n)"

section \<open>Closing and connecting\<close>

definition close_pcb :: "'l tcp_ops \<Rightarrow> nat \<Rightarrow> 'l net \<Rightarrow> 'l net" where
  "close_pcb ops p n =
     (let n = calls ops [Tcp_arg p False, Tcp_sent p False, Tcp_recv p False, Tcp_err p False, Tcp_poll p False] n;
          (e, n) = ask (op_close ops p) n
      in if e \<noteq> ERR_OK then calls ops [Tcp_abort p] n else n)"

definition drop_connection :: "'l tcp_ops \<Rightarrow> nat \<Rightarrow> 'l net \<Rightarrow> 'l net" where
  "drop_connection ops c = calls ops [Tcp_arg c False, Tcp_poll c False, Tcp_err c False, Tcp_abort c]"

definition forget_connecting :: "nat \<Rightarrow> socket \<Rightarrow> 'l net \<Rightarrow> 'l net" where
  "forget_connecting this s n =
     (if n_connecting n (sk_remote s) = Some this
      then n\<lparr>n_connecting := (n_connecting n)(sk_remote s := None)\<rparr> else n)"

definition close :: "'l tcp_ops \<Rightarrow> nat \<Rightarrow> socket \<times> 'l net \<Rightarrow> socket \<times> 'l net" where
  "close ops this st =
     (let (s, n) = st;
          n = (case sk_pcb s of None \<Rightarrow> n | Some p \<Rightarrow> close_pcb ops p n);
          n = (case sk_connection s of
                 None \<Rightarrow> n
               | Some c \<Rightarrow> if sk_connection s = sk_pcb s then n else drop_connection ops c n);
          (s, n) = clear_packet_queues ops (s\<lparr>sk_pcb := None, sk_connection := None\<rparr>, n);
          s = s\<lparr>sk_stream := [], sk_poll_ticks := 0, sk_pending_reset := False, sk_state := INACTIVE\<rparr>
      in (s, forget_connecting this s n))"

definition assign_socket ::
  "'l tcp_ops \<Rightarrow> nat \<Rightarrow> nat \<Rightarrow> socket \<Rightarrow> socket \<Rightarrow> 'l net \<Rightarrow> socket \<times> socket \<times> 'l net" where
  "assign_socket ops this that s other n =
     (if this = that then (s, other, n)
      else let (s, n) = close ops this (s, n) in (other, moved_from other, rebind ops this that other n))"

definition destroy_socket :: "'l tcp_ops \<Rightarrow> nat \<Rightarrow> socket \<times> 'l net \<Rightarrow> 'l net" where
  "destroy_socket ops this st =
     (let (s, n) = close ops this st;
          n = n\<lparr>n_connecting := (\<lambda>k. if n_connecting n k = Some this then None else n_connecting n k)\<rparr>
      in leave_protocol this n)"

text \<open>\<open>reset\<close> starts over with a new control block (\<open>open_connection\<close> is its second half).\<close>

definition open_connection :: "'l tcp_ops \<Rightarrow> nat \<Rightarrow> socket \<times> 'l net \<Rightarrow> socket \<times> 'l net" where
  "open_connection ops this st =
     (let (s, n) = st; (p, n) = ask (op_new ops) n in
      case p of
        None \<Rightarrow> (s\<lparr>sk_connection := None, sk_pending_reset := True\<rparr>, n)
      | Some p \<Rightarrow>
          (let n = calls ops [Set_reuse p] n;
               (e, n) = ask (op_bind ops p (sk_local s)) n in
           if e \<noteq> ERR_OK
           then (s\<lparr>sk_connection := None, sk_pending_reset := True\<rparr>, calls ops [Tcp_abort p] n)
           else
             (let n = prepare_pcb ops p n;
                  n = n\<lparr>n_connecting := (n_connecting n)(sk_remote s \<mapsto> this)\<rparr>;
                  (e, n) = ask (op_connect ops p (sk_remote s)) n
              in (s\<lparr>sk_connection := Some p, sk_pending_reset := is_connect_error e\<rparr>, n))))"

definition reset :: "'l tcp_ops \<Rightarrow> nat \<Rightarrow> socket \<times> 'l net \<Rightarrow> socket \<times> 'l net" where
  "reset ops this st =
     (let (s, n) = st;
          (s, n) = clear_packet_queues ops (s\<lparr>sk_state := INACTIVE, sk_pcb := None\<rparr>, n);
          s = s\<lparr>sk_stream := [], sk_poll_ticks := 0\<rparr>;
          n = (case sk_connection s of None \<Rightarrow> n | Some c \<Rightarrow> drop_connection ops c n)
      in open_connection ops this (s, n))"

definition reconnect :: "'l tcp_ops \<Rightarrow> nat \<Rightarrow> socket \<times> 'l net \<Rightarrow> socket \<times> 'l net" where
  "reconnect ops this st =
     (let (s, n) = st in
      if sk_state s = CONNECTED then (s, n)
      else
        (case sk_connection s of
           None \<Rightarrow> reset ops this (s, n)
         | Some c \<Rightarrow>
             (if sk_pending_reset s then reset ops this (s, n)
              else if op_syn_sent ops c (n_lwip n) then (s, n)
              else
                (let n = n\<lparr>n_connecting := (n_connecting n)(sk_remote s \<mapsto> this)\<rparr>;
                     (e, n) = ask (op_connect ops c (sk_remote s)) n
                 in (if is_connect_error e then s\<lparr>sk_pending_reset := True\<rparr> else s, n)))))"

section \<open>Sending\<close>

text \<open>The loop of \<open>send\<close>: the queue that is left, the bytes written, and whether the connection
  failed. A buffer that could not be allocated leaves a null in the queue (\<open>ForwardOrder\<close>).\<close>

fun flush_queue ::
  "'l tcp_ops \<Rightarrow> nat \<Rightarrow> u8 list option list \<Rightarrow> 'l \<Rightarrow> u8 list option list \<times> u8 list \<times> bool \<times> 'l" where
  "flush_queue ops p [] l = ([], [], False, l)"
| "flush_queue ops p (None # q) l = flush_queue ops p q l"
| "flush_queue ops p (Some b # q) l =
     (if length b > op_sndbuf ops p l then (Some b # q, [], False, l)
      else
        (let (e, l) = op_write ops p b l in
         if e = ERR_OK then
           (let (q, w, bad, l) = flush_queue ops p q (op_do ops (Pbuf_free b) l) in (q, b @ w, bad, l))
         else if e = ERR_MEM then (Some b # q, [], False, l)
         else (Some b # q, [], True, l)))"

definition send :: "'l tcp_ops \<Rightarrow> socket \<times> 'l net \<Rightarrow> socket \<times> 'l net" where
  "send ops st =
     (let (s, n) = st in
      case sk_pcb s of
        None \<Rightarrow> (s, n)
      | Some p \<Rightarrow>
          (if sk_state s \<noteq> CONNECTED then (s, n)
           else
             (let (q, w, bad, l) = flush_queue ops p (sk_tx s) (n_lwip n);
                  s = s\<lparr>sk_tx := q, sk_written := sk_written s @ w\<rparr>;
                  s = (if bad then s\<lparr>sk_state := CLOSING\<rparr> else s)
              in (s, calls ops [Tcp_output p] (n\<lparr>n_lwip := l\<rparr>)))))"

text \<open>\<open>order.build()\<close>: the first \<open>get_size()\<close> bytes of its buffer are what the sockets send. A new
  array holds whatever bytes its memory had.\<close>

definition new_array :: "'l tcp_ops \<Rightarrow> nat \<Rightarrow> u8 list" where
  "new_array ops k = map (op_fresh ops k) [0 ..< k]"

definition build_order :: "'l tcp_ops \<Rightarrow> nat \<Rightarrow> 'l net \<Rightarrow> (u8 list \<times> 'l net) option" where
  "build_order ops a n =
     (let k = order_size a (n_registry n) in
      map_option (\<lambda>(g, buf). (take k buf, n\<lparr>n_registry := g\<rparr>)) (build_at a (new_array ops) (n_registry n)))"

definition try_send_immediately ::
  "'l tcp_ops \<Rightarrow> nat \<Rightarrow> socket \<times> 'l net \<Rightarrow> (bool \<times> socket \<times> 'l net) option" where
  "try_send_immediately ops a st =
     (let (s, n) = st in
      case sk_pcb s of
        None \<Rightarrow> Some (False, s, n)
      | Some p \<Rightarrow>
          (let k = order_size a (n_registry n) in
           if sk_state s \<noteq> CONNECTED \<or> sk_tx s \<noteq> [] then Some (False, s, n)
           else if k = 0 \<or> k > TCP_SND_BUF \<or> k > op_sndbuf ops p (n_lwip n) then Some (False, s, n)
           else
             (case build_order ops a n of
                None \<Rightarrow> None
              | Some (bytes, n) \<Rightarrow>
                  (let (e, n) = ask (op_write ops p bytes) n in
                   if e = ERR_OK
                   then Some (True, s\<lparr>sk_written := sk_written s @ bytes\<rparr>, calls ops [Tcp_output p] n)
                   else if e = ERR_MEM then Some (False, s, n)
                   else Some (False, s\<lparr>sk_state := CLOSING\<rparr>, n)))))"

definition add_order_to_queue ::
  "'l tcp_ops \<Rightarrow> nat \<Rightarrow> socket \<times> 'l net \<Rightarrow> (bool \<times> socket \<times> 'l net) option" where
  "add_order_to_queue ops a st =
     (let (s, n) = st; k = order_size a (n_registry n) in
      if sk_state s \<noteq> CONNECTED \<or> sk_pcb s = None then Some (False, s, n)
      else if length (sk_tx s) \<ge> MAX_TX_QUEUE_DEPTH then Some (False, s, n)
      else if k = 0 \<or> k > TCP_SND_BUF then Some (False, s, n)
      else
        (case build_order ops a n of
           None \<Rightarrow> None
         | Some (bytes, n) \<Rightarrow>
             (let (got, n) = ask (op_alloc ops k) n in
              if \<not> got then Some (False, s, n)
              else
                (let (e, n) = ask (op_take ops bytes) n in
                 if e \<noteq> ERR_OK then Some (False, s, calls ops [Pbuf_free bytes] n)
                 else Some (True, s\<lparr>sk_tx := sk_tx s @ [Some bytes]\<rparr>, n)))))"

definition send_order ::
  "'l tcp_ops \<Rightarrow> nat \<Rightarrow> nat \<Rightarrow> socket \<times> 'l net \<Rightarrow> (bool \<times> socket \<times> 'l net) option" where
  "send_order ops this a st =
     (if sk_state (fst st) \<noteq> CONNECTED \<or> sk_pcb (fst st) = None then Some (False, reconnect ops this st)
      else
        (case try_send_immediately ops a st of
           None \<Rightarrow> None
         | Some (True, st) \<Rightarrow> Some (True, st)
         | Some (False, st) \<Rightarrow>
             (case add_order_to_queue ops a st of
                None \<Rightarrow> None
              | Some (True, st) \<Rightarrow> Some (True, send ops st)
              | Some (False, st) \<Rightarrow>
                  (case add_order_to_queue ops a (send ops st) of
                     None \<Rightarrow> None
                   | Some (False, st) \<Rightarrow> Some (False, st)
                   | Some (True, st) \<Rightarrow> Some (True, send ops st)))))"

definition is_connected :: "socket \<Rightarrow> bool" where
  "is_connected s \<longleftrightarrow> sk_state s = CONNECTED"

section \<open>Receiving\<close>

text \<open>\<open>process_data\<close>: each buffer received is acknowledged, appended to the stream and parsed.\<close>

fun process_buffers ::
  "'l tcp_ops \<Rightarrow> nat option \<Rightarrow> string \<Rightarrow> u8 list option list \<Rightarrow> u8 list \<times> 'l net \<Rightarrow> (u8 list \<times> 'l net) option" where
  "process_buffers ops pcb ip [] st = Some st"
| "process_buffers ops pcb ip (None # q) st = process_buffers ops pcb ip q st"
| "process_buffers ops pcb ip (Some b # q) st =
     (let (stream, n) = st;
          n = (case pcb of None \<Rightarrow> n | Some p \<Rightarrow> calls ops [Tcp_recved p (length b)] n);
          got = op_copy ops b (n_lwip n) in
      if length got = length b then
        (case process_stream (op_run ops) ip (stream @ got) (n_registry n) of
           None \<Rightarrow> None
         | Some (rest, g) \<Rightarrow>
             process_buffers ops pcb ip q (rest, calls ops [Pbuf_free b] (n\<lparr>n_registry := g\<rparr>)))
      else process_buffers ops pcb ip q (stream, calls ops [Pbuf_free b] n))"

definition process_received :: "'l tcp_ops \<Rightarrow> socket \<times> 'l net \<Rightarrow> (socket \<times> 'l net) option" where
  "process_received ops st =
     (let (s, n) = st in
      map_option (\<lambda>(stream, n). (s\<lparr>sk_rx := [], sk_stream := stream\<rparr>, n))
        (process_buffers ops (sk_pcb s) (sk_remote_name s) (sk_rx s) (sk_stream s, n)))"

section \<open>The callbacks\<close>

text \<open>The argument lwIP passes is the socket, or null (\<open>None\<close>) once the socket was closed.\<close>

definition config_keepalive :: "'l tcp_ops \<Rightarrow> nat \<Rightarrow> socket \<Rightarrow> 'l net \<Rightarrow> 'l net" where
  "config_keepalive ops p s = calls ops [Keepalive p (sk_keepalive s)]"

definition connect_callback ::
  "'l tcp_ops \<Rightarrow> nat \<Rightarrow> socket option \<Rightarrow> nat option \<Rightarrow> err \<Rightarrow> 'l net \<Rightarrow> err \<times> socket option \<times> 'l net" where
  "connect_callback ops this arg pcb e n =
     (case (arg, pcb) of
        (Some s, Some p) \<Rightarrow>
          (if e \<noteq> ERR_OK then (e, Some (s\<lparr>sk_state := INACTIVE, sk_pending_reset := True\<rparr>), n)
           else
             (let s = s\<lparr>sk_connection := Some p, sk_pcb := Some p, sk_stream := [], sk_state := CONNECTED,
                        sk_pending_reset := False, sk_poll_ticks := 0, sk_written := []\<rparr>;
                  n = calls ops [Nagle_disable p, Tcp_arg p True, Tcp_recv p True, Tcp_poll p True,
                                 Tcp_sent p True, Tcp_err p True] n;
                  n = (if sk_use_keepalives s then config_keepalive ops p s n else n);
                  n = forget_connecting this s n;
                  (s, n) = (if sk_tx s \<noteq> [] then send ops (s, n) else (s, n))
              in (ERR_OK, Some s, n)))
      | _ \<Rightarrow> (ERR_VAL, arg, n))"

definition receive_callback ::
  "'l tcp_ops \<Rightarrow> socket option \<Rightarrow> nat \<Rightarrow> u8 list option \<Rightarrow> err \<Rightarrow> 'l net \<Rightarrow> (err \<times> socket option \<times> 'l net) option" where
  "receive_callback ops arg p buf e n =
     (case arg of
        None \<Rightarrow> Some (ERR_VAL, None, calls ops (frees [buf]) n)
      | Some s \<Rightarrow>
          (let s = s\<lparr>sk_pcb := Some p\<rparr> in
           if buf = None then Some (ERR_OK, Some (s\<lparr>sk_state := CLOSING\<rparr>), n)
           else if e \<noteq> ERR_OK then Some (ERR_OK, Some s, calls ops (frees [buf]) n)
           else if sk_state s = CONNECTED then
             map_option (\<lambda>(s, n). (ERR_OK, Some s, n))
               (process_received ops (s\<lparr>sk_rx := sk_rx s @ [buf]\<rparr>, n))
           else Some (ERR_OK, Some s, calls ops (frees [buf]) n)))"

definition poll_callback ::
  "'l tcp_ops \<Rightarrow> nat \<Rightarrow> socket option \<Rightarrow> nat \<Rightarrow> 'l net \<Rightarrow> (err \<times> socket option \<times> 'l net) option" where
  "poll_callback ops this arg p n =
     (case arg of
        None \<Rightarrow> Some (ERR_ABRT, None, calls ops [Tcp_abort p] n)
      | Some s \<Rightarrow>
          (let st = (s\<lparr>sk_pcb := Some p\<rparr>, n);
               st = (if sk_tx (fst st) \<noteq> [] then send ops st else st) in
           map_option
             (\<lambda>st. (let (s, n) = (if sk_state (fst st) = CLOSING then close ops this st else st) in (ERR_OK, Some s, n)))
             (if sk_rx (fst st) \<noteq> [] then process_received ops st else Some st)))"

definition send_callback ::
  "'l tcp_ops \<Rightarrow> nat \<Rightarrow> socket option \<Rightarrow> nat \<Rightarrow> 'l net \<Rightarrow> err \<times> socket option \<times> 'l net" where
  "send_callback ops this arg p n =
     (case arg of
        None \<Rightarrow> (ERR_ABRT, None, calls ops [Tcp_abort p] n)
      | Some s \<Rightarrow>
          (let s = s\<lparr>sk_pcb := Some p\<rparr>;
               (s, n) = (if sk_tx s \<noteq> [] then send ops (s, n)
                         else if sk_state s = CLOSING then close ops this (s, n) else (s, n))
           in (ERR_OK, Some s, n)))"

definition error_callback :: "'l tcp_ops \<Rightarrow> socket option \<Rightarrow> 'l net \<Rightarrow> socket option \<times> 'l net" where
  "error_callback ops arg n =
     (case arg of
        None \<Rightarrow> (None, n)
      | Some s \<Rightarrow>
          (let (s, n) = clear_packet_queues ops
                 (s\<lparr>sk_pcb := None, sk_connection := None, sk_state := INACTIVE, sk_pending_reset := True,
                    sk_poll_ticks := 0\<rparr>, n)
           in (Some (s\<lparr>sk_stream := []\<rparr>), n)))"

definition connection_error_callback :: "socket option \<Rightarrow> 'l net \<Rightarrow> socket option \<times> 'l net" where
  "connection_error_callback arg n =
     (map_option (\<lambda>s. s\<lparr>sk_connection := None, sk_pcb := None, sk_state := INACTIVE, sk_pending_reset := True,
                      sk_poll_ticks := 0, sk_stream := []\<rparr>) arg, n)"

definition connection_poll_callback ::
  "'l tcp_ops \<Rightarrow> nat \<Rightarrow> socket option \<Rightarrow> nat option \<Rightarrow> 'l net \<Rightarrow> err \<times> socket option \<times> 'l net" where
  "connection_poll_callback ops this arg pcb n =
     (case arg of
        None \<Rightarrow> (ERR_ABRT, None, (case pcb of None \<Rightarrow> n | Some p \<Rightarrow> calls ops [Tcp_abort p] n))
      | Some s \<Rightarrow>
          (let s = s\<lparr>sk_connection := pcb\<rparr> in
           if sk_pending_reset s then
             (let (s, n) = reset ops this (s\<lparr>sk_pending_reset := False\<rparr>, n) in (ERR_ABRT, Some s, n))
           else if sk_state s \<noteq> CONNECTED \<and> (case pcb of None \<Rightarrow> False | Some p \<Rightarrow> op_syn_sent ops p (n_lwip n)) then
             (let s = s\<lparr>sk_poll_ticks := sk_poll_ticks s + 1\<rparr>;
                  s = (if sk_poll_ticks s \<ge> 20 then s\<lparr>sk_pending_reset := True\<rparr> else s)
              in (ERR_OK, Some s, n))
           else (ERR_OK, Some (s\<lparr>sk_poll_ticks := 0\<rparr>), n)))"

text \<open>\<open>ForwardOrder::parse\<close>: the frame goes to the socket it is forwarded to, as it was received.\<close>

definition forward_order ::
  "'l tcp_ops \<Rightarrow> nat \<Rightarrow> u8 list \<Rightarrow> socket \<times> 'l net \<Rightarrow> socket \<times> 'l net" where
  "forward_order ops a data st =
     (let (s, n) = st; k = order_size a (n_registry n);
          (got, n) = ask (op_alloc ops k) n;
          packet = (if got then Some (take k data) else None)
      in send ops (s\<lparr>sk_tx := sk_tx s @ [packet]\<rparr>, n))"

section \<open>The bytes on their way out\<close>

definition queued :: "u8 list option list \<Rightarrow> u8 list" where
  "queued q = concat (map (case_option [] id) q)"

definition outgoing :: "socket \<Rightarrow> u8 list" where
  "outgoing s = sk_written s @ queued (sk_tx s)"

lemma queued_simps [simp]:
  "queued [] = []" "queued (None # q) = queued q" "queued (Some b # q) = b @ queued q"
  "queued (q @ r) = queued q @ queued r"
  by (simp_all add: queued_def)

lemma flush_queue_spec:
  "flush_queue ops p q l = (q', w, bad, l') \<Longrightarrow> w @ queued q' = queued q \<and> length q' \<le> length q"
proof (induction ops p q l arbitrary: q' w bad l' rule: flush_queue.induct)
  case (3 ops p b q l)
  show ?case
  proof (cases "length b > op_sndbuf ops p l \<or> fst (op_write ops p b l) \<noteq> ERR_OK")
    case True
    then show ?thesis using "3.prems" by (auto split: prod.splits if_splits)
  next
    case False
    obtain e l1 where w: "op_write ops p b l = (e, l1)" by (rule prod.exhaust)
    obtain q1 w1 bad1 l2 where f: "flush_queue ops p q (op_do ops (Pbuf_free b) l1) = (q1, w1, bad1, l2)"
      by (metis prod_cases4)
    have "w1 @ queued q1 = queued q \<and> length q1 \<le> length q"
      using "3.IH" [OF _ w [symmetric] refl _ f] False w by simp
    then show ?thesis using "3.prems" False w f by auto
  qed
qed (auto dest: le_SucI)

lemma net_simps [simp]:
  "n_registry (calls ops cs n) = n_registry n" "n_connecting (calls ops cs n) = n_connecting n"
  "n_running (calls ops cs n) = n_running n"
  by (simp_all add: calls_def on_lwip_def)

lemma ask_registry: "ask f n = (a, n') \<Longrightarrow> n_registry n' = n_registry n"
  by (auto simp: ask_def split: prod.splits)

text \<open>A flush neither loses, repeats nor reorders a byte.\<close>

lemma send_outgoing:
  assumes "send ops (s, n) = (s', n')"
  shows "outgoing s' = outgoing s" "length (sk_tx s') \<le> length (sk_tx s)" "n_registry n' = n_registry n"
    and "sk_pcb s' = sk_pcb s" "sk_stream s' = sk_stream s" "sk_state s' = sk_state s \<or> sk_state s' = CLOSING"
proof -
  have "outgoing s' = outgoing s \<and> length (sk_tx s') \<le> length (sk_tx s) \<and> n_registry n' = n_registry n \<and>
    sk_pcb s' = sk_pcb s \<and> sk_stream s' = sk_stream s \<and> (sk_state s' = sk_state s \<or> sk_state s' = CLOSING)"
  proof (cases "sk_pcb s")
    case None
    then show ?thesis using assms by (auto simp: send_def)
  next
    case (Some p)
    obtain q w bad l where f: "flush_queue ops p (sk_tx s) (n_lwip n) = (q, w, bad, l)"
      by (metis prod_cases4)
    show ?thesis
      using assms Some flush_queue_spec [OF f]
      by (auto simp: send_def f Let_def outgoing_def split: if_splits)
  qed
  then show "outgoing s' = outgoing s" "length (sk_tx s') \<le> length (sk_tx s)" "n_registry n' = n_registry n"
    and "sk_pcb s' = sk_pcb s" "sk_stream s' = sk_stream s" "sk_state s' = sk_state s \<or> sk_state s' = CLOSING"
    by simp_all
qed

section \<open>The frame of an order\<close>

definition order_frame :: "nat \<Rightarrow> registry \<Rightarrow> u8 list" where
  "order_frame a g = frame (packet_of (rg_objects g a)) (rg_vars g)"

definition order_ok :: "nat \<Rightarrow> registry \<Rightarrow> bool" where
  "order_ok a g \<longleftrightarrow> packet_ok (rg_vars g) (packet_of (rg_objects g a))"

lemma packet_of_with_packet [simp]: "packet_of (with_packet p ob) = p"
  by (cases ob) simp_all

text \<open>Sending an order writes its buffer; what the orders would put on the wire stays the same.\<close>

definition same_wire :: "'l net \<Rightarrow> 'l net \<Rightarrow> bool" where
  "same_wire n n' \<longleftrightarrow> (\<forall>b. order_ok b (n_registry n) \<longrightarrow> order_ok b (n_registry n') \<and>
     order_frame b (n_registry n') = order_frame b (n_registry n) \<and>
     order_size b (n_registry n') = order_size b (n_registry n))"

lemma same_wire_registry: "n_registry n' = n_registry n \<Longrightarrow> same_wire n n'"
  by (simp add: same_wire_def)

lemma same_wire_trans: "same_wire n n1 \<Longrightarrow> same_wire n1 n2 \<Longrightarrow> same_wire n n2"
  by (simp add: same_wire_def)

lemma same_wire_next: "same_wire n n1 \<Longrightarrow> n_registry n2 = n_registry n1 \<Longrightarrow> same_wire n n2"
  by (simp add: same_wire_def)

lemma build_order_frame:
  assumes "order_ok a (n_registry n)"
  obtains n' where "build_order ops a n = Some (order_frame a (n_registry n), n')"
    and "same_wire n n'" "n_lwip n' = n_lwip n"
proof -
  let ?g = "n_registry n" and ?p = "packet_of (rg_objects (n_registry n) a)"
  have fresh: "length (new_array ops k) = k" for k by (simp add: new_array_def)
  have ok: "packet_ok (rg_vars ?g) ?p" using assms by (simp add: order_ok_def)
  obtain p' rest where b: "build_packet ?p (rg_vars ?g) (new_array ops) = Some (p', frame ?p (rg_vars ?g) @ rest)"
      "packet_ok (rg_vars ?g) p'" "frame p' (rg_vars ?g) = frame ?p (rg_vars ?g)"
      "get_size p' (rg_vars ?g) = get_size ?p (rg_vars ?g)"
    using build_frame [OF ok, of "new_array ops"] fresh by metis
  let ?n = "n\<lparr>n_registry := ?g\<lparr>rg_objects := (rg_objects ?g)(a := with_packet p' (rg_objects ?g a))\<rparr>\<rparr>"
  show ?thesis
  proof (rule that [of ?n])
    show "same_wire n ?n"
      using b by (simp add: same_wire_def order_size_def order_frame_def order_ok_def)
  qed (use b length_frame [OF ok] in \<open>simp_all add: build_order_def build_at_def order_size_def order_frame_def\<close>)
qed

definition appended :: "nat \<Rightarrow> 'l net \<Rightarrow> socket \<Rightarrow> bool \<times> socket \<times> 'l net \<Rightarrow> bool" where
  "appended a n s r \<longleftrightarrow>
     (let (sent, s', n') = r in same_wire n n' \<and> sk_stream s' = sk_stream s \<and> sk_pcb s' = sk_pcb s \<and>
        (sk_state s' = sk_state s \<or> sk_state s' = CLOSING) \<and> length (sk_tx s') \<le> max (length (sk_tx s)) MAX_TX_QUEUE_DEPTH \<and>
        outgoing s' = outgoing s @ (if sent then order_frame a (n_registry n) else []))"

lemma appendedI:
  assumes "same_wire n n'" "sk_stream s' = sk_stream s" "sk_pcb s' = sk_pcb s"
    and "sk_state s' = sk_state s \<or> sk_state s' = CLOSING"
    and "length (sk_tx s') \<le> max (length (sk_tx s)) MAX_TX_QUEUE_DEPTH"
    and "outgoing s' = outgoing s @ (if sent then order_frame a (n_registry n) else [])"
  shows "appended a n s (sent, s', n')"
  using assms by (simp add: appended_def)

lemma try_send_appends:
  assumes "order_ok a (n_registry n)"
  shows "\<exists>r. try_send_immediately ops a (s, n) = Some r \<and> appended a n s r"
proof -
  have none: "appended a n s (False, s, n)"
    by (rule appendedI) (use assms in \<open>auto simp: same_wire_registry\<close>)
  obtain n1 where b: "build_order ops a n = Some (order_frame a (n_registry n), n1)"
      "same_wire n n1"
    using build_order_frame [OF assms] by metis
  show ?thesis
  proof (cases "sk_pcb s")
    case None
    then show ?thesis using none by (simp add: try_send_immediately_def)
  next
    case (Some p)
    obtain e n2 where w: "ask (op_write ops p (order_frame a (n_registry n))) n1 = (e, n2)" by (rule prod.exhaust)
    have n2: "same_wire n n2" by (rule same_wire_next [OF b(2) ask_registry [OF w]])
    have out: "same_wire n (calls ops [Tcp_output p] n2)" by (rule same_wire_next [OF n2]) simp
    have yes: "appended a n s (True, s\<lparr>sk_written := sk_written s @ order_frame a (n_registry n)\<rparr>, calls ops [Tcp_output p] n2)"
      if "sk_tx s = []"
      by (rule appendedI) (use out that in \<open>auto simp: outgoing_def\<close>)
    have mem: "appended a n s (False, s, n2)" by (rule appendedI) (use n2 in auto)
    have bad: "appended a n s (False, s\<lparr>sk_state := CLOSING\<rparr>, n2)"
      by (rule appendedI) (use n2 in \<open>auto simp: outgoing_def\<close>)
    show ?thesis
      using Some none yes mem bad b(1) w by (auto simp: try_send_immediately_def Let_def)
  qed
qed

lemma add_order_appends:
  assumes "order_ok a (n_registry n)"
  shows "\<exists>r. add_order_to_queue ops a (s, n) = Some r \<and> appended a n s r"
proof -
  have none: "appended a n s (False, s, n)"
    by (rule appendedI) (use assms in \<open>auto simp: same_wire_registry\<close>)
  obtain n1 where b: "build_order ops a n = Some (order_frame a (n_registry n), n1)"
      "same_wire n n1"
    using build_order_frame [OF assms] by metis
  obtain got n2 where al: "ask (op_alloc ops (order_size a (n_registry n))) n1 = (got, n2)" by (rule prod.exhaust)
  obtain e n3 where tk: "ask (op_take ops (order_frame a (n_registry n))) n2 = (e, n3)" by (rule prod.exhaust)
  have n2: "same_wire n n2" by (rule same_wire_next [OF b(2) ask_registry [OF al]])
  have n3: "same_wire n n3" by (rule same_wire_next [OF n2 ask_registry [OF tk]])
  have no: "appended a n s (False, s, n2)" by (rule appendedI) (use n2 in auto)
  have free: "appended a n s (False, s, calls ops cs n3)" for cs
    by (rule appendedI) (use n3 in \<open>auto intro: same_wire_next\<close>)
  have yes: "appended a n s (True, s\<lparr>sk_tx := sk_tx s @ [Some (order_frame a (n_registry n))]\<rparr>, n3)"
    if "length (sk_tx s) < MAX_TX_QUEUE_DEPTH"
    by (rule appendedI) (use n3 that in \<open>auto simp: outgoing_def\<close>)
  show ?thesis
    using none no free yes b(1) al tk by (auto simp: add_order_to_queue_def Let_def not_le)
qed

lemma appended_send:
  assumes "appended a n s (sent, s1, n1)" "send ops (s1, n1) = (s2, n2)"
  shows "appended a n s (sent, s2, n2)"
  using assms(1) send_outgoing [OF assms(2)]
  by (auto simp: appended_def intro: same_wire_next)

lemma appended_step:
  assumes order: "order_ok a (n_registry n)"
    and "appended a n s (False, s1, n1)" "appended a n1 s1 (sent, s2, n2)"
  shows "appended a n s (sent, s2, n2)"
  using assms order by (auto simp: appended_def same_wire_def)

lemma appended_ok: "appended a n s (sent, s', n') \<Longrightarrow> order_ok b (n_registry n) \<Longrightarrow> order_ok b (n_registry n')"
  by (simp add: appended_def same_wire_def)

lemma send_order_step:
  assumes ok: "order_ok a (n_registry n)"
    and up: "sk_state s = CONNECTED" "sk_pcb s = Some p"
  shows "\<exists>r. send_order ops this a (s, n) = Some r \<and> appended a n s r"
proof -
  obtain r1 s1 n1 where t: "try_send_immediately ops a (s, n) = Some (r1, s1, n1)" "appended a n s (r1, s1, n1)"
    using try_send_appends [OF ok, of ops s] by auto
  show ?thesis
  proof (cases r1)
    case True
    then show ?thesis using t up by (simp add: send_order_def)
  next
    case False
    note ok1 = appended_ok [OF t(2) ok]
    obtain r2 s2 n2 where q: "add_order_to_queue ops a (s1, n1) = Some (r2, s2, n2)" "appended a n1 s1 (r2, s2, n2)"
      using add_order_appends [OF ok1, of ops s1] by auto
    have A: "appended a n s (r2, s2, n2)" using appended_step [OF ok] t(2) q(2) False by auto
    obtain s3 n3 where f: "send ops (s2, n2) = (s3, n3)" by (rule prod.exhaust)
    have B: "appended a n s (r2, s3, n3)" by (rule appended_send [OF A f])
    show ?thesis
    proof (cases r2)
      case True
      then show ?thesis using t(1) q(1) f B up False by (simp add: send_order_def)
    next
      case no: False
      note ok3 = appended_ok [OF B ok]
      obtain r4 s4 n4 where z: "add_order_to_queue ops a (s3, n3) = Some (r4, s4, n4)" "appended a n3 s3 (r4, s4, n4)"
        using add_order_appends [OF ok3, of ops s3] by auto
      have C: "appended a n s (r4, s4, n4)" using appended_step [OF ok] B z(2) no by auto
      obtain s5 n5 where g: "send ops (s4, n4) = (s5, n5)" by (rule prod.exhaust)
      have "appended a n s (r4, s5, n5)" by (rule appended_send [OF C g])
      then show ?thesis using t(1) q(1) f z(1) g C up False no by (cases r4) (simp_all add: send_order_def)
    qed
  qed
qed

text \<open>C19. A connected socket is a queue of frames: sending an order always returns; if it says that
  the order was sent, the bytes written and queued have grown by exactly the order's frame, and
  if it says that it was not, they have not changed. The queue does not grow past its depth.\<close>

theorem send_order_appends:
  assumes "order_ok a (n_registry n)" "sk_state s = CONNECTED" "sk_pcb s = Some p"
  shows "\<exists>sent s' n'. send_order ops this a (s, n) = Some (sent, s', n') \<and>
           outgoing s' = outgoing s @ (if sent then order_frame a (n_registry n) else []) \<and>
           length (sk_tx s') \<le> max (length (sk_tx s)) MAX_TX_QUEUE_DEPTH \<and>
           (sk_state s' = CONNECTED \<or> sk_state s' = CLOSING)"
  using send_order_step [OF assms, where ops = ops and this = this] assms(2,3) by (auto simp: appended_def)

section \<open>The interface of the protocols\<close>

text \<open>A list of orders, as far as each of them is sent.\<close>

fun send_each ::
  "(nat \<Rightarrow> 's \<times> 'n \<Rightarrow> (bool \<times> 's \<times> 'n) option) \<Rightarrow> nat list \<Rightarrow> 's \<times> 'n \<Rightarrow> ('s \<times> 'n) option" where
  "send_each send_one [] st = Some st"
| "send_each send_one (a # as) st =
     (case send_one a st of Some (True, st) \<Rightarrow> send_each send_one as st | _ \<Rightarrow> None)"

text \<open>\<open>OrderProtocol\<close>: what the client of \<open>send_order\<close> relies on.\<close>

locale order_protocol =
  fixes send_one :: "nat \<Rightarrow> 's \<times> 'n \<Rightarrow> (bool \<times> 's \<times> 'n) option"
    and up :: "'s \<Rightarrow> bool" and out :: "'s \<Rightarrow> u8 list" and orders_of :: "'n \<Rightarrow> registry"
  assumes sends: "up s \<Longrightarrow> order_ok a (orders_of n) \<Longrightarrow>
      \<exists>sent s' n'. send_one a (s, n) = Some (sent, s', n') \<and>
        out s' = out s @ (if sent then order_frame a (orders_of n) else []) \<and>
        (\<forall>b. order_ok b (orders_of n) \<longrightarrow> order_ok b (orders_of n') \<and>
           order_frame b (orders_of n') = order_frame b (orders_of n))"
    and down: "\<not> up s \<Longrightarrow> send_one a (s, n) = Some (sent, s', n') \<Longrightarrow> \<not> sent"
begin

lemma each_sent_in_order:
  "send_each send_one as (s, n) = Some (s', n') \<Longrightarrow> list_all (\<lambda>a. order_ok a (orders_of n)) as \<Longrightarrow>
   out s' = out s @ concat (map (\<lambda>a. order_frame a (orders_of n)) as)"
proof (induction as arbitrary: s n)
  case (Cons a as)
  obtain s1 n1 where one: "send_one a (s, n) = Some (True, s1, n1)" "send_each send_one as (s1, n1) = Some (s', n')"
    using Cons.prems(1) by (auto split: option.splits bool.splits)
  have "up s" using down [of s a n True s1 n1] one(1) by blast
  then have step: "out s1 = out s @ order_frame a (orders_of n)"
      "\<forall>b. order_ok b (orders_of n) \<longrightarrow> order_ok b (orders_of n1) \<and> order_frame b (orders_of n1) = order_frame b (orders_of n)"
    using sends [of s a n] one(1) Cons.prems(2) by auto
  have "list_all (\<lambda>a. order_ok a (orders_of n1)) as"
    using Cons.prems(2) step(2) by (auto simp: list_all_iff)
  from Cons.IH [OF one(2) this] have "out s' = out s1 @ concat (map (\<lambda>a. order_frame a (orders_of n1)) as)" .
  moreover have "map (\<lambda>a. order_frame a (orders_of n1)) as = map (\<lambda>a. order_frame a (orders_of n)) as"
    using Cons.prems(2) step(2) by (auto simp: list_all_iff)
  ultimately show ?case using step(1) by simp
qed simp

end

interpretation tcp_client: order_protocol "send_order ops this"
    "\<lambda>s. sk_state s = CONNECTED \<and> sk_pcb s \<noteq> None" outgoing n_registry
  for ops this
proof unfold_locales
  fix s :: socket and a and n :: "'a net"
  assume "sk_state s = CONNECTED \<and> sk_pcb s \<noteq> None" and ok: "order_ok a (n_registry n)"
  then obtain p where "sk_state s = CONNECTED" "sk_pcb s = Some p" by auto
  from send_order_step [OF ok this, of ops this]
  show "\<exists>sent s' n'. send_order ops this a (s, n) = Some (sent, s', n') \<and>
      outgoing s' = outgoing s @ (if sent then order_frame a (n_registry n) else []) \<and>
      (\<forall>b. order_ok b (n_registry n) \<longrightarrow> order_ok b (n_registry n') \<and>
         order_frame b (n_registry n') = order_frame b (n_registry n))"
    by (auto simp: appended_def same_wire_def)
qed (auto simp: send_order_def)

section \<open>From one board to another\<close>

lemma split_frames_concat:
  "list_all (\<lambda>f. \<exists>i. frame_id f = Some i \<and> sizes i = Some (length f)) fs \<Longrightarrow>
   split_frames sizes (concat fs) = (fs, [])"
proof (induction fs)
  case (Cons f fs)
  then obtain i where i: "frame_id f = Some i" "sizes i = Some (length f)" by auto
  have two: "id_bytes \<le> length f" using i(1) get_id_None [of f] by simp
  then have "frame_id (f @ concat fs) = Some i" using i(1) by simp
  from split_frames_take [of "f @ concat fs" i sizes "length f", OF this i(2)] show ?case
    using Cons two by (cases f) (simp_all add: id_bytes_def)
qed (simp add: id_bytes_def)

text \<open>C20. Orders sent by one board are processed by the other: if a board sends a list of orders over a
  connected socket and each \<open>send_order\<close> says that it was sent, then the bytes that leave the
  socket, cut into any segments by the network, make the parser of a board that knows orders of
  those identifiers and sizes deliver exactly those frames, in the order they were sent, and leave
  nothing over.\<close>

theorem sent_orders_delivered:
  assumes sent: "send_each (send_order ops this) as (s, n) = Some (s', n')" "outgoing s = []"
    and ok: "list_all (\<lambda>a. order_ok a (n_registry n)) as"
    and wire: "concat segs = outgoing s'"
    and receiver: "keeps_orders run" "static_orders h"
      "\<forall>i k. order_table h i = Some k \<longrightarrow> k \<le> MAX_RX_STREAM_BUFFER_BYTES"
    and known: "list_all (\<lambda>a. order_table h (pk_id (packet_of (rg_objects (n_registry n) a))) =
      Some (length (order_frame a (n_registry n)))) as"
  shows "\<exists>h'. receive_segments run ip segs ([], h) = Some ([], h') \<and>
           deliver_frames run ip (map (\<lambda>a. order_frame a (n_registry n)) as) h = Some h'"
proof -
  let ?fs = "map (\<lambda>a. order_frame a (n_registry n)) as"
  have "outgoing s' = concat ?fs"
    using tcp_client.each_sent_in_order [OF sent(1) ok] sent(2) by simp
  moreover have "frame_id (order_frame a (n_registry n)) = Some (pk_id (packet_of (rg_objects (n_registry n) a)))" for a
    using get_id_frame [of _ _ "[]"] by (simp add: order_frame_def)
  then have "split_frames (order_table h) (concat ?fs) = (?fs, [])"
    using known by (intro split_frames_concat) (auto simp: list_all_iff)
  moreover have "snd (split_frames (order_table h) []) = []" "fst (split_frames (order_table h) []) = []"
    by (simp_all add: id_bytes_def)
  ultimately show ?thesis
    using receive_segments_frames [OF receiver, of "[]" ip segs] wire by simp
qed

section \<open>The invariant of a socket\<close>

definition socket_ok :: "socket \<Rightarrow> bool" where
  "socket_ok s \<longleftrightarrow> (sk_state s = CONNECTED \<longrightarrow> sk_pcb s \<noteq> None) \<and>
     length (sk_tx s) \<le> MAX_TX_QUEUE_DEPTH \<and> length (sk_stream s) \<le> MAX_RX_STREAM_BUFFER_BYTES"

datatype socket_event =
    Send_order nat | Reconnect | Reset | Close | Send
  | On_connect nat err | On_receive nat "u8 list option" err | On_poll nat | On_sent nat
  | On_error err | On_connection_error err | On_connection_poll nat

text \<open>A call into a socket, by the application or by lwIP.\<close>

fun socket_do :: "'l tcp_ops \<Rightarrow> nat \<Rightarrow> socket_event \<Rightarrow> socket \<times> 'l net \<Rightarrow> (socket \<times> 'l net) option" where
  "socket_do ops this (Send_order a) st = map_option snd (send_order ops this a st)"
| "socket_do ops this Reconnect st = Some (reconnect ops this st)"
| "socket_do ops this Reset st = Some (reset ops this st)"
| "socket_do ops this Close st = Some (close ops this st)"
| "socket_do ops this Send st = Some (send ops st)"
| "socket_do ops this (On_connect p e) (s, n) =
     (let (r, s', n) = connect_callback ops this (Some s) (Some p) e n in map_option (\<lambda>s. (s, n)) s')"
| "socket_do ops this (On_receive p buf e) (s, n) =
     Option.bind (receive_callback ops (Some s) p buf e n) (\<lambda>(r, s', n). map_option (\<lambda>s. (s, n)) s')"
| "socket_do ops this (On_poll p) (s, n) =
     Option.bind (poll_callback ops this (Some s) p n) (\<lambda>(r, s', n). map_option (\<lambda>s. (s, n)) s')"
| "socket_do ops this (On_sent p) (s, n) =
     (let (r, s', n) = send_callback ops this (Some s) p n in map_option (\<lambda>s. (s, n)) s')"
| "socket_do ops this (On_error e) (s, n) =
     (let (s', n) = error_callback ops (Some s) n in map_option (\<lambda>s. (s, n)) s')"
| "socket_do ops this (On_connection_error e) (s, n) =
     (let (s', n) = connection_error_callback (Some s) n in map_option (\<lambda>s. (s, n)) s')"
| "socket_do ops this (On_connection_poll p) (s, n) =
     (let (r, s', n) = connection_poll_callback ops this (Some s) (Some p) n in map_option (\<lambda>s. (s, n)) s')"

fun socket_run :: "'l tcp_ops \<Rightarrow> nat \<Rightarrow> socket_event list \<Rightarrow> socket \<times> 'l net \<Rightarrow> (socket \<times> 'l net) option" where
  "socket_run ops this [] st = Some st"
| "socket_run ops this (e # es) st = Option.bind (socket_do ops this e st) (socket_run ops this es)"

text \<open>An inactive socket with empty queues is in order.\<close>

lemma idle_ok: "sk_state s = INACTIVE \<Longrightarrow> sk_tx s = [] \<Longrightarrow> sk_stream s = [] \<Longrightarrow> socket_ok s"
  by (simp add: socket_ok_def)

lemma clear_simps:
  "fst (clear_packet_queues ops (s, n)) = s\<lparr>sk_tx := [], sk_rx := []\<rparr>"
  by (simp add: clear_packet_queues_def)

lemma close_ok: "socket_ok (fst (close ops this st))"
  by (simp add: close_def clear_packet_queues_def Let_def split_beta socket_ok_def)

lemma open_connection_ok:
  assumes "sk_state s = INACTIVE" "sk_tx s = []" "sk_stream s = []"
  shows "socket_ok (fst (open_connection ops this (s, n)))"
proof -
  obtain p m where new: "ask (op_new ops) n = (p, m)" by (rule prod.exhaust)
  show ?thesis
    using assms new by (cases p) (simp_all add: open_connection_def Let_def split_beta socket_ok_def)
qed

lemma reset_ok: "socket_ok (fst (reset ops this (s, n)))"
proof -
  obtain s' m where c: "clear_packet_queues ops (s\<lparr>sk_state := INACTIVE, sk_pcb := None\<rparr>, n) = (s', m)"
    by (rule prod.exhaust)
  have "sk_state s' = INACTIVE" "sk_tx s' = []"
    using clear_simps [of ops "s\<lparr>sk_state := INACTIVE, sk_pcb := None\<rparr>" n] c by simp_all
  then show ?thesis by (simp add: reset_def c open_connection_ok)
qed

lemma send_ok:
  assumes "socket_ok s"
  shows "socket_ok (fst (send ops (s, n)))"
proof -
  obtain s' n' where r: "send ops (s, n) = (s', n')" by (rule prod.exhaust)
  from assms send_outgoing(2,4,5,6) [OF r] have "socket_ok s'" unfolding socket_ok_def by auto
  then show ?thesis by (simp add: r)
qed

lemma socket_ok_upd:
  "socket_ok (s\<lparr>sk_pending_reset := b\<rparr>) = socket_ok s" "socket_ok (s\<lparr>sk_poll_ticks := k\<rparr>) = socket_ok s"
  "socket_ok (s\<lparr>sk_connection := c\<rparr>) = socket_ok s" "socket_ok (s\<lparr>sk_rx := q\<rparr>) = socket_ok s"
  "socket_ok (s\<lparr>sk_written := w\<rparr>) = socket_ok s"
  by (simp_all add: socket_ok_def)

lemma reconnect_ok:
  assumes "socket_ok s"
  shows "socket_ok (fst (reconnect ops this (s, n)))"
proof (cases "sk_connection s")
  case (Some c)
  let ?n = "n\<lparr>n_connecting := (n_connecting n)(sk_remote s \<mapsto> this)\<rparr>"
  obtain e m where e: "ask (op_connect ops c (sk_remote s)) ?n = (e, m)" by (rule prod.exhaust)
  show ?thesis
    using assms Some reset_ok [of ops this s n]
    by (simp add: reconnect_def Let_def e socket_ok_upd)
qed (use assms reset_ok [of ops this s n] in \<open>simp add: reconnect_def\<close>)

lemma trim_stream_bound: "length (trim_stream buf) \<le> MAX_RX_STREAM_BUFFER_BYTES"
  by (simp add: trim_stream_def)

lemma process_stream_bound: "process_stream run ip buf g = Some (rest, h) \<Longrightarrow> length rest \<le> MAX_RX_STREAM_BUFFER_BYTES"
  using trim_stream_bound by (auto simp: process_stream_def split: if_splits)

lemma process_buffers_bound:
  "process_buffers ops pcb ip q st = Some st' \<Longrightarrow> length (fst st) \<le> MAX_RX_STREAM_BUFFER_BYTES \<Longrightarrow>
   length (fst st') \<le> MAX_RX_STREAM_BUFFER_BYTES"
proof (induction q arbitrary: st)
  case (Cons x q)
  obtain s n where st: "st = (s, n)" by (rule prod.exhaust)
  show ?case
  proof (cases x)
    case None
    then show ?thesis using Cons by simp
  next
    case (Some b)
    let ?n = "case pcb of None \<Rightarrow> n | Some p \<Rightarrow> calls ops [Tcp_recved p (length b)] n"
    let ?got = "op_copy ops b (n_lwip ?n)"
    show ?thesis
    proof (cases "length ?got = length b")
      case False
      then have "process_buffers ops pcb ip q (s, calls ops [Pbuf_free b] ?n) = Some st'"
        using Cons.prems(1) Some st by (simp add: Let_def)
      then show ?thesis by (rule Cons.IH) (use Cons.prems(2) st in simp)
    next
      case True
      then obtain rest g where p: "process_stream (op_run ops) ip (s @ ?got) (n_registry ?n) = Some (rest, g)"
          "process_buffers ops pcb ip q (rest, calls ops [Pbuf_free b] (?n\<lparr>n_registry := g\<rparr>)) = Some st'"
        using Cons.prems(1) Some st by (auto simp: Let_def split: option.splits)
      from Cons.IH [OF p(2)] show ?thesis using process_stream_bound [OF p(1)] by simp
    qed
  qed
qed auto

lemma process_received_ok:
  assumes "process_received ops st = Some st'" "socket_ok (fst st)"
  shows "socket_ok (fst st')"
  using assms process_buffers_bound [of ops "sk_pcb (fst st)" "sk_remote_name (fst st)" "sk_rx (fst st)" "(sk_stream (fst st), snd st)"]
  by (auto simp: process_received_def socket_ok_def split_beta)

lemma try_send_ok:
  assumes "try_send_immediately ops a (s, n) = Some (r, s', n')" "socket_ok s"
  shows "socket_ok s'"
  using assms by (auto simp: try_send_immediately_def Let_def split_beta socket_ok_def split: option.splits if_splits)

lemma add_order_ok:
  assumes "add_order_to_queue ops a (s, n) = Some (r, s', n')" "socket_ok s"
  shows "socket_ok s'"
  using assms by (auto simp: add_order_to_queue_def Let_def split_beta socket_ok_def split: option.splits if_splits)

lemma send_order_ok:
  assumes "send_order ops this a (s, n) = Some (r, st')" "socket_ok s"
  shows "socket_ok (fst st')"
proof (cases "sk_state s \<noteq> CONNECTED \<or> sk_pcb s = None")
  case True
  then have "st' = reconnect ops this (s, n)" using assms(1) by (simp add: send_order_def)
  then show ?thesis using reconnect_ok [OF assms(2)] by simp
next
  case False
  then obtain p where up: "sk_state s = CONNECTED" "sk_pcb s = Some p" by auto
  then obtain r1 s1 n1 where t: "try_send_immediately ops a (s, n) = Some (r1, s1, n1)"
    using assms(1) by (auto simp: send_order_def split: option.splits)
  note ok1 = try_send_ok [OF t assms(2)]
  show ?thesis
  proof (cases r1)
    case True
    then have "st' = (s1, n1)" using assms(1) up t by (simp add: send_order_def)
    then show ?thesis using ok1 by simp
  next
    case not_sent: False
    then obtain r2 s2 n2 where q: "add_order_to_queue ops a (s1, n1) = Some (r2, s2, n2)"
      using assms(1) up t by (auto simp: send_order_def split: option.splits)
    note ok2 = add_order_ok [OF q ok1]
    show ?thesis
    proof (cases r2)
      case True
      then have "st' = send ops (s2, n2)" using assms(1) up not_sent t q by (simp add: send_order_def)
      then show ?thesis using send_ok [OF ok2, of ops n2] by simp
    next
      case full: False
      obtain s3 n3 where e: "send ops (s2, n2) = (s3, n3)" by (rule prod.exhaust)
      have ok3: "socket_ok s3" using send_ok [OF ok2, of ops n2] e by simp
      obtain r4 s4 n4 where q4: "add_order_to_queue ops a (s3, n3) = Some (r4, s4, n4)"
        using assms(1) up not_sent full t q e by (auto simp: send_order_def split: option.splits)
      then show ?thesis
        using assms(1) up not_sent full t q e add_order_ok [OF q4 ok3] send_ok
        by (cases r4) (auto simp: send_order_def)
    qed
  qed
qed

lemma fst_of: "(a, b) = c \<Longrightarrow> a = fst c"
  by auto

lemma fst_if_ok: "socket_ok (fst a) \<Longrightarrow> socket_ok (fst b) \<Longrightarrow> socket_ok (fst (if c then a else b))"
  by simp

lemma send_pending_ok:
  assumes "socket_ok s"
  shows "socket_ok (fst (if sk_tx s \<noteq> [] then send ops (s, n) else (s, n)))"
  using assms send_ok [OF assms, of ops n] by simp

lemma connect_ok:
  assumes "connect_callback ops this (Some s) (Some p) e n = (r, Some s', n')" "socket_ok s"
  shows "socket_ok s'"
proof (cases "e = ERR_OK")
  case True
  define t where "t = s\<lparr>sk_connection := Some p, sk_pcb := Some p, sk_stream := [], sk_state := CONNECTED,
                        sk_pending_reset := False, sk_poll_ticks := 0, sk_written := []\<rparr>"
  have t: "socket_ok t" using assms(2) by (simp add: t_def socket_ok_def)
  obtain m where "s' = fst (if sk_tx t \<noteq> [] then send ops (t, m) else (t, m))"
    using assms(1) True unfolding connect_callback_def Let_def option.case prod.case t_def [symmetric]
    by (simp only: simp_thms if_False split_beta prod.inject option.inject) blast
  then show ?thesis using send_pending_ok [OF t, of ops m] by (simp only:)
qed (use assms in \<open>auto simp: connect_callback_def socket_ok_def\<close>)

lemma receive_ok:
  assumes "receive_callback ops (Some s) p buf e n = Some (r, Some s', n')" "socket_ok s"
  shows "socket_ok s'"
proof -
  have t: "socket_ok (s\<lparr>sk_pcb := Some p\<rparr>)" using assms(2) by (simp add: socket_ok_def)
  then have "socket_ok (s\<lparr>sk_pcb := Some p, sk_rx := q\<rparr>)" for q by (simp add: socket_ok_def)
  moreover have "socket_ok (s\<lparr>sk_pcb := Some p, sk_state := CLOSING\<rparr>)" using t by (simp add: socket_ok_def)
  ultimately show ?thesis
    using assms(1) t process_received_ok
    by (cases "buf = None"; cases "e = ERR_OK"; cases "sk_state s = CONNECTED")
      (fastforce simp: receive_callback_def)+
qed

lemma poll_ok:
  assumes "poll_callback ops this (Some s) p n = Some (r, Some s', n')" "socket_ok s"
  shows "socket_ok s'"
proof -
  define t where "t = s\<lparr>sk_pcb := Some p\<rparr>"
  have t: "socket_ok t" using assms(2) by (simp add: t_def socket_ok_def)
  define st where "st = (if sk_tx t \<noteq> [] then send ops (t, n) else (t, n))"
  have st: "socket_ok (fst st)" using send_pending_ok [OF t, of ops n] by (simp add: st_def)
  obtain st2 where r: "(if sk_rx (fst st) \<noteq> [] then process_received ops st else Some st) = Some st2"
    "(s', n') = (if sk_state (fst st2) = CLOSING then close ops this st2 else st2)"
    using assms(1) unfolding poll_callback_def Let_def t_def [symmetric] option.case fst_conv st_def [symmetric]
    by (auto simp: split_beta prod_eq_iff)
  have "socket_ok (fst st2)" using r(1) st process_received_ok [of ops st st2] by (auto split: if_splits)
  then show ?thesis using r(2) close_ok [of ops this st2] by (metis fst_conv)
qed

lemma sent_ok:
  assumes "send_callback ops this (Some s) p n = (r, Some s', n')" "socket_ok s"
  shows "socket_ok s'"
proof -
  define t where "t = s\<lparr>sk_pcb := Some p\<rparr>"
  have t: "socket_ok t" using assms(2) by (simp add: t_def socket_ok_def)
  have "(s', n') = (if sk_tx t \<noteq> [] then send ops (t, n)
    else if sk_state t = CLOSING then close ops this (t, n) else (t, n))"
    using assms(1) unfolding send_callback_def Let_def t_def [symmetric] option.case
    by (auto simp: split_beta prod_eq_iff)
  then have s': "s' = fst (if sk_tx t \<noteq> [] then send ops (t, n)
    else if sk_state t = CLOSING then close ops this (t, n) else (t, n))" by (rule fst_of)
  show ?thesis
    unfolding s' using t by (intro fst_if_ok send_ok [OF t] close_ok) simp
qed

lemma error_ok:
  "error_callback ops (Some s) n = (Some s', n') \<Longrightarrow> socket_ok s'"
  "connection_error_callback (Some s) n = (Some s', n') \<Longrightarrow> socket_ok s \<Longrightarrow> socket_ok s'"
  by (auto simp: error_callback_def connection_error_callback_def clear_packet_queues_def Let_def socket_ok_def)

lemma connection_poll_ok:
  assumes "connection_poll_callback ops this (Some s) (Some p) n = (r, Some s', n')" "socket_ok s"
  shows "socket_ok s'"
proof (cases "sk_pending_reset s")
  case True
  then have "(s', n') = reset ops this (s\<lparr>sk_connection := Some p, sk_pending_reset := False\<rparr>, n)"
    using assms(1) by (auto simp: connection_poll_callback_def Let_def split_beta prod_eq_iff)
  then show ?thesis using reset_ok by (metis fst_conv)
qed (use assms in \<open>auto simp: connection_poll_callback_def Let_def socket_ok_def split: if_splits\<close>)

lemma socket_do_ok:
  assumes "socket_do ops this e (s, n) = Some (s', n')" "socket_ok s"
  shows "socket_ok s'"
proof (cases e)
  case (Send_order a)
  then show ?thesis using assms send_order_ok by (fastforce simp: prod_eq_iff)
next
  case Reconnect
  then show ?thesis using assms reconnect_ok [OF assms(2), of ops this n] by simp
next
  case Reset
  then show ?thesis using assms reset_ok [of ops this s n] by simp
next
  case Close
  then show ?thesis using assms close_ok [of ops this "(s, n)"] by simp
next
  case Send
  then show ?thesis using assms send_ok [OF assms(2), of ops n] by simp
next
  case (On_connect p e)
  then show ?thesis using assms connect_ok by (fastforce simp: Let_def split_beta prod_eq_iff)
next
  case (On_receive p buf e)
  then show ?thesis using assms receive_ok by (fastforce simp: split_beta prod_eq_iff bind_eq_Some_conv)
next
  case (On_poll p)
  then show ?thesis using assms poll_ok by (fastforce simp: split_beta prod_eq_iff bind_eq_Some_conv)
next
  case (On_sent p)
  then show ?thesis using assms sent_ok by (fastforce simp: Let_def split_beta prod_eq_iff)
next
  case (On_error e)
  then show ?thesis using assms error_ok(1) by (fastforce simp: Let_def split_beta prod_eq_iff)
next
  case (On_connection_error e)
  then show ?thesis using assms error_ok(2) by (fastforce simp: Let_def split_beta prod_eq_iff)
next
  case (On_connection_poll p)
  then show ?thesis using assms connection_poll_ok by (fastforce simp: Let_def split_beta prod_eq_iff)
qed

lemma make_socket_ok: "n_running n \<Longrightarrow> socket_ok (fst (make_socket ops this loc rem name use ka garbage n))"
proof -
  assume run: "n_running n"
  obtain p m where new: "ask (op_new ops) n = (p, m)" by (rule prod.exhaust)
  show ?thesis
    using run by (cases p) (simp_all add: make_socket_def new_socket_def new Let_def split_beta socket_ok_def)
qed

text \<open>C21. A TCP client socket stays in order: from its constructor, when Ethernet is running, after any
  sequence of calls and callbacks that is not undefined behaviour, in any order, a connected
  socket has a control block, its transmit queue never holds more than 64 packets and the bytes
  it keeps of its stream never exceed the bound of the receive buffer.\<close>

theorem socket_invariant:
  assumes "n_running n"
    and "socket_run ops this es (make_socket ops this loc rem name use ka garbage n) = Some (s', n')"
  shows "(sk_state s' = CONNECTED \<longrightarrow> sk_pcb s' \<noteq> None) \<and> length (sk_tx s') \<le> MAX_TX_QUEUE_DEPTH \<and>
    length (sk_stream s') \<le> MAX_RX_STREAM_BUFFER_BYTES"
proof -
  have "socket_run ops this es st = Some (s', n') \<Longrightarrow> socket_ok (fst st) \<Longrightarrow> socket_ok s'" for st
  proof (induction es arbitrary: st)
    case (Cons e es)
    obtain s n where st: "st = (s, n)" by (rule prod.exhaust)
    with Cons.prems obtain s1 n1 where "socket_do ops this e (s, n) = Some (s1, n1)"
      "socket_run ops this es (s1, n1) = Some (s', n')"
      by (auto simp: bind_eq_Some_conv)
    then show ?case using Cons.IH [of "(s1, n1)"] Cons.prems(2) st socket_do_ok by fastforce
  qed simp
  from this [OF assms(2) make_socket_ok [OF assms(1)]] show ?thesis by (simp add: socket_ok_def)
qed

section \<open>Instances\<close>

text \<open>A stack that always accepts what it is given.\<close>

definition demo_tcp :: "unit tcp_ops" where
  "demo_tcp =
     \<lparr>op_do = (\<lambda>_ l. l), op_new = (\<lambda>l. (Some 1, l)), op_bind = (\<lambda>_ _ l. (ERR_OK, l)), op_listen = (\<lambda>_ l. (Some 2, l)),
      op_connect = (\<lambda>_ _ l. (ERR_OK, l)), op_write = (\<lambda>_ _ l. (ERR_OK, l)), op_close = (\<lambda>_ l. (ERR_OK, l)),
      op_sndbuf = (\<lambda>_ _. 5840), op_remote = (\<lambda>_ _. ''2''), op_local_port = (\<lambda>_ _. 5),
      op_syn_sent = (\<lambda>_ _. False), op_alloc = (\<lambda>_ l. (True, l)),
      op_take = (\<lambda>_ l. (ERR_OK, l)), op_copy = (\<lambda>b _. b), op_run = (\<lambda>_ g. g), op_fresh = (\<lambda>_ _. 0)\<rparr>"

definition demo_net :: "unit net" where
  "demo_net =
     \<lparr>n_lwip = (), n_registry = demo_registry, n_connecting = Map.empty, n_listening = Map.empty,
      n_protocols = [], n_priority = 1, n_running = True, n_panics = []\<rparr>"

definition demo_socket :: socket where
  "demo_socket = new_socket (1, 5) (2, 5) ''2'' False (0, 0, 0) CONNECTED\<lparr>sk_pcb := Some 1\<rparr>"

lemma demo_order:
  "order_ok 40 demo_registry" "order_frame 40 demo_registry = [5, 0, 0, 0]"
  "packet_of (rg_objects demo_registry 40) = heap_packet 5 [Scalar 7 2]"
  by (simp_all add: order_ok_def order_frame_def packet_ok_def heap_packet_def demo_registry_def new_order_def
      frame_def payload_bytes_def id_bytes_def bytes16_def)

lemma send_order_appends_witness:
  "\<exists>sent s' n'. send_order demo_tcp 7 40 (demo_socket, demo_net) = Some (sent, s', n') \<and>
     outgoing s' = (if sent then [5, 0, 0, 0] else [])"
  using send_order_appends [of 40 demo_net demo_socket 1 demo_tcp 7]
  by (auto simp: demo_net_def demo_order demo_socket_def new_socket_def outgoing_def)

lemma demo_send:
  "\<exists>s' n'. send_each (send_order demo_tcp 7) [40] (demo_socket, demo_net) = Some (s', n') \<and> outgoing s' = [5, 0, 0, 0]"
proof -
  have "order_size 40 demo_registry = 4"
    by (simp add: order_size_def demo_order get_size_def heap_packet_def id_bytes_def values_size_def)
  moreover obtain n1 where "build_order demo_tcp 40 demo_net = Some ([5, 0, 0, 0], n1)"
    using build_order_frame [of 40 demo_net demo_tcp] demo_order by (auto simp: demo_net_def)
  ultimately show ?thesis
    by (simp add: send_order_def try_send_immediately_def demo_socket_def new_socket_def ask_def TCP_SND_BUF_def
        demo_net_def demo_tcp_def outgoing_def Let_def)
qed

lemma sent_orders_delivered_witness:
  "\<exists>h. receive_segments (\<lambda>_ g. g) ''1'' [[5, 0], [0, 0]] ([], static_registry) = Some ([], h) \<and>
     deliver_frames (\<lambda>_ g. g) ''1'' [[5, 0, 0, 0]] static_registry = Some h"
proof -
  obtain s n where sent: "send_each (send_order demo_tcp 7) [40] (demo_socket, demo_net) = Some (s, n)"
      "outgoing s = [5, 0, 0, 0]"
    using demo_send by auto
  have "outgoing demo_socket = []" by (simp add: demo_socket_def new_socket_def outgoing_def)
  moreover have "n_registry demo_net = demo_registry" by (simp add: demo_net_def)
  ultimately show ?thesis
    using sent_orders_delivered [OF sent(1), of "[[5, 0], [0, 0]]" "\<lambda>_ g. g" static_registry "''1''"]
    by (simp add: sent(2) demo_order static_registry_orders keeps_orders_id heap_packet_def MAX_RX_STREAM_BUFFER_BYTES_def)
qed

lemma socket_invariant_witness:
  "\<exists>s n. socket_run demo_tcp 7 [On_connect 1 ERR_OK, On_poll 1, On_receive 1 None ERR_OK]
       (make_socket demo_tcp 7 (1, 5) (2, 5) ''2'' False (0, 0, 0) CLOSING demo_net) = Some (s, n) \<and>
     length (sk_tx s) \<le> 64"
proof -
  have run: "n_running demo_net" by (simp add: demo_net_def)
  obtain s n where "socket_run demo_tcp 7 [On_connect 1 ERR_OK, On_poll 1, On_receive 1 None ERR_OK]
       (make_socket demo_tcp 7 (1, 5) (2, 5) ''2'' False (0, 0, 0) CLOSING demo_net) = Some (s, n)"
    by (simp add: make_socket_def new_socket_def ask_def demo_net_def demo_tcp_def Let_def calls_def on_lwip_def
        prepare_pcb_def is_connect_error_def enter_protocol_def connect_callback_def poll_callback_def
        receive_callback_def forget_connecting_def)
  then show ?thesis using socket_invariant [OF run] by (fastforce simp: MAX_TX_QUEUE_DEPTH_def)
qed

end
