(* ===== verification/Servers.thy ===== *)
theory Servers
  imports Tcp
begin

unbundle bit_operations_syntax

text \<open>
  The TCP server socket (\<open>ServerSocket.cpp\<close>, \<open>ServerSocket.hpp\<close> under
  \<open>HALAL/Services/Communication/Ethernet/LWIP/TCP\<close>), over the stack of \<open>Tcp\<close>. A server listens,
  accepts one connection, for which it gives up its listener, and from then on sends and receives
  like a client socket: the lemmas of the second part make that a simulation, so that what is
  proved of the client's sends holds for the server's.
\<close>

section \<open>The server socket\<close>

datatype ServerState = IDLE | LISTENING | ACCEPTED | ENDING | CLOSED

text \<open>\<open>IDLE\<close> and \<open>ENDING\<close> are the code's \<open>INACTIVE\<close> and \<open>CLOSING\<close>. \<open>sv_written\<close> is the ghost of what
  was written on the connection.\<close>

record server =
  sv_server :: "nat option"
  sv_client :: "nat option"
  sv_tx :: "u8 list option list"
  sv_rx :: "u8 list option list"
  sv_stream :: "u8 list"
  sv_local :: node
  sv_remote_name :: string
  sv_state :: ServerState
  sv_keepalive :: "u32 \<times> u32 \<times> u32"
  sv_written :: "u8 list"

definition new_server :: "node \<Rightarrow> u32 \<times> u32 \<times> u32 \<Rightarrow> ServerState \<Rightarrow> server" where
  "new_server loc ka st =
     \<lparr>sv_server = None, sv_client = None, sv_tx = [], sv_rx = [], sv_stream = [], sv_local = loc,
      sv_remote_name = '''', sv_state = st, sv_keepalive = ka, sv_written = []\<rparr>"

text \<open>The constructor. A control block for which \<open>tcp_listen\<close> has no memory is not freed.\<close>

definition make_server ::
  "'l tcp_ops \<Rightarrow> nat \<Rightarrow> node \<Rightarrow> u32 \<times> u32 \<times> u32 \<Rightarrow> ServerState \<Rightarrow> 'l net \<Rightarrow> server \<times> 'l net" where
  "make_server ops this loc ka garbage n =
     (if \<not> n_running n
      then (new_server loc ka garbage, panic ''Cannot declare TCP server socket before Ethernet::start()'' n)
      else
        (let v = new_server loc ka IDLE;
             (p, n) = ask (op_new ops) n in
         case p of
           None \<Rightarrow> (v, panic ''Cannot allocate TCP server control block'' n)
         | Some p \<Rightarrow>
             (let n = calls ops [Nagle_disable p, Set_reuse p] n;
                  (e, n) = ask (op_bind ops p loc) n in
              if e \<noteq> ERR_OK then (v, panic ''Cannot bind server socket'' (calls ops [Tcp_abort p] n))
              else
                (let (l, n) = ask (op_listen ops p) n in
                 case l of
                   None \<Rightarrow> (v, panic ''Cannot switch TCP server socket into LISTEN mode'' n)
                 | Some l \<Rightarrow>
                     (let n = n\<lparr>n_listening := (n_listening n)(snd loc \<mapsto> this)\<rparr>;
                          n = calls ops [Tcp_arg l True, Tcp_accept l True] n
                      in (v\<lparr>sv_server := Some l, sv_state := LISTENING\<rparr>, enter_protocol this n))))))"

definition server_moved_from :: "server \<Rightarrow> server" where
  "server_moved_from v =
     v\<lparr>sv_server := None, sv_client := None, sv_tx := [], sv_rx := [], sv_stream := [], sv_state := IDLE\<rparr>"

definition rebind_server :: "'l tcp_ops \<Rightarrow> nat \<Rightarrow> nat \<Rightarrow> server \<Rightarrow> 'l net \<Rightarrow> 'l net" where
  "rebind_server ops this that v n =
     (let n = (case sv_server v of None \<Rightarrow> n | Some p \<Rightarrow> calls ops [Tcp_arg p True] n);
          n = (case sv_client v of None \<Rightarrow> n | Some p \<Rightarrow> calls ops [Tcp_arg p True] n);
          n = (if n_listening n (snd (sv_local v)) = Some that
               then n\<lparr>n_listening := (n_listening n)(snd (sv_local v) \<mapsto> this)\<rparr> else n)
      in enter_protocol this n)"

definition move_server ::
  "'l tcp_ops \<Rightarrow> nat \<Rightarrow> nat \<Rightarrow> server \<Rightarrow> 'l net \<Rightarrow> server \<times> server \<times> 'l net" where
  "move_server ops this that other n = (other, server_moved_from other, rebind_server ops this that other n)"

section \<open>Closing\<close>

definition server_clear_queues :: "'l tcp_ops \<Rightarrow> server \<times> 'l net \<Rightarrow> server \<times> 'l net" where
  "server_clear_queues ops st =
     (let (v, n) = st in (v\<lparr>sv_tx := [], sv_rx := []\<rparr>, calls ops (frees (sv_tx v) @ frees (sv_rx v)) n))"

definition close_listener :: "'l tcp_ops \<Rightarrow> nat \<Rightarrow> 'l net \<Rightarrow> 'l net" where
  "close_listener ops p n =
     (let n = calls ops [Tcp_arg p False, Tcp_accept p False] n;
          (e, n) = ask (op_close ops p) n
      in if e \<noteq> ERR_OK then calls ops [Tcp_abort p] n else n)"

definition forget_listening :: "nat \<Rightarrow> server \<Rightarrow> 'l net \<Rightarrow> 'l net" where
  "forget_listening this v n =
     (if n_listening n (snd (sv_local v)) = Some this
      then n\<lparr>n_listening := (n_listening n)(snd (sv_local v) := None)\<rparr> else n)"

definition close_server :: "'l tcp_ops \<Rightarrow> nat \<Rightarrow> server \<times> 'l net \<Rightarrow> server \<times> 'l net" where
  "close_server ops this st =
     (let (v, n) = st;
          n = (case sv_client v of None \<Rightarrow> n | Some p \<Rightarrow> close_pcb ops p n);
          n = (case sv_server v of None \<Rightarrow> n | Some p \<Rightarrow> close_listener ops p n);
          (v, n) = server_clear_queues ops (v\<lparr>sv_client := None, sv_server := None\<rparr>, n);
          v = v\<lparr>sv_stream := [], sv_state := CLOSED\<rparr>;
          n = forget_listening this v n
      in (v, if n_priority n > 1 then n\<lparr>n_priority := n_priority n - 1\<rparr> else n))"

definition assign_server ::
  "'l tcp_ops \<Rightarrow> nat \<Rightarrow> nat \<Rightarrow> server \<Rightarrow> server \<Rightarrow> 'l net \<Rightarrow> server \<times> server \<times> 'l net" where
  "assign_server ops this that v other n =
     (if this = that then (v, other, n)
      else let (v, n) = close_server ops this (v, n)
           in (other, server_moved_from other, rebind_server ops this that other n))"

definition destroy_server :: "'l tcp_ops \<Rightarrow> nat \<Rightarrow> server \<times> 'l net \<Rightarrow> 'l net" where
  "destroy_server ops this st =
     (let (v, n) = close_server ops this st in leave_protocol this (forget_listening this v n))"

section \<open>Sending and receiving\<close>

definition server_process_data :: "'l tcp_ops \<Rightarrow> server \<times> 'l net \<Rightarrow> (server \<times> 'l net) option" where
  "server_process_data ops st =
     (let (v, n) = st in
      map_option (\<lambda>(stream, n). (v\<lparr>sv_rx := [], sv_stream := stream\<rparr>, n))
        (process_buffers ops (sv_client v) (sv_remote_name v) (sv_rx v) (sv_stream v, n)))"

definition server_add_order ::
  "'l tcp_ops \<Rightarrow> nat \<Rightarrow> server \<times> 'l net \<Rightarrow> (bool \<times> server \<times> 'l net) option" where
  "server_add_order ops a st =
     (let (v, n) = st; k = order_size a (n_registry n) in
      if sv_state v \<noteq> ACCEPTED \<or> sv_client v = None then Some (False, v, n)
      else if length (sv_tx v) \<ge> MAX_TX_QUEUE_DEPTH then Some (False, v, n)
      else if k = 0 \<or> k > TCP_SND_BUF then Some (False, v, n)
      else
        (case build_order ops a n of
           None \<Rightarrow> None
         | Some (bytes, n) \<Rightarrow>
             (let (got, n) = ask (op_alloc ops k) n in
              if \<not> got then Some (False, v, n)
              else
                (let (e, n) = ask (op_take ops bytes) n in
                 if e \<noteq> ERR_OK then Some (False, v, calls ops [Pbuf_free bytes] n)
                 else Some (True, v\<lparr>sv_tx := sv_tx v @ [Some bytes]\<rparr>, n)))))"

definition server_try_send ::
  "'l tcp_ops \<Rightarrow> nat \<Rightarrow> server \<times> 'l net \<Rightarrow> (bool \<times> server \<times> 'l net) option" where
  "server_try_send ops a st =
     (let (v, n) = st in
      case sv_client v of
        None \<Rightarrow> Some (False, v, n)
      | Some p \<Rightarrow>
          (let k = order_size a (n_registry n) in
           if sv_state v \<noteq> ACCEPTED \<or> sv_tx v \<noteq> [] then Some (False, v, n)
           else if k = 0 \<or> k > TCP_SND_BUF \<or> k > op_sndbuf ops p (n_lwip n) then Some (False, v, n)
           else
             (case build_order ops a n of
                None \<Rightarrow> None
              | Some (bytes, n) \<Rightarrow>
                  (let (e, n) = ask (op_write ops p bytes) n in
                   if e = ERR_OK
                   then Some (True, v\<lparr>sv_written := sv_written v @ bytes\<rparr>, calls ops [Tcp_output p] n)
                   else if e = ERR_MEM then Some (False, v, n)
                   else Some (False, v\<lparr>sv_state := ENDING\<rparr>, n)))))"

definition server_send :: "'l tcp_ops \<Rightarrow> server \<times> 'l net \<Rightarrow> server \<times> 'l net" where
  "server_send ops st =
     (let (v, n) = st in
      case sv_client v of
        None \<Rightarrow> (v, n)
      | Some p \<Rightarrow>
          (if sv_state v \<noteq> ACCEPTED then (v, n)
           else
             (let (q, w, bad, l) = flush_queue ops p (sv_tx v) (n_lwip n);
                  v = v\<lparr>sv_tx := q, sv_written := sv_written v @ w\<rparr>;
                  v = (if bad then v\<lparr>sv_state := ENDING\<rparr> else v)
              in (v, calls ops [Tcp_output p] (n\<lparr>n_lwip := l\<rparr>)))))"

definition server_send_order ::
  "'l tcp_ops \<Rightarrow> nat \<Rightarrow> server \<times> 'l net \<Rightarrow> (bool \<times> server \<times> 'l net) option" where
  "server_send_order ops a st =
     (if sv_state (fst st) \<noteq> ACCEPTED \<or> sv_client (fst st) = None then Some (False, st)
      else
        (case server_try_send ops a st of
           None \<Rightarrow> None
         | Some (True, st) \<Rightarrow> Some (True, st)
         | Some (False, st) \<Rightarrow>
             (case server_add_order ops a st of
                None \<Rightarrow> None
              | Some (True, st) \<Rightarrow> Some (True, server_send ops st)
              | Some (False, st) \<Rightarrow>
                  (case server_add_order ops a (server_send ops st) of
                     None \<Rightarrow> None
                   | Some (False, st) \<Rightarrow> Some (False, st)
                   | Some (True, st) \<Rightarrow> Some (True, server_send ops st)))))"

definition server_is_connected :: "server \<Rightarrow> bool" where
  "server_is_connected v \<longleftrightarrow> sv_state v = ACCEPTED"

definition server_is_listening :: "server \<Rightarrow> bool" where
  "server_is_listening v \<longleftrightarrow> sv_state v = LISTENING"

section \<open>The callbacks of the server\<close>

definition server_keepalive :: "'l tcp_ops \<Rightarrow> nat \<Rightarrow> server \<Rightarrow> 'l net \<Rightarrow> 'l net" where
  "server_keepalive ops p v = calls ops [Keepalive p (sv_keepalive v)]"

text \<open>What \<open>accept_callback\<close> does to the server that accepts.\<close>

definition accept_connection :: "'l tcp_ops \<Rightarrow> nat \<Rightarrow> server \<times> 'l net \<Rightarrow> server \<times> 'l net" where
  "accept_connection ops p st =
     (let (v, n) = st;
          v = v\<lparr>sv_state := ACCEPTED, sv_client := Some p, sv_remote_name := op_remote ops p (n_lwip n),
                sv_rx := [], sv_stream := [], sv_written := []\<rparr>;
          n = calls ops [Set_prio p (n_priority n), Nagle_disable p, Set_reuse p, Tcp_arg p True,
                         Tcp_recv p True, Tcp_sent p True, Tcp_err p True, Tcp_poll p True] n;
          n = server_keepalive ops p v n;
          n = (case sv_server v of None \<Rightarrow> n | Some l \<Rightarrow> close_listener ops l n);
          n = (if n_priority n < 255 then n\<lparr>n_priority := n_priority n + 1\<rparr> else n)
      in (v\<lparr>sv_server := None\<rparr>, n))"

text \<open>The callback finds its server by the argument, or by the port it listens on.\<close>

definition accept_callback ::
  "'l tcp_ops \<Rightarrow> nat option \<Rightarrow> nat option \<Rightarrow> err \<Rightarrow> (nat \<Rightarrow> server) \<times> 'l net \<Rightarrow> err \<times> (nat \<Rightarrow> server) \<times> 'l net" where
  "accept_callback ops arg pcb e st =
     (let (vs, n) = st in
      case pcb of
        None \<Rightarrow> (e, vs, n)
      | Some p \<Rightarrow>
          (if e \<noteq> ERR_OK then (e, vs, calls ops [Tcp_abort p] n)
           else
             (case (case arg of None \<Rightarrow> n_listening n (op_local_port ops p (n_lwip n)) | Some a \<Rightarrow> Some a) of
                None \<Rightarrow> (ERR_ABRT, vs, calls ops [Tcp_abort p] n)
              | Some this \<Rightarrow>
                  (let (v, n) = accept_connection ops p (vs this, n) in (ERR_OK, vs(this := v), n)))))"

definition server_receive_callback ::
  "'l tcp_ops \<Rightarrow> server option \<Rightarrow> nat \<Rightarrow> u8 list option \<Rightarrow> err \<Rightarrow> 'l net \<Rightarrow> (err \<times> server option \<times> 'l net) option" where
  "server_receive_callback ops arg p buf e n =
     (case arg of
        None \<Rightarrow> Some (ERR_VAL, None, calls ops (frees [buf]) n)
      | Some v \<Rightarrow>
          (let v = v\<lparr>sv_client := Some p\<rparr> in
           if buf = None then Some (ERR_OK, Some (v\<lparr>sv_state := ENDING\<rparr>), n)
           else if e \<noteq> ERR_OK then Some (ERR_OK, Some v, calls ops (frees [buf]) n)
           else if sv_state v = ACCEPTED then
             map_option (\<lambda>(v, n). (ERR_OK, Some v, n))
               (server_process_data ops (v\<lparr>sv_rx := sv_rx v @ [buf]\<rparr>, n))
           else Some (ERR_OK, Some v, calls ops (frees [buf]) n)))"

definition server_error_callback :: "'l tcp_ops \<Rightarrow> server option \<Rightarrow> 'l net \<Rightarrow> server option \<times> 'l net" where
  "server_error_callback ops arg n =
     (case arg of
        None \<Rightarrow> (None, n)
      | Some v \<Rightarrow>
          (let (v, n) = server_clear_queues ops (v\<lparr>sv_client := None, sv_state := CLOSED\<rparr>, n)
           in (Some (v\<lparr>sv_stream := []\<rparr>), n)))"

definition server_poll_callback ::
  "'l tcp_ops \<Rightarrow> nat \<Rightarrow> server option \<Rightarrow> nat \<Rightarrow> 'l net \<Rightarrow> (err \<times> server option \<times> 'l net) option" where
  "server_poll_callback ops this arg p n =
     (case arg of
        None \<Rightarrow> Some (ERR_ABRT, None, calls ops [Tcp_abort p] n)
      | Some v \<Rightarrow>
          (let st = (v\<lparr>sv_client := Some p\<rparr>, n);
               st = (if sv_tx (fst st) \<noteq> [] then server_send ops st else st) in
           map_option
             (\<lambda>st. (let (v, n) = (if sv_state (fst st) = ENDING then close_server ops this st else st) in (ERR_OK, Some v, n)))
             (if sv_rx (fst st) \<noteq> [] then server_process_data ops st else Some st)))"

definition server_send_callback ::
  "'l tcp_ops \<Rightarrow> nat \<Rightarrow> server option \<Rightarrow> nat \<Rightarrow> 'l net \<Rightarrow> err \<times> server option \<times> 'l net" where
  "server_send_callback ops this arg p n =
     (case arg of
        None \<Rightarrow> (ERR_ABRT, None, calls ops [Tcp_abort p] n)
      | Some v \<Rightarrow>
          (let v = v\<lparr>sv_client := Some p\<rparr>;
               (v, n) = (if sv_tx v \<noteq> [] then server_send ops (v, n)
                         else if sv_state v = ENDING then close_server ops this (v, n) else (v, n))
           in (ERR_OK, Some v, n)))"

section \<open>A server that accepted is a connected socket\<close>

fun client_state :: "ServerState \<Rightarrow> SocketState" where
  "client_state ACCEPTED = CONNECTED"
| "client_state ENDING = CLOSING"
| "client_state _ = INACTIVE"

definition as_client :: "server \<Rightarrow> socket" where
  "as_client v =
     \<lparr>sk_connection = None, sk_pcb = sv_client v, sk_tx = sv_tx v, sk_rx = sv_rx v, sk_stream = sv_stream v,
      sk_local = sv_local v, sk_remote = sv_local v, sk_remote_name = sv_remote_name v,
      sk_state = client_state (sv_state v), sk_pending_reset = False, sk_poll_ticks = 0,
      sk_use_keepalives = True, sk_keepalive = sv_keepalive v, sk_written = sv_written v\<rparr>"

lemma as_client_simps [simp]:
  "sk_pcb (as_client v) = sv_client v" "sk_tx (as_client v) = sv_tx v" "sk_rx (as_client v) = sv_rx v"
  "sk_stream (as_client v) = sv_stream v" "sk_written (as_client v) = sv_written v"
  "sk_remote_name (as_client v) = sv_remote_name v" "sk_state (as_client v) = client_state (sv_state v)"
  by (simp_all add: as_client_def)

lemma as_client_update:
  "as_client (v\<lparr>sv_tx := q\<rparr>) = as_client v\<lparr>sk_tx := q\<rparr>"
  "as_client (v\<lparr>sv_written := w\<rparr>) = as_client v\<lparr>sk_written := w\<rparr>"
  "as_client (v\<lparr>sv_state := z\<rparr>) = as_client v\<lparr>sk_state := client_state z\<rparr>"
  "as_client (v\<lparr>sv_client := p\<rparr>) = as_client v\<lparr>sk_pcb := p\<rparr>"
  "as_client (v\<lparr>sv_rx := r\<rparr>) = as_client v\<lparr>sk_rx := r\<rparr>"
  "as_client (v\<lparr>sv_stream := b\<rparr>) = as_client v\<lparr>sk_stream := b\<rparr>"
  by (simp_all add: as_client_def)

lemma client_state_CONNECTED [simp]: "client_state z = CONNECTED \<longleftrightarrow> z = ACCEPTED"
  by (cases z) simp_all

abbreviation view :: "bool \<times> server \<times> 'l net \<Rightarrow> bool \<times> socket \<times> 'l net" where
  "view r \<equiv> (case r of (sent, v, n) \<Rightarrow> (sent, as_client v, n))"

abbreviation view_state :: "server \<times> 'l net \<Rightarrow> socket \<times> 'l net" where
  "view_state r \<equiv> (case r of (v, n) \<Rightarrow> (as_client v, n))"

lemma server_send_view: "view_state (server_send ops (v, n)) = send ops (as_client v, n)"
proof (cases "sv_client v")
  case (Some p)
  obtain q w bad l where "flush_queue ops p (sv_tx v) (n_lwip n) = (q, w, bad, l)" by (metis prod_cases4)
  then show ?thesis using Some by (simp add: server_send_def send_def as_client_update Let_def)
qed (simp add: server_send_def send_def)

lemma server_try_send_view:
  "map_option view (server_try_send ops a (v, n)) = try_send_immediately ops a (as_client v, n)"
proof (cases "sv_client v")
  case (Some p)
  show ?thesis
  proof (cases "build_order ops a n")
    case built: (Some r)
    obtain bytes n1 where r: "r = (bytes, n1)" by (rule prod.exhaust)
    obtain e n2 where "ask (op_write ops p bytes) n1 = (e, n2)" by (rule prod.exhaust)
    then show ?thesis
      using Some built r by (auto simp: server_try_send_def try_send_immediately_def as_client_update Let_def)
  qed (use Some in \<open>auto simp: server_try_send_def try_send_immediately_def Let_def\<close>)
qed (simp add: server_try_send_def try_send_immediately_def)

lemma server_add_order_view:
  "map_option view (server_add_order ops a (v, n)) = add_order_to_queue ops a (as_client v, n)"
proof (cases "build_order ops a n")
  case (Some r)
  obtain bytes n1 where r: "r = (bytes, n1)" by (rule prod.exhaust)
  obtain got n2 where al: "ask (op_alloc ops (order_size a (n_registry n))) n1 = (got, n2)" by (rule prod.exhaust)
  obtain e n3 where "ask (op_take ops bytes) n2 = (e, n3)" by (rule prod.exhaust)
  then show ?thesis
    using Some r al by (auto simp: server_add_order_def add_order_to_queue_def as_client_update Let_def)
qed (auto simp: server_add_order_def add_order_to_queue_def Let_def)

lemma server_process_view:
  "map_option view_state (server_process_data ops (v, n)) = process_received ops (as_client v, n)"
  by (cases "process_buffers ops (sv_client v) (sv_remote_name v) (sv_rx v) (sv_stream v, n)")
    (auto simp: server_process_data_def process_received_def as_client_update)

lemma view_Some: "map_option view x = Some (r, s, n) \<Longrightarrow> \<exists>v. x = Some (r, v, n) \<and> s = as_client v"
  by (cases x) auto

lemma server_send_order_view:
  assumes up: "sv_state v = ACCEPTED" "sv_client v = Some p"
  shows "map_option view (server_send_order ops a (v, n)) = send_order ops this a (as_client v, n)"
proof (cases "server_try_send ops a (v, n)")
  case None
  then show ?thesis
    using up server_try_send_view [of ops a v n] by (simp add: server_send_order_def send_order_def)
next
  case (Some r)
  obtain r1 v1 n1 where r: "r = (r1, v1, n1)" by (rule prod_cases3)
  have t: "try_send_immediately ops a (as_client v, n) = Some (r1, as_client v1, n1)"
    using server_try_send_view [of ops a v n] Some r by simp
  show ?thesis
  proof (cases r1)
    case True
    then show ?thesis using up Some r t by (simp add: server_send_order_def send_order_def)
  next
    case not_sent: False
    show ?thesis
    proof (cases "server_add_order ops a (v1, n1)")
      case None
      then show ?thesis
        using up Some r t not_sent server_add_order_view [of ops a v1 n1]
        by (simp add: server_send_order_def send_order_def)
    next
      case queued: (Some r')
      obtain r2 v2 n2 where r': "r' = (r2, v2, n2)" by (rule prod_cases3)
      obtain v3 n3 where s: "server_send ops (v2, n2) = (v3, n3)" by (rule prod.exhaust)
      have q: "add_order_to_queue ops a (as_client v1, n1) = Some (r2, as_client v2, n2)"
        using server_add_order_view [of ops a v1 n1] queued r' by simp
      have s': "send ops (as_client v2, n2) = (as_client v3, n3)"
        using server_send_view [of ops v2 n2] s by simp
      note known = up Some r t not_sent queued r' q s s'
      show ?thesis
      proof (cases r2)
        case True
        then show ?thesis using known by (simp add: server_send_order_def send_order_def)
      next
        case full: False
        show ?thesis
        proof (cases "server_add_order ops a (v3, n3)")
          case None
          then show ?thesis
            using known full server_add_order_view [of ops a v3 n3]
            by (simp add: server_send_order_def send_order_def)
        next
          case again: (Some r'')
          obtain r4 v4 n4 where r'': "r'' = (r4, v4, n4)" by (rule prod_cases3)
          have "add_order_to_queue ops a (as_client v3, n3) = Some (r4, as_client v4, n4)"
            using server_add_order_view [of ops a v3 n3] again r'' by simp
          then show ?thesis
            using known full again r'' server_send_view [of ops v4 n4]
            by (cases r4; cases "server_send ops (v4, n4)") (auto simp: server_send_order_def send_order_def)
        qed
      qed
    qed
  qed
qed

text \<open>A server that accepted a connection sends exactly as a connected client does: seen as a
  client socket, with the same queue, stream and control block, every send of an order gives the
  same result and the same socket. A server without a connection sends nothing and does not
  change.\<close>

theorem server_sends_as_client:
  "map_option (\<lambda>(sent, v, n). (sent, as_client v, n)) (server_send_order ops a (v, n)) =
     (if sv_state v = ACCEPTED \<and> sv_client v \<noteq> None then send_order ops this a (as_client v, n)
      else Some (False, as_client v, n))"
proof (cases "sv_state v = ACCEPTED \<and> sv_client v \<noteq> None")
  case True
  then show ?thesis using server_send_order_view [of v _ ops a n this] by auto
qed (auto simp: server_send_order_def)

interpretation tcp_server: order_protocol "server_send_order ops"
    "\<lambda>v. sv_state v = ACCEPTED \<and> sv_client v \<noteq> None" "\<lambda>v. outgoing (as_client v)" n_registry
  for ops
proof unfold_locales
  fix v :: server and a and n :: "'a net"
  assume up: "sv_state v = ACCEPTED \<and> sv_client v \<noteq> None" and ok: "order_ok a (n_registry n)"
  then have "sk_state (as_client v) = CONNECTED \<and> sk_pcb (as_client v) \<noteq> None" by simp
  from tcp_client.sends [OF this ok, of ops 0] obtain sent s' n' where
    r: "send_order ops 0 a (as_client v, n) = Some (sent, s', n')"
      "outgoing s' = outgoing (as_client v) @ (if sent then order_frame a (n_registry n) else [])"
      "\<forall>b. order_ok b (n_registry n) \<longrightarrow> order_ok b (n_registry n') \<and>
         order_frame b (n_registry n') = order_frame b (n_registry n)"
    by auto
  have "map_option view (server_send_order ops a (v, n)) = Some (sent, s', n')"
    using server_send_order_view [of v _ ops a n 0] up r(1) by auto
  from view_Some [OF this] show "\<exists>sent v' n'. server_send_order ops a (v, n) = Some (sent, v', n') \<and>
      outgoing (as_client v') = outgoing (as_client v) @ (if sent then order_frame a (n_registry n) else []) \<and>
      (\<forall>b. order_ok b (n_registry n) \<longrightarrow> order_ok b (n_registry n') \<and>
         order_frame b (n_registry n') = order_frame b (n_registry n))"
    using r(2,3) by auto
qed (auto simp: server_send_order_def)

lemma server_sends_in_order:
  assumes "send_each (server_send_order ops) as (v, n) = Some (v', n')"
    and "list_all (\<lambda>a. order_ok a (n_registry n)) as"
  shows "outgoing (as_client v') = outgoing (as_client v) @ concat (map (\<lambda>a. order_frame a (n_registry n)) as)"
  by (rule tcp_server.each_sent_in_order [OF assms])

section \<open>The invariant of a server\<close>

definition server_ok :: "server \<Rightarrow> bool" where
  "server_ok v \<longleftrightarrow> (sv_state v = ACCEPTED \<longrightarrow> sv_client v \<noteq> None \<and> sv_server v = None) \<and>
     (sv_state v = LISTENING \<longrightarrow> sv_server v \<noteq> None) \<and>
     length (sv_tx v) \<le> MAX_TX_QUEUE_DEPTH \<and> length (sv_stream v) \<le> MAX_RX_STREAM_BUFFER_BYTES"

datatype server_event =
    Server_send_order nat | Server_close | Server_send | Accept nat | Server_receive nat "u8 list option" err
  | Server_poll nat | Server_sent nat | Server_error err

fun server_do :: "'l tcp_ops \<Rightarrow> nat \<Rightarrow> server_event \<Rightarrow> server \<times> 'l net \<Rightarrow> (server \<times> 'l net) option" where
  "server_do ops this (Server_send_order a) st = map_option snd (server_send_order ops a st)"
| "server_do ops this Server_close st = Some (close_server ops this st)"
| "server_do ops this Server_send st = Some (server_send ops st)"
| "server_do ops this (Accept p) (v, n) =
     (let (r, vs, n) = accept_callback ops (Some this) (Some p) ERR_OK ((\<lambda>_. v), n) in Some (vs this, n))"
| "server_do ops this (Server_receive p buf e) (v, n) =
     Option.bind (server_receive_callback ops (Some v) p buf e n) (\<lambda>(r, v', n). map_option (\<lambda>v. (v, n)) v')"
| "server_do ops this (Server_poll p) (v, n) =
     Option.bind (server_poll_callback ops this (Some v) p n) (\<lambda>(r, v', n). map_option (\<lambda>v. (v, n)) v')"
| "server_do ops this (Server_sent p) (v, n) =
     (let (r, v', n) = server_send_callback ops this (Some v) p n in map_option (\<lambda>v. (v, n)) v')"
| "server_do ops this (Server_error e) (v, n) =
     (let (v', n) = server_error_callback ops (Some v) n in map_option (\<lambda>v. (v, n)) v')"

fun server_run :: "'l tcp_ops \<Rightarrow> nat \<Rightarrow> server_event list \<Rightarrow> server \<times> 'l net \<Rightarrow> (server \<times> 'l net) option" where
  "server_run ops this [] st = Some st"
| "server_run ops this (e # es) st = Option.bind (server_do ops this e st) (server_run ops this es)"

lemma close_server_ok: "server_ok (fst (close_server ops this st))"
  by (simp add: close_server_def server_clear_queues_def Let_def split_beta server_ok_def)

lemma accept_ok: "server_ok v \<Longrightarrow> server_ok (fst (accept_connection ops p (v, n)))"
  by (simp add: accept_connection_def Let_def server_ok_def)

text \<open>Sending only shortens the queue and may end the connection.\<close>

definition sends_only :: "server \<Rightarrow> server \<Rightarrow> bool" where
  "sends_only v v' \<longleftrightarrow> sv_client v' = sv_client v \<and> sv_server v' = sv_server v \<and> sv_stream v' = sv_stream v \<and>
     (sv_state v' = sv_state v \<or> sv_state v' = ENDING) \<and>
     length (sv_tx v') \<le> max (length (sv_tx v)) MAX_TX_QUEUE_DEPTH"

lemma sends_only_ok: "sends_only v v' \<Longrightarrow> server_ok v \<Longrightarrow> server_ok v'"
  by (auto simp: sends_only_def server_ok_def)

lemma sends_only_trans: "sends_only v v1 \<Longrightarrow> sends_only v1 v2 \<Longrightarrow> sends_only v v2"
  by (auto simp: sends_only_def)

lemma server_send_only: "sends_only v (fst (server_send ops (v, n)))"
proof (cases "sv_client v")
  case (Some p)
  obtain q w bad l where f: "flush_queue ops p (sv_tx v) (n_lwip n) = (q, w, bad, l)" by (metis prod_cases4)
  then have "length q \<le> length (sv_tx v)" using flush_queue_spec [OF f] by simp
  then show ?thesis using Some f by (auto simp: server_send_def sends_only_def Let_def)
qed (simp add: server_send_def sends_only_def)

lemma server_try_only:
  "server_try_send ops a (v, n) = Some (r, v', n') \<Longrightarrow> sends_only v v'"
  by (auto simp: server_try_send_def Let_def split_beta sends_only_def split: option.splits if_splits)

lemma server_add_only:
  "server_add_order ops a (v, n) = Some (r, v', n') \<Longrightarrow> sends_only v v'"
  by (auto simp: server_add_order_def Let_def split_beta sends_only_def split: option.splits if_splits)

lemma server_send_order_only:
  assumes "server_send_order ops a (v, n) = Some (r, v', n')"
  shows "sends_only v v'"
proof (cases "sv_state v \<noteq> ACCEPTED \<or> sv_client v = None")
  case True
  then show ?thesis using assms by (auto simp: server_send_order_def sends_only_def)
next
  case False
  then obtain p where up: "sv_state v = ACCEPTED" "sv_client v = Some p" by auto
  then obtain r1 v1 n1 where t: "server_try_send ops a (v, n) = Some (r1, v1, n1)"
    using assms by (auto simp: server_send_order_def split: option.splits)
  note o1 = server_try_only [OF t]
  show ?thesis
  proof (cases r1)
    case True
    then show ?thesis using assms up t o1 by (simp add: server_send_order_def)
  next
    case not_sent: False
    then obtain r2 v2 n2 where q: "server_add_order ops a (v1, n1) = Some (r2, v2, n2)"
      using assms up t by (auto simp: server_send_order_def split: option.splits)
    note o2 = sends_only_trans [OF o1 server_add_only [OF q]]
    obtain v3 n3 where s: "server_send ops (v2, n2) = (v3, n3)" by (rule prod.exhaust)
    have o3: "sends_only v v3" using sends_only_trans [OF o2 server_send_only [of v2 ops n2]] s by simp
    show ?thesis
    proof (cases r2)
      case True
      then show ?thesis using assms up not_sent t q s o3 by (simp add: server_send_order_def)
    next
      case full: False
      then obtain r4 v4 n4 where q4: "server_add_order ops a (v3, n3) = Some (r4, v4, n4)"
        using assms up not_sent t q s by (auto simp: server_send_order_def split: option.splits)
      note o4 = sends_only_trans [OF o3 server_add_only [OF q4]]
      have "sends_only v (fst (server_send ops (v4, n4)))"
        by (rule sends_only_trans [OF o4 server_send_only])
      then show ?thesis
        using assms up not_sent full t q s q4 o4
        by (cases r4; cases "server_send ops (v4, n4)") (auto simp: server_send_order_def)
    qed
  qed
qed

lemma server_process_ok:
  assumes "server_process_data ops (v, n) = Some st'" "server_ok v"
  shows "server_ok (fst st')"
  using assms process_buffers_bound [of ops "sv_client v" "sv_remote_name v" "sv_rx v" "(sv_stream v, n)"]
  by (auto simp: server_process_data_def server_ok_def)

lemma server_receive_ok:
  assumes "server_receive_callback ops (Some v) p buf e n = Some (r, Some v', n')" "server_ok v"
  shows "server_ok v'"
proof -
  have t: "server_ok (v\<lparr>sv_client := Some p\<rparr>)" using assms(2) by (simp add: server_ok_def)
  then have "server_ok (v\<lparr>sv_client := Some p, sv_rx := q\<rparr>)" for q by (simp add: server_ok_def)
  moreover have "server_ok (v\<lparr>sv_client := Some p, sv_state := ENDING\<rparr>)" using t by (simp add: server_ok_def)
  ultimately show ?thesis
    using assms(1) t server_process_ok
    by (cases "buf = None"; cases "e = ERR_OK"; cases "sv_state v = ACCEPTED")
      (fastforce simp: server_receive_callback_def)+
qed

lemma server_poll_ok:
  assumes "server_poll_callback ops this (Some v) p n = Some (r, Some v', n')" "server_ok v"
  shows "server_ok v'"
proof -
  define t where "t = v\<lparr>sv_client := Some p\<rparr>"
  have t: "server_ok t" using assms(2) by (simp add: t_def server_ok_def)
  define st where "st = (if sv_tx t \<noteq> [] then server_send ops (t, n) else (t, n))"
  have st: "server_ok (fst st)" using t sends_only_ok [OF server_send_only [of t ops n] t] by (simp add: st_def)
  obtain st2 where r: "(if sv_rx (fst st) \<noteq> [] then server_process_data ops st else Some st) = Some st2"
    "(v', n') = (if sv_state (fst st2) = ENDING then close_server ops this st2 else st2)"
    using assms(1) unfolding server_poll_callback_def Let_def t_def [symmetric] option.case fst_conv st_def [symmetric]
    by (auto simp: split_beta prod_eq_iff)
  have "server_ok (fst st2)"
    using r(1) st server_process_ok [of ops "fst st" "snd st" st2] by (auto split: if_splits)
  then show ?thesis using r(2) close_server_ok [of ops this st2] by (metis fst_conv)
qed

lemma server_sent_ok:
  assumes "server_send_callback ops this (Some v) p n = (r, Some v', n')" "server_ok v"
  shows "server_ok v'"
proof -
  define t where "t = v\<lparr>sv_client := Some p\<rparr>"
  have t: "server_ok t" using assms(2) by (simp add: t_def server_ok_def)
  have "(v', n') = (if sv_tx t \<noteq> [] then server_send ops (t, n)
    else if sv_state t = ENDING then close_server ops this (t, n) else (t, n))"
    using assms(1) unfolding server_send_callback_def Let_def t_def [symmetric] option.case
    by (auto simp: split_beta prod_eq_iff)
  then have v': "v' = fst (if sv_tx t \<noteq> [] then server_send ops (t, n)
    else if sv_state t = ENDING then close_server ops this (t, n) else (t, n))" by (rule fst_of)
  have "server_ok (fst (server_send ops (t, n)))" by (rule sends_only_ok [OF server_send_only t])
  then show ?thesis
    unfolding v' using t close_server_ok [of ops this "(t, n)"] by simp
qed

lemma server_error_ok:
  "server_error_callback ops (Some v) n = (Some v', n') \<Longrightarrow> server_ok v'"
  by (auto simp: server_error_callback_def server_clear_queues_def Let_def server_ok_def)

lemma server_do_ok:
  assumes "server_do ops this e (v, n) = Some (v', n')" "server_ok v"
  shows "server_ok v'"
proof (cases e)
  case (Server_send_order a)
  then show ?thesis using assms sends_only_ok server_send_order_only by (fastforce simp: prod_eq_iff)
next
  case Server_close
  then show ?thesis using assms close_server_ok [of ops this "(v, n)"] by simp
next
  case Server_send
  then show ?thesis using assms sends_only_ok [OF server_send_only [of v ops n]] by simp
next
  case (Accept p)
  then show ?thesis using assms accept_ok [OF assms(2), of ops p n] by (auto simp: accept_callback_def Let_def split_beta)
next
  case (Server_receive p buf e)
  then show ?thesis using assms server_receive_ok by (fastforce simp: split_beta prod_eq_iff bind_eq_Some_conv)
next
  case (Server_poll p)
  then show ?thesis using assms server_poll_ok by (fastforce simp: split_beta prod_eq_iff bind_eq_Some_conv)
next
  case (Server_sent p)
  then show ?thesis using assms server_sent_ok by (fastforce simp: Let_def split_beta prod_eq_iff)
next
  case (Server_error e)
  then show ?thesis using assms server_error_ok by (fastforce simp: Let_def split_beta prod_eq_iff)
qed

lemma make_server_ok:
  assumes "n_running n"
  shows "server_ok (fst (make_server ops this loc ka garbage n))"
proof -
  obtain p m where new: "ask (op_new ops) n = (p, m)" by (rule prod.exhaust)
  show ?thesis
  proof (cases p)
    case None
    then show ?thesis using assms new by (simp add: make_server_def new_server_def server_ok_def)
  next
    case (Some q)
    obtain e m1 where b: "ask (op_bind ops q loc) (calls ops [Nagle_disable q, Set_reuse q] m) = (e, m1)"
      by (rule prod.exhaust)
    obtain l m2 where "ask (op_listen ops q) m1 = (l, m2)" by (rule prod.exhaust)
    then show ?thesis
      using assms new Some b by (cases l) (simp_all add: make_server_def new_server_def server_ok_def Let_def)
  qed
qed

text \<open>C22. A server socket stays in order: from its constructor, when Ethernet is running, after any
  sequence of connections, calls and callbacks, a server that accepted has a connection and has
  given up its listener, a server that listens has one, the transmit queue never holds more than
  64 packets and the kept stream stays within the bound of the receive buffer.\<close>

theorem server_invariant:
  assumes "n_running n"
    and "server_run ops this es (make_server ops this loc ka garbage n) = Some (v', n')"
  shows "(sv_state v' = ACCEPTED \<longrightarrow> sv_client v' \<noteq> None \<and> sv_server v' = None) \<and>
    (sv_state v' = LISTENING \<longrightarrow> sv_server v' \<noteq> None) \<and> length (sv_tx v') \<le> MAX_TX_QUEUE_DEPTH \<and>
    length (sv_stream v') \<le> MAX_RX_STREAM_BUFFER_BYTES"
proof -
  have "server_run ops this es st = Some (v', n') \<Longrightarrow> server_ok (fst st) \<Longrightarrow> server_ok v'" for st
  proof (induction es arbitrary: st)
    case (Cons e es)
    obtain v n where st: "st = (v, n)" by (rule prod.exhaust)
    with Cons.prems obtain v1 n1 where "server_do ops this e (v, n) = Some (v1, n1)"
      "server_run ops this es (v1, n1) = Some (v', n')"
      by (auto simp: bind_eq_Some_conv)
    then show ?case using Cons.IH [of "(v1, n1)"] Cons.prems(2) st server_do_ok by fastforce
  qed simp
  from this [OF assms(2) make_server_ok [OF assms(1)]] show ?thesis by (simp add: server_ok_def)
qed

lemma server_invariant_witness:
  "\<exists>v n. server_run demo_tcp 7 [Accept 1, Server_poll 1, Server_receive 1 None ERR_OK]
       (make_server demo_tcp 7 (1, 5) (0, 0, 0) CLOSED demo_net) = Some (v, n) \<and> length (sv_tx v) \<le> 64"
proof -
  have run: "n_running demo_net" by (simp add: demo_net_def)
  obtain v n where "server_run demo_tcp 7 [Accept 1, Server_poll 1, Server_receive 1 None ERR_OK]
       (make_server demo_tcp 7 (1, 5) (0, 0, 0) CLOSED demo_net) = Some (v, n)"
    by (simp add: make_server_def new_server_def ask_def demo_net_def demo_tcp_def Let_def calls_def on_lwip_def
        enter_protocol_def accept_callback_def accept_connection_def server_keepalive_def close_listener_def
        server_poll_callback_def server_receive_callback_def)
  then show ?thesis using server_invariant [OF run] by (fastforce simp: MAX_TX_QUEUE_DEPTH_def)
qed

end
