(* ===== verification/Udp.thy ===== *)
theory Udp
  imports Streams
begin

unbundle bit_operations_syntax

text \<open>
  The UDP socket (\<open>DatagramSocket.cpp\<close>, \<open>DatagramSocket.hpp\<close> under
  \<open>HALAL/Services/Communication/Ethernet/LWIP/UDP\<close>): a packet is sent as one datagram, and a
  datagram received is parsed by the packet its identifier names. As in \<open>Tcp\<close>, lwIP is a state
  \<open>'l\<close> and its operations, a control block a number and a datagram its bytes. \<open>Some False\<close> in a chain
  that could not be copied is the code's branch for a short copy. \<open>None\<close> is undefined behaviour.
\<close>

section \<open>The socket\<close>

record 'l udp_ops =
  up_new :: "'l \<Rightarrow> nat option \<times> 'l"
  up_bind :: "nat \<Rightarrow> u32 \<times> u32 \<Rightarrow> 'l \<Rightarrow> bool \<times> 'l"
  up_recv :: "nat \<Rightarrow> 'l \<Rightarrow> 'l"
  up_connect :: "nat \<Rightarrow> u32 \<times> u32 \<Rightarrow> 'l \<Rightarrow> 'l"
  up_disconnect :: "nat \<Rightarrow> 'l \<Rightarrow> 'l"
  up_remove :: "nat \<Rightarrow> 'l \<Rightarrow> 'l"
  up_update :: "'l \<Rightarrow> 'l"
  up_alloc :: "nat \<Rightarrow> 'l \<Rightarrow> bool \<times> 'l"
  up_take :: "u8 list \<Rightarrow> 'l \<Rightarrow> bool \<times> 'l"
  up_send :: "nat \<Rightarrow> u8 list \<Rightarrow> 'l \<Rightarrow> bool \<times> 'l"
  up_free :: "u8 list \<Rightarrow> 'l \<Rightarrow> 'l"
  up_copy :: "u8 list \<Rightarrow> 'l \<Rightarrow> u8 list"
  up_fresh :: "nat \<Rightarrow> nat \<Rightarrow> u8"

record datagram_socket =
  ds_pcb :: "nat option"
  ds_local :: "u32 \<times> u32"
  ds_remote :: "u32 \<times> u32"
  ds_disconnected :: bool

definition default_datagram :: "u32 \<times> u32 \<Rightarrow> u32 \<times> u32 \<Rightarrow> datagram_socket" where
  "default_datagram loc rem = \<lparr>ds_pcb = None, ds_local = loc, ds_remote = rem, ds_disconnected = True\<rparr>"

text \<open>What the constructor and \<open>reconnect\<close> share: bind the new control block and connect it.\<close>

definition bind_datagram ::
  "'l udp_ops \<Rightarrow> nat \<Rightarrow> datagram_socket \<times> 'l \<times> string list \<Rightarrow> datagram_socket \<times> 'l \<times> string list" where
  "bind_datagram ops p st =
     (let (d, l, panics) = st; (ok, l) = up_bind ops p (ds_local d) l in
      if ok
      then (d\<lparr>ds_pcb := Some p, ds_disconnected := False\<rparr>,
            up_update ops (up_connect ops p (ds_remote d) (up_recv ops p l)), panics)
      else (d\<lparr>ds_pcb := None, ds_disconnected := True\<rparr>, up_remove ops p l, panics @ [''Error binding UDP socket'']))"

definition make_datagram ::
  "'l udp_ops \<Rightarrow> bool \<Rightarrow> u32 \<times> u32 \<Rightarrow> u32 \<times> u32 \<Rightarrow> 'l \<times> string list \<Rightarrow> datagram_socket \<times> 'l \<times> string list" where
  "make_datagram ops running loc rem st =
     (let (l, panics) = st; d = default_datagram loc rem in
      if \<not> running then (d, l, panics @ [''Cannot declare UDP socket before Ethernet::start()''])
      else
        (let (p, l) = up_new ops l in
         case p of
           None \<Rightarrow> (d, l, panics @ [''Cannot allocate UDP control block''])
         | Some p \<Rightarrow> bind_datagram ops p (d, l, panics)))"

definition release_datagram :: "'l udp_ops \<Rightarrow> datagram_socket \<times> 'l \<Rightarrow> datagram_socket \<times> 'l" where
  "release_datagram ops st =
     (let (d, l) = st in
      case ds_pcb d of
        None \<Rightarrow> (d, l)
      | Some p \<Rightarrow> (d\<lparr>ds_pcb := None\<rparr>, up_remove ops p (up_disconnect ops p l)))"

definition close_datagram :: "'l udp_ops \<Rightarrow> datagram_socket \<times> 'l \<Rightarrow> datagram_socket \<times> 'l" where
  "close_datagram ops st =
     (let (d, l) = release_datagram ops st in (d\<lparr>ds_disconnected := True\<rparr>, l))"

definition destroy_datagram :: "'l udp_ops \<Rightarrow> datagram_socket \<times> 'l \<Rightarrow> 'l" where
  "destroy_datagram ops st = snd (if \<not> ds_disconnected (fst st) then close_datagram ops st else st)"

definition move_datagram :: "datagram_socket \<Rightarrow> datagram_socket \<times> datagram_socket" where
  "move_datagram other = (other, other\<lparr>ds_pcb := None, ds_disconnected := True\<rparr>)"

text \<open>The assignment, of another socket.\<close>

definition assign_datagram ::
  "'l udp_ops \<Rightarrow> datagram_socket \<Rightarrow> datagram_socket \<times> 'l \<Rightarrow> datagram_socket \<times> datagram_socket \<times> 'l" where
  "assign_datagram ops other st =
     (let (d, l) = close_datagram ops st; (d, other) = move_datagram other in (d, other, l))"

definition reconnect_datagram ::
  "'l udp_ops \<Rightarrow> bool \<Rightarrow> datagram_socket \<times> 'l \<times> string list \<Rightarrow> datagram_socket \<times> 'l \<times> string list" where
  "reconnect_datagram ops running st =
     (let (d, l, panics) = st in
      if \<not> running then (d\<lparr>ds_disconnected := True\<rparr>, l, panics)
      else
        (let (d, l) = release_datagram ops (d, l);
             (p, l) = up_new ops l in
         case p of
           None \<Rightarrow> (d\<lparr>ds_disconnected := True\<rparr>, l, panics)
         | Some p \<Rightarrow> bind_datagram ops p (d, l, panics)))"

section \<open>Datagrams\<close>

definition send_packet ::
  "'l udp_ops \<Rightarrow> nat \<Rightarrow> datagram_socket \<Rightarrow> registry \<times> 'l \<Rightarrow> (bool \<times> registry \<times> 'l) option" where
  "send_packet ops a d st =
     (let (g, l) = st in
      case ds_pcb d of
        None \<Rightarrow> Some (False, g, l)
      | Some p \<Rightarrow>
          (if ds_disconnected d then Some (False, g, l)
           else
             (let k = order_size a g in
              case build_at a (\<lambda>k. map (up_fresh ops k) [0 ..< k]) g of
                None \<Rightarrow> None
              | Some (g, buf) \<Rightarrow>
                  (if k = 0 then Some (False, g, l)
                   else
                     (let (got, l) = up_alloc ops k l in
                      if \<not> got then Some (False, g, l)
                      else
                        (let (ok, l) = up_take ops (take k buf) l in
                         if \<not> ok then Some (False, g, up_free ops (take k buf) l)
                         else
                           (let (sent, l) = up_send ops p (take k buf) l
                            in Some (sent, g, up_free ops (take k buf) l))))))))"

text \<open>\<open>whole\<close>: the datagram lies in one buffer (\<open>len == tot_len\<close>), and not in a chain.\<close>

definition receive_datagram ::
  "'l udp_ops \<Rightarrow> (bool \<times> u8 list) option \<Rightarrow> registry \<times> 'l \<Rightarrow> (registry \<times> 'l) option" where
  "receive_datagram ops buf st =
     (let (g, l) = st in
      case buf of
        None \<Rightarrow> Some (g, l)
      | Some (whole, data) \<Rightarrow>
          map_option (\<lambda>g. (g, up_free ops data l))
            (if length data \<ge> id_bytes then
               (if whole then parse_data data g
                else if length (up_copy ops data l) = length data then parse_data (up_copy ops data l) g
                else Some g)
             else Some g))"

section \<open>What a socket promises\<close>

text \<open>A socket that is not disconnected has a control block.\<close>

definition datagram_ok :: "datagram_socket \<Rightarrow> bool" where
  "datagram_ok d \<longleftrightarrow> (ds_disconnected d \<or> ds_pcb d \<noteq> None)"

lemma bind_datagram_ok: "datagram_ok (fst (bind_datagram ops p st))"
  by (simp add: bind_datagram_def datagram_ok_def Let_def split_beta)

lemma disconnected_ok: "ds_disconnected d \<Longrightarrow> datagram_ok d"
  by (simp add: datagram_ok_def)

lemma make_datagram_ok: "datagram_ok (fst (make_datagram ops running loc rem st))"
proof -
  obtain p l where "up_new ops (fst st) = (p, l)" by (rule prod.exhaust)
  then show ?thesis
    by (cases p) (simp_all add: make_datagram_def Let_def split_beta default_datagram_def disconnected_ok bind_datagram_ok)
qed

lemma reconnect_datagram_ok: "datagram_ok (fst (reconnect_datagram ops running st))"
proof -
  obtain p l where "up_new ops (snd (release_datagram ops (fst st, fst (snd st)))) = (p, l)" by (rule prod.exhaust)
  then show ?thesis
    by (cases p) (simp_all add: reconnect_datagram_def Let_def split_beta disconnected_ok bind_datagram_ok)
qed

lemma close_datagram_ok: "datagram_ok (fst (close_datagram ops st))"
  by (simp add: close_datagram_def Let_def split_beta disconnected_ok)

text \<open>What is handed to lwIP is the frame of the packet.\<close>

lemma send_packet_frame:
  assumes ok: "packet_ok (rg_vars g) (packet_of (rg_objects g a))"
    and sent: "send_packet ops a d (g, l) = Some (True, g', l')"
  obtains p l1 l2 where "ds_pcb d = Some p" "\<not> ds_disconnected d"
    and "up_send ops p (frame (packet_of (rg_objects g a)) (rg_vars g)) l1 = (True, l2)"
    and "l' = up_free ops (frame (packet_of (rg_objects g a)) (rg_vars g)) l2"
proof -
  let ?p = "packet_of (rg_objects g a)" and ?fresh = "\<lambda>k. map (up_fresh ops k) [0 ..< k]"
  obtain p' rest where b: "build_packet ?p (rg_vars g) ?fresh = Some (p', frame ?p (rg_vars g) @ rest)"
    using build_frame [OF ok, of ?fresh] by (metis diff_zero length_map length_upt)
  then obtain g1 where g1: "build_at a ?fresh g = Some (g1, frame ?p (rg_vars g) @ rest)"
    by (simp add: build_at_def)
  have k: "take (order_size a g) (frame ?p (rg_vars g) @ rest) = frame ?p (rg_vars g)"
    using length_frame [OF ok] by (simp add: order_size_def)
  show ?thesis
    using sent g1 k that
    by (auto simp: send_packet_def Let_def split: option.splits if_splits prod.splits)
qed

section \<open>From one board to another, in one datagram\<close>

text \<open>A packet sent over UDP arrives: if \<open>send_packet\<close> says that it was sent, lwIP was given one
  datagram, the frame of the packet, on a connected control block; and a board that receives
  those bytes and knows a packet of that identifier and shape then has the sender's bytes in each
  of its variables, and no other variable changed, whether the datagram came in one buffer or in
  a chain.\<close>

theorem datagram_delivered:
  assumes ok: "packet_ok (rg_vars g) (packet_of (rg_objects g a))"
    and sent: "send_packet ops a d (g, l) = Some (True, g', l')"
    and known: "rg_packets h (pk_id (packet_of (rg_objects g a))) = Some b"
    and ok': "packet_ok (rg_vars h) (packet_of (rg_objects h b))"
    and shape: "list_all2 (\<lambda>v w. same_shape (rg_vars g) v (rg_vars h) w)
      (pk_values (packet_of (rg_objects g a))) (pk_values (packet_of (rg_objects h b)))"
    and apart: "distinct (concat (map value_vars (pk_values (packet_of (rg_objects h b)))))"
    and chain: "\<And>data. up_copy ops' data m = data"
  shows "\<exists>p l1 l2 data h'. ds_pcb d = Some p \<and> up_send ops p data l1 = (True, l2) \<and> l' = up_free ops data l2 \<and>
    receive_datagram ops' (Some (whole, data)) (h, m) = Some (h', up_free ops' data m) \<and>
    list_all2 (\<lambda>v w. value_bytes w (rg_vars h') = value_bytes v (rg_vars g))
      (pk_values (packet_of (rg_objects g a))) (pk_values (packet_of (rg_objects h b))) \<and>
    (\<forall>x. x \<notin> set (concat (map value_vars (pk_values (packet_of (rg_objects h b))))) \<longrightarrow> rg_vars h' x = rg_vars h x)"
proof -
  let ?p = "packet_of (rg_objects g a)" and ?q = "packet_of (rg_objects h b)"
  let ?data = "frame ?p (rg_vars g)"
  obtain p l1 l2 where s: "ds_pcb d = Some p" "up_send ops p ?data l1 = (True, l2)" "l' = up_free ops ?data l2"
    using send_packet_frame [OF ok sent] by metis
  obtain st2 where parsed: "parse_packet ?q ?data (rg_vars h) = Some st2"
      "list_all2 (\<lambda>v w. value_bytes w st2 = value_bytes v (rg_vars g)) (pk_values ?p) (pk_values ?q)"
      "\<forall>x. x \<notin> set (concat (map value_vars (pk_values ?q))) \<longrightarrow> st2 x = rg_vars h x"
    using parse_frame [OF ok ok' shape apart, of "[]"] by auto
  have "frame_id ?data = Some (pk_id ?p)" using get_id_frame [of ?p "rg_vars g" "[]"] by simp
  then have "parse_data ?data h = Some (h\<lparr>rg_vars := st2\<rparr>)"
    using known parsed(1) by (simp add: parse_data_def parse_at_def)
  moreover have "id_bytes \<le> length ?data" using length_frame [OF ok] get_size_frame [OF ok] by simp
  ultimately have "receive_datagram ops' (Some (whole, ?data)) (h, m) = Some (h\<lparr>rg_vars := st2\<rparr>, up_free ops' ?data m)"
    using chain by (simp add: receive_datagram_def)
  then show ?thesis using s parsed(2,3) by (intro exI conjI) (assumption | simp)+
qed

lemma value_size_static: "static_value v \<Longrightarrow> value_size v st = value_size v st'"
  by (cases v) simp_all

lemma parse_values_short:
  "list_all static_value vs \<Longrightarrow> length data < values_size vs st \<Longrightarrow> parse_values vs data st = None"
proof (induction vs arbitrary: data st)
  case (Cons v vs)
  show ?case
  proof (cases "length data < value_size v st")
    case False
    have "values_size vs st = values_size vs (write_value v data st)"
      using Cons.prems(1) static_sizes [of vs] by (metis list.pred_inject(2))
    moreover have "value_size v (write_value v data st) = value_size v st"
      using Cons.prems(1) value_size_static by (metis list.pred_inject(2))
    ultimately have "length (drop (value_size v st) data) < values_size vs (write_value v data st)"
      using Cons.prems False by (simp add: values_size_sum)
    then have "parse_values vs (drop (value_size v st) data) (write_value v data st) = None"
      using Cons.prems(1) by (intro Cons.IH) simp_all
    then show ?thesis
      using \<open>value_size v (write_value v data st) = value_size v st\<close> by (simp add: value_parse_def)
  qed (simp add: value_parse_def)
qed (simp add: values_size_sum)

text \<open>\<open>receive_callback\<close> only asks a datagram to hold an identifier: if the packet of that
  identifier has values of a fixed size and the datagram is shorter than the packet, parsing reads
  past the end of the datagram, whatever the rest of the state.\<close>

theorem short_datagram_undefined:
  assumes "frame_id data = Some i" "rg_packets g i = Some a"
    and "pk_kind (packet_of (rg_objects g a)) = Sized n" "packet_ok (rg_vars g) (packet_of (rg_objects g a))"
    and "length data < order_size a g"
  shows "receive_datagram ops (Some (True, data)) (g, l) = None"
proof -
  let ?p = "packet_of (rg_objects g a)"
  have two: "id_bytes \<le> length data" using assms(1) get_id_None [of data] by simp
  have "list_all static_value (pk_values ?p)" using assms(3,4) by (simp add: packet_ok_def)
  moreover have "length (drop id_bytes data) < values_size (pk_values ?p) (rg_vars g)"
    using assms(5) two get_size_frame [OF assms(4)] by (simp add: order_size_def)
  ultimately have "parse_packet ?p data (rg_vars g) = None"
    using parse_values_short assms(3) by (simp add: parse_packet_def)
  then show ?thesis using assms(1,2) two by (simp add: receive_datagram_def parse_data_def parse_at_def)
qed

section \<open>Instances\<close>

definition demo_udp :: "unit udp_ops" where
  "demo_udp =
     \<lparr>up_new = (\<lambda>l. (Some 1, l)), up_bind = (\<lambda>_ _ l. (True, l)), up_recv = (\<lambda>_ l. l), up_connect = (\<lambda>_ _ l. l),
      up_disconnect = (\<lambda>_ l. l), up_remove = (\<lambda>_ l. l), up_update = (\<lambda>l. l), up_alloc = (\<lambda>_ l. (True, l)),
      up_take = (\<lambda>_ l. (True, l)), up_send = (\<lambda>_ _ l. (True, l)), up_free = (\<lambda>_ l. l), up_copy = (\<lambda>b _. b),
      up_fresh = (\<lambda>_ _. 0)\<rparr>"

definition demo_sender :: registry where
  "demo_sender = new_order 41 (heap_packet 5 [Scalar 0 2]) None
     \<lparr>rg_vars = demo_store, rg_objects = (\<lambda>_. Plain (bare_packet 0)), rg_packets = Map.empty,
      rg_orders = Map.empty, rg_called = []\<rparr>"

definition demo_datagram :: datagram_socket where
  "demo_datagram = fst (make_datagram demo_udp True (1, 5) (2, 5) ((), []))"

lemma demo_sent: "\<exists>g. send_packet demo_udp 41 demo_datagram (demo_sender, ()) = Some (True, g, ())"
proof -
  let ?fresh = "\<lambda>k. map (up_fresh demo_udp k) [0 ..< k]"
  have ok: "packet_ok (rg_vars demo_sender) (packet_of (rg_objects demo_sender 41))"
    by (simp add: packet_ok_def heap_packet_def demo_sender_def new_order_def)
  obtain p' rest where "build_packet (packet_of (rg_objects demo_sender 41)) (rg_vars demo_sender) ?fresh =
      Some (p', frame (packet_of (rg_objects demo_sender 41)) (rg_vars demo_sender) @ rest)"
    using build_frame [OF ok, of ?fresh] by (metis diff_zero length_map length_upt)
  then have "\<exists>g buf. build_at 41 ?fresh demo_sender = Some (g, buf)" by (simp add: build_at_def)
  moreover have "order_size 41 demo_sender \<noteq> 0"
    using get_size_frame [OF ok] by (simp add: order_size_def id_bytes_def)
  ultimately show ?thesis
    by (auto simp: send_packet_def demo_datagram_def make_datagram_def bind_datagram_def default_datagram_def
        demo_udp_def Let_def)
qed

lemma datagram_delivered_witness:
  "\<exists>data h. receive_datagram demo_udp (Some (False, data)) (demo_registry, ()) = Some (h, ()) \<and>
     take 2 (rg_vars h 7) = [1, 2]"
proof -
  obtain g where sent: "send_packet demo_udp 41 demo_datagram (demo_sender, ()) = Some (True, g, ())"
    using demo_sent by auto
  have ok: "packet_ok (rg_vars demo_sender) (packet_of (rg_objects demo_sender 41))"
    and ok': "packet_ok (rg_vars demo_registry) (packet_of (rg_objects demo_registry 40))"
    by (simp_all add: packet_ok_def heap_packet_def demo_sender_def demo_registry_def new_order_def)
  show ?thesis
    using datagram_delivered [OF ok sent _ ok', where ops' = demo_udp and m = "()" and whole = False]
    by (fastforce simp: demo_sender_def demo_registry_def new_order_def heap_packet_def demo_udp_def)
qed

lemma short_datagram_undefined_witness:
  "receive_datagram demo_udp (Some (True, [5, 0, 1])) (static_registry, ()) = None"
proof (rule short_datagram_undefined)
  show "frame_id [5, 0, 1] = Some 5" by (simp add: word16_def)
  show "rg_packets static_registry 5 = Some 40"
    and "pk_kind (packet_of (rg_objects static_registry 40)) = Sized 2"
    by (simp_all add: static_registry_def new_order_def stack_packet_def)
  show "packet_ok (rg_vars static_registry) (packet_of (rg_objects static_registry 40))"
    by (simp add: static_registry_def new_order_def stack_packet_def packet_ok_def id_bytes_def)
  show "length [5, 0, 1 :: u8] < order_size 40 static_registry"
    by (simp add: static_registry_def new_order_def stack_packet_def order_size_def get_size_def id_bytes_def)
qed

end
