(* ===== verification/Mpu.thy ===== *)
theory Mpu
  imports Prelude
begin

unbundle bit_operations_syntax

text \<open>
  The memory protection unit (\<open>Inc/HALAL/Models/MPU.hpp\<close>): the placement of the buffers a board
  declares in the six arenas of the chip (three memory domains, cached or not), which the code
  computes while it is compiled, and the regions the unit is programmed with.

  Sizes and offsets are 32-bit words, as \<open>size_t\<close> is on the target. A constant expression that
  reads a value not yet set does not compile; it is \<open>None\<close>.
\<close>

section \<open>Requests\<close>

datatype MemoryDomain = D1 | D2 | D3

datatype MemoryType = Cached | NonCached

record mpu_entry =
  me_domain :: MemoryDomain
  me_type :: MemoryType
  me_alignment :: u32
  me_size :: u32

record mpu_config =
  mc_offset :: u32
  mc_size :: u32
  mc_domain :: MemoryDomain
  mc_type :: MemoryType

definition mpu_supported_alignments :: "u32 list" where
  "mpu_supported_alignments = [32, 16, 8, 4, 2, 1]"

fun is_supported_from :: "u32 list \<Rightarrow> u32 \<Rightarrow> bool" where
  "is_supported_from [] alignment = False"
| "is_supported_from (candidate # cs) alignment =
     (if candidate = alignment then True else is_supported_from cs alignment)"

definition is_supported_mpu_alignment :: "u32 \<Rightarrow> bool" where
  "is_supported_mpu_alignment = is_supported_from mpu_supported_alignments"

text \<open>The two constructors of \<open>Buffer<T>\<close>, for a type of the given alignment and size.\<close>

definition buffer_for ::
  "u32 \<Rightarrow> u32 \<Rightarrow> MemoryType \<Rightarrow> MemoryDomain \<Rightarrow> bool \<Rightarrow> string + mpu_entry" where
  "buffer_for align_of size_of type domain force =
     (if align_of > 32
      then Inl ''Requested type has alignment greater than cache line size (32 bytes).''
      else if \<not> is_supported_mpu_alignment align_of
      then Inl ''Requested type has alignment not supported by MPU buffer system.''
      else Inr \<lparr>me_domain = domain, me_type = type,
                me_alignment = (if force then 32 else align_of), me_size = size_of\<rparr>)"

definition buffer_of_entry :: "u32 \<Rightarrow> mpu_entry \<Rightarrow> string + mpu_entry" where
  "buffer_of_entry size_of e =
     (if me_alignment e > 32
      then Inl ''Requested alignment greater than cache line size (32 bytes).''
      else if \<not> is_supported_mpu_alignment (me_alignment e)
      then Inl ''Requested alignment not supported by MPU buffer system.''
      else if me_size e \<noteq> size_of then Inl ''Entry size_in_bytes must match sizeof(T)''
      else Inr e)"

section \<open>Placement\<close>

definition align_up :: "u32 \<Rightarrow> u32 \<Rightarrow> u32" where
  "align_up val align = (val + align - 1) AND NOT (align - 1)"

fun domain_index :: "MemoryDomain \<Rightarrow> nat" where
  "domain_index D1 = 0" | "domain_index D2 = 1" | "domain_index D3 = 2"

record placement =
  offsets_nc :: "u32 list"
  offsets_c :: "u32 list"
  assigned_offsets :: "u32 option list"

definition place_entry :: "mpu_entry list \<Rightarrow> u32 \<Rightarrow> nat \<Rightarrow> placement \<Rightarrow> placement" where
  "place_entry es align i p =
     (let e = es ! i; d = domain_index (me_domain e) in
      if me_alignment e \<noteq> align then p
      else if me_type e = NonCached then
        (let at = align_up (offsets_nc p ! d) align in
         p\<lparr>offsets_nc := (offsets_nc p)[d := at + me_size e],
           assigned_offsets := (assigned_offsets p)[i := Some at]\<rparr>)
      else
        (let at = align_up (offsets_c p ! d) align in
         p\<lparr>offsets_c := (offsets_c p)[d := at + me_size e],
           assigned_offsets := (assigned_offsets p)[i := Some at]\<rparr>))"

definition place_all :: "mpu_entry list \<Rightarrow> placement" where
  "place_all es =
     fold (\<lambda>align p. fold (place_entry es align) [0 ..< length es] p) mpu_supported_alignments
       \<lparr>offsets_nc = [0, 0, 0], offsets_c = [0, 0, 0], assigned_offsets = replicate (length es) None\<rparr>"

definition make_config :: "mpu_entry \<Rightarrow> u32 option \<Rightarrow> mpu_config option" where
  "make_config e at =
     map_option (\<lambda>o'. \<lparr>mc_offset = o', mc_size = me_size e, mc_domain = me_domain e, mc_type = me_type e\<rparr>) at"

definition build_buffers :: "mpu_entry list \<Rightarrow> mpu_config list option" where
  "build_buffers es =
     those (map (\<lambda>(e, at). make_config e at) (zip es (assigned_offsets (place_all es))))"

section \<open>The arenas\<close>

record domain_sizes =
  d1_nc_total :: u32
  d1_c_total :: u32
  d2_nc_total :: u32
  d2_c_total :: u32
  d3_nc_total :: u32
  d3_c_total :: u32

definition account_config :: "mpu_config \<Rightarrow> domain_sizes \<Rightarrow> domain_sizes" where
  "account_config c s =
     (let e = mc_offset c + mc_size c in
      case mc_domain c of
        D1 \<Rightarrow> (if mc_type c = NonCached then s\<lparr>d1_nc_total := max (d1_nc_total s) e\<rparr>
               else s\<lparr>d1_c_total := max (d1_c_total s) e\<rparr>)
      | D2 \<Rightarrow> (if mc_type c = NonCached then s\<lparr>d2_nc_total := max (d2_nc_total s) e\<rparr>
               else s\<lparr>d2_c_total := max (d2_c_total s) e\<rparr>)
      | D3 \<Rightarrow> (if mc_type c = NonCached then s\<lparr>d3_nc_total := max (d3_nc_total s) e\<rparr>
               else s\<lparr>d3_c_total := max (d3_c_total s) e\<rparr>))"

definition align_totals :: "domain_sizes \<Rightarrow> domain_sizes" where
  "align_totals s =
     \<lparr>d1_nc_total = align_up (d1_nc_total s) 32, d1_c_total = align_up (d1_c_total s) 32,
      d2_nc_total = align_up (d2_nc_total s) 32, d2_c_total = align_up (d2_c_total s) 32,
      d3_nc_total = align_up (d3_nc_total s) 32, d3_c_total = align_up (d3_c_total s) 32\<rparr>"

definition calculate_total_sizes :: "mpu_config list \<Rightarrow> domain_sizes" where
  "calculate_total_sizes cs =
     align_totals (fold account_config cs
       \<lparr>d1_nc_total = 0, d1_c_total = 0, d2_nc_total = 0, d2_c_total = 0, d3_nc_total = 0, d3_c_total = 0\<rparr>)"

fun arena_total :: "MemoryDomain \<Rightarrow> MemoryType \<Rightarrow> domain_sizes \<Rightarrow> u32" where
  "arena_total D1 NonCached s = d1_nc_total s"
| "arena_total D1 Cached s = d1_c_total s"
| "arena_total D2 NonCached s = d2_nc_total s"
| "arena_total D2 Cached s = d2_c_total s"
| "arena_total D3 NonCached s = d3_nc_total s"
| "arena_total D3 Cached s = d3_c_total s"

text \<open>The arrays of the six arenas: an arena nothing was placed in has one byte.\<close>

definition arena_bytes :: "u32 \<Rightarrow> u32" where
  "arena_bytes bytes = (if bytes > 0 then bytes else 1)"

record mpu_instance =
  mi_ptr :: u32
  mi_size :: u32

definition assign_pointer :: "u32 list \<Rightarrow> u32 list \<Rightarrow> mpu_config \<Rightarrow> mpu_instance" where
  "assign_pointer bases_nc bases_c c =
     (let d = domain_index (mc_domain c) in
      \<lparr>mi_ptr = (if mc_type c = NonCached then bases_nc ! d + mc_offset c else bases_c ! d + mc_offset c),
       mi_size = mc_size c\<rparr>)"

section \<open>The regions\<close>

datatype region_access = MPU_REGION_NO_ACCESS | MPU_REGION_FULL_ACCESS

record mpu_region =
  rgn_number :: u8
  rgn_base :: u32
  rgn_size :: u8
  rgn_subregion_disable :: u8
  rgn_tex :: u8
  rgn_access :: region_access
  rgn_exec :: bool
  rgn_shareable :: bool
  rgn_cacheable :: bool
  rgn_bufferable :: bool

text \<open>\<open>__builtin_clz\<close> of a word that is not zero.\<close>

fun bit_width :: "nat \<Rightarrow> nat" where
  "bit_width n = (if n = 0 then 0 else Suc (bit_width (n div 2)))"

definition clz32 :: "u32 \<Rightarrow> nat" where
  "clz32 x = 32 - bit_width (unat x)"

text \<open>\<open>1 << (mpu_size + 1)\<close> is a signed shift, and its quotient by 8 a signed one.\<close>

definition region_exponent :: "u32 \<Rightarrow> u8" where
  "region_exponent bytes = (if bytes > 32 then of_nat 31 - of_nat (clz32 (bytes - 1)) else 4)"

definition subregion_size :: "u8 \<Rightarrow> u32" where
  "subregion_size k = of_int (sint (push_bit (unat k + 1) 1 :: u32) div 8)"

definition needed_subregions :: "u32 \<Rightarrow> u32 \<Rightarrow> u8" where
  "needed_subregions bytes sub = ucast ((bytes + sub - 1) div sub)"

definition subregion_disable :: "u8 \<Rightarrow> u8" where
  "subregion_disable needed = ucast (push_bit (unat needed) 0xFF :: u32)"

text \<open>\<open>configure_region\<close>: the region it hands to \<open>HAL_MPU_ConfigRegion\<close>, if any.\<close>

definition configure_region ::
  "u32 \<Rightarrow> u32 \<Rightarrow> u8 \<Rightarrow> u8 \<Rightarrow> region_access \<Rightarrow> bool \<Rightarrow> bool \<Rightarrow> bool \<Rightarrow> bool \<Rightarrow> mpu_region list" where
  "configure_region base bytes n tex access exec' shareable cacheable bufferable =
     (if bytes = 0 then []
      else
        (let k = region_exponent bytes;
             needed = needed_subregions bytes (subregion_size k) in
         [\<lparr>rgn_number = n, rgn_base = base, rgn_size = k, rgn_subregion_disable = subregion_disable needed,
           rgn_tex = tex, rgn_access = access, rgn_exec = exec', rgn_shareable = shareable,
           rgn_cacheable = cacheable, rgn_bufferable = bufferable\<rparr>]))"

definition configure_dynamic_region :: "u32 \<Rightarrow> u32 \<Rightarrow> u8 \<Rightarrow> mpu_region list" where
  "configure_dynamic_region start stop n =
     (if stop \<le> start then []
      else configure_region start (stop - start) n 1 MPU_REGION_FULL_ACCESS False True False False)"

text \<open>The symbols of the linker script: bases with sizes, and the bounds of the uncached sections.\<close>

record linker_symbols =
  peripheral_at :: "u32 \<times> u32"
  flash_at :: "u32 \<times> u32"
  dtcm_at :: "u32 \<times> u32"
  itcm_at :: "u32 \<times> u32"
  ram_d1_at :: "u32 \<times> u32"
  ram_d2_at :: "u32 \<times> u32"
  ram_d3_at :: "u32 \<times> u32"
  ram_d1_nc :: "u32 \<times> u32"
  ram_d2_nc :: "u32 \<times> u32"
  ram_d3_nc :: "u32 \<times> u32"

definition background_region :: mpu_region where
  "background_region =
     \<lparr>rgn_number = 0, rgn_base = 0, rgn_size = 31, rgn_subregion_disable = 0, rgn_tex = 0,
      rgn_access = MPU_REGION_NO_ACCESS, rgn_exec = False, rgn_shareable = False,
      rgn_cacheable = False, rgn_bufferable = False\<rparr>"

definition configure_static_regions :: "linker_symbols \<Rightarrow> mpu_region list" where
  "configure_static_regions l =
     [background_region]
     @ configure_region (fst (peripheral_at l)) (snd (peripheral_at l)) 8 0 MPU_REGION_FULL_ACCESS False True False True
     @ configure_region (fst (flash_at l)) (snd (flash_at l)) 1 0 MPU_REGION_FULL_ACCESS True False True False
     @ configure_region (fst (dtcm_at l)) (snd (dtcm_at l)) 10 1 MPU_REGION_FULL_ACCESS False False True True
     @ configure_region (fst (itcm_at l)) (snd (itcm_at l)) 11 0 MPU_REGION_FULL_ACCESS True False True False
     @ configure_region 0 32 12 0 MPU_REGION_NO_ACCESS False False False False
     @ configure_region (fst (ram_d1_at l)) (snd (ram_d1_at l)) 2 1 MPU_REGION_FULL_ACCESS False True True True
     @ configure_region (fst (ram_d2_at l)) (snd (ram_d2_at l)) 4 1 MPU_REGION_FULL_ACCESS False True True True
     @ configure_region (fst (ram_d3_at l)) (snd (ram_d3_at l)) 6 1 MPU_REGION_FULL_ACCESS False True True True"

datatype mpu_call = MPU_Disable | ConfigRegion mpu_region | MPU_Enable | EnableICache | EnableDCache

text \<open>\<open>Init::init\<close>: the calls it makes, in order, and the instances it leaves.\<close>

definition mpu_init ::
  "linker_symbols \<Rightarrow> u32 list \<Rightarrow> u32 list \<Rightarrow> mpu_config list \<Rightarrow> mpu_call list \<times> mpu_instance list" where
  "mpu_init l bases_nc bases_c cs =
     ([MPU_Disable]
      @ map ConfigRegion (configure_static_regions l
          @ configure_dynamic_region (fst (ram_d1_nc l)) (snd (ram_d1_nc l)) 3
          @ configure_dynamic_region (fst (ram_d2_nc l)) (snd (ram_d2_nc l)) 5
          @ configure_dynamic_region (fst (ram_d3_nc l)) (snd (ram_d3_nc l)) 7)
      @ [MPU_Enable, EnableICache, EnableDCache],
      map (assign_pointer bases_nc bases_c) cs)"

section \<open>The legacy pool\<close>

text \<open>\<open>MPUManager::allocate_non_cached_memory\<close>
  (\<open>Inc/HALAL/Models/MPUManager/MPUManager.hpp\<close>): a pool that only grows. A request that does not
  fit is counted all the same; \<open>Inl\<close> is the panic with the bytes in excess.\<close>

definition NO_CACHED_RAM_MAXIMUM_SPACE :: u32 where
  "NO_CACHED_RAM_MAXIMUM_SPACE = 2048"

record legacy_pool =
  no_cached_ram_start :: u32
  no_cached_ram_occupied_bytes :: u32

definition allocate_non_cached_memory :: "u32 \<Rightarrow> legacy_pool \<Rightarrow> (u32 + u32) \<times> legacy_pool" where
  "allocate_non_cached_memory bytes m =
     (let buffer = no_cached_ram_start m + no_cached_ram_occupied_bytes m;
          m = m\<lparr>no_cached_ram_occupied_bytes := no_cached_ram_occupied_bytes m + bytes\<rparr> in
      if no_cached_ram_occupied_bytes m > NO_CACHED_RAM_MAXIMUM_SPACE
      then (Inl (no_cached_ram_occupied_bytes m - NO_CACHED_RAM_MAXIMUM_SPACE), m)
      else (Inr buffer, m))"

fun allocate_each :: "u32 list \<Rightarrow> legacy_pool \<Rightarrow> (u32 + u32) list" where
  "allocate_each [] m = []"
| "allocate_each (n # ns) m =
     (let (r, m) = allocate_non_cached_memory n m in r # allocate_each ns m)"

section \<open>Alignment\<close>

lemma supported_alignment:
  "is_supported_mpu_alignment a \<longleftrightarrow> a \<in> set mpu_supported_alignments"
  by (auto simp: is_supported_mpu_alignment_def mpu_supported_alignments_def)

lemma supported_power:
  "is_supported_mpu_alignment a \<Longrightarrow> \<exists>k \<le> 5. a = 2 ^ k"
proof -
  assume "is_supported_mpu_alignment a"
  then have "a = 2 ^ 5 \<or> a = 2 ^ 4 \<or> a = 2 ^ 3 \<or> a = 2 ^ 2 \<or> a = 2 ^ 1 \<or> a = 2 ^ 0"
    by (auto simp: supported_alignment mpu_supported_alignments_def)
  then show ?thesis by (elim disjE) (rule exI, rule conjI [rotated], assumption, simp)+
qed

lemma clear_low_bits: "(x::u32) AND NOT (2 ^ k - 1) = push_bit k (drop_bit k x)"
  by (rule bit_word_eqI) (auto simp: bit_simps mask_eq_exp_minus_1 [symmetric])

lemma unat_small_power: "k \<le> 5 \<Longrightarrow> unat (2 ^ k :: u32) = 2 ^ k"
proof -
  assume "k \<le> 5"
  then have "(2::nat) ^ k \<le> 2 ^ 5" by (rule power_increasing) simp
  moreover have "(2 ^ k :: u32) = of_nat (2 ^ k)" by simp
  ultimately show ?thesis using unat_of_nat32 [of "2 ^ k"] by simp
qed

lemma unat_align_up:
  assumes k: "k \<le> 5" and small: "unat x + 31 < 2 ^ 32"
  shows "unat (align_up x (2 ^ k)) = (unat x + 2 ^ k - 1) div 2 ^ k * 2 ^ k"
proof -
  have p: "(2::nat) ^ k \<le> 2 ^ 5" using k by (rule power_increasing) simp
  let ?y = "x + 2 ^ k - 1 :: u32"
  have pk: "unat (2 ^ k :: u32) = 2 ^ k" using k by (rule unat_small_power)
  have "?y = of_nat (unat x + 2 ^ k - 1)"
    by (simp add: of_nat_diff Suc_leI trans_le_add2)
  then have y: "unat ?y = unat x + 2 ^ k - 1"
    using p small unat_of_nat32 [of "unat x + 2 ^ k - 1"] by simp
  have self: "take_bit 32 (unat ?y) = unat ?y"
    using unat_less32 [of ?y] by (simp add: take_bit_nat_eq_self_iff)
  then have "unat (push_bit k (drop_bit k ?y)) = take_bit 32 (push_bit k (drop_bit k (unat ?y)))"
    by (simp add: unsigned_push_bit_eq unsigned_drop_bit_eq)
  also have "push_bit k (drop_bit k (unat ?y)) = unat ?y div 2 ^ k * 2 ^ k"
    by (simp add: push_bit_eq_mult drop_bit_eq_div)
  also have "take_bit 32 (unat ?y div 2 ^ k * 2 ^ k) = unat ?y div 2 ^ k * 2 ^ k"
    using order_le_less_trans [OF div_times_less_eq_dividend unat_less32, of ?y "2 ^ k"]
    by (simp add: take_bit_nat_eq_self_iff)
  finally show ?thesis by (simp add: align_up_def clear_low_bits y)
qed

lemma align_up_bounds:
  assumes "is_supported_mpu_alignment a" and small: "unat x + 31 < 2 ^ 32"
  shows "unat x \<le> unat (align_up x a)" and "unat (align_up x a) \<le> unat x + 31"
    and "unat a dvd unat (align_up x a)"
proof -
  obtain k where k: "k \<le> 5" "a = 2 ^ k" using supported_power [OF assms(1)] by blast
  have p: "(2::nat) ^ k \<le> 2 ^ 5" using k(1) by (rule power_increasing) simp
  have pk: "unat a = 2 ^ k" using k by (simp add: unat_small_power)
  note eq = unat_align_up [OF k(1) small]
  let ?n = "unat x + 2 ^ k - 1"
  have "?n div 2 ^ k * 2 ^ k + ?n mod 2 ^ k = ?n" by (rule div_mult_mod_eq)
  moreover have "?n mod 2 ^ k < 2 ^ k" by simp
  moreover have "1 \<le> (2::nat) ^ k" by simp
  ultimately show "unat x \<le> unat (align_up x a)" "unat (align_up x a) \<le> unat x + 31"
    using eq k(2) p by (simp_all, linarith+)
  show "unat a dvd unat (align_up x a)" using eq pk k(2) by simp
qed

section \<open>The placement\<close>

fun arena_offset :: "MemoryDomain \<Rightarrow> MemoryType \<Rightarrow> placement \<Rightarrow> u32" where
  "arena_offset d NonCached p = offsets_nc p ! domain_index d"
| "arena_offset d Cached p = offsets_c p ! domain_index d"

definition arena_at :: "mpu_entry list \<Rightarrow> nat \<Rightarrow> placement \<Rightarrow> u32" where
  "arena_at es i = arena_offset (me_domain (es ! i)) (me_type (es ! i))"

definition same_arena :: "mpu_entry list \<Rightarrow> nat \<Rightarrow> nat \<Rightarrow> bool" where
  "same_arena es i j \<longleftrightarrow> me_domain (es ! i) = me_domain (es ! j) \<and> me_type (es ! i) = me_type (es ! j)"

definition place_next :: "mpu_entry list \<Rightarrow> nat \<Rightarrow> placement \<Rightarrow> placement" where
  "place_next es i = place_entry es (me_alignment (es ! i)) i"

definition next_offset :: "mpu_entry list \<Rightarrow> nat \<Rightarrow> placement \<Rightarrow> u32" where
  "next_offset es i p = align_up (arena_at es i p) (me_alignment (es ! i))"

definition three_arenas :: "placement \<Rightarrow> bool" where
  "three_arenas p \<longleftrightarrow> length (offsets_nc p) = 3 \<and> length (offsets_c p) = 3"

lemma domain_index_less [simp]: "domain_index d < 3"
  by (cases d) auto

lemma domain_index_eq [simp]: "domain_index d = domain_index e \<longleftrightarrow> d = e"
  by (cases d; cases e) auto

lemma place_next_simps:
  assumes "three_arenas p"
  shows "three_arenas (place_next es i p)"
    and "assigned_offsets (place_next es i p) = (assigned_offsets p)[i := Some (next_offset es i p)]"
    and "arena_at es j (place_next es i p) =
      (if same_arena es i j then next_offset es i p + me_size (es ! i) else arena_at es j p)"
proof -
  show "three_arenas (place_next es i p)"
    using assms by (auto simp: place_next_def place_entry_def Let_def three_arenas_def)
  show "assigned_offsets (place_next es i p) = (assigned_offsets p)[i := Some (next_offset es i p)]"
    by (cases "me_type (es ! i)") (simp_all add: place_next_def place_entry_def Let_def next_offset_def arena_at_def)
  show "arena_at es j (place_next es i p) =
      (if same_arena es i j then next_offset es i p + me_size (es ! i) else arena_at es j p)"
    using assms
    by (cases "me_type (es ! i)"; cases "me_type (es ! j)")
       (auto simp: place_next_def place_entry_def Let_def next_offset_def arena_at_def same_arena_def
         three_arenas_def nth_list_update)
qed

text \<open>The loops visit every index whose alignment is supported once, larger alignments first.\<close>

definition visit_order :: "mpu_entry list \<Rightarrow> nat list" where
  "visit_order es =
     concat (map (\<lambda>a. filter (\<lambda>i. me_alignment (es ! i) = a) [0 ..< length es]) mpu_supported_alignments)"

definition no_placement :: "nat \<Rightarrow> placement" where
  "no_placement n = \<lparr>offsets_nc = [0, 0, 0], offsets_c = [0, 0, 0], assigned_offsets = replicate n None\<rparr>"

lemma fold_place_filter:
  "fold (place_entry es a) is p = fold (place_next es) (filter (\<lambda>i. me_alignment (es ! i) = a) is) p"
proof (induction "is" arbitrary: p)
  case (Cons i "is")
  then show ?case by (cases "me_alignment (es ! i) = a") (auto simp: place_next_def place_entry_def Let_def)
qed simp

lemma place_all_order: "place_all es = fold (place_next es) (visit_order es) (no_placement (length es))"
proof -
  have "fold (\<lambda>a p. fold (place_entry es a) [0 ..< length es] p) as p =
      fold (place_next es) (concat (map (\<lambda>a. filter (\<lambda>i. me_alignment (es ! i) = a) [0 ..< length es]) as)) p"
    for as p
    by (induction as arbitrary: p) (auto simp: fold_place_filter)
  then show ?thesis by (simp add: place_all_def visit_order_def no_placement_def)
qed

lemma distinct_visit_order: "distinct (visit_order es)"
proof -
  have "distinct as \<Longrightarrow> distinct (concat (map (\<lambda>a. filter (\<lambda>i. me_alignment (es ! i) = a) [0 ..< length es]) as))"
    for as :: "u32 list"
    by (induction as) auto
  then show ?thesis unfolding visit_order_def by (simp add: mpu_supported_alignments_def del: concat.simps list.map)
qed

lemma set_visit_order:
  assumes "list_all (\<lambda>e. is_supported_mpu_alignment (me_alignment e)) es"
  shows "set (visit_order es) = {0 ..< length es}"
  using assms by (auto simp: visit_order_def supported_alignment list_all_length)

text \<open>What holds once the entries of \<open>S\<close> are placed.\<close>

definition reserve :: "mpu_entry list \<Rightarrow> nat set \<Rightarrow> nat" where
  "reserve es S = (\<Sum>k\<in>S. unat (me_size (es ! k)) + 31)"

definition apart :: "nat \<Rightarrow> nat \<Rightarrow> nat \<Rightarrow> nat \<Rightarrow> bool" where
  "apart o1 n1 o2 n2 \<longleftrightarrow> o1 + n1 \<le> o2 \<or> o2 + n2 \<le> o1"

definition placed :: "mpu_entry list \<Rightarrow> nat set \<Rightarrow> placement \<Rightarrow> bool" where
  "placed es S p \<longleftrightarrow> three_arenas p \<and> length (assigned_offsets p) = length es \<and> S \<subseteq> {0 ..< length es} \<and>
     (\<forall>i \<in> S. \<exists>at. assigned_offsets p ! i = Some at \<and> unat (me_alignment (es ! i)) dvd unat at \<and>
        unat at + unat (me_size (es ! i)) \<le> unat (arena_at es i p)) \<and>
     (\<forall>i \<in> S. \<forall>j \<in> S. i \<noteq> j \<longrightarrow> same_arena es i j \<longrightarrow>
        apart (unat (the (assigned_offsets p ! i))) (unat (me_size (es ! i)))
          (unat (the (assigned_offsets p ! j))) (unat (me_size (es ! j)))) \<and>
     (\<forall>i < length es. unat (arena_at es i p) \<le> reserve es S)"

lemma placed_none: "placed es {} (no_placement (length es))"
proof -
  have "arena_at es i (no_placement n) = 0" for i n
    by (cases "me_type (es ! i)"; cases "me_domain (es ! i)") (auto simp: arena_at_def no_placement_def)
  then show ?thesis by (simp add: placed_def three_arenas_def no_placement_def reserve_def)
qed

lemma next_offset_bounds:
  assumes p: "placed es S p" and i: "i < length es" "i \<notin> S"
    and al: "is_supported_mpu_alignment (me_alignment (es ! i))"
    and room: "reserve es (insert i S) < 2 ^ 32"
  shows "unat (arena_at es i p) \<le> unat (next_offset es i p)"
    and "unat (next_offset es i p + me_size (es ! i)) = unat (next_offset es i p) + unat (me_size (es ! i))"
    and "unat (next_offset es i p) + unat (me_size (es ! i)) \<le> reserve es (insert i S)"
    and "unat (me_alignment (es ! i)) dvd unat (next_offset es i p)"
proof -
  have "finite S" using p by (auto simp: placed_def intro: finite_subset)
  then have r: "reserve es (insert i S) = reserve es S + (unat (me_size (es ! i)) + 31)"
    using i(2) by (simp add: reserve_def)
  have low: "unat (arena_at es i p) \<le> reserve es S" using p i(1) by (simp add: placed_def)
  then have "unat (arena_at es i p) + 31 < 2 ^ 32" using room r by simp
  note b = align_up_bounds [OF al this, folded next_offset_def]
  show "unat (arena_at es i p) \<le> unat (next_offset es i p)"
    and "unat (me_alignment (es ! i)) dvd unat (next_offset es i p)" by (rule b)+
  show le: "unat (next_offset es i p) + unat (me_size (es ! i)) \<le> reserve es (insert i S)"
    using b(2) low r by simp
  then show "unat (next_offset es i p + me_size (es ! i)) = unat (next_offset es i p) + unat (me_size (es ! i))"
    using room by (simp add: unat_word_ariths)
qed

lemma place_next_facts:
  assumes p: "placed es S p" and i: "i < length es" "i \<notin> S"
    and al: "is_supported_mpu_alignment (me_alignment (es ! i))"
    and room: "reserve es (insert i S) < 2 ^ 32"
  shows "j \<in> S \<Longrightarrow> j \<noteq> i \<and> assigned_offsets (place_next es i p) ! j = assigned_offsets p ! j"
    and "assigned_offsets (place_next es i p) ! i = Some (next_offset es i p)"
    and "unat (arena_at es j p) \<le> unat (arena_at es j (place_next es i p))"
    and "j \<in> S \<Longrightarrow> same_arena es i j \<Longrightarrow>
      unat (the (assigned_offsets p ! j)) + unat (me_size (es ! j)) \<le> unat (next_offset es i p)"
    and "j < length es \<Longrightarrow> unat (arena_at es j (place_next es i p)) \<le> reserve es (insert i S)"
proof -
  note b = next_offset_bounds [OF assms]
  note q = place_next_simps [where p = p and es = es and i = i]
  have three: "three_arenas p" and len: "length (assigned_offsets p) = length es" and S: "S \<subseteq> {0 ..< length es}"
    using p by (simp_all add: placed_def)
  show "j \<in> S \<Longrightarrow> j \<noteq> i \<and> assigned_offsets (place_next es i p) ! j = assigned_offsets p ! j"
    using i(2) q(2) [OF three] by (metis nth_list_update_neq)
  show "assigned_offsets (place_next es i p) ! i = Some (next_offset es i p)"
    using i(1) len q(2) [OF three] by simp
  show "unat (arena_at es j p) \<le> unat (arena_at es j (place_next es i p))"
    using q(3) [OF three, where j = j] b(1,2) by (auto simp: same_arena_def arena_at_def)
  show "j \<in> S \<Longrightarrow> same_arena es i j \<Longrightarrow>
      unat (the (assigned_offsets p ! j)) + unat (me_size (es ! j)) \<le> unat (next_offset es i p)"
    using p b(1) by (fastforce simp: placed_def same_arena_def arena_at_def)
  have "finite S" using S by (rule finite_subset) simp
  then have "reserve es S \<le> reserve es (insert i S)" using i(2) by (simp add: reserve_def)
  moreover have "j < length es \<Longrightarrow> unat (arena_at es j p) \<le> reserve es S" using p by (simp add: placed_def)
  ultimately show "j < length es \<Longrightarrow> unat (arena_at es j (place_next es i p)) \<le> reserve es (insert i S)"
    using q(3) [OF three, where j = j] b(2,3) by auto
qed

lemma placed_insert:
  assumes p: "placed es S p" and i: "i < length es" "i \<notin> S"
    and al: "is_supported_mpu_alignment (me_alignment (es ! i))"
    and room: "reserve es (insert i S) < 2 ^ 32"
  shows "placed es (insert i S) (place_next es i p)"
proof -
  let ?q = "place_next es i p"
  note b = next_offset_bounds [OF assms]
  note q = place_next_simps [where p = p and es = es and i = i]
  note old = place_next_facts(1) [OF assms] and new = place_next_facts(2) [OF assms]
    and grow = place_next_facts(3) [OF assms] and below = place_next_facts(4) [OF assms]
  have three: "three_arenas p" and len: "length (assigned_offsets p) = length es" and S: "S \<subseteq> {0 ..< length es}"
    using p by (simp_all add: placed_def)
  show ?thesis
    unfolding placed_def
  proof (intro conjI)
    show "three_arenas ?q" by (rule q(1) [OF three])
    show "length (assigned_offsets ?q) = length es" using len q(2) [OF three] by simp
    show "insert i S \<subseteq> {0 ..< length es}" using S i(1) by simp
    show "\<forall>j \<in> insert i S. \<exists>at. assigned_offsets ?q ! j = Some at \<and> unat (me_alignment (es ! j)) dvd unat at \<and>
        unat at + unat (me_size (es ! j)) \<le> unat (arena_at es j ?q)"
    proof
      fix j assume "j \<in> insert i S"
      then consider "j = i" | "j \<in> S" by blast
      then show "\<exists>at. assigned_offsets ?q ! j = Some at \<and> unat (me_alignment (es ! j)) dvd unat at \<and>
          unat at + unat (me_size (es ! j)) \<le> unat (arena_at es j ?q)"
      proof cases
        case 1
        then show ?thesis using new b(2,4) q(3) [OF three, where j = i] by (simp add: same_arena_def)
      next
        case 2
        then show ?thesis using p old [of j] grow [of j] unfolding placed_def by (metis order_trans)
      qed
    qed
    show "\<forall>j \<in> insert i S. \<forall>k \<in> insert i S. j \<noteq> k \<longrightarrow> same_arena es j k \<longrightarrow>
        apart (unat (the (assigned_offsets ?q ! j))) (unat (me_size (es ! j)))
          (unat (the (assigned_offsets ?q ! k))) (unat (me_size (es ! k)))"
    proof (intro ballI impI)
      fix j k assume jk: "j \<in> insert i S" "k \<in> insert i S" "j \<noteq> k" "same_arena es j k"
      then consider "j = i" "k \<in> S" | "k = i" "j \<in> S" | "j \<in> S" "k \<in> S" by blast
      then show "apart (unat (the (assigned_offsets ?q ! j))) (unat (me_size (es ! j)))
          (unat (the (assigned_offsets ?q ! k))) (unat (me_size (es ! k)))"
      proof cases
        case 1
        then show ?thesis using below [of k] new old [of k] jk(4) by (simp add: apart_def)
      next
        case 2
        then show ?thesis using below [of j] new old [of j] jk(4) by (simp add: apart_def same_arena_def)
      next
        case 3
        then show ?thesis using p old [of j] old [of k] jk(3,4) by (simp add: placed_def)
      qed
    qed
    show "\<forall>j < length es. unat (arena_at es j ?q) \<le> reserve es (insert i S)"
      using place_next_facts(5) [OF assms] by blast
  qed
qed

lemma reserve_mono: "S \<subseteq> T \<Longrightarrow> finite T \<Longrightarrow> reserve es S \<le> reserve es T"
  unfolding reserve_def by (rule sum_mono2) auto

lemma placed_all:
  assumes al: "list_all (\<lambda>e. is_supported_mpu_alignment (me_alignment e)) es"
    and room: "reserve es {0 ..< length es} < 2 ^ 32"
  shows "placed es {0 ..< length es} (place_all es)"
proof -
  have "distinct is \<Longrightarrow> set is \<subseteq> {0 ..< length es} \<Longrightarrow>
      placed es (set is) (fold (place_next es) is (no_placement (length es)))" for "is"
  proof (induction "is" rule: rev_induct)
    case (snoc i "is")
    have "reserve es (insert i (set is)) \<le> reserve es {0 ..< length es}"
      by (rule reserve_mono) (use snoc.prems in auto)
    then show ?case
      using snoc placed_insert [of es "set is" _ i] al room by (simp add: list_all_length)
  qed (simp add: placed_none)
  from this [of "visit_order es"] show ?thesis
    by (simp add: place_all_order distinct_visit_order set_visit_order [OF al])
qed

section \<open>The totals\<close>

lemma arena_total_account:
  "arena_total d t (account_config c s) =
     (if mc_domain c = d \<and> mc_type c = t then max (arena_total d t s) (mc_offset c + mc_size c)
      else arena_total d t s)"
  by (cases d; cases t; cases "mc_domain c"; cases "mc_type c") (auto simp: account_config_def Let_def)

lemma arena_total_fold:
  "arena_total d t s \<le> arena_total d t (fold account_config cs s)"
  "c \<in> set cs \<Longrightarrow> mc_domain c = d \<Longrightarrow> mc_type c = t \<Longrightarrow>
     mc_offset c + mc_size c \<le> arena_total d t (fold account_config cs s)"
  "arena_total d t s \<le> m \<Longrightarrow> \<forall>c \<in> set cs. mc_offset c + mc_size c \<le> m \<Longrightarrow>
     arena_total d t (fold account_config cs s) \<le> m"
proof (induction cs arbitrary: s)
  case (Cons c' cs)
  {
    case 1
    then show ?case using Cons(1) [of "account_config c' s"] by (auto simp: arena_total_account split: if_splits)
  next
    case 2
    then show ?case using Cons(1,2) [of "account_config c' s"] by (auto simp: arena_total_account)
  next
    case 3
    then show ?case using Cons(3) [of "account_config c' s"] by (auto simp: arena_total_account)
  }
qed auto

lemma arena_total_align: "arena_total d t (align_totals s) = align_up (arena_total d t s) 32"
  by (cases d; cases t) (simp_all add: align_totals_def)

lemma total_covers:
  assumes c: "c \<in> set cs" and room: "\<forall>c \<in> set cs. unat (mc_offset c) + unat (mc_size c) + 31 < 2 ^ 32"
  shows "unat (mc_offset c) + unat (mc_size c) \<le>
         unat (arena_total (mc_domain c) (mc_type c) (calculate_total_sizes cs))"
proof -
  let ?s0 = "\<lparr>d1_nc_total = 0, d1_c_total = 0, d2_nc_total = 0, d2_c_total = 0, d3_nc_total = 0, d3_c_total = 0\<rparr>"
  let ?t = "arena_total (mc_domain c) (mc_type c) (fold account_config cs ?s0)"
  have e: "unat (mc_offset c' + mc_size c') = unat (mc_offset c') + unat (mc_size c')" if "c' \<in> set cs" for c'
    using room that by (auto simp: unat_word_ariths)
  define m :: u32 where "m = of_nat (2 ^ 32 - 32)"
  have m: "unat m = 2 ^ 32 - 32" by (simp add: m_def unat_of_nat32)
  have "\<forall>c' \<in> set cs. mc_offset c' + mc_size c' \<le> m"
    using room e m by (auto simp: word_le_nat_alt)
  moreover have "arena_total (mc_domain c) (mc_type c) ?s0 \<le> m"
    by (cases "mc_domain c"; cases "mc_type c") auto
  ultimately have "?t \<le> m" by (intro arena_total_fold(3))
  then have small: "unat ?t + 31 < 2 ^ 32" using m by (simp add: word_le_nat_alt)
  have "mc_offset c + mc_size c \<le> ?t" using c by (intro arena_total_fold(2)) auto
  then have "unat (mc_offset c) + unat (mc_size c) \<le> unat ?t" using e [OF c] by (simp add: word_le_nat_alt)
  also have "\<dots> \<le> unat (align_up ?t 32)"
    by (rule align_up_bounds(1) [OF _ small]) (simp add: supported_alignment mpu_supported_alignments_def)
  finally show ?thesis by (simp add: calculate_total_sizes_def arena_total_align)
qed

lemma placed_slot:
  assumes "placed es S p" "i \<in> S"
  obtains at where "assigned_offsets p ! i = Some at" "unat (me_alignment (es ! i)) dvd unat at"
    and "unat at + unat (me_size (es ! i)) \<le> reserve es S"
proof -
  have "i < length es" using assms by (auto simp: placed_def)
  then have "unat (arena_at es i p) \<le> reserve es S" using assms(1) unfolding placed_def by blast
  moreover obtain at where "assigned_offsets p ! i = Some at \<and> unat (me_alignment (es ! i)) dvd unat at \<and>
      unat at + unat (me_size (es ! i)) \<le> unat (arena_at es i p)"
    using assms unfolding placed_def by blast
  ultimately show ?thesis using that [of at] by (meson order_trans)
qed

lemma placed_apart:
  assumes "placed es S p" "i \<in> S" "j \<in> S" "i \<noteq> j" "same_arena es i j"
  shows "apart (unat (the (assigned_offsets p ! i))) (unat (me_size (es ! i)))
    (unat (the (assigned_offsets p ! j))) (unat (me_size (es ! j)))"
  using assms unfolding placed_def by blast

lemma those_map_Some: "list_all (\<lambda>x. f x \<noteq> None) xs \<Longrightarrow> those (map f xs) = Some (map (the \<circ> f) xs)"
  by (induction xs) auto

text \<open>C23. The placement of the buffers: for requests of supported alignments that together fit the
  address space, every buffer gets its size in its arena at an offset of its alignment, no two
  buffers of an arena overlap, and every buffer ends within the array the arena is given.\<close>

theorem buffers_disjoint:
  assumes al: "list_all (\<lambda>e. is_supported_mpu_alignment (me_alignment e)) es"
    and room: "reserve es {0 ..< length es} + 31 < 2 ^ 32"
  shows "\<exists>cs. build_buffers es = Some cs \<and> length cs = length es \<and>
    (\<forall>i < length es. mc_size (cs ! i) = me_size (es ! i) \<and> mc_domain (cs ! i) = me_domain (es ! i) \<and>
       mc_type (cs ! i) = me_type (es ! i) \<and> unat (me_alignment (es ! i)) dvd unat (mc_offset (cs ! i)) \<and>
       unat (mc_offset (cs ! i)) + unat (mc_size (cs ! i)) \<le>
         unat (arena_total (mc_domain (cs ! i)) (mc_type (cs ! i)) (calculate_total_sizes cs))) \<and>
    (\<forall>i < length es. \<forall>j < length es. i \<noteq> j \<longrightarrow> same_arena es i j \<longrightarrow>
       apart (unat (mc_offset (cs ! i))) (unat (mc_size (cs ! i)))
         (unat (mc_offset (cs ! j))) (unat (mc_size (cs ! j))))"
proof -
  let ?n = "length es" and ?p = "place_all es"
  have pl: "placed es {0 ..< ?n} ?p" by (rule placed_all [OF al]) (use room in simp)
  then have len: "length (assigned_offsets ?p) = ?n" by (simp add: placed_def)
  define cs where "cs = map (the \<circ> (\<lambda>(e, at). make_config e at)) (zip es (assigned_offsets ?p))"
  have at: "assigned_offsets ?p ! i \<noteq> None" if "i < ?n" for i
    using placed_slot [OF pl, of i] that by auto
  have slot: "unat (me_alignment (es ! i)) dvd unat (the (assigned_offsets ?p ! i)) \<and>
      unat (the (assigned_offsets ?p ! i)) + unat (me_size (es ! i)) \<le> reserve es {0 ..< ?n}" if "i < ?n" for i
    by (rule placed_slot [OF pl, of i]) (use that in simp_all)
  from at have "build_buffers es = Some cs"
    unfolding build_buffers_def cs_def
    by (intro those_map_Some) (simp add: list_all_length len make_config_def)
  moreover have cs_len: "length cs = ?n" using len by (simp add: cs_def)
  moreover have cs: "mc_size (cs ! i) = me_size (es ! i)" "mc_domain (cs ! i) = me_domain (es ! i)"
      "mc_type (cs ! i) = me_type (es ! i)" "mc_offset (cs ! i) = the (assigned_offsets ?p ! i)" if "i < ?n" for i
    using at [OF that] that len by (auto simp: cs_def make_config_def)
  moreover have al_i: "unat (me_alignment (es ! i)) dvd unat (mc_offset (cs ! i))"
    and fits: "unat (mc_offset (cs ! i)) + unat (mc_size (cs ! i)) \<le> reserve es {0 ..< ?n}" if "i < ?n" for i
    using slot [OF that] cs [OF that] by simp_all
  moreover have "unat (mc_offset (cs ! i)) + unat (mc_size (cs ! i)) \<le>
      unat (arena_total (mc_domain (cs ! i)) (mc_type (cs ! i)) (calculate_total_sizes cs))" if "i < ?n" for i
  proof (rule total_covers)
    show "cs ! i \<in> set cs" using that cs_len by simp
    show "\<forall>c \<in> set cs. unat (mc_offset c) + unat (mc_size c) + 31 < 2 ^ 32"
    proof
      fix c assume "c \<in> set cs"
      then obtain j where "j < ?n" "c = cs ! j" using cs_len by (auto simp: in_set_conv_nth)
      then show "unat (mc_offset c) + unat (mc_size c) + 31 < 2 ^ 32" using fits [of j] room by simp
    qed
  qed
  moreover have "apart (unat (mc_offset (cs ! i))) (unat (mc_size (cs ! i)))
      (unat (mc_offset (cs ! j))) (unat (mc_size (cs ! j)))"
    if "i < ?n" "j < ?n" "i \<noteq> j" "same_arena es i j" for i j
    using placed_apart [OF pl, of i j] that cs [OF that(1)] cs [OF that(2)] by simp
  ultimately show ?thesis by blast
qed

section \<open>The regions\<close>

declare bit_width.simps [simp del]

lemma bit_width_bounds:
  "0 < n \<Longrightarrow> 0 < bit_width n \<and> 2 ^ (bit_width n - 1) \<le> n \<and> n < 2 ^ bit_width n"
proof (induction n rule: bit_width.induct)
  case (1 n)
  show ?case
  proof (cases "n div 2 = 0")
    case True
    then have "n = 1" using "1.prems" by simp
    then show ?thesis by (simp add: bit_width.simps)
  next
    case False
    then have ih: "0 < bit_width (n div 2)" "2 ^ (bit_width (n div 2) - 1) \<le> n div 2" "n div 2 < 2 ^ bit_width (n div 2)"
      using 1 by simp_all
    have w: "bit_width n = Suc (bit_width (n div 2))" using "1.prems" by (subst bit_width.simps) simp
    have "(2::nat) ^ bit_width (n div 2) = 2 * 2 ^ (bit_width (n div 2) - 1)"
      using ih(1) by (metis power_eq_if less_numeral_extra(3))
    moreover have "n = 2 * (n div 2) + n mod 2" "n mod 2 < 2" by simp_all
    ultimately have "2 ^ bit_width (n div 2) \<le> n" "n < 2 * 2 ^ bit_width (n div 2)"
      using ih(2,3) by linarith+
    then show ?thesis using w by simp
  qed
qed

text \<open>The exponent of a region: the least power of two, of 32 bytes at least, that holds it.\<close>

lemma region_exponent_spec:
  assumes "0 < unat bytes" "unat bytes \<le> 2 ^ 30"
  defines "k \<equiv> unat (region_exponent bytes)"
  shows "4 \<le> k" "k \<le> 29" "unat bytes \<le> 2 ^ (k + 1)" "k = 4 \<or> 2 ^ k < unat bytes"
proof -
  have "4 \<le> k \<and> k \<le> 29 \<and> unat bytes \<le> 2 ^ (k + 1) \<and> (k = 4 \<or> 2 ^ k < unat bytes)"
  proof (cases "bytes > 32")
    case False
    then show ?thesis by (simp add: k_def region_exponent_def word_less_nat_alt)
  next
    case True
    then have big: "32 < unat bytes" by (simp add: word_less_nat_alt)
    let ?m = "unat bytes - 1" and ?w = "bit_width (unat bytes - 1)"
    have m: "unat (bytes - 1) = ?m" using big by (simp add: unat_sub_if')
    note w = bit_width_bounds [of ?m]
    have b: "2 ^ (?w - 1) \<le> ?m" "?m < 2 ^ ?w" "0 < ?w" using w big by auto
    have "5 < ?w"
    proof (rule ccontr)
      assume "\<not> 5 < ?w"
      then have "(2::nat) ^ ?w \<le> 2 ^ 5" by (intro power_increasing) auto
      then show False using b(2) big by simp
    qed
    moreover have "?w \<le> 30"
    proof (rule ccontr)
      assume "\<not> ?w \<le> 30"
      then have "(2::nat) ^ 30 \<le> 2 ^ (?w - 1)" by (intro power_increasing) auto
      then show False using b(1) assms(2) big by simp
    qed
    ultimately obtain v where v: "?w = Suc v" "5 \<le> v" "v \<le> 29" by (cases ?w) auto
    have "region_exponent bytes = of_nat 31 - of_nat (32 - ?w)"
      using True m by (simp add: region_exponent_def clz32_def)
    also have "\<dots> = of_nat (31 - (32 - ?w))" using v by (subst of_nat_diff) auto
    also have "31 - (32 - ?w) = v" using v by simp
    finally have "k = v" using v by (simp add: k_def unsigned_of_nat take_bit_nat_eq_self)
    moreover have "2 ^ v < unat bytes" "unat bytes \<le> 2 ^ (v + 1)" using b(1,2) v(1) big by simp_all
    ultimately show ?thesis using v by simp
  qed
  then show "4 \<le> k" "k \<le> 29" "unat bytes \<le> 2 ^ (k + 1)" "k = 4 \<or> 2 ^ k < unat bytes" by auto
qed

lemma subregion_size_spec:
  assumes "4 \<le> unat k" "unat k \<le> 29"
  shows "unat (subregion_size k) = 2 ^ (unat k - 2)"
proof -
  define j where "j = unat k - 2"
  have j: "unat k + 1 = j + 3" "j \<le> 27" using assms by (simp_all add: j_def)
  have p: "(0::int) \<le> 2 ^ (j + 3)" "(2::int) ^ (j + 3) \<le> 2 ^ 30"
    using j(2) by (simp, intro power_increasing) auto
  have "(push_bit (j + 3) 1 :: u32) = word_of_int (2 ^ (j + 3))" by (simp add: push_bit_eq_mult)
  then have "sint (push_bit (j + 3) 1 :: u32) = signed_take_bit 31 (2 ^ (j + 3))"
    by (simp only: signed_of_int) simp
  also have "\<dots> = 2 ^ (j + 3)"
  proof (rule signed_take_bit_int_eq_self)
    show "- (2 ^ 31) \<le> (2 :: int) ^ (j + 3)" by (rule order_trans [OF _ p(1)]) simp
    show "(2 :: int) ^ (j + 3) < 2 ^ 31" by (rule order_le_less_trans [OF p(2)]) simp
  qed
  finally have "subregion_size k = word_of_int (2 ^ (j + 3) div 8)"
    unfolding subregion_size_def j(1) by simp
  also have "(2::int) ^ (j + 3) div 8 = 2 ^ j" by (simp add: power_add)
  finally have "subregion_size k = of_nat (2 ^ j)" by simp
  moreover have "(2::nat) ^ j < 2 ^ 32" using j(2) by (intro power_strict_increasing) auto
  ultimately show ?thesis using unat_of_nat32 [of "2 ^ j"] by (simp add: j_def)
qed

lemma needed_subregions_spec:
  assumes "0 < unat sub" "unat bytes + unat sub < 2 ^ 32" "unat bytes \<le> 8 * unat sub"
  shows "unat (needed_subregions bytes sub) = (unat bytes + unat sub - 1) div unat sub"
    and "unat (needed_subregions bytes sub) \<le> 8"
proof -
  have "bytes + sub - 1 = of_nat (unat bytes + unat sub - 1)"
    using assms(1) by (simp add: of_nat_diff)
  then have n: "unat (bytes + sub - 1) = unat bytes + unat sub - 1"
    using assms(2) unat_of_nat32 [of "unat bytes + unat sub - 1"] by simp
  have "(unat bytes + unat sub - 1) div unat sub < 9"
    using assms(1,3) by (simp add: div_less_iff_less_mult)
  then show "unat (needed_subregions bytes sub) = (unat bytes + unat sub - 1) div unat sub"
    and "unat (needed_subregions bytes sub) \<le> 8"
    by (simp_all add: needed_subregions_def unsigned_ucast_eq unat_div n take_bit_nat_eq_self)
qed

lemma subregion_disable_bit:
  assumes "i < 8" shows "bit (subregion_disable needed) i \<longleftrightarrow> unat needed \<le> i"
proof -
  have m: "(0xFF :: u32) = mask 8" by (simp add: mask_eq_exp_minus_1)
  show ?thesis using assms
    unfolding subregion_disable_def m by (auto simp: bit_simps)
qed

text \<open>A region covers what it is asked to cover and no subregion more: for a size of up to 2^30
  bytes the region has a power of two of bytes, the least from 32 on that holds the size, and a
  byte of it is enabled exactly if its eighth of the region begins below the size.\<close>

theorem region_covers:
  assumes "0 < unat bytes" "unat bytes \<le> 2 ^ 30"
  shows "\<exists>r. configure_region base bytes n tex acc ex sh ca bu = [r] \<and> rgn_base r = base \<and> rgn_number r = n \<and>
    rgn_access r = acc \<and> unat bytes \<le> 2 ^ (unat (rgn_size r) + 1) \<and>
    (rgn_size r = 4 \<or> 2 ^ unat (rgn_size r) < unat bytes) \<and>
    (\<forall>x < 2 ^ (unat (rgn_size r) + 1).
       let eighth = 2 ^ (unat (rgn_size r) - 2) in
       \<not> bit (rgn_subregion_disable r) (x div eighth) \<longleftrightarrow> x div eighth * eighth < unat bytes)"
proof -
  let ?k = "region_exponent bytes" and ?K = "unat (region_exponent bytes)"
  let ?sub = "subregion_size ?k" and ?s = "2 ^ (?K - 2) :: nat"
  let ?needed = "needed_subregions bytes ?sub"
  note k = region_exponent_spec [OF assms]
  have s: "unat ?sub = ?s" by (rule subregion_size_spec [OF k(1,2)])
  have eight: "(2::nat) ^ (?K + 1) = 8 * ?s"
  proof -
    have "?K + 1 = (?K - 2) + 3" using k(1) by simp
    then show ?thesis by (simp only: power_add) simp
  qed
  have "?s \<le> 2 ^ 27" using k(2) by (intro power_increasing) auto
  then have needed: "unat ?needed = (unat bytes + ?s - 1) div ?s"
    using needed_subregions_spec(1) [of ?sub bytes] s assms(2) k(3) eight by simp
  have bit: "\<not> bit (subregion_disable ?needed) (x div ?s) \<longleftrightarrow> x div ?s * ?s < unat bytes" if "x < 2 ^ (?K + 1)" for x
  proof -
    have "x div ?s < 8" using that eight by (simp add: less_mult_imp_div_less)
    then have "\<not> bit (subregion_disable ?needed) (x div ?s) \<longleftrightarrow> x div ?s < (unat bytes + ?s - 1) div ?s"
      by (simp add: subregion_disable_bit needed not_le)
    also have "\<dots> \<longleftrightarrow> (x div ?s + 1) * ?s \<le> unat bytes + ?s - 1"
      by (simp add: Suc_le_eq [symmetric] less_eq_div_iff_mult_less_eq)
    also have "\<dots> \<longleftrightarrow> x div ?s * ?s < unat bytes"
      using assms(1) by (simp add: algebra_simps) linarith
    finally show ?thesis .
  qed
  have "bytes \<noteq> 0" using assms(1) by auto
  moreover have "?k = 4 \<or> 2 ^ ?K < unat bytes"
  proof -
    have "?K = 4 \<Longrightarrow> ?k = 4" by (rule unsigned_word_eqI [where 'a = nat]) simp
    then show ?thesis using k(4) by blast
  qed
  ultimately show ?thesis
    using k(3) bit by (simp add: configure_region_def Let_def)
qed

section \<open>The legacy pool in use\<close>

text \<open>Requests that do not wrap the counter get consecutive blocks of the pool while they fit; from
  the first that does not, all fail, whether they would fit or not.\<close>

lemma allocate_each_blocks:
  assumes "unat (no_cached_ram_occupied_bytes m) + (\<Sum>n\<leftarrow>ns. unat n) < 2 ^ 32" "i < length ns"
  defines "before \<equiv> unat (no_cached_ram_occupied_bytes m) + (\<Sum>n\<leftarrow>take i ns. unat n)"
  shows "allocate_each ns m ! i =
    (if before + unat (ns ! i) \<le> 2048 then Inr (no_cached_ram_start m + of_nat before)
     else Inl (of_nat (before + unat (ns ! i) - 2048)))"
  unfolding before_def using assms(1,2)
proof (induction ns arbitrary: m i)
  case (Cons n ns)
  let ?m = "m\<lparr>no_cached_ram_occupied_bytes := no_cached_ram_occupied_bytes m + n\<rparr>"
  have step: "allocate_each (n # ns) m = fst (allocate_non_cached_memory n m) # allocate_each ns ?m"
    by (auto simp: allocate_non_cached_memory_def Let_def)
  have sum: "unat (no_cached_ram_occupied_bytes m + n) = unat (no_cached_ram_occupied_bytes m) + unat n"
    using Cons.prems(1) by (simp add: unat_word_ariths)
  show ?case
  proof (cases i)
    case 0
    have "no_cached_ram_occupied_bytes m + n - 2048 = of_nat (unat (no_cached_ram_occupied_bytes m) + unat n - 2048)"
      if "2048 < unat (no_cached_ram_occupied_bytes m) + unat n"
      using that by (simp add: of_nat_diff)
    then show ?thesis
      using 0 step sum
      by (auto simp: allocate_non_cached_memory_def Let_def NO_CACHED_RAM_MAXIMUM_SPACE_def word_less_nat_alt)
  next
    case (Suc j)
    then show ?thesis
      using Cons.IH [of ?m j] Cons.prems step sum by (simp add: add.assoc)
  qed
qed simp

section \<open>Instances\<close>

definition demo_entries :: "mpu_entry list" where
  "demo_entries =
     [\<lparr>me_domain = D1, me_type = NonCached, me_alignment = 4, me_size = 6\<rparr>,
      \<lparr>me_domain = D1, me_type = NonCached, me_alignment = 8, me_size = 8\<rparr>]"

lemma buffers_disjoint_witness:
  "\<exists>cs. build_buffers demo_entries = Some cs \<and>
     apart (unat (mc_offset (cs ! 0))) 6 (unat (mc_offset (cs ! 1))) 8"
proof -
  have al: "list_all (\<lambda>e. is_supported_mpu_alignment (me_alignment e)) demo_entries"
    by (simp add: demo_entries_def supported_alignment mpu_supported_alignments_def)
  have "reserve demo_entries {0 ..< length demo_entries} + 31 < 2 ^ 32"
    by (simp add: demo_entries_def reserve_def)
  from buffers_disjoint [OF al this] show ?thesis
    by (force simp: demo_entries_def same_arena_def)
qed

lemma region_covers_witness:
  "\<exists>r. configure_region 0x20000000 96 2 1 MPU_REGION_FULL_ACCESS False True True True = [r] \<and>
     96 \<le> (2::nat) ^ (unat (rgn_size r) + 1)"
  using region_covers [of 96 "0x20000000" 2 1 MPU_REGION_FULL_ACCESS False True True True] by auto

end
