(* ===== verification/Mdma.thy ===== *)
theory Mdma
  imports Containers
begin

unbundle bit_operations_syntax

text \<open>
  The memory-to-memory transfers of \<open>MDMA.cpp\<close> and \<open>MDMA.hpp\<close> (\<open>HALAL/Models/MDMA\<close>): nodes that
  describe a transfer, eight channels, and the stack of transfers that wait for one.

  The STM32 HAL and the CMSIS register layout are not part of the repository. Their functions are
  the record \<open>mdma_hal\<close> on a world \<open>'w\<close>, their register fields the record \<open>mdma_fields\<close>. An object of
  \<open>LinkedListNode\<close> and a flag \<open>done\<close> are named by numbers. The node configurations of the code differ
  in the fields of \<open>node_conf\<close>; the fields it sets to the same constant everywhere (bursts, trigger
  mode, endianness, request, block count, block offsets) are not modelled. \<open>None\<close> is the use of a
  channel that was never inscribed. \<open>md_accepted\<close> and \<open>md_started\<close> are ghosts: the waiting transfers
  that were accepted and those that were started, in order.
\<close>

section \<open>Nodes\<close>

datatype data_size = SIZE_BYTE | SIZE_HALFWORD | SIZE_WORD | SIZE_DOUBLEWORD

datatype data_align = ALIGN_RIGHT | ALIGN_PACK

record node_conf =
  nc_align :: data_align
  nc_very_high :: bool
  nc_ssize :: data_size
  nc_dsize :: data_size
  nc_sinc :: data_size
  nc_dinc :: data_size
  nc_buffer :: u32
  nc_src :: u32
  nc_dst :: u32
  nc_length :: u32

record mdma_node =
  CTCR :: u32
  CBNDTR :: u32
  CSAR :: u32
  CDAR :: u32
  CBRUR :: u32
  CLAR :: u32
  CTBR :: u32
  CMAR :: u32
  CMDR :: u32

definition zero_node :: mdma_node where
  "zero_node = \<lparr>CTCR = 0, CBNDTR = 0, CSAR = 0, CDAR = 0, CBRUR = 0, CLAR = 0, CTBR = 0, CMAR = 0, CMDR = 0\<rparr>"

text \<open>The fields of the registers. \<open>mf_increments\<close> is the union of the masks that \<open>reconfigure_ctcr\<close>
  clears; the other four are the values of the constants for a size.\<close>

record mdma_fields =
  mf_base :: u32
  mf_sbus :: u32
  mf_dbus :: u32
  mf_increments :: u32
  mf_sinc :: "data_size \<Rightarrow> u32"
  mf_dinc :: "data_size \<Rightarrow> u32"
  mf_ssize :: "data_size \<Rightarrow> u32"
  mf_dsize :: "data_size \<Rightarrow> u32"
  mf_tlen :: nat

text \<open>A node object: its registers and \<open>transfer_size\<close>.\<close>

record list_node =
  ln_node :: mdma_node
  ln_size :: u32

definition is_tcm :: "u32 \<Rightarrow> bool" where
  "is_tcm addr \<longleftrightarrow> addr < 0x00010000 \<or> (addr \<ge> 0x20000000 \<and> addr < 0x20020000)"

definition compute_elem_size :: "u32 \<Rightarrow> u32 \<Rightarrow> u32 \<Rightarrow> u32" where
  "compute_elem_size src dst k =
     (let max_elem = (if is_tcm src \<or> is_tcm dst then 4 else 8);
          size_gran = k AND - k;
          addr_or = src OR dst;
          addr_gran = (if addr_or \<noteq> 0 then addr_or AND - addr_or else max_elem)
      in min (min size_gran addr_gran) max_elem)"

definition data_size_of :: "u32 \<Rightarrow> data_size" where
  "data_size_of e = (if e = 2 then SIZE_HALFWORD else if e = 4 then SIZE_WORD
                     else if e = 8 then SIZE_DOUBLEWORD else SIZE_BYTE)"

definition buffer_length :: "u32 \<Rightarrow> u32 \<Rightarrow> u32" where
  "buffer_length e k = (let len = (min k 128 div e) * e in if len = 0 then e else len)"

definition modify_reg :: "u32 \<Rightarrow> u32 \<Rightarrow> u32 \<Rightarrow> u32" where
  "modify_reg reg clear val = (reg AND NOT clear) OR val"

definition reconfigure_ctcr :: "mdma_fields \<Rightarrow> list_node \<Rightarrow> list_node" where
  "reconfigure_ctcr fs ln =
     (let n = ln_node ln; k = ln_size ln in
      if k = 0 then ln
      else
        (let e = compute_elem_size (CSAR n) (CDAR n) k; z = data_size_of e; len = buffer_length e k in
         ln\<lparr>ln_node := n\<lparr>CTCR := modify_reg (CTCR n) (mf_increments fs)
           (mf_sinc fs z OR mf_dinc fs z OR mf_ssize fs z OR mf_dsize fs z OR push_bit (mf_tlen fs) (len - 1))\<rparr>\<rparr>))"

definition set_source :: "mdma_fields \<Rightarrow> u32 \<Rightarrow> list_node \<Rightarrow> list_node" where
  "set_source fs addr ln =
     (let n = (ln_node ln)\<lparr>CSAR := addr\<rparr>;
          n = (if is_tcm addr then n\<lparr>CTBR := CTBR n OR mf_sbus fs\<rparr> else n\<lparr>CTBR := CTBR n AND NOT (mf_sbus fs)\<rparr>)
      in reconfigure_ctcr fs (ln\<lparr>ln_node := n\<rparr>))"

definition set_destination :: "mdma_fields \<Rightarrow> u32 \<Rightarrow> list_node \<Rightarrow> list_node" where
  "set_destination fs addr ln =
     (let n = (ln_node ln)\<lparr>CDAR := addr\<rparr>;
          n = (if is_tcm addr then n\<lparr>CTBR := CTBR n OR mf_dbus fs\<rparr> else n\<lparr>CTBR := CTBR n AND NOT (mf_dbus fs)\<rparr>)
      in reconfigure_ctcr fs (ln\<lparr>ln_node := n\<rparr>))"

definition set_next :: "u32 \<Rightarrow> list_node \<Rightarrow> list_node" where
  "set_next addr ln = ln\<lparr>ln_node := (ln_node ln)\<lparr>CLAR := addr\<rparr>\<rparr>"

text \<open>\<open>create\<close> is \<open>HAL_MDMA_LinkedList_CreateNode\<close>: whether it succeeded, and the node it wrote.\<close>

definition init_conf :: "u32 \<Rightarrow> u32 \<Rightarrow> u32 \<Rightarrow> node_conf" where
  "init_conf src dst k =
     (let e = compute_elem_size src dst k; z = data_size_of e in
      \<lparr>nc_align = ALIGN_RIGHT, nc_very_high = True, nc_ssize = z, nc_dsize = z, nc_sinc = z, nc_dinc = z,
       nc_buffer = buffer_length e k, nc_src = src, nc_dst = dst, nc_length = k\<rparr>)"

text \<open>The constructor; \<open>ln\<close> is what the object's memory held. It also returns the panics.\<close>

definition init_node ::
  "mdma_fields \<Rightarrow> (node_conf \<Rightarrow> mdma_node \<Rightarrow> bool \<times> mdma_node) \<Rightarrow> u32 \<Rightarrow> u32 \<Rightarrow> u32 \<Rightarrow> mdma_node \<Rightarrow>
     list_node \<times> string list" where
  "init_node fs create src dst k garbage =
     (if k = 0 then (\<lparr>ln_node = garbage, ln_size = 0\<rparr>, [''MDMA: zero-length transfer is invalid''])
      else
        (let (ok, n) = create (init_conf src dst k) zero_node;
             n = (if is_tcm src then n\<lparr>CTBR := CTBR n OR mf_sbus fs\<rparr> else n);
             n = (if is_tcm dst then n\<lparr>CTBR := CTBR n OR mf_dbus fs\<rparr> else n)
         in (\<lparr>ln_node = n, ln_size = k\<rparr>, if ok then [] else [''Error creating linked list in MDMA''])))"

section \<open>Channels\<close>

datatype hal_state = HAL_RESET | HAL_READY | HAL_BUSY | HAL_FAILED

datatype node_ref = Internal nat | External nat

record minstance =
  mi_channel :: "u32 option"
  mi_state :: hal_state
  mi_first :: "node_ref option"
  mi_id :: u8
  mi_done :: "nat option"
  mi_node :: "nat option"

definition empty_instance :: minstance where
  "empty_instance = \<lparr>mi_channel = None, mi_state = HAL_RESET, mi_first = None, mi_id = 0, mi_done = None, mi_node = None\<rparr>"

datatype mdma_irq = No_irq | Completed | Failed

datatype mdma_call = Clock_enable | Clear_flags u32 | Enable_irqs u32 | Enable_channel u32 | Register_callbacks u32 | Nvic

record 'w mdma_hal =
  mh_create :: "node_conf \<Rightarrow> mdma_node \<Rightarrow> bool \<times> mdma_node"
  mh_init :: "u32 \<Rightarrow> 'w \<Rightarrow> (bool \<times> hal_state) \<times> 'w"
  mh_request :: "u32 \<Rightarrow> 'w \<Rightarrow> bool \<times> 'w"
  mh_irq :: "u32 \<Rightarrow> hal_state \<Rightarrow> 'w \<Rightarrow> (mdma_irq \<times> hal_state) \<times> 'w"
  mh_do :: "mdma_call \<Rightarrow> 'w \<Rightarrow> 'w"

type_synonym transfer = "nat \<times> nat option"

record 'w mdma =
  md_world :: 'w
  md_instances :: "minstance list"
  md_free :: "bool list"
  md_queue :: "transfer stack"
  md_internal :: "mdma_node list"
  md_nodes :: "nat \<Rightarrow> list_node"
  md_channels :: "u32 \<Rightarrow> mdma_node"
  md_flags :: "nat \<Rightarrow> bool"
  md_panics :: "string list"
  md_accepted :: "transfer list"
  md_started :: "transfer list"

definition MDMA_CHANNELS :: nat where
  "MDMA_CHANNELS = 8"

definition TRANSFER_QUEUE_MAX_SIZE :: nat where
  "TRANSFER_QUEUE_MAX_SIZE = 50"

definition new_mdma :: "'w \<Rightarrow> mdma_node list \<Rightarrow> (nat \<Rightarrow> list_node) \<Rightarrow> (u32 \<Rightarrow> mdma_node) \<Rightarrow> (nat \<Rightarrow> bool) \<Rightarrow> 'w mdma" where
  "new_mdma w internals nodes chans flags =
     \<lparr>md_world = w, md_instances = replicate MDMA_CHANNELS empty_instance, md_free = replicate MDMA_CHANNELS False,
      md_queue = stk_init 50 (0, None), md_internal = internals, md_nodes = nodes, md_channels = chans,
      md_flags = flags, md_panics = [], md_accepted = [], md_started = []\<rparr>"

definition mpanic :: "string \<Rightarrow> 'w mdma \<Rightarrow> 'w mdma" where
  "mpanic msg m = m\<lparr>md_panics := md_panics m @ [msg]\<rparr>"

definition mdo :: "'w mdma_hal \<Rightarrow> mdma_call list \<Rightarrow> 'w mdma \<Rightarrow> 'w mdma" where
  "mdo hal cs m = m\<lparr>md_world := fold (mh_do hal) cs (md_world m)\<rparr>"

definition on_instance :: "nat \<Rightarrow> (minstance \<Rightarrow> minstance) \<Rightarrow> 'w mdma \<Rightarrow> 'w mdma" where
  "on_instance i f m = m\<lparr>md_instances := (md_instances m)[i := f (md_instances m ! i)]\<rparr>"

definition set_done :: "nat option \<Rightarrow> bool \<Rightarrow> 'w mdma \<Rightarrow> 'w mdma" where
  "set_done d b m = (case d of None \<Rightarrow> m | Some a \<Rightarrow> m\<lparr>md_flags := (md_flags m)(a := b)\<rparr>)"

definition get_channel :: "mdma_fields \<Rightarrow> u8 \<Rightarrow> u32 option" where
  "get_channel fs i = (if i > 15 then None else Some (mf_base fs + 0x40 + ucast i * 0x40))"

definition get_instance_id :: "mdma_fields \<Rightarrow> u32 \<Rightarrow> u8" where
  "get_instance_id fs channel = ucast ((channel - (mf_base fs + 0x40)) div 0x40)"

definition read_node :: "node_ref \<Rightarrow> 'w mdma \<Rightarrow> mdma_node" where
  "read_node r m = (case r of Internal k \<Rightarrow> md_internal m ! k | External a \<Rightarrow> ln_node (md_nodes m a))"

definition prepare_transfer :: "'w mdma_hal \<Rightarrow> nat \<Rightarrow> node_ref \<Rightarrow> 'w mdma \<Rightarrow> 'w mdma option" where
  "prepare_transfer hal i first m =
     (let inst = md_instances m ! i in
      if mi_state inst = HAL_BUSY then Some (mpanic ''MDMA transfer already in progress'' m)
      else
        (case mi_channel inst of
           None \<Rightarrow> None
         | Some c \<Rightarrow>
             (let m = m\<lparr>md_free := (md_free m)[unat (mi_id inst) := False]\<rparr>;
                  m = on_instance i (\<lambda>x. x\<lparr>mi_state := HAL_BUSY, mi_first := Some first\<rparr>) m;
                  m = m\<lparr>md_channels := (md_channels m)(c := read_node first m)\<rparr>;
                  m = mdo hal [Clear_flags c, Enable_irqs c, Enable_channel c] m;
                  (ok, w) = mh_request hal c (md_world m);
                  m = m\<lparr>md_world := w\<rparr>
              in Some (if ok then m
                       else mpanic ''Error generating MDMA SW request'' (on_instance i (\<lambda>x. x\<lparr>mi_state := HAL_BUSY\<rparr>) m)))))"

definition inscribe_conf :: node_conf where
  "inscribe_conf =
     \<lparr>nc_align = ALIGN_PACK, nc_very_high = False, nc_ssize = SIZE_BYTE, nc_dsize = SIZE_BYTE,
      nc_sinc = SIZE_BYTE, nc_dinc = SIZE_BYTE, nc_buffer = 1, nc_src = 0, nc_dst = 0, nc_length = 1\<rparr>"

definition inscribe :: "mdma_fields \<Rightarrow> 'w mdma_hal \<Rightarrow> nat \<Rightarrow> 'w mdma \<Rightarrow> 'w mdma" where
  "inscribe fs hal i m =
     (case get_channel fs (of_nat i) of
        None \<Rightarrow> mpanic ''MDMA channel mapping not found'' m
      | Some c \<Rightarrow>
          (let (ok, n) = mh_create hal inscribe_conf (md_internal m ! i);
               m = m\<lparr>md_internal := (md_internal m)[i := n]\<rparr>;
               m = (if ok then m else mpanic ''Error creating linked list in MDMA'' m);
               m = m\<lparr>md_free := (md_free m)[i := True]\<rparr>
           in on_instance i (\<lambda>_. \<lparr>mi_channel = Some c, mi_state = HAL_RESET, mi_first = None,
                                  mi_id = of_nat i, mi_done = None, mi_node = Some i\<rparr>) m))"

text \<open>The body of the loop of \<open>start\<close>. A channel that is still null goes to \<open>HAL_MDMA_Init\<close>; the
  HAL then returns an error, and the model leaves the state to it as the address zero.\<close>

definition start_one :: "mdma_fields \<Rightarrow> 'w mdma_hal \<Rightarrow> nat \<Rightarrow> 'w mdma \<Rightarrow> 'w mdma" where
  "start_one fs hal i m =
     (let m = inscribe fs hal i m;
          c = (case mi_channel (md_instances m ! i) of None \<Rightarrow> 0 | Some c \<Rightarrow> c);
          m = (if mi_channel (md_instances m ! i) = None then mpanic ''MDMA instance not initialised'' m else m);
          ((ok, st), w) = mh_init hal c (md_world m);
          m = on_instance i (\<lambda>x. x\<lparr>mi_state := st\<rparr>) (m\<lparr>md_world := w\<rparr>);
          m = (if ok then m else mpanic ''Error initialising MDMA instance'' m)
      in mdo hal [Register_callbacks c, Enable_irqs c] m)"

definition mdma_start :: "mdma_fields \<Rightarrow> 'w mdma_hal \<Rightarrow> 'w mdma \<Rightarrow> 'w mdma" where
  "mdma_start fs hal m = mdo hal [Nvic] (fold (start_one fs hal) [0 ..< MDMA_CHANNELS] (mdo hal [Clock_enable] m))"

text \<open>The loop of \<open>update\<close>: each free channel takes the transfer on top of the stack.\<close>

fun update_from :: "'w mdma_hal \<Rightarrow> nat list \<Rightarrow> 'w mdma \<Rightarrow> 'w mdma option" where
  "update_from hal [] m = Some m"
| "update_from hal (i # js) m =
     (if stk_empty (md_queue m) then Some m
      else if md_free m ! i then
        (let t = stk_peek (0, None) (md_queue m) in
         case prepare_transfer hal i (External (fst t)) (on_instance i (\<lambda>x. x\<lparr>mi_done := snd t\<rparr>) m) of
           None \<Rightarrow> None
         | Some m \<Rightarrow>
             update_from hal js (m\<lparr>md_queue := snd (stk_pop (md_queue m)), md_started := md_started m @ [t]\<rparr>))
      else update_from hal js m)"

definition mdma_update :: "'w mdma_hal \<Rightarrow> 'w mdma \<Rightarrow> 'w mdma option" where
  "mdma_update hal m = update_from hal [0 ..< MDMA_CHANNELS] m"

definition transfer_list :: "nat \<Rightarrow> nat option \<Rightarrow> 'w mdma \<Rightarrow> 'w mdma" where
  "transfer_list node d m =
     (if stk_size (md_queue m) \<ge> TRANSFER_QUEUE_MAX_SIZE then mpanic ''MDMA transfer queue full'' m
      else m\<lparr>md_queue := snd (stk_push (node, d) (md_queue m)), md_accepted := md_accepted m @ [(node, d)]\<rparr>)"

fun transfer_from :: "'w mdma_hal \<Rightarrow> u32 \<Rightarrow> u32 \<Rightarrow> u32 \<Rightarrow> nat option \<Rightarrow> nat list \<Rightarrow> 'w mdma \<Rightarrow> 'w mdma option" where
  "transfer_from hal src dst len d [] m = Some m"
| "transfer_from hal src dst len d (i # js) m =
     (if md_free m ! i then
        (case mi_node (md_instances m ! i) of
           None \<Rightarrow> None
         | Some k \<Rightarrow>
             (let m = on_instance i (\<lambda>x. x\<lparr>mi_done := d\<rparr>) m;
                  m = m\<lparr>md_internal := (md_internal m)[k := (md_internal m ! k)\<lparr>CSAR := src, CBNDTR := len, CDAR := dst\<rparr>]\<rparr>
              in prepare_transfer hal i (Internal k) m))
      else transfer_from hal src dst len d js (set_done d False m))"

definition transfer_data :: "'w mdma_hal \<Rightarrow> u32 \<Rightarrow> u32 \<Rightarrow> u32 \<Rightarrow> nat option \<Rightarrow> 'w mdma \<Rightarrow> 'w mdma option" where
  "transfer_data hal src dst len d m = transfer_from hal src dst len d [0 ..< MDMA_CHANNELS] m"

definition transfer_complete :: "mdma_fields \<Rightarrow> u32 \<Rightarrow> 'w mdma \<Rightarrow> 'w mdma" where
  "transfer_complete fs channel m =
     (let i = unat (get_instance_id fs channel) in
      if i \<ge> MDMA_CHANNELS then mpanic ''MDMA channel not registered'' m
      else
        (let m = on_instance i (\<lambda>x. x\<lparr>mi_state := HAL_READY\<rparr>) m;
             m = m\<lparr>md_free := (md_free m)[unat (mi_id (md_instances m ! i)) := True]\<rparr>
         in set_done (mi_done (md_instances m ! i)) True m))"

definition transfer_error :: "mdma_fields \<Rightarrow> u32 \<Rightarrow> 'w mdma \<Rightarrow> 'w mdma" where
  "transfer_error fs channel m =
     (let i = unat (get_instance_id fs channel) in
      if i \<ge> MDMA_CHANNELS then mpanic ''MDMA channel not registered'' m
      else mpanic ''MDMA Transfer Error'' (set_done (mi_done (md_instances m ! i)) False m))"

text \<open>\<open>HAL_MDMA_IRQHandler\<close> may change the state of the handle and calls one of the callbacks.\<close>

definition irq_one :: "mdma_fields \<Rightarrow> 'w mdma_hal \<Rightarrow> nat \<Rightarrow> 'w mdma \<Rightarrow> 'w mdma" where
  "irq_one fs hal i m =
     (case mi_channel (md_instances m ! i) of
        None \<Rightarrow> m
      | Some c \<Rightarrow>
          (let ((r, st), w) = mh_irq hal c (mi_state (md_instances m ! i)) (md_world m);
               m = on_instance i (\<lambda>x. x\<lparr>mi_state := st\<rparr>) (m\<lparr>md_world := w\<rparr>)
           in case r of No_irq \<Rightarrow> m | Completed \<Rightarrow> transfer_complete fs c m | Failed \<Rightarrow> transfer_error fs c m))"

definition irq_handler :: "mdma_fields \<Rightarrow> 'w mdma_hal \<Rightarrow> 'w mdma \<Rightarrow> 'w mdma" where
  "irq_handler fs hal m = fold (irq_one fs hal) [0 ..< MDMA_CHANNELS] m"

section \<open>The element size of a transfer\<close>

text \<open>The lowest set bit: \<open>x AND - x\<close> is the largest power of two that divides \<open>x\<close>.\<close>

lemma two_power_odd:
  assumes "0 < (n :: nat)"
  obtains k m where "n = 2 ^ k * m" and "odd m"
  using assms
proof (induction n rule: less_induct)
  case (less n)
  show ?case
  proof (cases "odd n")
    case True
    then show ?thesis using less.prems(1) [of 0 n] by simp
  next
    case False
    then have half: "n = 2 * (n div 2)" "0 < n div 2" "n div 2 < n"
      using less.prems(2) by auto
    show ?thesis
    proof (rule less.IH [OF half(3)])
      fix k m assume "n div 2 = 2 ^ k * m" "odd m"
      then show ?thesis using half(1) less.prems(1) [of "Suc k" m] by simp
    qed (rule half(2))
  qed
qed

lemma odd_and_minus: "odd (a :: int) \<Longrightarrow> a AND - a = 1"
proof -
  assume "odd a"
  then obtain b where a: "a = 2 * b + 1" by (rule oddE)
  have "- a = 2 * (NOT b) + 1" by (simp add: a not_int_def)
  then show ?thesis by (simp add: a and_int_rec [of "2 * b + 1"])
qed

lemma lowest_bit:
  fixes x :: u32
  assumes "x \<noteq> 0"
  obtains k where "x AND - x = 2 ^ k" and "k < 32" and "\<And>j. 2 ^ j dvd unat x \<longleftrightarrow> j \<le> k"
proof -
  from assms have "0 < unat x" by (simp add: unat_gt_0)
  then obtain k m where km: "unat x = 2 ^ k * m" "odd m" by (rule two_power_odd)
  have "0 < m" using km(2) by (rule odd_pos)
  then have "2 ^ k \<le> unat x" using km(1) by simp
  also have "unat x < 2 ^ 32" using unsigned_less [of x] by simp
  finally have k: "k < 32" by (rule power_less_imp_less_exp [rotated]) simp
  have "x = of_nat (unat x)" by simp
  also have "\<dots> = of_nat (2 ^ k * m)" by (simp only: km(1))
  finally have x: "x = of_int (2 ^ k * int m)" by simp
  have "(2 ^ k * int m) AND - (2 ^ k * int m) = push_bit k (int m) AND push_bit k (- int m)"
    by (simp add: push_bit_eq_mult mult.commute)
  also have "\<dots> = push_bit k (int m AND - int m)" by simp
  also have "\<dots> = 2 ^ k" using km(2) by (simp add: odd_and_minus push_bit_eq_mult)
  finally have "of_int ((2 ^ k * int m) AND - (2 ^ k * int m)) = (2 ^ k :: u32)" by simp
  then have low: "x AND - x = 2 ^ k" unfolding x by (simp only: of_int_and_eq of_int_minus)
  have "2 ^ j dvd unat x \<longleftrightarrow> j \<le> k" for j
  proof
    show "j \<le> k \<Longrightarrow> 2 ^ j dvd unat x" using km(1) by (simp add: le_imp_power_dvd)
    assume dvd: "2 ^ j dvd unat x"
    show "j \<le> k"
    proof (rule ccontr)
      assume "\<not> j \<le> k"
      then have "2 ^ Suc k dvd unat x" using dvd power_le_dvd [of 2 j "unat x" "Suc k"] by simp
      then have "2 dvd m" using km(1) by (simp add: mult.commute [of 2])
      then show False using km(2) by simp
    qed
  qed
  with low k show ?thesis by (rule that)
qed

lemma dvd_or:
  fixes x y :: u32
  shows "2 ^ j dvd unat (x OR y) \<longleftrightarrow> 2 ^ j dvd unat x \<and> 2 ^ j dvd unat y"
proof -
  have "2 ^ j dvd unat z \<longleftrightarrow> take_bit j z = 0" for z :: u32
    by (metis take_bit_eq_0_iff unat_eq_0 unsigned_take_bit_eq)
  then show ?thesis by (simp add: take_bit_or or_eq_0_iff)
qed

lemma unat_power: "a < 32 \<Longrightarrow> unat ((2 :: u32) ^ a) = 2 ^ a"
proof -
  assume "a < 32"
  then have "2 ^ a < (2 :: nat) ^ 32" by (rule power_strict_increasing) simp
  then have "take_bit 32 ((2 :: nat) ^ a) = 2 ^ a" by (rule take_bit_nat_eq_self)
  moreover have "unat (of_nat (2 ^ a) :: u32) = take_bit 32 (2 ^ a)" by (simp add: unsigned_of_nat del: of_nat_power)
  ultimately show ?thesis by simp
qed

lemma power_le_word: "a < 32 \<Longrightarrow> b < 32 \<Longrightarrow> (2 :: u32) ^ a \<le> 2 ^ b \<longleftrightarrow> a \<le> b"
  by (simp add: word_le_nat_alt unat_power)

lemma min_power_word: "a < 32 \<Longrightarrow> b < 32 \<Longrightarrow> min ((2 :: u32) ^ a) (2 ^ b) = 2 ^ min a b"
  by (simp add: min_def power_le_word)

lemma elem_size_power:
  assumes "k \<noteq> 0"
  obtains c where "compute_elem_size src dst k = 2 ^ c" and "c \<le> 3"
    and "\<And>j. j \<le> c \<longleftrightarrow> 2 ^ j dvd unat k \<and> 2 ^ j dvd unat src \<and> 2 ^ j dvd unat dst \<and>
      j \<le> (if is_tcm src \<or> is_tcm dst then 2 else 3)"
proof -
  define d :: nat where "d = (if is_tcm src \<or> is_tcm dst then 2 else 3)"
  have d: "(if is_tcm src \<or> is_tcm dst then 4 else 8 :: u32) = 2 ^ d" "d \<le> 3" by (simp_all add: d_def)
  obtain a where a: "k AND - k = 2 ^ a" "a < 32" "\<And>j. 2 ^ j dvd unat k \<longleftrightarrow> j \<le> a"
    using lowest_bit [OF assms] by metis
  obtain b where b: "(if src OR dst \<noteq> 0 then (src OR dst) AND - (src OR dst) else 2 ^ d) = 2 ^ b" "b < 32"
    "\<And>j. j \<le> d \<Longrightarrow> 2 ^ j dvd unat src \<and> 2 ^ j dvd unat dst \<longleftrightarrow> j \<le> b"
  proof (cases "src OR dst = 0")
    case True
    then have "src = 0" "dst = 0" by (simp_all add: or_eq_0_iff)
    then show ?thesis using that [of d] d(2) by simp
  next
    case False
    from lowest_bit [OF this] obtain b where
      "(src OR dst) AND - (src OR dst) = 2 ^ b" "b < 32" "\<And>j. 2 ^ j dvd unat (src OR dst) \<longleftrightarrow> j \<le> b"
      by metis
    then show ?thesis using that [of b] False by (simp add: dvd_or)
  qed
  have "compute_elem_size src dst k = min (min (2 ^ a) (2 ^ b)) (2 ^ d)"
    by (simp only: compute_elem_size_def Let_def d(1) a(1) b(1))
  then have "compute_elem_size src dst k = 2 ^ min (min a b) d"
    using a(2) b(2) d(2) by (simp add: min_power_word)
  moreover have "j \<le> min (min a b) d \<longleftrightarrow> 2 ^ j dvd unat k \<and> 2 ^ j dvd unat src \<and> 2 ^ j dvd unat dst \<and>
      j \<le> (if is_tcm src \<or> is_tcm dst then 2 else 3)" for j
    using a(3) [of j] b(3) [of j] unfolding d_def [symmetric] min.bounded_iff by blast
  ultimately show ?thesis using that [of "min (min a b) d"] d(2) by simp
qed

text \<open>The element size of a transfer is the best one: for a transfer of at least one byte it is the
  largest power of two, at most 8 and at most 4 when a tightly coupled memory takes part, that
  divides the source address, the destination address and the length; and the buffer length given
  to the HAL is a positive multiple of it that exceeds neither the transfer nor 128 bytes.\<close>

theorem elem_size_largest:
  assumes "k \<noteq> 0"
  shows "\<exists>c. compute_elem_size src dst k = 2 ^ c \<and>
    (\<forall>j. j \<le> c \<longleftrightarrow> 2 ^ j dvd unat k \<and> 2 ^ j dvd unat src \<and> 2 ^ j dvd unat dst \<and>
       2 ^ j \<le> (if is_tcm src \<or> is_tcm dst then 4 else 8 :: nat)) \<and>
    2 ^ c dvd unat (nc_buffer (init_conf src dst k)) \<and> 0 < nc_buffer (init_conf src dst k) \<and>
    nc_buffer (init_conf src dst k) \<le> nc_length (init_conf src dst k) \<and> nc_buffer (init_conf src dst k) \<le> 128"
proof -
  obtain c where c: "compute_elem_size src dst k = 2 ^ c" "c \<le> 3"
    "\<And>j. j \<le> c \<longleftrightarrow> 2 ^ j dvd unat k \<and> 2 ^ j dvd unat src \<and> 2 ^ j dvd unat dst \<and>
      j \<le> (if is_tcm src \<or> is_tcm dst then 2 else 3)"
    using elem_size_power [OF assms] by metis
  have pow: "2 ^ j \<le> (4 :: nat) \<longleftrightarrow> j \<le> 2" "2 ^ j \<le> (8 :: nat) \<longleftrightarrow> j \<le> 3" for j
    using power_increasing_iff [of "2 :: nat" j 2] power_increasing_iff [of "2 :: nat" j 3] by simp_all
  have len: "unat (min k 128) = min (unat k) 128" by (simp add: min_def word_le_nat_alt)
  have "2 ^ c dvd unat k" using c(3) [of c] by simp
  moreover have "(2 :: nat) ^ c \<le> 2 ^ 3" using c(2) by (intro power_increasing) simp_all
  moreover have "0 < unat k" using assms by (simp add: unat_gt_0)
  ultimately have e: "2 ^ c \<le> min (unat k) 128" using dvd_imp_le [of "2 ^ c" "unat k"] by simp
  define n where "n = min (unat k) 128 div 2 ^ c * 2 ^ c"
  have n: "0 < n" "n \<le> min (unat k) 128" "2 ^ c dvd n"
    using e div_le_mono [of "2 ^ c" "min (unat k) 128" "2 ^ c"]
    unfolding n_def by (simp_all only: div_times_less_eq_dividend dvd_triv_right) simp
  have "unat ((2 :: u32) ^ c) = 2 ^ c" using c(2) by (simp add: unat_power)
  then have "unat (min k 128 div 2 ^ c * 2 ^ c) = n"
    using n(2) len le_trans [OF div_le_dividend [of "min (unat k) 128" "2 ^ c"], of 128]
    by (simp add: n_def unat_word_ariths unat_div_distrib)
  then have "unat (nc_buffer (init_conf src dst k)) = n"
    using n(1) by (auto simp: init_conf_def buffer_length_def Let_def c(1) unat_gt_0)
  with n c show ?thesis
    by (intro exI [of _ c]) (auto simp: pow init_conf_def Let_def word_le_nat_alt word_less_nat_alt)
qed

lemma elem_size_largest_witness:
  "\<exists>c. compute_elem_size 0x24000002 0x24000010 6 = 2 ^ c \<and> c = 1 \<and> nc_buffer (init_conf 0x24000002 0x24000010 6) \<le> 6"
proof -
  obtain c where c: "compute_elem_size 0x24000002 0x24000010 6 = 2 ^ c"
    "\<forall>j. j \<le> c \<longleftrightarrow> 2 ^ j dvd unat (6 :: u32) \<and> 2 ^ j dvd unat (0x24000002 :: u32) \<and> 2 ^ j dvd unat (0x24000010 :: u32) \<and>
       2 ^ j \<le> (if is_tcm 0x24000002 \<or> is_tcm 0x24000010 then 4 else 8 :: nat)"
    "nc_buffer (init_conf 0x24000002 0x24000010 6) \<le> nc_length (init_conf 0x24000002 0x24000010 6)"
    using elem_size_largest [of 6 "0x24000002" "0x24000010"] by auto
  have "1 \<le> c" using c(2) [rule_format, of 1] by simp
  moreover have "\<not> 2 \<le> c" using c(2) [rule_format, of 2] by simp
  ultimately have "c = 1" by simp
  then show ?thesis using c by (simp add: init_conf_def Let_def)
qed

section \<open>The channels\<close>

lemma channel_id:
  assumes "get_channel fs i = Some c"
  shows "get_instance_id fs c = i"
proof -
  have i: "i \<le> 15" and c: "c = mf_base fs + 0x40 + ucast i * 0x40"
    using assms by (auto simp: get_channel_def split: if_splits)
  have "unat (ucast i :: u32) = unat i" by (simp add: unsigned_ucast_eq take_bit_nat_eq_self order_less_le_trans [OF unsigned_less])
  moreover have "unat i \<le> 15" using i by (simp add: word_le_nat_alt)
  ultimately have "unat (ucast i * 0x40 div 0x40 :: u32) = unat (ucast i :: u32)"
    by (simp add: unat_word_ariths unat_div_distrib)
  then have "ucast i * 0x40 div 0x40 = (ucast i :: u32)" by (rule unsigned_word_eqI [where 'a = nat])
  moreover have "c - (mf_base fs + 0x40) = ucast i * 0x40" by (simp add: c)
  moreover have "ucast (ucast i :: u32) = i"
    by (rule bit_word_eqI) (auto simp: bit_unsigned_iff)
  ultimately show ?thesis by (simp add: get_instance_id_def)
qed

definition instance_ok :: "mdma_fields \<Rightarrow> nat \<Rightarrow> minstance \<Rightarrow> bool" where
  "instance_ok fs i x \<longleftrightarrow> mi_id x = of_nat i \<and> mi_channel x = get_channel fs (of_nat i) \<and> mi_node x = Some i"

definition mdma_ok :: "mdma_fields \<Rightarrow> 'w mdma \<Rightarrow> bool" where
  "mdma_ok fs m \<longleftrightarrow>
     length (md_instances m) = MDMA_CHANNELS \<and> length (md_free m) = MDMA_CHANNELS \<and>
     stk_inv (md_queue m) \<and> stk_capacity (md_queue m) = TRANSFER_QUEUE_MAX_SIZE \<and>
     (\<forall>i < MDMA_CHANNELS. instance_ok fs i (md_instances m ! i) \<and>
        (md_free m ! i \<longrightarrow> mi_state (md_instances m ! i) \<noteq> HAL_BUSY)) \<and>
     ''MDMA transfer already in progress'' \<notin> set (md_panics m)"

definition conserved :: "'w mdma \<Rightarrow> bool" where
  "conserved m \<longleftrightarrow> mset (md_accepted m) = mset (md_started m) + mset (stk_list (md_queue m))"

text \<open>What an operation leaves alone: the queue and the ghosts.\<close>

definition same_queue :: "'w mdma \<Rightarrow> 'w mdma \<Rightarrow> bool" where
  "same_queue m m' \<longleftrightarrow> md_queue m' = md_queue m \<and> md_accepted m' = md_accepted m \<and> md_started m' = md_started m"

lemma same_queue_trans: "same_queue m m1 \<Longrightarrow> same_queue m1 m2 \<Longrightarrow> same_queue m m2"
  by (simp add: same_queue_def)

lemma same_queue_conserved: "same_queue m m' \<Longrightarrow> conserved m \<Longrightarrow> conserved m'"
  by (simp add: same_queue_def conserved_def)

lemma channels_id [simp]: "i < MDMA_CHANNELS \<Longrightarrow> unat (of_nat i :: u8) = i"
  by (simp add: MDMA_CHANNELS_def unsigned_of_nat take_bit_nat_eq_self)

lemma get_channel_Some: "i < MDMA_CHANNELS \<Longrightarrow> \<exists>c. get_channel fs (of_nat i) = Some c"
  using channels_id [of i] by (simp add: get_channel_def word_less_nat_alt MDMA_CHANNELS_def)

lemma mdma_ok_simps:
  "mdma_ok fs (m\<lparr>md_world := w\<rparr>) = mdma_ok fs m" "mdma_ok fs (m\<lparr>md_channels := c\<rparr>) = mdma_ok fs m"
  "mdma_ok fs (m\<lparr>md_internal := n\<rparr>) = mdma_ok fs m" "mdma_ok fs (m\<lparr>md_flags := g\<rparr>) = mdma_ok fs m"
  "mdma_ok fs (m\<lparr>md_started := t\<rparr>) = mdma_ok fs m" "mdma_ok fs (m\<lparr>md_accepted := t\<rparr>) = mdma_ok fs m"
  by (simp_all add: mdma_ok_def)

lemma mdma_ok_panic:
  "msg \<noteq> ''MDMA transfer already in progress'' \<Longrightarrow> mdma_ok fs m \<Longrightarrow> mdma_ok fs (mpanic msg m)"
  by (auto simp: mdma_ok_def mpanic_def)

lemma mdma_ok_done: "mdma_ok fs m \<Longrightarrow> mdma_ok fs (set_done d b m)"
  by (cases d) (simp_all add: set_done_def mdma_ok_simps)

lemma mdma_ok_instance:
  assumes "mdma_ok fs m" "i < MDMA_CHANNELS"
    and "instance_ok fs i (f (md_instances m ! i))"
    and "md_free m ! i \<Longrightarrow> mi_state (f (md_instances m ! i)) \<noteq> HAL_BUSY"
  shows "mdma_ok fs (on_instance i f m)"
  using assms by (auto simp: mdma_ok_def on_instance_def nth_list_update)

lemma same_queue_simps [simp]:
  "same_queue m m" "same_queue m (mpanic msg m') = same_queue m m'" "same_queue m (set_done d b m') = same_queue m m'"
  "same_queue m (on_instance i f m') = same_queue m m'" "same_queue m (mdo hal cs m') = same_queue m m'"
  "same_queue m (m'\<lparr>md_world := w\<rparr>) = same_queue m m'" "same_queue m (m'\<lparr>md_channels := c\<rparr>) = same_queue m m'"
  "same_queue m (m'\<lparr>md_internal := n\<rparr>) = same_queue m m'" "same_queue m (m'\<lparr>md_free := r\<rparr>) = same_queue m m'"
  by (simp_all add: same_queue_def mpanic_def set_done_def on_instance_def mdo_def split: option.split)

lemma free_simps [simp]:
  "md_free (mpanic msg m) = md_free m" "md_free (set_done d b m) = md_free m"
  "md_free (on_instance i f m) = md_free m" "md_free (mdo hal cs m) = md_free m"
  by (simp_all add: mpanic_def set_done_def on_instance_def mdo_def split: option.split)

lemma list_update_False: "(xs[i := False]) ! j \<Longrightarrow> j < length xs \<Longrightarrow> j \<noteq> i \<and> xs ! j"
  by (cases "i = j") auto

text \<open>A free channel takes a transfer: it is then busy, and nothing else changes hands.\<close>

lemma prepare_transfer_ok:
  assumes ok: "mdma_ok fs m" and i: "i < MDMA_CHANNELS" and idle: "mi_state (md_instances m ! i) \<noteq> HAL_BUSY"
  shows "\<exists>m'. prepare_transfer hal i first m = Some m' \<and> mdma_ok fs m' \<and> same_queue m m' \<and>
    md_free m' = (md_free m)[i := False]"
proof -
  let ?x = "md_instances m ! i"
  have x: "instance_ok fs i ?x" "length (md_free m) = MDMA_CHANNELS" using ok i by (auto simp: mdma_ok_def)
  obtain c where c: "mi_channel ?x = Some c" "mi_id ?x = of_nat i" using x(1) get_channel_Some [OF i, of fs] by (auto simp: instance_ok_def)
  let ?busy = "on_instance i (\<lambda>x. x\<lparr>mi_state := HAL_BUSY, mi_first := Some first\<rparr>) (m\<lparr>md_free := (md_free m)[i := False]\<rparr>)"
  have "mdma_ok fs (m\<lparr>md_free := (md_free m)[i := False]\<rparr>)"
    using ok list_update_False [of "md_free m" i] by (auto simp: mdma_ok_def)
  then have busy: "mdma_ok fs ?busy"
    by (rule mdma_ok_instance) (use i x in \<open>simp_all add: instance_ok_def\<close>)
  let ?m = "mdo hal [Clear_flags c, Enable_irqs c, Enable_channel c] (?busy\<lparr>md_channels := (md_channels ?busy)(c := read_node first ?busy)\<rparr>)"
  obtain r w where req: "mh_request hal c (md_world ?m) = (r, w)" by (rule prod.exhaust)
  have m: "mdma_ok fs (?m\<lparr>md_world := w\<rparr>)" using busy by (simp add: mdo_def mdma_ok_simps)
  have again: "mdma_ok fs (on_instance i (\<lambda>x. x\<lparr>mi_state := HAL_BUSY\<rparr>) (?m\<lparr>md_world := w\<rparr>))"
    using m i by (intro mdma_ok_instance) (auto simp: mdma_ok_def instance_ok_def x(2))
  show ?thesis
  proof (cases r)
    case True
    then show ?thesis
      using idle c i req m by (simp add: prepare_transfer_def Let_def)
  next
    case False
    then show ?thesis
      using idle c i req mdma_ok_panic [OF _ again, of "''Error generating MDMA SW request''"]
      by (simp add: prepare_transfer_def Let_def)
  qed
qed

lemma stk_empty_list: "stk_inv q \<Longrightarrow> stk_empty q \<longleftrightarrow> stk_list q = []"
  using stk_length [of q] by (simp add: stk_empty_def flip: length_0_conv)

lemma take_Suc_rev: "xs \<noteq> [] \<Longrightarrow> take (Suc n) (rev xs) = last xs # take n (rev (butlast xs))"
  by (cases xs rule: rev_cases) auto

lemma all_channels: "distinct [0 ..< MDMA_CHANNELS]" "set [0 ..< MDMA_CHANNELS] \<subseteq> {..< MDMA_CHANNELS}"
  by auto

lemma update_from_ok:
  assumes "mdma_ok fs m" "distinct js" "set js \<subseteq> {..< MDMA_CHANNELS}"
  shows "\<exists>m'. update_from hal js m = Some m' \<and> mdma_ok fs m' \<and> md_accepted m' = md_accepted m \<and>
    (let q = stk_list (md_queue m); n = min (length (filter (\<lambda>i. md_free m ! i) js)) (length q)
     in stk_list (md_queue m') = take (length q - n) q \<and> md_started m' = md_started m @ take n (rev q))"
  using assms
proof (induction js arbitrary: m)
  case (Cons i js)
  let ?q = "stk_list (md_queue m)"
  have ok: "mdma_ok fs m" and i: "i < MDMA_CHANNELS" using Cons.prems by auto
  have inv: "stk_inv (md_queue m)" using ok by (simp add: mdma_ok_def)
  have empty: "stk_empty (md_queue m) \<longleftrightarrow> ?q = []"
    by (rule stk_empty_list [OF inv])
  show ?case
  proof (cases "?q = []")
    case True
    then show ?thesis using ok empty by (simp add: Let_def)
  next
    case ne: False
    show ?thesis
    proof (cases "md_free m ! i")
      case False
      then show ?thesis using Cons.IH [OF ok] Cons.prems(2,3) ne empty by simp
    next
      case free: True
      define t where "t = stk_peek (0, None) (md_queue m)"
      have t: "t = last ?q" using stk_peek_last [OF inv] ne by (simp add: t_def)
      let ?m1 = "on_instance i (\<lambda>x. x\<lparr>mi_done := snd t\<rparr>) m"
      have x: "instance_ok fs i (md_instances m ! i)" "mi_state (md_instances m ! i) \<noteq> HAL_BUSY"
        using ok i free by (auto simp: mdma_ok_def)
      have ok1: "mdma_ok fs ?m1" using ok i x by (intro mdma_ok_instance) (auto simp: instance_ok_def)
      have idle: "mi_state (md_instances ?m1 ! i) \<noteq> HAL_BUSY"
        using x(2) i ok by (simp add: on_instance_def mdma_ok_def)
      obtain m2 where m2: "prepare_transfer hal i (External (fst t)) ?m1 = Some m2" "mdma_ok fs m2"
          "same_queue ?m1 m2" "md_free m2 = (md_free m)[i := False]"
        using prepare_transfer_ok [OF ok1 i idle, of hal "External (fst t)"] by auto
      have q2: "md_queue m2 = md_queue m" "md_accepted m2 = md_accepted m" "md_started m2 = md_started m"
        using m2(3) by (simp_all add: same_queue_def on_instance_def)
      let ?m3 = "m2\<lparr>md_queue := snd (stk_pop (md_queue m2)), md_started := md_started m2 @ [t]\<rparr>"
      have pop: "stk_inv (snd (stk_pop (md_queue m)))" "stk_capacity (snd (stk_pop (md_queue m))) = stk_capacity (md_queue m)"
          "stk_list (snd (stk_pop (md_queue m))) = butlast ?q"
        using stack_lifo.get_last [OF inv ne] by simp_all
      have ok3: "mdma_ok fs ?m3" using m2(2) pop(1,2) q2 by (simp add: mdma_ok_def)
      let ?n = "min (length (filter (\<lambda>i. md_free m ! i) js)) (length ?q - 1)"
      have same: "filter (\<lambda>j. md_free ?m3 ! j) js = filter (\<lambda>j. md_free m ! j) js"
      proof (intro filter_cong refl)
        fix j assume "j \<in> set js"
        then have "i \<noteq> j" using Cons.prems(2) by auto
        then show "md_free ?m3 ! j = md_free m ! j" using m2(4) by simp
      qed
      obtain m4 where m4: "update_from hal js ?m3 = Some m4" "mdma_ok fs m4" "md_accepted m4 = md_accepted m"
          "stk_list (md_queue m4) = take (length ?q - 1 - ?n) (butlast ?q)"
          "md_started m4 = md_started m @ t # take ?n (rev (butlast ?q))"
        using Cons.IH [OF ok3] Cons.prems(2,3) same pop(3) q2 by (auto simp: Let_def)
      have started: "md_started m4 = md_started m @ take (Suc ?n) (rev ?q)"
        using m4(5) by (simp only: take_Suc_rev [OF ne] t)
      have left: "stk_list (md_queue m4) = take (length ?q - Suc ?n) ?q"
        using m4(4) ne by (simp add: butlast_conv_take)
      have n: "min (length (filter (\<lambda>i. md_free m ! i) (i # js))) (length ?q) = Suc ?n"
        using free ne by (cases ?q) auto
      have "update_from hal (i # js) m = Some m4"
        using m4(1) m2(1) empty ne free by (simp add: Let_def t_def [symmetric])
      then show ?thesis using m4(2,3) started left unfolding Let_def n by blast
    qed
  qed
qed (simp add: Let_def)

text \<open>\<open>MDMA::update\<close> gives the free channels to the newest waiting transfers: as many transfers are
  started as there are free channels or waiting transfers, whichever is less; they are the last
  ones that were requested, the latest first, and the older ones go on waiting in their order. No
  transfer is started on a channel that is busy.\<close>

theorem update_newest_first:
  assumes "mdma_ok fs m"
  shows "\<exists>m' n. mdma_update hal m = Some m' \<and> mdma_ok fs m' \<and>
    n = min (length (filter id (md_free m))) (length (stk_list (md_queue m))) \<and>
    md_started m' = md_started m @ take n (rev (stk_list (md_queue m))) \<and>
    stk_list (md_queue m') = take (length (stk_list (md_queue m)) - n) (stk_list (md_queue m))"
proof -
  have len: "length (md_free m) = MDMA_CHANNELS" using assms by (simp add: mdma_ok_def)
  have "map (\<lambda>i. md_free m ! i) [0 ..< MDMA_CHANNELS] = md_free m" using len by (metis map_nth)
  then have "length (filter id (md_free m)) = length (filter (\<lambda>i. md_free m ! i) [0 ..< MDMA_CHANNELS])"
    by (metis (no_types, lifting) comp_apply filter_cong filter_map id_apply length_map)
  then show ?thesis
    using update_from_ok [OF assms all_channels, of hal]
    by (auto simp: mdma_update_def Let_def)
qed

lemma update_conserved:
  assumes "mdma_ok fs m" "conserved m" "mdma_update hal m = Some m'"
  shows "conserved m'"
proof -
  define n where "n = min (length (filter (\<lambda>i. md_free m ! i) [0 ..< MDMA_CHANNELS])) (length (stk_list (md_queue m)))"
  let ?q = "stk_list (md_queue m)"
  have u: "md_accepted m' = md_accepted m" "md_started m' = md_started m @ take n (rev ?q)"
    "stk_list (md_queue m') = take (length ?q - n) ?q"
    using update_from_ok [OF assms(1) all_channels, of hal] assms(3)
    by (auto simp: mdma_update_def Let_def n_def)
  have "mset (take n (rev ?q)) + mset (take (length ?q - n) ?q) = mset ?q"
    by (metis add.commute append_take_drop_id mset_append mset_rev take_rev)
  then show ?thesis using assms(2) u by (simp add: conserved_def)
qed

lemma transfer_from_ok:
  assumes "mdma_ok fs m" "set js \<subseteq> {..< MDMA_CHANNELS}"
  shows "\<exists>m'. transfer_from hal src dst len d js m = Some m' \<and> mdma_ok fs m' \<and> same_queue m m' \<and>
    (\<forall>i < MDMA_CHANNELS. \<not> md_free m ! i \<longrightarrow> \<not> md_free m' ! i)"
  using assms
proof (induction js arbitrary: m)
  case (Cons i js)
  have ok: "mdma_ok fs m" and i: "i < MDMA_CHANNELS" using Cons.prems by auto
  show ?case
  proof (cases "md_free m ! i")
    case True
    let ?m1 = "on_instance i (\<lambda>x. x\<lparr>mi_done := d\<rparr>) m"
    let ?m2 = "?m1\<lparr>md_internal := (md_internal ?m1)[i := (md_internal ?m1 ! i)\<lparr>CSAR := src, CBNDTR := len, CDAR := dst\<rparr>]\<rparr>"
    have x: "instance_ok fs i (md_instances m ! i)" "mi_state (md_instances m ! i) \<noteq> HAL_BUSY"
      using ok i True by (auto simp: mdma_ok_def)
    have "mdma_ok fs ?m1" using ok i x by (intro mdma_ok_instance) (auto simp: instance_ok_def)
    then have ok2: "mdma_ok fs ?m2" by (simp add: mdma_ok_simps)
    have idle: "mi_state (md_instances ?m2 ! i) \<noteq> HAL_BUSY" using x(2) i ok by (simp add: on_instance_def mdma_ok_def)
    obtain m3 where m3: "prepare_transfer hal i (Internal i) ?m2 = Some m3" "mdma_ok fs m3" "same_queue ?m2 m3"
        "md_free m3 = (md_free m)[i := False]"
      using prepare_transfer_ok [OF ok2 i idle, of hal "Internal i"] by auto
    have "transfer_from hal src dst len d (i # js) m = Some m3"
      using True x(1) m3(1) by (simp add: instance_ok_def Let_def)
    moreover have "same_queue m m3" using m3(3) by (simp add: same_queue_def on_instance_def)
    moreover have "\<not> md_free m3 ! j" if "j < MDMA_CHANNELS" "\<not> md_free m ! j" for j
      using that m3(4) ok list_update_False [of "md_free m" i j] by (auto simp: mdma_ok_def)
    ultimately show ?thesis using m3(2) by blast
  next
    case False
    obtain m' where m': "transfer_from hal src dst len d js (set_done d False m) = Some m'" "mdma_ok fs m'"
        "same_queue (set_done d False m) m'" "\<forall>i < MDMA_CHANNELS. \<not> md_free m ! i \<longrightarrow> \<not> md_free m' ! i"
      using Cons.IH [OF mdma_ok_done [OF ok, of d False]] Cons.prems(2) by auto
    have "same_queue m m'" by (rule same_queue_trans [OF _ m'(3)]) simp
    moreover have "transfer_from hal src dst len d (i # js) m = Some m'" using False m'(1) by simp
    ultimately show ?thesis using m'(2,4) by blast
  qed
qed simp

lemma transfer_list_ok:
  assumes "mdma_ok fs m"
  shows "mdma_ok fs (transfer_list a d m)" "conserved m \<Longrightarrow> conserved (transfer_list a d m)"
proof -
  have inv: "stk_inv (md_queue m)" "stk_capacity (md_queue m) = TRANSFER_QUEUE_MAX_SIZE" using assms by (simp_all add: mdma_ok_def)
  have room: "length (stk_list (md_queue m)) < stk_capacity (md_queue m)" if "\<not> TRANSFER_QUEUE_MAX_SIZE \<le> stk_size (md_queue m)"
    using that inv by (simp add: stk_size_def)
  have ok: "mdma_ok fs (m\<lparr>md_queue := snd (stk_push x (md_queue m)), md_accepted := md_accepted m @ [x]\<rparr>)"
    if "\<not> TRANSFER_QUEUE_MAX_SIZE \<le> stk_size (md_queue m)" for x
    using assms stack_lifo.put_room [OF inv(1) room [OF that], of x] by (simp add: mdma_ok_def)
  show "mdma_ok fs (transfer_list a d m)"
    using ok mdma_ok_panic [OF _ assms, of "''MDMA transfer queue full''"] by (simp add: transfer_list_def)
  show "conserved m \<Longrightarrow> conserved (transfer_list a d m)"
    using stack_lifo.put_room [OF inv(1) room, of "(a, d)"]
    by (auto simp: transfer_list_def conserved_def mpanic_def)
qed

section \<open>The interrupt\<close>

text \<open>What the HAL promises: initialising a handle does not make it busy, and its interrupt does not
  make a channel busy that was not.\<close>

definition hal_ok :: "'w mdma_hal \<Rightarrow> bool" where
  "hal_ok hal \<longleftrightarrow> (\<forall>c w. snd (fst (mh_init hal c w)) \<noteq> HAL_BUSY) \<and>
     (\<forall>c st w. st \<noteq> HAL_BUSY \<longrightarrow> snd (fst (mh_irq hal c st w)) \<noteq> HAL_BUSY)"

lemma complete_ok:
  assumes "mdma_ok fs m" "get_channel fs (of_nat i) = Some c" "i < MDMA_CHANNELS"
  shows "mdma_ok fs (transfer_complete fs c m)" "same_queue m (transfer_complete fs c m)"
proof -
  let ?m = "on_instance i (\<lambda>x. x\<lparr>mi_state := HAL_READY\<rparr>) m"
  have x: "instance_ok fs i (md_instances m ! i)" "i < length (md_instances m)" "i < length (md_free m)"
    using assms(1,3) by (auto simp: mdma_ok_def)
  have ok: "mdma_ok fs ?m" using assms(1,3) x(1) by (intro mdma_ok_instance) (auto simp: instance_ok_def)
  have "mdma_ok fs (?m\<lparr>md_free := (md_free ?m)[i := True]\<rparr>)"
    using ok x(2) by (auto simp: mdma_ok_def on_instance_def nth_list_update)
  moreover have "unat (mi_id (md_instances ?m ! i)) = i"
    using x assms(3) by (simp add: on_instance_def instance_ok_def)
  ultimately show "mdma_ok fs (transfer_complete fs c m)"
    using channel_id [OF assms(2)] assms(3)
    by (simp add: transfer_complete_def Let_def mdma_ok_done not_le)
  show "same_queue m (transfer_complete fs c m)" by (simp add: transfer_complete_def Let_def)
qed

lemma transfer_error_ok:
  assumes "mdma_ok fs m"
  shows "mdma_ok fs (transfer_error fs c m)" "same_queue m (transfer_error fs c m)" "md_free (transfer_error fs c m) = md_free m"
  using assms by (simp_all add: transfer_error_def Let_def mdma_ok_panic mdma_ok_done)

lemma irq_one_ok:
  assumes "hal_ok hal" "mdma_ok fs m" "i < MDMA_CHANNELS"
  shows "mdma_ok fs (irq_one fs hal i m) \<and> same_queue m (irq_one fs hal i m)"
proof -
  have x: "instance_ok fs i (md_instances m ! i)" using assms(2,3) by (simp add: mdma_ok_def)
  obtain c where c: "get_channel fs (of_nat i) = Some c" using get_channel_Some [OF assms(3)] by auto
  obtain r st w where irq: "mh_irq hal c (mi_state (md_instances m ! i)) (md_world m) = ((r, st), w)"
    by (metis prod.exhaust)
  have st: "md_free m ! i \<Longrightarrow> st \<noteq> HAL_BUSY"
    using assms irq unfolding hal_ok_def mdma_ok_def by (metis fst_conv snd_conv)
  let ?m = "on_instance i (\<lambda>x. x\<lparr>mi_state := st\<rparr>) (m\<lparr>md_world := w\<rparr>)"
  have ok: "mdma_ok fs ?m"
    using assms(2,3) x st by (intro mdma_ok_instance) (auto simp: mdma_ok_simps instance_ok_def)
  have same: "same_queue m ?m" by simp
  show ?thesis
    using ok complete_ok [OF ok c assms(3)] transfer_error_ok [OF ok, of c] same same_queue_trans [OF same] x c irq
    by (cases r) (simp_all add: irq_one_def instance_ok_def)
qed

lemma irq_handler_ok:
  assumes "hal_ok hal" "mdma_ok fs m"
  shows "mdma_ok fs (irq_handler fs hal m) \<and> same_queue m (irq_handler fs hal m)"
proof -
  have "mdma_ok fs m \<Longrightarrow> set js \<subseteq> {..< MDMA_CHANNELS} \<Longrightarrow>
      mdma_ok fs (fold (irq_one fs hal) js m) \<and> same_queue m (fold (irq_one fs hal) js m)" for js and m :: "'a mdma"
  proof (induction js arbitrary: m)
    case (Cons i js)
    then have one: "mdma_ok fs (irq_one fs hal i m)" "same_queue m (irq_one fs hal i m)"
      using irq_one_ok [OF assms(1) Cons.prems(1), of i] by auto
    show ?case using Cons.IH [OF one(1)] Cons.prems(2) same_queue_trans [OF one(2)] by auto
  qed simp
  from this [OF assms(2) all_channels(2)] show ?thesis by (simp add: irq_handler_def)
qed

section \<open>Starting\<close>

definition started_upto :: "mdma_fields \<Rightarrow> nat \<Rightarrow> 'w mdma \<Rightarrow> bool" where
  "started_upto fs k m \<longleftrightarrow>
     length (md_instances m) = MDMA_CHANNELS \<and> length (md_free m) = MDMA_CHANNELS \<and>
     stk_inv (md_queue m) \<and> stk_capacity (md_queue m) = TRANSFER_QUEUE_MAX_SIZE \<and>
     (\<forall>i < k. instance_ok fs i (md_instances m ! i) \<and>
        (md_free m ! i \<longrightarrow> mi_state (md_instances m ! i) \<noteq> HAL_BUSY)) \<and>
     ''MDMA transfer already in progress'' \<notin> set (md_panics m)"

lemma start_one_ok:
  assumes hal: "hal_ok hal" and inv: "started_upto fs k m" and k: "k < MDMA_CHANNELS"
  shows "started_upto fs (Suc k) (start_one fs hal k m) \<and> same_queue m (start_one fs hal k m)"
proof -
  obtain c where c: "get_channel fs (of_nat k) = Some c" using get_channel_Some [OF k] by auto
  obtain ok n where create: "mh_create hal inscribe_conf (md_internal m ! k) = (ok, n)" by (rule prod.exhaust)
  let ?inst = "\<lparr>mi_channel = Some c, mi_state = HAL_RESET, mi_first = None, mi_id = of_nat k, mi_done = None, mi_node = Some k\<rparr>"
  let ?m = "inscribe fs hal k m"
  have insc: "md_instances ?m = (md_instances m)[k := ?inst]" "md_free ?m = (md_free m)[k := True]"
      "same_queue m ?m" "''MDMA transfer already in progress'' \<notin> set (md_panics ?m)"
    using inv by (simp_all add: inscribe_def c create Let_def on_instance_def mpanic_def started_upto_def same_queue_def)
  obtain good st w where init: "mh_init hal c (md_world ?m) = ((good, st), w)" by (metis prod.exhaust)
  have st: "st \<noteq> HAL_BUSY" using hal init unfolding hal_ok_def by (metis fst_conv snd_conv)
  have len: "k < length (md_instances m)" "k < length (md_free m)" using inv k by (simp_all add: started_upto_def)
  let ?r = "start_one fs hal k m"
  have r: "md_instances ?r = (md_instances m)[k := ?inst\<lparr>mi_state := st\<rparr>]" "md_free ?r = (md_free m)[k := True]"
      "md_queue ?r = md_queue m" "same_queue m ?r" "''MDMA transfer already in progress'' \<notin> set (md_panics ?r)"
    using insc len init
    by (simp_all add: start_one_def Let_def on_instance_def mpanic_def mdo_def same_queue_def)
  have "instance_ok fs k (?inst\<lparr>mi_state := st\<rparr>)" by (simp add: instance_ok_def c)
  then show ?thesis
    using inv r st len by (auto simp: started_upto_def nth_list_update less_Suc_eq)
qed

lemma start_ok:
  assumes "hal_ok hal"
  shows "mdma_ok fs (mdma_start fs hal (new_mdma w ns nodes chans flags)) \<and>
    conserved (mdma_start fs hal (new_mdma w ns nodes chans flags))"
proof -
  let ?m0 = "mdo hal [Clock_enable] (new_mdma w ns nodes chans flags)"
  have m0: "started_upto fs 0 ?m0" "conserved ?m0"
    by (simp_all add: started_upto_def new_mdma_def mdo_def conserved_def stk_init_def stk_inv_def stk_capacity_def
        TRANSFER_QUEUE_MAX_SIZE_def stk_list_def)
  have "k \<le> MDMA_CHANNELS \<Longrightarrow> started_upto fs k (fold (start_one fs hal) [0 ..< k] ?m0) \<and>
      conserved (fold (start_one fs hal) [0 ..< k] ?m0)" for k
  proof (induction k)
    case (Suc k)
    let ?m = "fold (start_one fs hal) [0 ..< k] ?m0"
    have "started_upto fs (Suc k) (start_one fs hal k ?m)" "same_queue ?m (start_one fs hal k ?m)"
      using Suc start_one_ok [OF assms, of fs k ?m] by simp_all
    then show ?case using Suc same_queue_conserved [of ?m "start_one fs hal k ?m"] by simp
  qed (use m0 in simp)
  from this [of MDMA_CHANNELS] have
    "started_upto fs MDMA_CHANNELS (fold (start_one fs hal) [0 ..< MDMA_CHANNELS] ?m0)"
    "conserved (fold (start_one fs hal) [0 ..< MDMA_CHANNELS] ?m0)" by simp_all
  then show ?thesis
    by (simp add: mdma_start_def mdo_def started_upto_def mdma_ok_def conserved_def)
qed

section \<open>Any sequence of requests and interrupts\<close>

datatype mdma_event = Update | Transfer_list nat "nat option" | Transfer_data u32 u32 u32 "nat option" | Interrupt

fun mdma_step :: "mdma_fields \<Rightarrow> 'w mdma_hal \<Rightarrow> mdma_event \<Rightarrow> 'w mdma \<Rightarrow> 'w mdma option" where
  "mdma_step fs hal Update m = mdma_update hal m"
| "mdma_step fs hal (Transfer_list a d) m = Some (transfer_list a d m)"
| "mdma_step fs hal (Transfer_data src dst len d) m = transfer_data hal src dst len d m"
| "mdma_step fs hal Interrupt m = Some (irq_handler fs hal m)"

fun mdma_run :: "mdma_fields \<Rightarrow> 'w mdma_hal \<Rightarrow> mdma_event list \<Rightarrow> 'w mdma \<Rightarrow> 'w mdma option" where
  "mdma_run fs hal [] m = Some m"
| "mdma_run fs hal (e # es) m = Option.bind (mdma_step fs hal e m) (mdma_run fs hal es)"

lemma mdma_step_ok:
  assumes "hal_ok hal" "mdma_ok fs m" "conserved m"
  shows "\<exists>m'. mdma_step fs hal e m = Some m' \<and> mdma_ok fs m' \<and> conserved m'"
proof (cases e)
  case Update
  obtain m' where "mdma_update hal m = Some m'" "mdma_ok fs m'"
    using update_from_ok [OF assms(2) all_channels, of hal] by (auto simp: mdma_update_def)
  then show ?thesis using Update update_conserved [OF assms(2,3)] by auto
next
  case (Transfer_list a d)
  then show ?thesis using transfer_list_ok [OF assms(2)] assms(3) by simp
next
  case (Transfer_data src dst len d)
  obtain m' where "transfer_data hal src dst len d m = Some m'" "mdma_ok fs m'" "same_queue m m'"
    using transfer_from_ok [OF assms(2) all_channels(2), of hal src dst len d] by (auto simp: transfer_data_def)
  then show ?thesis using Transfer_data same_queue_conserved [OF _ assms(3), of m'] by simp
next
  case Interrupt
  then show ?thesis
    using irq_handler_ok [OF assms(1,2)] same_queue_conserved [OF _ assms(3), of "irq_handler fs hal m"] by simp
qed

lemma mdma_run_ok:
  "hal_ok hal \<Longrightarrow> mdma_ok fs m \<Longrightarrow> conserved m \<Longrightarrow> \<exists>m'. mdma_run fs hal es m = Some m' \<and> mdma_ok fs m' \<and> conserved m'"
proof (induction es arbitrary: m)
  case (Cons e es)
  obtain m1 where "mdma_step fs hal e m = Some m1" "mdma_ok fs m1" "conserved m1"
    using mdma_step_ok [OF Cons.prems, of e] by auto
  then show ?case using Cons.IH [OF Cons.prems(1)] by auto
qed simp

text \<open>C24. The transfers by MDMA are conserved and no busy channel is touched: after \<open>start\<close>, whatever
  requests, updates and interrupts follow in whatever order, no operation uses a channel that was
  not set up, no transfer is ever started on a channel with one in progress, a channel that is
  marked free is not busy, at most fifty transfers wait, and the transfers that were accepted are
  exactly those that were started and those that still wait, none lost and none twice.\<close>

theorem transfers_conserved:
  assumes "hal_ok hal"
  shows "\<exists>m. mdma_run fs hal es (mdma_start fs hal (new_mdma w ns nodes chans flags)) = Some m \<and>
    ''MDMA transfer already in progress'' \<notin> set (md_panics m) \<and>
    list_all (\<lambda>i. \<not> (md_free m ! i \<and> mi_state (md_instances m ! i) = HAL_BUSY)) [0 ..< MDMA_CHANNELS] \<and>
    length (stk_list (md_queue m)) \<le> TRANSFER_QUEUE_MAX_SIZE \<and>
    mset (md_accepted m) = mset (md_started m) + mset (stk_list (md_queue m))"
proof -
  obtain m where m: "mdma_run fs hal es (mdma_start fs hal (new_mdma w ns nodes chans flags)) = Some m"
      "mdma_ok fs m" "conserved m"
    using mdma_run_ok [OF assms] start_ok [OF assms] by blast
  then have "length (stk_list (md_queue m)) \<le> TRANSFER_QUEUE_MAX_SIZE"
    by (auto simp: mdma_ok_def stk_inv_def)
  then show ?thesis using m by (auto simp: mdma_ok_def conserved_def list_all_iff)
qed

section \<open>A failed transfer\<close>

text \<open>The HAL never reports that a transfer on the channel \<open>c\<close> completed.\<close>

definition never_completes :: "'w mdma_hal \<Rightarrow> u32 \<Rightarrow> bool" where
  "never_completes hal c \<longleftrightarrow> (\<forall>st w. fst (fst (mh_irq hal c st w)) \<noteq> Completed)"

lemma update_keeps_taken:
  assumes "mdma_ok fs m" "set js \<subseteq> {..< MDMA_CHANNELS}" "update_from hal js m = Some m'" "i < MDMA_CHANNELS" "\<not> md_free m ! i"
  shows "\<not> md_free m' ! i"
  using assms
proof (induction js arbitrary: m)
  case (Cons j js)
  have ok: "mdma_ok fs m" and j: "j < MDMA_CHANNELS" using Cons.prems by auto
  show ?case
  proof (cases "\<not> stk_empty (md_queue m) \<and> md_free m ! j")
    case True
    let ?t = "stk_peek (0, None) (md_queue m)"
    let ?m1 = "on_instance j (\<lambda>x. x\<lparr>mi_done := snd ?t\<rparr>) m"
    have x: "instance_ok fs j (md_instances m ! j)" "mi_state (md_instances m ! j) \<noteq> HAL_BUSY"
      using ok j True by (auto simp: mdma_ok_def)
    have ok1: "mdma_ok fs ?m1" using ok j x by (intro mdma_ok_instance) (auto simp: instance_ok_def)
    have idle: "mi_state (md_instances ?m1 ! j) \<noteq> HAL_BUSY"
      using x(2) j ok by (simp add: on_instance_def mdma_ok_def)
    obtain m2 where m2: "prepare_transfer hal j (External (fst ?t)) ?m1 = Some m2" "mdma_ok fs m2"
        "same_queue ?m1 m2" "md_free m2 = (md_free m)[j := False]"
      using prepare_transfer_ok [OF ok1 j idle, of hal "External (fst ?t)"] by auto
    let ?m3 = "m2\<lparr>md_queue := snd (stk_pop (md_queue m2)), md_started := md_started m2 @ [?t]\<rparr>"
    have "md_queue m2 = md_queue m" using m2(3) by (simp add: same_queue_def on_instance_def)
    moreover have "stk_list (md_queue m) \<noteq> []" using True ok stk_empty_list [of "md_queue m"]
      by (simp add: mdma_ok_def)
    ultimately have ok3: "mdma_ok fs ?m3"
      using m2(2) stack_lifo.get_last [of "md_queue m"] ok by (simp add: mdma_ok_def)
    have taken: "\<not> md_free ?m3 ! i"
      using Cons.prems(4,5) ok m2(4) list_update_False [of "md_free m" j i] by (auto simp: mdma_ok_def)
    have "update_from hal js ?m3 = Some m'" using Cons.prems(3) True m2(1) by (simp add: Let_def)
    from Cons.IH [OF ok3 _ this Cons.prems(4) taken] show ?thesis using Cons.prems(2) by simp
  next
    case False
    then have "m' = m \<or> update_from hal js m = Some m'" using Cons.prems(3) by (auto split: if_splits)
    then show ?thesis using Cons.IH [OF ok _ _ Cons.prems(4,5)] Cons.prems(2,5) by auto
  qed
qed simp

lemma irq_keeps_taken:
  assumes "mdma_ok fs m" "get_channel fs (of_nat i) = Some c" "never_completes hal c" "i < MDMA_CHANNELS" "j < MDMA_CHANNELS"
    and "\<not> md_free m ! i"
  shows "\<not> md_free (irq_one fs hal j m) ! i"
proof -
  obtain cj where cj: "get_channel fs (of_nat j) = Some cj" using get_channel_Some [OF assms(5)] by auto
  have xj: "instance_ok fs j (md_instances m ! j)" "j < length (md_instances m)" using assms(1,5) by (auto simp: mdma_ok_def)
  obtain r st w where irq: "mh_irq hal cj (mi_state (md_instances m ! j)) (md_world m) = ((r, st), w)"
    by (metis prod.exhaust)
  have chan: "mi_channel (md_instances m ! j) = Some cj" using xj(1) cj by (simp add: instance_ok_def)
  show ?thesis
  proof (cases r)
    case Completed
    have "j \<noteq> i" using assms(2,3) cj irq Completed unfolding never_completes_def by (metis fst_conv option.inject)
    moreover have "mi_id (md_instances m ! j) = of_nat j" using xj(1) by (simp add: instance_ok_def)
    ultimately show ?thesis
      using Completed irq chan channel_id [OF cj] assms(5,6) xj(2)
      by (simp add: irq_one_def transfer_complete_def Let_def on_instance_def set_done_def split: option.split)
  next
    case No_irq
    then show ?thesis using irq chan assms(6) by (simp add: irq_one_def)
  next
    case Failed
    then show ?thesis using irq chan assms(6) by (simp add: irq_one_def transfer_error_def Let_def)
  qed
qed

text \<open>A channel whose transfer failed is lost: the error callback does not free the channel, so as
  long as the HAL does not report on that channel a completion of the transfer that failed, no
  sequence of requests, updates and interrupts ever frees it again.\<close>

theorem failed_channel_lost:
  assumes hal: "hal_ok hal" and ok: "mdma_ok fs m" "conserved m"
    and i: "i < MDMA_CHANNELS" "get_channel fs (of_nat i) = Some c" and taken: "\<not> md_free m ! i"
    and never: "never_completes hal c"
    and run: "mdma_run fs hal es (transfer_error fs c m) = Some m'"
  shows "\<not> md_free m' ! i"
proof -
  have "mdma_ok fs m \<Longrightarrow> conserved m \<Longrightarrow> \<not> md_free m ! i \<Longrightarrow> mdma_run fs hal es m = Some m' \<Longrightarrow> \<not> md_free m' ! i" for m
  proof (induction es arbitrary: m)
    case (Cons e es)
    obtain m1 where m1: "mdma_step fs hal e m = Some m1" "mdma_ok fs m1" "conserved m1"
      using mdma_step_ok [OF hal Cons.prems(1,2), of e] by auto
    have "\<not> md_free m1 ! i"
    proof (cases e)
      case Update
      then show ?thesis
        using m1(1) update_keeps_taken [OF Cons.prems(1) all_channels(2) _ i(1) Cons.prems(3)] by (simp add: mdma_update_def)
    next
      case (Transfer_list a d)
      then show ?thesis using m1(1) Cons.prems(3) by (auto simp: transfer_list_def split: if_splits)
    next
      case (Transfer_data src dst len d)
      then show ?thesis
        using m1(1) transfer_from_ok [OF Cons.prems(1) all_channels(2), of hal src dst len d] i(1) Cons.prems(3)
        by (auto simp: transfer_data_def)
    next
      case Interrupt
      have "mdma_ok fs m \<Longrightarrow> \<not> md_free m ! i \<Longrightarrow> set js \<subseteq> {..< MDMA_CHANNELS} \<Longrightarrow> \<not> md_free (fold (irq_one fs hal) js m) ! i" for js m
      proof (induction js arbitrary: m)
        case (Cons j js)
        have "\<not> md_free (irq_one fs hal j m) ! i"
          using irq_keeps_taken [OF Cons.prems(1) i(2) never i(1) _ Cons.prems(2)] Cons.prems(3) by simp
        moreover have "mdma_ok fs (irq_one fs hal j m)" using irq_one_ok [OF hal Cons.prems(1), of j] Cons.prems(3) by simp
        ultimately show ?case using Cons.IH Cons.prems(3) by simp
      qed simp
      from this [OF Cons.prems(1,3) all_channels(2)] show ?thesis using m1(1) Interrupt by (simp add: irq_handler_def)
    qed
    then show ?case using Cons.IH [OF m1(2,3)] m1(1) Cons.prems(4) by simp
  qed simp
  from this [OF transfer_error_ok(1) [OF ok(1)] same_queue_conserved [OF transfer_error_ok(2) [OF ok(1)] ok(2)] _ run]
  show ?thesis using taken transfer_error_ok(3) [OF ok(1), of c] by simp
qed

section \<open>Instances\<close>

definition demo_hal :: "unit mdma_hal" where
  "demo_hal =
     \<lparr>mh_create = (\<lambda>c n. (True, n)), mh_init = (\<lambda>c w. ((True, HAL_READY), w)), mh_request = (\<lambda>c w. (True, w)),
      mh_irq = (\<lambda>c st w. ((No_irq, st), w)), mh_do = (\<lambda>_ w. w)\<rparr>"

definition demo_fields :: mdma_fields where
  "demo_fields = \<lparr>mf_base = 0x52000000, mf_sbus = 0x10000, mf_dbus = 0x20000, mf_increments = 0, mf_sinc = (\<lambda>_. 0),
     mf_dinc = (\<lambda>_. 0), mf_ssize = (\<lambda>_. 0), mf_dsize = (\<lambda>_. 0), mf_tlen = 18\<rparr>"

abbreviation demo_mdma :: "unit mdma" where
  "demo_mdma \<equiv> mdma_start demo_fields demo_hal
     (new_mdma () (replicate 8 zero_node) (\<lambda>_. \<lparr>ln_node = zero_node, ln_size = 4\<rparr>) (\<lambda>_. zero_node) (\<lambda>_. False))"

lemma demo_hal_ok: "hal_ok demo_hal"
  by (simp add: hal_ok_def demo_hal_def)

lemma transfers_conserved_witness:
  "\<exists>m. mdma_run demo_fields demo_hal [Transfer_list 1 None, Transfer_list 2 (Some 0), Update, Interrupt] demo_mdma = Some m \<and>
     mset (md_accepted m) = mset (md_started m) + mset (stk_list (md_queue m))"
  using transfers_conserved [OF demo_hal_ok, of demo_fields
    "[Transfer_list 1 None, Transfer_list 2 (Some 0), Update, Interrupt]"] by blast

lemma update_newest_first_witness:
  "\<exists>m. mdma_update demo_hal demo_mdma = Some m \<and> mdma_ok demo_fields m"
proof -
  have "mdma_ok demo_fields demo_mdma" using start_ok [OF demo_hal_ok] by blast
  from update_newest_first [OF this, of demo_hal] show ?thesis by blast
qed

lemma failed_channel_lost_witness:
  "\<exists>m m'. mdma_run demo_fields demo_hal [Update, Interrupt] (transfer_error demo_fields 0x52000080 m) = Some m' \<and>
     \<not> md_free m' ! 1"
proof -
  let ?m = "demo_mdma\<lparr>md_free := replicate MDMA_CHANNELS False\<rparr>"
  have ok: "mdma_ok demo_fields demo_mdma" "conserved demo_mdma" using start_ok [OF demo_hal_ok] by blast+
  then have m: "mdma_ok demo_fields ?m" "conserved ?m" by (simp_all add: mdma_ok_def conserved_def)
  have c: "get_channel demo_fields (of_nat 1) = Some 0x52000080"
    by (simp add: get_channel_def demo_fields_def)
  have "mdma_ok demo_fields (transfer_error demo_fields 0x52000080 ?m)" "conserved (transfer_error demo_fields 0x52000080 ?m)"
    using transfer_error_ok(1,2) [OF m(1)] same_queue_conserved [OF _ m(2)] by simp_all
  then obtain m' where run: "mdma_run demo_fields demo_hal [Update, Interrupt] (transfer_error demo_fields 0x52000080 ?m) = Some m'"
    using mdma_run_ok [OF demo_hal_ok] by blast
  have "\<not> md_free m' ! 1"
    by (rule failed_channel_lost [OF demo_hal_ok m _ c _ _ run])
      (simp_all add: MDMA_CHANNELS_def never_completes_def demo_hal_def)
  then show ?thesis using run by blast
qed

end
