(* ===== verification/Dma.thy ===== *)
theory Dma
  imports Prelude
begin

unbundle bit_operations_syntax

text \<open>
  The DMA streams of a board (\<open>Inc/HALAL/Models/DMA/DMA2.hpp\<close>): the requests of the peripherals, the
  assignment of the sixteen streams, which is computed while the code is compiled, the setup of
  each stream, and the initialization that enters the streams into the table of the interrupts.

  A stream is the value of its enumerator, \<open>0\<close> being \<open>Stream::none\<close>, \<open>1\<close> to \<open>8\<close> the streams of the
  first controller and \<open>9\<close> to \<open>16\<close> those of the second. The constants of the vendor's library are
  constructors that carry their names. A \<open>compile_error\<close> is \<open>Inl\<close>.
\<close>

section \<open>Peripherals and entries\<close>

datatype Peripheral =
    none | adc1 | adc2 | adc3 | i2c1 | i2c2 | i2c3 | i2c5
  | spi1 | spi2 | spi3 | spi4 | spi5 | spi6 | fmac
  | dfsdm_filter0 | dfsdm_filter1 | dfsdm_filter2 | dfsdm_filter3

datatype IRQn = No_IRQn | DMA1_Stream_IRQn nat | DMA2_Stream_IRQn nat

definition MAX_STREAMS :: nat where
  "MAX_STREAMS = 16"

record dma_entry =
  de_instance :: Peripheral
  de_stream :: nat
  de_irqn :: IRQn
  de_id :: nat

definition is_one_of :: "Peripheral \<Rightarrow> Peripheral list \<Rightarrow> bool" where
  "is_one_of p bases \<longleftrightarrow> list_ex (\<lambda>b. p = b) bases"

definition is_spi :: "Peripheral \<Rightarrow> bool" where
  "is_spi p \<longleftrightarrow> is_one_of p [spi1, spi2, spi3, spi4, spi5, spi6]"

definition is_i2c :: "Peripheral \<Rightarrow> bool" where
  "is_i2c p \<longleftrightarrow> is_one_of p [i2c1, i2c2, i2c3, i2c5]"

definition is_adc :: "Peripheral \<Rightarrow> bool" where
  "is_adc p \<longleftrightarrow> is_one_of p [adc1, adc2, adc3]"

definition is_fmac :: "Peripheral \<Rightarrow> bool" where
  "is_fmac p \<longleftrightarrow> p = fmac"

definition is_none :: "Peripheral \<Rightarrow> bool" where
  "is_none p \<longleftrightarrow> p = none"

definition is_dfsdm :: "Peripheral \<Rightarrow> bool" where
  "is_dfsdm p \<longleftrightarrow> is_one_of p [dfsdm_filter0, dfsdm_filter1, dfsdm_filter2, dfsdm_filter3]"

definition get_irqn :: "nat \<Rightarrow> string + IRQn" where
  "get_irqn s =
     (if s = 0 then Inr No_IRQn
      else if s \<le> 8 then Inr (DMA1_Stream_IRQn (s - 1))
      else if s \<le> 16 then Inr (DMA2_Stream_IRQn (s - 9))
      else Inl ''Invalid DMA stream'')"

text \<open>The constructor of \<open>DMA<Ss...>\<close>: at most three streams, numbered in their order.\<close>

definition dma_entries :: "Peripheral \<Rightarrow> nat list \<Rightarrow> string + dma_entry list" where
  "dma_entries p streams =
     (if length streams > 3 then Inl ''Maximo 3 streams''
      else if list_ex (\<lambda>s. s > 16) streams then Inl ''Invalid DMA stream''
      else Inr (map (\<lambda>(j, s). \<lparr>de_instance = p, de_stream = s,
                 de_irqn = (if s \<noteq> 0 then (case get_irqn s of Inr q \<Rightarrow> q | Inl e \<Rightarrow> No_IRQn) else No_IRQn),
                 de_id = j\<rparr>) (enumerate 0 streams)))"

section \<open>The setup of a stream\<close>

datatype dma_request =
    DMA_REQUEST_MEM2MEM | DMA_REQUEST_ADC1 | DMA_REQUEST_ADC2 | DMA_REQUEST_ADC3
  | DMA_REQUEST_I2C1_RX | DMA_REQUEST_I2C1_TX | DMA_REQUEST_I2C2_RX | DMA_REQUEST_I2C2_TX
  | DMA_REQUEST_I2C3_RX | DMA_REQUEST_I2C3_TX | DMA_REQUEST_I2C5_RX | DMA_REQUEST_I2C5_TX
  | DMA_REQUEST_SPI1_RX | DMA_REQUEST_SPI1_TX | DMA_REQUEST_SPI2_RX | DMA_REQUEST_SPI2_TX
  | DMA_REQUEST_SPI3_RX | DMA_REQUEST_SPI3_TX | DMA_REQUEST_SPI4_RX | DMA_REQUEST_SPI4_TX
  | DMA_REQUEST_SPI5_RX | DMA_REQUEST_SPI5_TX | DMA_REQUEST_FMAC_WRITE | DMA_REQUEST_FMAC_READ
  | DMA_REQUEST_DFSDM1_FLT0 | DMA_REQUEST_DFSDM1_FLT1 | DMA_REQUEST_DFSDM1_FLT2 | DMA_REQUEST_DFSDM1_FLT3

datatype dma_direction = DMA_PERIPH_TO_MEMORY | DMA_MEMORY_TO_PERIPH | DMA_MEMORY_TO_MEMORY

datatype dma_alignment = ALIGN_BYTE | ALIGN_HALFWORD | ALIGN_WORD

datatype dma_mode = DMA_NORMAL | DMA_CIRCULAR

datatype dma_priority = DMA_PRIORITY_LOW | DMA_PRIORITY_HIGH

datatype dma_threshold = DMA_FIFO_THRESHOLD_HALFFULL | DMA_FIFO_THRESHOLD_FULL

fun get_Request :: "Peripheral \<Rightarrow> nat \<Rightarrow> string + dma_request" where
  "get_Request none i = Inr DMA_REQUEST_MEM2MEM"
| "get_Request adc1 i = Inr DMA_REQUEST_ADC1"
| "get_Request adc2 i = Inr DMA_REQUEST_ADC2"
| "get_Request adc3 i = Inr DMA_REQUEST_ADC3"
| "get_Request dfsdm_filter0 i = Inr DMA_REQUEST_DFSDM1_FLT0"
| "get_Request dfsdm_filter1 i = Inr DMA_REQUEST_DFSDM1_FLT1"
| "get_Request dfsdm_filter2 i = Inr DMA_REQUEST_DFSDM1_FLT2"
| "get_Request dfsdm_filter3 i = Inr DMA_REQUEST_DFSDM1_FLT3"
| "get_Request p i =
     (if p = i2c1 \<and> i = 0 then Inr DMA_REQUEST_I2C1_RX
      else if p = i2c1 \<and> i = 1 then Inr DMA_REQUEST_I2C1_TX
      else if p = i2c2 \<and> i = 0 then Inr DMA_REQUEST_I2C2_RX
      else if p = i2c2 \<and> i = 1 then Inr DMA_REQUEST_I2C2_TX
      else if p = i2c3 \<and> i = 0 then Inr DMA_REQUEST_I2C3_RX
      else if p = i2c3 \<and> i = 1 then Inr DMA_REQUEST_I2C3_TX
      else if p = i2c5 \<and> i = 0 then Inr DMA_REQUEST_I2C5_RX
      else if p = i2c5 \<and> i = 1 then Inr DMA_REQUEST_I2C5_TX
      else if p = spi1 \<and> i = 0 then Inr DMA_REQUEST_SPI1_RX
      else if p = spi1 \<and> i = 1 then Inr DMA_REQUEST_SPI1_TX
      else if p = spi2 \<and> i = 0 then Inr DMA_REQUEST_SPI2_RX
      else if p = spi2 \<and> i = 1 then Inr DMA_REQUEST_SPI2_TX
      else if p = spi3 \<and> i = 0 then Inr DMA_REQUEST_SPI3_RX
      else if p = spi3 \<and> i = 1 then Inr DMA_REQUEST_SPI3_TX
      else if p = spi4 \<and> i = 0 then Inr DMA_REQUEST_SPI4_RX
      else if p = spi4 \<and> i = 1 then Inr DMA_REQUEST_SPI4_TX
      else if p = spi5 \<and> i = 0 then Inr DMA_REQUEST_SPI5_RX
      else if p = spi5 \<and> i = 1 then Inr DMA_REQUEST_SPI5_TX
      else if p = fmac \<and> i = 0 then Inr DMA_REQUEST_MEM2MEM
      else if p = fmac \<and> i = 1 then Inr DMA_REQUEST_FMAC_WRITE
      else if p = fmac \<and> i = 2 then Inr DMA_REQUEST_FMAC_READ
      else Inl ''Invalid DMA request configuration'')"

definition get_Direction :: "Peripheral \<Rightarrow> nat \<Rightarrow> dma_direction" where
  "get_Direction p i =
     (if (is_fmac p \<and> i = 0) \<or> p = none then DMA_MEMORY_TO_MEMORY
      else if (is_i2c p \<and> i = 1) \<or> (is_spi p \<and> i = 1) \<or> (is_fmac p \<and> i = 1) then DMA_MEMORY_TO_PERIPH
      else DMA_PERIPH_TO_MEMORY)"

definition get_PeriphInc :: "Peripheral \<Rightarrow> nat \<Rightarrow> bool" where
  "get_PeriphInc p i \<longleftrightarrow> (is_fmac p \<and> i = 0) \<or> is_none p"

definition get_MemInc :: "Peripheral \<Rightarrow> nat \<Rightarrow> bool" where
  "get_MemInc p i \<longleftrightarrow> \<not> (is_fmac p \<and> i = 0)"

definition get_PeriphDataAlignment :: "Peripheral \<Rightarrow> nat \<Rightarrow> dma_alignment" where
  "get_PeriphDataAlignment p i =
     (if is_spi p \<or> is_i2c p then ALIGN_BYTE
      else if is_none p \<or> is_dfsdm p then ALIGN_WORD else ALIGN_HALFWORD)"

definition get_MemDataAlignment :: "Peripheral \<Rightarrow> nat \<Rightarrow> dma_alignment" where
  "get_MemDataAlignment p i =
     (if is_i2c p then ALIGN_WORD else if is_spi p then ALIGN_BYTE else ALIGN_HALFWORD)"

definition get_Mode :: "Peripheral \<Rightarrow> nat \<Rightarrow> dma_mode" where
  "get_Mode p i = (if is_spi p \<or> is_fmac p \<or> is_none p then DMA_NORMAL else DMA_CIRCULAR)"

definition get_Priority :: "Peripheral \<Rightarrow> nat \<Rightarrow> dma_priority" where
  "get_Priority p i = (if is_fmac p then DMA_PRIORITY_HIGH else DMA_PRIORITY_LOW)"

definition get_FIFOMode :: "Peripheral \<Rightarrow> nat \<Rightarrow> bool" where
  "get_FIFOMode p i \<longleftrightarrow> is_fmac p"

definition get_FIFOThreshold :: "Peripheral \<Rightarrow> nat \<Rightarrow> dma_threshold" where
  "get_FIFOThreshold p i = (if is_spi p then DMA_FIFO_THRESHOLD_FULL else DMA_FIFO_THRESHOLD_HALFFULL)"

definition get_NVICEnabled :: "Peripheral \<Rightarrow> nat \<Rightarrow> bool" where
  "get_NVICEnabled p i \<longleftrightarrow> \<not> is_adc p"

text \<open>Both bursts of \<open>DMA_InitTypeDef\<close> are always single and are left out.\<close>

record dma_init =
  Request :: dma_request
  Direction :: dma_direction
  PeriphInc :: bool
  MemInc :: bool
  PeriphDataAlignment :: dma_alignment
  MemDataAlignment :: dma_alignment
  Mode :: dma_mode
  Priority :: dma_priority
  FIFOMode :: bool
  FIFOThreshold :: dma_threshold

record dma_config =
  dc_instance :: Peripheral
  dc_init :: dma_init
  dc_stream :: nat
  dc_irqn :: IRQn
  dc_id :: nat
  dc_nvic :: bool

section \<open>The assignment\<close>

text \<open>First pass: the streams the user chose are marked as used.\<close>

fun mark_used :: "dma_entry list \<Rightarrow> bool list \<Rightarrow> string + bool list" where
  "mark_used [] used = Inr used"
| "mark_used (e # es) used =
     (if de_stream e \<noteq> 0 then
        (let idx = de_stream e - 1 in
         if used ! idx then Inl ''DMA stream already in use'' else mark_used es (used[idx := True]))
      else mark_used es used)"

text \<open>The first stream that is free, from the position \<open>j\<close>.\<close>

fun first_free :: "bool list \<Rightarrow> nat \<Rightarrow> nat option" where
  "first_free [] j = None"
| "first_free (u # us) j = (if \<not> u then Some j else first_free us (Suc j))"

text \<open>Second pass: an entry without a stream gets the first free one.\<close>

fun assign_free :: "dma_entry list \<Rightarrow> bool list \<Rightarrow> string + dma_entry list" where
  "assign_free [] used = Inr []"
| "assign_free (e # es) used =
     (if de_stream e = 0 then
        (case first_free used 0 of
           None \<Rightarrow> Inl ''Not enough DMA streams available''
         | Some j \<Rightarrow>
             (case get_irqn (j + 1) of
                Inl msg \<Rightarrow> Inl msg
              | Inr q \<Rightarrow> map_sum id (\<lambda>r. e\<lparr>de_stream := j + 1, de_irqn := q\<rparr> # r) (assign_free es (used[j := True]))))
      else map_sum id ((#) e) (assign_free es used))"

definition init_of :: "Peripheral \<Rightarrow> nat \<Rightarrow> string + dma_init" where
  "init_of p i =
     map_sum id (\<lambda>rq. \<lparr>Request = rq, Direction = get_Direction p i, PeriphInc = get_PeriphInc p i,
        MemInc = get_MemInc p i, PeriphDataAlignment = get_PeriphDataAlignment p i,
        MemDataAlignment = get_MemDataAlignment p i, Mode = get_Mode p i, Priority = get_Priority p i,
        FIFOMode = get_FIFOMode p i, FIFOThreshold = get_FIFOThreshold p i\<rparr>) (get_Request p i)"

text \<open>Third pass: \<open>prev\<close> are the streams of the entries before.\<close>

fun make_configs :: "dma_entry list \<Rightarrow> nat list \<Rightarrow> string + dma_config list" where
  "make_configs [] prev = Inr []"
| "make_configs (e # es) prev =
     (if list_ex (\<lambda>s. s = de_stream e) prev then Inl ''DMA stream already in use''
      else
        (case init_of (de_instance e) (de_id e) of
           Inl msg \<Rightarrow> Inl msg
         | Inr di \<Rightarrow>
             map_sum id (\<lambda>r. \<lparr>dc_instance = de_instance e, dc_init = di, dc_stream = de_stream e,
                 dc_irqn = de_irqn e, dc_id = de_id e, dc_nvic = get_NVICEnabled (de_instance e) (de_id e)\<rparr> # r)
               (make_configs es (prev @ [de_stream e]))))"

definition build_dma :: "nat \<Rightarrow> dma_entry list \<Rightarrow> string + dma_config list" where
  "build_dma n es =
     (if length es \<noteq> n then Inl ''DMA entry count mismatch''
      else
        (case mark_used es (replicate MAX_STREAMS False) of
           Inl msg \<Rightarrow> Inl msg
         | Inr used \<Rightarrow>
             (case assign_free es used of
                Inl msg \<Rightarrow> Inl msg
              | Inr ents \<Rightarrow> make_configs ents [])))"

section \<open>Initialization\<close>

record dma_state =
  ds_irq_table :: "nat option list"
  ds_handles :: "(nat \<times> dma_init) option list"
  ds_enabled :: "IRQn list"
  ds_panics :: "string list"

text \<open>One stream: \<open>ok i\<close> tells whether \<open>HAL_DMA_Init\<close> accepts the handle of instance \<open>i\<close>.\<close>

definition init_stream :: "(nat \<Rightarrow> bool) \<Rightarrow> nat \<Rightarrow> dma_config \<Rightarrow> dma_state \<Rightarrow> dma_state" where
  "init_stream ok i c s =
     (let s = s\<lparr>ds_handles := (ds_handles s)[i := None]\<rparr> in
      if dc_stream c = 0 then s\<lparr>ds_panics := ds_panics s @ [''DMA stream must be selected before init'']\<rparr>
      else if \<not> ok i then s\<lparr>ds_panics := ds_panics s @ [''DMA Init failed'']\<rparr>
      else
        (let s = s\<lparr>ds_handles := (ds_handles s)[i := Some (dc_stream c, dc_init c)],
                   ds_irq_table := (ds_irq_table s)[dc_stream c - 1 := Some i]\<rparr> in
         if \<not> dc_nvic c then s else s\<lparr>ds_enabled := ds_enabled s @ [dc_irqn c]\<rparr>))"

definition init_dma :: "(nat \<Rightarrow> bool) \<Rightarrow> dma_config list \<Rightarrow> dma_state \<Rightarrow> dma_state" where
  "init_dma ok cs s = fold (\<lambda>(i, c). init_stream ok i c) (enumerate 0 cs) s"

section \<open>The passes\<close>

definition chosen :: "dma_entry list \<Rightarrow> nat list" where
  "chosen es = filter (\<lambda>s. s \<noteq> 0) (map de_stream es)"

definition free_count :: "bool list \<Rightarrow> nat" where
  "free_count used = length (filter Not used)"

lemma chosen_simps [simp]:
  "chosen [] = []" "chosen (e # es) = (if de_stream e = 0 then chosen es else de_stream e # chosen es)"
  by (simp_all add: chosen_def)

lemma free_count_mark:
  "j < length used \<Longrightarrow> \<not> used ! j \<Longrightarrow> Suc (free_count (used[j := True])) = free_count used"
proof (induction used arbitrary: j)
  case (Cons u us)
  then show ?case by (cases j) (auto simp: free_count_def)
qed simp

lemma first_free_Some:
  "first_free us k = Some j \<Longrightarrow> k \<le> j \<and> j < k + length us \<and> \<not> us ! (j - k)"
  by (induction us k rule: first_free.induct) (auto split: if_splits simp: nth_Cons')

lemma first_free_None: "first_free us k = None \<longleftrightarrow> free_count us = 0"
  by (induction us k rule: first_free.induct) (auto simp: free_count_def)

definition stream_used :: "bool list \<Rightarrow> nat \<Rightarrow> bool" where
  "stream_used used s \<longleftrightarrow> used ! (s - 1)"

lemma stream_used_mark:
  "0 < s \<Longrightarrow> s \<le> length used \<Longrightarrow> 0 < t \<Longrightarrow> t \<le> length used \<Longrightarrow> stream_used (used[t - Suc 0 := True]) s \<longleftrightarrow> s = t \<or> stream_used used s"
  by (cases s; cases t) (auto simp: stream_used_def nth_list_update)

lemma chosen_range: "list_all (\<lambda>e. de_stream e \<le> n) es \<Longrightarrow> s \<in> set (chosen es) \<Longrightarrow> 0 < s \<and> s \<le> n"
  by (auto simp: chosen_def list_all_iff)

text \<open>The first pass accepts distinct streams, and marks exactly them.\<close>

lemma mark_used_spec:
  assumes "list_all (\<lambda>e. de_stream e \<le> length used) es"
  shows "(\<exists>used'. mark_used es used = Inr used') \<longleftrightarrow>
      distinct (chosen es) \<and> (\<forall>s \<in> set (chosen es). \<not> stream_used used s)"
    and "mark_used es used = Inr used' \<Longrightarrow> length used' = length used \<and>
      free_count used' + length (chosen es) = free_count used \<and>
      (\<forall>s. 0 < s \<longrightarrow> s \<le> length used \<longrightarrow> stream_used used' s = (s \<in> set (chosen es) \<or> stream_used used s))"
  using assms
proof (induction es used rule: mark_used.induct)
  case (2 e es used)
  let ?u = "used[de_stream e - 1 := True]"
  {
    case 1
    show ?case
    proof (cases "de_stream e = 0 \<or> used ! (de_stream e - 1)")
      case True
      then show ?thesis using "2.IH"(3) 1 by (auto simp: Let_def stream_used_def)
    next
      case False
      have "(\<forall>s \<in> set (chosen es). \<not> stream_used ?u s) \<longleftrightarrow>
          (\<forall>s \<in> set (chosen es). s \<noteq> de_stream e \<and> \<not> stream_used used s)"
        using 1 False chosen_range [of "length used" es]
        by (intro ball_cong refl) (simp add: stream_used_mark)
      then show ?thesis
        using "2.IH"(1) [OF _ refl] 1 False by (auto simp: Let_def stream_used_def)
    qed
  next
    case 2
    show ?case
    proof (cases "de_stream e = 0")
      case True
      then show ?thesis using "2.IH"(4) 2 by simp
    next
      case False
      then have free: "\<not> used ! (de_stream e - 1)" and rest: "mark_used es ?u = Inr used'"
        using 2(1) by (auto simp: Let_def split: if_splits)
      have "length used' = length ?u \<and> free_count used' + length (chosen es) = free_count ?u \<and>
          (\<forall>s. 0 < s \<longrightarrow> s \<le> length ?u \<longrightarrow> stream_used used' s = (s \<in> set (chosen es) \<or> stream_used ?u s))"
        using "2.IH"(2) [OF False refl free rest] 2(2) by simp
      then show ?thesis
        using False free 2(2) free_count_mark [of "de_stream e - 1" used]
        by (auto simp: stream_used_mark)
    qed
  }
qed auto

text \<open>The second pass succeeds if there is a free stream for every entry without one, keeps the
  streams that were chosen and hands out streams no entry has.\<close>

definition kept :: "dma_entry \<Rightarrow> dma_entry \<Rightarrow> bool" where
  "kept e f \<longleftrightarrow> de_instance f = de_instance e \<and> de_id f = de_id e \<and> 0 < de_stream f \<and> de_stream f \<le> 16 \<and>
     (if de_stream e = 0 then get_irqn (de_stream f) = Inr (de_irqn f)
      else de_stream f = de_stream e \<and> de_irqn f = de_irqn e)"

lemma assign_free_fails:
  assumes "length used = 16"
  shows "(\<exists>ents. assign_free es used = Inr ents) \<longleftrightarrow>
         length (filter (\<lambda>e. de_stream e = 0) es) \<le> free_count used"
  using assms
proof (induction es used rule: assign_free.induct)
  case (2 e es used)
  show ?case
  proof (cases "de_stream e = 0")
    case False
    then show ?thesis using 2 by (cases "assign_free es used") auto
  next
    case True
    show ?thesis
    proof (cases "first_free used 0")
      case None
      then show ?thesis using True first_free_None [of used 0] by simp
    next
      case (Some j)
      have j: "j < 16" "\<not> used ! j" using first_free_Some [OF Some] "2.prems" by auto
      then have "\<exists>q. get_irqn (j + 1) = Inr q" by (auto simp: get_irqn_def)
      then obtain q where q: "get_irqn (j + 1) = Inr q" ..
      show ?thesis
        using "2.IH"(1) [OF True Some q] True Some q j "2.prems" free_count_mark [of j used]
        by (cases "assign_free es (used[j := True])") auto
    qed
  qed
qed simp

lemma assign_free_spec:
  assumes "length used = 16" "assign_free es used = Inr ents"
    and "list_all (\<lambda>e. de_stream e \<le> 16) es" "distinct (chosen es)" "\<forall>s \<in> set (chosen es). stream_used used s"
  shows "list_all2 kept es ents \<and> distinct (map de_stream ents) \<and>
         (\<forall>s \<in> set (map de_stream ents). s \<in> set (chosen es) \<or> \<not> stream_used used s)"
  using assms
proof (induction es used arbitrary: ents rule: assign_free.induct)
  case (2 e es used)
  show ?case
  proof (cases "de_stream e = 0")
    case False
    then obtain r where "assign_free es used = Inr r" "ents = e # r"
      using "2.prems"(2) by (cases "assign_free es used") auto
    then show ?thesis
      using "2.IH"(2) [OF False] "2.prems" False by (auto simp: kept_def)
  next
    case True
    then obtain j q r where j: "first_free used 0 = Some j" "get_irqn (j + 1) = Inr q"
        "assign_free es (used[j := True]) = Inr r" "ents = e\<lparr>de_stream := j + 1, de_irqn := q\<rparr> # r"
      using "2.prems"(2) by (auto split: option.splits sum.splits simp: map_sum_def)
    have free: "j < 16" "\<not> used ! j" using first_free_Some [OF j(1)] "2.prems"(1) by auto
    have used: "\<forall>s \<in> set (chosen es). stream_used (used[j := True]) s"
      using "2.prems"(1,3,5) True free by (auto simp: stream_used_def nth_list_update)
    have ih: "list_all2 kept es r" "distinct (map de_stream r)"
      "\<forall>s \<in> set (map de_stream r). s \<in> set (chosen es) \<or> \<not> stream_used (used[j := True]) s"
      using "2.IH"(1) [OF True j(1,2) _ j(3)] "2.prems" True used by auto
    have new: "j + 1 \<notin> set (map de_stream r)"
    proof
      assume "j + 1 \<in> set (map de_stream r)"
      moreover have "stream_used (used[j := True]) (j + 1)" using free(1) "2.prems"(1) by (simp add: stream_used_def)
      ultimately have "j + 1 \<in> set (chosen es)" using ih(3) by blast
      then show False using "2.prems"(5) True free(2) by (auto simp: stream_used_def)
    qed
    have "s \<in> set (chosen es) \<or> \<not> stream_used used s" if "s \<in> set (map de_stream r)" for s
      using ih(3) that free "2.prems"(1) by (fastforce simp: stream_used_def nth_list_update split: if_splits)
    moreover have "kept e (e\<lparr>de_stream := j + 1, de_irqn := q\<rparr>)"
      using j(2) True free by (simp add: kept_def)
    ultimately show ?thesis
      using ih(1,2) new j(4) True free by (auto simp: stream_used_def)
  qed
qed simp

text \<open>The third pass.\<close>

definition has_request :: "dma_entry \<Rightarrow> bool" where
  "has_request e \<longleftrightarrow> (case get_Request (de_instance e) (de_id e) of Inl _ \<Rightarrow> False | Inr _ \<Rightarrow> True)"

definition config_of :: "dma_entry \<Rightarrow> dma_config \<Rightarrow> bool" where
  "config_of e c \<longleftrightarrow> dc_instance c = de_instance e \<and> dc_stream c = de_stream e \<and> dc_irqn c = de_irqn e \<and>
     dc_id c = de_id e \<and> init_of (de_instance e) (de_id e) = Inr (dc_init c) \<and>
     dc_nvic c = get_NVICEnabled (de_instance e) (de_id e)"

lemma make_configs_spec:
  assumes "distinct (map de_stream es)" "set prev \<inter> set (map de_stream es) = {}"
  shows "(\<exists>cs. make_configs es prev = Inr cs) \<longleftrightarrow> list_all has_request es"
    and "make_configs es prev = Inr cs \<Longrightarrow> list_all2 config_of es cs"
  using assms
proof (induction es prev arbitrary: cs rule: make_configs.induct)
  case (2 e es prev)
  have fresh: "\<not> list_ex (\<lambda>s. s = de_stream e) prev" if "set prev \<inter> set (map de_stream (e # es)) = {}"
    using that by (auto simp: list_ex_iff)
  {
    case 1
    show ?case
    proof (cases "init_of (de_instance e) (de_id e)")
      case (Inl m)
      then show ?thesis using 1 fresh
        by (auto simp: has_request_def init_of_def map_sum_def split: sum.splits)
    next
      case (Inr di)
      then show ?thesis using 1 fresh "2.IH"(1) [OF _ Inr]
        by (cases "make_configs es (prev @ [de_stream e])")
           (auto simp: has_request_def init_of_def map_sum_def split: sum.splits)
    qed
  next
    case 2
    then obtain di r where "init_of (de_instance e) (de_id e) = Inr di"
        "make_configs es (prev @ [de_stream e]) = Inr r"
        "cs = \<lparr>dc_instance = de_instance e, dc_init = di, dc_stream = de_stream e, dc_irqn = de_irqn e,
               dc_id = de_id e, dc_nvic = get_NVICEnabled (de_instance e) (de_id e)\<rparr> # r"
      by (auto split: if_splits sum.splits simp: map_sum_def)
    then show ?case using "2.IH"(2) [of di r] 2 fresh by (auto simp: config_of_def)
  }
qed auto

section \<open>The assignment is right\<close>

lemma chosen_count:
  "length (filter (\<lambda>e. de_stream e = 0) es) + length (chosen es) = length es"
  by (induction es) auto

lemma free_count_replicate: "free_count (replicate n False) = n"
  by (simp add: free_count_def)

lemma kept_same_request: "list_all2 kept es ents \<Longrightarrow> list_all has_request ents = list_all has_request es"
  by (induction rule: list_all2_induct) (auto simp: kept_def has_request_def)

lemma build_dma_passes:
  assumes range: "list_all (\<lambda>e. de_stream e \<le> 16) es"
  shows "(\<exists>cs. build_dma (length es) es = Inr cs) \<longleftrightarrow>
      distinct (chosen es) \<and> length es \<le> 16 \<and> list_all has_request es"
    and "build_dma (length es) es = Inr cs \<Longrightarrow>
      \<exists>ents. list_all2 kept es ents \<and> list_all2 config_of ents cs \<and> distinct (map de_stream ents)"
proof -
  let ?u = "replicate MAX_STREAMS False"
  have len: "length ?u = 16" by (simp add: MAX_STREAMS_def)
  have r: "list_all (\<lambda>e. de_stream e \<le> length ?u) es" using range len by simp
  have unused: "\<forall>s \<in> set (chosen es). \<not> stream_used ?u s"
  proof
    fix s assume "s \<in> set (chosen es)"
    then have "s - 1 < MAX_STREAMS" using chosen_range [OF range] by (fastforce simp: MAX_STREAMS_def)
    then show "\<not> stream_used ?u s" by (simp add: stream_used_def)
  qed
  have pass: "length u = 16 \<and> (length (filter (\<lambda>e. de_stream e = 0) es) \<le> free_count u \<longleftrightarrow> length es \<le> 16) \<and>
      (\<forall>s \<in> set (chosen es). stream_used u s)" if "mark_used es ?u = Inr u" for u
    using mark_used_spec(2) [OF r that] chosen_count [of es] chosen_range [OF range] len
    by (auto simp: free_count_replicate MAX_STREAMS_def)
  have ok: "list_all2 kept es ents \<and> distinct (map de_stream ents) \<and>
      ((\<exists>cs. make_configs ents [] = Inr cs) \<longleftrightarrow> list_all has_request es)"
    if "mark_used es ?u = Inr u" "assign_free es u = Inr ents" for u ents
  proof -
    have "distinct (chosen es)" using mark_used_spec(1) [OF r] that(1) by blast
    then have a: "list_all2 kept es ents" "distinct (map de_stream ents)"
      using assign_free_spec [of u es ents] pass [OF that(1)] that(2) range by auto
    then show ?thesis
      using make_configs_spec(1) [of ents "[]"] kept_same_request [OF a(1)] by simp
  qed
  show "(\<exists>cs. build_dma (length es) es = Inr cs) \<longleftrightarrow>
      distinct (chosen es) \<and> length es \<le> 16 \<and> list_all has_request es"
  proof (cases "mark_used es ?u")
    case (Inl m)
    then show ?thesis using mark_used_spec(1) [OF r] unused by (simp add: build_dma_def)
  next
    case (Inr u)
    then have d: "distinct (chosen es)" using mark_used_spec(1) [OF r] by blast
    note p = pass [OF Inr]
    show ?thesis
    proof (cases "assign_free es u")
      case (Inl m)
      then have "\<not> length es \<le> 16" using assign_free_fails [of u es] p by auto
      then show ?thesis using Inl \<open>mark_used es ?u = Inr u\<close> by (simp add: build_dma_def)
    next
      case (Inr ents)
      then have "length es \<le> 16" using assign_free_fails [of u es] p by auto
      then show ?thesis using Inr \<open>mark_used es ?u = Inr u\<close> ok d by (simp add: build_dma_def)
    qed
  qed
  show "\<exists>ents. list_all2 kept es ents \<and> list_all2 config_of ents cs \<and> distinct (map de_stream ents)"
    if built: "build_dma (length es) es = Inr cs"
  proof -
    obtain u ents where m: "mark_used es ?u = Inr u" "assign_free es u = Inr ents" "make_configs ents [] = Inr cs"
      using built by (auto simp: build_dma_def split: sum.splits)
    note o = ok [OF m(1,2)]
    then have "list_all2 config_of ents cs" using make_configs_spec(2) [of ents "[]" cs] m(3) by auto
    then show ?thesis using o by blast
  qed
qed

text \<open>The streams of a board: the build succeeds exactly if no stream is asked for twice, there are
  at most sixteen entries and every entry has a request; then every entry keeps the stream it
  asked for, the others get streams nobody else has, and each configuration has the peripheral,
  the position and the interrupt of its stream.\<close>

theorem dma_streams_assigned:
  assumes "list_all (\<lambda>e. de_stream e \<le> 16) es"
  shows "((\<exists>cs. build_dma (length es) es = Inr cs) \<longleftrightarrow>
      distinct (chosen es) \<and> length es \<le> 16 \<and> list_all has_request es) \<and>
    (\<forall>cs. build_dma (length es) es = Inr cs \<longrightarrow>
       length cs = length es \<and> distinct (map dc_stream cs) \<and>
       (\<forall>i < length es. 0 < dc_stream (cs ! i) \<and> dc_stream (cs ! i) \<le> 16 \<and>
          dc_instance (cs ! i) = de_instance (es ! i) \<and> dc_id (cs ! i) = de_id (es ! i) \<and>
          (if de_stream (es ! i) = 0 then get_irqn (dc_stream (cs ! i)) = Inr (dc_irqn (cs ! i))
           else dc_stream (cs ! i) = de_stream (es ! i) \<and> dc_irqn (cs ! i) = de_irqn (es ! i))))"
proof (intro conjI allI impI)
  show "(\<exists>cs. build_dma (length es) es = Inr cs) \<longleftrightarrow>
      distinct (chosen es) \<and> length es \<le> 16 \<and> list_all has_request es"
    by (rule build_dma_passes(1) [OF assms])
next
  fix cs assume "build_dma (length es) es = Inr cs"
  from build_dma_passes(2) [OF assms this]
  obtain ents where e: "list_all2 kept es ents" "list_all2 config_of ents cs" "distinct (map de_stream ents)"
    by blast
  have len: "length ents = length es" "length cs = length es"
    using list_all2_lengthD [OF e(1)] list_all2_lengthD [OF e(2)] by simp_all
  have both: "kept (es ! i) (ents ! i)" "config_of (ents ! i) (cs ! i)" if "i < length es" for i
    using e len that by (auto simp: list_all2_conv_all_nth)
  have "map dc_stream cs = map de_stream ents"
    by (rule nth_equalityI) (use len both in \<open>auto simp: config_of_def\<close>)
  then show "distinct (map dc_stream cs)" using e(3) by simp
  show "length cs = length es" by (rule len)
  fix i assume i: "i < length es"
  note b = both [OF i, unfolded kept_def config_of_def]
  show "0 < dc_stream (cs ! i)" "dc_stream (cs ! i) \<le> 16"
    and "dc_instance (cs ! i) = de_instance (es ! i)" "dc_id (cs ! i) = de_id (es ! i)"
    and "if de_stream (es ! i) = 0 then get_irqn (dc_stream (cs ! i)) = Inr (dc_irqn (cs ! i))
         else dc_stream (cs ! i) = de_stream (es ! i) \<and> dc_irqn (cs ! i) = de_irqn (es ! i)"
    using b by (auto split: if_splits)
qed

section \<open>The table of the interrupts\<close>

lemma init_stream_table:
  "ds_irq_table (init_stream ok i c s) =
     (if dc_stream c \<noteq> 0 \<and> ok i then (ds_irq_table s)[dc_stream c - 1 := Some i] else ds_irq_table s)"
  by (simp add: init_stream_def Let_def)

lemma init_fold_other:
  assumes "0 < t" "t \<notin> set (map dc_stream cs)"
  shows "ds_irq_table (fold (\<lambda>(i, c). init_stream ok i c) (enumerate k cs) s) ! (t - 1) = ds_irq_table s ! (t - 1)"
    and "length (ds_irq_table (fold (\<lambda>(i, c). init_stream ok i c) (enumerate k cs) s)) = length (ds_irq_table s)"
proof -
  have "ds_irq_table (fold (\<lambda>(i, c). init_stream ok i c) (enumerate k cs) s) ! (t - 1) = ds_irq_table s ! (t - 1) \<and>
    length (ds_irq_table (fold (\<lambda>(i, c). init_stream ok i c) (enumerate k cs) s)) = length (ds_irq_table s)"
    using assms(2)
  proof (induction cs arbitrary: k s)
    case (Cons c cs)
    have "dc_stream c \<noteq> 0 \<Longrightarrow> dc_stream c - 1 \<noteq> t - 1" using Cons.prems assms(1) by auto
    then show ?case using Cons.IH [of "Suc k" "init_stream ok k c s"] Cons.prems by (auto simp: init_stream_table)
  qed simp
  then show "ds_irq_table (fold (\<lambda>(i, c). init_stream ok i c) (enumerate k cs) s) ! (t - 1) = ds_irq_table s ! (t - 1)"
    and "length (ds_irq_table (fold (\<lambda>(i, c). init_stream ok i c) (enumerate k cs) s)) = length (ds_irq_table s)"
    by simp_all
qed

lemma init_fold_own:
  assumes "distinct (map dc_stream cs)" "i < length cs" "0 < dc_stream (cs ! i)"
    and "dc_stream (cs ! i) \<le> length (ds_irq_table s)"
  shows "ds_irq_table (fold (\<lambda>(i, c). init_stream ok i c) (enumerate k cs) s) ! (dc_stream (cs ! i) - 1) =
    (if ok (k + i) then Some (k + i) else ds_irq_table s ! (dc_stream (cs ! i) - 1))"
  using assms
proof (induction cs arbitrary: i k s)
  case (Cons c cs)
  let ?s = "init_stream ok k c s"
  have len: "length (ds_irq_table ?s) = length (ds_irq_table s)" by (simp add: init_stream_table)
  show ?case
  proof (cases i)
    case 0
    then show ?thesis
      using init_fold_other(1) [of "dc_stream c" cs ok "Suc k" ?s] Cons.prems by (auto simp: init_stream_table)
  next
    case (Suc j)
    have "dc_stream c \<noteq> dc_stream (cs ! j)" using Cons.prems Suc by auto
    then have "dc_stream c \<noteq> 0 \<Longrightarrow> dc_stream c - 1 \<noteq> dc_stream (cs ! j) - 1" using Cons.prems Suc by auto
    then show ?thesis using Cons.IH [of j ?s "Suc k"] Cons.prems Suc len by (auto simp: init_stream_table)
  qed
qed simp

text \<open>The interrupt of a stream reaches the instance that owns the stream: for a board that was
  built, after initialization the table holds instance \<open>i\<close> at the stream of entry \<open>i\<close> whenever the
  hardware accepted it, and what it held before where the hardware did not.\<close>

theorem stream_interrupt_reaches_owner:
  assumes "list_all (\<lambda>e. de_stream e \<le> 16) es" "build_dma (length es) es = Inr cs"
    and "length (ds_irq_table s) = MAX_STREAMS" "i < length es"
  shows "ds_irq_table (init_dma ok cs s) ! (dc_stream (cs ! i) - 1) =
    (if ok i then Some i else ds_irq_table s ! (dc_stream (cs ! i) - 1))"
proof -
  obtain ents where e: "list_all2 kept es ents" "list_all2 config_of ents cs" "distinct (map de_stream ents)"
    using build_dma_passes(2) [OF assms(1,2)] by blast
  have len: "length ents = length es" "length cs = length es"
    using list_all2_lengthD [OF e(1)] list_all2_lengthD [OF e(2)] by simp_all
  have both: "kept (es ! j) (ents ! j)" "config_of (ents ! j) (cs ! j)" if "j < length es" for j
    using e len that by (auto simp: list_all2_conv_all_nth)
  have "map dc_stream cs = map de_stream ents"
    by (rule nth_equalityI) (use len both in \<open>auto simp: config_of_def\<close>)
  then show ?thesis
    using init_fold_own [of cs i s ok 0] both [OF assms(4)] assms(3,4) len e(3)
    by (auto simp: init_dma_def kept_def config_of_def MAX_STREAMS_def)
qed

section \<open>Instances\<close>

definition demo_dma :: "dma_entry list" where
  "demo_dma =
     [\<lparr>de_instance = spi1, de_stream = 1, de_irqn = DMA1_Stream_IRQn 0, de_id = 0\<rparr>,
      \<lparr>de_instance = adc1, de_stream = 0, de_irqn = No_IRQn, de_id = 0\<rparr>]"

lemma demo_dma_built:
  "build_dma (length demo_dma) demo_dma = Inr
     [\<lparr>dc_instance = spi1, dc_init = projr (init_of spi1 0), dc_stream = 1, dc_irqn = DMA1_Stream_IRQn 0,
       dc_id = 0, dc_nvic = True\<rparr>,
      \<lparr>dc_instance = adc1, dc_init = projr (init_of adc1 0), dc_stream = 2, dc_irqn = DMA1_Stream_IRQn 1,
       dc_id = 0, dc_nvic = False\<rparr>]"
  by (simp add: build_dma_def demo_dma_def MAX_STREAMS_def numeral_eq_Suc get_irqn_def init_of_def
      get_NVICEnabled_def is_adc_def is_one_of_def)

lemma dma_streams_assigned_witness:
  "distinct (chosen demo_dma) \<and> list_all has_request demo_dma"
  using dma_streams_assigned [of demo_dma] demo_dma_built by (force simp: demo_dma_def)

lemma stream_interrupt_reaches_owner_witness:
  "ds_irq_table (init_dma (\<lambda>_. True) (projr (build_dma (length demo_dma) demo_dma))
     \<lparr>ds_irq_table = replicate 16 None, ds_handles = replicate 2 None, ds_enabled = [], ds_panics = []\<rparr>) ! 1 = Some 1"
  using stream_interrupt_reaches_owner [of demo_dma _
      "\<lparr>ds_irq_table = replicate 16 None, ds_handles = replicate 2 None, ds_enabled = [], ds_panics = []\<rparr>" 1 "\<lambda>_. True",
      OF _ demo_dma_built]
  by (simp add: demo_dma_built MAX_STREAMS_def) (simp add: demo_dma_def)

end
