(* ===== verification/Gpio.thy ===== *)
theory Gpio
  imports Prelude
begin

unbundle bit_operations_syntax

text \<open>
  The pins of the board (\<open>Inc/HALAL/Models/GPIO.hpp\<close>, \<open>Pin.hpp\<close>), the context in which the devices of a board
  are inscribed while it is compiled (\<open>BuildCtx\<close> of \<open>Inc/ST-LIB.hpp\<close>), the digital outputs and inputs
  (\<open>Inc/ST-LIB_LOW/DigitalOutput2.hpp\<close>, \<open>DigitalInput2.hpp\<close>) and the external interrupts
  (\<open>Inc/HALAL/Services/EXTI\<close>). A \<open>compile_error\<close> is \<open>Inl\<close>; the constants of the vendor's library are
  constructors that carry their names, and its functions are recorded calls or parameters.
\<close>

section \<open>Pins\<close>

datatype OperationMode =
    INPUT | OUTPUT_PUSHPULL | OUTPUT_OPENDRAIN | ANALOG | ALT_PP | ALT_OD
  | EXTI_RISING | EXTI_FALLING | EXTI_RISING_FALLING

datatype gpio_mode =
    GPIO_MODE_INPUT | GPIO_MODE_OUTPUT_PP | GPIO_MODE_OUTPUT_OD | GPIO_MODE_ANALOG | GPIO_MODE_AF_PP
  | GPIO_MODE_AF_OD | GPIO_MODE_IT_RISING | GPIO_MODE_IT_FALLING | GPIO_MODE_IT_RISING_FALLING

fun to_hal_mode :: "OperationMode \<Rightarrow> gpio_mode" where
  "to_hal_mode INPUT = GPIO_MODE_INPUT"
| "to_hal_mode OUTPUT_PUSHPULL = GPIO_MODE_OUTPUT_PP"
| "to_hal_mode OUTPUT_OPENDRAIN = GPIO_MODE_OUTPUT_OD"
| "to_hal_mode ANALOG = GPIO_MODE_ANALOG"
| "to_hal_mode ALT_PP = GPIO_MODE_AF_PP"
| "to_hal_mode ALT_OD = GPIO_MODE_AF_OD"
| "to_hal_mode EXTI_RISING = GPIO_MODE_IT_RISING"
| "to_hal_mode EXTI_FALLING = GPIO_MODE_IT_FALLING"
| "to_hal_mode EXTI_RISING_FALLING = GPIO_MODE_IT_RISING_FALLING"

datatype Pull = Pull_None | Pull_Up | Pull_Down

datatype gpio_pull = GPIO_NOPULL | GPIO_PULLUP | GPIO_PULLDOWN

fun to_hal_pull :: "Pull \<Rightarrow> gpio_pull" where
  "to_hal_pull Pull_None = GPIO_NOPULL"
| "to_hal_pull Pull_Up = GPIO_PULLUP"
| "to_hal_pull Pull_Down = GPIO_PULLDOWN"

datatype Speed = Low | Medium | High | VeryHigh

datatype gpio_speed =
    GPIO_SPEED_FREQ_LOW | GPIO_SPEED_FREQ_MEDIUM | GPIO_SPEED_FREQ_HIGH | GPIO_SPEED_FREQ_VERY_HIGH

fun to_hal_speed :: "Speed \<Rightarrow> gpio_speed" where
  "to_hal_speed Low = GPIO_SPEED_FREQ_LOW"
| "to_hal_speed Medium = GPIO_SPEED_FREQ_MEDIUM"
| "to_hal_speed High = GPIO_SPEED_FREQ_HIGH"
| "to_hal_speed VeryHigh = GPIO_SPEED_FREQ_VERY_HIGH"

datatype AlternateFunction =
    NO_AF | AF0 | AF1 | AF2 | AF3 | AF4 | AF5 | AF6 | AF7 | AF8 | AF9 | AF10 | AF11 | AF12 | AF13 | AF14 | AF15

text \<open>The values of the enumerators run against their numbers.\<close>

fun af_value :: "AlternateFunction \<Rightarrow> nat" where
  "af_value NO_AF = 20"
| "af_value AF0 = 15"
| "af_value AF1 = 14"
| "af_value AF2 = 13"
| "af_value AF3 = 12"
| "af_value AF4 = 11"
| "af_value AF5 = 10"
| "af_value AF6 = 9"
| "af_value AF7 = 8"
| "af_value AF8 = 7"
| "af_value AF9 = 6"
| "af_value AF10 = 5"
| "af_value AF11 = 4"
| "af_value AF12 = 3"
| "af_value AF13 = 2"
| "af_value AF14 = 1"
| "af_value AF15 = 0"

datatype Port = PA | PB | PC | PD | PE | PF | PG | PH

record Pin =
  pin_port :: Port
  pin_mask :: u32
  pin_afs :: u16

text \<open>The alternate functions of the pins of each port, from pin 0 on, as in \<open>Pin.hpp\<close>.\<close>

fun port_afs :: "Port \<Rightarrow> u16 list" where
  "port_afs PA =
     [0x7DF9, 0x79FB, 0x7B9B, 0x7F7B, 0xA78F, 0xD4AF, 0x76FF, 0x74FB,
      0xDB3F, 0x5F17, 0x513F, 0x5743, 0x57CB, 0x8001, 0x8001, 0xCFD3]"
| "port_afs PB =
     [0x7AF3, 0x7A73, 0xEBF5, 0xC6F3, 0xE7D1, 0x7FFF, 0x6FFF, 0x6B9D,
      0x7BFF, 0x7FFF, 0x5F73, 0x5B33, 0x5F7F, 0x5F7F, 0x7FCB, 0xFECB]"
| "port_afs PC =
     [0x52FB, 0xFEFB, 0x9E79, 0x9C79, 0xD47B, 0xF87F, 0x3DEF, 0xBBFF,
      0xB1FD, 0xBEFF, 0x1BFF, 0x1BCF, 0xEF8F, 0x0001, 0x0001, 0x0001]"
| "port_afs PD =
     [0x10DB, 0x10C9, 0xE8CF, 0x150F, 0x0129, 0x0129, 0x7FBF, 0x1779,
      0x1149, 0x1109, 0x110B, 0x1969, 0x7D6D, 0x6C79, 0x2099, 0x2099]"
| "port_afs PE =
     [0x68AF, 0x408F, 0xAEF9, 0x8A99, 0xBEAF, 0xBEAF, 0xEEFF, 0x5129,
      0x512D, 0x5129, 0x5129, 0x543B, 0x542F, 0x542F, 0x442B, 0x401F]"
| "port_afs PF =
     [0x0A4D, 0x0A4D, 0x0A4D, 0x004D, 0x0049, 0x0049, 0x67A5, 0x67A5,
      0x47E5, 0x47E5, 0x6867, 0x046F, 0x004B, 0x180B, 0x180B, 0x0809]"
| "port_afs PG =
     [0x0059, 0x0059, 0x101B, 0x101D, 0x4019, 0x4009, 0x402F, 0x034F,
      0x159B, 0x25FD, 0x347F, 0x4CF7, 0x5DFF, 0xCD3F, 0xCD7F, 0x015D]"
| "port_afs PH =
     [0x0001, 0x0001]"

text \<open>The constant \<open>P\<langle>port\<rangle>\<langle>k\<rangle>\<close>; \<open>GPIO_PIN_\<langle>k\<rangle>\<close> is the mask with the bit \<open>k\<close>.\<close>

definition PIN :: "Port \<Rightarrow> nat \<Rightarrow> Pin" where
  "PIN p k = \<lparr>pin_port = p, pin_mask = push_bit k 1, pin_afs = port_afs p ! k\<rparr>"

definition valid_af :: "Pin \<Rightarrow> AlternateFunction \<Rightarrow> bool" where
  "valid_af p af \<longleftrightarrow>
     (if af = NO_AF then True else (push_bit (af_value af) 1 AND ucast (pin_afs p) :: u32) \<noteq> 0)"

definition same_pin :: "Pin \<Rightarrow> Pin \<Rightarrow> bool" where
  "same_pin a b \<longleftrightarrow> pin_port a = pin_port b \<and> pin_mask a = pin_mask b"

section \<open>The context of a build\<close>

text \<open>
  A domain of \<open>BuildCtx\<close>: the first \<open>size\<close> places of its storage and of its owners. Adding beyond
  the capacity writes outside an array in a constant expression, which does not compile.
\<close>

record 'e domain_ctx =
  dx_storage :: "'e list"
  dx_owners :: "nat list"

definition empty_domain :: "'e domain_ctx" where
  "empty_domain = \<lparr>dx_storage = [], dx_owners = []\<rparr>"

definition ctx_add :: "nat \<Rightarrow> 'e \<Rightarrow> nat \<Rightarrow> 'e domain_ctx \<Rightarrow> string + (nat \<times> 'e domain_ctx)" where
  "ctx_add max_count e owner d =
     (let idx = length (dx_storage d) in
      if max_count \<le> idx then Inl ''array index out of bounds''
      else Inr (idx, d\<lparr>dx_storage := dx_storage d @ [e], dx_owners := dx_owners d @ [owner]\<rparr>))"

fun owner_index_from :: "nat \<Rightarrow> nat list \<Rightarrow> nat \<Rightarrow> string + nat" where
  "owner_index_from i [] target = Inl ''Device not registered in domain''"
| "owner_index_from i (w # ws) target = (if w = target then Inr i else owner_index_from (i + 1) ws target)"

definition owner_index_of :: "'e domain_ctx \<Rightarrow> nat \<Rightarrow> string + nat" where
  "owner_index_of d target = owner_index_from 0 (dx_owners d) target"

section \<open>General purpose input and output\<close>

record gpio_entry =
  ge_port :: Port
  ge_pin :: u32
  ge_mode :: OperationMode
  ge_pull :: Pull
  ge_speed :: Speed
  ge_af :: AlternateFunction

definition make_gpio :: "Pin \<Rightarrow> OperationMode \<Rightarrow> Pull \<Rightarrow> Speed \<Rightarrow> AlternateFunction \<Rightarrow> string + gpio_entry" where
  "make_gpio p mode pull speed af =
     (if \<not> valid_af p af then Inl ''Alternate function not valid for this pin''
      else if (mode = ALT_PP \<or> mode = ALT_OD) \<and> af = NO_AF
      then Inl ''Alternate function must be specified for alternate modes''
      else Inr \<lparr>ge_port = pin_port p, ge_pin = pin_mask p, ge_mode = mode, ge_pull = pull,
                 ge_speed = speed, ge_af = af\<rparr>)"

definition GPIO_MAX :: nat where
  "GPIO_MAX = 110"

definition inscribe_gpio :: "nat \<Rightarrow> gpio_entry \<Rightarrow> gpio_entry domain_ctx \<Rightarrow> string + (nat \<times> gpio_entry domain_ctx)" where
  "inscribe_gpio owner e d = ctx_add GPIO_MAX e owner d"

record gpio_init =
  Pin :: u32
  Mode :: gpio_mode
  PullUp :: gpio_pull
  SpeedFreq :: gpio_speed
  Alternate :: u32

type_synonym gpio_config = "Port \<times> gpio_init"

definition gpio_config_of :: "gpio_entry \<Rightarrow> gpio_config" where
  "gpio_config_of e =
     (ge_port e, \<lparr>Pin = ge_pin e, Mode = to_hal_mode (ge_mode e), PullUp = to_hal_pull (ge_pull e),
        SpeedFreq = to_hal_speed (ge_speed e),
        Alternate = (if ge_mode e = ALT_PP \<or> ge_mode e = ALT_OD then 15 - of_nat (af_value (ge_af e)) else 0)\<rparr>)"

text \<open>\<open>prev\<close> are the entries before.\<close>

fun build_gpio_from :: "gpio_entry list \<Rightarrow> gpio_entry list \<Rightarrow> string + gpio_config list" where
  "build_gpio_from prev [] = Inr []"
| "build_gpio_from prev (e # es) =
     (if list_ex (\<lambda>q. ge_pin q = ge_pin e \<and> ge_port q = ge_port e) prev then Inl ''GPIO already inscribed''
      else map_sum id ((#) (gpio_config_of e)) (build_gpio_from (prev @ [e]) es))"

definition build_gpio :: "gpio_entry list \<Rightarrow> string + gpio_config list" where
  "build_gpio es = build_gpio_from [] es"

text \<open>At run time: the port is the register block of the port, \<open>None\<close> the null pointer.\<close>

record gpio_instance =
  gi_port :: "Port option"
  gi_pin :: u16

definition port_to_reg :: "Port \<Rightarrow> Port option" where
  "port_to_reg p = Some p"

datatype gpio_call =
    Gpio_clock_enable Port
  | HAL_GPIO_Init Port gpio_init
  | HAL_GPIO_WritePin Port u16 bool
  | HAL_GPIO_TogglePin Port u16

definition enable_gpio_clock :: "Port \<Rightarrow> gpio_call list" where
  "enable_gpio_clock p = [Gpio_clock_enable p]"

text \<open>An operation on an instance is the call it makes; on a default instance, whose port is null, it
  is undefined. What \<open>HAL_GPIO_ReadPin\<close> reads is the parameter \<open>level\<close>.\<close>

definition gpio_turn_on :: "gpio_instance \<Rightarrow> gpio_call option" where
  "gpio_turn_on g = map_option (\<lambda>p. HAL_GPIO_WritePin p (gi_pin g) True) (gi_port g)"

definition gpio_turn_off :: "gpio_instance \<Rightarrow> gpio_call option" where
  "gpio_turn_off g = map_option (\<lambda>p. HAL_GPIO_WritePin p (gi_pin g) False) (gi_port g)"

definition gpio_toggle :: "gpio_instance \<Rightarrow> gpio_call option" where
  "gpio_toggle g = map_option (\<lambda>p. HAL_GPIO_TogglePin p (gi_pin g)) (gi_port g)"

definition gpio_read :: "(Port \<Rightarrow> u16 \<Rightarrow> bool) \<Rightarrow> gpio_instance \<Rightarrow> bool option" where
  "gpio_read level g = map_option (\<lambda>p. level p (gi_pin g)) (gi_port g)"

definition gpio_instance_of :: "gpio_config \<Rightarrow> gpio_instance" where
  "gpio_instance_of c = \<lparr>gi_port = port_to_reg (fst c), gi_pin = ucast (Pin (snd c))\<rparr>"

fun init_gpio :: "gpio_config list \<Rightarrow> gpio_call list \<times> gpio_instance list" where
  "init_gpio [] = ([], [])"
| "init_gpio (c # cs) =
     (let (calls, gs) = init_gpio cs in
      (enable_gpio_clock (fst c) @ HAL_GPIO_Init (fst c) (snd c) # calls, gpio_instance_of c # gs))"

section \<open>Digital outputs and inputs\<close>

text \<open>An entry, a configuration and an instance of either is the index of its pin's instance.\<close>

definition make_digital_output :: "Pin \<Rightarrow> bool \<Rightarrow> Pull \<Rightarrow> Speed \<Rightarrow> string + gpio_entry" where
  "make_digital_output p open_drain pull speed =
     make_gpio p (if open_drain then OUTPUT_OPENDRAIN else OUTPUT_PUSHPULL) pull speed NO_AF"

definition make_digital_input :: "Pin \<Rightarrow> Pull \<Rightarrow> Speed \<Rightarrow> string + gpio_entry" where
  "make_digital_input p pull speed = make_gpio p INPUT pull speed NO_AF"

definition build_digital_output :: "nat list \<Rightarrow> nat list" where
  "build_digital_output es = es"

definition build_digital_input :: "nat list \<Rightarrow> nat list" where
  "build_digital_input es = es"

text \<open>An instance points to an instance of a pin, by its index.\<close>

definition init_digital_output :: "nat list \<Rightarrow> nat list" where
  "init_digital_output cs = map (\<lambda>i. i) cs"

definition init_digital_input :: "nat list \<Rightarrow> nat list" where
  "init_digital_input cs = map (\<lambda>i. i) cs"

definition gpio_at :: "gpio_instance list \<Rightarrow> nat \<Rightarrow> gpio_instance option" where
  "gpio_at gs i = (if i < length gs then Some (gs ! i) else None)"

definition output_turn_on :: "gpio_instance list \<Rightarrow> nat \<Rightarrow> gpio_call option" where
  "output_turn_on gs i = Option.bind (gpio_at gs i) gpio_turn_on"

definition output_turn_off :: "gpio_instance list \<Rightarrow> nat \<Rightarrow> gpio_call option" where
  "output_turn_off gs i = Option.bind (gpio_at gs i) gpio_turn_off"

definition output_toggle :: "gpio_instance list \<Rightarrow> nat \<Rightarrow> gpio_call option" where
  "output_toggle gs i = Option.bind (gpio_at gs i) gpio_toggle"

definition input_read :: "(Port \<Rightarrow> u16 \<Rightarrow> bool) \<Rightarrow> gpio_instance list \<Rightarrow> nat \<Rightarrow> bool option" where
  "input_read level gs i = Option.bind (gpio_at gs i) (gpio_read level)"

section \<open>External interrupts\<close>

text \<open>\<open>get_pin_index\<close>: the lowest bit of the mask, 255 when there is none.\<close>

fun pin_index_from :: "u16 \<Rightarrow> nat list \<Rightarrow> nat" where
  "pin_index_from m [] = 255"
| "pin_index_from m (i # is) = (if m AND push_bit i 1 \<noteq> 0 then i else pin_index_from m is)"

definition get_pin_index :: "u16 \<Rightarrow> nat" where
  "get_pin_index m = pin_index_from m [0 ..< 16]"

datatype Trigger = RISING_EDGE | FALLING_EDGE | BOTH_EDGES

fun trigger_mode :: "Trigger \<Rightarrow> OperationMode" where
  "trigger_mode RISING_EDGE = EXTI_RISING"
| "trigger_mode FALLING_EDGE = EXTI_FALLING"
| "trigger_mode BOTH_EDGES = EXTI_RISING_FALLING"

text \<open>An action is the number of a function; \<open>None\<close> is a null pointer.\<close>

record exti_entry =
  xe_pin_idx :: nat
  xe_mask :: u16
  xe_action :: "nat option"

definition make_exti :: "Pin \<Rightarrow> Trigger \<Rightarrow> string + gpio_entry" where
  "make_exti p t = make_gpio p (trigger_mode t) Pull_None Low NO_AF"

definition EXTI_MAX :: nat where
  "EXTI_MAX = 16"

definition exti_entry_of :: "nat \<Rightarrow> gpio_entry \<Rightarrow> nat option \<Rightarrow> exti_entry" where
  "exti_entry_of idx g act = \<lparr>xe_pin_idx = idx, xe_mask = ucast (ge_pin g), xe_action = act\<rparr>"

record exti_config =
  xc_pin_idx :: nat
  xc_num :: nat
  xc_action :: "nat option"

fun build_exti_from :: "exti_entry list \<Rightarrow> u16 \<Rightarrow> string + exti_config list" where
  "build_exti_from [] used = Inr []"
| "build_exti_from (e # es) used =
     (let pin_num = get_pin_index (xe_mask e) in
      if 16 \<le> pin_num then Inl ''Invalid Pin for EXTI''
      else
        (let line_mask = push_bit pin_num 1 in
         if used AND line_mask \<noteq> 0 then Inl ''EXTI line already used''
         else map_sum id ((#) \<lparr>xc_pin_idx = xe_pin_idx e, xc_num = pin_num, xc_action = xe_action e\<rparr>)
                (build_exti_from es (used OR line_mask))))"

definition build_exti :: "exti_entry list \<Rightarrow> string + exti_config list" where
  "build_exti es = build_exti_from es 0"

record exti_instance =
  xi_on :: bool
  xi_action :: "nat option"
  xi_gpio :: nat

text \<open>
  The state: the instances, the table of the lines \<open>g_instances\<close>, with the index of an instance for
  its address, the interrupts enabled at the controller, by their number, and the actions that were
  called so far. What an action does is not modelled, only that it is called.
\<close>

datatype exti_irqn = EXTI_IRQn nat | EXTI9_5_IRQn | EXTI15_10_IRQn

record exti_state =
  xs_instances :: "exti_instance list"
  xs_lines :: "nat option list"
  xs_enabled :: "exti_irqn list"
  xs_called :: "nat list"

definition initial_exti :: "nat \<Rightarrow> exti_state" where
  "initial_exti n =
     \<lparr>xs_instances = replicate n \<lparr>xi_on = False, xi_action = None, xi_gpio = 0\<rparr>,
      xs_lines = replicate EXTI_MAX None, xs_enabled = [], xs_called = []\<rparr>"

definition exti_irq_of :: "nat \<Rightarrow> exti_irqn" where
  "exti_irq_of k = (if k \<le> 4 then EXTI_IRQn k else if k \<le> 9 then EXTI9_5_IRQn else EXTI15_10_IRQn)"

definition init_exti_one :: "nat \<Rightarrow> exti_config \<Rightarrow> exti_state \<Rightarrow> exti_state" where
  "init_exti_one i c s =
     s\<lparr>xs_lines := (xs_lines s)[xc_num c := Some i],
       xs_instances := (xs_instances s)[i := (xs_instances s ! i)\<lparr>xi_action := xc_action c, xi_gpio := xc_pin_idx c\<rparr>],
       xs_enabled := xs_enabled s @ [exti_irq_of (xc_num c)]\<rparr>"

definition init_exti :: "exti_config list \<Rightarrow> exti_state \<Rightarrow> exti_state" where
  "init_exti cs s = fold (\<lambda>(i, c). init_exti_one i c) (enumerate 0 cs) s"

definition exti_turn_on :: "nat \<Rightarrow> exti_state \<Rightarrow> exti_state" where
  "exti_turn_on i s = s\<lparr>xs_instances := (xs_instances s)[i := (xs_instances s ! i)\<lparr>xi_on := True\<rparr>]\<rparr>"

definition exti_turn_off :: "nat \<Rightarrow> exti_state \<Rightarrow> exti_state" where
  "exti_turn_off i s = s\<lparr>xs_instances := (xs_instances s)[i := (xs_instances s ! i)\<lparr>xi_on := False\<rparr>]\<rparr>"

definition exti_read :: "(Port \<Rightarrow> u16 \<Rightarrow> bool) \<Rightarrow> gpio_instance list \<Rightarrow> nat \<Rightarrow> exti_state \<Rightarrow> bool option" where
  "exti_read level gs i s = Option.bind (gpio_at gs (xi_gpio (xs_instances s ! i))) (gpio_read level)"

definition HAL_GPIO_EXTI_Callback :: "u16 \<Rightarrow> exti_state \<Rightarrow> exti_state" where
  "HAL_GPIO_EXTI_Callback m s =
     (let index = get_pin_index m in
      if EXTI_MAX \<le> index then s
      else
        (case xs_lines s ! index of
           None \<Rightarrow> s
         | Some i \<Rightarrow>
             (case xi_action (xs_instances s ! i) of
                None \<Rightarrow> s
              | Some a \<Rightarrow> if xi_on (xs_instances s ! i) then s\<lparr>xs_called := xs_called s @ [a]\<rparr> else s)))"

text \<open>
  The vendor's library is a parameter: \<open>get_it\<close> tells whether a line is pending, and \<open>irq\<close> is
  \<open>HAL_GPIO_EXTI_IRQHandler\<close>, with the state of the hardware after it and whether it called the
  callback.
\<close>

record 'w exti_hal =
  xh_get_it :: "u16 \<Rightarrow> 'w \<Rightarrow> bool"
  xh_irq :: "u16 \<Rightarrow> 'w \<Rightarrow> bool \<times> 'w"

definition exti_line :: "'w exti_hal \<Rightarrow> u16 \<Rightarrow> 'w \<times> exti_state \<Rightarrow> 'w \<times> exti_state" where
  "exti_line hal m ws =
     (let (call, w) = xh_irq hal m (fst ws)
      in (w, if call then HAL_GPIO_EXTI_Callback m (snd ws) else snd ws))"

definition exti_line_if :: "'w exti_hal \<Rightarrow> u16 \<Rightarrow> 'w \<times> exti_state \<Rightarrow> 'w \<times> exti_state" where
  "exti_line_if hal m ws = (if xh_get_it hal m (fst ws) then exti_line hal m ws else ws)"

text \<open>The handlers of the vector table; a shared one walks over its lines by shifting a mask.\<close>

fun walk_lines :: "'w exti_hal \<Rightarrow> u32 list \<Rightarrow> 'w \<times> exti_state \<Rightarrow> 'w \<times> exti_state" where
  "walk_lines hal [] ws = ws"
| "walk_lines hal (m # ms) ws = walk_lines hal ms (exti_line_if hal (ucast m) ws)"

fun exti_irq_handler :: "'w exti_hal \<Rightarrow> exti_irqn \<Rightarrow> 'w \<times> exti_state \<Rightarrow> 'w \<times> exti_state" where
  "exti_irq_handler hal (EXTI_IRQn k) ws = exti_line hal (push_bit k 1) ws"
| "exti_irq_handler hal EXTI9_5_IRQn ws = walk_lines hal (map (\<lambda>k. push_bit k 1) [5 ..< 10]) ws"
| "exti_irq_handler hal EXTI15_10_IRQn ws = walk_lines hal (map (\<lambda>k. push_bit k 1) [10 ..< 16]) ws"

section \<open>Pins are configured once\<close>

definition pin_key :: "gpio_entry \<Rightarrow> Port \<times> u32" where
  "pin_key e = (ge_port e, ge_pin e)"

lemma build_gpio_from_spec:
  "distinct (map pin_key prev) \<Longrightarrow>
   build_gpio_from prev es = Inr cs \<longleftrightarrow> cs = map gpio_config_of es \<and> distinct (map pin_key (prev @ es))"
proof (induction es arbitrary: prev cs)
  case (Cons e es)
  have used: "list_ex (\<lambda>q. ge_pin q = ge_pin e \<and> ge_port q = ge_port e) prev \<longleftrightarrow> pin_key e \<in> pin_key ` set prev"
    by (simp add: list_ex_iff pin_key_def image_iff) metis
  show ?case
  proof (cases "pin_key e \<in> pin_key ` set prev")
    case True
    then show ?thesis using used by auto
  next
    case False
    have "build_gpio_from prev (e # es) = Inr cs \<longleftrightarrow>
        (\<exists>r. build_gpio_from (prev @ [e]) es = Inr r \<and> cs = gpio_config_of e # r)"
      using False used by (cases "build_gpio_from (prev @ [e]) es") auto
    moreover have "distinct (map pin_key (prev @ [e]))" using False Cons.prems by simp
    ultimately show ?thesis using Cons.IH [of "prev @ [e]"] by (simp del: build_gpio_from.simps) blast
  qed
qed auto

lemma build_gpio_spec:
  "build_gpio es = Inr cs \<longleftrightarrow> cs = map gpio_config_of es \<and> distinct (map pin_key es)"
  using build_gpio_from_spec [of "[]"] by (simp add: build_gpio_def)

lemma init_gpio_instances: "snd (init_gpio cs) = map gpio_instance_of cs"
  by (induction cs) (auto simp: case_prod_beta)

lemma init_gpio_calls:
  "fst (init_gpio cs) = concat (map (\<lambda>c. [Gpio_clock_enable (fst c), HAL_GPIO_Init (fst c) (snd c)]) cs)"
  by (induction cs) (auto simp: case_prod_beta enable_gpio_clock_def)

lemma ctx_add_spec:
  "ctx_add k e p d = Inr (i, d') \<Longrightarrow>
     i = length (dx_storage d) \<and> dx_storage d' = dx_storage d @ [e] \<and> dx_owners d' = dx_owners d @ [p]"
  by (auto simp: ctx_add_def Let_def split: if_splits)

lemma owner_index_from_spec:
  "owner_index_from k ws t = Inr i \<longleftrightarrow>
     k \<le> i \<and> i < k + length ws \<and> ws ! (i - k) = t \<and> (\<forall>j < i - k. ws ! j \<noteq> t)"
proof (induction ws arbitrary: k)
  case (Cons w ws)
  show ?case
  proof (cases "w = t")
    case True
    show ?thesis
    proof (cases "i \<le> k")
      case False
      then have "\<exists>j < i - k. (w # ws) ! j = t" using True by (intro exI [of _ 0]) simp
      then show ?thesis using True False by auto
    qed (use True in auto)
  next
    case False
    show ?thesis
    proof (cases "k < i")
      case True
      then obtain d where d: "i = k + Suc d" by (metis add_Suc_right less_imp_Suc_add)
      show ?thesis using False Cons.IH [of "k + 1"] unfolding d by (simp add: All_less_Suc2)
    qed (use False Cons.IH [of "k + 1"] in \<open>auto simp: nth_Cons'\<close>)
  qed
qed auto

lemma owner_index_of_spec:
  "distinct (dx_owners d) \<Longrightarrow> i < length (dx_owners d) \<Longrightarrow> owner_index_of d (dx_owners d ! i) = Inr i"
  by (auto simp: owner_index_of_def owner_index_from_spec nth_eq_iff_index_eq)

text \<open>The number of an alternate function.\<close>

definition af_number :: "AlternateFunction \<Rightarrow> nat" where
  "af_number af = 15 - af_value af"

lemma af_value_bounds: "af \<noteq> NO_AF \<Longrightarrow> af_value af \<le> 15"
  by (cases af) auto

lemma af_value_inj: "af_value a = af_value b \<Longrightarrow> a = b"
  by (cases a; cases b) auto

lemma valid_af_bit: "valid_af p af \<longleftrightarrow> af = NO_AF \<or> bit (pin_afs p) (af_value af)"
proof (cases "af = NO_AF")
  case False
  then have "af_value af < 32" using af_value_bounds [OF False] by simp
  then have "(push_bit (af_value af) 1 AND ucast (pin_afs p) :: u32) \<noteq> 0 \<longleftrightarrow>
      bit (ucast (pin_afs p) :: u32) (af_value af)"
    by (simp add: and_exp_eq_0_iff_not_bit and.commute)
  then show ?thesis using False \<open>af_value af < 32\<close> by (simp add: valid_af_def bit_unsigned_iff)
qed (simp add: valid_af_def)


text \<open>The alternate function of a pin reaches the hardware: a pin declared in an alternate mode,
  which only compiles with a function the pin has, is configured with the number of that function,
  although the enumeration counts backwards.\<close>

theorem alternate_function_kept:
  assumes "make_gpio p mode pull speed af = Inr e" "mode = ALT_PP \<or> mode = ALT_OD"
  shows "\<exists>n < 16. af = [AF0, AF1, AF2, AF3, AF4, AF5, AF6, AF7, AF8, AF9, AF10, AF11, AF12, AF13, AF14, AF15] ! n \<and>
    Alternate (snd (gpio_config_of e)) = of_nat n \<and> bit (pin_afs p) (15 - n)"
proof -
  have e: "af \<noteq> NO_AF" "bit (pin_afs p) (af_value af)" "ge_mode e = mode" "ge_af e = af"
    using assms by (auto simp: make_gpio_def valid_af_bit split: if_splits)
  then show ?thesis
    using assms(2) by (cases af) (auto simp: gpio_config_of_def intro: exI [of _ "15 - af_value af"])
qed

lemma alternate_function_kept_witness:
  "\<exists>n < 16. AF7 = [AF0, AF1, AF2, AF3, AF4, AF5, AF6, AF7, AF8, AF9, AF10, AF11, AF12, AF13, AF14, AF15] ! n \<and>
    Alternate (snd (gpio_config_of \<lparr>ge_port = PA, ge_pin = 0x200, ge_mode = ALT_PP, ge_pull = Pull_None,
      ge_speed = Low, ge_af = AF7\<rparr>)) = of_nat n \<and> bit (pin_afs (PIN PA 9)) (15 - n)"
  by (rule alternate_function_kept [where mode = ALT_PP and pull = Pull_None and speed = Low])
    (code_simp, simp)

section \<open>External interrupts\<close>

lemma pin_index_from_spec:
  "pin_index_from m ks = (case find (\<lambda>k. bit m k) ks of Some k \<Rightarrow> k | None \<Rightarrow> 255)"
  by (induction ks) (simp_all add: and_exp_eq_0_iff_not_bit)

lemma get_pin_index_bit: "k < 16 \<Longrightarrow> get_pin_index (push_bit k 1) = k"
proof -
  assume "k < 16"
  moreover have "list_all (\<lambda>k. get_pin_index (push_bit k 1) = k) [0 ..< 16]" by code_simp
  ultimately show ?thesis by (simp add: list_all_iff del: upt_rec_numeral push_bit_of_1)
qed

lemma get_pin_index_less: "get_pin_index m < 16 \<Longrightarrow> bit m (get_pin_index m)"
  by (auto simp: get_pin_index_def pin_index_from_spec find_Some_iff find_None_iff simp del: upt_rec_numeral
      split: option.splits)

definition exti_num :: "exti_entry \<Rightarrow> nat" where
  "exti_num e = get_pin_index (xe_mask e)"

definition exti_config_of :: "exti_entry \<Rightarrow> exti_config" where
  "exti_config_of e = \<lparr>xc_pin_idx = xe_pin_idx e, xc_num = exti_num e, xc_action = xe_action e\<rparr>"

lemma build_exti_from_spec:
  "build_exti_from es used = Inr cs \<longleftrightarrow>
     cs = map exti_config_of es \<and> distinct (map exti_num es) \<and> (\<forall>e \<in> set es. exti_num e < 16 \<and> \<not> bit used (exti_num e))"
proof (induction es arbitrary: cs used)
  case (Cons e es)
  let ?k = "exti_num e"
  have step: "build_exti_from (e # es) used =
      (if 16 \<le> ?k then Inl ''Invalid Pin for EXTI''
       else if bit used ?k then Inl ''EXTI line already used''
       else map_sum id ((#) (exti_config_of e)) (build_exti_from es (used OR push_bit ?k 1)))"
    by (simp add: Let_def and_exp_eq_0_iff_not_bit exti_config_of_def exti_num_def)
  show ?case
  proof (cases "?k < 16 \<and> \<not> bit used ?k")
    case False
    then show ?thesis unfolding step by auto
  next
    case True
    have eq: "build_exti_from (e # es) used = Inr cs \<longleftrightarrow>
        (\<exists>r. build_exti_from es (used OR push_bit ?k 1) = Inr r \<and> cs = exti_config_of e # r)"
      using True unfolding step by (cases "build_exti_from es (used OR push_bit ?k 1)") auto
    have bits: "bit (used OR push_bit ?k 1) j \<longleftrightarrow> bit used j \<or> j = ?k" for j
      using True by (auto simp: bit_or_iff bit_exp_iff)
    show ?thesis unfolding eq Cons.IH bits using True by (auto simp: image_iff)
  qed
qed auto

lemma build_exti_spec:
  "build_exti es = Inr cs \<longleftrightarrow> cs = map exti_config_of es \<and> distinct (map exti_num es) \<and> (\<forall>e \<in> set es. exti_num e < 16)"
  by (simp add: build_exti_def build_exti_from_spec)


text \<open>
  What the handlers do: \<open>own_actions\<close> are the actions of the entries on a line whose instance is
  turned on, of which there is at most one.
\<close>

definition own_actions :: "exti_entry list \<Rightarrow> exti_state \<Rightarrow> nat \<Rightarrow> nat list" where
  "own_actions es s k =
     concat (map (\<lambda>i. if exti_num (es ! i) = k \<and> xi_on (xs_instances s ! i)
                      then (case xe_action (es ! i) of Some a \<Rightarrow> [a] | None \<Rightarrow> []) else [])
               [0 ..< length es])"

definition exti_set_up :: "exti_entry list \<Rightarrow> exti_state \<Rightarrow> bool" where
  "exti_set_up es s \<longleftrightarrow>
     length (xs_instances s) = length es \<and> length (xs_lines s) = EXTI_MAX \<and>
     (\<forall>i < length es. xi_action (xs_instances s ! i) = xe_action (es ! i) \<and>
        xi_gpio (xs_instances s ! i) = xe_pin_idx (es ! i) \<and> xs_lines s ! exti_num (es ! i) = Some i) \<and>
     (\<forall>k < EXTI_MAX. \<forall>i. xs_lines s ! k = Some i \<longrightarrow> i < length es \<and> exti_num (es ! i) = k)"

lemma concat_only:
  "i < n \<Longrightarrow> (\<And>j. j < n \<Longrightarrow> j \<noteq> i \<Longrightarrow> f j = []) \<Longrightarrow> concat (map f [0 ..< n]) = f i"
proof (induction n)
  case (Suc n)
  then show ?case by (cases "i = n") (auto simp: less_Suc_eq)
qed simp

lemma callback_spec:
  assumes ok: "exti_set_up es s" and k: "k < 16"
  shows "HAL_GPIO_EXTI_Callback (push_bit k 1) s = s\<lparr>xs_called := xs_called s @ own_actions es s k\<rparr>"
proof (cases "xs_lines s ! k")
  case None
  have "exti_num (es ! i) \<noteq> k" if "i < length es" for i
    using ok that None by (auto simp: exti_set_up_def)
  then have "own_actions es s k = []" by (simp add: own_actions_def)
  then show ?thesis
    using None k by (simp add: HAL_GPIO_EXTI_Callback_def get_pin_index_bit EXTI_MAX_def Let_def del: push_bit_of_1)
next
  case (Some i)
  then have i: "i < length es" "exti_num (es ! i) = k" "xi_action (xs_instances s ! i) = xe_action (es ! i)"
    using ok k by (auto simp: exti_set_up_def EXTI_MAX_def)
  have "exti_num (es ! j) \<noteq> k" if "j < length es" "j \<noteq> i" for j
    using ok that Some by (auto simp: exti_set_up_def)
  then have "own_actions es s k =
      (if xi_on (xs_instances s ! i) then (case xe_action (es ! i) of Some a \<Rightarrow> [a] | None \<Rightarrow> []) else [])"
    unfolding own_actions_def using i by (subst concat_only [of i]) auto
  then show ?thesis
    using Some k i by (simp add: HAL_GPIO_EXTI_Callback_def get_pin_index_bit EXTI_MAX_def Let_def
        del: push_bit_of_1 split: option.split)
qed

lemma own_actions_called: "own_actions es (s\<lparr>xs_called := l\<rparr>) = own_actions es s"
  by (simp add: own_actions_def fun_eq_iff)

lemma set_up_called: "exti_set_up es (s\<lparr>xs_called := l\<rparr>) = exti_set_up es s"
  by (simp add: exti_set_up_def)

text \<open>What the code relies on of the vendor's handler: it calls the callback exactly for a line that
  is pending, and does not change the pending flags of the other lines.\<close>

definition exti_hal_ok :: "'w exti_hal \<Rightarrow> bool" where
  "exti_hal_ok hal \<longleftrightarrow>
     (\<forall>k w. fst (xh_irq hal (push_bit k 1) w) = xh_get_it hal (push_bit k 1) w) \<and>
     (\<forall>k j w. k < 16 \<and> j < 16 \<and> j \<noteq> k \<longrightarrow>
        xh_get_it hal (push_bit j 1) (snd (xh_irq hal (push_bit k 1) w)) = xh_get_it hal (push_bit j 1) w)"

fun lines_of :: "exti_irqn \<Rightarrow> nat list" where
  "lines_of (EXTI_IRQn k) = [k]"
| "lines_of EXTI9_5_IRQn = [5 ..< 10]"
| "lines_of EXTI15_10_IRQn = [10 ..< 16]"

lemma exti_line_spec:
  assumes "exti_set_up es s" "exti_hal_ok hal" "k < 16"
  shows "snd (exti_line hal (push_bit k 1) (w, s)) =
      s\<lparr>xs_called := xs_called s @ (if xh_get_it hal (push_bit k 1) w then own_actions es s k else [])\<rparr>"
    and "exti_line_if hal (push_bit k 1) (w, s) = (if xh_get_it hal (push_bit k 1) w then exti_line hal (push_bit k 1) (w, s) else (w, s))"
  using assms callback_spec [OF assms(1,3)]
  by (auto simp: exti_line_def exti_line_if_def exti_hal_ok_def case_prod_beta Let_def simp del: push_bit_of_1)

lemma mask_narrow: "k < 16 \<Longrightarrow> (ucast (push_bit k 1 :: u32) :: u16) = push_bit k 1"
  by (rule bit_word_eqI) (auto simp: bit_unsigned_iff bit_exp_iff)

lemma walk_lines_spec:
  assumes "exti_hal_ok hal"
  shows "distinct ks \<Longrightarrow> list_all (\<lambda>k. k < 16) ks \<Longrightarrow> exti_set_up es s \<Longrightarrow>
    xs_called (snd (walk_lines hal (map (\<lambda>k. push_bit k 1) ks) (w, s))) =
      xs_called s @ concat (map (own_actions es s) (filter (\<lambda>k. xh_get_it hal (push_bit k 1) w) ks))"
proof (induction ks arbitrary: w s)
  case (Cons k ks)
  let ?m = "push_bit k 1 :: u16"
  obtain w' s' where ws: "exti_line_if hal ?m (w, s) = (w', s')" by (rule prod.exhaust)
  have k: "k < 16" using Cons.prems by simp
  have s': "s' = s\<lparr>xs_called := xs_called s @ (if xh_get_it hal ?m w then own_actions es s k else [])\<rparr>"
    using exti_line_spec [OF Cons.prems(3) assms k, of w] ws by (cases "xh_get_it hal ?m w") auto
  have w': "w' = (if xh_get_it hal ?m w then snd (xh_irq hal ?m w) else w)"
    using ws by (auto simp: exti_line_if_def exti_line_def case_prod_beta split: if_splits)
  have "xh_get_it hal (push_bit j 1) w' = xh_get_it hal (push_bit j 1) w" if "j \<in> set ks" for j
  proof -
    have "j < 16" "j \<noteq> k" using Cons.prems that by (auto simp: list_all_iff)
    then show ?thesis using assms k unfolding w' exti_hal_ok_def by (simp del: push_bit_of_1)
  qed
  then have keep: "filter (\<lambda>j. xh_get_it hal (push_bit j 1) w') ks = filter (\<lambda>j. xh_get_it hal (push_bit j 1) w) ks"
    by (rule filter_cong [OF refl])
  have "exti_set_up es s'" using Cons.prems(3) unfolding s' by (simp add: set_up_called)
  moreover have "own_actions es s' = own_actions es s" unfolding s' by (rule own_actions_called)
  ultimately show ?case
    using Cons.IH [of s' w'] Cons.prems unfolding keep
    by (simp add: mask_narrow [OF k] ws s' del: push_bit_of_1)
qed simp

definition exti_upto :: "nat \<Rightarrow> exti_entry list \<Rightarrow> exti_state \<Rightarrow> bool" where
  "exti_upto n es s \<longleftrightarrow>
     length (xs_instances s) = n \<and> length (xs_lines s) = EXTI_MAX \<and> length es \<le> n \<and>
     (\<forall>i < length es. xi_action (xs_instances s ! i) = xe_action (es ! i) \<and>
        xi_gpio (xs_instances s ! i) = xe_pin_idx (es ! i) \<and> xs_lines s ! exti_num (es ! i) = Some i) \<and>
     (\<forall>k < EXTI_MAX. \<forall>i. xs_lines s ! k = Some i \<longrightarrow> i < length es \<and> exti_num (es ! i) = k) \<and>
     xs_enabled s = map (\<lambda>e. exti_irq_of (exti_num e)) es"

lemma init_exti_upto:
  "distinct (map exti_num es) \<Longrightarrow> \<forall>e \<in> set es. exti_num e < 16 \<Longrightarrow> length es \<le> n \<Longrightarrow>
   exti_upto n es (init_exti (map exti_config_of es) (initial_exti n))"
proof (induction es rule: rev_induct)
  case Nil
  then show ?case by (simp add: exti_upto_def init_exti_def initial_exti_def EXTI_MAX_def)
next
  case (snoc e es)
  let ?s = "init_exti (map exti_config_of es) (initial_exti n)"
  have up: "exti_upto n es ?s" using snoc by simp
  have step: "init_exti (map exti_config_of (es @ [e])) (initial_exti n) =
      init_exti_one (length es) (exti_config_of e) ?s"
    by (simp add: init_exti_def enumerate_append_eq)
  have other: "exti_num e \<noteq> exti_num (es ! i)" if "i < length es" for i
    using snoc.prems(1) that by (auto simp: image_iff)
  have e: "exti_num e < 16" "length es < n" using snoc.prems by auto
  show ?case
    unfolding step exti_upto_def
  proof (intro conjI allI impI)
    let ?t = "init_exti_one (length es) (exti_config_of e) ?s"
    show "length (xs_instances ?t) = n" "length (xs_lines ?t) = EXTI_MAX" "length (es @ [e]) \<le> n"
        "xs_enabled ?t = map (\<lambda>e. exti_irq_of (exti_num e)) (es @ [e])"
      using up e by (simp_all add: exti_upto_def init_exti_one_def exti_config_of_def)
    fix i assume i: "i < length (es @ [e])"
    show "xi_action (xs_instances ?t ! i) = xe_action ((es @ [e]) ! i)"
        "xi_gpio (xs_instances ?t ! i) = xe_pin_idx ((es @ [e]) ! i)"
      using up e i by (auto simp: exti_upto_def init_exti_one_def exti_config_of_def nth_append less_Suc_eq)
    show "xs_lines ?t ! exti_num ((es @ [e]) ! i) = Some i"
      using up e i other by (auto simp: exti_upto_def init_exti_one_def exti_config_of_def nth_append less_Suc_eq EXTI_MAX_def)
  next
    fix k i assume k: "k < EXTI_MAX" and l: "xs_lines (init_exti_one (length es) (exti_config_of e) ?s) ! k = Some i"
    have "if k = exti_num e then i = length es else i < length es \<and> exti_num (es ! i) = k"
      using up k l e by (auto simp: exti_upto_def init_exti_one_def exti_config_of_def)
    then show "i < length (es @ [e])" "exti_num ((es @ [e]) ! i) = k"
      by (auto simp: nth_append split: if_splits)
  qed
qed

fun exti_switch :: "nat \<times> bool \<Rightarrow> exti_state \<Rightarrow> exti_state" where
  "exti_switch (i, True) s = exti_turn_on i s"
| "exti_switch (i, False) s = exti_turn_off i s"

lemma update_keeps:
  "(\<And>x. f (g x) = f x) \<Longrightarrow> f (xs[i := g (xs ! i)] ! j) = f (xs ! j)"
  by (cases "i = j"; cases "i < length xs") (auto simp: list_update_beyond)

lemmas switch_keeps =
  update_keeps [of xi_action "xi_on_update h"] update_keeps [of xi_gpio "xi_on_update h"] for h

lemma exti_switch_upto: "exti_upto n es s \<Longrightarrow> exti_upto n es (exti_switch q s)"
  by (cases "(q, s)" rule: exti_switch.cases)
    (simp_all add: exti_upto_def exti_turn_on_def exti_turn_off_def switch_keeps)

lemma exti_switches_upto: "exti_upto n es s \<Longrightarrow> exti_upto n es (fold exti_switch ops s)"
  by (induction ops arbitrary: s) (auto simp: exti_switch_upto)

lemma upto_set_up: "exti_upto (length es) es s \<Longrightarrow> exti_set_up es s"
  by (simp add: exti_upto_def exti_set_up_def)

text \<open>An interrupt of the external lines runs the actions of its own devices: after the
  initialization of a board that compiles, whatever devices have been turned on and off, an enabled
  handler calls, in the order of the lines, the actions of the devices on those of its lines that
  are pending and whose device is turned on, and no other action; and the line of every device
  belongs to an enabled interrupt.\<close>

theorem exti_runs_own_actions:
  assumes "build_exti es = Inr cs" "exti_hal_ok hal"
    and s: "s = fold exti_switch ops (init_exti cs (initial_exti (length es)))"
  shows "(\<forall>q \<in> set (xs_enabled s).
      xs_called (snd (exti_irq_handler hal q (w, s))) =
        xs_called s @ concat (map (own_actions es s) (filter (\<lambda>k. xh_get_it hal (push_bit k 1) w) (lines_of q)))) \<and>
    (\<forall>e \<in> set es. \<exists>q \<in> set (xs_enabled s). exti_num e \<in> set (lines_of q))"
proof (intro conjI)
  have cs: "cs = map exti_config_of es" "distinct (map exti_num es)" "\<forall>e \<in> set es. exti_num e < 16"
    using assms(1) by (auto simp: build_exti_spec)
  have up: "exti_upto (length es) es s"
    unfolding s cs(1) by (intro exti_switches_upto init_exti_upto cs order_refl)
  then have en: "xs_enabled s = map (\<lambda>e. exti_irq_of (exti_num e)) es" by (simp add: exti_upto_def)
  show "\<forall>e \<in> set es. \<exists>q \<in> set (xs_enabled s). exti_num e \<in> set (lines_of q)"
  proof
    fix e assume e: "e \<in> set es"
    then have "exti_irq_of (exti_num e) \<in> set (xs_enabled s)" by (simp add: en)
    moreover have "exti_num e \<in> set (lines_of (exti_irq_of (exti_num e)))"
      using e cs(3) by (auto simp: exti_irq_of_def)
    ultimately show "\<exists>q \<in> set (xs_enabled s). exti_num e \<in> set (lines_of q)" by blast
  qed
  show "\<forall>q \<in> set (xs_enabled s). xs_called (snd (exti_irq_handler hal q (w, s))) =
      xs_called s @ concat (map (own_actions es s) (filter (\<lambda>k. xh_get_it hal (push_bit k 1) w) (lines_of q)))"
  proof
    fix q assume "q \<in> set (xs_enabled s)"
    then have q: "q = EXTI_IRQn k \<Longrightarrow> k < 16" for k by (auto simp: en exti_irq_of_def split: if_splits)
    show "xs_called (snd (exti_irq_handler hal q (w, s))) =
        xs_called s @ concat (map (own_actions es s) (filter (\<lambda>k. xh_get_it hal (push_bit k 1) w) (lines_of q)))"
    proof (cases q)
      case (EXTI_IRQn k)
      then show ?thesis using exti_line_spec(1) [OF upto_set_up [OF up] assms(2) q, of k w]
        by (simp del: push_bit_of_1)
    qed (use walk_lines_spec [OF assms(2) _ _ upto_set_up [OF up], of _ w] in
        \<open>simp_all add: list_all_iff del: push_bit_of_1 upt_rec_numeral\<close>)
  qed
qed

definition demo_exti_hal :: "u16 exti_hal" where
  "demo_exti_hal = \<lparr>xh_get_it = (\<lambda>m w. w AND m \<noteq> 0), xh_irq = (\<lambda>m w. (w AND m \<noteq> 0, w AND NOT m))\<rparr>"

lemma demo_exti_hal_ok: "exti_hal_ok demo_exti_hal"
  by (auto simp: exti_hal_ok_def demo_exti_hal_def and_exp_eq_0_iff_not_bit bit_and_iff bit_not_iff bit_exp_iff
      bit_imp_le_length)

abbreviation demo_exti :: "exti_entry list" where
  "demo_exti \<equiv> [\<lparr>xe_pin_idx = 0, xe_mask = 0x1, xe_action = Some 7\<rparr>,
               \<lparr>xe_pin_idx = 1, xe_mask = 0x40, xe_action = Some 8\<rparr>,
               \<lparr>xe_pin_idx = 2, xe_mask = 0x80, xe_action = Some 9\<rparr>]"

abbreviation demo_exti_state :: exti_state where
  "demo_exti_state \<equiv> fold exti_switch [(1, True), (2, True), (2, False)]
     (init_exti (map exti_config_of demo_exti) (initial_exti (length demo_exti)))"

lemma demo_exti_built: "build_exti demo_exti = Inr (map exti_config_of demo_exti)"
  by code_simp

lemma exti_runs_own_actions_witness:
  "EXTI9_5_IRQn \<in> set (xs_enabled demo_exti_state) \<and>
   xs_called (snd (exti_irq_handler demo_exti_hal EXTI9_5_IRQn (0xC1, demo_exti_state))) = [8]"
proof -
  have en: "EXTI9_5_IRQn \<in> set (xs_enabled demo_exti_state)" by code_simp
  have "xs_called demo_exti_state @ concat (map (own_actions demo_exti demo_exti_state)
      (filter (\<lambda>k. xh_get_it demo_exti_hal (push_bit k 1) 0xC1) (lines_of EXTI9_5_IRQn))) = [8]"
    by code_simp
  then show ?thesis
    using exti_runs_own_actions [OF demo_exti_built demo_exti_hal_ok refl,
        of "[(1, True), (2, True), (2, False)]" "0xC1"] en by metis
qed

end
