(* ===== verification/Adc.thy ===== *)
theory Adc
  imports Dma Gpio
begin

unbundle bit_operations_syntax

text \<open>
  The analog inputs of a board (\<open>Inc/HALAL/Services/ADC/ADC.hpp\<close>): the choice of a converter and a
  channel for a pin, the configurations, which are computed while the board is compiled, the streams
  the converters add to those of the DMA, the initialization with the shared buffer, and the reading
  of a sample. Channels, resolutions and the like are constructors; \<open>CH k\<close> with a \<open>k\<close> over 19 stands
  for a value cast from an integer that names no channel. \<open>has3\<close> is \<open>STLIB_HAS_ADC3\<close>. The conversion
  of a sample to volts, in floating point, is not modelled.
\<close>

section \<open>Channels and resolutions\<close>

datatype adc_peripheral = ADC_AUTO | ADC_1 | ADC_2 | ADC_3

datatype Resolution = BITS_16 | BITS_14 | BITS_12 | BITS_10 | BITS_8

datatype SampleTime =
    CYCLES_1_5 | CYCLES_2_5 | CYCLES_8_5 | CYCLES_16_5 | CYCLES_32_5 | CYCLES_64_5 | CYCLES_387_5 | CYCLES_810_5

datatype ClockPrescaler =
    DIV1 | DIV2 | DIV4 | DIV6 | DIV8 | DIV10 | DIV12 | DIV16 | DIV32 | DIV64 | DIV128 | DIV256

datatype Channel = CH_AUTO | CH nat | VREFINT | TEMPSENSOR | VBAT

definition max_channels_per_peripheral :: nat where
  "max_channels_per_peripheral = 16"

definition ADC_MAX :: nat where
  "ADC_MAX = 32"

record adc_entry =
  ae_gpio :: nat
  ae_pin :: Pin
  ae_peripheral :: adc_peripheral
  ae_channel :: Channel
  ae_resolution :: Resolution
  ae_sample_time :: SampleTime
  ae_prescaler :: ClockPrescaler
  ae_rate :: u32
  ae_output :: "nat option"

record adc_config =
  ac_gpio :: nat
  ac_peripheral :: adc_peripheral
  ac_channel :: Channel
  ac_resolution :: Resolution
  ac_sample_time :: SampleTime
  ac_prescaler :: ClockPrescaler
  ac_rate :: u32
  ac_request :: dma_request
  ac_output :: "nat option"

fun peripheral_index :: "adc_peripheral \<Rightarrow> nat" where
  "peripheral_index ADC_AUTO = 0"
| "peripheral_index ADC_1 = 0"
| "peripheral_index ADC_2 = 1"
| "peripheral_index ADC_3 = 2"

definition peripheral_from_index :: "nat \<Rightarrow> adc_peripheral" where
  "peripheral_from_index i = (if i = 0 then ADC_1 else if i = 1 then ADC_2 else if i = 2 then ADC_3 else ADC_1)"

fun dma_peripheral :: "adc_peripheral \<Rightarrow> Peripheral" where
  "dma_peripheral ADC_1 = adc1"
| "dma_peripheral ADC_2 = adc2"
| "dma_peripheral ADC_3 = adc3"
| "dma_peripheral ADC_AUTO = adc1"

definition adc_dma_request :: "adc_peripheral \<Rightarrow> string + dma_request" where
  "adc_dma_request p = get_Request (dma_peripheral p) 0"

text \<open>\<open>ADC_REGULAR_RANK_\<langle>k\<rangle>\<close> is the number \<open>k\<close>.\<close>

definition regular_ranks :: "nat list" where
  "regular_ranks = [1, 2, 3, 4, 5, 6, 7, 8, 9, 10, 11, 12, 13, 14, 15, 16]"

definition regular_rank :: "nat \<Rightarrow> nat" where
  "regular_rank k = (if length regular_ranks \<le> k then 1 else regular_ranks ! k)"

fun is_valid_channel :: "Channel \<Rightarrow> bool" where
  "is_valid_channel CH_AUTO \<longleftrightarrow> True"
| "is_valid_channel (CH k) \<longleftrightarrow> k \<le> 19"
| "is_valid_channel VREFINT \<longleftrightarrow> True"
| "is_valid_channel TEMPSENSOR \<longleftrightarrow> True"
| "is_valid_channel VBAT \<longleftrightarrow> True"

fun resolution_bits :: "Resolution \<Rightarrow> nat" where
  "resolution_bits BITS_16 = 16"
| "resolution_bits BITS_14 = 14"
| "resolution_bits BITS_12 = 12"
| "resolution_bits BITS_10 = 10"
| "resolution_bits BITS_8 = 8"

definition is_internal_channel :: "Channel \<Rightarrow> bool" where
  "is_internal_channel ch \<longleftrightarrow> ch = VREFINT \<or> ch = TEMPSENSOR \<or> ch = VBAT"

definition internal_adc :: "bool \<Rightarrow> adc_peripheral" where
  "internal_adc has3 = (if has3 then ADC_3 else ADC_2)"

definition internal_channel_allowed :: "bool \<Rightarrow> adc_peripheral \<Rightarrow> Channel \<Rightarrow> bool" where
  "internal_channel_allowed has3 p ch \<longleftrightarrow> (if \<not> is_internal_channel ch then True else p = internal_adc has3)"

definition resolution_supported :: "adc_peripheral \<Rightarrow> Resolution \<Rightarrow> bool" where
  "resolution_supported p r \<longleftrightarrow> (if p = ADC_3 then resolution_bits r \<le> 12 else True)"

section \<open>The mapping of the pins\<close>

definition max_bits_adc12 :: nat where
  "max_bits_adc12 = 16"

definition max_bits_adc3 :: nat where
  "max_bits_adc3 = 12"

definition pin_map :: "(Pin \<times> adc_peripheral \<times> Channel \<times> nat) list" where
  "pin_map =
   [(PIN PA 0, ADC_1, CH 16, max_bits_adc12), (PIN PA 1, ADC_1, CH 17, max_bits_adc12),
    (PIN PA 2, ADC_1, CH 14, max_bits_adc12), (PIN PA 3, ADC_1, CH 15, max_bits_adc12),
    (PIN PA 4, ADC_1, CH 18, max_bits_adc12), (PIN PA 5, ADC_1, CH 19, max_bits_adc12),
    (PIN PA 6, ADC_1, CH 3, max_bits_adc12), (PIN PA 7, ADC_1, CH 7, max_bits_adc12),
    (PIN PB 0, ADC_1, CH 9, max_bits_adc12), (PIN PB 1, ADC_1, CH 5, max_bits_adc12),
    (PIN PC 0, ADC_1, CH 10, max_bits_adc12), (PIN PC 1, ADC_1, CH 11, max_bits_adc12),
    (PIN PC 4, ADC_1, CH 4, max_bits_adc12), (PIN PC 5, ADC_1, CH 8, max_bits_adc12),
    (PIN PF 11, ADC_1, CH 2, max_bits_adc12), (PIN PF 12, ADC_1, CH 6, max_bits_adc12),
    (PIN PA 2, ADC_2, CH 14, max_bits_adc12), (PIN PA 3, ADC_2, CH 15, max_bits_adc12),
    (PIN PA 4, ADC_2, CH 18, max_bits_adc12), (PIN PA 5, ADC_2, CH 19, max_bits_adc12),
    (PIN PA 6, ADC_2, CH 3, max_bits_adc12), (PIN PA 7, ADC_2, CH 7, max_bits_adc12),
    (PIN PB 0, ADC_2, CH 9, max_bits_adc12), (PIN PB 1, ADC_2, CH 5, max_bits_adc12),
    (PIN PC 0, ADC_2, CH 10, max_bits_adc12), (PIN PC 1, ADC_2, CH 11, max_bits_adc12),
    (PIN PC 4, ADC_2, CH 4, max_bits_adc12), (PIN PC 5, ADC_2, CH 8, max_bits_adc12),
    (PIN PF 13, ADC_2, CH 2, max_bits_adc12), (PIN PF 14, ADC_2, CH 6, max_bits_adc12),
    (PIN PC 0, ADC_3, CH 10, max_bits_adc3), (PIN PC 1, ADC_3, CH 11, max_bits_adc3),
    (PIN PC 2, ADC_3, CH 0, max_bits_adc3), (PIN PC 3, ADC_3, CH 1, max_bits_adc3),
    (PIN PF 3, ADC_3, CH 5, max_bits_adc3), (PIN PF 4, ADC_3, CH 9, max_bits_adc3),
    (PIN PF 5, ADC_3, CH 4, max_bits_adc3), (PIN PF 6, ADC_3, CH 8, max_bits_adc3),
    (PIN PF 7, ADC_3, CH 3, max_bits_adc3), (PIN PF 8, ADC_3, CH 7, max_bits_adc3),
    (PIN PF 9, ADC_3, CH 2, max_bits_adc3), (PIN PF 10, ADC_3, CH 6, max_bits_adc3)]"

fun preference_score :: "Resolution \<Rightarrow> adc_peripheral \<Rightarrow> nat" where
  "preference_score r ADC_1 = (if 12 < resolution_bits r then 3 else 2)"
| "preference_score r ADC_2 = (if 12 < resolution_bits r then 2 else 1)"
| "preference_score r ADC_3 = (if 12 < resolution_bits r then 0 else 3)"
| "preference_score r ADC_AUTO = 0"

definition mapping_fits :: "adc_entry \<Rightarrow> Pin \<times> adc_peripheral \<times> Channel \<times> nat \<Rightarrow> bool" where
  "mapping_fits e = (\<lambda>(pin, p, ch, bits).
     if \<not> same_pin pin (ae_pin e) then False
     else if ae_peripheral e \<noteq> ADC_AUTO \<and> p \<noteq> ae_peripheral e then False
     else if ae_channel e \<noteq> CH_AUTO \<and> ch \<noteq> ae_channel e then False
     else \<not> bits < resolution_bits (ae_resolution e))"

text \<open>The loop over the table, with the best mapping so far.\<close>

fun best_mapping :: "adc_entry \<Rightarrow> (Pin \<times> adc_peripheral \<times> Channel \<times> nat) list \<Rightarrow> (adc_peripheral \<times> Channel \<times> nat) option \<Rightarrow> (adc_peripheral \<times> Channel \<times> nat) option" where
  "best_mapping e [] best = best"
| "best_mapping e (m # ms) best =
     (if \<not> mapping_fits e m then best_mapping e ms best
      else
        (case m of (pin, p, ch, bits) \<Rightarrow>
           (let score = preference_score (ae_resolution e) p in
            case best of
              None \<Rightarrow> best_mapping e ms (Some (p, ch, score))
            | Some (_, _, best_score) \<Rightarrow>
                best_mapping e ms (if best_score < score then Some (p, ch, score) else best))))"

definition check_mapping :: "bool \<Rightarrow> adc_peripheral \<Rightarrow> Channel \<Rightarrow> Resolution \<Rightarrow> string + (adc_peripheral \<times> Channel)" where
  "check_mapping has3 p ch r =
     (if \<not> internal_channel_allowed has3 p ch then Inl ''ADC: internal channel must use dedicated ADC''
      else if \<not> resolution_supported p r then Inl ''ADC: resolution not supported by selected ADC''
      else Inr (p, ch))"

definition resolve_mapping :: "bool \<Rightarrow> adc_entry \<Rightarrow> string + (adc_peripheral \<times> Channel)" where
  "resolve_mapping has3 e =
     (if ae_peripheral e \<noteq> ADC_AUTO \<and> ae_channel e \<noteq> CH_AUTO then
        (if \<not> is_valid_channel (ae_channel e) then Inl ''ADC: invalid channel''
         else check_mapping has3 (ae_peripheral e) (ae_channel e) (ae_resolution e))
      else if ae_channel e \<noteq> CH_AUTO \<and> is_internal_channel (ae_channel e) then
        check_mapping has3 (if ae_peripheral e = ADC_AUTO then internal_adc has3 else ae_peripheral e)
          (ae_channel e) (ae_resolution e)
      else
        (case best_mapping e pin_map None of
           None \<Rightarrow> Inl ''ADC: no valid ADC mapping for pin/resolution''
         | Some (p, ch, _) \<Rightarrow> Inr (p, ch)))"

section \<open>Devices and configurations\<close>

text \<open>The constructor of a device, which declares its pin as analog, and the entry it inscribes once
  the index of the pin is known.\<close>

definition make_adc :: "Pin \<Rightarrow> string + gpio_entry" where
  "make_adc p = make_gpio p ANALOG Pull_None Low NO_AF"

definition inscribe_adc :: "bool \<Rightarrow> nat \<Rightarrow> adc_entry \<Rightarrow> nat \<Rightarrow> adc_entry domain_ctx \<Rightarrow> string + (nat \<times> adc_entry domain_ctx)" where
  "inscribe_adc has3 owner e gpio_idx d =
     (let entry = e\<lparr>ae_gpio := gpio_idx\<rparr> in
      case resolve_mapping has3 entry of
        Inl msg \<Rightarrow> Inl msg
      | Inr (p, ch) \<Rightarrow> ctx_add ADC_MAX (entry\<lparr>ae_peripheral := p, ae_channel := ch\<rparr>) owner d)"

text \<open>What the build remembers of a converter: the settings of its first entry, \<open>None\<close> as long as it
  has none, and how many channels it has.\<close>

record adc_seen =
  sn_first :: "(Resolution \<times> ClockPrescaler \<times> u32) option"
  sn_count :: nat

definition adc_settings :: "adc_entry \<Rightarrow> Resolution \<times> ClockPrescaler \<times> u32" where
  "adc_settings e = (ae_resolution e, ae_prescaler e, ae_rate e)"

definition settings_mismatch :: "adc_seen \<Rightarrow> adc_entry \<Rightarrow> string option" where
  "settings_mismatch sn e =
     (case sn_first sn of
        None \<Rightarrow> None
      | Some (r, pre, rate) \<Rightarrow>
          if r \<noteq> ae_resolution e then Some ''ADC: resolution mismatch on same peripheral''
          else if pre \<noteq> ae_prescaler e then Some ''ADC: prescaler mismatch on same peripheral''
          else if rate \<noteq> ae_rate e then Some ''ADC: sample rate mismatch on same peripheral''
          else None)"

definition see_entry :: "adc_entry \<Rightarrow> adc_seen \<Rightarrow> adc_seen" where
  "see_entry e sn =
     \<lparr>sn_first = (case sn_first sn of None \<Rightarrow> Some (adc_settings e) | Some x \<Rightarrow> Some x), sn_count = sn_count sn + 1\<rparr>"

text \<open>The comparison with the entries before.\<close>

fun adc_clash :: "bool \<Rightarrow> adc_peripheral \<times> Channel \<Rightarrow> adc_entry \<Rightarrow> adc_entry list \<Rightarrow> string option" where
  "adc_clash has3 pc e [] = None"
| "adc_clash has3 pc e (prev # ps) =
     (if ae_gpio prev = ae_gpio e then Some ''ADC: GPIO already used''
      else
        (case resolve_mapping has3 prev of
           Inl msg \<Rightarrow> Some msg
         | Inr pc' \<Rightarrow> if pc' = pc then Some ''ADC: duplicate channel on same peripheral''
                      else adc_clash has3 pc e ps))"

definition check_entry :: "bool \<Rightarrow> adc_peripheral \<Rightarrow> Channel \<Rightarrow> adc_entry \<Rightarrow> string option" where
  "check_entry has3 p ch e =
     (if \<not> is_valid_channel ch then Some ''ADC: invalid channel''
      else if \<not> internal_channel_allowed has3 p ch then Some ''ADC: internal channel must use dedicated ADC''
      else if \<not> resolution_supported p (ae_resolution e) then Some ''ADC: resolution not supported by selected ADC''
      else if ae_rate e \<noteq> 0 then Some ''ADC: sample_rate_hz is not supported in DMA mode''
      else None)"

definition adc_config_of :: "adc_entry \<Rightarrow> adc_peripheral \<Rightarrow> Channel \<Rightarrow> dma_request \<Rightarrow> adc_config" where
  "adc_config_of e p ch rq =
     \<lparr>ac_gpio = ae_gpio e, ac_peripheral = p, ac_channel = ch, ac_resolution = ae_resolution e,
      ac_sample_time = ae_sample_time e, ac_prescaler = ae_prescaler e, ac_rate = ae_rate e,
      ac_request = rq, ac_output = ae_output e\<rparr>"

definition adc_step :: "bool \<Rightarrow> adc_entry list \<Rightarrow> adc_seen list \<Rightarrow> adc_entry \<Rightarrow> string + (adc_seen list \<times> adc_config)" where
  "adc_step has3 prev seen e =
     (case resolve_mapping has3 e of
        Inl msg \<Rightarrow> Inl msg
      | Inr (p, ch) \<Rightarrow>
          (case check_entry has3 p ch e of
             Some msg \<Rightarrow> Inl msg
           | None \<Rightarrow>
               (let pidx = peripheral_index p in
                case settings_mismatch (seen ! pidx) e of
                  Some msg \<Rightarrow> Inl msg
                | None \<Rightarrow>
                    (let seen = seen[pidx := see_entry e (seen ! pidx)] in
                     if max_channels_per_peripheral < sn_count (seen ! pidx)
                     then Inl ''ADC: too many channels on same peripheral''
                     else
                       (case adc_clash has3 (p, ch) e prev of
                          Some msg \<Rightarrow> Inl msg
                        | None \<Rightarrow>
                            (case adc_dma_request p of
                               Inl msg \<Rightarrow> Inl msg
                             | Inr rq \<Rightarrow> Inr (seen, adc_config_of e p ch rq)))))))"

fun build_adc_from :: "bool \<Rightarrow> adc_entry list \<Rightarrow> adc_seen list \<Rightarrow> adc_entry list \<Rightarrow> string + adc_config list" where
  "build_adc_from has3 prev seen [] = Inr []"
| "build_adc_from has3 prev seen (e # es) =
     (case adc_step has3 prev seen e of
        Inl msg \<Rightarrow> Inl msg
      | Inr (seen', c) \<Rightarrow> map_sum id ((#) c) (build_adc_from has3 (prev @ [e]) seen' es))"

definition build_adc :: "bool \<Rightarrow> nat \<Rightarrow> adc_entry list \<Rightarrow> string + adc_config list" where
  "build_adc has3 n es =
     (if ADC_MAX < n then Inl ''ADCDomain: too many instances''
      else if length es \<noteq> n then Inl ''ADC: build entries size mismatch''
      else build_adc_from has3 [] (replicate 3 \<lparr>sn_first = None, sn_count = 0\<rparr>) es)"

section \<open>Streams for the converters\<close>

definition uses_peripheral :: "adc_peripheral \<Rightarrow> adc_config list \<Rightarrow> bool" where
  "uses_peripheral p cfgs \<longleftrightarrow> list_ex (\<lambda>c. ac_peripheral c = p) cfgs"

fun dma_entries_for_peripheral :: "adc_peripheral \<Rightarrow> dma_entry list \<Rightarrow> string + nat" where
  "dma_entries_for_peripheral p [] = Inr 0"
| "dma_entries_for_peripheral p (e # es) =
     (if de_instance e \<noteq> dma_peripheral p then dma_entries_for_peripheral p es
      else if de_id e \<noteq> 0 then Inl ''ADC: DMA for ADC peripherals must use stream id 0''
      else map_sum id Suc (dma_entries_for_peripheral p es))"

fun contribution_count_from :: "adc_config list \<Rightarrow> dma_entry list \<Rightarrow> nat list \<Rightarrow> string + nat" where
  "contribution_count_from cfgs des [] = Inr 0"
| "contribution_count_from cfgs des (pidx # ps) =
     (let p = peripheral_from_index pidx in
      if \<not> uses_peripheral p cfgs then contribution_count_from cfgs des ps
      else
        (case dma_entries_for_peripheral p des of
           Inl msg \<Rightarrow> Inl msg
         | Inr existing \<Rightarrow>
             if 1 < existing then Inl ''ADC: multiple DMA streams configured for the same ADC peripheral''
             else map_sum id (\<lambda>n. if existing = 0 then Suc n else n) (contribution_count_from cfgs des ps)))"

definition dma_contribution_count :: "adc_config list \<Rightarrow> dma_entry list \<Rightarrow> string + nat" where
  "dma_contribution_count cfgs des = contribution_count_from cfgs des [0 ..< 3]"

fun contributions_from :: "adc_config list \<Rightarrow> dma_entry list \<Rightarrow> nat list \<Rightarrow> string + dma_entry list" where
  "contributions_from cfgs des [] = Inr []"
| "contributions_from cfgs des (pidx # ps) =
     (let p = peripheral_from_index pidx in
      if \<not> uses_peripheral p cfgs then contributions_from cfgs des ps
      else
        (case dma_entries_for_peripheral p des of
           Inl msg \<Rightarrow> Inl msg
         | Inr existing \<Rightarrow>
             if existing = 0
             then map_sum id ((#) \<lparr>de_instance = dma_peripheral p, de_stream = 0, de_irqn = No_IRQn, de_id = 0\<rparr>)
                    (contributions_from cfgs des ps)
             else contributions_from cfgs des ps))"

text \<open>Writing beyond the \<open>n\<close> places of the array does not compile either.\<close>

definition build_dma_contributions :: "nat \<Rightarrow> dma_entry list \<Rightarrow> adc_config list \<Rightarrow> string + dma_entry list" where
  "build_dma_contributions n des cfgs =
     (case contributions_from cfgs des [0 ..< 3] of
        Inl msg \<Rightarrow> Inl msg
      | Inr extra \<Rightarrow> if length extra \<noteq> n then Inl ''ADC: DMA contribution size mismatch'' else Inr extra)"

text \<open>The handle of a stream that was not set up is zero, and so is its request.\<close>

definition request_of :: "(nat \<times> dma_init) option \<Rightarrow> dma_request" where
  "request_of h = (case h of None \<Rightarrow> DMA_REQUEST_MEM2MEM | Some (_, di) \<Rightarrow> Request di)"

fun find_request_from :: "nat \<Rightarrow> dma_request \<Rightarrow> (nat \<times> dma_init) option list \<Rightarrow> nat option" where
  "find_request_from i rq [] = None"
| "find_request_from i rq (h # hs) = (if request_of h = rq then Some i else find_request_from (i + 1) rq hs)"

definition find_dma_instance :: "dma_request \<Rightarrow> (nat \<times> dma_init) option list \<Rightarrow> nat option" where
  "find_dma_instance rq hs = find_request_from 0 rq hs"

section \<open>Instances\<close>

text \<open>A converter is its index, and a slot the position in the pool of the DMA buffers.\<close>

record adc_instance =
  ai_handle :: "nat option"
  ai_channel :: Channel
  ai_sample_time :: SampleTime
  ai_resolution :: Resolution
  ai_output :: "nat option"
  ai_slot :: "nat option"

definition default_adc :: adc_instance where
  "default_adc = \<lparr>ai_handle = None, ai_channel = CH 0, ai_sample_time = CYCLES_8_5, ai_resolution = BITS_12,
     ai_output = None, ai_slot = None\<rparr>"

fun max_raw_for_resolution :: "Resolution \<Rightarrow> u32" where
  "max_raw_for_resolution BITS_16 = 65535"
| "max_raw_for_resolution BITS_14 = 16383"
| "max_raw_for_resolution BITS_12 = 4095"
| "max_raw_for_resolution BITS_10 = 1023"
| "max_raw_for_resolution BITS_8 = 255"

definition sample_raw :: "u16 list \<Rightarrow> adc_instance \<Rightarrow> u32" where
  "sample_raw pool x =
     (case ai_slot x of None \<Rightarrow> 0 | Some i \<Rightarrow> min (ucast (pool ! i)) (max_raw_for_resolution (ai_resolution x)))"

section \<open>The shared buffer\<close>

record buffer_sizes =
  adc1_size :: nat
  adc2_size :: nat
  adc3_size :: nat

fun calculate_buffer_sizes :: "adc_config list \<Rightarrow> string + buffer_sizes" where
  "calculate_buffer_sizes [] = Inr \<lparr>adc1_size = 0, adc2_size = 0, adc3_size = 0\<rparr>"
| "calculate_buffer_sizes (c # cs) =
     (case ac_peripheral c of
        ADC_1 \<Rightarrow> map_sum id (adc1_size_update Suc) (calculate_buffer_sizes cs)
      | ADC_2 \<Rightarrow> map_sum id (adc2_size_update Suc) (calculate_buffer_sizes cs)
      | ADC_3 \<Rightarrow> map_sum id (adc3_size_update Suc) (calculate_buffer_sizes cs)
      | ADC_AUTO \<Rightarrow> Inl ''ADC: peripheral not resolved'')"

definition total_dma_slots :: "buffer_sizes \<Rightarrow> nat" where
  "total_dma_slots z = adc1_size z + adc2_size z + adc3_size z"

fun buffer_size_for :: "buffer_sizes \<Rightarrow> adc_peripheral \<Rightarrow> nat" where
  "buffer_size_for z ADC_1 = adc1_size z"
| "buffer_size_for z ADC_2 = adc2_size z"
| "buffer_size_for z ADC_3 = adc3_size z"
| "buffer_size_for z ADC_AUTO = 0"

fun buffer_offset_for :: "buffer_sizes \<Rightarrow> adc_peripheral \<Rightarrow> nat" where
  "buffer_offset_for z ADC_1 = 0"
| "buffer_offset_for z ADC_2 = adc1_size z"
| "buffer_offset_for z ADC_3 = adc1_size z + adc2_size z"
| "buffer_offset_for z ADC_AUTO = 0"

definition get_dma_slot :: "buffer_sizes \<Rightarrow> adc_peripheral \<Rightarrow> nat \<Rightarrow> nat option" where
  "get_dma_slot z p index =
     (if buffer_size_for z p \<le> index then None
      else if total_dma_slots z \<le> buffer_offset_for z p + index then None
      else Some (buffer_offset_for z p + index))"

section \<open>Initialization\<close>

text \<open>The fields of \<open>ADC_InitTypeDef\<close> that depend on the configuration; the others are constants.\<close>

record adc_init =
  ClockPre :: ClockPrescaler
  InitResolution :: Resolution
  ScanConv :: bool
  EOC_seq :: bool
  NbrOfConversion :: nat

datatype adc_call =
    ADC12_clock_enable | ADC3_clock_enable | AnalogSwitch_PC2_open | AnalogSwitch_PC3_open
  | HAL_ADC_Stop_DMA nat
  | HAL_ADC_Init nat adc_init
  | HAL_ADC_ConfigChannel nat Channel nat SampleTime
  | HAL_ADC_Start_DMA nat nat nat

record adc_handle =
  ah_instance :: "adc_peripheral option"
  ah_dma :: "nat option"
  ah_init :: "adc_init option"

record adc_state =
  as_handles :: "adc_handle list"
  as_parents :: "nat option list"
  as_pool :: "u16 list"
  as_instances :: "adc_instance list"
  as_calls :: "adc_call list"
  as_panics :: "string list"

definition adc_panic :: "string \<Rightarrow> adc_state \<Rightarrow> adc_state" where
  "adc_panic msg s = s\<lparr>as_panics := as_panics s @ [msg]\<rparr>"

definition adc_call_do :: "adc_call \<Rightarrow> adc_state \<Rightarrow> adc_state" where
  "adc_call_do c s = s\<lparr>as_calls := as_calls s @ [c]\<rparr>"

text \<open>Whether a call of the vendor's library returns \<open>HAL_OK\<close> may depend on all the calls so far: the
  parameter \<open>ok\<close> gets them, the last one being the call in question.\<close>

type_synonym adc_hal = "adc_call list \<Rightarrow> bool"

definition get_dma_buffer :: "buffer_sizes \<Rightarrow> adc_peripheral \<Rightarrow> adc_state \<Rightarrow> nat option \<times> adc_state" where
  "get_dma_buffer z p s =
     (let size = buffer_size_for z p; offset = buffer_offset_for z p in
      if size = 0 then (None, adc_panic ''ADC DMA buffer not available'' s)
      else if total_dma_slots z < offset + size then (None, adc_panic ''ADC DMA pool overflow'' s)
      else (Some offset, s\<lparr>as_pool := take offset (as_pool s) @ replicate size 0 @ drop (offset + size) (as_pool s)\<rparr>))"

definition update_handle :: "nat \<Rightarrow> (adc_handle \<Rightarrow> adc_handle) \<Rightarrow> adc_state \<Rightarrow> adc_state" where
  "update_handle i f s = s\<lparr>as_handles := (as_handles s)[i := f (as_handles s ! i)]\<rparr>"

definition init_struct_of :: "adc_config \<Rightarrow> nat \<Rightarrow> adc_init" where
  "init_struct_of c n =
     \<lparr>ClockPre = ac_prescaler c, InitResolution = ac_resolution c, ScanConv = (1 < n), EOC_seq = (1 < n), NbrOfConversion = n\<rparr>"

definition configure_peripheral :: "adc_config \<Rightarrow> nat \<Rightarrow> adc_state \<Rightarrow> adc_state" where
  "configure_peripheral c n s =
     (let i = peripheral_index (ac_peripheral c);
          s = (if ac_peripheral c = ADC_1 \<or> ac_peripheral c = ADC_2
               then update_handle i (ah_instance_update (\<lambda>_. Some (if ac_peripheral c = ADC_1 then ADC_1 else ADC_2)))
                      (adc_call_do ADC12_clock_enable s)
               else adc_call_do AnalogSwitch_PC3_open (adc_call_do AnalogSwitch_PC2_open
                      (update_handle i (ah_instance_update (\<lambda>_. Some ADC_3)) (adc_call_do ADC3_clock_enable s))))
      in update_handle i (ah_init_update (\<lambda>_. Some (init_struct_of c n))) s)"

text \<open>The channels of one converter in the order of the configurations; the result tells whether all
  were accepted.\<close>

fun config_channels :: "adc_hal \<Rightarrow> adc_peripheral \<Rightarrow> adc_config list \<Rightarrow> nat \<Rightarrow> adc_state \<Rightarrow> bool \<times> adc_state" where
  "config_channels ok p [] rank s = (True, s)"
| "config_channels ok p (c # cs) rank s =
     (if ac_peripheral c \<noteq> p then config_channels ok p cs rank s
      else
        (let s = adc_call_do (HAL_ADC_ConfigChannel (peripheral_index p) (ac_channel c) (regular_rank rank) (ac_sample_time c)) s in
         if \<not> ok (as_calls s) then (False, adc_panic ''ADC channel configuration failed'' s)
         else config_channels ok p cs (rank + 1) s))"

definition stop_running :: "nat \<Rightarrow> adc_state \<Rightarrow> adc_state" where
  "stop_running i s =
     (if ah_instance (as_handles s ! i) \<noteq> None \<and> ah_dma (as_handles s ! i) \<noteq> None
      then adc_call_do (HAL_ADC_Stop_DMA i) s else s)"

definition start_adc :: "adc_hal \<Rightarrow> adc_config list \<Rightarrow> adc_peripheral \<Rightarrow> nat \<Rightarrow> nat \<Rightarrow> adc_state \<Rightarrow> bool \<times> adc_state" where
  "start_adc ok cfgs p buffer n s =
     (let i = peripheral_index p; (fine, s) = config_channels ok p cfgs 0 s in
      if \<not> fine then (False, s)
      else
        (let s = adc_call_do (HAL_ADC_Start_DMA i buffer n) s in
         if \<not> ok (as_calls s) then (False, adc_panic ''ADC DMA start failed'' s) else (True, s)))"

definition peripheral_set_up :: "adc_config \<Rightarrow> nat \<Rightarrow> nat \<Rightarrow> nat \<Rightarrow> adc_state \<Rightarrow> adc_state" where
  "peripheral_set_up c n pidx d s =
     (let s = update_handle pidx (ah_dma_update (\<lambda>_. Some d)) s;
          s = s\<lparr>as_parents := (as_parents s)[d := Some pidx]\<rparr>;
          s = configure_peripheral c n s
      in adc_call_do (HAL_ADC_Init pidx (init_struct_of c n)) s)"

text \<open>One converter; the result is \<open>periph_ready\<close>.\<close>

definition init_peripheral :: "adc_hal \<Rightarrow> (nat \<times> dma_init) option list \<Rightarrow> buffer_sizes \<Rightarrow> adc_config list \<Rightarrow> nat \<Rightarrow> nat \<Rightarrow> adc_state \<Rightarrow> bool \<times> adc_state" where
  "init_peripheral ok dma z cfgs pidx n s =
     (if n = 0 then (False, s)
      else
        (let p = peripheral_from_index pidx in
         case find (\<lambda>c. ac_peripheral c = p) cfgs of
           None \<Rightarrow> (False, s)
         | Some first_cfg \<Rightarrow>
             (let s = stop_running pidx s in
              case find_dma_instance (ac_request first_cfg) dma of
                None \<Rightarrow> (False, adc_panic ''ADC DMA instance unavailable'' s)
              | Some d \<Rightarrow>
                  (case get_dma_buffer z p s of
                     (None, s) \<Rightarrow> (False, s)
                   | (Some buffer, s) \<Rightarrow>
                       (let s = peripheral_set_up first_cfg n pidx d s
                        in if \<not> ok (as_calls s) then (False, adc_panic ''ADC Init failed'' s)
                           else start_adc ok cfgs p buffer n s)))))"

text \<open>The first loop: the rank of each configuration on its converter, \<open>None\<close> where the configuration is
  unresolved, and the number of channels of each converter.\<close>

definition is_resolved_config :: "adc_config \<Rightarrow> bool" where
  "is_resolved_config c \<longleftrightarrow> ac_peripheral c \<noteq> ADC_AUTO \<and> ac_channel c \<noteq> CH_AUTO"

fun assign_ranks :: "adc_config list \<Rightarrow> nat list \<Rightarrow> adc_state \<Rightarrow> nat option list \<times> nat list \<times> adc_state" where
  "assign_ranks [] counts s = ([], counts, s)"
| "assign_ranks (c # cs) counts s =
     (if \<not> is_resolved_config c then
        (let (rs, counts, s) = assign_ranks cs counts (adc_panic ''ADC config unresolved (AUTO)'' s) in (None # rs, counts, s))
      else
        (let i = peripheral_index (ac_peripheral c);
             (rs, counts', s) = assign_ranks cs (counts[i := counts ! i + 1]) s in (Some (counts ! i) # rs, counts', s)))"

fun init_peripherals :: "adc_hal \<Rightarrow> (nat \<times> dma_init) option list \<Rightarrow> buffer_sizes \<Rightarrow> adc_config list \<Rightarrow> nat list \<Rightarrow> nat list \<Rightarrow> adc_state \<Rightarrow> bool list \<times> adc_state" where
  "init_peripherals ok dma z cfgs counts [] s = ([], s)"
| "init_peripherals ok dma z cfgs counts (pidx # ps) s =
     (let (r, s) = init_peripheral ok dma z cfgs pidx (counts ! pidx) s;
          (rs, s) = init_peripherals ok dma z cfgs counts ps s
      in (r # rs, s))"

definition adc_instance_of :: "buffer_sizes \<Rightarrow> bool list \<Rightarrow> adc_config \<Rightarrow> nat option \<Rightarrow> adc_instance" where
  "adc_instance_of z ready c rank =
     (case rank of
        None \<Rightarrow> default_adc
      | Some k \<Rightarrow>
          (let i = peripheral_index (ac_peripheral c) in
           \<lparr>ai_handle = (if ready ! i then Some i else None), ai_channel = ac_channel c,
            ai_sample_time = ac_sample_time c, ai_resolution = ac_resolution c, ai_output = ac_output c,
            ai_slot = (if ready ! i then get_dma_slot z (ac_peripheral c) k else None)\<rparr>))"

definition init_adc :: "adc_hal \<Rightarrow> (nat \<times> dma_init) option list \<Rightarrow> buffer_sizes \<Rightarrow> adc_config list \<Rightarrow> adc_state \<Rightarrow> adc_state" where
  "init_adc ok dma z cfgs s =
     (let (ranks, counts, s) = assign_ranks cfgs [0, 0, 0] s;
          (ready, s) = init_peripherals ok dma z cfgs counts [0 ..< 3] s
      in s\<lparr>as_instances := map (\<lambda>(c, k). adc_instance_of z ready c k) (zip cfgs ranks)\<rparr>)"

text \<open>The state before the first initialization.\<close>

definition initial_adc :: "buffer_sizes \<Rightarrow> nat \<Rightarrow> adc_state" where
  "initial_adc z n =
     \<lparr>as_handles = replicate 3 \<lparr>ah_instance = None, ah_dma = None, ah_init = None\<rparr>, as_parents = replicate n None,
      as_pool = replicate (if 0 < total_dma_slots z then total_dma_slots z else 1) 0, as_instances = [],
      as_calls = [], as_panics = []\<rparr>"

section \<open>The mapping of the pins\<close>

text \<open>The score of a line of the table for an entry, and the best line.\<close>

definition score_of :: "adc_entry \<Rightarrow> Pin \<times> adc_peripheral \<times> Channel \<times> nat \<Rightarrow> nat" where
  "score_of e m = preference_score (ae_resolution e) (fst (snd m))"

definition choice_of :: "adc_entry \<Rightarrow> Pin \<times> adc_peripheral \<times> Channel \<times> nat \<Rightarrow> adc_peripheral \<times> Channel \<times> nat" where
  "choice_of e m = (fst (snd m), fst (snd (snd m)), score_of e m)"

lemma best_mapping_step:
  "best_mapping e (m # ms) best =
     best_mapping e ms
       (if mapping_fits e m \<and> (case best of None \<Rightarrow> True | Some b \<Rightarrow> snd (snd b) < score_of e m)
        then Some (choice_of e m) else best)"
  by (cases m) (auto simp: Let_def score_of_def choice_of_def split: option.split)


lemma best_mapping_spec:
  assumes "best_mapping e ms best = r"
  shows "(r = None \<longleftrightarrow> best = None \<and> (\<forall>m \<in> set ms. \<not> mapping_fits e m)) \<and>
    (\<forall>b. r = Some b \<longrightarrow>
       (r = best \<or> (\<exists>m \<in> set ms. mapping_fits e m \<and> b = choice_of e m)) \<and>
       (\<forall>m \<in> set ms. mapping_fits e m \<longrightarrow> score_of e m \<le> snd (snd b)) \<and>
       (\<forall>a. best = Some a \<longrightarrow> snd (snd a) \<le> snd (snd b)))"
  using assms
proof (induction ms arbitrary: best)
  case (Cons m ms)
  let ?take = "mapping_fits e m \<and> (case best of None \<Rightarrow> True | Some b \<Rightarrow> snd (snd b) < score_of e m)"
  have r: "best_mapping e ms (if ?take then Some (choice_of e m) else best) = r"
    using Cons.prems by (simp only: best_mapping_step)
  show ?case
  proof (cases ?take)
    case True
    then show ?thesis using Cons.IH [of "Some (choice_of e m)"] r
      by (cases best) (auto simp: choice_of_def score_of_def)
  next
    case False
    then show ?thesis using Cons.IH [of best] r by (cases best) auto
  qed
qed simp

lemma pin_map_sound:
  "(pin, p, ch, bits) \<in> set pin_map \<Longrightarrow> p \<noteq> ADC_AUTO \<and> ch \<noteq> CH_AUTO \<and> is_valid_channel ch \<and> \<not> is_internal_channel ch \<and>
     (p = ADC_3 \<longrightarrow> bits \<le> 12)"
proof -
  have "list_all (\<lambda>(pin, p, ch, bits). p \<noteq> ADC_AUTO \<and> ch \<noteq> CH_AUTO \<and> is_valid_channel ch \<and> \<not> is_internal_channel ch \<and>
      (p = ADC_3 \<longrightarrow> bits \<le> 12)) pin_map"
    by (simp add: pin_map_def max_bits_adc12_def max_bits_adc3_def is_internal_channel_def)
  then show "(pin, p, ch, bits) \<in> set pin_map \<Longrightarrow> ?thesis" unfolding list_all_iff by blast
qed

lemma resolve_from_table:
  assumes "ae_peripheral e = ADC_AUTO \<or> ae_channel e = CH_AUTO" "\<not> is_internal_channel (ae_channel e)"
  shows "resolve_mapping has3 e =
    (case best_mapping e pin_map None of
       None \<Rightarrow> Inl ''ADC: no valid ADC mapping for pin/resolution'' | Some (p, ch, _) \<Rightarrow> Inr (p, ch))"
  using assms by (auto simp: resolve_mapping_def)

lemma best_from_table:
  assumes "best_mapping e pin_map None = Some (p, ch, n)"
  obtains pin bits where "(pin, p, ch, bits) \<in> set pin_map" "mapping_fits e (pin, p, ch, bits)"
    "n = preference_score (ae_resolution e) p"
  using best_mapping_spec [OF assms] by (fastforce simp: choice_of_def score_of_def)

text \<open>The converter of a pin is chosen best: for a pin without an internal channel, and unless both
  the converter and the channel are given, the entry compiles exactly if the table has a line that
  fits it; it then gets the converter and the channel of such a line with the highest preference,
  which has the resolution asked for.\<close>

theorem resolve_mapping_best:
  assumes "ae_peripheral e = ADC_AUTO \<or> ae_channel e = CH_AUTO" "\<not> is_internal_channel (ae_channel e)"
  shows "case resolve_mapping has3 e of
      Inl msg \<Rightarrow> list_all (\<lambda>m. \<not> mapping_fits e m) pin_map
    | Inr (p, ch) \<Rightarrow>
        (\<exists>pin bits. (pin, p, ch, bits) \<in> set pin_map \<and> mapping_fits e (pin, p, ch, bits)) \<and>
        list_all (\<lambda>m. mapping_fits e m \<longrightarrow> score_of e m \<le> preference_score (ae_resolution e) p) pin_map \<and>
        resolution_supported p (ae_resolution e)"
proof (cases "best_mapping e pin_map None")
  case None
  then show ?thesis using best_mapping_spec [OF None] by (simp add: resolve_from_table [OF assms] list_all_iff)
next
  case (Some b)
  obtain p ch n where b: "b = (p, ch, n)" by (metis prod_cases3)
  obtain pin bits where m: "(pin, p, ch, bits) \<in> set pin_map" "mapping_fits e (pin, p, ch, bits)"
      "n = preference_score (ae_resolution e) p"
    using best_from_table Some b by metis
  have "resolution_supported p (ae_resolution e)"
    using pin_map_sound [OF m(1)] m(2) by (auto simp: resolution_supported_def mapping_fits_def split: if_splits)
  moreover have "list_all (\<lambda>m. mapping_fits e m \<longrightarrow> score_of e m \<le> n) pin_map"
    using best_mapping_spec [OF Some] by (simp add: b list_all_iff)
  ultimately show ?thesis using Some m by (auto simp: resolve_from_table [OF assms] b)
qed

lemma resolve_resolved:
  assumes "resolve_mapping has3 e = Inr (p, ch)"
  shows "p \<noteq> ADC_AUTO" "ch \<noteq> CH_AUTO"
proof -
  have "p \<noteq> ADC_AUTO \<and> ch \<noteq> CH_AUTO"
  proof (cases "(ae_peripheral e \<noteq> ADC_AUTO \<and> ae_channel e \<noteq> CH_AUTO) \<or> is_internal_channel (ae_channel e)")
    case True
    then show ?thesis using assms
      by (auto simp: resolve_mapping_def check_mapping_def is_internal_channel_def internal_adc_def split: if_splits)
  next
    case False
    then obtain n where "best_mapping e pin_map None = Some (p, ch, n)"
      using assms resolve_from_table [of e has3] by (auto split: option.splits)
    then show ?thesis using best_from_table pin_map_sound by metis
  qed
  then show "p \<noteq> ADC_AUTO" "ch \<noteq> CH_AUTO" by auto
qed

section \<open>The configurations\<close>

definition per_count :: "adc_peripheral \<Rightarrow> adc_config list \<Rightarrow> nat" where
  "per_count p cs = length (filter (\<lambda>c. ac_peripheral c = p) cs)"

definition entry_config :: "bool \<Rightarrow> adc_entry \<Rightarrow> adc_config \<Rightarrow> bool" where
  "entry_config has3 e c \<longleftrightarrow>
     resolve_mapping has3 e = Inr (ac_peripheral c, ac_channel c) \<and>
     adc_dma_request (ac_peripheral c) = Inr (ac_request c) \<and>
     c = adc_config_of e (ac_peripheral c) (ac_channel c) (ac_request c)"

lemma adc_step_spec:
  assumes "adc_step has3 prev seen e = Inr (seen', c)"
  shows "entry_config has3 e c"
    and "adc_clash has3 (ac_peripheral c, ac_channel c) e prev = None"
    and "settings_mismatch (seen ! peripheral_index (ac_peripheral c)) e = None"
    and "seen' = seen[peripheral_index (ac_peripheral c) := see_entry e (seen ! peripheral_index (ac_peripheral c))]"
    and "sn_count (seen' ! peripheral_index (ac_peripheral c)) \<le> max_channels_per_peripheral"
  using assms
  by (auto simp: adc_step_def Let_def entry_config_def adc_config_of_def
      split: sum.splits option.splits prod.splits if_splits)

lemma adc_clash_None:
  "adc_clash has3 pc e ps = None \<longleftrightarrow>
     (\<forall>q \<in> set ps. ae_gpio q \<noteq> ae_gpio e \<and> (\<exists>r. resolve_mapping has3 q = Inr r \<and> r \<noteq> pc))"
  by (induction ps) (auto split: sum.splits)

definition config_settings :: "adc_config \<Rightarrow> Resolution \<times> ClockPrescaler \<times> u32" where
  "config_settings c = (ac_resolution c, ac_prescaler c, ac_rate c)"

definition adc_built :: "bool \<Rightarrow> adc_entry list \<Rightarrow> adc_config list \<Rightarrow> adc_seen list \<Rightarrow> bool" where
  "adc_built has3 es cs seen \<longleftrightarrow>
     length seen = 3 \<and> list_all2 (entry_config has3) es cs \<and>
     distinct (map (\<lambda>c. (ac_peripheral c, ac_channel c)) cs) \<and> distinct (map ae_gpio es) \<and>
     (\<forall>p. p \<noteq> ADC_AUTO \<longrightarrow> sn_count (seen ! peripheral_index p) = per_count p cs \<and>
        per_count p cs \<le> max_channels_per_peripheral) \<and>
     (\<forall>c \<in> set cs. sn_first (seen ! peripheral_index (ac_peripheral c)) = Some (config_settings c))"

lemma peripheral_index_less [simp]: "peripheral_index p < 3"
  by (cases p) auto

lemma peripheral_index_inj: "p \<noteq> ADC_AUTO \<Longrightarrow> q \<noteq> ADC_AUTO \<Longrightarrow> peripheral_index p = peripheral_index q \<longleftrightarrow> p = q"
  by (cases p; cases q) auto

lemma entry_config_resolved: "entry_config has3 e c \<Longrightarrow> ac_peripheral c \<noteq> ADC_AUTO \<and> ac_channel c \<noteq> CH_AUTO"
  using resolve_resolved [of has3 e "ac_peripheral c" "ac_channel c"] unfolding entry_config_def by blast

lemma entry_config_settings: "entry_config has3 e c \<Longrightarrow> config_settings c = adc_settings e"
  by (metis entry_config_def adc_config_of_def config_settings_def adc_settings_def adc_config.select_convs)

lemma adc_built_step:
  assumes built: "adc_built has3 prev cs seen" and step: "adc_step has3 prev seen e = Inr (seen', c)"
  shows "adc_built has3 (prev @ [e]) (cs @ [c]) seen'"
proof -
  note sp = adc_step_spec [OF step]
  let ?p = "ac_peripheral c"
  have p: "?p \<noteq> ADC_AUTO" using entry_config_resolved [OF sp(1)] by blast
  have all2: "list_all2 (entry_config has3) prev cs" and len: "length seen = 3" using built by (auto simp: adc_built_def)
  have new: "(ac_peripheral d, ac_channel d) \<noteq> (?p, ac_channel c)" if "d \<in> set cs" for d
  proof -
    obtain q where "q \<in> set prev" "entry_config has3 q d"
      using all2 \<open>d \<in> set cs\<close> by (metis in_set_conv_nth list_all2_conv_all_nth)
    then show ?thesis using sp(2) by (auto simp: adc_clash_None entry_config_def)
  qed
  have notin: "(?p, ac_channel c) \<notin> (\<lambda>c. (ac_peripheral c, ac_channel c)) ` set cs"
    using new by (metis (no_types, lifting) imageE)
  have gpio: "ae_gpio q \<noteq> ae_gpio e" if "q \<in> set prev" for q
    using sp(2) that by (auto simp: adc_clash_None)
  have seen: "seen' ! peripheral_index q = (if q = ?p then see_entry e (seen ! peripheral_index q) else seen ! peripheral_index q)"
    if "q \<noteq> ADC_AUTO" for q
    using peripheral_index_inj [OF that p] len by (auto simp: sp(4) nth_list_update)
  have counts: "sn_count (seen' ! peripheral_index q) = per_count q (cs @ [c]) \<and>
      per_count q (cs @ [c]) \<le> max_channels_per_peripheral" if q: "q \<noteq> ADC_AUTO" for q
  proof -
    have "sn_count (seen ! peripheral_index q) = per_count q cs \<and> per_count q cs \<le> max_channels_per_peripheral"
      using built q by (simp add: adc_built_def)
    moreover have "per_count ?p cs + 1 \<le> max_channels_per_peripheral" if "q = ?p"
      using sp(5) calculation that by (simp add: seen [OF p] see_entry_def)
    ultimately show ?thesis by (auto simp: seen [OF q] per_count_def see_entry_def)
  qed
  have first: "sn_first (seen' ! peripheral_index (ac_peripheral d)) = Some (config_settings d)"
    if d: "d \<in> set (cs @ [c])" for d
  proof (cases "d = c")
    case True
    have "config_settings c = adc_settings e" by (rule entry_config_settings [OF sp(1)])
    then show ?thesis using sp(3) True
      by (auto simp: seen [OF p] see_entry_def settings_mismatch_def adc_settings_def split: option.splits if_splits)
  next
    case False
    then have d: "d \<in> set cs" using that by simp
    then have "ac_peripheral d \<noteq> ADC_AUTO"
      using all2 entry_config_resolved by (metis in_set_conv_nth list_all2_conv_all_nth)
    moreover have "sn_first (seen ! peripheral_index (ac_peripheral d)) = Some (config_settings d)"
      using built d by (simp add: adc_built_def)
    ultimately show ?thesis by (cases "ac_peripheral d = ?p") (simp_all add: seen see_entry_def)
  qed
  show ?thesis
    unfolding adc_built_def
  proof (intro conjI)
    show "list_all2 (entry_config has3) (prev @ [e]) (cs @ [c])" using all2 sp(1) by (simp add: list_all2_appendI)
    show "distinct (map (\<lambda>c. (ac_peripheral c, ac_channel c)) (cs @ [c]))"
      using built notin by (simp add: adc_built_def)
    show "distinct (map ae_gpio (prev @ [e]))"
    proof -
      have "ae_gpio e \<notin> ae_gpio ` set prev" using gpio by (metis imageE)
      then show ?thesis using built by (simp add: adc_built_def)
    qed
  qed (use counts first len in \<open>auto simp: sp(4)\<close>)
qed

lemma build_adc_from_built:
  "adc_built has3 prev cs seen \<Longrightarrow> build_adc_from has3 prev seen es = Inr ds \<Longrightarrow>
   \<exists>seen'. adc_built has3 (prev @ es) (cs @ ds) seen'"
proof (induction es arbitrary: prev cs seen ds)
  case (Cons e es)
  then obtain seen' c r where st: "adc_step has3 prev seen e = Inr (seen', c)"
      "build_adc_from has3 (prev @ [e]) seen' es = Inr r" "ds = c # r"
    by (auto split: sum.splits prod.splits simp: map_sum_def)
  then show ?case using Cons.IH [OF adc_built_step [OF Cons.prems(1) st(1)] st(2)] by simp
qed auto

lemma build_adc_built:
  assumes "build_adc has3 n es = Inr cs"
  obtains seen where "adc_built has3 es cs seen" "length es = n" "n \<le> ADC_MAX"
proof -
  have "adc_built has3 [] [] (replicate 3 \<lparr>sn_first = None, sn_count = 0\<rparr>)"
  proof -
    have "sn_count (replicate 3 \<lparr>sn_first = None, sn_count = 0\<rparr> ! peripheral_index p) = 0" for p
      by simp
    then show ?thesis by (simp add: adc_built_def per_count_def)
  qed
  then show ?thesis
    using assms build_adc_from_built [of has3 "[]" "[]" _ es cs] that
    by (fastforce simp: build_adc_def split: if_splits)
qed

section \<open>The initialization\<close>

definition adc_resolved :: "adc_config list \<Rightarrow> bool" where
  "adc_resolved cs \<longleftrightarrow> list_all is_resolved_config cs"

lemma per_count_simps [simp]:
  "per_count p [] = 0"
  "per_count p (c # cs) = (if ac_peripheral c = p then Suc (per_count p cs) else per_count p cs)"
  "per_count p (cs @ ds) = per_count p cs + per_count p ds"
  by (simp_all add: per_count_def)

lemma buffer_sizes_spec:
  "calculate_buffer_sizes cs = Inr z \<Longrightarrow>
     buffer_size_for z ADC_1 = per_count ADC_1 cs \<and> buffer_size_for z ADC_2 = per_count ADC_2 cs \<and>
     buffer_size_for z ADC_3 = per_count ADC_3 cs \<and> total_dma_slots z = length cs"
proof (induction cs arbitrary: z)
  case (Cons c cs)
  then show ?case
    by (cases "calculate_buffer_sizes cs"; cases "ac_peripheral c") (auto simp: total_dma_slots_def)
qed (simp add: total_dma_slots_def)

lemma buffer_sizes_total: "adc_resolved cs \<Longrightarrow> \<exists>z. calculate_buffer_sizes cs = Inr z"
proof (induction cs)
  case (Cons c cs)
  then obtain z where "calculate_buffer_sizes cs = Inr z" by (auto simp: adc_resolved_def)
  then show ?case using Cons.prems by (cases "ac_peripheral c") (auto simp: adc_resolved_def is_resolved_config_def)
qed simp

lemma buffer_size_count: "calculate_buffer_sizes cs = Inr z \<Longrightarrow> p \<noteq> ADC_AUTO \<Longrightarrow> buffer_size_for z p = per_count p cs"
  using buffer_sizes_spec by (cases p) auto

lemma buffers_apart:
  "p \<noteq> ADC_AUTO \<Longrightarrow> q \<noteq> ADC_AUTO \<Longrightarrow> p \<noteq> q \<Longrightarrow> r < buffer_size_for z p \<Longrightarrow> t < buffer_size_for z q \<Longrightarrow>
     buffer_offset_for z p + r \<noteq> buffer_offset_for z q + t"
  by (cases p; cases q) auto

lemma buffers_inside:
  "p \<noteq> ADC_AUTO \<Longrightarrow> r < buffer_size_for z p \<Longrightarrow> buffer_offset_for z p + r < total_dma_slots z"
  by (cases p) (auto simp: total_dma_slots_def)

text \<open>The ranks.\<close>

lemma assign_ranks_spec:
  "adc_resolved cs \<Longrightarrow> length counts = 3 \<Longrightarrow>
   \<exists>counts'. assign_ranks cs counts s =
       (map (\<lambda>i. Some (counts ! peripheral_index (ac_peripheral (cs ! i)) + per_count (ac_peripheral (cs ! i)) (take i cs)))
          [0 ..< length cs], counts', s) \<and>
     length counts' = 3 \<and>
     (\<forall>p. p \<noteq> ADC_AUTO \<longrightarrow> counts' ! peripheral_index p = counts ! peripheral_index p + per_count p cs)"
proof (induction cs arbitrary: counts)
  case (Cons c cs)
  let ?p = "ac_peripheral c"
  define counts2 where "counts2 = counts[peripheral_index ?p := counts ! peripheral_index ?p + 1]"
  have c: "is_resolved_config c" "adc_resolved cs" "?p \<noteq> ADC_AUTO"
    using Cons.prems by (auto simp: adc_resolved_def is_resolved_config_def)
  obtain counts' where ih: "assign_ranks cs counts2 s =
      (map (\<lambda>i. Some (counts2 ! peripheral_index (ac_peripheral (cs ! i)) + per_count (ac_peripheral (cs ! i)) (take i cs)))
          [0 ..< length cs], counts', s)" "length counts' = 3"
      "\<forall>p. p \<noteq> ADC_AUTO \<longrightarrow> counts' ! peripheral_index p = counts2 ! peripheral_index p + per_count p cs"
    using Cons.IH [OF c(2), of counts2] Cons.prems by (auto simp: counts2_def)
  have upd: "counts2 ! peripheral_index q = counts ! peripheral_index q + (if q = ?p then 1 else 0)"
    if "q \<noteq> ADC_AUTO" for q
    using Cons.prems(2) peripheral_index_inj [OF that c(3)] by (auto simp: counts2_def nth_list_update)
  have each: "ac_peripheral (cs ! i) \<noteq> ADC_AUTO" if "i < length cs" for i
    using c(2) that by (auto simp: adc_resolved_def is_resolved_config_def list_all_length)
  have "map (\<lambda>i. Some (counts2 ! peripheral_index (ac_peripheral (cs ! i)) + per_count (ac_peripheral (cs ! i)) (take i cs)))
      [0 ..< length cs] =
    map (\<lambda>i. Some (counts ! peripheral_index (ac_peripheral (cs ! i)) + per_count (ac_peripheral (cs ! i)) (c # take i cs)))
      [0 ..< length cs]"
    by (rule map_cong [OF refl]) (auto simp: upd each)
  moreover have "assign_ranks (c # cs) counts s =
      (case assign_ranks cs counts2 s of (rs, n, s) \<Rightarrow> (Some (counts ! peripheral_index ?p) # rs, n, s))"
    using c(1) by (simp add: counts2_def Let_def)
  ultimately have "assign_ranks (c # cs) counts s =
      (map (\<lambda>i. Some (counts ! peripheral_index (ac_peripheral ((c # cs) ! i)) +
           per_count (ac_peripheral ((c # cs) ! i)) (take i (c # cs)))) [0 ..< length (c # cs)], counts', s)"
    using ih(1) by (simp add: upt_conv_Cons map_Suc_upt [symmetric] comp_def del: upt_Suc)
  then show ?case using ih(2,3) upd by (intro exI [of _ counts']) (simp add: c(3))
qed simp

definition rank_of :: "adc_config list \<Rightarrow> nat \<Rightarrow> nat" where
  "rank_of cs i = per_count (ac_peripheral (cs ! i)) (take i cs)"

lemma rank_of_less: "i < length cs \<Longrightarrow> rank_of cs i < per_count (ac_peripheral (cs ! i)) cs"
proof -
  assume i: "i < length cs"
  have "per_count (ac_peripheral (cs ! i)) (take i cs @ cs ! i # drop (Suc i) cs) > rank_of cs i"
    by (simp add: rank_of_def)
  then show ?thesis using i by (simp flip: id_take_nth_drop)
qed

lemma rank_of_mono: "i < j \<Longrightarrow> j < length cs \<Longrightarrow> ac_peripheral (cs ! i) = ac_peripheral (cs ! j) \<Longrightarrow> rank_of cs i < rank_of cs j"
  using rank_of_less [of i "take j cs"] by (simp add: rank_of_def min_def)

lemma filter_rank:
  "i < length cs \<Longrightarrow> filter (\<lambda>c. ac_peripheral c = ac_peripheral (cs ! i)) cs ! rank_of cs i = cs ! i"
proof -
  assume i: "i < length cs"
  let ?P = "\<lambda>c. ac_peripheral c = ac_peripheral (cs ! i)"
  have "filter ?P (take i cs @ cs ! i # drop (Suc i) cs) ! rank_of cs i = cs ! i"
    by (simp add: rank_of_def per_count_def nth_append)
  then show ?thesis using i by (simp flip: id_take_nth_drop)
qed

section \<open>The calls of the initialization\<close>

fun config_call :: "nat \<Rightarrow> adc_call \<Rightarrow> bool" where
  "config_call i (HAL_ADC_ConfigChannel j _ _ _) \<longleftrightarrow> j = i"
| "config_call i _ \<longleftrightarrow> False"

fun start_call :: "nat \<Rightarrow> adc_call \<Rightarrow> bool" where
  "start_call i (HAL_ADC_Start_DMA j _ _) \<longleftrightarrow> j = i"
| "start_call i _ \<longleftrightarrow> False"

definition scan_calls :: "nat \<Rightarrow> adc_call list \<Rightarrow> adc_call list" where
  "scan_calls i ms = filter (\<lambda>m. config_call i m \<or> start_call i m) ms"

lemma scan_calls_simps [simp]:
  "scan_calls i [] = []" "scan_calls i (ms @ ns) = scan_calls i ms @ scan_calls i ns"
  "scan_calls i (m # ms) = (if config_call i m \<or> start_call i m then m # scan_calls i ms else scan_calls i ms)"
  by (simp_all add: scan_calls_def)

text \<open>\<open>added s s' ms\<close>: the calls from one state to another.\<close>

definition added :: "adc_state \<Rightarrow> adc_state \<Rightarrow> adc_call list \<Rightarrow> bool" where
  "added s s' ms \<longleftrightarrow> as_calls s' = as_calls s @ ms"

lemma added_trans: "added s t ms \<Longrightarrow> added t u ns \<Longrightarrow> added s u (ms @ ns)"
  by (simp add: added_def)

lemma added_simps [simp]:
  "added s (adc_call_do m t) ns \<longleftrightarrow> as_calls t @ [m] = as_calls s @ ns"
  "added s (adc_panic msg t) ns \<longleftrightarrow> added s t ns"
  "added s (update_handle i f t) ns \<longleftrightarrow> added s t ns"
  "added s (t\<lparr>as_parents := ps\<rparr>) ns \<longleftrightarrow> added s t ns"
  "added s (t\<lparr>as_pool := pool\<rparr>) ns \<longleftrightarrow> added s t ns"
  "added s (t\<lparr>as_instances := xs\<rparr>) ns \<longleftrightarrow> added s t ns"
  by (simp_all add: added_def adc_call_do_def adc_panic_def update_handle_def)

lemma calls_simps [simp]:
  "as_calls (adc_call_do m t) = as_calls t @ [m]" "as_calls (adc_panic msg t) = as_calls t"
  "as_calls (update_handle i f t) = as_calls t"
  by (simp_all add: adc_call_do_def adc_panic_def update_handle_def)

definition channel_calls :: "adc_peripheral \<Rightarrow> adc_config list \<Rightarrow> nat \<Rightarrow> adc_call list" where
  "channel_calls p cs rank =
     map (\<lambda>(k, c). HAL_ADC_ConfigChannel (peripheral_index p) (ac_channel c) (regular_rank k) (ac_sample_time c))
       (enumerate rank (filter (\<lambda>c. ac_peripheral c = p) cs))"

lemma channel_calls_simps [simp]:
  "channel_calls p [] rank = []"
  "channel_calls p (c # cs) rank =
     (if ac_peripheral c = p
      then HAL_ADC_ConfigChannel (peripheral_index p) (ac_channel c) (regular_rank rank) (ac_sample_time c) #
             channel_calls p cs (Suc rank)
      else channel_calls p cs rank)"
  by (simp_all add: channel_calls_def)

lemma config_channels_spec:
  "config_channels ok p cs rank s = (r, s') \<Longrightarrow>
   \<exists>ms. added s s' ms \<and> (\<forall>j. j \<noteq> peripheral_index p \<longrightarrow> scan_calls j ms = []) \<and>
     scan_calls (peripheral_index p) ms = ms \<and> (r \<longrightarrow> ms = channel_calls p cs rank)"
proof (induction cs arbitrary: rank s)
  case (Cons c cs)
  let ?m = "HAL_ADC_ConfigChannel (peripheral_index p) (ac_channel c) (regular_rank rank) (ac_sample_time c)"
  show ?case
  proof (cases "ac_peripheral c = p \<and> ok (as_calls s @ [?m])")
    case True
    then obtain ms where "added (adc_call_do ?m s) s' ms" "\<forall>j. j \<noteq> peripheral_index p \<longrightarrow> scan_calls j ms = []"
        "scan_calls (peripheral_index p) ms = ms" "r \<longrightarrow> ms = channel_calls p cs (rank + 1)"
      using Cons.IH [of "rank + 1" "adc_call_do ?m s"] Cons.prems by (auto simp: Let_def)
    then show ?thesis using True by (intro exI [of _ "?m # ms"]) (auto simp: added_def)
  next
    case False
    show ?thesis
    proof (cases "ac_peripheral c = p")
      case True
      then show ?thesis using False Cons.prems by (auto simp: Let_def intro!: exI [of _ "[?m]"])
    next
      case other: False
      then show ?thesis using Cons.IH [of rank s] Cons.prems by auto
    qed
  qed
qed (auto simp: added_def)

lemma start_adc_spec:
  assumes "start_adc ok cfgs p buffer n s = (r, s')"
  shows "\<exists>ms. added s s' ms \<and> (\<forall>j. j \<noteq> peripheral_index p \<longrightarrow> scan_calls j ms = []) \<and>
     (r \<longrightarrow> scan_calls (peripheral_index p) ms = channel_calls p cfgs 0 @ [HAL_ADC_Start_DMA (peripheral_index p) buffer n])"
proof -
  obtain fine t where t: "config_channels ok p cfgs 0 s = (fine, t)" by (rule prod.exhaust)
  obtain ms where ms: "added s t ms" "\<forall>j. j \<noteq> peripheral_index p \<longrightarrow> scan_calls j ms = []"
      "scan_calls (peripheral_index p) ms = ms" "fine \<longrightarrow> ms = channel_calls p cfgs 0"
    using config_channels_spec [OF t] by blast
  show ?thesis
  proof (cases fine)
    case True
    then have "added s s' (ms @ [HAL_ADC_Start_DMA (peripheral_index p) buffer n])"
      using assms t ms(1) by (auto simp: start_adc_def Let_def added_def split: if_splits)
    then show ?thesis using ms True by (intro exI [of _ "ms @ [HAL_ADC_Start_DMA (peripheral_index p) buffer n]"]) auto
  next
    case False
    then show ?thesis using assms t ms by (auto simp: start_adc_def)
  qed
qed

lemma configure_peripheral_calls:
  "\<exists>ms. added s (configure_peripheral c n s) ms \<and> (\<forall>j. scan_calls j ms = [])"
  by (auto simp: configure_peripheral_def Let_def added_def)

lemma stop_running_calls: "\<exists>ms. added s (stop_running i s) ms \<and> (\<forall>j. scan_calls j ms = [])"
  by (auto simp: stop_running_def added_def)

lemma get_dma_buffer_spec:
  "get_dma_buffer z p s = (b, s') \<Longrightarrow> added s s' [] \<and> (\<forall>k. b = Some k \<longrightarrow> k = buffer_offset_for z p)"
  by (auto simp: get_dma_buffer_def Let_def added_def adc_panic_def split: if_splits)

lemma peripheral_from_index_inverse: "i < 3 \<Longrightarrow> peripheral_index (peripheral_from_index i) = i"
  by (auto simp: peripheral_from_index_def)

definition quiet :: "adc_call list \<Rightarrow> bool" where
  "quiet ms \<longleftrightarrow> (\<forall>j. scan_calls j ms = [])"

lemma peripheral_set_up_calls: "\<exists>ms. added s (peripheral_set_up c n pidx d s) ms \<and> quiet ms"
proof -
  let ?t = "(update_handle pidx (ah_dma_update (\<lambda>_. Some d)) s)
      \<lparr>as_parents := (as_parents (update_handle pidx (ah_dma_update (\<lambda>_. Some d)) s))[d := Some pidx]\<rparr>"
  obtain ms where "added ?t (configure_peripheral c n ?t) ms" "\<forall>j. scan_calls j ms = []"
    using configure_peripheral_calls by blast
  then show ?thesis
    by (intro exI [of _ "ms @ [HAL_ADC_Init pidx (init_struct_of c n)]"])
      (auto simp: peripheral_set_up_def added_def quiet_def Let_def)
qed

lemma init_peripheral_cases:
  "init_peripheral ok dma z cfgs pidx n s =
     (if n = 0 then (False, s)
      else case find (\<lambda>c. ac_peripheral c = peripheral_from_index pidx) cfgs of
        None \<Rightarrow> (False, s)
      | Some c \<Rightarrow>
          (case find_dma_instance (ac_request c) dma of
             None \<Rightarrow> (False, adc_panic ''ADC DMA instance unavailable'' (stop_running pidx s))
           | Some d \<Rightarrow>
               (case get_dma_buffer z (peripheral_from_index pidx) (stop_running pidx s) of
                  (None, t) \<Rightarrow> (False, t)
                | (Some buffer, t) \<Rightarrow>
                    (let u = peripheral_set_up c n pidx d t in
                     if \<not> ok (as_calls u) then (False, adc_panic ''ADC Init failed'' u)
                     else start_adc ok cfgs (peripheral_from_index pidx) buffer n u))))"
  unfolding init_peripheral_def Let_def by (rule refl)

lemma init_peripheral_spec:
  assumes "init_peripheral ok dma z cfgs pidx n s = (r, s')" "pidx < 3"
  shows "\<exists>ms. added s s' ms \<and> (\<forall>j. j \<noteq> pidx \<longrightarrow> scan_calls j ms = []) \<and>
     (r \<longrightarrow> scan_calls pidx ms = channel_calls (peripheral_from_index pidx) cfgs 0 @
        [HAL_ADC_Start_DMA pidx (buffer_offset_for z (peripheral_from_index pidx)) n])"
proof -
  let ?p = "peripheral_from_index pidx"
  have idx: "peripheral_index ?p = pidx" using assms(2) by (rule peripheral_from_index_inverse)
  obtain ms0 where ms0: "added s (stop_running pidx s) ms0" "\<forall>j. scan_calls j ms0 = []"
    using stop_running_calls by blast
  consider (stop) "r = False" "s' = s" | (dma) "r = False" "added (stop_running pidx s) s' []"
    | (go) c d b t where "get_dma_buffer z ?p (stop_running pidx s) = (Some b, t)"
        "(if \<not> ok (as_calls (peripheral_set_up c n pidx d t))
          then (False, adc_panic ''ADC Init failed'' (peripheral_set_up c n pidx d t))
          else start_adc ok cfgs ?p b n (peripheral_set_up c n pidx d t)) = (r, s')"
    using assms(1) get_dma_buffer_spec [of z ?p "stop_running pidx s"]
    by (fastforce simp: init_peripheral_cases Let_def added_def split: if_splits option.splits prod.splits)
  then show ?thesis
  proof cases
    case stop
    then show ?thesis by (intro exI [of _ "[]"]) (simp add: added_def)
  next
    case dma
    then show ?thesis using ms0 by (intro exI [of _ ms0]) (auto simp: added_def)
  next
    case go
    have b: "added (stop_running pidx s) t []" "b = buffer_offset_for z ?p"
      using get_dma_buffer_spec [OF go(1)] by auto
    obtain ms1 where ms1: "added t (peripheral_set_up c n pidx d t) ms1" "quiet ms1"
      using peripheral_set_up_calls by blast
    have pre: "added s (peripheral_set_up c n pidx d t) (ms0 @ ms1)"
      using added_trans [OF added_trans [OF ms0(1) b(1)] ms1(1)] by simp
    show ?thesis
    proof (cases "ok (as_calls (peripheral_set_up c n pidx d t))")
      case False
      then show ?thesis using go(2) pre ms0 ms1 by (intro exI [of _ "ms0 @ ms1"]) (auto simp: quiet_def)
    next
      case True
      then obtain ms2 where "added (peripheral_set_up c n pidx d t) s' ms2" "\<forall>j. j \<noteq> pidx \<longrightarrow> scan_calls j ms2 = []"
          "r \<longrightarrow> scan_calls pidx ms2 = channel_calls ?p cfgs 0 @ [HAL_ADC_Start_DMA pidx b n]"
        using go(2) start_adc_spec [of ok cfgs ?p b n "peripheral_set_up c n pidx d t" r s'] idx by auto
      then show ?thesis using added_trans [OF pre] ms0 ms1 b(2)
        by (intro exI [of _ "(ms0 @ ms1) @ ms2"]) (auto simp: quiet_def)
    qed
  qed
qed

lemma init_peripherals_spec:
  "init_peripherals ok dma z cfgs counts ps s = (rs, s') \<Longrightarrow> distinct ps \<Longrightarrow> list_all (\<lambda>i. i < 3) ps \<Longrightarrow>
   length rs = length ps \<and> (\<exists>ms. added s s' ms \<and> (\<forall>j. j \<notin> set ps \<longrightarrow> scan_calls j ms = []) \<and>
     (\<forall>k < length ps. rs ! k \<longrightarrow> scan_calls (ps ! k) ms = channel_calls (peripheral_from_index (ps ! k)) cfgs 0 @
        [HAL_ADC_Start_DMA (ps ! k) (buffer_offset_for z (peripheral_from_index (ps ! k))) (counts ! (ps ! k))]))"
proof (induction ps arbitrary: s rs)
  case (Cons i ps)
  obtain r t rest where t: "init_peripheral ok dma z cfgs i (counts ! i) s = (r, t)"
      "init_peripherals ok dma z cfgs counts ps t = (rest, s')" "rs = r # rest"
    using Cons.prems(1) by (auto split: prod.splits)
  obtain ms1 where ms1: "added s t ms1" "\<forall>j. j \<noteq> i \<longrightarrow> scan_calls j ms1 = []"
      "r \<longrightarrow> scan_calls i ms1 = channel_calls (peripheral_from_index i) cfgs 0 @
        [HAL_ADC_Start_DMA i (buffer_offset_for z (peripheral_from_index i)) (counts ! i)]"
    using init_peripheral_spec [OF t(1)] Cons.prems by auto
  obtain ms2 where ms2: "length rest = length ps" "added t s' ms2" "\<forall>j. j \<notin> set ps \<longrightarrow> scan_calls j ms2 = []"
      "\<forall>k < length ps. rest ! k \<longrightarrow> scan_calls (ps ! k) ms2 = channel_calls (peripheral_from_index (ps ! k)) cfgs 0 @
        [HAL_ADC_Start_DMA (ps ! k) (buffer_offset_for z (peripheral_from_index (ps ! k))) (counts ! (ps ! k))]"
    using Cons.IH [OF t(2)] Cons.prems by auto
  have "ps ! k \<noteq> i" if "k < length ps" for k using Cons.prems(2) nth_mem [OF that] by auto
  then show ?case
    using added_trans [OF ms1(1) ms2(2)] ms1(2,3) ms2 Cons.prems(2) t(3)
    by (intro conjI exI [of _ "ms1 @ ms2"]) (auto simp: less_Suc_eq_0_disj)
qed (auto simp: added_def intro: exI [of _ "[]"])

section \<open>Every device reads its own channel\<close>

lemma regular_rank_less: "k < 16 \<Longrightarrow> regular_rank k = k + 1"
proof -
  assume "k < 16"
  moreover have "list_all (\<lambda>k. regular_rank k = k + 1) [0 ..< 16]" by code_simp
  ultimately show ?thesis by (simp add: list_all_iff del: upt_rec_numeral)
qed

lemma adc_built_resolved: "adc_built has3 es cs seen \<Longrightarrow> adc_resolved cs"
  using entry_config_resolved
  by (fastforce simp: adc_built_def adc_resolved_def is_resolved_config_def list_all_length list_all2_conv_all_nth)

lemma adc_resolved_nth: "adc_resolved cs \<Longrightarrow> k < length cs \<Longrightarrow> ac_peripheral (cs ! k) \<noteq> ADC_AUTO \<and> ac_channel (cs ! k) \<noteq> CH_AUTO"
  by (auto simp: adc_resolved_def is_resolved_config_def list_all_length)

lemma init_adc_spec:
  assumes "adc_resolved cfgs"
  obtains counts ready t where
    "\<And>p. p \<noteq> ADC_AUTO \<Longrightarrow> counts ! peripheral_index p = per_count p cfgs"
    "init_peripherals ok dma z cfgs counts [0 ..< 3] s = (ready, t)"
    "init_adc ok dma z cfgs s = t\<lparr>as_instances := map (\<lambda>k. adc_instance_of z ready (cfgs ! k) (Some (rank_of cfgs k))) [0 ..< length cfgs]\<rparr>"
proof -
  have zero: "[0, 0, 0] ! peripheral_index p = (0 :: nat)" for p by (cases p) auto
  obtain counts where counts: "assign_ranks cfgs [0, 0, 0] s = (map (\<lambda>i. Some (rank_of cfgs i)) [0 ..< length cfgs], counts, s)"
      "\<And>p. p \<noteq> ADC_AUTO \<Longrightarrow> counts ! peripheral_index p = per_count p cfgs"
    using assign_ranks_spec [OF assms, of "[0, 0, 0]" s] by (auto simp: zero rank_of_def)
  obtain ready t where t: "init_peripherals ok dma z cfgs counts [0 ..< 3] s = (ready, t)" by (rule prod.exhaust)
  have "map (\<lambda>(c, k). adc_instance_of z ready c k) (zip cfgs (map (\<lambda>i. Some (rank_of cfgs i)) [0 ..< length cfgs])) =
      map (\<lambda>k. adc_instance_of z ready (cfgs ! k) (Some (rank_of cfgs k))) [0 ..< length cfgs]"
    by (rule nth_equalityI) auto
  then have "init_adc ok dma z cfgs s =
      t\<lparr>as_instances := map (\<lambda>k. adc_instance_of z ready (cfgs ! k) (Some (rank_of cfgs k))) [0 ..< length cfgs]\<rparr>"
    unfolding init_adc_def Let_def counts(1) by (simp add: t del: upt_rec_numeral)
  then show ?thesis using that counts(2) t by blast
qed

text \<open>A converter in circular DMA mode: from the position where it was started on, the pool has the
  conversions of its channels in the order of their ranks.\<close>

definition scan_writes :: "nat \<Rightarrow> adc_call list \<Rightarrow> u16 list \<Rightarrow> (Channel \<Rightarrow> u16) \<Rightarrow> bool" where
  "scan_writes i calls pool conv \<longleftrightarrow>
     (\<forall>off n r ch t. HAL_ADC_Start_DMA i off n \<in> set calls \<and> r < n \<and>
        HAL_ADC_ConfigChannel i ch (r + 1) t \<in> set calls \<longrightarrow> pool ! (off + r) = conv ch)"

lemma channel_calls_mem:
  "k < length cfgs \<Longrightarrow> rank_of cfgs k < 16 \<Longrightarrow> p = ac_peripheral (cfgs ! k) \<Longrightarrow>
   HAL_ADC_ConfigChannel (peripheral_index p) (ac_channel (cfgs ! k)) (rank_of cfgs k + 1) (ac_sample_time (cfgs ! k))
     \<in> set (channel_calls p cfgs 0)"
  using rank_of_less [of k cfgs] filter_rank [of k cfgs]
  by (auto simp: channel_calls_def in_set_enumerate_eq per_count_def regular_rank_less image_iff
      intro!: bexI [of _ "(rank_of cfgs k, cfgs ! k)"])

lemma instance_slot:
  assumes "calculate_buffer_sizes cfgs = Inr z" "adc_resolved cfgs" "k < length cfgs"
    and "x = adc_instance_of z ready (cfgs ! k) (Some (rank_of cfgs k))" "ai_handle x = Some i"
  shows "i = peripheral_index (ac_peripheral (cfgs ! k))" "ready ! i"
    "ai_slot x = Some (buffer_offset_for z (ac_peripheral (cfgs ! k)) + rank_of cfgs k)"
    "buffer_offset_for z (ac_peripheral (cfgs ! k)) + rank_of cfgs k < total_dma_slots z"
proof -
  let ?p = "ac_peripheral (cfgs ! k)"
  have p: "?p \<noteq> ADC_AUTO" using adc_resolved_nth [OF assms(2,3)] by blast
  have r: "rank_of cfgs k < buffer_size_for z ?p"
    using rank_of_less [OF assms(3)] buffer_size_count [OF assms(1) p] by simp
  show ready: "i = peripheral_index ?p" "ready ! i"
    using assms(4,5) by (auto simp: adc_instance_of_def Let_def split: if_splits)
  show "buffer_offset_for z ?p + rank_of cfgs k < total_dma_slots z" by (rule buffers_inside [OF p r])
  then show "ai_slot x = Some (buffer_offset_for z ?p + rank_of cfgs k)"
    using r ready assms(4) by (simp add: adc_instance_of_def Let_def get_dma_slot_def)
qed

lemma slots_apart:
  assumes "calculate_buffer_sizes cfgs = Inr z" "adc_resolved cfgs" "j < length cfgs" "k < length cfgs" "j \<noteq> k"
  shows "buffer_offset_for z (ac_peripheral (cfgs ! j)) + rank_of cfgs j \<noteq>
    buffer_offset_for z (ac_peripheral (cfgs ! k)) + rank_of cfgs k"
proof (cases "ac_peripheral (cfgs ! j) = ac_peripheral (cfgs ! k)")
  case True
  have "rank_of cfgs j \<noteq> rank_of cfgs k"
    using rank_of_mono [of j k cfgs] rank_of_mono [of k j cfgs] assms(3-5) True by (cases "j < k") auto
  then show ?thesis using True by simp
next
  case False
  have p: "ac_peripheral (cfgs ! i) \<noteq> ADC_AUTO" "rank_of cfgs i < buffer_size_for z (ac_peripheral (cfgs ! i))"
    if "i < length cfgs" for i
    using adc_resolved_nth [OF assms(2) that] rank_of_less [OF that] buffer_size_count [OF assms(1)] by auto
  show ?thesis by (rule buffers_apart) (use p assms False in auto)
qed

lemma slot_has_handle:
  "ai_slot (adc_instance_of z ready c (Some r)) \<noteq> None \<Longrightarrow> \<exists>i. ai_handle (adc_instance_of z ready c (Some r)) = Some i"
  by (auto simp: adc_instance_of_def Let_def split: if_splits)

text \<open>The devices after the initialization, and what one of them reads.\<close>

lemma adc_instances:
  assumes build: "build_adc has3 n es = Inr cfgs"
  obtains ready where
    "\<And>j. j < n \<Longrightarrow> as_instances (init_adc ok dma z cfgs s) ! j = adc_instance_of z ready (cfgs ! j) (Some (rank_of cfgs j))"
proof -
  obtain seen where seen: "adc_built has3 es cfgs seen" "length es = n" by (rule build_adc_built [OF build])
  then have len: "length cfgs = n" by (auto simp: adc_built_def list_all2_lengthD)
  obtain counts ready t where
      "init_adc ok dma z cfgs s = t\<lparr>as_instances := map (\<lambda>k. adc_instance_of z ready (cfgs ! k) (Some (rank_of cfgs k))) [0 ..< length cfgs]\<rparr>"
    using init_adc_spec [OF adc_built_resolved [OF seen(1)], of ok dma z s] by metis
  then show ?thesis using that [of ready] len by simp
qed

lemma adc_sample_own:
  assumes build: "build_adc has3 n es = Inr cfgs" "calculate_buffer_sizes cfgs = Inr z"
    and s: "as_calls s = []" "s' = init_adc ok dma z cfgs s"
    and k: "k < n" "ai_handle (as_instances s' ! k) = Some i"
    and hw: "scan_writes i (as_calls s') pool conv"
  shows "i = peripheral_index (ac_peripheral (cfgs ! k))"
    and "sample_raw pool (as_instances s' ! k) =
      min (ucast (conv (ac_channel (cfgs ! k)))) (max_raw_for_resolution (ac_resolution (cfgs ! k)))"
proof -
  obtain seen where seen: "adc_built has3 es cfgs seen" "length es = n" by (rule build_adc_built [OF build(1)])
  then have len: "length cfgs = n" by (auto simp: adc_built_def list_all2_lengthD)
  have res: "adc_resolved cfgs" by (rule adc_built_resolved [OF seen(1)])
  obtain counts ready t where init: "\<And>p. p \<noteq> ADC_AUTO \<Longrightarrow> counts ! peripheral_index p = per_count p cfgs"
      "init_peripherals ok dma z cfgs counts [0 ..< 3] s = (ready, t)"
      "s' = t\<lparr>as_instances := map (\<lambda>k. adc_instance_of z ready (cfgs ! k) (Some (rank_of cfgs k))) [0 ..< length cfgs]\<rparr>"
    using init_adc_spec [OF res, of ok dma z s] s(2) by metis
  have inst: "as_instances s' ! j = adc_instance_of z ready (cfgs ! j) (Some (rank_of cfgs j))" if "j < n" for j
    using that by (simp add: init(3) len)
  let ?c = "cfgs ! k" let ?p = "ac_peripheral ?c" let ?off = "buffer_offset_for z ?p"
  note slot = instance_slot [OF build(2) res k(1) [folded len] inst [OF k(1)] k(2)]
  have p: "?p \<noteq> ADC_AUTO" using adc_resolved_nth [OF res] k(1) len by simp
  obtain ms where ms: "added s t ms" "\<forall>q < 3. ready ! q \<longrightarrow> scan_calls q ms = channel_calls (peripheral_from_index q) cfgs 0 @
      [HAL_ADC_Start_DMA q (buffer_offset_for z (peripheral_from_index q)) (counts ! q)]"
    using init_peripherals_spec [OF init(2)] by (auto simp: list_all_iff simp del: upt_rec_numeral)
  have from_p: "peripheral_from_index (peripheral_index ?p) = ?p"
    using p by (cases ?p) (auto simp: peripheral_from_index_def)
  have "scan_calls i ms = channel_calls ?p cfgs 0 @ [HAL_ADC_Start_DMA i ?off (per_count ?p cfgs)]"
    using ms(2) slot(1,2) init(1) [OF p] by (simp add: from_p)
  then have mem: "set (channel_calls ?p cfgs 0) \<subseteq> set ms" "HAL_ADC_Start_DMA i ?off (per_count ?p cfgs) \<in> set ms"
    by (metis Un_iff filter_is_subset scan_calls_def set_append subsetI subset_trans Un_upper1)
      (metis \<open>scan_calls i ms = _\<close> filter_is_subset in_mono in_set_conv_decomp scan_calls_def)
  have calls: "as_calls s' = ms" using ms(1) s(1) by (simp add: init(3) added_def)
  have rank: "rank_of cfgs k < per_count ?p cfgs" using rank_of_less k(1) len by simp
  moreover have "per_count ?p cfgs \<le> 16" using seen(1) p by (simp add: adc_built_def max_channels_per_peripheral_def)
  ultimately have "HAL_ADC_ConfigChannel i (ac_channel ?c) (rank_of cfgs k + 1) (ac_sample_time ?c) \<in> set ms"
    using channel_calls_mem [of k cfgs ?p] k(1) len mem(1) slot(1) by auto
  then have "pool ! (?off + rank_of cfgs k) = conv (ac_channel ?c)"
    using hw rank mem(2) unfolding calls scan_writes_def by blast
  then show "sample_raw pool (as_instances s' ! k) =
      min (ucast (conv (ac_channel ?c))) (max_raw_for_resolution (ac_resolution ?c))"
    using slot(3) inst [OF k(1)] by (simp add: sample_raw_def adc_instance_of_def Let_def)
  show "i = peripheral_index ?p" by (rule slot(1))
qed

text \<open>C27. Every analog input reads its own channel: after the initialization of a board that compiles,
  a device that has a converter has a slot of its own inside the pool, and what it reads there is the
  conversion of its own channel by its own converter, cut at the largest value of its resolution.\<close>

theorem adc_reads_own_channel:
  assumes build: "build_adc has3 n es = Inr cfgs" "calculate_buffer_sizes cfgs = Inr z"
    and s: "as_calls s = []" "s' = init_adc ok dma z cfgs s"
    and k: "k < n" "ai_handle (as_instances s' ! k) = Some i"
    and hw: "scan_writes i (as_calls s') pool conv"
  shows "i = peripheral_index (ac_peripheral (cfgs ! k)) \<and>
    sample_raw pool (as_instances s' ! k) =
      min (ucast (conv (ac_channel (cfgs ! k)))) (max_raw_for_resolution (ac_resolution (cfgs ! k))) \<and>
    (\<exists>slot < total_dma_slots z. ai_slot (as_instances s' ! k) = Some slot \<and>
       (\<forall>j < n. j \<noteq> k \<longrightarrow> ai_slot (as_instances s' ! j) \<noteq> Some slot))"
proof -
  obtain seen where seen: "adc_built has3 es cfgs seen" "length es = n" by (rule build_adc_built [OF build(1)])
  then have len: "length cfgs = n" by (auto simp: adc_built_def list_all2_lengthD)
  have res: "adc_resolved cfgs" by (rule adc_built_resolved [OF seen(1)])
  obtain ready where inst: "\<And>j. j < n \<Longrightarrow> as_instances s' ! j = adc_instance_of z ready (cfgs ! j) (Some (rank_of cfgs j))"
    using adc_instances [OF build(1), of ok dma z s] s(2) by metis
  let ?off = "buffer_offset_for z (ac_peripheral (cfgs ! k))"
  note slot = instance_slot [OF build(2) res k(1) [folded len] inst [OF k(1)] k(2)]
  have "ai_slot (as_instances s' ! j) \<noteq> Some (?off + rank_of cfgs k)" if "j < n" "j \<noteq> k" for j
  proof
    note jn = inst [OF that(1)]
    assume j: "ai_slot (as_instances s' ! j) = Some (?off + rank_of cfgs k)"
    then obtain q where "ai_handle (as_instances s' ! j) = Some q"
      using slot_has_handle [of z ready "cfgs ! j" "rank_of cfgs j"] jn by auto
    then have "ai_slot (as_instances s' ! j) = Some (buffer_offset_for z (ac_peripheral (cfgs ! j)) + rank_of cfgs j)"
      using instance_slot(3) [OF build(2) res _ inst [OF that(1)]] that(1) len by simp
    then show False using j slots_apart [OF build(2) res, of j k] that k(1) len by simp
  qed
  then show ?thesis using slot adc_sample_own [OF build s k hw] by blast
qed

definition demo_adc_entry :: "nat \<Rightarrow> nat \<Rightarrow> adc_entry" where
  "demo_adc_entry i k =
     \<lparr>ae_gpio = i, ae_pin = PIN PA k, ae_peripheral = ADC_AUTO, ae_channel = CH_AUTO, ae_resolution = BITS_12,
      ae_sample_time = CYCLES_8_5, ae_prescaler = DIV1, ae_rate = 0, ae_output = None\<rparr>"

lemma resolve_mapping_best_witness:
  "resolve_mapping True (demo_adc_entry 0 6) = Inr (ADC_1, CH 3) \<and>
   list_all (\<lambda>m. mapping_fits (demo_adc_entry 0 6) m \<longrightarrow> score_of (demo_adc_entry 0 6) m \<le> 2) pin_map"
proof -
  have r: "resolve_mapping True (demo_adc_entry 0 6) = Inr (ADC_1, CH 3)" by code_simp
  have "ae_peripheral (demo_adc_entry 0 6) = ADC_AUTO \<or> ae_channel (demo_adc_entry 0 6) = CH_AUTO"
    "\<not> is_internal_channel (ae_channel (demo_adc_entry 0 6))" by code_simp+
  from resolve_mapping_best [OF this, of True] show ?thesis
    by (simp add: r) (simp add: demo_adc_entry_def)
qed

definition demo_adc_configs :: "adc_config list" where
  "demo_adc_configs = projr (build_adc True 2 [demo_adc_entry 0 0, demo_adc_entry 1 6])"

definition demo_adc_state :: adc_state where
  "demo_adc_state =
     init_adc (\<lambda>_. True) [Some (1, projr (init_of adc1 0))] \<lparr>adc1_size = 2, adc2_size = 0, adc3_size = 0\<rparr>
       demo_adc_configs (initial_adc \<lparr>adc1_size = 2, adc2_size = 0, adc3_size = 0\<rparr> 1)"

lemma demo_adc_built:
  "build_adc True 2 [demo_adc_entry 0 0, demo_adc_entry 1 6] = Inr demo_adc_configs \<and>
   calculate_buffer_sizes demo_adc_configs = Inr \<lparr>adc1_size = 2, adc2_size = 0, adc3_size = 0\<rparr>"
  by code_simp

lemma demo_adc_calls:
  "filter (\<lambda>m. config_call 0 m \<or> start_call 0 m) (as_calls demo_adc_state) =
     [HAL_ADC_ConfigChannel 0 (CH 16) 1 CYCLES_8_5, HAL_ADC_ConfigChannel 0 (CH 3) 2 CYCLES_8_5, HAL_ADC_Start_DMA 0 0 2]"
  by code_simp

lemma demo_adc_second:
  "ai_handle (as_instances demo_adc_state ! 1) = Some 0 \<and> ac_channel (demo_adc_configs ! 1) = CH 3 \<and>
   ac_resolution (demo_adc_configs ! 1) = BITS_12 \<and> ac_peripheral (demo_adc_configs ! 1) = ADC_1"
  by code_simp

lemma adc_reads_own_channel_witness:
  "sample_raw [100, 5000] (as_instances demo_adc_state ! 1) = 4095"
proof -
  have mem: "HAL_ADC_Start_DMA 0 a b \<in> set (as_calls demo_adc_state) \<longleftrightarrow> a = 0 \<and> b = 2"
    "HAL_ADC_ConfigChannel 0 ch r t \<in> set (as_calls demo_adc_state) \<longleftrightarrow>
       (ch = CH 16 \<and> r = 1 \<and> t = CYCLES_8_5) \<or> (ch = CH 3 \<and> r = 2 \<and> t = CYCLES_8_5)" for a b ch r t
    using arg_cong [OF demo_adc_calls, of "\<lambda>ms. HAL_ADC_Start_DMA 0 a b \<in> set ms"]
      arg_cong [OF demo_adc_calls, of "\<lambda>ms. HAL_ADC_ConfigChannel 0 ch r t \<in> set ms"] by auto
  have "scan_writes 0 (as_calls demo_adc_state) [100, 5000] (\<lambda>ch. if ch = CH 16 then 100 else 5000)"
    by (auto simp: scan_writes_def mem)
  then show ?thesis
    using adc_reads_own_channel [OF conjunct1 [OF demo_adc_built] conjunct2 [OF demo_adc_built] _ demo_adc_state_def,
        of 1 0 "[100, 5000]" "\<lambda>ch. if ch = CH 16 then 100 else 5000"] demo_adc_second
    by (simp add: initial_adc_def)
qed

end
