(* ===== verification/Board.thy ===== *)
theory Board
  imports Adc
begin

unbundle bit_operations_syntax

text \<open>
  The board (\<open>Board\<close>, \<open>BuildCtx\<close> and \<open>BuildUtils\<close> of \<open>Inc/ST-LIB.hpp\<close>): its devices are inscribed one after the
  other, the configurations of the domains are computed from the context, and the initialization
  runs over the domains; \<open>instance_of\<close> finds the instance of a device. The domains modelled are the
  pins, the streams, the digital outputs and inputs, the analog inputs and the external interrupts.
  Of the filters of \<open>DFSDM\<close> only the streams they add to those of the DMA are modelled. The address of
  a device is a number; its pin is the first member and has the same address.
\<close>

section \<open>The streams of the filters\<close>

text \<open>A configuration of a filter is its number and whether it uses the DMA.\<close>

definition dma_filter :: "nat \<Rightarrow> string + Peripheral" where
  "dma_filter f =
     (if f = 0 then Inr dfsdm_filter0 else if f = 1 then Inr dfsdm_filter1 else if f = 2 then Inr dfsdm_filter2
      else if f = 3 then Inr dfsdm_filter3 else Inl ''There is not other filter'')"

fun dma_entries_for_filter :: "nat \<Rightarrow> dma_entry list \<Rightarrow> string + nat" where
  "dma_entries_for_filter f [] = Inr 0"
| "dma_entries_for_filter f (e # es) =
     (case dma_filter f of
        Inl msg \<Rightarrow> Inl msg
      | Inr p \<Rightarrow>
          if de_instance e \<noteq> p then dma_entries_for_filter f es
          else if de_id e \<noteq> 0 then Inl ''DFSDM: DMA for DFSDM filters must use stream id 0''
          else map_sum id Suc (dma_entries_for_filter f es))"

definition uses_filter_dma :: "nat \<Rightarrow> (nat \<times> bool) list \<Rightarrow> bool" where
  "uses_filter_dma f cfgs \<longleftrightarrow> list_ex (\<lambda>(g, dma). g = f \<and> dma) cfgs"

fun filter_count_from :: "(nat \<times> bool) list \<Rightarrow> dma_entry list \<Rightarrow> nat list \<Rightarrow> string + nat" where
  "filter_count_from cfgs des [] = Inr 0"
| "filter_count_from cfgs des (f # fs) =
     (if \<not> uses_filter_dma f cfgs then filter_count_from cfgs des fs
      else
        (case dma_entries_for_filter f des of
           Inl msg \<Rightarrow> Inl msg
         | Inr existing \<Rightarrow>
             if 1 < existing then Inl ''DFSDM: multiple DMA streams configured for the same DFSDM filter''
             else map_sum id (\<lambda>n. if existing = 0 then Suc n else n) (filter_count_from cfgs des fs)))"

definition filter_contribution_count :: "(nat \<times> bool) list \<Rightarrow> dma_entry list \<Rightarrow> string + nat" where
  "filter_contribution_count cfgs des = filter_count_from cfgs des [0 ..< 4]"

fun filter_contributions_from :: "(nat \<times> bool) list \<Rightarrow> dma_entry list \<Rightarrow> nat list \<Rightarrow> string + dma_entry list" where
  "filter_contributions_from cfgs des [] = Inr []"
| "filter_contributions_from cfgs des (f # fs) =
     (if \<not> uses_filter_dma f cfgs then filter_contributions_from cfgs des fs
      else
        (case (dma_entries_for_filter f des, dma_filter f) of
           (Inr existing, Inr p) \<Rightarrow>
             if existing = 0
             then map_sum id ((#) \<lparr>de_instance = p, de_stream = 0, de_irqn = No_IRQn, de_id = 0\<rparr>)
                    (filter_contributions_from cfgs des fs)
             else filter_contributions_from cfgs des fs
         | (Inl msg, _) \<Rightarrow> Inl msg
         | (_, Inl msg) \<Rightarrow> Inl msg))"

definition build_filter_contributions :: "nat \<Rightarrow> dma_entry list \<Rightarrow> (nat \<times> bool) list \<Rightarrow> string + dma_entry list" where
  "build_filter_contributions n des cfgs =
     (case filter_contributions_from cfgs des [0 ..< 4] of
        Inl msg \<Rightarrow> Inl msg
      | Inr extra \<Rightarrow> if length extra \<noteq> n then Inl ''DFSDM: DMA contribution size mismatch'' else Inr extra)"

section \<open>The context\<close>

record board_ctx =
  bc_gpio :: "gpio_entry domain_ctx"
  bc_dma :: "dma_entry domain_ctx"
  bc_dout :: "nat domain_ctx"
  bc_din :: "nat domain_ctx"
  bc_adc :: "adc_entry domain_ctx"
  bc_exti :: "exti_entry domain_ctx"

datatype device =
    Gpio_device gpio_entry
  | Dma_device "dma_entry list"
  | Output_device gpio_entry
  | Input_device gpio_entry
  | Adc_device gpio_entry adc_entry
  | Exti_device gpio_entry "nat option"

definition DIGITAL_MAX :: nat where
  "DIGITAL_MAX = 110"

definition with_gpio :: "nat \<Rightarrow> gpio_entry \<Rightarrow> board_ctx \<Rightarrow> string + (nat \<times> board_ctx)" where
  "with_gpio owner g x = map_sum id (\<lambda>(i, d). (i, x\<lparr>bc_gpio := d\<rparr>)) (inscribe_gpio owner g (bc_gpio x))"

fun inscribe_dma :: "nat \<Rightarrow> dma_entry list \<Rightarrow> dma_entry domain_ctx \<Rightarrow> string + dma_entry domain_ctx" where
  "inscribe_dma owner [] d = Inr d"
| "inscribe_dma owner (e # es) d =
     (case ctx_add MAX_STREAMS e owner d of Inl msg \<Rightarrow> Inl msg | Inr (_, d') \<Rightarrow> inscribe_dma owner es d')"

fun inscribe_device :: "bool \<Rightarrow> nat \<Rightarrow> device \<Rightarrow> board_ctx \<Rightarrow> string + board_ctx" where
  "inscribe_device has3 owner (Gpio_device g) x = map_sum id snd (with_gpio owner g x)"
| "inscribe_device has3 owner (Dma_device es) x = map_sum id (\<lambda>d. x\<lparr>bc_dma := d\<rparr>) (inscribe_dma owner es (bc_dma x))"
| "inscribe_device has3 owner (Output_device g) x =
     (case with_gpio owner g x of
        Inl msg \<Rightarrow> Inl msg
      | Inr (i, x) \<Rightarrow> map_sum id (\<lambda>(_, d). x\<lparr>bc_dout := d\<rparr>) (ctx_add DIGITAL_MAX i owner (bc_dout x)))"
| "inscribe_device has3 owner (Input_device g) x =
     (case with_gpio owner g x of
        Inl msg \<Rightarrow> Inl msg
      | Inr (i, x) \<Rightarrow> map_sum id (\<lambda>(_, d). x\<lparr>bc_din := d\<rparr>) (ctx_add DIGITAL_MAX i owner (bc_din x)))"
| "inscribe_device has3 owner (Adc_device g e) x =
     (case with_gpio owner g x of
        Inl msg \<Rightarrow> Inl msg
      | Inr (i, x) \<Rightarrow> map_sum id (\<lambda>(_, d). x\<lparr>bc_adc := d\<rparr>) (inscribe_adc has3 owner e i (bc_adc x)))"
| "inscribe_device has3 owner (Exti_device g act) x =
     (case with_gpio owner g x of
        Inl msg \<Rightarrow> Inl msg
      | Inr (i, x) \<Rightarrow> map_sum id (\<lambda>(_, d). x\<lparr>bc_exti := d\<rparr>) (ctx_add EXTI_MAX (exti_entry_of i g act) owner (bc_exti x)))"

definition empty_board :: board_ctx where
  "empty_board = \<lparr>bc_gpio = empty_domain, bc_dma = empty_domain, bc_dout = empty_domain, bc_din = empty_domain,
     bc_adc = empty_domain, bc_exti = empty_domain\<rparr>"

fun inscribe_all :: "bool \<Rightarrow> (nat \<times> device) list \<Rightarrow> board_ctx \<Rightarrow> string + board_ctx" where
  "inscribe_all has3 [] x = Inr x"
| "inscribe_all has3 ((a, dev) # devs) x =
     (case inscribe_device has3 a dev x of Inl msg \<Rightarrow> Inl msg | Inr x' \<Rightarrow> inscribe_all has3 devs x')"

definition build_ctx :: "bool \<Rightarrow> (nat \<times> device) list \<Rightarrow> string + board_ctx" where
  "build_ctx has3 devs = inscribe_all has3 devs empty_board"

section \<open>The configurations\<close>

text \<open>\<open>merge_dma_entries\<close>, which has two further lists of entries here.\<close>

definition merge_dma_entries :: "nat \<Rightarrow> dma_entry list \<Rightarrow> dma_entry list \<Rightarrow> dma_entry list \<Rightarrow> string + dma_entry list" where
  "merge_dma_entries n base adc_extra filter_extra =
     (if length base + (length adc_extra + length filter_extra) \<noteq> n then Inl ''DMA merged entry count mismatch''
      else Inr (base @ adc_extra @ filter_extra))"

definition build_dma_configs :: "nat \<Rightarrow> dma_entry list \<Rightarrow> dma_entry list \<Rightarrow> dma_entry list \<Rightarrow> string + dma_config list" where
  "build_dma_configs n base adc_extra filter_extra =
     (case merge_dma_entries n base adc_extra filter_extra of Inl msg \<Rightarrow> Inl msg | Inr es \<Rightarrow> build_dma n es)"

record board_config =
  bf_gpio :: "gpio_config list"
  bf_dma :: "dma_config list"
  bf_dout :: "nat list"
  bf_din :: "nat list"
  bf_adc :: "adc_config list"
  bf_adc_sizes :: buffer_sizes
  bf_exti :: "exti_config list"

definition bind_build :: "string + 'a \<Rightarrow> ('a \<Rightarrow> string + 'b) \<Rightarrow> string + 'b" where
  "bind_build r f = (case r of Inl msg \<Rightarrow> Inl msg | Inr v \<Rightarrow> f v)"

definition dma_of_board :: "dma_entry list \<Rightarrow> adc_config list \<Rightarrow> (nat \<times> bool) list \<Rightarrow> string + dma_config list" where
  "dma_of_board des adc_cfgs filters =
     bind_build (dma_contribution_count adc_cfgs des) (\<lambda>adcN.
     bind_build (build_dma_contributions adcN des adc_cfgs) (\<lambda>adc_extra.
     bind_build (filter_contribution_count filters des) (\<lambda>dfsdmN.
     bind_build (build_filter_contributions dfsdmN des filters) (\<lambda>filter_extra.
       build_dma_configs (length des + adcN + dfsdmN) des adc_extra filter_extra))))"

definition build_board :: "bool \<Rightarrow> (nat \<times> bool) list \<Rightarrow> board_ctx \<Rightarrow> string + board_config" where
  "build_board has3 filters x =
     bind_build (build_adc has3 (length (dx_storage (bc_adc x))) (dx_storage (bc_adc x))) (\<lambda>adc_cfgs.
     bind_build (build_gpio (dx_storage (bc_gpio x))) (\<lambda>gpio_cfgs.
     bind_build (dma_of_board (dx_storage (bc_dma x)) adc_cfgs filters) (\<lambda>dma_cfgs.
     bind_build (calculate_buffer_sizes adc_cfgs) (\<lambda>sizes.
     bind_build (build_exti (dx_storage (bc_exti x))) (\<lambda>exti_cfgs.
       Inr \<lparr>bf_gpio = gpio_cfgs, bf_dma = dma_cfgs, bf_dout = build_digital_output (dx_storage (bc_dout x)),
            bf_din = build_digital_input (dx_storage (bc_din x)), bf_adc = adc_cfgs, bf_adc_sizes = sizes,
            bf_exti = exti_cfgs\<rparr>)))))"

section \<open>The initialization\<close>

record board_state =
  bs_gpio_calls :: "gpio_call list"
  bs_gpio :: "gpio_instance list"
  bs_dma :: dma_state
  bs_dout :: "nat list"
  bs_din :: "nat list"
  bs_adc :: adc_state
  bs_exti :: exti_state

text \<open>The state before it: the table of the streams' interrupts has a place for each stream, and the
  handles are zero.\<close>

definition initial_dma :: "nat \<Rightarrow> dma_state" where
  "initial_dma n = \<lparr>ds_irq_table = replicate MAX_STREAMS None, ds_handles = replicate n None, ds_enabled = [], ds_panics = []\<rparr>"

definition init_board :: "(nat \<Rightarrow> bool) \<Rightarrow> adc_hal \<Rightarrow> board_config \<Rightarrow> board_state" where
  "init_board dma_ok adc_ok b =
     (let (calls, gs) = init_gpio (bf_gpio b);
          dma = init_dma dma_ok (bf_dma b) (initial_dma (length (bf_dma b)))
      in \<lparr>bs_gpio_calls = calls, bs_gpio = gs, bs_dma = dma, bs_dout = init_digital_output (bf_dout b),
          bs_din = init_digital_input (bf_din b),
          bs_adc = init_adc adc_ok (ds_handles dma) (bf_adc_sizes b) (bf_adc b)
                     (initial_adc (bf_adc_sizes b) (length (bf_dma b))),
          bs_exti = init_exti (bf_exti b) (initial_exti (length (bf_exti b)))\<rparr>)"

section \<open>What a context holds\<close>

definition dom_ok :: "nat set \<Rightarrow> 'e domain_ctx \<Rightarrow> bool" where
  "dom_ok S d \<longleftrightarrow> length (dx_owners d) = length (dx_storage d) \<and> distinct (dx_owners d) \<and> set (dx_owners d) \<subseteq> S"

definition dom_le :: "'e domain_ctx \<Rightarrow> 'e domain_ctx \<Rightarrow> bool" where
  "dom_le d d' \<longleftrightarrow> (\<exists>xs ys. dx_storage d' = dx_storage d @ xs \<and> dx_owners d' = dx_owners d @ ys)"

definition placed_in :: "'e domain_ctx \<Rightarrow> nat \<Rightarrow> 'e \<Rightarrow> nat \<Rightarrow> bool" where
  "placed_in d a e i \<longleftrightarrow> i < length (dx_storage d) \<and> i < length (dx_owners d) \<and> dx_owners d ! i = a \<and> dx_storage d ! i = e"

lemma dom_le_refl [simp]: "dom_le d d"
  by (simp add: dom_le_def)

lemma dom_le_trans: "dom_le d e \<Longrightarrow> dom_le e f \<Longrightarrow> dom_le d f"
  by (auto simp: dom_le_def)

lemma placed_in_mono: "dom_le d d' \<Longrightarrow> placed_in d a e i \<Longrightarrow> placed_in d' a e i"
  by (auto simp: dom_le_def placed_in_def nth_append)

lemma dom_ok_mono: "dom_ok S d \<Longrightarrow> S \<subseteq> T \<Longrightarrow> dom_ok T d"
  by (auto simp: dom_ok_def)

lemma ctx_add_ok:
  assumes "ctx_add k e a d = Inr (i, d')" "dom_ok S d" "a \<notin> S"
  shows "dom_ok (insert a S) d'" "dom_le d d'" "placed_in d' a e i"
  using ctx_add_spec [OF assms(1)] assms(2,3) by (auto simp: dom_ok_def dom_le_def placed_in_def nth_append)

lemma placed_in_owner: "dom_ok S d \<Longrightarrow> placed_in d a e i \<Longrightarrow> owner_index_of d a = Inr i"
  using owner_index_of_spec [of d i] by (auto simp: dom_ok_def placed_in_def)

definition ctx_ok :: "nat set \<Rightarrow> board_ctx \<Rightarrow> bool" where
  "ctx_ok S x \<longleftrightarrow> dom_ok S (bc_gpio x) \<and> dom_ok S (bc_dout x) \<and> dom_ok S (bc_din x) \<and> dom_ok S (bc_adc x) \<and> dom_ok S (bc_exti x)"

definition ctx_le :: "board_ctx \<Rightarrow> board_ctx \<Rightarrow> bool" where
  "ctx_le x y \<longleftrightarrow> dom_le (bc_gpio x) (bc_gpio y) \<and> dom_le (bc_dout x) (bc_dout y) \<and> dom_le (bc_din x) (bc_din y) \<and>
     dom_le (bc_adc x) (bc_adc y) \<and> dom_le (bc_exti x) (bc_exti y)"

lemma ctx_le_trans: "ctx_le x y \<Longrightarrow> ctx_le y w \<Longrightarrow> ctx_le x w"
  by (auto simp: ctx_le_def intro: dom_le_trans)

text \<open>A device is wired: its entry is in its domain under its address, and refers to its pin.\<close>

definition pin_at :: "board_ctx \<Rightarrow> gpio_entry \<Rightarrow> nat \<Rightarrow> bool" where
  "pin_at x g j \<longleftrightarrow> j < length (dx_storage (bc_gpio x)) \<and> dx_storage (bc_gpio x) ! j = g"

fun wired :: "bool \<Rightarrow> board_ctx \<Rightarrow> nat \<Rightarrow> device \<Rightarrow> bool" where
  "wired has3 x a (Gpio_device g) \<longleftrightarrow> (\<exists>i. placed_in (bc_gpio x) a g i)"
| "wired has3 x a (Dma_device es) \<longleftrightarrow> True"
| "wired has3 x a (Output_device g) \<longleftrightarrow> (\<exists>i j. placed_in (bc_dout x) a j i \<and> pin_at x g j)"
| "wired has3 x a (Input_device g) \<longleftrightarrow> (\<exists>i j. placed_in (bc_din x) a j i \<and> pin_at x g j)"
| "wired has3 x a (Adc_device g e) \<longleftrightarrow>
     (\<exists>i j p ch. placed_in (bc_adc x) a (e\<lparr>ae_gpio := j, ae_peripheral := p, ae_channel := ch\<rparr>) i \<and> pin_at x g j \<and>
        resolve_mapping has3 e = Inr (p, ch))"
| "wired has3 x a (Exti_device g act) \<longleftrightarrow> (\<exists>i j. placed_in (bc_exti x) a (exti_entry_of j g act) i \<and> pin_at x g j)"

lemma pin_at_mono: "ctx_le x y \<Longrightarrow> pin_at x g j \<Longrightarrow> pin_at y g j"
  by (auto simp: ctx_le_def dom_le_def pin_at_def nth_append)

lemma wired_mono: "ctx_le x y \<Longrightarrow> wired has3 x a dev \<Longrightarrow> wired has3 y a dev"
proof (cases dev)
  case (Adc_device g e)
  then show "ctx_le x y \<Longrightarrow> wired has3 x a dev \<Longrightarrow> ?thesis"
    by (simp add: ctx_le_def) (meson ctx_le_def pin_at_mono placed_in_mono)
qed (auto simp: ctx_le_def intro: placed_in_mono dest: pin_at_mono [unfolded ctx_le_def, rotated])

lemma with_gpio_ok:
  assumes "with_gpio a g x = Inr (j, y)" "ctx_ok S x" "a \<notin> S"
  shows "y = x\<lparr>bc_gpio := bc_gpio y\<rparr>" "dom_ok (insert a S) (bc_gpio y)" "dom_le (bc_gpio x) (bc_gpio y)"
    "placed_in (bc_gpio y) a g j"
proof -
  obtain d where d: "inscribe_gpio a g (bc_gpio x) = Inr (j, d)" "y = x\<lparr>bc_gpio := d\<rparr>"
    using assms(1) by (cases "inscribe_gpio a g (bc_gpio x)") (auto simp: with_gpio_def)
  moreover have "dom_ok S (bc_gpio x)" using assms(2) by (simp add: ctx_ok_def)
  ultimately show "y = x\<lparr>bc_gpio := bc_gpio y\<rparr>" "dom_ok (insert a S) (bc_gpio y)" "dom_le (bc_gpio x) (bc_gpio y)"
    "placed_in (bc_gpio y) a g j"
    using ctx_add_ok [of GPIO_MAX g a "bc_gpio x" j d S] assms(3) by (auto simp: inscribe_gpio_def)
qed

lemma resolve_ignores_gpio: "resolve_mapping has3 (e\<lparr>ae_gpio := j\<rparr>) = resolve_mapping has3 e"
proof -
  have "best_mapping (e\<lparr>ae_gpio := j\<rparr>) ms b = best_mapping e ms b" for ms b
  proof (induction ms arbitrary: b)
    case (Cons m ms)
    have "mapping_fits (e\<lparr>ae_gpio := j\<rparr>) m = mapping_fits e m" "score_of (e\<lparr>ae_gpio := j\<rparr>) m = score_of e m"
      "choice_of (e\<lparr>ae_gpio := j\<rparr>) m = choice_of e m"
      by (simp_all add: mapping_fits_def score_of_def choice_of_def)
    then show ?case by (simp only: best_mapping_step Cons.IH)
  qed simp
  then show ?thesis by (simp add: resolve_mapping_def)
qed

lemma inscribe_adc_ok:
  assumes "inscribe_adc has3 a e j d = Inr (i, d')" "dom_ok S d" "a \<notin> S"
  shows "\<exists>p ch. resolve_mapping has3 e = Inr (p, ch) \<and> dom_ok (insert a S) d' \<and> dom_le d d' \<and>
    placed_in d' a (e\<lparr>ae_gpio := j, ae_peripheral := p, ae_channel := ch\<rparr>) i"
proof -
  obtain p ch where r: "resolve_mapping has3 e = Inr (p, ch)"
      "ctx_add ADC_MAX (e\<lparr>ae_gpio := j, ae_peripheral := p, ae_channel := ch\<rparr>) a d = Inr (i, d')"
    using assms(1) by (auto simp: inscribe_adc_def Let_def resolve_ignores_gpio split: sum.splits)
  then show ?thesis using ctx_add_ok [OF r(2) assms(2,3)] by blast
qed

lemma ctx_ok_grow: "ctx_ok S x \<Longrightarrow> ctx_ok (insert a S) x"
  by (auto simp: ctx_ok_def intro: dom_ok_mono)

lemma placed_in_pin: "placed_in (bc_gpio x) a g j \<Longrightarrow> pin_at x g j"
  by (simp add: placed_in_def pin_at_def)

lemma inscribe_device_ok:
  assumes "inscribe_device has3 a dev x = Inr y" "ctx_ok S x" "a \<notin> S"
  shows "ctx_ok (insert a S) y \<and> ctx_le x y \<and> wired has3 y a dev"
proof -
  note grow = ctx_ok_grow [OF assms(2), of a, unfolded ctx_ok_def]
  have ok: "dom_ok S (bc_dout x)" "dom_ok S (bc_din x)" "dom_ok S (bc_adc x)" "dom_ok S (bc_exti x)"
    using assms(2) by (auto simp: ctx_ok_def)
  show ?thesis
  proof (cases dev)
    case (Gpio_device g)
    then obtain j where "with_gpio a g x = Inr (j, y)"
      using assms(1) by (cases "with_gpio a g x") auto
    note g = with_gpio_ok [OF this assms(2,3)]
    show ?thesis using g(2-4) grow unfolding Gpio_device
      by (subst g(1), subst g(1)) (auto simp: ctx_ok_def ctx_le_def)
  next
    case (Dma_device es)
    then obtain d where "y = x\<lparr>bc_dma := d\<rparr>" using assms(1) by (cases "inscribe_dma a es (bc_dma x)") auto
    then show ?thesis using grow Dma_device by (simp add: ctx_ok_def ctx_le_def)
  next
    case (Output_device h)
    then obtain j w i d where w: "with_gpio a h x = Inr (j, w)" "ctx_add DIGITAL_MAX j a (bc_dout w) = Inr (i, d)"
        "y = w\<lparr>bc_dout := d\<rparr>"
      using assms(1) by (auto simp: map_sum_def split: sum.splits prod.splits)
    note g = with_gpio_ok [OF w(1) assms(2,3)]
    have same: "bc_dout w = bc_dout x" "bc_din w = bc_din x" "bc_adc w = bc_adc x" "bc_exti w = bc_exti x"
      by (subst g(1), simp)+
    note d = ctx_add_ok [OF w(2)[unfolded same] ok(1) assms(3)]
    show ?thesis using g(2-4) d grow placed_in_pin [OF g(4)] same unfolding Output_device w(3)
      by (auto simp: ctx_ok_def ctx_le_def pin_at_def)
  next
    case (Input_device h)
    then obtain j w i d where w: "with_gpio a h x = Inr (j, w)" "ctx_add DIGITAL_MAX j a (bc_din w) = Inr (i, d)"
        "y = w\<lparr>bc_din := d\<rparr>"
      using assms(1) by (auto simp: map_sum_def split: sum.splits prod.splits)
    note g = with_gpio_ok [OF w(1) assms(2,3)]
    have same: "bc_dout w = bc_dout x" "bc_din w = bc_din x" "bc_adc w = bc_adc x" "bc_exti w = bc_exti x"
      by (subst g(1), simp)+
    note d = ctx_add_ok [OF w(2)[unfolded same] ok(2) assms(3)]
    show ?thesis using g(2-4) d grow placed_in_pin [OF g(4)] same unfolding Input_device w(3)
      by (auto simp: ctx_ok_def ctx_le_def pin_at_def)
  next
    case (Adc_device h e)
    then obtain j w i d where w: "with_gpio a h x = Inr (j, w)" "inscribe_adc has3 a e j (bc_adc w) = Inr (i, d)"
        "y = w\<lparr>bc_adc := d\<rparr>"
      using assms(1) by (auto simp: map_sum_def split: sum.splits prod.splits)
    note g = with_gpio_ok [OF w(1) assms(2,3)]
    have same: "bc_dout w = bc_dout x" "bc_din w = bc_din x" "bc_adc w = bc_adc x" "bc_exti w = bc_exti x"
      by (subst g(1), simp)+
    obtain p ch where d: "resolve_mapping has3 e = Inr (p, ch)" "dom_ok (insert a S) d" "dom_le (bc_adc x) d"
        "placed_in d a (e\<lparr>ae_gpio := j, ae_peripheral := p, ae_channel := ch\<rparr>) i"
      using inscribe_adc_ok [OF w(2)[unfolded same] ok(3) assms(3)] by blast
    show ?thesis using g(2-4) d grow placed_in_pin [OF g(4)] same unfolding Adc_device w(3)
      by (auto simp: ctx_ok_def ctx_le_def pin_at_def)
  next
    case (Exti_device h act)
    then obtain j w i d where w: "with_gpio a h x = Inr (j, w)"
        "ctx_add EXTI_MAX (exti_entry_of j h act) a (bc_exti w) = Inr (i, d)" "y = w\<lparr>bc_exti := d\<rparr>"
      using assms(1) by (auto simp: map_sum_def split: sum.splits prod.splits)
    note g = with_gpio_ok [OF w(1) assms(2,3)]
    have same: "bc_dout w = bc_dout x" "bc_din w = bc_din x" "bc_adc w = bc_adc x" "bc_exti w = bc_exti x"
      by (subst g(1), simp)+
    note d = ctx_add_ok [OF w(2)[unfolded same] ok(4) assms(3)]
    show ?thesis using g(2-4) d grow placed_in_pin [OF g(4)] same unfolding Exti_device w(3)
      by (auto simp: ctx_ok_def ctx_le_def pin_at_def)
  qed
qed

lemma inscribe_all_ok:
  "inscribe_all has3 devs x = Inr y \<Longrightarrow> ctx_ok S x \<Longrightarrow> distinct (map fst devs) \<Longrightarrow> S \<inter> fst ` set devs = {} \<Longrightarrow>
   ctx_ok (S \<union> fst ` set devs) y \<and> ctx_le x y \<and> (\<forall>(a, dev) \<in> set devs. wired has3 y a dev)"
proof (induction devs arbitrary: x S)
  case (Cons d devs)
  obtain a dev where d: "d = (a, dev)" by (rule prod.exhaust)
  obtain w where w: "inscribe_device has3 a dev x = Inr w" "inscribe_all has3 devs w = Inr y"
    using Cons.prems(1) by (auto simp: d split: sum.splits)
  have one: "ctx_ok (insert a S) w" "ctx_le x w" "wired has3 w a dev"
    using inscribe_device_ok [OF w(1) Cons.prems(2)] Cons.prems(4) by (auto simp: d)
  have rest: "ctx_ok (insert a S \<union> fst ` set devs) y \<and> ctx_le w y \<and> (\<forall>(a, dev) \<in> set devs. wired has3 y a dev)"
    using Cons.prems by (intro Cons.IH [OF w(2) one(1)]) (auto simp: d)
  show ?case
  proof (intro conjI)
    show "ctx_ok (S \<union> fst ` set (d # devs)) y" using rest by (simp add: d)
    show "ctx_le x y" using ctx_le_trans [OF one(2)] rest by blast
    have "wired has3 y a dev" using wired_mono [OF _ one(3)] rest by blast
    then show "\<forall>(a, dev) \<in> set (d # devs). wired has3 y a dev" using rest by (simp add: d)
  qed
qed (simp add: ctx_le_def)

lemma build_ctx_ok:
  assumes "build_ctx has3 devs = Inr x" "distinct (map fst devs)"
  shows "ctx_ok (fst ` set devs) x" "(a, dev) \<in> set devs \<Longrightarrow> wired has3 x a dev"
proof -
  have "ctx_ok {} empty_board" by (simp add: ctx_ok_def empty_board_def empty_domain_def dom_ok_def)
  then show "ctx_ok (fst ` set devs) x" "(a, dev) \<in> set devs \<Longrightarrow> wired has3 x a dev"
    using inscribe_all_ok [of has3 devs empty_board x "{}"] assms by (auto simp: build_ctx_def)
qed

section \<open>Every device uses its own pin\<close>

lemma bind_build_Inr [simp]: "bind_build r f = Inr y \<longleftrightarrow> (\<exists>v. r = Inr v \<and> f v = Inr y)"
  by (cases r) (auto simp: bind_build_def)

lemma build_board_spec:
  assumes "build_board has3 filters x = Inr b"
  shows "build_adc has3 (length (dx_storage (bc_adc x))) (dx_storage (bc_adc x)) = Inr (bf_adc b)"
    "build_gpio (dx_storage (bc_gpio x)) = Inr (bf_gpio b)"
    "dma_of_board (dx_storage (bc_dma x)) (bf_adc b) filters = Inr (bf_dma b)"
    "calculate_buffer_sizes (bf_adc b) = Inr (bf_adc_sizes b)"
    "build_exti (dx_storage (bc_exti x)) = Inr (bf_exti b)"
    "bf_dout b = dx_storage (bc_dout x)" "bf_din b = dx_storage (bc_din x)"
  using assms by (auto simp: build_board_def build_digital_output_def build_digital_input_def)

lemma init_board_spec:
  "bs_gpio_calls (init_board dok aok b) = fst (init_gpio (bf_gpio b))"
  "bs_gpio (init_board dok aok b) = map gpio_instance_of (bf_gpio b)"
  "bs_dout (init_board dok aok b) = bf_dout b" "bs_din (init_board dok aok b) = bf_din b"
  "bs_exti (init_board dok aok b) = init_exti (bf_exti b) (initial_exti (length (bf_exti b)))"
  by (simp_all add: init_board_def Let_def case_prod_beta init_gpio_instances init_digital_output_def
      init_digital_input_def)

fun device_pin :: "device \<Rightarrow> gpio_entry option" where
  "device_pin (Gpio_device g) = Some g"
| "device_pin (Dma_device es) = None"
| "device_pin (Output_device g) = Some g"
| "device_pin (Input_device g) = Some g"
| "device_pin (Adc_device g e) = Some g"
| "device_pin (Exti_device g act) = Some g"

text \<open>\<open>configures p m c\<close>: the call \<open>c\<close> sets up the pin \<open>m\<close> of the port \<open>p\<close>.\<close>

fun configures :: "Port \<Rightarrow> u32 \<Rightarrow> gpio_call \<Rightarrow> bool" where
  "configures p m (HAL_GPIO_Init q i) \<longleftrightarrow> q = p \<and> Pin i = m"
| "configures p m c \<longleftrightarrow> False"

lemma configured_once:
  assumes "distinct (map pin_key es)" "g \<in> set es"
  shows "filter (configures (ge_port g) (ge_pin g)) (fst (init_gpio (map gpio_config_of es))) =
    [HAL_GPIO_Init (ge_port g) (snd (gpio_config_of g))]"
proof -
  have none: "filter (configures (ge_port g) (ge_pin g)) (fst (init_gpio (map gpio_config_of hs))) = []"
    if "pin_key g \<notin> pin_key ` set hs" for hs
    using that by (induction hs) (auto simp: case_prod_beta enable_gpio_clock_def gpio_config_of_def pin_key_def)
  show ?thesis using assms
  proof (induction es)
    case (Cons h es)
    show ?case
    proof (cases "pin_key h = pin_key g")
      case True
      then have "h = g" using Cons.prems by (auto simp: image_iff)
      then show ?thesis using Cons.prems none [of es]
        by (simp add: case_prod_beta enable_gpio_clock_def) (simp add: gpio_config_of_def)
    next
      case False
      then have "\<not> configures (ge_port g) (ge_pin g) (HAL_GPIO_Init (fst (gpio_config_of h)) (snd (gpio_config_of h)))"
        by (auto simp: gpio_config_of_def pin_key_def)
      then show ?thesis using Cons False by (auto simp: case_prod_beta enable_gpio_clock_def)
    qed
  qed simp
qed

text \<open>What a device does with its pin: an output drives it, an input reads it, an external interrupt
  reads it and has its action on the pin's line, and the pin is set up once, as the device declares.\<close>

fun uses_own_pin :: "board_ctx \<Rightarrow> board_state \<Rightarrow> nat \<Rightarrow> device \<Rightarrow> bool" where
  "uses_own_pin x s a (Gpio_device g) \<longleftrightarrow>
     (\<exists>i. owner_index_of (bc_gpio x) a = Inr i \<and>
        gpio_turn_on (bs_gpio s ! i) = Some (HAL_GPIO_WritePin (ge_port g) (ucast (ge_pin g)) True))"
| "uses_own_pin x s a (Output_device g) \<longleftrightarrow>
     (\<exists>i. owner_index_of (bc_dout x) a = Inr i \<and>
        output_turn_on (bs_gpio s) (bs_dout s ! i) = Some (HAL_GPIO_WritePin (ge_port g) (ucast (ge_pin g)) True) \<and>
        output_turn_off (bs_gpio s) (bs_dout s ! i) = Some (HAL_GPIO_WritePin (ge_port g) (ucast (ge_pin g)) False))"
| "uses_own_pin x s a (Input_device g) \<longleftrightarrow>
     (\<exists>i. owner_index_of (bc_din x) a = Inr i \<and>
        (\<forall>level. input_read level (bs_gpio s) (bs_din s ! i) = Some (level (ge_port g) (ucast (ge_pin g)))))"
| "uses_own_pin x s a (Exti_device g act) \<longleftrightarrow>
     (\<exists>i. owner_index_of (bc_exti x) a = Inr i \<and>
        (\<forall>level. exti_read level (bs_gpio s) i (bs_exti s) = Some (level (ge_port g) (ucast (ge_pin g)))) \<and>
        xi_action (xs_instances (bs_exti s) ! i) = act \<and>
        xs_lines (bs_exti s) ! get_pin_index (ucast (ge_pin g)) = Some i)"
| "uses_own_pin x s a dev \<longleftrightarrow> True"

text \<open>C25. On a board that compiles every device uses its own pin: whatever devices the board has, in
  whatever order, \<open>instance_of\<close> gives for an output, an input or an external interrupt an instance
  that drives or reads exactly the pin the device declares, and every such pin, also that of an
  analog input, is set up exactly once and the way its device declares.\<close>

theorem devices_use_own_pins:
  assumes ctx: "build_ctx has3 devs = Inr x" "distinct (map fst devs)"
    and b: "build_board has3 filters x = Inr b"
  shows "\<forall>(a, dev) \<in> set devs. uses_own_pin x (init_board dma_ok adc_ok b) a dev \<and>
    (\<forall>g. device_pin dev = Some g \<longrightarrow>
       filter (configures (ge_port g) (ge_pin g)) (bs_gpio_calls (init_board dma_ok adc_ok b)) =
         [HAL_GPIO_Init (ge_port g) (snd (gpio_config_of g))])"
proof -
  let ?s = "init_board dma_ok adc_ok b"
  note sp = build_board_spec [OF b]
  have gpio: "bf_gpio b = map gpio_config_of (dx_storage (bc_gpio x))" "distinct (map pin_key (dx_storage (bc_gpio x)))"
    using sp(2) by (simp_all add: build_gpio_spec)
  have at: "gpio_at (bs_gpio ?s) j = Some (gpio_instance_of (gpio_config_of g))" "bs_gpio ?s ! j = gpio_instance_of (gpio_config_of g)"
    if "pin_at x g j" for g j
    using that by (simp_all add: gpio_at_def init_board_spec gpio(1) pin_at_def)
  have ops: "gpio_turn_on (gpio_instance_of (gpio_config_of g)) = Some (HAL_GPIO_WritePin (ge_port g) (ucast (ge_pin g)) True)"
    "gpio_turn_off (gpio_instance_of (gpio_config_of g)) = Some (HAL_GPIO_WritePin (ge_port g) (ucast (ge_pin g)) False)"
    "gpio_read level (gpio_instance_of (gpio_config_of g)) = Some (level (ge_port g) (ucast (ge_pin g)))" for g level
    by (simp_all add: gpio_turn_on_def gpio_turn_off_def gpio_read_def gpio_instance_of_def gpio_config_of_def port_to_reg_def)
  have once: "filter (configures (ge_port g) (ge_pin g)) (bs_gpio_calls ?s) = [HAL_GPIO_Init (ge_port g) (snd (gpio_config_of g))]"
    if "pin_at x g j" for g j
    using configured_once [OF gpio(2), of g] that by (auto simp: init_board_spec gpio(1) pin_at_def)
  have doms: "ctx_ok (fst ` set devs) x" by (rule build_ctx_ok(1) [OF ctx])
  have exti: "exti_upto (length (dx_storage (bc_exti x))) (dx_storage (bc_exti x)) (bs_exti ?s)"
    using sp(5) init_exti_upto [of "dx_storage (bc_exti x)" "length (dx_storage (bc_exti x))"]
    by (auto simp: build_exti_spec init_board_spec)
  show ?thesis
  proof (clarify)
    fix a dev assume "(a, dev) \<in> set devs"
    then have w: "wired has3 x a dev" by (rule build_ctx_ok(2) [OF ctx])
    show "uses_own_pin x ?s a dev \<and> (\<forall>g. device_pin dev = Some g \<longrightarrow>
       filter (configures (ge_port g) (ge_pin g)) (bs_gpio_calls ?s) = [HAL_GPIO_Init (ge_port g) (snd (gpio_config_of g))])"
    proof (cases dev)
      case (Exti_device g act)
      then obtain i j where p: "placed_in (bc_exti x) a (exti_entry_of j g act) i" "pin_at x g j" using w by auto
      then have e: "dx_storage (bc_exti x) ! i = exti_entry_of j g act" "i < length (dx_storage (bc_exti x))"
        by (auto simp: placed_in_def)
      have "owner_index_of (bc_exti x) a = Inr i" using placed_in_owner p(1) doms by (auto simp: ctx_ok_def)
      then show ?thesis
        using exti e at [OF p(2)] ops once [OF p(2)] Exti_device
        by (auto simp: exti_upto_def exti_read_def exti_entry_of_def exti_num_def)
    next
      case (Output_device g)
      then obtain i j where p: "placed_in (bc_dout x) a j i" "pin_at x g j" using w by auto
      have "owner_index_of (bc_dout x) a = Inr i" using placed_in_owner p(1) doms by (auto simp: ctx_ok_def)
      moreover have "bs_dout ?s ! i = j" using p(1) by (simp add: init_board_spec sp(6) placed_in_def)
      ultimately show ?thesis using at [OF p(2)] ops once [OF p(2)] Output_device
        by (auto simp: output_turn_on_def output_turn_off_def)
    next
      case (Input_device g)
      then obtain i j where p: "placed_in (bc_din x) a j i" "pin_at x g j" using w by auto
      have "owner_index_of (bc_din x) a = Inr i" using placed_in_owner p(1) doms by (auto simp: ctx_ok_def)
      moreover have "bs_din ?s ! i = j" using p(1) by (simp add: init_board_spec sp(7) placed_in_def)
      ultimately show ?thesis using at [OF p(2)] ops once [OF p(2)] Input_device by (auto simp: input_read_def)
    next
      case (Gpio_device g)
      then obtain i where p: "placed_in (bc_gpio x) a g i" using w by auto
      have "owner_index_of (bc_gpio x) a = Inr i" using placed_in_owner p doms by (auto simp: ctx_ok_def)
      then show ?thesis using at [OF placed_in_pin [OF p]] ops once [OF placed_in_pin [OF p]] Gpio_device by auto
    next
      case (Adc_device g e)
      then show ?thesis using w once by auto
    qed simp
  qed
qed

section \<open>The streams reach the converters\<close>

lemma init_dma_all:
  "length cs \<le> length (ds_handles s) \<Longrightarrow> list_all (\<lambda>c. dc_stream c \<noteq> 0) cs \<Longrightarrow>
   ds_handles (init_dma (\<lambda>_. True) cs s) = map (\<lambda>c. Some (dc_stream c, dc_init c)) cs @ drop (length cs) (ds_handles s)"
proof (induction cs rule: rev_induct)
  case (snoc c cs)
  have "init_dma (\<lambda>_. True) (cs @ [c]) s = init_stream (\<lambda>_. True) (length cs) c (init_dma (\<lambda>_. True) cs s)"
    by (simp add: init_dma_def enumerate_append_eq)
  then show ?case
    using snoc by (simp add: init_stream_def Let_def list_update_append Cons_nth_drop_Suc [symmetric] del: drop_Suc)
qed (simp add: init_dma_def)

lemma dma_entries_count:
  "dma_entries_for_peripheral p es = Inr k \<Longrightarrow> 0 < k \<Longrightarrow> \<exists>e \<in> set es. de_instance e = dma_peripheral p"
proof (induction es arbitrary: k)
  case (Cons e es)
  then show ?case by (cases "dma_entries_for_peripheral p es") (auto split: if_splits)
qed simp

lemma contributions_cover:
  "contributions_from cfgs des ps = Inr extra \<Longrightarrow> i \<in> set ps \<Longrightarrow> uses_peripheral (peripheral_from_index i) cfgs \<Longrightarrow>
   \<exists>e \<in> set des \<union> set extra. de_instance e = dma_peripheral (peripheral_from_index i)"
proof (induction ps arbitrary: extra)
  case (Cons q ps)
  show ?case
  proof (cases "uses_peripheral (peripheral_from_index q) cfgs")
    case False
    then show ?thesis using Cons by (auto simp: Let_def)
  next
    case True
    then obtain k where k: "dma_entries_for_peripheral (peripheral_from_index q) des = Inr k"
      using Cons.prems(1) by (auto simp: Let_def split: sum.splits)
    show ?thesis
    proof (cases "k = 0")
      case False
      then have rest: "contributions_from cfgs des ps = Inr extra"
        using Cons.prems(1) True k by (simp add: Let_def)
      show ?thesis
      proof (cases "i = q")
        case True
        then show ?thesis using dma_entries_count [OF k] False by auto
      next
        case False
        then show ?thesis using Cons.IH [OF rest] Cons.prems by auto
      qed
    next
      case zero: True
      then obtain r where r: "contributions_from cfgs des ps = Inr r"
          "extra = \<lparr>de_instance = dma_peripheral (peripheral_from_index q), de_stream = 0, de_irqn = No_IRQn, de_id = 0\<rparr> # r"
        using Cons.prems(1) True k by (cases "contributions_from cfgs des ps") (auto simp: Let_def)
      show ?thesis
      proof (cases "i = q")
        case True
        then show ?thesis using r(2) by simp
      next
        case False
        then show ?thesis using Cons.IH [OF r(1)] Cons.prems r(2) by auto
      qed
    qed
  qed
qed simp

lemma contributions_free: "contributions_from cfgs des ps = Inr extra \<Longrightarrow> list_all (\<lambda>e. de_stream e = 0) extra"
proof (induction ps arbitrary: extra)
  case (Cons q ps)
  then show ?case by (auto simp: Let_def map_sum_def split: if_splits sum.splits)
qed simp

lemma filter_contributions_free: "filter_contributions_from cfgs des fs = Inr extra \<Longrightarrow> list_all (\<lambda>e. de_stream e = 0) extra"
proof (induction fs arbitrary: extra)
  case (Cons f fs)
  then show ?case by (auto simp: Let_def map_sum_def split: if_splits sum.splits)
qed simp

lemma find_request_from_Some:
  "h \<in> set hs \<Longrightarrow> request_of h = rq \<Longrightarrow> \<exists>d. find_request_from i rq hs = Some d"
  by (induction i rq hs rule: find_request_from.induct) auto

lemma from_index_inverse: "p \<noteq> ADC_AUTO \<Longrightarrow> peripheral_from_index (peripheral_index p) = p"
  by (cases p) (auto simp: peripheral_from_index_def)

lemma init_of_request: "init_of p i = Inr di \<Longrightarrow> get_Request p i = Inr (Request di)"
  by (auto simp: init_of_def map_sum_def split: sum.splits)

lemma board_request_found:
  assumes dma: "dma_of_board des cfgs filters = Inr dcs" "list_all (\<lambda>e. de_stream e \<le> 16) des"
  obtains ae fe where "contributions_from cfgs des [0 ..< 3] = Inr ae" "filter_contributions_from filters des [0 ..< 4] = Inr fe"
    "\<And>en rq. en \<in> set (des @ ae @ fe) \<Longrightarrow> get_Request (de_instance en) (de_id en) = Inr rq \<Longrightarrow>
       \<exists>d. find_dma_instance rq (ds_handles (init_dma (\<lambda>_. True) dcs (initial_dma (length dcs)))) = Some d"
proof -
  obtain m n ae fe where e: "build_dma_contributions m des cfgs = Inr ae" "build_filter_contributions n des filters = Inr fe"
      "build_dma (length des + m + n) (des @ ae @ fe) = Inr dcs" "length des + (length ae + length fe) = length des + m + n"
    using dma(1) by (auto simp: dma_of_board_def build_dma_configs_def merge_dma_entries_def split: if_splits sum.splits)
  have ae: "contributions_from cfgs des [0 ..< 3] = Inr ae" and fe: "filter_contributions_from filters des [0 ..< 4] = Inr fe"
    using e(1,2) by (auto simp: build_dma_contributions_def build_filter_contributions_def simp del: upt_rec_numeral
        split: sum.splits if_splits)
  let ?es = "des @ ae @ fe"
  have range: "list_all (\<lambda>e. de_stream e \<le> 16) ?es"
    using dma(2) contributions_free [OF ae] filter_contributions_free [OF fe] by (auto simp: list_all_iff)
  obtain ents where ents: "list_all2 kept ?es ents" "list_all2 config_of ents dcs"
    using build_dma_passes(2) [OF range, of dcs] e(3,4) by auto
  have len: "length ents = length ?es" "length dcs = length ?es"
    using list_all2_lengthD [OF ents(1)] list_all2_lengthD [OF ents(2)] by simp_all
  have both: "kept (?es ! j) (ents ! j)" "config_of (ents ! j) (dcs ! j)" if "j < length ?es" for j
    using ents len that by (auto simp: list_all2_conv_all_nth)
  have str: "list_all (\<lambda>c. dc_stream c \<noteq> 0) dcs"
    using both len by (auto simp: list_all_length kept_def config_of_def)
  have handles: "ds_handles (init_dma (\<lambda>_. True) dcs (initial_dma (length dcs))) = map (\<lambda>c. Some (dc_stream c, dc_init c)) dcs"
    using init_dma_all [OF _ str] by (simp add: initial_dma_def)
  show ?thesis
  proof (rule that [OF ae fe])
    fix en rq assume en: "en \<in> set ?es" "get_Request (de_instance en) (de_id en) = Inr rq"
    then obtain i where i: "i < length ?es" "?es ! i = en" by (metis in_set_conv_nth)
    have "init_of (de_instance en) (de_id en) = Inr (dc_init (dcs ! i))"
      using both [OF i(1)] i(2) by (auto simp: kept_def config_of_def split: if_splits)
    then have "Request (dc_init (dcs ! i)) = rq" using init_of_request en(2) by fastforce
    then show "\<exists>d. find_dma_instance rq (ds_handles (init_dma (\<lambda>_. True) dcs (initial_dma (length dcs)))) = Some d"
      unfolding find_dma_instance_def handles
      by (intro find_request_from_Some [of "Some (dc_stream (dcs ! i), dc_init (dcs ! i))"])
        (use i len in \<open>auto simp: request_of_def\<close>)
  qed
qed

text \<open>Every converter in use has a stream.\<close>

lemma board_dma_found:
  assumes dma: "dma_of_board des cfgs filters = Inr dcs" "list_all (\<lambda>e. de_stream e \<le> 16) des"
    and use: "uses_peripheral p cfgs" "p \<noteq> ADC_AUTO" "adc_dma_request p = Inr rq"
  shows "\<exists>d. find_dma_instance rq (ds_handles (init_dma (\<lambda>_. True) dcs (initial_dma (length dcs)))) = Some d"
proof (rule board_request_found [OF dma])
  fix ae fe
  assume ae: "contributions_from cfgs des [0 ..< 3] = Inr ae"
    and found: "\<And>en rq. en \<in> set (des @ ae @ fe) \<Longrightarrow> get_Request (de_instance en) (de_id en) = Inr rq \<Longrightarrow>
      \<exists>d. find_dma_instance rq (ds_handles (init_dma (\<lambda>_. True) dcs (initial_dma (length dcs)))) = Some d"
  obtain q where q: "p = peripheral_from_index q" "q \<in> set [0 ..< 3]"
    using from_index_inverse [OF use(2)] peripheral_index_less [of p] by (metis atLeastLessThan_iff le0 set_upt)
  obtain en where en: "en \<in> set (des @ ae @ fe)" "de_instance en = dma_peripheral p"
    using contributions_cover [OF ae q(2)] use(1) q(1) by auto
  have "get_Request (de_instance en) (de_id en) = Inr rq"
    using use(2,3) en(2) by (cases p) (auto simp: adc_dma_request_def)
  then show ?thesis by (rule found [OF en(1)])
qed

section \<open>The analog inputs are ready\<close>

lemma panics_simps [simp]:
  "as_panics (adc_call_do m s) = as_panics s" "as_panics (update_handle i f s) = as_panics s"
  by (simp_all add: adc_call_do_def update_handle_def)

lemma config_channels_fine:
  "\<exists>t. config_channels (\<lambda>_. True) p cs rank s = (True, t) \<and> as_panics t = as_panics s"
proof (induction cs arbitrary: rank s)
  case (Cons c cs)
  show ?case
  proof (cases "ac_peripheral c = p")
    case True
    let ?s = "adc_call_do (HAL_ADC_ConfigChannel (peripheral_index p) (ac_channel c) (regular_rank rank) (ac_sample_time c)) s"
    obtain t where "config_channels (\<lambda>_. True) p cs (rank + 1) ?s = (True, t)" "as_panics t = as_panics ?s"
      using Cons.IH by blast
    then show ?thesis using True by (simp add: Let_def)
  qed (use Cons.IH in simp)
qed simp

lemma start_adc_fine: "\<exists>t. start_adc (\<lambda>_. True) cfgs p b n s = (True, t) \<and> as_panics t = as_panics s"
proof -
  obtain t where "config_channels (\<lambda>_. True) p cfgs 0 s = (True, t)" "as_panics t = as_panics s"
    using config_channels_fine by blast
  then show ?thesis by (simp add: start_adc_def Let_def)
qed

lemma set_up_panics: "as_panics (peripheral_set_up c n i d s) = as_panics s"
  by (simp add: peripheral_set_up_def configure_peripheral_def Let_def)

lemma stop_panics: "as_panics (stop_running i s) = as_panics s"
  by (simp add: stop_running_def)

lemma init_peripheral_fine:
  assumes "n = per_count (peripheral_from_index i) cfgs" "calculate_buffer_sizes cfgs = Inr z" "i < 3"
    and "\<And>c. c \<in> set cfgs \<Longrightarrow> ac_peripheral c = peripheral_from_index i \<Longrightarrow> \<exists>d. find_dma_instance (ac_request c) dma = Some d"
  shows "\<exists>t. init_peripheral (\<lambda>_. True) dma z cfgs i n s = (0 < n, t) \<and> as_panics t = as_panics s"
proof (cases "find (\<lambda>c. ac_peripheral c = peripheral_from_index i) cfgs")
  case None
  then have "n = 0" using assms(1) by (auto simp: per_count_def find_None_iff filter_empty_conv)
  then show ?thesis by (simp add: init_peripheral_cases)
next
  case (Some c)
  let ?p = "peripheral_from_index i"
  have c: "c \<in> set cfgs" "ac_peripheral c = ?p" using Some by (auto simp: find_Some_iff)
  then have n: "0 < n" using assms(1) by (auto simp: per_count_def filter_empty_conv)
  have p: "?p \<noteq> ADC_AUTO" by (simp add: peripheral_from_index_def)
  then have size: "buffer_size_for z ?p = n" using buffer_size_count [OF assms(2)] assms(1) by simp
  then have "buffer_offset_for z ?p + (n - 1) < total_dma_slots z" using buffers_inside [OF p, of "n - 1" z] n by simp
  then have "\<not> total_dma_slots z < buffer_offset_for z ?p + buffer_size_for z ?p" using size n by linarith
  then obtain u where u: "get_dma_buffer z ?p (stop_running i s) = (Some (buffer_offset_for z ?p), u)" "as_panics u = as_panics s"
    using size n by (auto simp: get_dma_buffer_def Let_def stop_panics)
  obtain d where d: "find_dma_instance (ac_request c) dma = Some d" using assms(4) c by blast
  obtain t where t: "start_adc (\<lambda>_. True) cfgs ?p (buffer_offset_for z ?p) n (peripheral_set_up c n i d u) = (True, t)"
      "as_panics t = as_panics s"
    using start_adc_fine set_up_panics u(2) by metis
  then show ?thesis using n Some d u(1) by (simp add: init_peripheral_cases)
qed

lemma init_peripherals_fine:
  assumes "\<And>i s. i \<in> set ps \<Longrightarrow> \<exists>t. init_peripheral ok dma z cfgs i (counts ! i) s = (0 < counts ! i, t) \<and> as_panics t = as_panics s"
  shows "\<exists>t. init_peripherals ok dma z cfgs counts ps s = (map (\<lambda>i. 0 < counts ! i) ps, t) \<and> as_panics t = as_panics s"
  using assms
proof (induction ps arbitrary: s)
  case (Cons i ps)
  obtain t where t: "init_peripheral ok dma z cfgs i (counts ! i) s = (0 < counts ! i, t)" "as_panics t = as_panics s"
    using Cons.prems by force
  obtain u where "init_peripherals ok dma z cfgs counts ps t = (map (\<lambda>i. 0 < counts ! i) ps, u)" "as_panics u = as_panics t"
    using Cons.IH Cons.prems by force
  then show ?case using t by simp
qed simp

lemma reresolve:
  assumes "resolve_mapping has3 (e\<lparr>ae_gpio := j, ae_peripheral := p, ae_channel := ch\<rparr>) = Inr r"
    "p \<noteq> ADC_AUTO" "ch \<noteq> CH_AUTO"
  shows "r = (p, ch)"
  using assms by (auto simp: resolve_mapping_def check_mapping_def split: if_splits)

text \<open>C26. The analog inputs of a board work: on a board that compiles, when the hardware accepts every
  call, the streams the converters add to those of the DMA are found again by the initialization, no
  analog input fails, and every analog device then reads the conversion of the channel that was
  chosen for its pin.\<close>

theorem analog_inputs_ready:
  assumes ctx: "build_ctx has3 devs = Inr x" "distinct (map fst devs)" "(a, Adc_device g e) \<in> set devs"
    and b: "build_board has3 filters x = Inr b" and streams: "list_all (\<lambda>e. de_stream e \<le> 16) (dx_storage (bc_dma x))"
    and s: "s = bs_adc (init_board (\<lambda>_. True) (\<lambda>_. True) b)"
  shows "\<exists>i p ch. owner_index_of (bc_adc x) a = Inr i \<and> resolve_mapping has3 e = Inr (p, ch) \<and> as_panics s = [] \<and>
    ai_handle (as_instances s ! i) = Some (peripheral_index p) \<and>
    (\<forall>pool conv. scan_writes (peripheral_index p) (as_calls s) pool conv \<longrightarrow>
       sample_raw pool (as_instances s ! i) = min (ucast (conv ch)) (max_raw_for_resolution (ae_resolution e)))"
proof -
  note sp = build_board_spec [OF b]
  let ?es = "dx_storage (bc_adc x)" let ?cs = "bf_adc b" let ?z = "bf_adc_sizes b"
  let ?dma = "ds_handles (init_dma (\<lambda>_. True) (bf_dma b) (initial_dma (length (bf_dma b))))"
  let ?init = "initial_adc ?z (length (bf_dma b))"
  have s_eq: "s = init_adc (\<lambda>_. True) ?dma ?z ?cs ?init"
    by (simp add: s init_board_def Let_def case_prod_beta)
  obtain seen where seen: "adc_built has3 ?es ?cs seen" by (rule build_adc_built [OF sp(1)])
  have res: "adc_resolved ?cs" by (rule adc_built_resolved [OF seen])
  have len: "length ?cs = length ?es" using seen by (auto simp: adc_built_def list_all2_lengthD)
  have config: "entry_config has3 (?es ! k) (?cs ! k)" "length ?cs = length ?es" if "k < length ?es" for k
    using seen that by (auto simp: adc_built_def list_all2_conv_all_nth)
  obtain i j p ch where w: "placed_in (bc_adc x) a (e\<lparr>ae_gpio := j, ae_peripheral := p, ae_channel := ch\<rparr>) i"
      "resolve_mapping has3 e = Inr (p, ch)"
    using build_ctx_ok(2) [OF ctx] by auto
  have i: "i < length ?es" "?es ! i = e\<lparr>ae_gpio := j, ae_peripheral := p, ae_channel := ch\<rparr>"
    using w(1) by (auto simp: placed_in_def)
  have owner: "owner_index_of (bc_adc x) a = Inr i"
    using placed_in_owner [OF _ w(1)] build_ctx_ok(1) [OF ctx(1,2)] by (auto simp: ctx_ok_def)
  have "(ac_peripheral (?cs ! i), ac_channel (?cs ! i)) = (p, ch)"
    using config(1) [OF i(1)] resolve_resolved [OF w(2)] by (intro reresolve) (auto simp: entry_config_def i(2))
  then have c: "ac_peripheral (?cs ! i) = p" "ac_channel (?cs ! i) = ch" by simp_all
  have "ac_resolution (?cs ! i) = ae_resolution (?es ! i)"
    using config(1) [OF i(1)] by (metis entry_config_def adc_config_of_def adc_config.select_convs(4))
  then have r: "ac_resolution (?cs ! i) = ae_resolution e" by (simp add: i(2))
  obtain counts ready t where init: "\<And>p. p \<noteq> ADC_AUTO \<Longrightarrow> counts ! peripheral_index p = per_count p ?cs"
      "init_peripherals (\<lambda>_. True) ?dma ?z ?cs counts [0 ..< 3] ?init = (ready, t)"
      "s = t\<lparr>as_instances := map (\<lambda>k. adc_instance_of ?z ready (?cs ! k) (Some (rank_of ?cs k))) [0 ..< length ?cs]\<rparr>"
    using init_adc_spec [OF res, of "\<lambda>_. True" ?dma ?z ?init, folded s_eq] by blast
  have found: "\<exists>d. find_dma_instance (ac_request c) ?dma = Some d" if c: "c \<in> set ?cs" for c
  proof -
    obtain k where "k < length ?es" "?cs ! k = c" using c len by (metis in_set_conv_nth)
    then have "adc_dma_request (ac_peripheral c) = Inr (ac_request c)" "ac_peripheral c \<noteq> ADC_AUTO"
      using config(1) [of k] entry_config_resolved by (auto simp: entry_config_def)
    moreover have "uses_peripheral (ac_peripheral c) ?cs" using c by (auto simp: uses_peripheral_def list_ex_iff)
    ultimately show ?thesis using board_dma_found [OF sp(3) streams] by blast
  qed
  have each: "\<exists>t. init_peripheral (\<lambda>_. True) ?dma ?z ?cs q (counts ! q) u = (0 < counts ! q, t) \<and> as_panics t = as_panics u"
    if "q \<in> set [0 ..< 3]" for q u
  proof -
    have q: "q < 3" using that by (simp del: upt_rec_numeral)
    have "counts ! q = per_count (peripheral_from_index q) ?cs"
      using init(1) [of "peripheral_from_index q"] peripheral_from_index_inverse [OF q] by (simp add: peripheral_from_index_def)
    then show ?thesis using init_peripheral_fine [OF _ sp(4) q] found by blast
  qed
  have "ready = map (\<lambda>i. 0 < counts ! i) [0 ..< 3]" "as_panics t = as_panics ?init"
    using init_peripherals_fine [of "[0 ..< 3]" "\<lambda>_. True" ?dma ?z ?cs counts ?init, OF each] init(2) by auto
  moreover have p: "p \<noteq> ADC_AUTO" using resolve_resolved(1) [OF w(2)] .
  moreover have "0 < per_count p ?cs"
    using rank_of_less [of i ?cs] i(1) config(2) [OF i(1)] c(1) by simp
  ultimately have "ready ! peripheral_index p" "as_panics s = []"
    using init(1) [OF p] by (simp_all add: init(3) initial_adc_def del: upt_rec_numeral)
  moreover have inst: "as_instances s ! i = adc_instance_of ?z ready (?cs ! i) (Some (rank_of ?cs i))"
    using i(1) config(2) [OF i(1)] by (simp add: init(3))
  ultimately have handle: "ai_handle (as_instances s ! i) = Some (peripheral_index p)"
    by (simp add: adc_instance_of_def Let_def c(1))
  have "sample_raw pool (as_instances s ! i) = min (ucast (conv ch)) (max_raw_for_resolution (ae_resolution e))"
    if "scan_writes (peripheral_index p) (as_calls s) pool conv" for pool conv
    using adc_sample_own(2) [OF sp(1) sp(4) _ s_eq i(1) handle that] c(2) r by (simp add: initial_adc_def)
  then show ?thesis using owner w(2) handle \<open>as_panics s = []\<close> by blast
qed

section \<open>A board\<close>

definition demo_pin :: "Port \<Rightarrow> nat \<Rightarrow> OperationMode \<Rightarrow> gpio_entry" where
  "demo_pin p k m = \<lparr>ge_port = p, ge_pin = push_bit k 1, ge_mode = m, ge_pull = Pull_None, ge_speed = Low, ge_af = NO_AF\<rparr>"

definition demo_devices :: "(nat \<times> device) list" where
  "demo_devices =
     [(1, Output_device (demo_pin PB 0 OUTPUT_PUSHPULL)),
      (2, Dma_device [\<lparr>de_instance = spi1, de_stream = 1, de_irqn = DMA1_Stream_IRQn 0, de_id = 0\<rparr>]),
      (3, Input_device (demo_pin PB 1 INPUT)),
      (4, Exti_device (demo_pin PC 2 EXTI_RISING) (Some 7)),
      (5, Adc_device (demo_pin PA 6 ANALOG) (demo_adc_entry 0 6))]"

definition demo_ctx :: board_ctx where
  "demo_ctx = projr (build_ctx True demo_devices)"

definition demo_config :: board_config where
  "demo_config = projr (build_board True [(0, True)] demo_ctx)"

lemma demo_ctx_built: "build_ctx True demo_devices = Inr demo_ctx"
  by code_simp

lemma demo_board_built: "build_board True [(0, True)] demo_ctx = Inr demo_config"
  by code_simp

lemma demo_devices_distinct: "distinct (map fst demo_devices)"
  by (simp add: demo_devices_def)

lemma devices_use_own_pins_witness:
  "uses_own_pin demo_ctx (init_board (\<lambda>_. True) (\<lambda>_. True) demo_config) 4 (Exti_device (demo_pin PC 2 EXTI_RISING) (Some 7))"
  using devices_use_own_pins [OF demo_ctx_built demo_devices_distinct demo_board_built, of "\<lambda>_. True" "\<lambda>_. True"]
  by (simp add: demo_devices_def)

lemma analog_inputs_ready_witness:
  "\<exists>i p ch. owner_index_of (bc_adc demo_ctx) 5 = Inr i \<and> resolve_mapping True (demo_adc_entry 0 6) = Inr (p, ch) \<and>
     as_panics (bs_adc (init_board (\<lambda>_. True) (\<lambda>_. True) demo_config)) = []"
proof -
  have dev: "(5, Adc_device (demo_pin PA 6 ANALOG) (demo_adc_entry 0 6)) \<in> set demo_devices"
    by (simp add: demo_devices_def)
  have streams: "list_all (\<lambda>e. de_stream e \<le> 16) (dx_storage (bc_dma demo_ctx))" by code_simp
  show ?thesis
    using analog_inputs_ready [OF demo_ctx_built demo_devices_distinct dev demo_board_built streams refl] by blast
qed

end
