(* ===== verification/Spi.thy ===== *)
theory Spi
  imports Dma Gpio
begin

unbundle bit_operations_syntax

text \<open>
  The SPI of a board (\<open>Inc/HALAL/Models/SPI/SPI2.hpp\<close>, \<open>SPIConfig.hpp\<close>, \<open>Src/HALAL/Models/SPI/SPI2.cpp\<close>): the
  configuration and its translation, the pins and alternate functions a device may have, the devices
  and their configurations, the prescaler, the initialization, the transfers of a master and of a
  slave, and the interrupts and callbacks. The vendor's library is a parameter that gets all the
  calls so far; its constants are constructors.
\<close>

section \<open>The configuration\<close>

datatype NSSMode = NSS_SOFTWARE | NSS_HARDWARE

datatype spi_direction = FULL_DUPLEX | HALF_DUPLEX | SIMPLEX_TX_ONLY | SIMPLEX_RX_ONLY

text \<open>\<open>DataSize\<close>, \<open>FIFOThreshold\<close> and \<open>CRCLength\<close> are the values of their enumerators; the enumerations with
  two values are bool, as in the source.\<close>

record spi_config =
  cf_polarity_high :: bool
  cf_second_edge :: bool
  cf_lsb_first :: bool
  cf_nss :: NSSMode
  cf_data_size :: nat
  cf_direction :: spi_direction
  cf_fifo :: nat
  cf_nss_pulse :: bool
  cf_nss_high :: bool
  cf_ss_idleness :: u8
  cf_interdata_idleness :: u8
  cf_keep_io :: bool
  cf_rx_autosusp :: bool
  cf_io_swap :: bool
  cf_ti_mode :: bool
  cf_crc :: bool
  cf_crc_polynomial :: u32
  cf_crc_length :: nat

definition default_spi_config :: spi_config where
  "default_spi_config =
     \<lparr>cf_polarity_high = False, cf_second_edge = False, cf_lsb_first = False, cf_nss = NSS_HARDWARE, cf_data_size = 8,
      cf_direction = FULL_DUPLEX, cf_fifo = 1, cf_nss_pulse = False, cf_nss_high = False, cf_ss_idleness = 0,
      cf_interdata_idleness = 0, cf_keep_io = True, cf_rx_autosusp = False, cf_io_swap = False, cf_ti_mode = False,
      cf_crc = False, cf_crc_polynomial = 7, cf_crc_length = 0\<rparr>"

definition spi_validate :: "spi_config \<Rightarrow> string option" where
  "spi_validate c =
     (if cf_crc c \<and> (cf_crc_polynomial c = 0 \<or> 0xFFFF < cf_crc_polynomial c)
      then Some ''CRC polynomial must be between 1 and 65535''
      else if cf_crc c \<and> cf_crc_polynomial c AND 1 = 0 then Some ''CRC polynomial must be odd''
      else if 15 < cf_ss_idleness c then Some ''master_ss_idleness must be 0-15''
      else if 15 < cf_interdata_idleness c then Some ''master_interdata_idleness must be 0-15''
      else None)"

datatype spi_constant =
    SPI_NSS_SOFT | SPI_NSS_HARD_OUTPUT | SPI_NSS_HARD_INPUT
  | SPI_POLARITY_LOW | SPI_POLARITY_HIGH | SPI_PHASE_1EDGE | SPI_PHASE_2EDGE
  | SPI_FIRSTBIT_MSB | SPI_FIRSTBIT_LSB
  | SPI_DIRECTION_2LINES | SPI_DIRECTION_1LINE | SPI_DIRECTION_2LINES_TXONLY | SPI_DIRECTION_2LINES_RXONLY
  | SPI_NSS_POLARITY_LOW | SPI_NSS_POLARITY_HIGH | SPI_NSS_PULSE_ENABLE | SPI_NSS_PULSE_DISABLE
  | SPI_MASTER_KEEP_IO_STATE_ENABLE | SPI_MASTER_KEEP_IO_STATE_DISABLE
  | SPI_MASTER_RX_AUTOSUSP_ENABLE | SPI_MASTER_RX_AUTOSUSP_DISABLE
  | SPI_IO_SWAP_ENABLE | SPI_IO_SWAP_DISABLE | SPI_TIMODE_ENABLE | SPI_TIMODE_DISABLE
  | SPI_CRCCALCULATION_ENABLE | SPI_CRCCALCULATION_DISABLE
  | SPI_BAUDRATEPRESCALER nat


















section \<open>Pins\<close>

datatype spi_peripheral = SPI_1 | SPI_2 | SPI_3 | SPI_4 | SPI_5 | SPI_6

fun spi_index :: "spi_peripheral \<Rightarrow> nat" where
  "spi_index SPI_1 = 0"
| "spi_index SPI_2 = 1"
| "spi_index SPI_3 = 2"
| "spi_index SPI_4 = 3"
| "spi_index SPI_5 = 4"
| "spi_index SPI_6 = 5"

definition one_of_pins :: "Pin \<Rightarrow> Pin list \<Rightarrow> bool" where
  "one_of_pins p ps \<longleftrightarrow> list_ex (same_pin p) ps"

definition get_af :: "Pin \<Rightarrow> spi_peripheral \<Rightarrow> AlternateFunction" where
  "get_af pin p =
     (if p = SPI_2 \<and> one_of_pins pin [PIN PB 4] then AF7
      else if p = SPI_3 \<and> one_of_pins pin [PIN PA 4, PIN PA 15] then AF6
      else if p = SPI_3 \<and> one_of_pins pin [PIN PB 2] then AF7
      else if p = SPI_3 \<and> one_of_pins pin [PIN PB 3, PIN PB 4] then AF6
      else if p = SPI_3 \<and> one_of_pins pin [PIN PB 5] then AF7
      else if p = SPI_3 \<and> one_of_pins pin [PIN PC 10, PIN PC 11, PIN PC 12] then AF6
      else if p = SPI_6 \<and> one_of_pins pin [PIN PA 4, PIN PA 5, PIN PA 6, PIN PA 7] then AF8
      else if p = SPI_6 \<and> one_of_pins pin [PIN PA 15] then AF7
      else if p = SPI_6 \<and> one_of_pins pin [PIN PB 3, PIN PB 4, PIN PB 5] then AF8
      else AF5)"

fun sck_pins :: "spi_peripheral \<Rightarrow> Pin list" where
  "sck_pins SPI_1 = [PIN PB 3, PIN PG 11, PIN PA 5]"
| "sck_pins SPI_2 = [PIN PD 3, PIN PA 12, PIN PA 9, PIN PB 13, PIN PB 10]"
| "sck_pins SPI_3 = [PIN PB 3, PIN PC 10]"
| "sck_pins SPI_4 = [PIN PE 2, PIN PE 12]"
| "sck_pins SPI_5 = [PIN PF 7]"
| "sck_pins SPI_6 = [PIN PB 3, PIN PG 13, PIN PC 10, PIN PA 7]"

fun miso_pins :: "spi_peripheral \<Rightarrow> Pin list" where
  "miso_pins SPI_1 = [PIN PB 4, PIN PG 9, PIN PA 6]"
| "miso_pins SPI_2 = [PIN PC 2, PIN PB 14]"
| "miso_pins SPI_3 = [PIN PB 4, PIN PC 11]"
| "miso_pins SPI_4 = [PIN PE 5, PIN PE 13]"
| "miso_pins SPI_5 = [PIN PF 8]"
| "miso_pins SPI_6 = [PIN PB 4, PIN PG 12, PIN PA 6]"

fun mosi_pins :: "spi_peripheral \<Rightarrow> Pin list" where
  "mosi_pins SPI_1 = [PIN PB 5, PIN PD 7, PIN PA 7]"
| "mosi_pins SPI_2 = [PIN PC 3, PIN PC 1, PIN PB 15]"
| "mosi_pins SPI_3 = [PIN PB 5, PIN PD 6, PIN PC 12, PIN PB 2]"
| "mosi_pins SPI_4 = [PIN PE 6, PIN PE 14]"
| "mosi_pins SPI_5 = [PIN PF 9, PIN PF 11]"
| "mosi_pins SPI_6 = [PIN PB 5, PIN PG 14, PIN PA 7]"

fun nss_pins :: "spi_peripheral \<Rightarrow> Pin list" where
  "nss_pins SPI_1 = [PIN PA 4, PIN PA 15, PIN PG 10]"
| "nss_pins SPI_2 = [PIN PA 11, PIN PB 9, PIN PB 4, PIN PB 12]"
| "nss_pins SPI_3 = [PIN PA 15, PIN PA 4]"
| "nss_pins SPI_4 = [PIN PE 4, PIN PE 11]"
| "nss_pins SPI_5 = [PIN PF 6]"
| "nss_pins SPI_6 = [PIN PA 0, PIN PA 15, PIN PG 8, PIN PA 4]"

definition validate_spi_pins :: "spi_peripheral \<Rightarrow> Pin \<Rightarrow> Pin \<Rightarrow> Pin \<Rightarrow> string option" where
  "validate_spi_pins p sck miso mosi =
     (if \<not> one_of_pins sck (sck_pins p) then Some ''Invalid SCK pin''
      else if \<not> one_of_pins miso (miso_pins p) then Some ''Invalid MISO pin''
      else if \<not> one_of_pins mosi (mosi_pins p) then Some ''Invalid MOSI pin''
      else None)"

definition validate_nss_pin :: "spi_peripheral \<Rightarrow> Pin \<Rightarrow> string option" where
  "validate_nss_pin p nss = (if \<not> one_of_pins nss (nss_pins p) then Some ''Invalid NSS pin'' else None)"

fun spi_dma_peripheral :: "spi_peripheral \<Rightarrow> Peripheral" where
  "spi_dma_peripheral SPI_1 = spi1"
| "spi_dma_peripheral SPI_2 = spi2"
| "spi_dma_peripheral SPI_3 = spi3"
| "spi_dma_peripheral SPI_4 = spi4"
| "spi_dma_peripheral SPI_5 = spi5"
| "spi_dma_peripheral SPI_6 = spi6"

section \<open>Devices\<close>

record spi_device =
  sd_peripheral :: spi_peripheral
  sd_master :: bool
  sd_baud :: u32
  sd_config :: spi_config
  sd_sck :: gpio_entry
  sd_miso :: gpio_entry
  sd_mosi :: gpio_entry
  sd_nss :: "gpio_entry option"
  sd_dma :: "dma_entry list"

definition spi_pin :: "spi_peripheral \<Rightarrow> Pin \<Rightarrow> string + gpio_entry" where
  "spi_pin p pin = make_gpio pin ALT_PP Pull_None VeryHigh (get_af pin p)"

definition require :: "string option \<Rightarrow> string + unit" where
  "require r = (case r of None \<Rightarrow> Inr () | Some msg \<Rightarrow> Inl msg)"

definition andthen :: "string + 'a \<Rightarrow> ('a \<Rightarrow> string + 'b) \<Rightarrow> string + 'b" where
  "andthen r f = (case r of Inl msg \<Rightarrow> Inl msg | Inr v \<Rightarrow> f v)"

definition make_spi_hardware_nss ::
  "bool \<Rightarrow> spi_peripheral \<Rightarrow> u32 \<Rightarrow> Pin \<Rightarrow> Pin \<Rightarrow> Pin \<Rightarrow> Pin \<Rightarrow> spi_config \<Rightarrow> nat \<Rightarrow> nat \<Rightarrow> string + spi_device" where
  "make_spi_hardware_nss master p baud sck miso mosi nss c rx_stream tx_stream =
     andthen (spi_pin p sck) (\<lambda>sck'.
     andthen (spi_pin p miso) (\<lambda>miso'.
     andthen (spi_pin p mosi) (\<lambda>mosi'.
     andthen (spi_pin p nss) (\<lambda>nss'.
     andthen (dma_entries (spi_dma_peripheral p) [rx_stream, tx_stream]) (\<lambda>dma.
     andthen (require (spi_validate c)) (\<lambda>_.
     andthen (require (if cf_nss c = NSS_SOFTWARE then Some ''Use NSSMode::SOFTWARE, and omit NSS pin'' else None)) (\<lambda>_.
     andthen (require (validate_nss_pin p nss)) (\<lambda>_.
     andthen (require (validate_spi_pins p sck miso mosi)) (\<lambda>_.
       Inr \<lparr>sd_peripheral = p, sd_master = master, sd_baud = baud, sd_config = c, sd_sck = sck', sd_miso = miso',
            sd_mosi = mosi', sd_nss = Some nss', sd_dma = dma\<rparr>)))))))))"

definition make_spi_software_nss ::
  "bool \<Rightarrow> spi_peripheral \<Rightarrow> u32 \<Rightarrow> Pin \<Rightarrow> Pin \<Rightarrow> Pin \<Rightarrow> spi_config \<Rightarrow> nat \<Rightarrow> nat \<Rightarrow> string + spi_device" where
  "make_spi_software_nss master p baud sck miso mosi c rx_stream tx_stream =
     andthen (spi_pin p sck) (\<lambda>sck'.
     andthen (spi_pin p miso) (\<lambda>miso'.
     andthen (spi_pin p mosi) (\<lambda>mosi'.
     andthen (dma_entries (spi_dma_peripheral p) [rx_stream, tx_stream]) (\<lambda>dma.
     andthen (require (spi_validate c)) (\<lambda>_.
     andthen (require (if cf_nss c = NSS_HARDWARE then Some ''NSS pin must be provided for hardware NSS mode'' else None)) (\<lambda>_.
     andthen (require (validate_spi_pins p sck miso mosi)) (\<lambda>_.
       Inr \<lparr>sd_peripheral = p, sd_master = master, sd_baud = baud, sd_config = c, sd_sck = sck', sd_miso = miso',
            sd_mosi = mosi', sd_nss = None, sd_dma = dma\<rparr>)))))))"

record spi_entry =
  se_peripheral :: spi_peripheral
  se_master :: bool
  se_sck :: nat
  se_miso :: nat
  se_mosi :: nat
  se_nss :: "nat option"
  se_rx :: nat
  se_tx :: nat
  se_baud :: u32
  se_config :: spi_config

definition SPI_MAX :: nat where
  "SPI_MAX = 6"

text \<open>The streams of a device are added one after the other; the result are their indices.\<close>

fun inscribe_streams :: "nat \<Rightarrow> dma_entry list \<Rightarrow> dma_entry domain_ctx \<Rightarrow> string + (nat list \<times> dma_entry domain_ctx)" where
  "inscribe_streams owner [] d = Inr ([], d)"
| "inscribe_streams owner (e # es) d =
     (case ctx_add MAX_STREAMS e owner d of
        Inl msg \<Rightarrow> Inl msg
      | Inr (i, d') \<Rightarrow> map_sum id (\<lambda>(is, d). (i # is, d)) (inscribe_streams owner es d'))"

text \<open>The address of a device is \<open>owner\<close>; those of its pins, which are members at different places, are
  given by \<open>pin_owner\<close>. The context is that of the pins, the streams and the devices.\<close>

type_synonym spi_ctx = "gpio_entry domain_ctx \<times> dma_entry domain_ctx \<times> spi_entry domain_ctx"

definition inscribe_nss :: "nat \<Rightarrow> gpio_entry option \<Rightarrow> gpio_entry domain_ctx \<Rightarrow> string + (nat option \<times> gpio_entry domain_ctx)" where
  "inscribe_nss owner nss g =
     (case nss of None \<Rightarrow> Inr (None, g) | Some e \<Rightarrow> map_sum id (\<lambda>(i, g). (Some i, g)) (inscribe_gpio owner e g))"

definition inscribe_spi :: "nat \<Rightarrow> (nat \<Rightarrow> nat) \<Rightarrow> spi_device \<Rightarrow> spi_ctx \<Rightarrow> string + spi_ctx" where
  "inscribe_spi owner pin_owner dev x =
     (case x of (g, d, s) \<Rightarrow>
        andthen (inscribe_streams owner (sd_dma dev) d) (\<lambda>(dma, d).
        andthen (inscribe_nss (pin_owner 3) (sd_nss dev) g) (\<lambda>(nss, g).
        andthen (inscribe_gpio (pin_owner 0) (sd_sck dev) g) (\<lambda>(sck, g).
        andthen (inscribe_gpio (pin_owner 1) (sd_miso dev) g) (\<lambda>(miso, g).
        andthen (inscribe_gpio (pin_owner 2) (sd_mosi dev) g) (\<lambda>(mosi, g).
        andthen (ctx_add SPI_MAX
             \<lparr>se_peripheral = sd_peripheral dev, se_master = sd_master dev, se_sck = sck, se_miso = miso, se_mosi = mosi,
              se_nss = nss, se_rx = dma ! 0, se_tx = dma ! 1, se_baud = sd_baud dev, se_config = sd_config dev\<rparr> owner s)
          (\<lambda>(_, s). Inr (g, d, s))))))))"



section \<open>The prescaler\<close>

text \<open>\<open>get_prescaler_flag\<close> at run time, with the panics it raises.\<close>

definition get_prescaler_flag :: "u32 \<Rightarrow> spi_constant \<times> string list" where
  "get_prescaler_flag k =
     (if k \<in> set [2, 4, 8, 16, 32, 64, 128, 256] then (SPI_BAUDRATEPRESCALER (unat k), [])
      else (SPI_BAUDRATEPRESCALER 256, [''Invalid prescaler value'']))"

text \<open>The loop of \<open>calculate_prescaler\<close>: \<open>None\<close> when it divides by zero.\<close>

partial_function (option) prescaler_loop :: "u32 \<Rightarrow> u32 \<Rightarrow> u32 \<Rightarrow> string list \<Rightarrow> (u32 \<times> string list) option" where
  "prescaler_loop src max_baud prescaler panics =
     (if prescaler = 0 then None
      else if max_baud < src div prescaler then
        prescaler_loop src max_baud (prescaler * 2)
          (if 256 < prescaler * 2 then panics @ [''Cannot achieve desired baudrate, speed is too low''] else panics)
      else Some (prescaler, panics))"

declare prescaler_loop.simps [code]

definition calculate_prescaler :: "u32 \<Rightarrow> u32 \<Rightarrow> (spi_constant \<times> string list) option" where
  "calculate_prescaler src max_baud =
     map_option (\<lambda>(k, ps). let (flag, qs) = get_prescaler_flag k in (flag, ps @ qs)) (prescaler_loop src max_baud 2 [])"

section \<open>The state\<close>

datatype hal_status = STATUS_OK | STATUS_ERROR | STATUS_BUSY | STATUS_TIMEOUT

record spi_init =
  in_master :: bool
  in_prescaler :: "spi_constant option"
  in_nss :: spi_constant
  in_direction :: spi_constant
  in_data_size :: u32
  in_polarity :: spi_constant
  in_phase :: spi_constant
  in_first_bit :: spi_constant
  in_ti_mode :: spi_constant
  in_crc :: spi_constant
  in_crc_polynomial :: "u32 option"
  in_crc_length :: "u32 option"
  in_nss_pulse :: spi_constant
  in_nss_polarity :: spi_constant
  in_fifo :: u32
  in_ss_idleness :: u32
  in_interdata_idleness :: u32
  in_rx_autosusp :: spi_constant
  in_keep_io :: spi_constant
  in_io_swap :: spi_constant

text \<open>The calls: an instance is its index, a buffer its address, and a length a number of frames, which
  the vendor's library takes as 16 bits.\<close>

datatype spi_call =
    HAL_PeriphCLKConfig spi_peripheral
  | SPI_clock_enable spi_peripheral
  | HAL_DMA_Init_SPI nat
  | HAL_SPI_Init nat "spi_init option"
  | HAL_SPI_DeInit nat
  | HAL_SPI_Abort nat
  | NVIC_enable spi_peripheral
  | HAL_SPI_Transmit nat nat u16
  | HAL_SPI_Receive nat nat u16
  | HAL_SPI_TransmitReceive nat nat nat u16
  | HAL_SPI_Transmit_DMA nat nat u16
  | HAL_SPI_Receive_DMA nat nat u16
  | HAL_SPI_TransmitReceive_DMA nat nat nat u16
  | HAL_SPI_IRQHandler nat
  | SPI_write_SSI nat bool

type_synonym spi_hal = "spi_call list \<Rightarrow> hal_status"

record spi_instance =
  si_peripheral :: "spi_peripheral option"
  si_flag :: "nat option"
  si_errors :: u32
  si_aborted :: bool
  si_rx :: "nat option"
  si_tx :: "nat option"
  si_init :: "spi_init option"

text \<open>\<open>ss_flags\<close> is the memory of the operation flags, \<open>ss_dma\<close> the handles of the streams.\<close>

record spi_state =
  ss_instances :: "spi_instance list"
  ss_table :: "nat option list"
  ss_flags :: "nat \<Rightarrow> bool"
  ss_dma :: "(nat \<times> dma_init) option list"
  ss_parents :: "nat option list"
  ss_calls :: "spi_call list"
  ss_panics :: "string list"

definition spi_do :: "spi_call \<Rightarrow> spi_state \<Rightarrow> spi_state" where
  "spi_do c s = s\<lparr>ss_calls := ss_calls s @ [c]\<rparr>"

definition spi_panics :: "string list \<Rightarrow> spi_state \<Rightarrow> spi_state" where
  "spi_panics ms s = s\<lparr>ss_panics := ss_panics s @ ms\<rparr>"

definition on_spi :: "nat \<Rightarrow> (spi_instance \<Rightarrow> spi_instance) \<Rightarrow> spi_state \<Rightarrow> spi_state" where
  "on_spi i f s = s\<lparr>ss_instances := (ss_instances s)[i := f (ss_instances s ! i)]\<rparr>"

section \<open>Transfers\<close>

definition frame_size :: "nat \<Rightarrow> nat" where
  "frame_size data_bits = (if data_bits \<le> 8 then 1 else if data_bits \<le> 16 then 2 else 4)"

definition check_error_code :: "hal_status \<Rightarrow> spi_state \<Rightarrow> bool \<times> spi_state" where
  "check_error_code r s =
     (if r = STATUS_OK then (True, s)
      else if r = STATUS_BUSY then (False, s)
      else (False, spi_panics [''SPI transmit error''] s))"

text \<open>A call with a number of bytes: it has to be a whole number of frames.\<close>

definition spi_transfer :: "spi_hal \<Rightarrow> nat \<Rightarrow> nat \<Rightarrow> (u16 \<Rightarrow> spi_call) \<Rightarrow> spi_state \<Rightarrow> bool \<times> spi_state" where
  "spi_transfer hal bits bytes call s =
     (if bytes mod frame_size bits \<noteq> 0 then (False, spi_panics [''SPI data size not aligned to frame size''] s)
      else (let s = spi_do (call (of_nat (bytes div frame_size bits))) s in check_error_code (hal (ss_calls s)) s))"

definition spi_send :: "spi_hal \<Rightarrow> nat \<Rightarrow> nat \<Rightarrow> nat \<Rightarrow> nat \<Rightarrow> spi_state \<Rightarrow> bool \<times> spi_state" where
  "spi_send hal bits i addr bytes s = spi_transfer hal bits bytes (HAL_SPI_Transmit i addr) s"

definition spi_receive :: "spi_hal \<Rightarrow> nat \<Rightarrow> nat \<Rightarrow> nat \<Rightarrow> nat \<Rightarrow> spi_state \<Rightarrow> bool \<times> spi_state" where
  "spi_receive hal bits i addr bytes s = spi_transfer hal bits bytes (HAL_SPI_Receive i addr) s"

definition spi_transceive :: "spi_hal \<Rightarrow> nat \<Rightarrow> nat \<Rightarrow> nat \<Rightarrow> nat \<Rightarrow> nat \<Rightarrow> nat \<Rightarrow> spi_state \<Rightarrow> bool \<times> spi_state" where
  "spi_transceive hal bits i tx tx_bytes rx rx_bytes s =
     spi_transfer hal bits (min tx_bytes rx_bytes) (HAL_SPI_TransmitReceive i tx rx) s"

text \<open>With DMA the flag is stored first.\<close>

definition with_flag :: "nat \<Rightarrow> nat option \<Rightarrow> spi_state \<Rightarrow> spi_state" where
  "with_flag i flag s = on_spi i (si_flag_update (\<lambda>_. flag)) s"

definition spi_send_DMA :: "spi_hal \<Rightarrow> nat \<Rightarrow> nat \<Rightarrow> nat \<Rightarrow> nat \<Rightarrow> nat option \<Rightarrow> spi_state \<Rightarrow> bool \<times> spi_state" where
  "spi_send_DMA hal bits i addr bytes flag s =
     spi_transfer hal bits bytes (HAL_SPI_Transmit_DMA i addr) (with_flag i flag s)"

definition spi_receive_DMA :: "spi_hal \<Rightarrow> nat \<Rightarrow> nat \<Rightarrow> nat \<Rightarrow> nat \<Rightarrow> nat option \<Rightarrow> spi_state \<Rightarrow> bool \<times> spi_state" where
  "spi_receive_DMA hal bits i addr bytes flag s =
     spi_transfer hal bits bytes (HAL_SPI_Receive_DMA i addr) (with_flag i flag s)"

definition spi_transceive_DMA ::
  "spi_hal \<Rightarrow> nat \<Rightarrow> nat \<Rightarrow> nat \<Rightarrow> nat \<Rightarrow> nat \<Rightarrow> nat \<Rightarrow> nat option \<Rightarrow> spi_state \<Rightarrow> bool \<times> spi_state" where
  "spi_transceive_DMA hal bits i tx tx_bytes rx rx_bytes flag s =
     spi_transfer hal bits (min tx_bytes rx_bytes) (HAL_SPI_TransmitReceive_DMA i tx rx) (with_flag i flag s)"

text \<open>The slave: it listens, is armed and transceives with DMA only.\<close>

definition spi_listen :: "spi_hal \<Rightarrow> nat \<Rightarrow> nat \<Rightarrow> nat \<Rightarrow> nat \<Rightarrow> nat option \<Rightarrow> spi_state \<Rightarrow> bool \<times> spi_state" where
  "spi_listen hal bits i addr bytes flag s =
     spi_transfer hal bits bytes (HAL_SPI_Receive_DMA i addr) (with_flag i flag s)"

definition spi_arm :: "spi_hal \<Rightarrow> nat \<Rightarrow> nat \<Rightarrow> nat \<Rightarrow> nat \<Rightarrow> nat option \<Rightarrow> spi_state \<Rightarrow> bool \<times> spi_state" where
  "spi_arm hal bits i addr bytes flag s =
     spi_transfer hal bits bytes (HAL_SPI_Transmit_DMA i addr) (with_flag i flag s)"

definition slave_transceive ::
  "spi_hal \<Rightarrow> nat \<Rightarrow> nat \<Rightarrow> nat \<Rightarrow> nat \<Rightarrow> nat \<Rightarrow> nat \<Rightarrow> nat option \<Rightarrow> spi_state \<Rightarrow> bool \<times> spi_state" where
  "slave_transceive hal bits i tx tx_bytes rx rx_bytes flag s =
     spi_transfer hal bits (min tx_bytes rx_bytes) (HAL_SPI_TransmitReceive_DMA i tx rx) (with_flag i flag s)"

definition set_software_nss :: "nat \<Rightarrow> bool \<Rightarrow> spi_state \<Rightarrow> spi_state" where
  "set_software_nss i selected s = spi_do (SPI_write_SSI i (\<not> selected)) s"

text \<open>\<open>recover\<close>: the second initialization is that of the stored handle, whose setup is \<open>None\<close> when no
  initialization has written it.\<close>

definition spi_recover :: "spi_hal \<Rightarrow> nat \<Rightarrow> spi_state \<Rightarrow> bool \<times> spi_state" where
  "spi_recover hal i s =
     (let s = spi_do (HAL_SPI_Abort i) s;
          s = on_spi i (\<lambda>x. x\<lparr>si_errors := si_errors x + 1, si_aborted := True, si_flag := None\<rparr>) s;
          s = spi_do (HAL_SPI_DeInit i) s
      in if hal (ss_calls s) \<noteq> STATUS_OK then (False, s)
         else
           (let s = spi_do (HAL_SPI_Init i (si_init (ss_instances s ! i))) s
            in (hal (ss_calls s) = STATUS_OK, s)))"

definition abort_and_recover :: "spi_hal \<Rightarrow> nat \<Rightarrow> spi_state \<Rightarrow> spi_state" where
  "abort_and_recover hal i s = snd (spi_recover hal i s)"

definition clear_abort_flag :: "nat \<Rightarrow> spi_state \<Rightarrow> spi_state" where
  "clear_abort_flag i s = on_spi i (si_aborted_update (\<lambda>_. False)) s"

section \<open>Interrupts and callbacks\<close>

definition spi_irq_handler :: "nat \<Rightarrow> spi_state \<Rightarrow> spi_state" where
  "spi_irq_handler k s =
     (case ss_table s ! k of
        None \<Rightarrow> spi_panics [''SPI IRQ Handler called but instance is null''] s
      | Some i \<Rightarrow> spi_do (HAL_SPI_IRQHandler i) s)"

text \<open>The search for the instance of a handle, which is the index of the instance: the first place of the
  table that holds it.\<close>

fun find_handle :: "nat option list \<Rightarrow> nat \<Rightarrow> nat option" where
  "find_handle [] i = None"
| "find_handle (t # ts) i = (if t = Some i then Some i else find_handle ts i)"

definition HAL_SPI_TxCpltCallback :: "nat \<Rightarrow> spi_state \<Rightarrow> spi_state" where
  "HAL_SPI_TxCpltCallback h s =
     (case find_handle (ss_table s) h of
        None \<Rightarrow> spi_panics [''SPI IRQ Callback called but instance is null''] s
      | Some i \<Rightarrow>
          (case si_flag (ss_instances s ! i) of
             None \<Rightarrow> s
           | Some f \<Rightarrow> on_spi i (si_flag_update (\<lambda>_. None)) (s\<lparr>ss_flags := (ss_flags s)(f := True)\<rparr>)))"

definition HAL_SPI_RxCpltCallback :: "nat \<Rightarrow> spi_state \<Rightarrow> spi_state" where
  "HAL_SPI_RxCpltCallback h s = HAL_SPI_TxCpltCallback h s"

definition HAL_SPI_TxRxCpltCallback :: "nat \<Rightarrow> spi_state \<Rightarrow> spi_state" where
  "HAL_SPI_TxRxCpltCallback h s = HAL_SPI_TxCpltCallback h s"

definition HAL_SPI_ErrorCallback :: "spi_hal \<Rightarrow> nat \<Rightarrow> spi_state \<Rightarrow> spi_state" where
  "HAL_SPI_ErrorCallback hal h s =
     (case find_handle (ss_table s) h of
        None \<Rightarrow> spi_panics [''SPI IRQ Callback called but instance is null''] s
      | Some i \<Rightarrow>
          (let (fine, s) = spi_recover hal i s
           in if \<not> fine then spi_panics [''SPI failed (recovery failed)''] s else s))"

section \<open>Initialization\<close>



text \<open>The alignment of a stream for frames of more than eight bits.\<close>

definition align_stream :: "nat \<Rightarrow> (nat \<times> dma_init) option \<Rightarrow> (nat \<times> dma_init) option" where
  "align_stream bits h =
     map_option (\<lambda>(st, di). (st,
       if 16 < bits then di\<lparr>PeriphDataAlignment := ALIGN_WORD, MemDataAlignment := ALIGN_WORD\<rparr>
       else if 8 < bits then di\<lparr>PeriphDataAlignment := ALIGN_HALFWORD, MemDataAlignment := ALIGN_HALFWORD\<rparr>
       else di)) h"


definition spi_clock_setup :: "spi_hal \<Rightarrow> spi_peripheral \<Rightarrow> spi_state \<Rightarrow> spi_state" where
  "spi_clock_setup hal p s =
     (let s = spi_do (HAL_PeriphCLKConfig p) s;
          s = (if hal (ss_calls s) \<noteq> STATUS_OK then spi_panics [''Unable to configure SPI clock''] s else s)
      in spi_do (SPI_clock_enable p) s)"

definition spi_dma_setup :: "nat \<Rightarrow> spi_entry \<Rightarrow> spi_state \<Rightarrow> spi_state" where
  "spi_dma_setup i e s =
     (let rx = se_rx e; tx = se_tx e; bits = cf_data_size (se_config e);
          s = on_spi i (\<lambda>x. x\<lparr>si_rx := Some rx, si_tx := Some tx\<rparr>) s;
          s = s\<lparr>ss_parents := (ss_parents s)[rx := Some i, tx := Some i]\<rparr>;
          s = s\<lparr>ss_dma := (ss_dma s)[rx := align_stream bits (ss_dma s ! rx)]\<rparr>;
          s = s\<lparr>ss_dma := (ss_dma s)[tx := align_stream bits (ss_dma s ! tx)]\<rparr>
      in spi_do (HAL_DMA_Init_SPI tx) (spi_do (HAL_DMA_Init_SPI rx) s))"




definition initial_spi :: "nat \<Rightarrow> (nat \<times> dma_init) option list \<Rightarrow> spi_state" where
  "initial_spi n dma =
     \<lparr>ss_instances = replicate n \<lparr>si_peripheral = None, si_flag = None, si_errors = 0, si_aborted = False, si_rx = None,
        si_tx = None, si_init = None\<rparr>,
      ss_table = replicate SPI_MAX None, ss_flags = (\<lambda>_. False), ss_dma = dma, ss_parents = replicate (length dma) None,
      ss_calls = [], ss_panics = []\<rparr>"

section \<open>The prescaler is the smallest that is slow enough\<close>

definition slow_enough :: "u32 \<Rightarrow> u32 \<Rightarrow> nat \<Rightarrow> bool" where
  "slow_enough src max_baud j \<longleftrightarrow> unat src div 2 ^ j \<le> unat max_baud"

lemma unat_power32: "j < 32 \<Longrightarrow> unat ((2::u32) ^ j) = 2 ^ j"
proof -
  assume "j < 32"
  then have "(2::nat) ^ j < 2 ^ 32" by (intro power_strict_increasing) auto
  moreover have "(2::u32) ^ j = of_nat (2 ^ j)" by simp
  ultimately show ?thesis using unat_of_nat32 [of "2 ^ j"] by (simp only:)
qed

lemma power32_not_zero: "j < 32 \<Longrightarrow> (2::u32) ^ j \<noteq> 0"
  using unat_power32 [of j] by (metis power_eq_0_iff unat_0 zero_neq_numeral)

lemma slow_enough_word:
  assumes "j < 32"
  shows "max_baud < src div (2::u32) ^ j \<longleftrightarrow> \<not> slow_enough src max_baud j"
  by (simp add: slow_enough_def word_less_nat_alt unat_div unat_power32 [OF assms] not_le)

lemma power32_wraps: "(2::u32) ^ 32 = 0"
  by simp

lemma power32_above: "j < 32 \<Longrightarrow> (256::u32) < 2 ^ j \<longleftrightarrow> 8 < j"
proof -
  assume j: "j < 32"
  have "(256::u32) < 2 ^ j \<longleftrightarrow> (2::nat) ^ 8 < 2 ^ j"
    by (simp add: word_less_nat_alt unat_power32 [OF j])
  also have "\<dots> \<longleftrightarrow> 8 < j" by (rule power_strict_increasing_iff) simp
  finally show ?thesis .
qed

lemma prescaler_loop_step:
  assumes "1 \<le> j" "j < 32"
  shows "prescaler_loop src max_baud (2 ^ j) ps =
    (if slow_enough src max_baud j then Some (2 ^ j, ps)
     else if j = 31 then None
     else prescaler_loop src max_baud (2 ^ Suc j)
            (if 8 \<le> j then ps @ [''Cannot achieve desired baudrate, speed is too low''] else ps))"
proof (cases "j = 31")
  case True
  have "(2::u32) ^ 31 * 2 = 0" by simp
  then show ?thesis
    using slow_enough_word [of 31 max_baud src] power32_not_zero [of 31]
    unfolding True prescaler_loop.simps [of src max_baud "2 ^ 31"]
    by (simp only: prescaler_loop.simps [of src max_baud 0]) simp
next
  case False
  have "(256::u32) < 2 ^ j * 2 \<longleftrightarrow> 8 \<le> j"
    using power32_above [of "Suc j"] assms False by (simp add: mult.commute less_Suc_eq_le)
  then show ?thesis
    using assms False slow_enough_word [of j max_baud src] power32_not_zero [of j]
    by (subst prescaler_loop.simps) (simp add: mult.commute)
qed

lemma prescaler_loop_find:
  assumes "1 \<le> j" "j < 32"
  shows "prescaler_loop src max_baud (2 ^ j) ps =
    map_option (\<lambda>k. (2 ^ k, ps @ replicate (k - max j 8) ''Cannot achieve desired baudrate, speed is too low''))
      (find (slow_enough src max_baud) [j..<32])"
  using assms
proof (induction "31 - j" arbitrary: j ps)
  case 0
  then have "j = 31" by simp
  then show ?case by (simp add: prescaler_loop_step [of 31, simplified] upt_rec del: upt_rec_numeral)
next
  case (Suc n)
  let ?m = "''Cannot achieve desired baudrate, speed is too low''"
  have j: "j < 31" "[j..<32] = j # [Suc j..<32]" using Suc.hyps(2) Suc.prems by (auto simp: upt_rec)
  note ih = Suc.hyps(1) [of "Suc j"]
  show ?case
  proof (cases "slow_enough src max_baud j")
    case True
    then show ?thesis using prescaler_loop_step [of j] Suc.prems j by simp
  next
    case False
    have found: "Suc j \<le> k" if "find (slow_enough src max_baud) [Suc j..<32] = Some k" for k
      using that by (auto simp: find_Some_iff)
    have "prescaler_loop src max_baud (2 ^ j) ps =
        prescaler_loop src max_baud (2 ^ Suc j) (if 8 \<le> j then ps @ [?m] else ps)"
      using prescaler_loop_step [of j] Suc.prems j False by simp
    also have "\<dots> = map_option (\<lambda>k. (2 ^ k, (if 8 \<le> j then ps @ [?m] else ps) @ replicate (k - max (Suc j) 8) ?m))
        (find (slow_enough src max_baud) [Suc j..<32])"
      using ih Suc.hyps(2) j by simp
    also have "\<dots> = map_option (\<lambda>k. (2 ^ k, ps @ replicate (k - max j 8) ?m))
        (find (slow_enough src max_baud) [Suc j..<32])"
    proof (cases "find (slow_enough src max_baud) [Suc j..<32]")
      case (Some k)
      have "replicate (k - max j 8) ?m = (if 8 \<le> j then [?m] else []) @ replicate (k - max (Suc j) 8) ?m"
      proof (cases "8 \<le> j")
        case True
        then have "k - max j 8 = Suc (k - max (Suc j) 8)" using found [OF Some] by simp
        then show ?thesis using True by (simp del: max_def)
      next
        case f: False
        then have "max j 8 = max (Suc j) 8" by simp
        then show ?thesis using f by simp
      qed
      then show ?thesis using Some by simp
    qed simp
    finally show ?thesis using False j(2) by simp
  qed
qed

lemma prescaler_flag_valid: "1 \<le> j \<Longrightarrow> j \<le> 8 \<Longrightarrow> get_prescaler_flag (2 ^ j) = (SPI_BAUDRATEPRESCALER (2 ^ j), [])"
proof -
  assume "1 \<le> j" "j \<le> 8"
  then have "j \<in> {1, 2, 3, 4, 5, 6, 7, 8}" by auto
  then show ?thesis by (auto simp: get_prescaler_flag_def)
qed

lemma prescaler_flag_invalid:
  assumes "8 < j" "j < 32"
  shows "get_prescaler_flag (2 ^ j) = (SPI_BAUDRATEPRESCALER 256, [''Invalid prescaler value''])"
proof -
  have "(256::u32) < 2 ^ j" using power32_above assms by simp
  then have "(2::u32) ^ j \<notin> set [2, 4, 8, 16, 32, 64, 128, 256]"
    by (auto simp: word_less_nat_alt)
  then show ?thesis by (simp add: get_prescaler_flag_def)
qed

lemma slow_enough_none:
  "find (slow_enough src max_baud) [1..<32] = None \<longleftrightarrow> max_baud = 0 \<and> 0x80000000 \<le> src"
proof -
  have small: "unat src div 2 ^ 31 \<le> 1"
  proof -
    have "unat src < 2 ^ LENGTH(32)" by (rule unsigned_less)
    then have "unat src div 2 ^ 31 < 2" by simp
    then show ?thesis by simp
  qed
  have "find (slow_enough src max_baud) [1..<32] = None \<longleftrightarrow> \<not> slow_enough src max_baud 31"
  proof
    assume "find (slow_enough src max_baud) [1..<32] = None"
    then show "\<not> slow_enough src max_baud 31" by (auto simp: find_None_iff)
  next
    assume a: "\<not> slow_enough src max_baud 31"
    have "\<not> slow_enough src max_baud j" if "j \<le> 31" for j
    proof -
      have "unat src div 2 ^ 31 \<le> unat src div 2 ^ j"
        using that by (intro div_le_mono2 power_increasing) auto
      then show ?thesis using a by (simp add: slow_enough_def)
    qed
    then show "find (slow_enough src max_baud) [1..<32] = None" by (auto simp: find_None_iff simp del: upt_rec_numeral)
  qed
  also have "\<dots> \<longleftrightarrow> max_baud = 0 \<and> 2 ^ 31 \<le> unat src"
    using small by (auto simp: slow_enough_def unat_eq_0 [symmetric])
  finally show ?thesis by (simp add: word_le_nat_alt)
qed

lemma calculate_prescaler_none: "calculate_prescaler src max_baud = None \<longleftrightarrow> max_baud = 0 \<and> 0x80000000 \<le> src"
  using prescaler_loop_find [of 1 src max_baud "[]"] slow_enough_none [of src max_baud]
  by (auto simp: calculate_prescaler_def simp del: upt_rec_numeral)

text \<open>The prescaler of a master: the smallest power of two from 2 to 256 that brings the clock down to the
  wanted rate. Without one the result is 256 and there is a panic for every further doubling and one for
  the value; the loop divides by zero exactly if the wanted rate is zero and the clock is at least
  \<open>2 ^ 31\<close>.\<close>

theorem prescaler_smallest:
  "calculate_prescaler src max_baud =
     (case find (slow_enough src max_baud) [1..<32] of
        None \<Rightarrow> None
      | Some j \<Rightarrow>
          Some (if j \<le> 8 then (SPI_BAUDRATEPRESCALER (2 ^ j), [])
                else (SPI_BAUDRATEPRESCALER 256,
                      replicate (j - 8) ''Cannot achieve desired baudrate, speed is too low'' @ [''Invalid prescaler value'']))) \<and>
   (calculate_prescaler src max_baud = None \<longleftrightarrow> max_baud = 0 \<and> 0x80000000 \<le> src)"
proof -
  have e: "calculate_prescaler src max_baud =
     (case find (slow_enough src max_baud) [1..<32] of
        None \<Rightarrow> None
      | Some j \<Rightarrow>
          Some (if j \<le> 8 then (SPI_BAUDRATEPRESCALER (2 ^ j), [])
                else (SPI_BAUDRATEPRESCALER 256,
                      replicate (j - 8) ''Cannot achieve desired baudrate, speed is too low'' @ [''Invalid prescaler value''])))"
  proof (cases "find (slow_enough src max_baud) [1..<32]")
    case None
    then show ?thesis using prescaler_loop_find [of 1 src max_baud "[]"] by (simp add: calculate_prescaler_def del: upt_rec_numeral)
  next
    case (Some j)
    then have "1 \<le> j" "j < 32" by (auto simp: find_Some_iff simp del: upt_rec_numeral)
    then show ?thesis using Some prescaler_loop_find [of 1 src max_baud "[]"]
      by (cases "j \<le> 8") (simp_all add: calculate_prescaler_def prescaler_flag_valid prescaler_flag_invalid del: upt_rec_numeral)
  qed
  show ?thesis
    by (intro conjI e calculate_prescaler_none)
qed

section \<open>The streams of a device\<close>

lemma andthen_ok: "andthen r f = Inr w \<longleftrightarrow> (\<exists>v. r = Inr v \<and> f v = Inr w)"
  by (cases r) (simp_all add: andthen_def)

lemma made_device:
  assumes "Inr dev \<in> {make_spi_hardware_nss m p baud sck miso mosi nss c rx tx, make_spi_software_nss m p baud sck miso mosi c rx tx}"
  shows "sd_peripheral dev = p" "dma_entries (spi_dma_peripheral p) [rx, tx] = Inr (sd_dma dev)"
  using assms by (auto simp: make_spi_hardware_nss_def make_spi_software_nss_def andthen_ok eq_commute [of "Inr dev"])

lemma two_streams:
  assumes "dma_entries q [rx, tx] = Inr es"
  shows "\<exists>a b. es = [a, b] \<and> de_instance a = q \<and> de_instance b = q \<and> de_stream a = rx \<and> de_stream b = tx \<and>
    de_id a = 0 \<and> de_id b = 1 \<and> rx \<le> 16 \<and> tx \<le> 16"
  using assms by (auto simp: dma_entries_def split: if_splits)

lemma inscribe_two:
  assumes "inscribe_streams owner [a, b] d = Inr (js, d')"
  shows "js = [length (dx_storage d), Suc (length (dx_storage d))]" "dx_storage d' = dx_storage d @ [a, b]"
  using assms by (auto simp: map_sum_def split: sum.splits dest!: ctx_add_spec)

lemma inscribe_spi_entry:
  assumes "inscribe_spi owner pin_owner dev (g, d, s) = Inr (g', d', s')"
  shows "\<exists>e. dx_storage s' = dx_storage s @ [e] \<and> se_peripheral e = sd_peripheral dev \<and>
    (\<exists>js. inscribe_streams owner (sd_dma dev) d = Inr (js, d') \<and> se_rx e = js ! 0 \<and> se_tx e = js ! 1)"
proof -
  obtain js d1 where j: "inscribe_streams owner (sd_dma dev) d = Inr (js, d1)"
    using assms by (auto simp: inscribe_spi_def andthen_ok)
  then show ?thesis using assms
    by (auto simp: inscribe_spi_def andthen_ok dest!: ctx_add_spec)
qed

fun spi_requests :: "spi_peripheral \<Rightarrow> (dma_request \<times> dma_request) option" where
  "spi_requests SPI_1 = Some (DMA_REQUEST_SPI1_RX, DMA_REQUEST_SPI1_TX)"
| "spi_requests SPI_2 = Some (DMA_REQUEST_SPI2_RX, DMA_REQUEST_SPI2_TX)"
| "spi_requests SPI_3 = Some (DMA_REQUEST_SPI3_RX, DMA_REQUEST_SPI3_TX)"
| "spi_requests SPI_4 = Some (DMA_REQUEST_SPI4_RX, DMA_REQUEST_SPI4_TX)"
| "spi_requests SPI_5 = Some (DMA_REQUEST_SPI5_RX, DMA_REQUEST_SPI5_TX)"
| "spi_requests SPI_6 = None"

definition spi_stream_ok :: "dma_config \<Rightarrow> nat \<Rightarrow> dma_request \<Rightarrow> dma_direction \<Rightarrow> bool" where
  "spi_stream_ok c wanted rq dir \<longleftrightarrow>
     Request (dc_init c) = rq \<and> Direction (dc_init c) = dir \<and> dma_init.Mode (dc_init c) = DMA_NORMAL \<and> dc_nvic c \<and>
     (wanted \<noteq> 0 \<longrightarrow> dc_stream c = wanted)"

lemma spi_streams_setup:
  "init_of (spi_dma_peripheral p) 0 = Inr di \<Longrightarrow> \<exists>r. map_option fst (spi_requests p) = Some r \<and> Request di = r \<and>
     Direction di = DMA_PERIPH_TO_MEMORY \<and> dma_init.Mode di = DMA_NORMAL"
  "init_of (spi_dma_peripheral p) 1 = Inr di \<Longrightarrow> \<exists>r. map_option snd (spi_requests p) = Some r \<and> Request di = r \<and>
     Direction di = DMA_MEMORY_TO_PERIPH \<and> dma_init.Mode di = DMA_NORMAL"
  by (cases p; clarsimp simp: init_of_def get_Direction_def get_Mode_def is_spi_def is_i2c_def is_fmac_def is_none_def
        is_one_of_def)+

lemma stream_of_entry:
  assumes "kept a b" "config_of b c" "de_instance a = spi_dma_peripheral p"
  shows "de_id a = 0 \<Longrightarrow> \<exists>r. map_option fst (spi_requests p) = Some r \<and> spi_stream_ok c (de_stream a) r DMA_PERIPH_TO_MEMORY"
    and "de_id a = 1 \<Longrightarrow> \<exists>r. map_option snd (spi_requests p) = Some r \<and> spi_stream_ok c (de_stream a) r DMA_MEMORY_TO_PERIPH"
proof -
  have c: "init_of (spi_dma_peripheral p) (de_id a) = Inr (dc_init c)" "de_stream a \<noteq> 0 \<longrightarrow> dc_stream c = de_stream a"
      "dc_nvic c = get_NVICEnabled (spi_dma_peripheral p) (de_id a)"
    using assms by (auto simp: kept_def config_of_def)
  have nvic: "dc_nvic c" unfolding c(3) get_NVICEnabled_def is_adc_def is_one_of_def by (cases p) simp_all
  show "de_id a = 0 \<Longrightarrow> \<exists>r. map_option fst (spi_requests p) = Some r \<and> spi_stream_ok c (de_stream a) r DMA_PERIPH_TO_MEMORY"
    using spi_streams_setup(1) [of p "dc_init c"] c nvic by (auto simp: spi_stream_ok_def)
  show "de_id a = 1 \<Longrightarrow> \<exists>r. map_option snd (spi_requests p) = Some r \<and> spi_stream_ok c (de_stream a) r DMA_MEMORY_TO_PERIPH"
    using spi_streams_setup(2) [of p "dc_init c"] c nvic by (auto simp: spi_stream_ok_def)
qed

text \<open>C28. The streams of an SPI: on a board that compiles, whatever devices come before and after it, the
  device has two different streams, the one of the reception carries the request of its own
  peripheral from the peripheral to the memory, the other the one of the transmission back; both have
  an interrupt and are the streams that were asked for. No such board has a device on the sixth
  peripheral, which has no requests.\<close>

theorem spi_streams_own_requests:
  assumes made: "Inr dev \<in> {make_spi_hardware_nss m p baud sck miso mosi nss c rx tx,
      make_spi_software_nss m p baud sck miso mosi c rx tx}"
    and inscribed: "inscribe_spi owner pin_owner dev (g, d, s) = Inr (g', d', s')"
    and streams: "list_all (\<lambda>e. de_stream e \<le> 16) (dx_storage d @ after)"
    and built: "build_dma (length (dx_storage d' @ after)) (dx_storage d' @ after) = Inr cs"
  shows "\<exists>e rx_request tx_request. dx_storage s' = dx_storage s @ [e] \<and> se_peripheral e = p \<and>
    spi_requests p = Some (rx_request, tx_request) \<and> se_rx e \<noteq> se_tx e \<and> se_rx e < length cs \<and> se_tx e < length cs \<and>
    spi_stream_ok (cs ! se_rx e) rx rx_request DMA_PERIPH_TO_MEMORY \<and>
    spi_stream_ok (cs ! se_tx e) tx tx_request DMA_MEMORY_TO_PERIPH"
proof -
  let ?n = "length (dx_storage d)"
  obtain a b where ab: "sd_dma dev = [a, b]" "de_instance a = spi_dma_peripheral p" "de_instance b = spi_dma_peripheral p"
      "de_stream a = rx" "de_stream b = tx" "de_id a = 0" "de_id b = 1" "rx \<le> 16" "tx \<le> 16"
    using two_streams [OF made_device(2) [OF made]] by auto
  obtain e js where e: "dx_storage s' = dx_storage s @ [e]" "se_peripheral e = p"
      "inscribe_streams owner (sd_dma dev) d = Inr (js, d')" "se_rx e = js ! 0" "se_tx e = js ! 1"
    using inscribe_spi_entry [OF inscribed] made_device(1) [OF made] by auto
  note js = inscribe_two [OF e(3) [unfolded ab(1)]]
  define es where "es = dx_storage d' @ after"
  have es: "es = dx_storage d @ [a, b] @ after" using js by (simp add: es_def)
  have at: "se_rx e = ?n" "se_tx e = Suc ?n" "es ! ?n = a" "es ! Suc ?n = b" "Suc ?n < length es"
    using js e(4,5) es by (simp_all add: nth_append)
  have "list_all (\<lambda>e. de_stream e \<le> 16) es" using streams ab by (simp add: es)
  from build_dma_passes(2) [OF this built [folded es_def]]
  obtain ents where k: "list_all2 kept es ents" "list_all2 config_of ents cs" by blast
  have len: "length ents = length es" "length cs = length es"
    using list_all2_lengthD [OF k(1)] list_all2_lengthD [OF k(2)] by simp_all
  have both: "kept (es ! i) (ents ! i)" "config_of (ents ! i) (cs ! i)" if "i < length es" for i
    using k len that by (auto simp: list_all2_conv_all_nth)
  have rx: "\<exists>r. map_option fst (spi_requests p) = Some r \<and> spi_stream_ok (cs ! ?n) rx r DMA_PERIPH_TO_MEMORY"
    using stream_of_entry(1) [OF both, of ?n p] at ab by simp
  have tx: "\<exists>r. map_option snd (spi_requests p) = Some r \<and> spi_stream_ok (cs ! Suc ?n) tx r DMA_MEMORY_TO_PERIPH"
    using stream_of_entry(2) [OF both, of "Suc ?n" p] at ab by simp
  show ?thesis using rx tx e(1,2) at len by auto
qed

section \<open>What the parts of an operation change\<close>

lemma spi_do_fields [simp]:
  "ss_instances (spi_do c s) = ss_instances s" "ss_table (spi_do c s) = ss_table s" "ss_flags (spi_do c s) = ss_flags s"
  "ss_dma (spi_do c s) = ss_dma s" "ss_parents (spi_do c s) = ss_parents s" "ss_panics (spi_do c s) = ss_panics s"
  "ss_calls (spi_do c s) = ss_calls s @ [c]"
  by (simp_all add: spi_do_def)

lemma spi_panics_fields [simp]:
  "ss_instances (spi_panics ms s) = ss_instances s" "ss_table (spi_panics ms s) = ss_table s"
  "ss_flags (spi_panics ms s) = ss_flags s" "ss_dma (spi_panics ms s) = ss_dma s"
  "ss_parents (spi_panics ms s) = ss_parents s" "ss_calls (spi_panics ms s) = ss_calls s"
  by (simp_all add: spi_panics_def)

lemma on_spi_fields [simp]:
  "ss_instances (on_spi i f s) = (ss_instances s)[i := f (ss_instances s ! i)]" "ss_table (on_spi i f s) = ss_table s"
  "ss_flags (on_spi i f s) = ss_flags s" "ss_dma (on_spi i f s) = ss_dma s" "ss_calls (on_spi i f s) = ss_calls s"
  by (simp_all add: on_spi_def)

lemma find_handle_registered: "find_handle ts i = (if Some i \<in> set ts then Some i else None)"
  by (induction ts) auto

section \<open>The transfers with DMA\<close>

inductive dma_call :: "spi_hal \<Rightarrow> nat \<Rightarrow> nat option \<Rightarrow> spi_state \<Rightarrow> bool \<times> spi_state \<Rightarrow> bool" for hal i flag s where
  send: "dma_call hal i flag s (spi_send_DMA hal bits i addr bytes flag s)"
| receive: "dma_call hal i flag s (spi_receive_DMA hal bits i addr bytes flag s)"
| transceive: "dma_call hal i flag s (spi_transceive_DMA hal bits i tx tx_bytes rx rx_bytes flag s)"
| listen: "dma_call hal i flag s (spi_listen hal bits i addr bytes flag s)"
| arm: "dma_call hal i flag s (spi_arm hal bits i addr bytes flag s)"
| slave: "dma_call hal i flag s (slave_transceive hal bits i tx tx_bytes rx rx_bytes flag s)"

inductive blocking_call :: "spi_hal \<Rightarrow> nat \<Rightarrow> spi_state \<Rightarrow> bool \<times> spi_state \<Rightarrow> bool" for hal i s where
  send: "blocking_call hal i s (spi_send hal bits i addr bytes s)"
| receive: "blocking_call hal i s (spi_receive hal bits i addr bytes s)"
| transceive: "blocking_call hal i s (spi_transceive hal bits i tx tx_bytes rx rx_bytes s)"

text \<open>A step of the instance \<open>i\<close>: an operation of the user or an interrupt.\<close>

inductive spi_step :: "spi_hal \<Rightarrow> nat \<Rightarrow> spi_state \<Rightarrow> spi_state \<Rightarrow> bool" for hal i s where
  dma: "dma_call hal i flag s (ok, s') \<Longrightarrow> spi_step hal i s s'"
| blocking: "blocking_call hal i s (ok, s') \<Longrightarrow> spi_step hal i s s'"
| nss: "spi_step hal i s (set_software_nss i selected s)"
| recover: "spi_step hal i s (abort_and_recover hal i s)"
| clear: "spi_step hal i s (clear_abort_flag i s)"
| irq: "ss_table s ! k = Some i \<Longrightarrow> spi_step hal i s (spi_irq_handler k s)"
| tx_complete: "spi_step hal i s (HAL_SPI_TxCpltCallback i s)"
| rx_complete: "spi_step hal i s (HAL_SPI_RxCpltCallback i s)"
| both_complete: "spi_step hal i s (HAL_SPI_TxRxCpltCallback i s)"
| error: "spi_step hal i s (HAL_SPI_ErrorCallback hal i s)"

lemma spi_transfer_fields:
  assumes "spi_transfer hal bits bytes call s = (ok, s')"
  shows "ss_instances s' = ss_instances s" "ss_table s' = ss_table s" "ss_flags s' = ss_flags s"
  using assms by (auto simp: spi_transfer_def check_error_code_def Let_def split: if_splits)

lemma dma_call_transfer:
  assumes "dma_call hal i flag s r"
  shows "\<exists>bits bytes call. r = spi_transfer hal bits bytes call (with_flag i flag s)"
  using assms
  by cases (auto simp: spi_send_DMA_def spi_receive_DMA_def spi_transceive_DMA_def spi_listen_def spi_arm_def slave_transceive_def)

lemma dma_call_fields:
  assumes "dma_call hal i flag s (ok, s')"
  shows "ss_instances s' = (ss_instances s)[i := (ss_instances s ! i)\<lparr>si_flag := flag\<rparr>]" "ss_table s' = ss_table s"
    and "ss_flags s' = ss_flags s"
proof -
  obtain bits bytes call where "spi_transfer hal bits bytes call (with_flag i flag s) = (ok, s')"
    using dma_call_transfer [OF assms] by metis
  from spi_transfer_fields [OF this]
  show "ss_instances s' = (ss_instances s)[i := (ss_instances s ! i)\<lparr>si_flag := flag\<rparr>]" "ss_table s' = ss_table s"
    "ss_flags s' = ss_flags s" by (simp_all add: with_flag_def)
qed

lemma blocking_call_fields:
  assumes "blocking_call hal i s (ok, s')"
  shows "ss_instances s' = ss_instances s" "ss_table s' = ss_table s" "ss_flags s' = ss_flags s"
proof -
  have "\<exists>bits bytes call. (ok, s') = spi_transfer hal bits bytes call s"
    using assms by cases (auto simp: spi_send_def spi_receive_def spi_transceive_def)
  then obtain bits bytes call where "spi_transfer hal bits bytes call s = (ok, s')" by metis
  from spi_transfer_fields [OF this]
  show "ss_instances s' = ss_instances s" "ss_table s' = ss_table s" "ss_flags s' = ss_flags s" by simp_all
qed

lemma spi_recover_fields:
  assumes "spi_recover hal i s = (ok, s')"
  shows "ss_instances s' = (ss_instances s)[i := (ss_instances s ! i)\<lparr>si_errors := si_errors (ss_instances s ! i) + 1,
      si_aborted := True, si_flag := None\<rparr>]" "ss_table s' = ss_table s" "ss_flags s' = ss_flags s"
  using assms by (auto simp: spi_recover_def Let_def split: if_splits)

lemma complete_fields:
  assumes "Some i \<in> set (ss_table s)"
  shows "ss_instances (HAL_SPI_TxCpltCallback i s) = (ss_instances s)[i := (ss_instances s ! i)\<lparr>si_flag := None\<rparr>]"
    and "ss_table (HAL_SPI_TxCpltCallback i s) = ss_table s"
    and "ss_flags (HAL_SPI_TxCpltCallback i s) =
      (case si_flag (ss_instances s ! i) of None \<Rightarrow> ss_flags s | Some f \<Rightarrow> (ss_flags s)(f := True))"
  using assms
  by (auto simp: HAL_SPI_TxCpltCallback_def find_handle_registered split: option.split)
     (metis (full_types) list_update_id spi_instance.surjective spi_instance.update_convs(2))

lemma complete_unregistered:
  assumes "Some i \<notin> set (ss_table s)"
  shows "HAL_SPI_TxCpltCallback i s = spi_panics [''SPI IRQ Callback called but instance is null''] s"
  using assms by (simp add: HAL_SPI_TxCpltCallback_def find_handle_registered)

text \<open>A step of another instance leaves this one as it is, and sets no flag but its own.\<close>

lemma spi_step_frame:
  assumes "spi_step hal j s s'"
  shows "ss_table s' = ss_table s" "length (ss_instances s') = length (ss_instances s)"
    and "i \<noteq> j \<Longrightarrow> ss_instances s' ! i = ss_instances s ! i"
    and "ss_flags s' f \<noteq> ss_flags s f \<Longrightarrow> ss_flags s' f \<and> si_flag (ss_instances s ! j) = Some f"
proof -
  have complete: "ss_table (HAL_SPI_TxCpltCallback j s) = ss_table s \<and>
    length (ss_instances (HAL_SPI_TxCpltCallback j s)) = length (ss_instances s) \<and>
    (i \<noteq> j \<longrightarrow> ss_instances (HAL_SPI_TxCpltCallback j s) ! i = ss_instances s ! i) \<and>
    (ss_flags (HAL_SPI_TxCpltCallback j s) f \<noteq> ss_flags s f \<longrightarrow>
      ss_flags (HAL_SPI_TxCpltCallback j s) f \<and> si_flag (ss_instances s ! j) = Some f)"
    by (cases "Some j \<in> set (ss_table s)") (auto simp: complete_fields complete_unregistered split: option.splits if_splits)
  have "ss_table s' = ss_table s \<and> length (ss_instances s') = length (ss_instances s) \<and>
    (i \<noteq> j \<longrightarrow> ss_instances s' ! i = ss_instances s ! i) \<and>
    (ss_flags s' f \<noteq> ss_flags s f \<longrightarrow> ss_flags s' f \<and> si_flag (ss_instances s ! j) = Some f)"
    using assms
  proof cases
    case (dma flag ok)
    then show ?thesis by (simp add: dma_call_fields [OF dma])
  next
    case (blocking ok)
    then show ?thesis by (simp add: blocking_call_fields [OF blocking])
  next
    case recover
    obtain ok t where "spi_recover hal j s = (ok, t)" by fastforce
    then show ?thesis using recover spi_recover_fields by (simp add: abort_and_recover_def)
  next
    case error
    obtain ok t where "spi_recover hal j s = (ok, t)" by fastforce
    then show ?thesis using error spi_recover_fields
      by (simp add: HAL_SPI_ErrorCallback_def find_handle_registered)
  qed (use complete in \<open>auto simp add: set_software_nss_def clear_abort_flag_def spi_irq_handler_def HAL_SPI_RxCpltCallback_def
      HAL_SPI_TxRxCpltCallback_def\<close>)
  then show "ss_table s' = ss_table s" "length (ss_instances s') = length (ss_instances s)"
    "i \<noteq> j \<Longrightarrow> ss_instances s' ! i = ss_instances s ! i"
    "ss_flags s' f \<noteq> ss_flags s f \<Longrightarrow> ss_flags s' f \<and> si_flag (ss_instances s ! j) = Some f"
    by blast+
qed

text \<open>The other instances run for a while.\<close>

inductive others_run :: "spi_hal \<Rightarrow> nat \<Rightarrow> spi_state \<Rightarrow> spi_state \<Rightarrow> bool" for hal i s where
  none: "others_run hal i s s"
| step: "others_run hal i s t \<Longrightarrow> j \<noteq> i \<Longrightarrow> spi_step hal j t u \<Longrightarrow> others_run hal i s u"

lemma others_run_frame:
  assumes "others_run hal i s t"
  shows "ss_table t = ss_table s \<and> length (ss_instances t) = length (ss_instances s) \<and> ss_instances t ! i = ss_instances s ! i"
  using assms by induction (simp_all add: spi_step_frame)

definition registered :: "nat \<Rightarrow> spi_state \<Rightarrow> bool" where
  "registered i s \<longleftrightarrow> Some i \<in> set (ss_table s) \<and> i < length (ss_instances s)"

lemma registered_kept:
  "dma_call hal i flag s (ok, s') \<Longrightarrow> registered i s \<Longrightarrow> registered i s'"
  "others_run hal i s t \<Longrightarrow> registered i s \<Longrightarrow> registered i t"
  by (auto simp: registered_def dma_call_fields dest: others_run_frame)

text \<open>After a call with a flag the instance holds it, whatever the others do and whatever the call returns.\<close>

lemma flag_held:
  assumes "registered i s" "dma_call hal i flag s (ok, s1)" "others_run hal i s1 s2"
  shows "registered i s2" "si_flag (ss_instances s2 ! i) = flag"
  using registered_kept(2) [OF assms(3) registered_kept(1) [OF assms(2,1)]] others_run_frame [OF assms(3)]
    dma_call_fields(1) [OF assms(2)] assms(1) by (auto simp: registered_def)

lemma completion_of_flag:
  assumes "registered i s" "si_flag (ss_instances s ! i) = Some f"
  shows "ss_flags (HAL_SPI_TxCpltCallback i s) = (ss_flags s)(f := True)"
    "si_flag (ss_instances (HAL_SPI_TxCpltCallback i s) ! i) = None" "registered i (HAL_SPI_TxCpltCallback i s)"
  using assms complete_fields [of i s] by (simp_all add: registered_def)



text \<open>C30. A call that is refused takes the flag away: when a transfer with a flag runs and another call on the same
  peripheral is refused, because the peripheral is busy or the size is no multiple of the frame, the
  completion of the running transfer sets the flag of the refused call; its own flag stays as it was.\<close>

theorem refused_call_takes_flag:
  assumes "registered i s" "si_flag (ss_instances s ! i) = Some f" "dma_call hal i (Some g) s (False, s1)" "f \<noteq> g"
    "others_run hal i s1 s2"
  shows "ss_flags (HAL_SPI_TxCpltCallback i s2) g \<and> ss_flags (HAL_SPI_TxCpltCallback i s2) f = ss_flags s2 f \<and>
    si_flag (ss_instances (HAL_SPI_TxCpltCallback i s2) ! i) = None"
  using completion_of_flag [OF flag_held [OF assms(1,3,5)]] assms(4) by simp

section \<open>After the initialization\<close>



lemma spi_setup_fields [simp]:
  "ss_table (spi_clock_setup hal p s) = ss_table s" "ss_instances (spi_clock_setup hal p s) = ss_instances s"
  "ss_table (spi_dma_setup i e s) = ss_table s"
  "ss_instances (spi_dma_setup i e s) = (ss_instances s)[i := (ss_instances s ! i)\<lparr>si_rx := Some (se_rx e), si_tx := Some (se_tx e)\<rparr>]"
  by (simp_all add: spi_clock_setup_def spi_dma_setup_def Let_def)







lemma spi_index_inject [simp]: "spi_index p = spi_index q \<longleftrightarrow> p = q"
  by (cases p; cases q) simp_all






section \<open>Concrete devices\<close>

definition demo_spi_config :: spi_config where
  "demo_spi_config = default_spi_config\<lparr>cf_nss := NSS_SOFTWARE\<rparr>"

definition demo_spi :: "spi_peripheral \<Rightarrow> Pin \<Rightarrow> Pin \<Rightarrow> Pin \<Rightarrow> spi_device" where
  "demo_spi p sck miso mosi =
     (case make_spi_software_nss True p 10000000 sck miso mosi demo_spi_config 0 0 of Inr dev \<Rightarrow> dev | Inl _ \<Rightarrow> undefined)"

definition demo_spi1 :: spi_device where
  "demo_spi1 = \<lparr>sd_peripheral = SPI_1, sd_master = True, sd_baud = 10000000, sd_config = demo_spi_config,
     sd_sck = \<lparr>ge_port = PA, ge_pin = 0x20, ge_mode = ALT_PP, ge_pull = Pull_None, ge_speed = VeryHigh, ge_af = AF5\<rparr>,
     sd_miso = \<lparr>ge_port = PA, ge_pin = 0x40, ge_mode = ALT_PP, ge_pull = Pull_None, ge_speed = VeryHigh, ge_af = AF5\<rparr>,
     sd_mosi = \<lparr>ge_port = PA, ge_pin = 0x80, ge_mode = ALT_PP, ge_pull = Pull_None, ge_speed = VeryHigh, ge_af = AF5\<rparr>,
     sd_nss = None,
     sd_dma = [\<lparr>de_instance = spi1, de_stream = 3, de_irqn = DMA1_Stream_IRQn 2, de_id = 0\<rparr>,
               \<lparr>de_instance = spi1, de_stream = 0, de_irqn = No_IRQn, de_id = 1\<rparr>]\<rparr>"

lemma demo_spi1_made:
  "make_spi_software_nss True SPI_1 10000000 (PIN PA 5) (PIN PA 6) (PIN PA 7) demo_spi_config 3 0 = Inr demo_spi1"
  by code_simp

definition empty_ctx :: "'e domain_ctx" where
  "empty_ctx = \<lparr>dx_storage = [], dx_owners = []\<rparr>"

definition demo_spi_entry :: spi_entry where
  "demo_spi_entry = \<lparr>se_peripheral = SPI_1, se_master = True, se_sck = 0, se_miso = 1, se_mosi = 2, se_nss = None, se_rx = 0,
     se_tx = 1, se_baud = 10000000, se_config = demo_spi_config\<rparr>"

lemma demo_spi_inscribed:
  "inscribe_spi 7 (\<lambda>k. 10 + k) demo_spi1 (empty_ctx, empty_ctx, empty_ctx) =
     Inr (\<lparr>dx_storage = [sd_sck demo_spi1, sd_miso demo_spi1, sd_mosi demo_spi1], dx_owners = [10, 11, 12]\<rparr>,
          \<lparr>dx_storage = sd_dma demo_spi1, dx_owners = [7, 7]\<rparr>, \<lparr>dx_storage = [demo_spi_entry], dx_owners = [7]\<rparr>)"
  by code_simp

definition demo_spi_streams :: "dma_config list" where
  "demo_spi_streams = (case build_dma 2 (sd_dma demo_spi1) of Inr cs \<Rightarrow> cs | Inl _ \<Rightarrow> [])"

lemma demo_spi_dma_built: "build_dma 2 (sd_dma demo_spi1) = Inr demo_spi_streams"
  by code_simp

lemma spi_streams_own_requests_witness:
  "\<exists>e rx_request tx_request. [demo_spi_entry] = [] @ [e] \<and> se_peripheral e = SPI_1 \<and>
    spi_requests SPI_1 = Some (rx_request, tx_request) \<and> se_rx e \<noteq> se_tx e \<and> se_rx e < length demo_spi_streams \<and>
    se_tx e < length demo_spi_streams \<and> spi_stream_ok (demo_spi_streams ! se_rx e) 3 rx_request DMA_PERIPH_TO_MEMORY \<and>
    spi_stream_ok (demo_spi_streams ! se_tx e) 0 tx_request DMA_MEMORY_TO_PERIPH"
proof -
  let ?d = "\<lparr>dx_storage = sd_dma demo_spi1, dx_owners = [7, 7]\<rparr> :: dma_entry domain_ctx"
  have "Inr demo_spi1 \<in> {make_spi_hardware_nss True SPI_1 10000000 (PIN PA 5) (PIN PA 6) (PIN PA 7) (PIN PA 4) demo_spi_config 3 0,
      make_spi_software_nss True SPI_1 10000000 (PIN PA 5) (PIN PA 6) (PIN PA 7) demo_spi_config 3 0}"
    by (simp add: demo_spi1_made)
  moreover have "list_all (\<lambda>e. de_stream e \<le> 16) (dx_storage empty_ctx @ [])" by (simp add: empty_ctx_def)
  moreover have "length (sd_dma demo_spi1) = 2" by (simp add: demo_spi1_def)
  then have "build_dma (length (dx_storage ?d @ [])) (dx_storage ?d @ []) = Inr demo_spi_streams"
    using demo_spi_dma_built by simp
  ultimately show ?thesis
    using spi_streams_own_requests [OF _ demo_spi_inscribed] unfolding empty_ctx_def domain_ctx.simps by blast
qed

text \<open>Two devices, the first with a transfer that runs and holds the flag 5.\<close>

definition demo_instance :: "spi_peripheral \<Rightarrow> nat option \<Rightarrow> spi_instance" where
  "demo_instance p flag = \<lparr>si_peripheral = Some p, si_flag = flag, si_errors = 0, si_aborted = False, si_rx = Some 0, si_tx = Some 1,
     si_init = None\<rparr>"

definition demo_spi_state :: "nat option \<Rightarrow> spi_state" where
  "demo_spi_state flag = (initial_spi 2 [])\<lparr>ss_instances := [demo_instance SPI_1 flag, demo_instance SPI_2 None],
     ss_table := [Some 0, Some 1, None, None, None, None]\<rparr>"

definition busy :: spi_hal where
  "busy calls = STATUS_BUSY"

definition accepting :: spi_hal where
  "accepting calls = STATUS_OK"

lemma demo_registered: "registered 0 (demo_spi_state flag)"
  by (simp add: registered_def demo_spi_state_def)

definition demo_accepted :: spi_state where
  "demo_accepted = snd (spi_send_DMA accepting 8 0 200 16 (Some 5) (demo_spi_state None))"

definition demo_refused :: spi_state where
  "demo_refused = snd (spi_receive_DMA busy 8 0 200 16 (Some 6) (demo_spi_state (Some 5)))"

lemma demo_calls:
  "dma_call accepting 0 (Some 5) (demo_spi_state None) (True, demo_accepted)"
  "dma_call busy 0 (Some 6) (demo_spi_state (Some 5)) (False, demo_refused)"
proof -
  have "spi_send_DMA accepting 8 0 200 16 (Some 5) (demo_spi_state None) = (True, demo_accepted)"
    by (simp add: demo_accepted_def spi_send_DMA_def spi_transfer_def frame_size_def check_error_code_def accepting_def Let_def)
  then show "dma_call accepting 0 (Some 5) (demo_spi_state None) (True, demo_accepted)"
    using dma_call.send [of accepting 0 "Some 5" "demo_spi_state None" 8 200 16] by simp
  have "spi_receive_DMA busy 8 0 200 16 (Some 6) (demo_spi_state (Some 5)) = (False, demo_refused)"
    by (simp add: demo_refused_def spi_receive_DMA_def spi_transfer_def frame_size_def check_error_code_def busy_def Let_def)
  then show "dma_call busy 0 (Some 6) (demo_spi_state (Some 5)) (False, demo_refused)"
    using dma_call.receive [of busy 0 "Some 6" "demo_spi_state (Some 5)" 8 200 16] by simp
qed

lemma demo_other_completes: "others_run hal 0 s (HAL_SPI_RxCpltCallback 1 s)"
  by (rule others_run.step [OF others_run.none, of 1]) (simp_all add: spi_step.rx_complete)


lemma refused_call_takes_flag_witness:
  "ss_flags (HAL_SPI_TxCpltCallback 0 (HAL_SPI_RxCpltCallback 1 demo_refused)) 6 \<and>
   ss_flags (HAL_SPI_TxCpltCallback 0 (HAL_SPI_RxCpltCallback 1 demo_refused)) 5 = ss_flags (HAL_SPI_RxCpltCallback 1 demo_refused) 5"
proof -
  have "si_flag (ss_instances (demo_spi_state (Some 5)) ! 0) = Some 5" by (simp add: demo_spi_state_def demo_instance_def)
  then show ?thesis
    using refused_call_takes_flag [OF demo_registered _ demo_calls(2) _ demo_other_completes, of 5] by simp
qed



end
