(* ===== verification/Timers.thy ===== *)
theory Timers
  imports Gpio
begin

unbundle bit_operations_syntax

text \<open>
  The timers of a board (\<open>Inc/HALAL/Models/TimerDomain/TimerDomain.hpp\<close>, \<open>Src/HALAL/Models/TimerDomain/TimerDomain.cpp\<close>): the
  requests, the pins a timer may have, the assignment of the timers, which is computed while the board is compiled,
  the initialization, the interrupts with their callbacks, and the input capture, with what \<open>TimerWrapper.hpp\<close> and
  \<open>InputCapture.hpp\<close> write to the tables of the domain.

  A request is the value of its enumerator. A \<open>compile_error\<close> is \<open>Inl\<close>.
\<close>

section \<open>Requests and pins\<close>

definition AnyGeneralPurpose :: nat where
  "AnyGeneralPurpose = 0"

definition Any32bit :: nat where
  "Any32bit = 0xFF"

definition SCHEDULER_TIMER_DOMAIN :: nat where
  "SCHEDULER_TIMER_DOMAIN = 2"

datatype SelectionTrigger1 =
    Trgo_Reset | Trgo_Enable | Trgo_Update | Trgo_General_Compare | Trgo_Compare_channel1 | Trgo_Compare_channel2
  | Trgo_Compare_channel3 | Trgo_Compare_channel4

datatype SelectionTrigger2 =
    Trgo2_Reset | Trgo2_Enable | Trgo2_Update | Trgo2_General_Compare | Trgo2_Compare_channel1 | Trgo2_Compare_channel2
  | Trgo2_Compare_channel3 | Trgo2_Compare_channel4 | Trgo2_Compare_channel5 | Trgo2_Compare_channel6
  | Trgo2_Compare_channel4_R_channel6_F | Trgo2_Compare_channel4_R_channel6_R
  | Trgo2_Compare_channel5_R_channel6_F | Trgo2_Compare_channel5_R_channel6_R

datatype TimerAF = TimerAF_None | TimerAF_PWM | TimerAF_Encoder | TimerAF_InputCapture | TimerAF_BreakInput
  | TimerAF_BreakInputCompare

datatype TimerChannel =
    CHANNEL_1 | CHANNEL_2 | CHANNEL_3 | CHANNEL_4 | CHANNEL_5 | CHANNEL_6 | CHANNEL_NEGATED_FLAG
  | CHANNEL_1_NEGATED | CHANNEL_2_NEGATED | CHANNEL_3_NEGATED | CHANNEL_4_NEGATED

fun channel_value :: "TimerChannel \<Rightarrow> nat" where
  "channel_value CHANNEL_1 = 1"
| "channel_value CHANNEL_2 = 2"
| "channel_value CHANNEL_3 = 3"
| "channel_value CHANNEL_4 = 4"
| "channel_value CHANNEL_5 = 5"
| "channel_value CHANNEL_6 = 6"
| "channel_value CHANNEL_NEGATED_FLAG = 8"
| "channel_value CHANNEL_1_NEGATED = 9"
| "channel_value CHANNEL_2_NEGATED = 10"
| "channel_value CHANNEL_3_NEGATED = 11"
| "channel_value CHANNEL_4_NEGATED = 12"

record timer_pin =
  tp_af :: TimerAF
  tp_pin :: Pin
  tp_channel :: TimerChannel

text \<open>The map from the number of a timer to its index; \<open>255\<close> is the \<open>uint8_t\<close> of \<open>-1\<close>.\<close>

definition timer_idxmap :: "nat list" where
  "timer_idxmap =
     [255, 14, 0, 1, 2, 3, 12, 13, 15, 255, 255, 255, 6, 7, 8, 9, 10, 11, 255, 255, 255, 255, 255, 4, 5]"

text \<open>The timer of an index, by its number.\<close>

definition cmsis_timers :: "nat list" where
  "cmsis_timers = [2, 3, 4, 5, 23, 24, 12, 13, 14, 15, 16, 17, 6, 7, 1, 8]"

datatype rcc_register = APB1LENR | APB1HENR | APB2ENR

text \<open>\<open>TimerXList\<close>, which \<open>rcc_enable_timer\<close> goes through.\<close>

definition rcc_enable_timer :: "nat \<Rightarrow> rcc_register option" where
  "rcc_enable_timer n =
     (if n \<in> set [2, 3, 4, 5, 6, 7, 12, 13, 14] then Some APB1LENR
      else if n \<in> set [23, 24] then Some APB1HENR
      else if n \<in> set [1, 8, 15, 16, 17] then Some APB2ENR
      else None)"

fun get_operation_mode :: "TimerAF \<Rightarrow> OperationMode" where
  "get_operation_mode TimerAF_None = INPUT"
| "get_operation_mode TimerAF_PWM = ALT_PP"
| "get_operation_mode TimerAF_Encoder = ALT_PP"
| "get_operation_mode TimerAF_InputCapture = ALT_PP"
| "get_operation_mode TimerAF_BreakInput = OUTPUT_OPENDRAIN"
| "get_operation_mode TimerAF_BreakInputCompare = OUTPUT_OPENDRAIN"

definition get_pull :: "TimerAF \<Rightarrow> Pull" where
  "get_pull af = (if af = TimerAF_Encoder then Pull_Up else Pull_None)"

definition get_speed :: "TimerAF \<Rightarrow> Speed" where
  "get_speed af = Low"

datatype timer_use =
    Channel_1 | Channel_2 | Channel_3 | Channel_4
  | Channel_1_Negated | Channel_2_Negated | Channel_3_Negated | Channel_4_Negated
  | ExternalTriggerFilter | BreakInput_1 | BreakInput_2 | BreakInputCompare_1 | BreakInputCompare_2

fun use_value :: "timer_use \<Rightarrow> nat" where
  "use_value Channel_1 = 1"
| "use_value Channel_2 = 2"
| "use_value Channel_3 = 3"
| "use_value Channel_4 = 4"
| "use_value Channel_1_Negated = 9"
| "use_value Channel_2_Negated = 10"
| "use_value Channel_3_Negated = 11"
| "use_value Channel_4_Negated = 12"
| "use_value ExternalTriggerFilter = 13"
| "use_value BreakInput_1 = 14"
| "use_value BreakInput_2 = 15"
| "use_value BreakInputCompare_1 = 16"
| "use_value BreakInputCompare_2 = 17"

definition Tim1Pins :: "(Pin \<times> AlternateFunction \<times> timer_use) list" where
  "Tim1Pins =
     [(PIN PE 6, AF1, BreakInput_2), (PIN PE 6, AF12, BreakInputCompare_2), (PIN PA 6, AF1, BreakInput_1),
      (PIN PA 6, AF11, BreakInputCompare_1), (PIN PA 7, AF1, Channel_1_Negated),
      (PIN PB 0, AF1, Channel_2_Negated), (PIN PB 1, AF1, Channel_3_Negated),
      (PIN PE 7, AF1, ExternalTriggerFilter), (PIN PE 8, AF1, Channel_1_Negated),
      (PIN PE 9, AF1, Channel_1), (PIN PE 10, AF1, Channel_2_Negated), (PIN PE 11, AF1, Channel_2),
      (PIN PE 12, AF1, Channel_3_Negated), (PIN PE 13, AF1, Channel_3), (PIN PE 14, AF1, Channel_4),
      (PIN PE 15, AF1, BreakInput_1), (PIN PE 15, AF13, BreakInputCompare_1),
      (PIN PB 12, AF1, BreakInput_1), (PIN PB 12, AF13, BreakInputCompare_1),
      (PIN PB 13, AF1, Channel_1_Negated), (PIN PB 14, AF1, Channel_2_Negated),
      (PIN PB 15, AF1, Channel_3_Negated), (PIN PG 4, AF1, BreakInput_2),
      (PIN PG 4, AF11, BreakInputCompare_2), (PIN PG 5, AF1, ExternalTriggerFilter),
      (PIN PA 8, AF1, Channel_1), (PIN PA 9, AF1, Channel_2), (PIN PA 10, AF1, Channel_3),
      (PIN PA 11, AF1, Channel_4), (PIN PA 12, AF1, ExternalTriggerFilter), (PIN PA 12, AF12, BreakInput_2)]"

definition Tim2Pins :: "(Pin \<times> AlternateFunction \<times> timer_use) list" where
  "Tim2Pins =
     [(PIN PA 0, AF1, Channel_1), (PIN PA 0, AF1, ExternalTriggerFilter), (PIN PA 1, AF1, Channel_2),
      (PIN PA 2, AF1, Channel_3), (PIN PA 3, AF1, Channel_4), (PIN PA 5, AF1, Channel_1),
      (PIN PA 5, AF1, ExternalTriggerFilter), (PIN PA 15, AF1, Channel_1),
      (PIN PA 15, AF1, ExternalTriggerFilter), (PIN PB 3, AF1, Channel_2), (PIN PB 10, AF1, Channel_3),
      (PIN PB 11, AF1, Channel_4)]"

definition Tim3Pins :: "(Pin \<times> AlternateFunction \<times> timer_use) list" where
  "Tim3Pins =
     [(PIN PA 6, AF2, Channel_1), (PIN PA 7, AF2, Channel_2), (PIN PB 0, AF2, Channel_3),
      (PIN PB 1, AF2, Channel_4), (PIN PB 4, AF2, Channel_1), (PIN PB 5, AF2, Channel_2),
      (PIN PC 6, AF2, Channel_1), (PIN PC 7, AF2, Channel_2), (PIN PC 8, AF2, Channel_3),
      (PIN PC 9, AF2, Channel_4), (PIN PD 2, AF2, ExternalTriggerFilter)]"

definition Tim4Pins :: "(Pin \<times> AlternateFunction \<times> timer_use) list" where
  "Tim4Pins =
     [(PIN PB 6, AF2, Channel_1), (PIN PB 7, AF2, Channel_2), (PIN PB 8, AF2, Channel_3),
      (PIN PB 9, AF2, Channel_4), (PIN PD 12, AF2, Channel_1), (PIN PD 13, AF2, Channel_2),
      (PIN PD 14, AF2, Channel_3), (PIN PD 15, AF2, Channel_4), (PIN PE 0, AF2, ExternalTriggerFilter)]"

definition Tim5Pins :: "(Pin \<times> AlternateFunction \<times> timer_use) list" where
  "Tim5Pins =
     [(PIN PA 0, AF2, Channel_1), (PIN PA 1, AF2, Channel_2), (PIN PA 2, AF2, Channel_3),
      (PIN PA 3, AF2, Channel_4), (PIN PA 4, AF2, ExternalTriggerFilter)]"

definition Tim6Pins :: "(Pin \<times> AlternateFunction \<times> timer_use) list" where
  "Tim6Pins =
     [(PIN PA 0, NO_AF, Channel_1)]"

definition Tim7Pins :: "(Pin \<times> AlternateFunction \<times> timer_use) list" where
  "Tim7Pins =
     [(PIN PA 0, NO_AF, Channel_1)]"

definition Tim8Pins :: "(Pin \<times> AlternateFunction \<times> timer_use) list" where
  "Tim8Pins =
     [(PIN PA 0, AF3, ExternalTriggerFilter), (PIN PA 5, AF3, Channel_1_Negated),
      (PIN PA 6, AF3, BreakInput_1), (PIN PA 6, AF10, BreakInputCompare_1),
      (PIN PA 7, AF3, Channel_1_Negated), (PIN PA 8, AF3, BreakInput_2),
      (PIN PA 8, AF12, BreakInputCompare_2), (PIN PB 0, AF3, Channel_2_Negated),
      (PIN PB 1, AF3, Channel_3_Negated), (PIN PB 14, AF3, Channel_2_Negated),
      (PIN PB 15, AF3, Channel_3_Negated), (PIN PC 6, AF3, Channel_1), (PIN PC 7, AF3, Channel_2),
      (PIN PC 8, AF3, Channel_3), (PIN PC 9, AF3, Channel_4), (PIN PG 2, AF3, BreakInput_1),
      (PIN PG 2, AF11, BreakInputCompare_1), (PIN PG 3, AF3, BreakInput_2),
      (PIN PG 3, AF11, BreakInputCompare_2), (PIN PG 8, AF3, ExternalTriggerFilter)]"

definition Tim12Pins :: "(Pin \<times> AlternateFunction \<times> timer_use) list" where
  "Tim12Pins =
     [(PIN PB 14, AF2, Channel_1), (PIN PB 15, AF2, Channel_2)]"

definition Tim13Pins :: "(Pin \<times> AlternateFunction \<times> timer_use) list" where
  "Tim13Pins =
     [(PIN PA 6, AF9, Channel_1), (PIN PF 8, AF9, Channel_1)]"

definition Tim14Pins :: "(Pin \<times> AlternateFunction \<times> timer_use) list" where
  "Tim14Pins =
     [(PIN PA 7, AF9, Channel_1), (PIN PF 9, AF9, Channel_1)]"

definition Tim15Pins :: "(Pin \<times> AlternateFunction \<times> timer_use) list" where
  "Tim15Pins =
     [(PIN PA 0, AF4, BreakInput_1), (PIN PA 1, AF4, Channel_1_Negated), (PIN PA 2, AF4, Channel_1),
      (PIN PA 3, AF4, Channel_2), (PIN PC 12, AF2, Channel_1), (PIN PD 2, AF4, Channel_2),
      (PIN PE 3, AF4, BreakInput_1), (PIN PE 4, AF4, BreakInput_1), (PIN PE 4, AF4, Channel_1),
      (PIN PE 4, AF4, Channel_2)]"

definition Tim16Pins :: "(Pin \<times> AlternateFunction \<times> timer_use) list" where
  "Tim16Pins =
     [(PIN PF 6, AF1, Channel_1), (PIN PF 8, AF1, Channel_1_Negated), (PIN PF 10, AF1, BreakInput_1)]"

definition Tim17Pins :: "(Pin \<times> AlternateFunction \<times> timer_use) list" where
  "Tim17Pins =
     [(PIN PB 5, AF1, BreakInput_1), (PIN PB 7, AF1, Channel_1_Negated), (PIN PB 9, AF1, Channel_1),
      (PIN PF 7, AF1, Channel_1), (PIN PF 9, AF1, Channel_1_Negated), (PIN PG 6, AF1, BreakInput_1)]"

definition Tim23Pins :: "(Pin \<times> AlternateFunction \<times> timer_use) list" where
  "Tim23Pins =
     [(PIN PB 2, AF13, ExternalTriggerFilter), (PIN PF 0, AF13, Channel_1), (PIN PF 1, AF13, Channel_2),
      (PIN PF 2, AF13, Channel_3), (PIN PF 3, AF13, Channel_4), (PIN PF 6, AF13, Channel_1),
      (PIN PF 7, AF13, Channel_2), (PIN PF 8, AF13, Channel_3), (PIN PF 9, AF13, Channel_4),
      (PIN PG 3, AF13, ExternalTriggerFilter), (PIN PG 12, AF13, Channel_1), (PIN PG 13, AF13, Channel_2),
      (PIN PG 14, AF13, Channel_3)]"

definition Tim24Pins :: "(Pin \<times> AlternateFunction \<times> timer_use) list" where
  "Tim24Pins =
     [(PIN PB 3, AF14, ExternalTriggerFilter), (PIN PF 11, AF14, Channel_1), (PIN PF 12, AF14, Channel_2),
      (PIN PF 13, AF14, Channel_3), (PIN PF 14, AF14, Channel_4), (PIN PG 2, AF14, ExternalTriggerFilter)]"

definition tim_pins :: "nat \<Rightarrow> (Pin \<times> AlternateFunction \<times> timer_use) list" where
  "tim_pins n = (case map_of
     [(1, Tim1Pins), (2, Tim2Pins), (3, Tim3Pins), (4, Tim4Pins), (5, Tim5Pins), (6, Tim6Pins),
      (7, Tim7Pins), (8, Tim8Pins), (12, Tim12Pins), (13, Tim13Pins), (14, Tim14Pins),
      (15, Tim15Pins), (16, Tim16Pins), (17, Tim17Pins), (23, Tim23Pins), (24, Tim24Pins)] n of None \<Rightarrow> [] | Some ps \<Rightarrow> ps)"

definition use_matches :: "timer_pin \<Rightarrow> timer_use \<Rightarrow> bool" where
  "use_matches p u \<longleftrightarrow>
     (tp_af p = TimerAF_InputCapture \<or> tp_af p = TimerAF_PWM \<or> tp_af p = TimerAF_Encoder) \<and>
        channel_value (tp_channel p) = use_value u \<or>
     tp_af p = TimerAF_BreakInput \<and> (u = BreakInput_1 \<or> u = BreakInput_2) \<or>
     tp_af p = TimerAF_BreakInputCompare \<and> (u = BreakInputCompare_1 \<or> u = BreakInputCompare_2)"

text \<open>The loop over the pins of the timer: it compares the use of a pin and not the pin.\<close>

fun find_af :: "timer_pin \<Rightarrow> (Pin \<times> AlternateFunction \<times> timer_use) list \<Rightarrow> string + AlternateFunction" where
  "find_af p [] = Inl ''Couldn't find any pins with the requested alternate function''"
| "find_af p ((q, af, u) # ps) =
     (if tp_af p = TimerAF_None then Inl ''Timers with pins must have associated TimerAF''
      else if use_matches p u then Inr af
      else find_af p ps)"

definition get_gpio_af :: "nat \<Rightarrow> timer_pin \<Rightarrow> string + AlternateFunction" where
  "get_gpio_af req p =
     (if req = AnyGeneralPurpose \<or> req = Any32bit then Inl ''Any* timers can't use pins''
      else if req = 6 \<or> req = 7 then Inl ''Basic timers can't use pins''
      else if tp_channel p = CHANNEL_NEGATED_FLAG then Inl ''CHANNEL_NEGATED_FLAG is not a channel''
      else find_af p (tim_pins req))"

record timer_entry =
  te_name :: string
  te_request :: nat
  te_pins :: "timer_pin list"
  te_trgo1 :: SelectionTrigger1
  te_trgo2 :: SelectionTrigger2

text \<open>\<open>pin_count\<close> is the length of \<open>te_pins\<close>; the places after it hold \<open>empty_pin\<close> and are never read. The pins
  after it are inputs on \<open>PA0\<close>, which are made and never inscribed.\<close>

record timer_device =
  td_entry :: timer_entry
  td_gpios :: "gpio_entry list"

definition make_timer_gpio :: "nat \<Rightarrow> timer_pin \<Rightarrow> string + gpio_entry" where
  "make_timer_gpio req p =
     (case get_gpio_af req p of
        Inl msg \<Rightarrow> Inl msg
      | Inr af \<Rightarrow> make_gpio (tp_pin p) (get_operation_mode (tp_af p)) (get_pull (tp_af p)) (get_speed (tp_af p)) af)"

fun make_timer_gpios :: "nat \<Rightarrow> timer_pin list \<Rightarrow> string + gpio_entry list" where
  "make_timer_gpios req [] = Inr []"
| "make_timer_gpios req (p # ps) =
     (case make_timer_gpio req p of Inl msg \<Rightarrow> Inl msg | Inr g \<Rightarrow> map_sum id ((#) g) (make_timer_gpios req ps))"

definition make_timer_entry :: "timer_entry \<Rightarrow> string + timer_device" where
  "make_timer_entry e =
     (case make_timer_gpios (te_request e) (take 7 (te_pins e)) of
        Inl msg \<Rightarrow> Inl msg
      | Inr gs \<Rightarrow> if 7 < length (te_pins e) then Inl ''Max 7 pins per timer'' else Inr \<lparr>td_entry = e, td_gpios = gs\<rparr>)"

definition make_timer :: "nat \<Rightarrow> string \<Rightarrow> timer_pin list \<Rightarrow> string + timer_device" where
  "make_timer req name ps =
     make_timer_entry \<lparr>te_name = name, te_request = req, te_pins = ps, te_trgo1 = Trgo_Reset, te_trgo2 = Trgo2_Reset\<rparr>"

definition TIMER_MAX :: nat where
  "TIMER_MAX = 16"

text \<open>The address of the pin \<open>i\<close> of a timer is \<open>pin_owner i\<close>.\<close>

fun inscribe_timer_gpios :: "(nat \<Rightarrow> nat) \<Rightarrow> nat \<Rightarrow> gpio_entry list \<Rightarrow> gpio_entry domain_ctx \<Rightarrow> string + gpio_entry domain_ctx" where
  "inscribe_timer_gpios pin_owner i [] d = Inr d"
| "inscribe_timer_gpios pin_owner i (g # gs) d =
     (case inscribe_gpio (pin_owner i) g d of
        Inl msg \<Rightarrow> Inl msg
      | Inr (_, d') \<Rightarrow> inscribe_timer_gpios pin_owner (i + 1) gs d')"

definition inscribe_timer ::
  "nat \<Rightarrow> (nat \<Rightarrow> nat) \<Rightarrow> timer_device \<Rightarrow> gpio_entry domain_ctx \<times> timer_entry domain_ctx \<Rightarrow>
   string + gpio_entry domain_ctx \<times> timer_entry domain_ctx" where
  "inscribe_timer owner pin_owner dev x =
     (case inscribe_timer_gpios pin_owner 0 (td_gpios dev) (fst x) of
        Inl msg \<Rightarrow> Inl msg
      | Inr g \<Rightarrow> map_sum id (\<lambda>(_, t). (g, t)) (ctx_add TIMER_MAX (td_entry dev) owner (snd x)))"

section \<open>The assignment of the timers\<close>

record timer_config =
  tc_idx :: nat
  tc_trgo1 :: SelectionTrigger1
  tc_trgo2 :: SelectionTrigger2

definition timer_config_for :: "nat \<Rightarrow> timer_entry \<Rightarrow> timer_config" where
  "timer_config_for n e = \<lparr>tc_idx = timer_idxmap ! n, tc_trgo1 = te_trgo1 e, tc_trgo2 = te_trgo2 e\<rparr>"

fun channel_clash :: "timer_pin list \<Rightarrow> u32 \<Rightarrow> bool" where
  "channel_clash [] used = False"
| "channel_clash (p # ps) used =
     (let channel_bit = push_bit (channel_value (tp_channel p)) 1 in
      if used AND channel_bit \<noteq> 0 then True else channel_clash ps (used OR channel_bit))"

definition specific :: "timer_entry \<Rightarrow> bool" where
  "specific e \<longleftrightarrow> te_request e \<noteq> AnyGeneralPurpose \<and> te_request e \<noteq> Any32bit"

definition check_timer_request :: "timer_entry \<Rightarrow> string option" where
  "check_timer_request e =
     (let r = te_request e in
      if r = SCHEDULER_TIMER_DOMAIN then Some ''This timer is used by the scheduler''
      else if specific e \<and> (r < 1 \<or> r > 24 \<or> (r > 17 \<and> r < 23)) then Some ''Invalid TimerRequest value for timer''
      else if channel_clash (te_pins e) 0 then Some ''Only one pin per channel for each timer''
      else None)"

fun check_timer_requests :: "timer_entry list \<Rightarrow> string option" where
  "check_timer_requests [] = None"
| "check_timer_requests (e # es) = (case check_timer_request e of Some msg \<Rightarrow> Some msg | None \<Rightarrow> check_timer_requests es)"

text \<open>
  The first pass, from the request \<open>i\<close> on: \<open>rem\<close> are the places of the array \<open>remaining_requests\<close>, \<open>k\<close> its count and
  \<open>cfgs\<close> the configurations so far. A place of the array is removed by the last one taking it.
\<close>

fun specific_pass ::
  "timer_entry list \<Rightarrow> nat \<Rightarrow> bool list \<Rightarrow> nat list \<Rightarrow> nat \<Rightarrow> timer_config list \<Rightarrow>
   string + bool list \<times> nat list \<times> nat \<times> timer_config list" where
  "specific_pass [] i used rem k cfgs = Inr (used, rem, k, cfgs)"
| "specific_pass (e # es) i used rem k cfgs =
     (if specific e then
        (if used ! te_request e then Inl ''Timer already used''
         else specific_pass es (i + 1) (used[te_request e := True]) (rem[i := rem ! (k - 1)]) (k - 1)
                (cfgs @ [timer_config_for (te_request e) e]))
      else specific_pass es (i + 1) used rem k cfgs)"

definition bits32_timers :: "nat list" where
  "bits32_timers = [2, 5, 23, 24]"

definition remaining_32bit_timers :: "bool list \<Rightarrow> nat list" where
  "remaining_32bit_timers used = filter (\<lambda>t. \<not> used ! t \<and> t \<noteq> SCHEDULER_TIMER_DOMAIN) bits32_timers"

text \<open>The second pass, over the places \<open>i\<close> to \<open>k\<close> of the array: \<open>free\<close> are the timers of 32 bits nobody asked for by number.
  \<open>count32\<close> is \<open>count_32bit_requests\<close>, which the source never advances.\<close>

function any32_pass ::
  "timer_entry list \<Rightarrow> nat list \<Rightarrow> nat \<Rightarrow> nat \<Rightarrow> nat list \<Rightarrow> nat \<Rightarrow> timer_config list \<Rightarrow>
   string + nat list \<times> nat \<times> timer_config list" where
  "any32_pass es free count32 i rem k cfgs =
     (if i < k then
        (let e = es ! (rem ! i) in
         if te_request e = Any32bit then
           (if length free \<le> count32 then Inl ''No remaining 32 bit timers''
            else any32_pass es free count32 i (rem[i := rem ! (k - 1)]) (k - 1) (cfgs @ [timer_config_for (free ! count32) e]))
         else any32_pass es free count32 (i + 1) rem k cfgs)
      else Inr (rem, k, cfgs))"
  by pat_completeness auto
termination
  by (relation "measure (\<lambda>(es, free, count32, i, rem, k, cfgs). k - i)") auto

declare any32_pass.simps [simp del]

definition remaining_timers :: "bool list \<Rightarrow> nat list" where
  "remaining_timers used = filter (\<lambda>t. \<not> used ! t) ([15, 16, 17] @ [3, 4] @ bits32_timers)"

text \<open>The third pass, over the first \<open>k\<close> places; \<open>free\<close> are the timers that remain.\<close>

fun any_pass ::
  "timer_entry list \<Rightarrow> nat list \<Rightarrow> nat list \<Rightarrow> timer_config list \<Rightarrow> string + timer_config list" where
  "any_pass es [] free cfgs = Inr cfgs"
| "any_pass es (r # rs) free cfgs =
     (if te_request (es ! r) \<noteq> AnyGeneralPurpose then Inl ''This only processes TimerRequest::AnyGeneralPurpose''
      else any_pass es rs (tl free) (cfgs @ [timer_config_for (hd free) (es ! r)]))"

definition build_timers :: "timer_entry list \<Rightarrow> string + timer_config list" where
  "build_timers es =
     (if TIMER_MAX < length es then Inl ''too many Timer requests, there are only 16 timers''
      else
        (case check_timer_requests es of
           Some msg \<Rightarrow> Inl msg
         | None \<Rightarrow>
             (case specific_pass es 0 (replicate 25 False)
                     ([0..<length es] @ replicate (TIMER_MAX - length es) 0) (length es) [] of
                Inl msg \<Rightarrow> Inl msg
              | Inr (used, rem, k, cfgs) \<Rightarrow>
                  (case any32_pass es (remaining_32bit_timers used) 0 0 rem k cfgs of
                     Inl msg \<Rightarrow> Inl msg
                   | Inr (rem, k, cfgs) \<Rightarrow>
                       if length (remaining_timers used) < k then Inl ''This should not happen''
                       else any_pass es (take k rem) (remaining_timers used) cfgs))))"

section \<open>Initialization\<close>

text \<open>\<open>Null_callback\<close> is the null pointer. A capture information is that of a channel of an instance, or the dummy.\<close>

datatype timer_callback = Null_callback | Default_callback | Scheduler_callback | User_callback nat

record capture_info =
  ci_channel_rising :: u8
  ci_channel_falling :: u8
  ci_value_rising :: u32
  ci_value_falling :: u32
  ci_period :: u32
  ci_duty :: "(u32 \<times> u32) option"
  ci_frequency :: u32

text \<open>\<open>ci_duty\<close>: the duty cycle is computed in floating point from the value at the falling edge and the period,
  which are kept here; \<open>None\<close> is zero.\<close>

text \<open>The registers of a timer; the prescaler has 16 bits. The capture registers are those of the six channels.\<close>

record timer_regs =
  tr_cr1 :: u32
  tr_cr2 :: u32
  tr_smcr :: u32
  tr_dier :: u32
  tr_sr :: u32
  tr_ccmr1 :: u32
  tr_ccmr2 :: u32
  tr_ccmr3 :: u32
  tr_ccer :: u32
  tr_cnt :: u32
  tr_psc :: u16
  tr_arr :: u32
  tr_ccr :: "u32 list"
  tr_bdtr :: u32

definition CR1_CEN :: u32 where
  "CR1_CEN = 1"

record timer_instance =
  ti_idx :: nat
  ti_trgo1 :: SelectionTrigger1
  ti_trgo2 :: SelectionTrigger2

text \<open>\<open>ts_handles\<close> tells which handles have their timer and are ready; \<open>ts_called\<close> are the callbacks that ran, with their data.\<close>

record timer_state =
  ts_callbacks :: "timer_callback list"
  ts_data :: "nat option list"
  ts_infos :: "(nat \<times> nat) option list list"
  ts_backing :: "capture_info list list"
  ts_dummy :: capture_info
  ts_instances :: "timer_instance list"
  ts_handles :: "bool list"
  ts_regs :: "timer_regs list"
  ts_rcc :: "nat list"
  ts_called :: "(timer_callback \<times> nat option) list"
  ts_scheduler_started :: bool
  ts_panics :: "string list"

definition dummy_info :: capture_info where
  "dummy_info = \<lparr>ci_channel_rising = 0xFF, ci_channel_falling = 0xFF, ci_value_rising = 0, ci_value_falling = 0,
     ci_period = 0, ci_duty = None, ci_frequency = 0\<rparr>"

definition enable_rcc :: "nat \<Rightarrow> timer_state \<Rightarrow> timer_state" where
  "enable_rcc n s =
     (case rcc_enable_timer n of
        None \<Rightarrow> s\<lparr>ts_panics := ts_panics s @ [''Invalid timer given to rcc_enable_timer'']\<rparr>
      | Some _ \<Rightarrow> s\<lparr>ts_rcc := ts_rcc s @ [n]\<rparr>)"

text \<open>One instance; \<open>ok\<close> tells whether \<open>HAL_TIMEx_MasterConfigSynchronization\<close> succeeds.\<close>

definition init_timer :: "bool \<Rightarrow> timer_config \<Rightarrow> timer_state \<Rightarrow> timer_state" where
  "init_timer ok c s =
     (let s = s\<lparr>ts_handles := (ts_handles s)[tc_idx c := True]\<rparr>;
          s = enable_rcc (cmsis_timers ! tc_idx c) s;
          s = s\<lparr>ts_instances := ts_instances s @ [\<lparr>ti_idx = tc_idx c, ti_trgo1 = tc_trgo1 c, ti_trgo2 = tc_trgo2 c\<rparr>]\<rparr>
      in if \<not> ok then s\<lparr>ts_panics := ts_panics s @ [''Unable to configure master synch'']\<rparr> else s)"

definition init_timer_tables :: "timer_state \<Rightarrow> timer_state" where
  "init_timer_tables s =
     s\<lparr>ts_dummy := dummy_info, ts_infos := replicate TIMER_MAX (replicate 4 None),
       ts_callbacks := (replicate TIMER_MAX Default_callback)[timer_idxmap ! SCHEDULER_TIMER_DOMAIN := Scheduler_callback],
       ts_scheduler_started := True\<rparr>"

definition init_timers :: "(nat \<Rightarrow> bool) \<Rightarrow> timer_config list \<Rightarrow> timer_state \<Rightarrow> timer_state" where
  "init_timers ok cs s =
     fold (\<lambda>(i, c). init_timer (ok i) c) (enumerate 0 cs)
       (init_timer_tables (enable_rcc (cmsis_timers ! (timer_idxmap ! SCHEDULER_TIMER_DOMAIN)) s\<lparr>ts_instances := []\<rparr>))"

text \<open>The state at the start; \<open>regs\<close> are the registers.\<close>

definition initial_timers :: "timer_regs list \<Rightarrow> timer_state" where
  "initial_timers regs =
     \<lparr>ts_callbacks = replicate TIMER_MAX Null_callback, ts_data = replicate TIMER_MAX None,
      ts_infos = replicate TIMER_MAX (replicate 4 None), ts_backing = replicate TIMER_MAX (replicate 4 dummy_info),
      ts_dummy = dummy_info, ts_instances = [], ts_handles = replicate TIMER_MAX False, ts_regs = regs, ts_rcc = [],
      ts_called = [], ts_scheduler_started = False, ts_panics = []\<rparr>"

section \<open>The operations of a wrapper\<close>

text \<open>An instance is given by its configuration's index \<open>t\<close>.\<close>

definition on_regs :: "nat \<Rightarrow> (timer_regs \<Rightarrow> timer_regs) \<Rightarrow> timer_state \<Rightarrow> timer_state" where
  "on_regs t f s = s\<lparr>ts_regs := (ts_regs s)[t := f (ts_regs s ! t)]\<rparr>"

definition set_timer_callback :: "nat \<Rightarrow> timer_callback \<Rightarrow> nat option \<Rightarrow> timer_state \<Rightarrow> timer_state" where
  "set_timer_callback t cb data s = s\<lparr>ts_data := (ts_data s)[t := data], ts_callbacks := (ts_callbacks s)[t := cb]\<rparr>"

definition counter_enable :: "nat \<Rightarrow> timer_state \<Rightarrow> timer_state" where
  "counter_enable t s = on_regs t (tr_cr1_update (\<lambda>r. r OR CR1_CEN)) s"

definition counter_disable :: "nat \<Rightarrow> timer_state \<Rightarrow> timer_state" where
  "counter_disable t s = on_regs t (tr_cr1_update (\<lambda>r. r AND NOT CR1_CEN)) s"

definition set_prescaler :: "nat \<Rightarrow> u16 \<Rightarrow> timer_state \<Rightarrow> timer_state" where
  "set_prescaler t psc s = on_regs t (tr_psc_update (\<lambda>_. psc)) s"

definition set_limit_value :: "nat \<Rightarrow> u32 \<Rightarrow> timer_state \<Rightarrow> timer_state" where
  "set_limit_value t arr s = on_regs t (tr_arr_update (\<lambda>_. arr)) s"


definition configure16bit :: "nat \<Rightarrow> timer_callback \<Rightarrow> nat option \<Rightarrow> u16 \<Rightarrow> timer_state \<Rightarrow> timer_state" where
  "configure16bit t cb data period s =
     counter_enable t (set_timer_callback t cb data (on_regs t (tr_arr_update (\<lambda>_. ucast period)) s))"

text \<open>The tables an input capture writes when it is initialized; \<open>rising\<close> and \<open>falling\<close> are its channels, from zero.\<close>

definition input_capture_init :: "nat \<Rightarrow> nat \<Rightarrow> nat \<Rightarrow> timer_state \<Rightarrow> timer_state" where
  "input_capture_init t rising falling s =
     s\<lparr>ts_infos := (ts_infos s)[t := (ts_infos s ! t)[rising := Some (t, rising), falling := Some (t, rising)]],
       ts_backing := (ts_backing s)[t := (ts_backing s ! t)[rising :=
         \<lparr>ci_channel_rising = of_nat rising, ci_channel_falling = of_nat falling, ci_value_rising = 0, ci_value_falling = 0,
          ci_period = 0, ci_duty = None, ci_frequency = 0\<rparr>]]\<rparr>"

section \<open>Interrupts\<close>

record timer_clocks =
  pclk1 :: u32
  pclk1_divided :: bool
  pclk2 :: u32
  pclk2_divided :: bool

text \<open>\<open>get_timer_frequency\<close>; another timer panics and gives zero.\<close>

definition get_timer_frequency :: "timer_clocks \<Rightarrow> nat \<Rightarrow> u32" where
  "get_timer_frequency ck n =
     (if n \<in> set [2, 3, 4, 5, 6, 7, 12, 13, 14] then (if pclk1_divided ck then pclk1 ck * 2 else pclk1 ck)
      else if n \<in> set [1, 8, 15, 16, 17, 23, 24] then (if pclk2_divided ck then pclk2 ck * 2 else pclk2 ck)
      else 0)"

definition read_info :: "(nat \<times> nat) option \<Rightarrow> timer_state \<Rightarrow> capture_info" where
  "read_info p s = (case p of None \<Rightarrow> ts_dummy s | Some (t, c) \<Rightarrow> ts_backing s ! t ! c)"

definition write_info :: "(nat \<times> nat) option \<Rightarrow> capture_info \<Rightarrow> timer_state \<Rightarrow> timer_state" where
  "write_info p x s =
     (case p of
        None \<Rightarrow> s\<lparr>ts_dummy := x\<rparr>
      | Some (t, c) \<Rightarrow> s\<lparr>ts_backing := (ts_backing s)[t := (ts_backing s ! t)[c := x]]\<rparr>)"

text \<open>What was counted since the rising edge.\<close>

definition counted_since :: "u32 \<Rightarrow> u32 \<Rightarrow> u32 \<Rightarrow> u32" where
  "counted_since arr current rising = (if rising \<le> current then current - rising else (current + (arr - 1)) - rising)"

definition captured_rising :: "u32 \<Rightarrow> timer_regs \<Rightarrow> u32 \<Rightarrow> capture_info \<Rightarrow> capture_info" where
  "captured_rising freq r current x =
     (let period = counted_since (tr_arr r) current (ci_value_rising x);
          x = (if period \<noteq> 0 \<and> ci_value_falling x < period
               then x\<lparr>ci_period := period, ci_frequency := freq div (ucast (tr_psc r) + 1) div period,
                      ci_duty := Some (ci_value_falling x, period)\<rparr>
               else x)
      in x\<lparr>ci_value_rising := current\<rparr>)"

definition captured_falling :: "timer_regs \<Rightarrow> u32 \<Rightarrow> capture_info \<Rightarrow> capture_info" where
  "captured_falling r current x =
     (let falling_value = counted_since (tr_arr r) current (ci_value_rising x)
      in if falling_value < ci_period x then x\<lparr>ci_value_falling := falling_value\<rparr> else x)"

text \<open>\<open>None\<close> is undefined: the handle of the timer is not set. The prescaler is a register of 16 bits, so that the
  frequency is not divided by zero.\<close>

definition capture_callback :: "timer_clocks \<Rightarrow> nat \<Rightarrow> nat \<Rightarrow> timer_state \<Rightarrow> timer_state option" where
  "capture_callback ck t ch s =
     (if \<not> ts_handles s ! t then None
      else
        (let p = ts_infos s ! t ! ch;
             x = read_info p s;
             r = ts_regs s ! t;
             current = tr_ccr r ! ch
         in if unat (ci_channel_rising x) = ch
            then Some (write_info p (captured_rising (get_timer_frequency ck (cmsis_timers ! t)) r current x) s)
            else if unat (ci_channel_falling x) = ch then Some (write_info p (captured_falling r current x) s)
            else Some s))"

definition clear_sr :: "nat \<Rightarrow> u32 \<Rightarrow> timer_state \<Rightarrow> timer_state" where
  "clear_sr t m s = on_regs t (tr_sr_update (\<lambda>r. r AND NOT m)) s"

definition sr_set :: "nat \<Rightarrow> u32 \<Rightarrow> timer_state \<Rightarrow> bool" where
  "sr_set t m s \<longleftrightarrow> tr_sr (ts_regs s ! t) AND m \<noteq> 0"

text \<open>Calling the callback of a timer; what it does is not modelled, and calling a null pointer is undefined.\<close>

definition call_callback :: "nat \<Rightarrow> timer_state \<Rightarrow> timer_state option" where
  "call_callback t s =
     (if ts_callbacks s ! t = Null_callback then None
      else Some (s\<lparr>ts_called := ts_called s @ [(ts_callbacks s ! t, ts_data s ! t)]\<rparr>))"

definition serve_flags :: "nat \<Rightarrow> u32 \<Rightarrow> timer_state \<Rightarrow> timer_state option" where
  "serve_flags t m s = (if sr_set t m s then call_callback t (clear_sr t m s) else Some s)"

text \<open>The loop over the channels; bit 0 is \<open>UIF\<close>, the bits 1 to 4 are \<open>CC1IF\<close> to \<open>CC4IF\<close>.\<close>

fun serve_channels :: "timer_clocks \<Rightarrow> nat \<Rightarrow> nat list \<Rightarrow> timer_state \<Rightarrow> timer_state option" where
  "serve_channels ck t [] s = Some s"
| "serve_channels ck t (ch # chs) s =
     (let flag_mask = push_bit ch 1 in
      if sr_set t flag_mask s then
        (case capture_callback ck t (ch - 1) s of
           None \<Rightarrow> None
         | Some s' \<Rightarrow> serve_channels ck t chs (clear_sr t flag_mask s'))
      else serve_channels ck t chs s)"

definition TIM_InterruptCallback :: "timer_clocks \<Rightarrow> nat \<Rightarrow> timer_state \<Rightarrow> timer_state option" where
  "TIM_InterruptCallback ck t s = Option.bind (serve_flags t 1 s) (serve_channels ck t [1, 2, 3, 4])"

text \<open>The handlers of the timers with an interrupt of their own.\<close>

definition timer_irq_handler :: "timer_clocks \<Rightarrow> nat \<Rightarrow> timer_state \<Rightarrow> timer_state option" where
  "timer_irq_handler ck n s = TIM_InterruptCallback ck (timer_idxmap ! n) s"

definition basic_irq_handler :: "nat \<Rightarrow> timer_state \<Rightarrow> timer_state option" where
  "basic_irq_handler n s = call_callback (timer_idxmap ! n) (clear_sr (timer_idxmap ! n) 1 s)"

definition TIM8_BRK_TIM12_IRQHandler :: "timer_clocks \<Rightarrow> timer_state \<Rightarrow> timer_state option" where
  "TIM8_BRK_TIM12_IRQHandler ck s =
     Option.bind (TIM_InterruptCallback ck (timer_idxmap ! 12) s) (serve_flags (timer_idxmap ! 8) 0x80)"

definition TIM8_UP_TIM13_IRQHandler :: "timer_clocks \<Rightarrow> timer_state \<Rightarrow> timer_state option" where
  "TIM8_UP_TIM13_IRQHandler ck s =
     Option.bind (TIM_InterruptCallback ck (timer_idxmap ! 13) s) (TIM_InterruptCallback ck (timer_idxmap ! 8))"

definition TIM8_TRG_COM_TIM14_IRQHandler :: "timer_clocks \<Rightarrow> timer_state \<Rightarrow> timer_state option" where
  "TIM8_TRG_COM_TIM14_IRQHandler ck s =
     Option.bind (TIM_InterruptCallback ck (timer_idxmap ! 14) s) (serve_flags (timer_idxmap ! 8) 0x60)"

section \<open>What the assignment computes\<close>

definition requested :: "timer_entry list \<Rightarrow> nat list" where
  "requested es = map te_request (filter specific es)"

definition count_of :: "nat \<Rightarrow> timer_entry list \<Rightarrow> nat" where
  "count_of r es = length (filter (\<lambda>e. te_request e = r) es)"

definition free_32bit :: "timer_entry list \<Rightarrow> nat list" where
  "free_32bit es = filter (\<lambda>t. t \<notin> set (requested es)) [5, 23, 24]"

definition free_16bit :: "timer_entry list \<Rightarrow> nat list" where
  "free_16bit es = filter (\<lambda>t. t \<notin> set (requested es)) [15, 16, 17, 3, 4]"

definition assigned :: "timer_entry list \<Rightarrow> nat list" where
  "assigned es = requested es @ replicate (count_of Any32bit es) (hd (free_32bit es)) @
     take (count_of AnyGeneralPurpose es) (free_16bit es @ [2] @ free_32bit es)"

lemma timer_config_for_idx [simp]: "tc_idx (timer_config_for n e) = timer_idxmap ! n"
  by (simp add: timer_config_for_def)

text \<open>Removing a place of the array by the last one.\<close>

lemma swap_remove_distinct:
  assumes "distinct (take k rem)" "0 < k" "k \<le> length rem"
  shows "distinct (take (k - 1) (rem[i := rem ! (k - 1)]))" "set (take (k - 1) (rem[i := rem ! (k - 1)])) \<subseteq> set (take k rem)"
proof -
  obtain j where j: "k = Suc j" using assms(2) by (cases k) auto
  then have t: "take k rem = take j rem @ [rem ! j]" using assms(3) by (simp add: take_Suc_conv_app_nth)
  have u: "take j (rem[i := rem ! j]) = (take j rem)[i := rem ! j]" by (simp add: take_update_swap)
  have d: "distinct (take j rem)" "rem ! j \<notin> set (take j rem)" using assms(1) t by auto
  show "distinct (take (k - 1) (rem[i := rem ! (k - 1)]))"
    using d by (simp add: j u distinct_list_update)
  show "set (take (k - 1) (rem[i := rem ! (k - 1)])) \<subseteq> set (take k rem)"
    using set_update_subset_insert [of "take j rem" i "rem ! j"] by (auto simp: j u t [unfolded j])
qed

lemma swap_remove_mset:
  assumes "i < k" "k \<le> length rem"
  shows "mset (take (k - 1) (rem[i := rem ! (k - 1)])) = mset (take k rem) - {#rem ! i#}"
proof -
  obtain j where j: "k = Suc j" using assms(1) by (cases k) auto
  have t: "take k rem = take j rem @ [rem ! j]" using assms(2) by (simp add: j take_Suc_conv_app_nth)
  have u: "take j (rem[i := rem ! j]) = (take j rem)[i := rem ! j]" by (simp add: take_update_swap)
  show ?thesis
  proof (cases "i = j")
    case True
    then show ?thesis using t by (simp add: j u)
  next
    case False
    then have i: "i < length (take j rem)" using assms j by simp
    then have m: "rem ! i \<in># mset (take j rem)" using nth_mem [OF i] by simp
    show ?thesis
      using mset_update [OF i, of "rem ! j"] t i m by (simp add: j u)
  qed
qed

section \<open>The three passes\<close>

lemma specific_pass_spec:
  assumes "specific_pass es i used rem k cfgs = Inr (used', rem', k', cfgs')"
    and "\<forall>e \<in> set es. specific e \<longrightarrow> te_request e < length used"
    and "distinct (take k rem)" "length (filter specific es) \<le> k" "k \<le> length rem"
  shows "distinct (requested es)" "\<forall>t \<in> set (requested es). \<not> used ! t"
    and "length used' = length used" "\<forall>t < length used. used' ! t \<longleftrightarrow> used ! t \<or> t \<in> set (requested es)"
    and "map tc_idx cfgs' = map tc_idx cfgs @ map ((!) timer_idxmap) (requested es)"
    and "k' = k - length (filter specific es)" "length rem' = length rem"
    and "distinct (take k' rem')" "set (take k' rem') \<subseteq> set (take k rem)"
  using assms
proof (atomize (full), induction es arbitrary: i used rem k cfgs)
  case Nil
  then show ?case by (auto simp: requested_def)
next
  case (Cons e es)
  show ?case
  proof (cases "specific e")
    case False
    then show ?thesis using Cons.IH [of "i + 1" used rem k cfgs] Cons.prems by (auto simp: requested_def)
  next
    case True
    let ?used = "used[te_request e := True]"
    let ?rem = "rem[i := rem ! (k - 1)]"
    have fresh: "\<not> used ! te_request e"
      and rest: "specific_pass es (i + 1) ?used ?rem (k - 1) (cfgs @ [timer_config_for (te_request e) e]) = Inr (used', rem', k', cfgs')"
      using Cons.prems(1) True by (auto split: if_splits)
    have k: "0 < k" "k \<le> length rem" "te_request e < length used" using Cons.prems True by auto
    note s = swap_remove_distinct [OF Cons.prems(3) k(1,2), of i]
    have p: "\<forall>e \<in> set es. specific e \<longrightarrow> te_request e < length ?used" "length (filter specific es) \<le> k - 1"
        "k - 1 \<le> length ?rem"
      using Cons.prems(2,4) True k by auto
    note ih = Cons.IH [OF rest p(1) s(1) p(2,3)]
    have nf: "\<not> used ! t" "t \<noteq> te_request e" if "t \<in> set (requested es)" for t
      using ih that k(3) by (auto simp: nth_list_update split: if_splits)
    have req: "requested (e # es) = te_request e # requested es" using True by (simp add: requested_def)
    have "te_request e \<notin> set (requested es)" using nf(2) by blast
    then show ?thesis using ih nf(1) True fresh s(2) k by (auto simp: req nth_list_update)
  qed
qed

lemma any32_pass_spec:
  assumes "any32_pass es free c i rem k cfgs = Inr (rem', k', cfgs')" "i \<le> k" "k \<le> length rem"
    and "\<forall>j < i. te_request (es ! (rem ! j)) \<noteq> Any32bit"
  shows "mset (take k' rem') = filter_mset (\<lambda>j. te_request (es ! j) \<noteq> Any32bit) (mset (take k rem))"
    and "map tc_idx cfgs' = map tc_idx cfgs @ replicate (k - k') (timer_idxmap ! (free ! c))"
    and "k' \<le> k" "length rem' = length rem" "k' < k \<Longrightarrow> c < length free"
  using assms
proof (atomize (full), induction es free c i rem k cfgs rule: any32_pass.induct)
  case (1 es free c i rem k cfgs)
  let ?rem = "rem[i := rem ! (k - 1)]" and ?P = "\<lambda>j. te_request (es ! j) \<noteq> Any32bit"
  show ?case
  proof (cases "i < k")
    case False
    then have "i = k" using "1.prems"(2) by simp
    then have "\<forall>j \<in> set (take k rem). ?P j"
      using "1.prems"(3,4) by (auto simp: in_set_conv_nth)
    then have "filter_mset ?P (mset (take k rem)) = mset (take k rem)" by (simp add: filter_mset_eq_conv)
    then show ?thesis using "1.prems"(1) False by (auto simp: any32_pass.simps [of es free c i])
  next
    case i: True
    show ?thesis
    proof (cases "te_request (es ! (rem ! i)) = Any32bit")
      case False
      then have rest: "any32_pass es free c (i + 1) rem k cfgs = Inr (rem', k', cfgs')"
        using "1.prems"(1) i by (subst (asm) any32_pass.simps) (simp add: Let_def)
      have "\<forall>j < i + 1. ?P (rem ! j)" using "1.prems"(4) False by (auto simp: less_Suc_eq)
      then show ?thesis using "1.IH"(2) [OF i refl False rest] "1.prems"(3) i by simp
    next
      case True
      have c: "c < length free"
        and rest: "any32_pass es free c i ?rem (k - 1) (cfgs @ [timer_config_for (free ! c) (es ! (rem ! i))]) = Inr (rem', k', cfgs')"
        using "1.prems"(1) i True
        by (atomize (full), subst (asm) any32_pass.simps) (auto simp: Let_def split: if_splits)
      have before: "\<forall>j < i. ?P (?rem ! j)" using "1.prems"(4) by simp
      have ih: "mset (take k' rem') = filter_mset ?P (mset (take (k - 1) ?rem)) \<and>
        map tc_idx cfgs' = map tc_idx (cfgs @ [timer_config_for (free ! c) (es ! (rem ! i))]) @
          replicate (k - 1 - k') (timer_idxmap ! (free ! c)) \<and> k' \<le> k - 1 \<and> length rem' = length ?rem \<and> (k' < k - 1 \<longrightarrow> c < length free)"
        using "1.IH"(1) [OF i refl True _ rest] c before "1.prems"(3) i by simp
      have "rem ! i \<in># mset (take k rem)"
        using i "1.prems"(3) by (simp add: in_set_conv_nth) (metis nth_take)
      then have "filter_mset ?P (mset (take (k - 1) ?rem)) = filter_mset ?P (mset (take k rem))"
        using True swap_remove_mset [OF i "1.prems"(3)] by (simp add: filter_diff_mset)
      moreover have "k' \<le> k - 1" using ih by blast
      then have "k - k' = Suc (k - 1 - k')" using i by simp
      ultimately show ?thesis using ih c i by simp
    qed
  qed
qed

lemma any_pass_spec:
  assumes "any_pass es rs free cfgs = Inr cfgs'" "length rs \<le> length free"
  shows "\<forall>r \<in> set rs. te_request (es ! r) = AnyGeneralPurpose"
    and "map tc_idx cfgs' = map tc_idx cfgs @ map ((!) timer_idxmap) (take (length rs) free)"
  using assms
proof (atomize (full), induction es rs free cfgs rule: any_pass.induct)
  case (2 es r rs free cfgs)
  then obtain f fs where "free = f # fs" by (cases free) auto
  then show ?case using 2 by (auto split: if_splits)
qed simp

lemma length_filter_index: "length (filter (\<lambda>j. Q (es ! j)) [0..<length es]) = length (filter Q es)"
proof -
  have "filter Q es = filter Q (map ((!) es) [0..<length es])" by (simp add: map_nth)
  also have "\<dots> = map ((!) es) (filter (\<lambda>j. Q (es ! j)) [0..<length es])" by (simp add: filter_map o_def)
  finally show ?thesis by (metis length_map)
qed

lemma checked_requests:
  assumes "check_timer_requests es = None" "e \<in> set es"
  shows "te_request e \<noteq> SCHEDULER_TIMER_DOMAIN" "specific e \<Longrightarrow> 1 \<le> te_request e \<and> te_request e \<le> 24 \<and> (te_request e \<le> 17 \<or> 23 \<le> te_request e)"
  using assms by (atomize (full), induction es) (auto simp: check_timer_request_def Let_def split: option.splits if_splits)

lemma not_specific: "\<not> specific e \<longleftrightarrow> te_request e = AnyGeneralPurpose \<or> te_request e = Any32bit"
  by (auto simp: specific_def)

lemma any_not_32bit: "AnyGeneralPurpose \<noteq> Any32bit"
  by (simp add: AnyGeneralPurpose_def Any32bit_def)

text \<open>The places left after the first pass are those of the requests without a number, if no other one is among them.\<close>

lemma remaining_places:
  assumes "distinct P" "set P \<subseteq> {0..<length es}" "length P = length es - length (filter specific es)"
    and "\<forall>j \<in> set P. \<not> specific (es ! j)"
  shows "size (filter_mset (\<lambda>j. te_request (es ! j) \<noteq> Any32bit) (mset P)) = count_of AnyGeneralPurpose es"
    and "length P = count_of AnyGeneralPurpose es + count_of Any32bit es"
proof -
  let ?N = "filter (\<lambda>j. \<not> specific (es ! j)) [0..<length es]"
  have "length ?N = length es - length (filter specific es)"
    using length_filter_index [of "\<lambda>e. \<not> specific e" es] sum_length_filter_compl [of specific es] by simp
  moreover have "card (set ?N) = length ?N" by (rule distinct_card) simp
  moreover have "card (set P) = length P" using assms(1) by (rule distinct_card)
  ultimately have "card (set P) = card (set ?N)" using assms(3) by simp
  then have "set P = set ?N" using assms(2,4) by (intro card_subset_eq) auto
  then have m: "mset P = mset ?N" using assms(1) set_eq_iff_mset_eq_distinct [of P ?N] by simp
  have any: "(\<not> specific e \<and> te_request e \<noteq> Any32bit) \<longleftrightarrow> te_request e = AnyGeneralPurpose" for e
    using any_not_32bit by (auto simp: not_specific)
  have "size (filter_mset (\<lambda>j. te_request (es ! j) \<noteq> Any32bit) (mset P)) =
      length (filter (\<lambda>j. \<not> specific (es ! j) \<and> te_request (es ! j) \<noteq> Any32bit) [0..<length es])"
    by (simp add: m size_mset [symmetric] mset_filter [symmetric] conj_commute del: size_mset mset_filter)
  also have "\<dots> = count_of AnyGeneralPurpose es"
    using length_filter_index [of "\<lambda>e. te_request e = AnyGeneralPurpose" es] by (simp add: any count_of_def)
  finally show n: "size (filter_mset (\<lambda>j. te_request (es ! j) \<noteq> Any32bit) (mset P)) = count_of AnyGeneralPurpose es" .
  have "length P = length ?N" using m by (metis size_mset)
  also have "\<dots> = length (filter (\<lambda>e. \<not> specific e) es)" by (rule length_filter_index)
  also have "\<dots> = count_of AnyGeneralPurpose es + count_of Any32bit es"
    unfolding count_of_def using any_not_32bit by (induction es) (auto simp: not_specific)
  finally show "length P = count_of AnyGeneralPurpose es + count_of Any32bit es" .
qed

lemma remaining_timers_free:
  assumes "length used = 25" "\<forall>t < 25. used ! t \<longleftrightarrow> t \<in> set (requested es)" "2 \<notin> set (requested es)"
  shows "remaining_32bit_timers used = free_32bit es" "remaining_timers used = free_16bit es @ [2] @ free_32bit es"
  using assms
  by (simp_all add: remaining_32bit_timers_def remaining_timers_def free_32bit_def free_16bit_def bits32_timers_def
      SCHEDULER_TIMER_DOMAIN_def)

lemma build_timers_spec:
  assumes "build_timers es = Inr cfgs"
  shows "map tc_idx cfgs = map ((!) timer_idxmap) (assigned es)" "distinct (requested es)"
    and "\<forall>t \<in> set (requested es). 1 \<le> t \<and> t \<le> 24 \<and> (t \<le> 17 \<or> 23 \<le> t) \<and> t \<noteq> 2"
    and "0 < count_of Any32bit es \<Longrightarrow> free_32bit es \<noteq> []"
    and "count_of AnyGeneralPurpose es \<le> length (free_16bit es) + 1 + length (free_32bit es)"
proof -
  let ?rem0 = "[0..<length es] @ replicate (TIMER_MAX - length es) 0" and ?used0 = "replicate 25 False"
  have n: "length es \<le> TIMER_MAX" and ok: "check_timer_requests es = None"
    using assms by (auto simp: build_timers_def split: if_splits option.splits)
  obtain used rem1 k1 c1 where p1: "specific_pass es 0 ?used0 ?rem0 (length es) [] = Inr (used, rem1, k1, c1)"
    using assms n ok by (auto simp: build_timers_def split: sum.splits)
  obtain rem2 k2 c2 where p2: "any32_pass es (remaining_32bit_timers used) 0 0 rem1 k1 c1 = Inr (rem2, k2, c2)"
    using assms n ok p1 by (auto simp: build_timers_def split: sum.splits)
  have p3: "k2 \<le> length (remaining_timers used)" "any_pass es (take k2 rem2) (remaining_timers used) c2 = Inr cfgs"
    using assms n ok p1 p2 by (auto simp: build_timers_def split: if_splits)
  show valid: "\<forall>t \<in> set (requested es). 1 \<le> t \<and> t \<le> 24 \<and> (t \<le> 17 \<or> 23 \<le> t) \<and> t \<noteq> 2"
    using checked_requests [OF ok] by (auto simp: requested_def SCHEDULER_TIMER_DOMAIN_def)
  have range: "\<forall>e \<in> set es. specific e \<longrightarrow> te_request e < length ?used0"
    using checked_requests(2) [OF ok] by fastforce
  have "length (filter specific es) \<le> length es" by (rule length_filter_le)
  note s = specific_pass_spec [OF p1 range _ this]
  have s: "distinct (requested es)" "length used = 25" "\<forall>t < 25. used ! t \<longleftrightarrow> t \<in> set (requested es)"
    "map tc_idx c1 = map ((!) timer_idxmap) (requested es)" "k1 = length es - length (filter specific es)"
    "length rem1 = TIMER_MAX" "distinct (take k1 rem1)" "set (take k1 rem1) \<subseteq> {0..<length es}"
    using s n by auto
  show "distinct (requested es)" by (rule s(1))
  have two: "2 \<notin> set (requested es)" using valid by auto
  note free = remaining_timers_free [OF s(2,3) two]
  have k1: "k1 \<le> length rem1" using s(5,6) n by simp
  note t = any32_pass_spec [OF p2 _ k1]
  have len2: "length (take k2 rem2) = k2" using t(3,4) k1 by simp
  note a = any_pass_spec [OF p3(2)]
  have any: "\<forall>j \<in> set (take k2 rem2). te_request (es ! j) = AnyGeneralPurpose" using a(1) p3(1) by simp
  have k2: "k2 = size (filter_mset (\<lambda>j. te_request (es ! j) \<noteq> Any32bit) (mset (take k1 rem1)))"
    using arg_cong [OF t(1), of size] len2 by simp
  have P: "length (take k1 rem1) = length es - length (filter specific es)" using s(5) k1 by simp
  have "\<not> specific (es ! j)" if "j \<in> set (take k1 rem1)" for j
  proof (cases "te_request (es ! j) = Any32bit")
    case False
    then have "j \<in># mset (take k2 rem2)" using that t(1) by simp
    then show ?thesis using any by (simp add: not_specific)
  qed (simp add: not_specific)
  then have r: "k2 = count_of AnyGeneralPurpose es" "k1 = count_of AnyGeneralPurpose es + count_of Any32bit es"
    using remaining_places [OF s(7,8) P] k1 k2 by simp_all
  show "map tc_idx cfgs = map ((!) timer_idxmap) (assigned es)"
    using a(2) p3(1) t(2,5) s(4) r len2 free by (cases "free_32bit es") (auto simp: assigned_def)
  show "count_of AnyGeneralPurpose es \<le> length (free_16bit es) + 1 + length (free_32bit es)"
    using p3(1) r free by simp
  show "free_32bit es \<noteq> []" if "0 < count_of Any32bit es"
    using t(5) r free that by auto
qed

section \<open>Which device gets which timer\<close>

definition timer_numbers :: "nat list" where
  "timer_numbers = [1, 2, 3, 4, 5, 6, 7, 8, 12, 13, 14, 15, 16, 17, 23, 24]"

lemma timer_of_index: "n \<in> set timer_numbers \<Longrightarrow> cmsis_timers ! (timer_idxmap ! n) = n \<and> timer_idxmap ! n < 16"
proof -
  have "list_all (\<lambda>n. cmsis_timers ! (timer_idxmap ! n) = n \<and> timer_idxmap ! n < 16) timer_numbers" by code_simp
  then show "n \<in> set timer_numbers \<Longrightarrow> ?thesis" by (simp add: list_all_iff)
qed

lemma timer_idxmap_inj: "inj_on ((!) timer_idxmap) (set timer_numbers)"
  by (rule inj_on_inverseI [of _ "(!) cmsis_timers"]) (simp add: timer_of_index)

text \<open>The requests are enumerators.\<close>

definition enumerators :: "timer_entry list \<Rightarrow> bool" where
  "enumerators es \<longleftrightarrow> (\<forall>e \<in> set es. te_request e \<in> set (timer_numbers @ [AnyGeneralPurpose, Any32bit]))"

lemma specific_request_at:
  assumes "i < length es" "specific (es ! i)"
  shows "requested es ! length (filter specific (take i es)) = te_request (es ! i)"
    and "length (filter specific (take i es)) < length (requested es)"
proof -
  have s: "es = take i es @ es ! i # drop (Suc i) es" using assms(1) by (rule id_take_nth_drop)
  then have f: "filter specific es = filter specific (take i es) @ es ! i # filter specific (drop (Suc i) es)"
    using assms(2) by (metis filter.simps(2) filter_append)
  show "requested es ! length (filter specific (take i es)) = te_request (es ! i)"
    by (simp add: requested_def f nth_append)
  show "length (filter specific (take i es)) < length (requested es)"
    by (simp add: requested_def f)
qed

lemma all_before_specific:
  assumes "i \<le> length es"
  shows "length (filter specific (take i es)) = i \<longleftrightarrow> (\<forall>j < i. specific (es ! j))"
proof -
  have "length (filter specific (take i es)) = i \<longleftrightarrow> filter specific (take i es) = take i es"
    using assms length_filter_less [of _ "take i es" specific]
    by (metis filter_True length_take min.absorb2 order_less_irrefl)
  also have "\<dots> \<longleftrightarrow> (\<forall>e \<in> set (take i es). specific e)" by (rule filter_id_conv)
  also have "\<dots> \<longleftrightarrow> (\<forall>j < i. specific (es ! j))" using assms by (auto simp: in_set_conv_nth all_set_conv_all_nth)
  finally show ?thesis .
qed

lemma set_free:
  "set (free_32bit es) = {5, 23, 24} - set (requested es)" "set (free_16bit es) = {15, 16, 17, 3, 4} - set (requested es)"
  unfolding free_32bit_def free_16bit_def set_filter by auto

lemma assigned_facts:
  assumes "build_timers es = Inr cfgs"
  shows "length (assigned es) = length es" "length cfgs = length es"
    and "t \<in> set (drop (length (requested es)) (assigned es)) \<Longrightarrow> t \<notin> set (requested es)"
proof -
  note b = build_timers_spec [OF assms]
  have "length (filter specific es) + (count_of AnyGeneralPurpose es + count_of Any32bit es) = length es"
    unfolding count_of_def using any_not_32bit by (induction es) (auto simp: specific_def)
  then show l: "length (assigned es) = length es"
    using b(5) by (simp add: assigned_def requested_def)
  show "length cfgs = length es" using l arg_cong [OF b(1), of length] by simp
  have "hd (free_32bit es) \<notin> set (requested es)" if "0 < count_of Any32bit es"
    using hd_in_set [OF b(4) [OF that]] set_free(1) [of es] by blast
  moreover have "2 \<notin> set (requested es)" using b(3) by auto
  ultimately show "t \<in> set (drop (length (requested es)) (assigned es)) \<Longrightarrow> t \<notin> set (requested es)"
    by (auto simp: assigned_def set_free dest!: in_set_takeD)
qed

lemma assigned_numbers:
  assumes "build_timers es = Inr cfgs" "enumerators es"
  shows "set (assigned es) \<subseteq> set timer_numbers"
proof -
  note b = build_timers_spec [OF assms(1)]
  have "set (requested es) \<subseteq> set timer_numbers"
    using assms(2) by (auto simp: enumerators_def requested_def specific_def)
  moreover have "set (free_32bit es) \<subseteq> set timer_numbers" "set (free_16bit es @ [2] @ free_32bit es) \<subseteq> set timer_numbers"
    by (auto simp: set_free timer_numbers_def)
  moreover have "hd (free_32bit es) \<in> set (free_32bit es)" if "0 < count_of Any32bit es"
    using hd_in_set [OF b(4) [OF that]] .
  ultimately show ?thesis
    by (fastforce simp: assigned_def dest!: in_set_takeD)
qed

text \<open>The instances of the initialization are in the order of the configurations.\<close>

lemma init_timer_instances [simp]:
  "ts_instances (init_timer ok c s) = ts_instances s @ [\<lparr>ti_idx = tc_idx c, ti_trgo1 = tc_trgo1 c, ti_trgo2 = tc_trgo2 c\<rparr>]"
  by (simp add: init_timer_def enable_rcc_def Let_def split: option.split)

lemma init_timers_instances:
  "map ti_idx (ts_instances (init_timers ok cs s)) = map tc_idx cs"
proof -
  have "map ti_idx (ts_instances (fold (\<lambda>(i, c). init_timer (ok i) c) (enumerate k cs) s)) =
      map ti_idx (ts_instances s) @ map tc_idx cs" for k s
    by (induction cs arbitrary: k s) simp_all
  then show ?thesis
    by (simp add: init_timers_def init_timer_tables_def enable_rcc_def split: option.split)
qed

text \<open>C33. A device that asks for a timer by its number: after the build and the initialization its instance, the one of its own
  place, has that timer exactly if no device before it asks for any timer; otherwise it has another one.\<close>

theorem numbered_timer_obtained:
  assumes "build_timers es = Inr cfgs" "enumerators es" "i < length es" "specific (es ! i)"
  shows "cmsis_timers ! ti_idx (ts_instances (init_timers ok cfgs s) ! i) = te_request (es ! i) \<longleftrightarrow> (\<forall>j < i. specific (es ! j))"
proof -
  let ?k = "length (filter specific (take i es))"
  note b = build_timers_spec [OF assms(1)] and f = assigned_facts [OF assms(1)]
  have m: "assigned es ! i \<in> set timer_numbers"
    using assigned_numbers [OF assms(1,2)] assms(3) f(1) nth_mem [of i "assigned es"] by auto
  have "ti_idx (ts_instances (init_timers ok cfgs s) ! i) = map ti_idx (ts_instances (init_timers ok cfgs s)) ! i"
    using assms(3) f(2) arg_cong [OF init_timers_instances [of ok cfgs s], of length] by simp
  also have "\<dots> = timer_idxmap ! (assigned es ! i)"
    using assms(3) f(1) by (simp add: init_timers_instances b(1))
  finally have t: "cmsis_timers ! ti_idx (ts_instances (init_timers ok cfgs s) ! i) = assigned es ! i"
    using timer_of_index [OF m] by simp
  note r = specific_request_at [OF assms(3,4)]
  have "assigned es ! i = te_request (es ! i) \<longleftrightarrow> i = ?k"
  proof (cases "i < length (requested es)")
    case True
    then have "assigned es ! i = requested es ! i" by (simp add: assigned_def nth_append)
    then show ?thesis using True r b(2) nth_eq_iff_index_eq [of "requested es" i ?k] by simp
  next
    case False
    then have "assigned es ! i \<in> set (drop (length (requested es)) (assigned es))"
      using assms(3) f(1) by (auto simp: in_set_conv_nth intro!: exI [of _ "i - length (requested es)"])
    then have "assigned es ! i \<notin> set (requested es)" by (rule f(3))
    moreover have "te_request (es ! i) \<in> set (requested es)" using r by (metis nth_mem)
    moreover have "?k \<noteq> i" using False r(2) by simp
    ultimately show ?thesis by auto
  qed
  then show ?thesis using t all_before_specific [of i es] assms(3) by auto
qed

lemma distinct_replicate_iff: "distinct (replicate n x) \<longleftrightarrow> n \<le> 1"
  by (cases n; cases "n - 1") auto

lemma assigned_distinct:
  assumes "build_timers es = Inr cfgs"
  shows "distinct (assigned es) \<and> 2 \<notin> set (assigned es) \<longleftrightarrow>
    count_of Any32bit es \<le> 1 \<and> count_of AnyGeneralPurpose es \<le> length (free_16bit es)"
proof -
  note b = build_timers_spec [OF assms]
  let ?c = "count_of AnyGeneralPurpose es" and ?d = "count_of Any32bit es" and ?F = "free_16bit es"
  let ?R = "set (requested es)" and ?H = "replicate ?d (hd (free_32bit es))" and ?T = "take ?c ?F"
  have two: "2 \<notin> ?R" using b(3) by auto
  have "hd (free_32bit es) \<in> {5, 23, 24} - ?R" if "0 < ?d"
    using hd_in_set [OF b(4) [OF that]] set_free(1) [of es] by blast
  then have H: "set ?H \<subseteq> {5, 23, 24} - ?R" by (cases "0 < ?d") auto
  have F: "distinct ?T" unfolding free_16bit_def by (intro distinct_take distinct_filter) simp
  have two_outside: "2 \<notin> ({5, 23, 24} :: nat set) \<union> {15, 16, 17, 3, 4}" by simp
  have T: "set ?T \<subseteq> {15, 16, 17, 3, 4} - ?R"
    using set_take_subset [of ?c ?F] by (simp only: set_free)
  show ?thesis
  proof (cases "?c \<le> length ?F")
    case True
    then have a: "assigned es = requested es @ ?H @ ?T"
      by (simp add: assigned_def)
    have "set ?H \<inter> set ?T \<subseteq> {5, 23, 24} \<inter> {15, 16, 17, 3, 4}" using H T by blast
    then have "set ?H \<inter> set ?T = {}" by simp
    moreover have "?R \<inter> (set ?H \<union> set ?T) = {}" using H T by blast
    ultimately have "distinct (assigned es) \<longleftrightarrow> distinct ?H"
      using b(2) F by (simp only: a distinct_append set_append simp_thms)
    moreover have "2 \<notin> set ?H \<union> set ?T" using two_outside H T by blast
    ultimately show ?thesis using True two unfolding a set_append distinct_replicate_iff by blast
  next
    case False
    then have "take ?c (?F @ [2] @ free_32bit es) = ?F @ 2 # take (?c - length ?F - 1) (free_32bit es)"
      by (simp add: take_Cons')
    then have "2 \<in> set (assigned es)" by (simp add: assigned_def)
    then show ?thesis using False by simp
  qed
qed

text \<open>C32. The timers of a board: they are all different and none is the scheduler's exactly if at most one device
  asks for any timer of 32 bits, and no more devices ask for any timer at all than there are free ones among
  the timers 3, 4, 15, 16 and 17. (Two devices that ask for 32 bits get the same timer, and the first device too
  many that asks for any timer gets the one of the scheduler.)\<close>

theorem timers_shared:
  assumes "build_timers es = Inr cfgs" "enumerators es"
  shows "distinct (map tc_idx cfgs) \<and> timer_idxmap ! SCHEDULER_TIMER_DOMAIN \<notin> set (map tc_idx cfgs) \<longleftrightarrow>
    count_of Any32bit es \<le> 1 \<and> count_of AnyGeneralPurpose es \<le> length (free_16bit es)"
proof -
  note m = build_timers_spec(1) [OF assms(1)] and n = assigned_numbers [OF assms]
  have "2 \<in> set timer_numbers" by (simp add: timer_numbers_def)
  then have "timer_idxmap ! 2 \<in> (!) timer_idxmap ` set (assigned es) \<longleftrightarrow> 2 \<in> set (assigned es)"
    using inj_on_image_mem_iff [OF timer_idxmap_inj _ n] by simp
  moreover have "distinct (map ((!) timer_idxmap) (assigned es)) \<longleftrightarrow> distinct (assigned es)"
    using inj_on_subset [OF timer_idxmap_inj n] by (simp add: distinct_map)
  ultimately show ?thesis
    unfolding m SCHEDULER_TIMER_DOMAIN_def using assigned_distinct [OF assms(1)] by simp
qed

section \<open>Requests that are refused\<close>

definition plain_request :: "nat \<Rightarrow> timer_entry" where
  "plain_request r = \<lparr>te_name = ''tim'', te_request = r, te_pins = [], te_trgo1 = Trgo_Reset, te_trgo2 = Trgo2_Reset\<rparr>"

text \<open>The array of the remaining requests is not kept right: two timers asked for by number with a request for any timer
  between them do not compile, while the same requests in another order do.\<close>

theorem request_order_refused:
  "build_timers [plain_request 3, plain_request AnyGeneralPurpose, plain_request 4] =
     Inl ''This only processes TimerRequest::AnyGeneralPurpose'' \<and>
   map_sum id (map (\<lambda>c. cmsis_timers ! tc_idx c)) (build_timers [plain_request 3, plain_request 4, plain_request AnyGeneralPurpose]) =
     Inr [3, 4, 15]"
  by code_simp

lemma numbered_timer_obtained_witness:
  "cmsis_timers ! ti_idx (ts_instances (init_timers (\<lambda>_. True)
       (case build_timers [plain_request AnyGeneralPurpose, plain_request 3] of Inr cs \<Rightarrow> cs | Inl _ \<Rightarrow> [])
       (initial_timers [])) ! 1) \<noteq> 3"
proof -
  let ?es = "[plain_request AnyGeneralPurpose, plain_request 3]"
  have b: "build_timers ?es = Inr (case build_timers ?es of Inr cs \<Rightarrow> cs | Inl _ \<Rightarrow> [])" by code_simp
  have e: "enumerators ?es" by code_simp
  have q: "specific (?es ! 1)" "\<not> specific (?es ! 0)" "te_request (?es ! 1) = 3" by code_simp+
  show ?thesis
    using numbered_timer_obtained [OF b e, of 1] q by auto
qed

definition shared_request :: "timer_entry list" where
  "shared_request = [plain_request Any32bit, plain_request 17, plain_request Any32bit]"

definition shared_configs :: "timer_config list" where
  "shared_configs = (case build_timers shared_request of Inr cs \<Rightarrow> cs | Inl _ \<Rightarrow> [])"

lemma timers_shared_witness:
  "build_timers shared_request = Inr shared_configs \<and>
     \<not> (distinct (map tc_idx shared_configs) \<and> timer_idxmap ! SCHEDULER_TIMER_DOMAIN \<notin> set (map tc_idx shared_configs))"
proof -
  have b: "build_timers shared_request = Inr shared_configs" by code_simp
  have e: "enumerators shared_request" by code_simp
  have n: "\<not> (count_of Any32bit shared_request \<le> 1 \<and>
      count_of AnyGeneralPurpose shared_request \<le> length (free_16bit shared_request))" by code_simp
  show ?thesis using b n by (simp only: timers_shared [OF b e] simp_thms)
qed

section \<open>The tables of the domain\<close>

text \<open>What the interrupts rely on: each timer has a callback, and a channel has its own capture information or the dummy.\<close>

definition info_ok :: "(nat \<times> nat) option \<Rightarrow> bool" where
  "info_ok p \<longleftrightarrow> (case p of None \<Rightarrow> True | Some (t, c) \<Rightarrow> t < TIMER_MAX \<and> c < 4)"

definition timers_ok :: "timer_state \<Rightarrow> bool" where
  "timers_ok s \<longleftrightarrow>
     length (ts_callbacks s) = TIMER_MAX \<and> length (ts_data s) = TIMER_MAX \<and> length (ts_regs s) = TIMER_MAX \<and>
     length (ts_infos s) = TIMER_MAX \<and> length (ts_backing s) = TIMER_MAX \<and>
     list_all (\<lambda>cb. cb \<noteq> Null_callback) (ts_callbacks s) \<and>
     list_all (\<lambda>ps. length ps = 4 \<and> list_all info_ok ps) (ts_infos s) \<and>
     list_all (\<lambda>xs. length xs = 4) (ts_backing s)"

lemma list_all_update:
  assumes "list_all P xs" "i < length xs \<Longrightarrow> P y"
  shows "list_all P (xs[i := y])"
  using assms set_update_subset_insert [of xs i y]
  by (cases "i < length xs") (auto simp: list_all_iff list_update_beyond)

lemma list_all_nth: "list_all P xs \<Longrightarrow> i < length xs \<Longrightarrow> P (xs ! i)"
  by (simp add: list_all_length)


lemma timers_ok_on_regs: "timers_ok s \<Longrightarrow> timers_ok (on_regs t f s)"
  unfolding timers_ok_def on_regs_def by simp

lemma infos_length: "timers_ok s \<Longrightarrow> t < TIMER_MAX \<Longrightarrow> length (ts_infos s ! t) = 4 \<and> list_all info_ok (ts_infos s ! t)"
  using list_all_nth [of "\<lambda>ps. length ps = 4 \<and> list_all info_ok ps" "ts_infos s" t] by (simp add: timers_ok_def)

lemma backing_length: "timers_ok s \<Longrightarrow> t < TIMER_MAX \<Longrightarrow> length (ts_backing s ! t) = 4"
  using list_all_nth [of "\<lambda>xs. length xs = 4" "ts_backing s" t] by (simp add: timers_ok_def)

lemma callback_not_null: "timers_ok s \<Longrightarrow> t < TIMER_MAX \<Longrightarrow> ts_callbacks s ! t \<noteq> Null_callback"
  using list_all_nth [of "\<lambda>cb. cb \<noteq> Null_callback" "ts_callbacks s" t] by (simp add: timers_ok_def)


lemma timers_ok_write_info:
  assumes "timers_ok s"
  shows "timers_ok (write_info p x s)"
proof (cases p)
  case (Some a)
  obtain t c where a: "a = (t, c)" by (cases a)
  have "list_all (\<lambda>xs. length xs = 4) ((ts_backing s)[t := (ts_backing s ! t)[c := x]])"
    using assms list_all_nth [of _ "ts_backing s" t] unfolding timers_ok_def by (intro list_all_update) auto
  then show ?thesis using assms by (simp add: Some a write_info_def timers_ok_def)
qed (use assms in \<open>simp add: write_info_def timers_ok_def\<close>)

lemma write_info_simps [simp]:
  "ts_callbacks (write_info p x s) = ts_callbacks s" "ts_data (write_info p x s) = ts_data s"
  "ts_infos (write_info p x s) = ts_infos s" "ts_regs (write_info p x s) = ts_regs s"
  "ts_handles (write_info p x s) = ts_handles s" "ts_called (write_info p x s) = ts_called s"
  by (auto simp: write_info_def split: option.split)

lemma init_timer_frame [simp]:
  "ts_callbacks (init_timer ok c s) = ts_callbacks s" "ts_data (init_timer ok c s) = ts_data s"
  "ts_regs (init_timer ok c s) = ts_regs s" "ts_infos (init_timer ok c s) = ts_infos s"
  "ts_backing (init_timer ok c s) = ts_backing s" "ts_called (init_timer ok c s) = ts_called s"
  "ts_handles (init_timer ok c s) = (ts_handles s)[tc_idx c := True]"
  by (simp_all add: init_timer_def enable_rcc_def Let_def split: option.split)



section \<open>The interrupts\<close>

lemma capture_callback_frame:
  assumes "timers_ok s" "ts_handles s ! t"
  obtains s' where "capture_callback ck t ch s = Some s'" "timers_ok s'" "ts_regs s' = ts_regs s"
    "ts_called s' = ts_called s" "ts_callbacks s' = ts_callbacks s" "ts_data s' = ts_data s" "ts_handles s' = ts_handles s"
proof (rule exE [of "\<lambda>s'. capture_callback ck t ch s = Some s' \<and> (s' = s \<or> (\<exists>p x. s' = write_info p x s))"])
  show "\<exists>s'. capture_callback ck t ch s = Some s' \<and> (s' = s \<or> (\<exists>p x. s' = write_info p x s))"
    using assms(2) unfolding capture_callback_def Let_def by (simp only: simp_thms if_False) (metis (no_types))
qed (use that assms timers_ok_write_info [OF assms(1)] in auto)

text \<open>The flags \<open>m\<close> of a timer are cleared and nothing else changes but what the timer captured.\<close>

definition without_flags :: "u32 \<Rightarrow> timer_regs \<Rightarrow> timer_regs" where
  "without_flags m r = r\<lparr>tr_sr := tr_sr r AND NOT m\<rparr>"

definition cleared :: "nat \<Rightarrow> u32 \<Rightarrow> timer_state \<Rightarrow> timer_state \<Rightarrow> bool" where
  "cleared t m s s' \<longleftrightarrow>
     ts_regs s' = (ts_regs s)[t := without_flags m (ts_regs s ! t)] \<and>
     ts_callbacks s' = ts_callbacks s \<and> ts_data s' = ts_data s \<and> ts_handles s' = ts_handles s"

lemma without_flags_none: "tr_sr r AND m = 0 \<Longrightarrow> without_flags m r = r"
proof -
  assume a: "tr_sr r AND m = 0"
  have "tr_sr r = tr_sr r AND (m OR NOT m)" by simp
  also have "\<dots> = (tr_sr r AND m) OR (tr_sr r AND NOT m)" by (rule bit.conj_disj_distrib)
  finally have "tr_sr r AND NOT m = tr_sr r" by (simp add: a)
  then show ?thesis by (cases r) (simp add: without_flags_def)
qed

lemma without_flags_twice: "without_flags n (without_flags m r) = without_flags (m OR n) r"
  by (cases r) (simp add: without_flags_def and.assoc)

lemma cleared_trans:
  "cleared t m s s' \<Longrightarrow> cleared t n s' s'' \<Longrightarrow> t < length (ts_regs s) \<Longrightarrow> cleared t (m OR n) s s''"
  by (simp add: cleared_def without_flags_twice)

lemma cleared_refl: "\<not> sr_set t m s \<Longrightarrow> cleared t m s s"
  by (simp add: cleared_def sr_set_def without_flags_none)

lemma cleared_clear_sr: "cleared t m s (clear_sr t m s)"
proof -
  have "tr_sr_update (\<lambda>r. r AND NOT m) r = without_flags m r" for r :: timer_regs
    by (cases r) (simp add: without_flags_def)
  then show ?thesis by (simp add: cleared_def clear_sr_def on_regs_def)
qed

lemma serve_flags_spec:
  assumes "timers_ok s" "t < TIMER_MAX"
  shows "\<exists>s'. serve_flags t m s = Some s' \<and> timers_ok s' \<and> cleared t m s s' \<and>
    ts_called s' = ts_called s @ (if sr_set t m s then [(ts_callbacks s ! t, ts_data s ! t)] else [])"
proof (cases "sr_set t m s")
  case True
  let ?s = "clear_sr t m s"
  have c: "cleared t m s ?s" "ts_called ?s = ts_called s"
    by (rule cleared_clear_sr) (simp add: clear_sr_def on_regs_def)
  have ok: "timers_ok ?s" using assms(1) unfolding clear_sr_def by (rule timers_ok_on_regs)
  then have "serve_flags t m s = Some (?s\<lparr>ts_called := ts_called ?s @ [(ts_callbacks ?s ! t, ts_data ?s ! t)]\<rparr>)"
    using True callback_not_null [OF ok assms(2)] by (simp add: serve_flags_def call_callback_def)
  moreover have "timers_ok (?s\<lparr>ts_called := x\<rparr>)" for x using ok by (simp add: timers_ok_def)
  moreover have "cleared t m s (?s\<lparr>ts_called := x\<rparr>)" for x using c(1) by (simp add: cleared_def)
  ultimately show ?thesis using True c by (simp add: cleared_def)
next
  case False
  then show ?thesis using assms cleared_refl by (simp add: serve_flags_def)
qed

definition channel_flags :: "nat list \<Rightarrow> u32" where
  "channel_flags chs = foldr (\<lambda>ch m. push_bit ch 1 OR m) chs 0"

lemma sr_set_or: "sr_set t (m OR n) s \<longleftrightarrow> sr_set t m s \<or> sr_set t n s"
  by (simp add: sr_set_def bit.conj_disj_distrib or_eq_0_iff)

lemma serve_channels_spec:
  assumes "timers_ok s" "t < TIMER_MAX" "ts_handles s ! t \<or> \<not> sr_set t (channel_flags chs) s"
  shows "\<exists>s'. serve_channels ck t chs s = Some s' \<and> timers_ok s' \<and> cleared t (channel_flags chs) s s' \<and> ts_called s' = ts_called s"
  using assms
proof (induction chs arbitrary: s)
  case Nil
  then show ?case by (simp add: channel_flags_def cleared_def without_flags_none)
next
  case (Cons ch chs)
  let ?m = "push_bit ch 1 :: u32"
  have f: "channel_flags (ch # chs) = ?m OR channel_flags chs" by (simp add: channel_flags_def)
  have l: "t < length (ts_regs s)" using Cons.prems(1,2) by (simp add: timers_ok_def)
  show ?case
  proof (cases "sr_set t ?m s")
    case True
    then have h: "ts_handles s ! t" using Cons.prems(3) by (simp add: f sr_set_or)
    obtain s1 where s1: "capture_callback ck t (ch - 1) s = Some s1" "timers_ok s1" "ts_regs s1 = ts_regs s"
      "ts_called s1 = ts_called s" "ts_callbacks s1 = ts_callbacks s" "ts_data s1 = ts_data s" "ts_handles s1 = ts_handles s"
      using capture_callback_frame [OF Cons.prems(1) h] .
    let ?s = "clear_sr t ?m s1"
    have ok: "timers_ok ?s" using s1(2) unfolding clear_sr_def by (rule timers_ok_on_regs)
    have c: "cleared t ?m s ?s" using cleared_clear_sr [of t ?m s1] s1 by (simp add: cleared_def)
    moreover have "ts_called ?s = ts_called s" using s1 by (simp add: clear_sr_def on_regs_def)
    moreover have "ts_handles ?s ! t" using c h by (simp add: cleared_def)
    ultimately show ?thesis
      using Cons.IH [OF ok Cons.prems(2)] True s1(1) cleared_trans [OF c _ l] unfolding f by (auto simp: Let_def)
  next
    case False
    then have "ts_handles s ! t \<or> \<not> sr_set t (channel_flags chs) s" using Cons.prems(3) by (simp add: f sr_set_or)
    from Cons.IH [OF Cons.prems(1,2) this] False cleared_trans [OF cleared_refl [OF False] _ l]
    show ?thesis unfolding f by (auto simp: Let_def)
  qed
qed

section \<open>What every run of the domain keeps\<close>

text \<open>The steps of a board with the handles the initialization made ready: callbacks are set, channels are given to input
  captures, the hardware changes the registers of a timer, of which a timer that is not initialized never raises
  a flag of its channels, and interrupts are served.\<close>

definition flags_allowed :: "nat \<Rightarrow> timer_state \<Rightarrow> bool" where
  "flags_allowed t s \<longleftrightarrow> ts_handles s ! t \<or> \<not> sr_set t (channel_flags [1, 2, 3, 4]) s"



text \<open>The flags of a timer's interrupt: the update and the four channels.\<close>

lemma interrupt_flags: "1 OR channel_flags [1, 2, 3, 4] = 0x1F"
  by code_simp

text \<open>Clearing flags raises none.\<close>

lemma cleared_allowed:
  assumes "cleared t m s s'" "flags_allowed i s" "t < length (ts_regs s)"
  shows "flags_allowed i s'"
  using assms by (cases "i = t") (auto simp: flags_allowed_def sr_set_def cleared_def without_flags_def and.assoc and.left_commute)

lemma interrupt_effect:
  assumes "timers_ok s" "t < TIMER_MAX" "flags_allowed t s"
  shows "\<exists>s'. TIM_InterruptCallback ck t s = Some s' \<and> timers_ok s' \<and> cleared t 0x1F s s' \<and>
    ts_called s' = ts_called s @ (if sr_set t 1 s then [(ts_callbacks s ! t, ts_data s ! t)] else [])"
proof -
  have l: "t < length (ts_regs s)" using assms(1,2) by (simp add: timers_ok_def)
  obtain s1 where s1: "serve_flags t 1 s = Some s1" "timers_ok s1" "cleared t 1 s s1"
    "ts_called s1 = ts_called s @ (if sr_set t 1 s then [(ts_callbacks s ! t, ts_data s ! t)] else [])"
    using serve_flags_spec [OF assms(1,2), of 1] by blast
  have "flags_allowed t s1" using cleared_allowed [OF s1(3) assms(3) l] .
  then have "ts_handles s1 ! t \<or> \<not> sr_set t (channel_flags [1, 2, 3, 4]) s1" by (simp only: flags_allowed_def)
  from serve_channels_spec [OF s1(2) assms(2) this, of ck] obtain s2 where s2:
    "serve_channels ck t [1, 2, 3, 4] s1 = Some s2" "timers_ok s2" "cleared t (channel_flags [1, 2, 3, 4]) s1 s2"
    "ts_called s2 = ts_called s1" by blast
  show ?thesis
    using s1 s2 cleared_trans [OF s1(3) s2(3) l] unfolding interrupt_flags TIM_InterruptCallback_def by simp
qed

lemma flags_allowed_frame [simp]:
  "flags_allowed i (set_timer_callback t cb data s) = flags_allowed i s"
  "flags_allowed i (input_capture_init t r f s) = flags_allowed i s"
  by (simp_all add: flags_allowed_def sr_set_def set_timer_callback_def input_capture_init_def)





text \<open>C35. An interrupt of a timer: if the update flag is set, the callback of that timer is called, once and with its data; the flags
  of the update and of the four channels are cleared, and the other flags, the other timers and the
  callbacks stay.\<close>

theorem interrupt_served:
  assumes "timers_ok s" "t < TIMER_MAX" "flags_allowed t s"
  shows "\<exists>s'. TIM_InterruptCallback ck t s = Some s' \<and>
    ts_called s' = ts_called s @ (if sr_set t 1 s then [(ts_callbacks s ! t, ts_data s ! t)] else []) \<and>
    ts_regs s' = (ts_regs s)[t := (ts_regs s ! t)\<lparr>tr_sr := tr_sr (ts_regs s ! t) AND NOT 0x1F\<rparr>] \<and>
    ts_callbacks s' = ts_callbacks s \<and> ts_data s' = ts_data s"
  using interrupt_effect [OF assms, of ck] unfolding cleared_def without_flags_def by blast

section \<open>What an input capture measures\<close>

text \<open>A counter goes from zero to the limit, so that it has one more value than the limit: \<open>d\<close> ticks after the value \<open>v\<close> it
  has the value \<open>counter_after arr v d\<close>.\<close>

definition counter_after :: "u32 \<Rightarrow> u32 \<Rightarrow> nat \<Rightarrow> u32" where
  "counter_after arr v d = of_nat ((unat v + d) mod (unat arr + 1))"

lemma counted_since_after:
  assumes "v \<le> arr" "d \<le> unat arr"
  shows "counted_since arr (counter_after arr v d) v = (if unat v + d \<le> unat arr then of_nat d else of_nat d - 2)"
proof (cases "unat v + d \<le> unat arr")
  case True
  then have b: "unat v + d < 2 ^ 32" using unat_less32 [of arr] by simp
  have "counter_after arr v d = of_nat (unat v + d)" using True by (simp add: counter_after_def)
  moreover have "v \<le> of_nat (unat v + d)"
    unfolding word_le_nat_alt unat_of_nat32 [OF b] by simp
  ultimately show ?thesis using True by (simp add: counted_since_def)
next
  case False
  let ?c = "unat v + d - (unat arr + 1)"
  have va: "unat v \<le> unat arr" using assms(1) by (simp add: word_le_nat_alt)
  then have c: "?c < unat v" "?c < unat arr + 1" using False assms(2) by linarith+
  have "unat v + d = ?c + (unat arr + 1)" using False by simp
  then have "(unat v + d) mod (unat arr + 1) = ?c" using c(2) by (metis mod_add_self2 mod_less)
  then have k: "counter_after arr v d = of_nat ?c" by (simp add: counter_after_def)
  have "?c < 2 ^ 32" using c(1) unat_less32 [of v] by simp
  then have "\<not> v \<le> of_nat ?c" using c(1) unfolding word_le_nat_alt by (simp only: unat_of_nat32 not_le)
  moreover have "of_nat ?c = v + of_nat d - arr - 1"
    using False by (simp add: of_nat_diff)
  ultimately show ?thesis using False by (simp add: counted_since_def k)
qed

text \<open>A channel the timer \<open>t\<close> captures the rising edges of, as \<open>input_capture_init\<close> makes it.\<close>

definition rising_channel :: "nat \<Rightarrow> nat \<Rightarrow> timer_state \<Rightarrow> bool" where
  "rising_channel t ch s \<longleftrightarrow>
     ts_handles s ! t \<and> ch < 4 \<and> ts_infos s ! t ! ch = Some (t, ch) \<and> unat (ci_channel_rising (ts_backing s ! t ! ch)) = ch"

lemma rising_channel_init:
  assumes "timers_ok s" "t < TIMER_MAX" "ts_handles s ! t" "r < 4" "f < 4" "r \<noteq> f"
  shows "rising_channel t r (input_capture_init t r f s)"
  using assms infos_length [OF assms(1,2)] backing_length [OF assms(1,2)]
  by (simp add: rising_channel_def input_capture_init_def timers_ok_def unat_of_nat)

lemma capture_rising:
  assumes "timers_ok s" "t < TIMER_MAX" "rising_channel t ch s"
  shows "map_option (\<lambda>s'. ts_backing s' ! t ! ch) (capture_callback ck t ch s) =
    Some (captured_rising (get_timer_frequency ck (cmsis_timers ! t)) (ts_regs s ! t) (tr_ccr (ts_regs s ! t) ! ch) (ts_backing s ! t ! ch))"
  using assms backing_length [OF assms(1,2)]
  by (simp add: rising_channel_def capture_callback_def Let_def read_info_def write_info_def timers_ok_def)

text \<open>C36. Two rising edges of an input capture, \<open>d\<close> ticks apart: where the counter does not pass its limit between them the period
  is \<open>d\<close> and the frequency that of the counter divided by it, and where it passes the limit the period is
  \<open>d - 2\<close>: a counter that goes from zero to the limit has one value more than the limit, and the
  code takes one less. (A period of zero, and one that is not longer than the last pulse, are not taken.)\<close>

theorem rising_edges_measured:
  assumes "timers_ok s" "t < TIMER_MAX" "rising_channel t ch s" "x = ts_backing s ! t ! ch" "r = ts_regs s ! t"
    and "ci_value_rising x \<le> tr_arr r" "d \<le> unat (tr_arr r)" "tr_ccr r ! ch = counter_after (tr_arr r) (ci_value_rising x) d"
    and "n = (if unat (ci_value_rising x) + d \<le> unat (tr_arr r) then of_nat d else of_nat d - 2)"
    and "n \<noteq> 0" "ci_value_falling x < n"
  shows "map_option (\<lambda>s'. ts_backing s' ! t ! ch) (capture_callback ck t ch s) =
    Some (x\<lparr>ci_period := n, ci_frequency := get_timer_frequency ck (cmsis_timers ! t) div (ucast (tr_psc r) + 1) div n,
      ci_duty := Some (ci_value_falling x, n), ci_value_rising := tr_ccr r ! ch\<rparr>)"
proof -
  have "counted_since (tr_arr r) (tr_ccr r ! ch) (ci_value_rising x) = n"
    unfolding assms(8,9) by (rule counted_since_after [OF assms(6,7)])
  then show ?thesis
    using capture_rising [OF assms(1-3), of ck] assms(4,5,10,11)
    by (simp add: captured_rising_def Let_def)
qed

text \<open>A pulse: the value of the falling edge is kept if it is shorter than the period.\<close>

lemma capture_falling:
  assumes "timers_ok s" "t < TIMER_MAX" "ts_handles s ! t" "ch < 4" "c < 4" "ts_infos s ! t ! ch = Some (t, c)"
    and "x = ts_backing s ! t ! c" "unat (ci_channel_rising x) \<noteq> ch" "unat (ci_channel_falling x) = ch"
  shows "map_option (\<lambda>s'. ts_backing s' ! t ! c) (capture_callback ck t ch s) =
    Some (captured_falling (ts_regs s ! t) (tr_ccr (ts_regs s ! t) ! ch) x)"
  using assms backing_length [OF assms(1,2)]
  by (simp add: capture_callback_def Let_def read_info_def write_info_def timers_ok_def)

text \<open>The first edge after the capture is turned on, \<open>v\<close> ticks after the counter was cleared: a frequency is
  given although there is no period yet. (\<open>get_duty_cycle\<close> says the frequency is zero then.)\<close>

lemma first_edge_measured:
  assumes "v \<noteq> 0" "ci_value_rising x = 0" "ci_value_falling x = 0"
  shows "ci_frequency (captured_rising f r v x) = f div (ucast (tr_psc r) + 1) div v"
  using assms by (simp add: captured_rising_def Let_def counted_since_def word_neq_0_conv)

section \<open>Requests and pins that pass the checks\<close>

text \<open>The alternate function of a pin is that of the first pin with the same channel, and a timer that does not exist is no error.\<close>

lemma alternate_function_of_other_pin:
  "get_gpio_af 15 \<lparr>tp_af = TimerAF_PWM, tp_pin = PIN PC 12, tp_channel = CHANNEL_1\<rparr> = Inr AF4 \<and>
   (PIN PC 12, AF2, Channel_1) \<in> set (tim_pins 15) \<and> (PIN PC 12, AF4, Channel_1) \<notin> set (tim_pins 15)"
  by code_simp

lemma missing_timer_accepted: "check_timer_request (plain_request 9) = None \<and> timer_idxmap ! 9 = 255"
  by code_simp

section \<open>Witnesses\<close>

definition idle_regs :: timer_regs where
  "idle_regs =
     \<lparr>tr_cr1 = 0, tr_cr2 = 0, tr_smcr = 0, tr_dier = 0, tr_sr = 0, tr_ccmr1 = 0, tr_ccmr2 = 0, tr_ccmr3 = 0, tr_ccer = 0,
      tr_cnt = 0, tr_psc = 0, tr_arr = 1000, tr_ccr = replicate 6 0, tr_bdtr = 0\<rparr>"

text \<open>A board with the timer 3, whose channels 1 and 2 capture: the last rising edge was at 900, and the counter is at 49.\<close>

definition capturing_board :: timer_state where
  "capturing_board =
     (let s = init_timers (\<lambda>_. True) [timer_config_for 3 (plain_request 3)] (initial_timers (replicate TIMER_MAX idle_regs));
          s = input_capture_init 1 0 1 s;
          s = set_timer_callback 1 (User_callback 7) (Some 42) s;
          s = write_info (Some (1, 0)) ((ts_backing s ! 1 ! 0)\<lparr>ci_value_rising := 900\<rparr>) s
      in on_regs 1 (\<lambda>r. r\<lparr>tr_sr := 0x43, tr_ccr := [49, 0, 0, 0, 0, 0]\<rparr>) s)"

definition some_clocks :: timer_clocks where
  "some_clocks = \<lparr>pclk1 = 100000000, pclk1_divided = True, pclk2 = 100000000, pclk2_divided = True\<rparr>"

lemma capturing_board_facts:
  "timers_ok capturing_board" "rising_channel 1 0 capturing_board" "flags_allowed 1 capturing_board"
  by code_simp+

lemma rising_edges_measured_witness:
  "map_option (\<lambda>s'. ci_period (ts_backing s' ! 1 ! 0)) (capture_callback some_clocks 1 0 capturing_board) = Some 148 \<and>
   counter_after 1000 900 150 = 49"
proof -
  let ?x = "ts_backing capturing_board ! 1 ! 0" and ?r = "ts_regs capturing_board ! 1"
  have "(1 :: nat) < TIMER_MAX" by (simp add: TIMER_MAX_def)
  moreover have "ci_value_rising ?x \<le> tr_arr ?r" "150 \<le> unat (tr_arr ?r)" by code_simp+
  moreover have "tr_ccr ?r ! 0 = counter_after (tr_arr ?r) (ci_value_rising ?x) 150" by code_simp
  moreover have "148 = (if unat (ci_value_rising ?x) + 150 \<le> unat (tr_arr ?r) then of_nat 150 else of_nat 150 - 2 :: u32)" by code_simp
  moreover have "ci_value_falling ?x < 148" by code_simp
  ultimately have "map_option (\<lambda>s'. ts_backing s' ! 1 ! 0) (capture_callback some_clocks 1 0 capturing_board) =
      Some (?x\<lparr>ci_period := 148, ci_frequency := get_timer_frequency some_clocks (cmsis_timers ! 1) div (ucast (tr_psc ?r) + 1) div 148,
        ci_duty := Some (ci_value_falling ?x, 148), ci_value_rising := tr_ccr ?r ! 0\<rparr>)"
    using capturing_board_facts by (intro rising_edges_measured [where d = 150]) simp_all
  moreover have "counter_after 1000 900 150 = 49" by code_simp
  ultimately show ?thesis by auto
qed

lemma interrupt_served_witness:
  "map_option (\<lambda>s'. (ts_called s', tr_sr (ts_regs s' ! 1))) (TIM_InterruptCallback some_clocks 1 capturing_board) =
     Some ([(User_callback 7, Some 42)], 0x40)"
proof -
  have "(1 :: nat) < TIMER_MAX" by (simp add: TIMER_MAX_def)
  from interrupt_served [OF capturing_board_facts(1) this capturing_board_facts(3), of some_clocks]
  obtain s' where s': "TIM_InterruptCallback some_clocks 1 capturing_board = Some s'"
    "ts_called s' = ts_called capturing_board @ (if sr_set 1 1 capturing_board then
       [(ts_callbacks capturing_board ! 1, ts_data capturing_board ! 1)] else [])"
    "ts_regs s' = (ts_regs capturing_board)[1 := (ts_regs capturing_board ! 1)\<lparr>tr_sr := tr_sr (ts_regs capturing_board ! 1) AND NOT 0x1F\<rparr>]"
    by blast
  have "ts_called capturing_board = [] \<and> sr_set 1 1 capturing_board \<and> ts_callbacks capturing_board ! 1 = User_callback 7 \<and>
      ts_data capturing_board ! 1 = Some 42 \<and> tr_sr (ts_regs capturing_board ! 1) = 0x43 \<and> length (ts_regs capturing_board) = 16"
    by code_simp
  then show ?thesis using s' by simp
qed


section \<open>The timer of the tests\<close>

text \<open>\<open>Inc/MockedDrivers/mocked_ll_tim.hpp\<close> and \<open>Src/MockedDrivers/mocked_ll_tim.cpp\<close> are the repository's own model of a timer: a
  tick, the rollover of the counter with its update event and flag, and the repetition counter. A tick tells whether it
  calls the interrupt handler.\<close>

record mock_timer =
  mt_regs :: timer_regs
  mt_rcr :: u32
  mt_psc_cnt :: u32
  mt_rcr_cnt :: u32
  mt_active_psc :: u32
  mt_active_arr :: u32
  mt_active_rcr :: u32

definition check_CNT_increase_preconditions :: "mock_timer \<Rightarrow> bool \<times> mock_timer" where
  "check_CNT_increase_preconditions m =
     (if tr_cr1 (mt_regs m) AND 1 = 0 then (False, m)
      else if mt_active_psc m \<le> mt_psc_cnt m then (True, m\<lparr>mt_psc_cnt := 0\<rparr>)
      else (False, m\<lparr>mt_psc_cnt := mt_psc_cnt m + 1\<rparr>))"

definition simulate_ticks :: "bool \<Rightarrow> mock_timer \<Rightarrow> bool \<times> mock_timer" where
  "simulate_ticks nvic m =
     (let r = mt_regs m;
          current_limit = (if tr_cr1 r AND 0x80 \<noteq> 0 then mt_active_arr m else tr_arr r)
      in if current_limit < tr_cnt r then
           (let m = m\<lparr>mt_regs := r\<lparr>tr_cnt := 0\<rparr>\<rparr>
            in if mt_rcr_cnt m = 0 then
                 (let m = m\<lparr>mt_active_psc := ucast (tr_psc r), mt_active_arr := tr_arr r, mt_active_rcr := mt_rcr m\<rparr>;
                      up = tr_cr1 r AND 2 = 0;
                      m = (if up then m\<lparr>mt_regs := (mt_regs m)\<lparr>tr_sr := tr_sr r OR 1\<rparr>\<rparr> else m)
                  in (up \<and> nvic, m\<lparr>mt_rcr_cnt := mt_active_rcr m\<rparr>))
               else (False, m\<lparr>mt_rcr_cnt := mt_rcr_cnt m - 1\<rparr>))
         else (False, m))"

text \<open>\<open>calls\<close> are the calls of the handler, which the model does not run.\<close>

definition inc_cnt_and_check :: "bool \<Rightarrow> u32 \<Rightarrow> mock_timer \<Rightarrow> bool \<times> mock_timer" where
  "inc_cnt_and_check nvic val m =
     (if val = 0 then (False, m)
      else
        (case check_CNT_increase_preconditions m of
           (True, m) \<Rightarrow> simulate_ticks nvic (m\<lparr>mt_regs := (mt_regs m)\<lparr>tr_cnt := tr_cnt (mt_regs m) + val\<rparr>\<rparr>)
         | (False, m) \<Rightarrow> (False, m)))"

definition tick :: "bool \<Rightarrow> mock_timer \<Rightarrow> mock_timer" where
  "tick nvic m = snd (inc_cnt_and_check nvic 1 m)"

text \<open>A timer that counts every tick to the limit of its register.\<close>

definition free_running :: "mock_timer \<Rightarrow> bool" where
  "free_running m \<longleftrightarrow> tr_cr1 (mt_regs m) AND 1 \<noteq> 0 \<and> tr_cr1 (mt_regs m) AND 0x80 = 0 \<and> mt_active_psc m = 0 \<and> tr_psc (mt_regs m) = 0 \<and>
     tr_cnt (mt_regs m) \<le> tr_arr (mt_regs m)"

lemma tick_counts:
  assumes "free_running m"
  shows "tr_cnt (mt_regs (tick nvic m)) = (if tr_cnt (mt_regs m) = tr_arr (mt_regs m) then 0 else tr_cnt (mt_regs m) + 1)"
    and "tr_arr (mt_regs (tick nvic m)) = tr_arr (mt_regs m)" and "free_running (tick nvic m)"
proof -
  let ?r = "mt_regs m"
  have le: "tr_cnt ?r + 1 \<le> tr_arr ?r" if "tr_cnt ?r \<noteq> tr_arr ?r"
    using assms that by (intro inc_le) (simp add: free_running_def order_le_imp_less_or_eq order.not_eq_order_implies_strict)
  have z: "tr_cnt ?r + 1 = 0" if "tr_cnt ?r = tr_arr ?r" "\<not> tr_arr ?r < tr_cnt ?r + 1"
    using that unatSuc [of "tr_cnt ?r"] by (auto simp: word_less_nat_alt add.commute)
  show "tr_cnt (mt_regs (tick nvic m)) = (if tr_cnt (mt_regs m) = tr_arr (mt_regs m) then 0 else tr_cnt (mt_regs m) + 1)"
    using assms le z unfolding free_running_def
    by (auto simp: tick_def inc_cnt_and_check_def check_CNT_increase_preconditions_def simulate_ticks_def Let_def)
  show "tr_arr (mt_regs (tick nvic m)) = tr_arr (mt_regs m)"
    by (simp add: tick_def inc_cnt_and_check_def check_CNT_increase_preconditions_def simulate_ticks_def Let_def)
  show "free_running (tick nvic m)"
    using assms le z unfolding free_running_def
    by (auto simp: tick_def inc_cnt_and_check_def check_CNT_increase_preconditions_def simulate_ticks_def Let_def)
qed

lemma counter_after_Suc:
  assumes "v \<le> arr"
  shows "counter_after arr v (Suc d) = (if counter_after arr v d = arr then 0 else counter_after arr v d + 1)"
proof -
  let ?n = "unat arr + 1" and ?k = "(unat v + d) mod (unat arr + 1)"
  have k: "?k < ?n" by simp
  then have k32: "?k < 2 ^ 32" using unat_less32 [of arr] by linarith
  have e: "counter_after arr v d = arr \<longleftrightarrow> ?k = unat arr"
    using unat_of_nat32 [OF k32] by (auto simp: counter_after_def word_unat_eq_iff)
  have "(unat v + Suc d) mod ?n = Suc (unat v + d) mod ?n" by simp
  also have "\<dots> = (if Suc ?k = ?n then 0 else Suc ?k)" by (rule mod_Suc)
  finally show ?thesis unfolding e by (simp add: counter_after_def)
qed

text \<open>The counter of the repository's own timer: after \<open>d\<close> ticks from \<open>v\<close> it is at \<open>counter_after arr v d\<close>: it takes the limit plus
  one ticks around. This is the counter the measured periods are stated over.\<close>

theorem counter_goes_around:
  assumes "free_running m"
  shows "tr_cnt (mt_regs ((tick nvic ^^ d) m)) = counter_after (tr_arr (mt_regs m)) (tr_cnt (mt_regs m)) d"
proof -
  have v: "tr_cnt (mt_regs m) \<le> tr_arr (mt_regs m)" using assms by (simp add: free_running_def)
  have z: "counter_after (tr_arr (mt_regs m)) (tr_cnt (mt_regs m)) 0 = tr_cnt (mt_regs m)"
    using v by (simp add: counter_after_def word_le_nat_alt)
  have "tr_cnt (mt_regs ((tick nvic ^^ d) m)) = counter_after (tr_arr (mt_regs m)) (tr_cnt (mt_regs m)) d \<and>
      tr_arr (mt_regs ((tick nvic ^^ d) m)) = tr_arr (mt_regs m) \<and> free_running ((tick nvic ^^ d) m)"
    by (induction d) (simp_all add: assms z tick_counts counter_after_Suc [OF v])
  then show ?thesis by blast
qed

lemma counter_goes_around_witness:
  "tr_cnt (mt_regs ((tick True ^^ 1500) \<lparr>mt_regs = idle_regs\<lparr>tr_cr1 := 1, tr_cnt := 900\<rparr>, mt_rcr = 0, mt_psc_cnt = 0, mt_rcr_cnt = 0,
     mt_active_psc = 0, mt_active_arr = 0, mt_active_rcr = 0\<rparr>)) = 398"
proof -
  let ?m = "\<lparr>mt_regs = idle_regs\<lparr>tr_cr1 := 1, tr_cnt := 900\<rparr>, mt_rcr = 0, mt_psc_cnt = 0, mt_rcr_cnt = 0,
     mt_active_psc = 0, mt_active_arr = 0, mt_active_rcr = 0\<rparr>"
  have "free_running ?m" by code_simp
  moreover have "counter_after 1000 900 1500 = 398" by code_simp
  ultimately show ?thesis using counter_goes_around [of ?m 1500 True] by (simp add: idle_regs_def)
qed

end
