(* ===== verification/Outputs.thy ===== *)
theory Outputs
  imports Timers
begin

unbundle bit_operations_syntax

text \<open>
  What a board does with a timer it has (\<open>Inc/HALAL/Services/Time/TimerWrapper.hpp\<close>, \<open>PWM/PWM.hpp\<close>, \<open>PWM/DualPWM.hpp\<close>,
  \<open>InputCapture/InputCapture.hpp\<close>, \<open>Encoder/Encoder.hpp\<close>): what a wrapper knows of its timer, the switches of its
  registers, the configuration of its channels, and the pulse width modulations, input captures and encoders
  over them. The bits of the registers are those the repository gives for its tests in
  \<open>Inc/MockedDrivers/stm32h7xx_hal_mock.h\<close>.

  A wrapper is given by the request of its device, which is what the code decides everything on. A
  \<open>compile_error\<close> or failed \<open>static_assert\<close> is \<open>Inl\<close>. The code goes on after a \<open>PANIC\<close>
  where it does not return; the messages are kept. Duty cycles are floating point: their type is a
  parameter, and so are the operations the code applies to them.
\<close>

section \<open>The bits of the registers\<close>

named_theorems timer_bits

definition TIM_OCMODE_PWM1 :: u32 where [timer_bits]:
  "TIM_OCMODE_PWM1 = 96"

definition TIM_OCFAST_DISABLE :: u32 where [timer_bits]:
  "TIM_OCFAST_DISABLE = 0"

definition TIM_OCIDLESTATE_RESET :: u32 where [timer_bits]:
  "TIM_OCIDLESTATE_RESET = 0"

definition TIM_OCNIDLESTATE_RESET :: u32 where [timer_bits]:
  "TIM_OCNIDLESTATE_RESET = 0"

definition TIM_ICPSC_DIV1 :: u32 where [timer_bits]:
  "TIM_ICPSC_DIV1 = 0"

definition TIM_CR1_UDIS :: u32 where [timer_bits]:
  "TIM_CR1_UDIS = push_bit 1 1"

definition TIM_CR1_OPM :: u32 where [timer_bits]:
  "TIM_CR1_OPM = push_bit 3 1"

definition TIM_CR1_DIR :: u32 where [timer_bits]:
  "TIM_CR1_DIR = push_bit 4 1"

definition TIM_CR1_CMS_0 :: u32 where [timer_bits]:
  "TIM_CR1_CMS_0 = push_bit 5 1"

definition TIM_CR1_CMS_1 :: u32 where [timer_bits]:
  "TIM_CR1_CMS_1 = push_bit 6 1"

definition TIM_CR1_CMS :: u32 where [timer_bits]:
  "TIM_CR1_CMS = TIM_CR1_CMS_0 OR TIM_CR1_CMS_1"

definition TIM_CR2_OIS1 :: u32 where [timer_bits]:
  "TIM_CR2_OIS1 = push_bit 8 1"

definition TIM_CR2_OIS1N :: u32 where [timer_bits]:
  "TIM_CR2_OIS1N = push_bit 9 1"

definition TIM_CR2_OIS2 :: u32 where [timer_bits]:
  "TIM_CR2_OIS2 = push_bit 10 1"

definition TIM_CR2_OIS2N :: u32 where [timer_bits]:
  "TIM_CR2_OIS2N = push_bit 11 1"

definition TIM_CR2_OIS3 :: u32 where [timer_bits]:
  "TIM_CR2_OIS3 = push_bit 12 1"

definition TIM_CR2_OIS3N :: u32 where [timer_bits]:
  "TIM_CR2_OIS3N = push_bit 13 1"

definition TIM_CR2_OIS4 :: u32 where [timer_bits]:
  "TIM_CR2_OIS4 = push_bit 14 1"

definition TIM_CR2_OIS5 :: u32 where [timer_bits]:
  "TIM_CR2_OIS5 = push_bit 16 1"

definition TIM_CR2_OIS6 :: u32 where [timer_bits]:
  "TIM_CR2_OIS6 = push_bit 18 1"

definition TIM_SMCR_SMS :: u32 where [timer_bits]:
  "TIM_SMCR_SMS = push_bit 0 7"

definition TIM_DIER_UIE :: u32 where [timer_bits]:
  "TIM_DIER_UIE = push_bit 0 1"

definition TIM_DIER_CC1IE :: u32 where [timer_bits]:
  "TIM_DIER_CC1IE = push_bit 1 1"

definition TIM_DIER_CC2IE :: u32 where [timer_bits]:
  "TIM_DIER_CC2IE = push_bit 2 1"

definition TIM_DIER_CC3IE :: u32 where [timer_bits]:
  "TIM_DIER_CC3IE = push_bit 3 1"

definition TIM_DIER_CC4IE :: u32 where [timer_bits]:
  "TIM_DIER_CC4IE = push_bit 4 1"

definition TIM_DIER_BIE :: u32 where [timer_bits]:
  "TIM_DIER_BIE = push_bit 7 1"

definition TIM_CCMR1_CC1S :: u32 where [timer_bits]:
  "TIM_CCMR1_CC1S = push_bit 0 3"

definition TIM_CCMR1_IC1PSC :: u32 where [timer_bits]:
  "TIM_CCMR1_IC1PSC = push_bit 2 3"

definition TIM_CCMR1_OC1PE :: u32 where [timer_bits]:
  "TIM_CCMR1_OC1PE = push_bit 3 1"

definition TIM_CCMR1_IC1F :: u32 where [timer_bits]:
  "TIM_CCMR1_IC1F = push_bit 4 15"

definition TIM_CCMR1_OC1M :: u32 where [timer_bits]:
  "TIM_CCMR1_OC1M = push_bit 4 7"

definition TIM_CCMR1_CC2S :: u32 where [timer_bits]:
  "TIM_CCMR1_CC2S = push_bit 8 3"

definition TIM_CCMR1_IC2PSC :: u32 where [timer_bits]:
  "TIM_CCMR1_IC2PSC = push_bit 10 3"

definition TIM_CCMR1_OC2PE :: u32 where [timer_bits]:
  "TIM_CCMR1_OC2PE = push_bit 11 1"

definition TIM_CCMR1_OC2M :: u32 where [timer_bits]:
  "TIM_CCMR1_OC2M = push_bit 12 7"

definition TIM_CCMR1_IC2F :: u32 where [timer_bits]:
  "TIM_CCMR1_IC2F = push_bit 12 15"

definition TIM_CCMR1_CC1S_0 :: u32 where [timer_bits]:
  "TIM_CCMR1_CC1S_0 = push_bit 0 1"

definition TIM_CCMR1_CC1S_1 :: u32 where [timer_bits]:
  "TIM_CCMR1_CC1S_1 = push_bit 0 2"

definition TIM_CCMR2_CC3S :: u32 where [timer_bits]:
  "TIM_CCMR2_CC3S = push_bit 0 3"

definition TIM_CCMR2_IC3PSC :: u32 where [timer_bits]:
  "TIM_CCMR2_IC3PSC = push_bit 2 3"

definition TIM_CCMR2_OC3PE :: u32 where [timer_bits]:
  "TIM_CCMR2_OC3PE = push_bit 3 1"

definition TIM_CCMR2_OC3M :: u32 where [timer_bits]:
  "TIM_CCMR2_OC3M = push_bit 4 7"

definition TIM_CCMR2_IC3F :: u32 where [timer_bits]:
  "TIM_CCMR2_IC3F = push_bit 4 15"

definition TIM_CCMR2_CC4S :: u32 where [timer_bits]:
  "TIM_CCMR2_CC4S = push_bit 8 3"

definition TIM_CCMR2_IC4PSC :: u32 where [timer_bits]:
  "TIM_CCMR2_IC4PSC = push_bit 10 3"

definition TIM_CCMR2_OC4PE :: u32 where [timer_bits]:
  "TIM_CCMR2_OC4PE = push_bit 11 1"

definition TIM_CCMR2_OC4M :: u32 where [timer_bits]:
  "TIM_CCMR2_OC4M = push_bit 12 7"

definition TIM_CCMR2_IC4F :: u32 where [timer_bits]:
  "TIM_CCMR2_IC4F = push_bit 12 15"

definition TIM_CCMR3_OC5PE :: u32 where [timer_bits]:
  "TIM_CCMR3_OC5PE = push_bit 3 1"

definition TIM_CCMR3_OC5M :: u32 where [timer_bits]:
  "TIM_CCMR3_OC5M = push_bit 4 7"

definition TIM_CCMR3_OC6PE :: u32 where [timer_bits]:
  "TIM_CCMR3_OC6PE = push_bit 11 1"

definition TIM_CCMR3_OC6M :: u32 where [timer_bits]:
  "TIM_CCMR3_OC6M = push_bit 12 7"

definition TIM_CCER_CC1E :: u32 where [timer_bits]:
  "TIM_CCER_CC1E = push_bit 0 1"

definition TIM_CCER_CC1P :: u32 where [timer_bits]:
  "TIM_CCER_CC1P = push_bit 1 1"

definition TIM_CCER_CC1NE :: u32 where [timer_bits]:
  "TIM_CCER_CC1NE = push_bit 2 1"

definition TIM_CCER_CC1NP :: u32 where [timer_bits]:
  "TIM_CCER_CC1NP = push_bit 3 1"

definition TIM_CCER_CC2E :: u32 where [timer_bits]:
  "TIM_CCER_CC2E = push_bit 4 1"

definition TIM_CCER_CC2P :: u32 where [timer_bits]:
  "TIM_CCER_CC2P = push_bit 5 1"

definition TIM_CCER_CC2NE :: u32 where [timer_bits]:
  "TIM_CCER_CC2NE = push_bit 6 1"

definition TIM_CCER_CC2NP :: u32 where [timer_bits]:
  "TIM_CCER_CC2NP = push_bit 7 1"

definition TIM_CCER_CC3E :: u32 where [timer_bits]:
  "TIM_CCER_CC3E = push_bit 8 1"

definition TIM_CCER_CC3P :: u32 where [timer_bits]:
  "TIM_CCER_CC3P = push_bit 9 1"

definition TIM_CCER_CC3NE :: u32 where [timer_bits]:
  "TIM_CCER_CC3NE = push_bit 10 1"

definition TIM_CCER_CC3NP :: u32 where [timer_bits]:
  "TIM_CCER_CC3NP = push_bit 11 1"

definition TIM_CCER_CC4E :: u32 where [timer_bits]:
  "TIM_CCER_CC4E = push_bit 12 1"

definition TIM_CCER_CC4P :: u32 where [timer_bits]:
  "TIM_CCER_CC4P = push_bit 13 1"

definition TIM_CCER_CC4NP :: u32 where [timer_bits]:
  "TIM_CCER_CC4NP = push_bit 15 1"

definition TIM_CCER_CC5E :: u32 where [timer_bits]:
  "TIM_CCER_CC5E = push_bit 16 1"

definition TIM_CCER_CC5P :: u32 where [timer_bits]:
  "TIM_CCER_CC5P = push_bit 17 1"

definition TIM_CCER_CC6E :: u32 where [timer_bits]:
  "TIM_CCER_CC6E = push_bit 20 1"

definition TIM_CCER_CC6P :: u32 where [timer_bits]:
  "TIM_CCER_CC6P = push_bit 21 1"

definition TIM_CCER_CCxE_MASK :: u32 where [timer_bits]:
  "TIM_CCER_CCxE_MASK = TIM_CCER_CC1E OR TIM_CCER_CC2E OR TIM_CCER_CC3E OR TIM_CCER_CC4E OR TIM_CCER_CC5E OR TIM_CCER_CC6E"

definition TIM_CCER_CCxNE_MASK :: u32 where [timer_bits]:
  "TIM_CCER_CCxNE_MASK = TIM_CCER_CC1NE OR TIM_CCER_CC2NE OR TIM_CCER_CC3NE"

definition TIM_INPUTCHANNELPOLARITY_RISING :: u32 where [timer_bits]:
  "TIM_INPUTCHANNELPOLARITY_RISING = 0"

definition TIM_INPUTCHANNELPOLARITY_FALLING :: u32 where [timer_bits]:
  "TIM_INPUTCHANNELPOLARITY_FALLING = TIM_CCER_CC1P"

definition TIM_ICSELECTION_DIRECTTI :: u32 where [timer_bits]:
  "TIM_ICSELECTION_DIRECTTI = TIM_CCMR1_CC1S_0"

definition TIM_ICSELECTION_INDIRECTTI :: u32 where [timer_bits]:
  "TIM_ICSELECTION_INDIRECTTI = TIM_CCMR1_CC1S_1"

definition TIM_BDTR_MOE :: u32 where [timer_bits]:
  "TIM_BDTR_MOE = push_bit 15 1"

definition CLEAR_BIT :: "u32 \<Rightarrow> u32 \<Rightarrow> u32" where
  "CLEAR_BIT x m = x AND NOT m"

definition SET_BIT :: "u32 \<Rightarrow> u32 \<Rightarrow> u32" where
  "SET_BIT x m = x OR m"

section \<open>What a wrapper knows of its timer\<close>

definition is_32bit_instance :: "nat \<Rightarrow> bool" where
  "is_32bit_instance req \<longleftrightarrow> req \<in> set [2, 5, 23, 24, Any32bit]"

definition is_break_instance :: "nat \<Rightarrow> bool" where
  "is_break_instance req \<longleftrightarrow> req \<in> set [1, 8, 15, 16, 17]"

definition is_CC2_instance :: "nat \<Rightarrow> bool" where
  "is_CC2_instance req \<longleftrightarrow> req \<in> set [1, 2, 3, 4, 5, 8, 12, 15, 23, 24]"

definition is_CC3_instance :: "nat \<Rightarrow> bool" where
  "is_CC3_instance req \<longleftrightarrow> req \<in> set [1, 2, 3, 4, 5, 8, 23, 24]"

definition is_CC4_instance :: "nat \<Rightarrow> bool" where
  "is_CC4_instance req \<longleftrightarrow> is_CC3_instance req"

definition is_slave_instance :: "nat \<Rightarrow> bool" where
  "is_slave_instance req \<longleftrightarrow> req \<in> set [1, 2, 3, 4, 5, 8, 12, 15, 23, 24]"

definition only_supports_upcounting :: "nat \<Rightarrow> bool" where
  "only_supports_upcounting req \<longleftrightarrow> req \<in> set [6, 7, 12, 13, 14, 15, 16, 17]"

definition is_on_APB1 :: "nat \<Rightarrow> bool" where
  "is_on_APB1 req \<longleftrightarrow> req \<in> set [2, 3, 4, 5, 6, 7, 12, 13, 14]"

definition is_ccxn_instance :: "nat \<Rightarrow> TimerChannel \<Rightarrow> bool" where
  "is_ccxn_instance req ch \<longleftrightarrow>
     (if req = 1 \<or> req = 8 then
        ch \<in> set [CHANNEL_1, CHANNEL_1_NEGATED, CHANNEL_2, CHANNEL_2_NEGATED, CHANNEL_3, CHANNEL_3_NEGATED]
      else if req = 15 \<or> req = 16 \<or> req = 17 then ch = CHANNEL_1 \<or> ch = CHANNEL_1_NEGATED
      else False)"

definition get_clock_frequency :: "timer_clocks \<Rightarrow> nat \<Rightarrow> u32" where
  "get_clock_frequency ck req =
     (if is_on_APB1 req then (if pclk1_divided ck then pclk1 ck * 2 else pclk1 ck)
      else (if pclk2_divided ck then pclk2 ck * 2 else pclk2 ck))"

text \<open>\<open>TimerDomain.hpp\<close>: the place of a channel among the states of the handle and four times its number.\<close>

definition get_channel_state_idx :: "TimerChannel \<Rightarrow> string + nat" where
  "get_channel_state_idx ch =
     (if ch = CHANNEL_NEGATED_FLAG then Inl ''unreachable''
      else Inr (if 8 < channel_value ch then channel_value ch - 9 else channel_value ch - 1))"

fun get_channel_mul4 :: "TimerChannel \<Rightarrow> string + nat" where
  "get_channel_mul4 CHANNEL_1 = Inr 0"
| "get_channel_mul4 CHANNEL_1_NEGATED = Inr 0"
| "get_channel_mul4 CHANNEL_2 = Inr 4"
| "get_channel_mul4 CHANNEL_2_NEGATED = Inr 4"
| "get_channel_mul4 CHANNEL_3 = Inr 8"
| "get_channel_mul4 CHANNEL_3_NEGATED = Inr 8"
| "get_channel_mul4 CHANNEL_4 = Inr 12"
| "get_channel_mul4 CHANNEL_4_NEGATED = Inr 12"
| "get_channel_mul4 CHANNEL_5 = Inr 16"
| "get_channel_mul4 CHANNEL_6 = Inr 20"
| "get_channel_mul4 CHANNEL_NEGATED_FLAG = Inl ''unreachable''"

text \<open>The pulse width modulation of a pin: the place of its duty cycle.\<close>

fun get_pwm :: "timer_pin list \<Rightarrow> timer_pin \<Rightarrow> string + nat" where
  "get_pwm [] p = Inl ''No pins passed to TimerWrapper are the same as the pins passed to get_pwm() [this method]''"
| "get_pwm (q # qs) p =
     (if tp_pin q = tp_pin p \<and> tp_channel q = tp_channel p then
        (if tp_af q \<noteq> TimerAF_PWM then Inl ''Pin must be configured in TimerDomain as a PWM''
         else Inr (unat ((word_of_nat (channel_value (tp_channel p)) AND NOT 8) - 1 :: u32)))
      else get_pwm qs p)"

definition get_dual_pwm :: "timer_pin list \<Rightarrow> timer_pin \<Rightarrow> timer_pin \<Rightarrow> string + nat" where
  "get_dual_pwm pins p q =
     (if length pins \<le> 1 then Inl ''Need at least two pins on one timer to get a dual pwm''
      else if (word_of_nat (channel_value (tp_channel p)) OR 8 :: u8) \<noteq> word_of_nat (channel_value (tp_channel q)) then
        Inl ''static_assert''
      else if tp_af p \<noteq> TimerAF_PWM \<or> tp_af q \<noteq> TimerAF_PWM then Inl ''static_assert''
      else Inr (channel_value (tp_channel p) - 1))"

text \<open>The checks of an input capture; the prescaler is set while the capture is made.\<close>

definition input_capture_error :: "nat \<Rightarrow> timer_pin \<Rightarrow> TimerChannel \<Rightarrow> string option" where
  "input_capture_error req p f =
     (let r = tp_channel p in
      if r = f then Some ''Rising and falling channels must be different''
      else if r = CHANNEL_1 \<and> f \<noteq> CHANNEL_2 \<or> f = CHANNEL_1 \<and> r \<noteq> CHANNEL_2 then
        Some ''Channel 1 must go with channel 2 for inputcapture''
      else if r = CHANNEL_3 \<and> f \<noteq> CHANNEL_4 \<or> f = CHANNEL_3 \<and> r \<noteq> CHANNEL_4 then
        Some ''Channel 3 must go with channel 4 for inputcapture''
      else if tp_af p \<noteq> TimerAF_InputCapture then Some ''Pin must be configured as input capture''
      else if 4 < channel_value f then Some ''Channel must be 1 to 4 for inputcapture''
      else if \<not> is_CC2_instance req then Some ''Timer must have 2 or more Capture compare channels''
      else if 3 \<le> channel_value f \<and> \<not> is_CC3_instance req then
        Some ''Error: This timer does not have 3 or more Capture compare channels''
      else if f = CHANNEL_4 \<and> \<not> is_CC4_instance req then
        Some ''Error: This timer does not have 4 or more Capture compare channels''
      else None)"

section \<open>The switches of a timer\<close>

definition enable_counter :: "timer_regs \<Rightarrow> timer_regs" where
  "enable_counter r = r\<lparr>tr_cr1 := SET_BIT (tr_cr1 r) CR1_CEN\<rparr>"

definition disable_counter :: "timer_regs \<Rightarrow> timer_regs" where
  "disable_counter r = r\<lparr>tr_cr1 := CLEAR_BIT (tr_cr1 r) CR1_CEN\<rparr>"

definition clear_update_interrupt_flag :: "timer_regs \<Rightarrow> timer_regs" where
  "clear_update_interrupt_flag r = r\<lparr>tr_sr := CLEAR_BIT (tr_sr r) 1\<rparr>"

definition enable_update_interrupt :: "timer_regs \<Rightarrow> timer_regs" where
  "enable_update_interrupt r = r\<lparr>tr_dier := SET_BIT (tr_dier r) TIM_DIER_UIE\<rparr>"

definition disable_update_interrupt :: "timer_regs \<Rightarrow> timer_regs" where
  "disable_update_interrupt r = r\<lparr>tr_dier := CLEAR_BIT (tr_dier r) TIM_DIER_UIE\<rparr>"

definition enable_update_event :: "timer_regs \<Rightarrow> timer_regs" where
  "enable_update_event r = r\<lparr>tr_cr1 := CLEAR_BIT (tr_cr1 r) TIM_CR1_UDIS\<rparr>"

definition disable_update_event :: "timer_regs \<Rightarrow> timer_regs" where
  "disable_update_event r = r\<lparr>tr_cr1 := SET_BIT (tr_cr1 r) TIM_CR1_UDIS\<rparr>"

definition break_interrupt_enable :: "nat \<Rightarrow> timer_regs \<Rightarrow> string + timer_regs" where
  "break_interrupt_enable req r =
     (if req = 1 \<or> req = 8 then Inr (r\<lparr>tr_dier := SET_BIT (tr_dier r) TIM_DIER_BIE\<rparr>)
      else Inl ''Error: Break interrupt enable only allowed in advanced timers {TIM1, TIM8}'')"

definition break_interrupt_disable :: "nat \<Rightarrow> timer_regs \<Rightarrow> string + timer_regs" where
  "break_interrupt_disable req r =
     (if req = 1 \<or> req = 8 then Inr (r\<lparr>tr_dier := CLEAR_BIT (tr_dier r) TIM_DIER_BIE\<rparr>)
      else Inl ''Error: Break interrupt enable only allowed in advanced timers {TIM1, TIM8}'')"

definition set_one_pulse_mode :: "timer_regs \<Rightarrow> timer_regs" where
  "set_one_pulse_mode r = r\<lparr>tr_cr1 := SET_BIT (tr_cr1 r) TIM_CR1_OPM\<rparr>"

definition set_multi_interrupt_mode :: "timer_regs \<Rightarrow> timer_regs" where
  "set_multi_interrupt_mode r = r\<lparr>tr_cr1 := CLEAR_BIT (tr_cr1 r) TIM_CR1_OPM\<rparr>"

datatype CountingMode = UP | DOWN | CENTER_ALIGNED_INTERRUPT_DOWN | CENTER_ALIGNED_INTERRUPT_UP | CENTER_ALIGNED_INTERRUPT_BOTH

definition center_aligned_bits :: "CountingMode \<Rightarrow> u32" where
  "center_aligned_bits mode =
     (case mode of
        UP \<Rightarrow> 0 | DOWN \<Rightarrow> 0
      | CENTER_ALIGNED_INTERRUPT_DOWN \<Rightarrow> TIM_CR1_CMS_0
      | CENTER_ALIGNED_INTERRUPT_UP \<Rightarrow> TIM_CR1_CMS_1
      | CENTER_ALIGNED_INTERRUPT_BOTH \<Rightarrow> TIM_CR1_CMS_0 OR TIM_CR1_CMS_1)"

definition set_counting_mode :: "nat \<Rightarrow> CountingMode \<Rightarrow> timer_regs \<Rightarrow> string + timer_regs" where
  "set_counting_mode req mode r =
     (if only_supports_upcounting req then Inl ''Error: In request reqidx: Timers other than these only support upcounting''
      else
        (let x = SET_BIT (CLEAR_BIT (tr_cr1 r) TIM_CR1_CMS) (center_aligned_bits mode)
         in Inr (r\<lparr>tr_cr1 := (case mode of UP \<Rightarrow> CLEAR_BIT x TIM_CR1_DIR | DOWN \<Rightarrow> SET_BIT x TIM_CR1_DIR | _ \<Rightarrow> x)\<rparr>)))"

fun capture_interrupt_bit :: "TimerChannel \<Rightarrow> u32" where
  "capture_interrupt_bit CHANNEL_1 = TIM_DIER_CC1IE"
| "capture_interrupt_bit CHANNEL_1_NEGATED = TIM_DIER_CC1IE"
| "capture_interrupt_bit CHANNEL_2 = TIM_DIER_CC2IE"
| "capture_interrupt_bit CHANNEL_2_NEGATED = TIM_DIER_CC2IE"
| "capture_interrupt_bit CHANNEL_3 = TIM_DIER_CC3IE"
| "capture_interrupt_bit CHANNEL_3_NEGATED = TIM_DIER_CC3IE"
| "capture_interrupt_bit CHANNEL_4 = TIM_DIER_CC4IE"
| "capture_interrupt_bit CHANNEL_4_NEGATED = TIM_DIER_CC4IE"
| "capture_interrupt_bit _ = 0"

definition enable_capture_compare_interrupt :: "TimerChannel \<Rightarrow> timer_regs \<Rightarrow> timer_regs" where
  "enable_capture_compare_interrupt ch r = r\<lparr>tr_dier := SET_BIT (tr_dier r) (capture_interrupt_bit ch)\<rparr>"

definition disable_capture_compare_interrupt :: "TimerChannel \<Rightarrow> timer_regs \<Rightarrow> timer_regs" where
  "disable_capture_compare_interrupt ch r = r\<lparr>tr_dier := CLEAR_BIT (tr_dier r) (capture_interrupt_bit ch)\<rparr>"

definition are_all_channels_free :: "timer_regs \<Rightarrow> bool" where
  "are_all_channels_free r \<longleftrightarrow> tr_ccer r AND TIM_CCER_CCxE_MASK = 0 \<and> tr_ccer r AND TIM_CCER_CCxNE_MASK = 0"

section \<open>The configuration of a channel\<close>

record oc_config =
  oc_mode :: u32
  oc_pulse :: u32
  oc_polarity :: u32
  oc_npolarity :: u32
  oc_fast_mode :: u32
  oc_idle_state :: u32
  oc_nidle_state :: u32

record ic_config =
  ic_polarity :: u32
  ic_selection :: u32
  ic_prescaler :: u32
  ic_filter :: u32

definition output_channels :: "TimerChannel list" where
  "output_channels = [CHANNEL_1, CHANNEL_2, CHANNEL_3, CHANNEL_4, CHANNEL_5, CHANNEL_6]"

text \<open>The mode register of a channel: \<open>CCMR1\<close> for the channels 1 and 2, \<open>CCMR2\<close> for 3 and 4, and \<open>CCMR3\<close> for the others.\<close>

definition read_ccmr :: "TimerChannel \<Rightarrow> timer_regs \<Rightarrow> u32" where
  "read_ccmr ch r =
     (if ch = CHANNEL_1 \<or> ch = CHANNEL_2 then tr_ccmr1 r
      else if ch = CHANNEL_3 \<or> ch = CHANNEL_4 then tr_ccmr2 r
      else tr_ccmr3 r)"

definition write_ccmr :: "TimerChannel \<Rightarrow> u32 \<Rightarrow> timer_regs \<Rightarrow> timer_regs" where
  "write_ccmr ch x r =
     (if ch = CHANNEL_1 \<or> ch = CHANNEL_2 then r\<lparr>tr_ccmr1 := x\<rparr>
      else if ch = CHANNEL_3 \<or> ch = CHANNEL_4 then r\<lparr>tr_ccmr2 := x\<rparr>
      else r\<lparr>tr_ccmr3 := x\<rparr>)"

fun oc_enable_bit :: "TimerChannel \<Rightarrow> u32" where
  "oc_enable_bit CHANNEL_1 = TIM_CCER_CC1E"
| "oc_enable_bit CHANNEL_2 = TIM_CCER_CC2E"
| "oc_enable_bit CHANNEL_3 = TIM_CCER_CC3E"
| "oc_enable_bit CHANNEL_4 = TIM_CCER_CC4E"
| "oc_enable_bit CHANNEL_5 = TIM_CCER_CC5E"
| "oc_enable_bit CHANNEL_6 = TIM_CCER_CC6E"
| "oc_enable_bit _ = 0"

text \<open>What the mode register of a channel becomes.\<close>

fun oc_ccmr :: "TimerChannel \<Rightarrow> oc_config \<Rightarrow> u32 \<Rightarrow> u32" where
  "oc_ccmr CHANNEL_1 c x = SET_BIT (CLEAR_BIT (CLEAR_BIT x TIM_CCMR1_OC1M) TIM_CCMR1_CC1S) (oc_mode c)"
| "oc_ccmr CHANNEL_2 c x = SET_BIT (CLEAR_BIT (CLEAR_BIT x TIM_CCMR1_OC2M) TIM_CCMR1_CC2S) (push_bit 8 (oc_mode c))"
| "oc_ccmr CHANNEL_3 c x = SET_BIT (CLEAR_BIT (CLEAR_BIT x TIM_CCMR2_OC3M) TIM_CCMR2_CC3S) (oc_mode c)"
| "oc_ccmr CHANNEL_4 c x = SET_BIT (CLEAR_BIT (CLEAR_BIT x TIM_CCMR2_OC4M) TIM_CCMR2_CC4S) (push_bit 8 (oc_mode c))"
| "oc_ccmr CHANNEL_5 c x = SET_BIT (CLEAR_BIT x TIM_CCMR3_OC5M) (oc_mode c)"
| "oc_ccmr CHANNEL_6 c x = SET_BIT (CLEAR_BIT x TIM_CCMR3_OC6M) (oc_mode c)"
| "oc_ccmr _ c x = x"

text \<open>What the enable register becomes: the polarity, and for a channel with a complementary output its polarity.\<close>

fun oc_ccer :: "TimerChannel \<Rightarrow> oc_config \<Rightarrow> u32 \<Rightarrow> u32" where
  "oc_ccer CHANNEL_1 c x = SET_BIT (CLEAR_BIT x TIM_CCER_CC1P) (oc_polarity c)"
| "oc_ccer CHANNEL_2 c x = SET_BIT (CLEAR_BIT x TIM_CCER_CC2P) (push_bit 4 (oc_polarity c))"
| "oc_ccer CHANNEL_3 c x = SET_BIT (CLEAR_BIT x TIM_CCER_CC3P) (push_bit 8 (oc_polarity c))"
| "oc_ccer CHANNEL_4 c x = SET_BIT (CLEAR_BIT x TIM_CCER_CC4P) (push_bit 12 (oc_polarity c))"
| "oc_ccer CHANNEL_5 c x = SET_BIT (CLEAR_BIT x TIM_CCER_CC5P) (push_bit 16 (oc_polarity c))"
| "oc_ccer CHANNEL_6 c x = SET_BIT (CLEAR_BIT x TIM_CCER_CC6P) (push_bit 20 (oc_polarity c))"
| "oc_ccer _ c x = x"

fun oc_ccer_negated :: "TimerChannel \<Rightarrow> oc_config \<Rightarrow> u32 \<Rightarrow> u32" where
  "oc_ccer_negated CHANNEL_1 c x = CLEAR_BIT (SET_BIT (CLEAR_BIT x TIM_CCER_CC1NP) (oc_npolarity c)) TIM_CCER_CC1NE"
| "oc_ccer_negated CHANNEL_2 c x = CLEAR_BIT (SET_BIT (CLEAR_BIT x TIM_CCER_CC2NP) (push_bit 4 (oc_npolarity c))) TIM_CCER_CC2NE"
| "oc_ccer_negated CHANNEL_3 c x = CLEAR_BIT (SET_BIT (CLEAR_BIT x TIM_CCER_CC3NP) (push_bit 8 (oc_npolarity c))) TIM_CCER_CC3NE"
| "oc_ccer_negated _ c x = x"

text \<open>What the second control register becomes: the idle states.\<close>

fun oc_cr2 :: "TimerChannel \<Rightarrow> oc_config \<Rightarrow> u32 \<Rightarrow> u32" where
  "oc_cr2 CHANNEL_1 c x =
     SET_BIT (SET_BIT (CLEAR_BIT (CLEAR_BIT x TIM_CR2_OIS1) TIM_CR2_OIS1N) (oc_nidle_state c)) (oc_idle_state c)"
| "oc_cr2 CHANNEL_2 c x =
     SET_BIT (SET_BIT (CLEAR_BIT (CLEAR_BIT x TIM_CR2_OIS2) TIM_CR2_OIS2N) (push_bit 2 (oc_nidle_state c)))
       (push_bit 2 (oc_idle_state c))"
| "oc_cr2 CHANNEL_3 c x =
     SET_BIT (SET_BIT (CLEAR_BIT (CLEAR_BIT x TIM_CR2_OIS3) TIM_CR2_OIS3N) (push_bit 4 (oc_nidle_state c)))
       (push_bit 4 (oc_idle_state c))"
| "oc_cr2 CHANNEL_4 c x = SET_BIT (CLEAR_BIT x TIM_CR2_OIS4) (push_bit 6 (oc_idle_state c))"
| "oc_cr2 CHANNEL_5 c x = SET_BIT (CLEAR_BIT x TIM_CR2_OIS5) (push_bit 8 (oc_idle_state c))"
| "oc_cr2 CHANNEL_6 c x = SET_BIT (CLEAR_BIT x TIM_CR2_OIS6) (push_bit 10 (oc_idle_state c))"
| "oc_cr2 _ c x = x"

text \<open>The channel is disabled in the register after the register is read, so that the last write enables it again.\<close>

definition config_output_compare_channel :: "nat \<Rightarrow> TimerChannel \<Rightarrow> oc_config \<Rightarrow> timer_regs \<Rightarrow> string + timer_regs" where
  "config_output_compare_channel req ch c r =
     (if ch \<notin> set output_channels then
        Inl ''config_output_compare_channel should only be called with channels [1..6] (not negated)''
      else
        (let tmpccer = tr_ccer r;
             tmpcr2 = tr_cr2 r;
             tmpccmrx = read_ccmr ch r;
             r = r\<lparr>tr_ccer := CLEAR_BIT (tr_ccer r) (oc_enable_bit ch)\<rparr>;
             tmpccmrx = oc_ccmr ch c tmpccmrx;
             tmpccer = oc_ccer ch c tmpccer;
             tmpccer = (if is_ccxn_instance req ch then oc_ccer_negated ch c tmpccer else tmpccer);
             tmpcr2 = (if is_break_instance req then oc_cr2 ch c tmpcr2 else tmpcr2);
             r = r\<lparr>tr_cr2 := tmpcr2\<rparr>;
             r = write_ccmr ch tmpccmrx r;
             r = r\<lparr>tr_ccr := (tr_ccr r)[channel_value ch - 1 := oc_pulse c]\<rparr>
         in Inr (r\<lparr>tr_ccer := tmpccer\<rparr>)))"

fun ic_ccer :: "TimerChannel \<Rightarrow> ic_config \<Rightarrow> u32 \<Rightarrow> u32" where
  "ic_ccer CHANNEL_1 c x =
     SET_BIT (CLEAR_BIT (CLEAR_BIT x TIM_CCER_CC1E) (TIM_CCER_CC1P OR TIM_CCER_CC1NP))
       (ic_polarity c AND (TIM_CCER_CC1P OR TIM_CCER_CC1NP))"
| "ic_ccer CHANNEL_2 c x =
     SET_BIT (CLEAR_BIT (CLEAR_BIT x TIM_CCER_CC2E) (TIM_CCER_CC2P OR TIM_CCER_CC2NP))
       (push_bit 4 (ic_polarity c) AND (TIM_CCER_CC2P OR TIM_CCER_CC2NP))"
| "ic_ccer CHANNEL_3 c x =
     SET_BIT (CLEAR_BIT (CLEAR_BIT x TIM_CCER_CC3E) (TIM_CCER_CC3P OR TIM_CCER_CC3NP))
       (push_bit 8 (ic_polarity c) AND (TIM_CCER_CC3P OR TIM_CCER_CC3NP))"
| "ic_ccer CHANNEL_4 c x =
     SET_BIT (CLEAR_BIT (CLEAR_BIT x TIM_CCER_CC4E) (TIM_CCER_CC4P OR TIM_CCER_CC4NP))
       (push_bit 12 (ic_polarity c) AND (TIM_CCER_CC4P OR TIM_CCER_CC4NP))"
| "ic_ccer _ c x = x"

fun ic_ccmr :: "nat \<Rightarrow> TimerChannel \<Rightarrow> ic_config \<Rightarrow> u32 \<Rightarrow> u32" where
  "ic_ccmr req CHANNEL_1 c x =
     (let x = (if is_CC2_instance req then SET_BIT (CLEAR_BIT x TIM_CCMR1_CC1S) (ic_selection c) else SET_BIT x TIM_CCMR1_CC1S_0);
          x = SET_BIT (CLEAR_BIT x TIM_CCMR1_IC1F) (push_bit 4 (ic_filter c) AND TIM_CCMR1_IC1F)
      in SET_BIT (CLEAR_BIT x TIM_CCMR1_IC1PSC) (ic_prescaler c AND TIM_CCMR1_IC1PSC))"
| "ic_ccmr req CHANNEL_2 c x =
     (let x = SET_BIT (CLEAR_BIT x TIM_CCMR1_CC2S) (push_bit 8 (ic_selection c));
          x = SET_BIT (CLEAR_BIT x TIM_CCMR1_IC2F) (push_bit 12 (ic_filter c) AND TIM_CCMR1_IC2F)
      in SET_BIT (CLEAR_BIT x TIM_CCMR1_IC2PSC) (push_bit 8 (ic_prescaler c) AND TIM_CCMR1_IC2PSC))"
| "ic_ccmr req CHANNEL_3 c x =
     (let x = SET_BIT (CLEAR_BIT x TIM_CCMR2_CC3S) (ic_selection c);
          x = SET_BIT (CLEAR_BIT x TIM_CCMR2_IC3F) (push_bit 4 (ic_filter c) AND TIM_CCMR2_IC3F)
      in SET_BIT (CLEAR_BIT x TIM_CCMR2_IC3PSC) (ic_prescaler c AND TIM_CCMR2_IC3PSC))"
| "ic_ccmr req CHANNEL_4 c x =
     (let x = SET_BIT (CLEAR_BIT x TIM_CCMR2_CC4S) (push_bit 8 (ic_selection c));
          x = SET_BIT (CLEAR_BIT x TIM_CCMR2_IC4F) (push_bit 12 (ic_filter c) AND TIM_CCMR2_IC4F)
      in SET_BIT (CLEAR_BIT x TIM_CCMR2_IC4PSC) (push_bit 8 (ic_prescaler c) AND TIM_CCMR2_IC4PSC))"
| "ic_ccmr req _ c x = x"

definition config_input_compare_channel :: "nat \<Rightarrow> TimerChannel \<Rightarrow> ic_config \<Rightarrow> timer_regs \<Rightarrow> string + timer_regs" where
  "config_input_compare_channel req ch c r =
     (if ch \<notin> set [CHANNEL_1, CHANNEL_2, CHANNEL_3, CHANNEL_4] then
        Inl ''Only channels 1 to 4 can be configured as input compare''
      else Inr ((write_ccmr ch (ic_ccmr req ch c (read_ccmr ch r)) r)\<lparr>tr_ccer := ic_ccer ch c (tr_ccer r)\<rparr>))"

text \<open>A channel and its negation have the same capture register and preload bit; there is no negated channel 4 here.\<close>

fun set_output_compare_preload_enable :: "TimerChannel \<Rightarrow> timer_regs \<Rightarrow> string + timer_regs" where
  "set_output_compare_preload_enable CHANNEL_1 r = Inr (r\<lparr>tr_ccmr1 := SET_BIT (tr_ccmr1 r) TIM_CCMR1_OC1PE\<rparr>)"
| "set_output_compare_preload_enable CHANNEL_1_NEGATED r = Inr (r\<lparr>tr_ccmr1 := SET_BIT (tr_ccmr1 r) TIM_CCMR1_OC1PE\<rparr>)"
| "set_output_compare_preload_enable CHANNEL_2 r = Inr (r\<lparr>tr_ccmr1 := SET_BIT (tr_ccmr1 r) TIM_CCMR1_OC2PE\<rparr>)"
| "set_output_compare_preload_enable CHANNEL_2_NEGATED r = Inr (r\<lparr>tr_ccmr1 := SET_BIT (tr_ccmr1 r) TIM_CCMR1_OC2PE\<rparr>)"
| "set_output_compare_preload_enable CHANNEL_3 r = Inr (r\<lparr>tr_ccmr2 := SET_BIT (tr_ccmr2 r) TIM_CCMR2_OC3PE\<rparr>)"
| "set_output_compare_preload_enable CHANNEL_3_NEGATED r = Inr (r\<lparr>tr_ccmr2 := SET_BIT (tr_ccmr2 r) TIM_CCMR2_OC3PE\<rparr>)"
| "set_output_compare_preload_enable CHANNEL_4 r = Inr (r\<lparr>tr_ccmr2 := SET_BIT (tr_ccmr2 r) TIM_CCMR2_OC4PE\<rparr>)"
| "set_output_compare_preload_enable CHANNEL_5 r = Inr (r\<lparr>tr_ccmr3 := SET_BIT (tr_ccmr3 r) TIM_CCMR3_OC5PE\<rparr>)"
| "set_output_compare_preload_enable CHANNEL_6 r = Inr (r\<lparr>tr_ccmr3 := SET_BIT (tr_ccmr3 r) TIM_CCMR3_OC6PE\<rparr>)"
| "set_output_compare_preload_enable _ r = Inl ''Unknown timer channel, there are only 6 channels [1..6]''"

fun capture_register :: "TimerChannel \<Rightarrow> string + nat" where
  "capture_register CHANNEL_1 = Inr 0"
| "capture_register CHANNEL_1_NEGATED = Inr 0"
| "capture_register CHANNEL_2 = Inr 1"
| "capture_register CHANNEL_2_NEGATED = Inr 1"
| "capture_register CHANNEL_3 = Inr 2"
| "capture_register CHANNEL_3_NEGATED = Inr 2"
| "capture_register CHANNEL_4 = Inr 3"
| "capture_register CHANNEL_5 = Inr 4"
| "capture_register CHANNEL_6 = Inr 5"
| "capture_register _ = Inl ''Unknown timer channel, there are only 6 channels [1..6]''"

definition set_capture_compare :: "TimerChannel \<Rightarrow> u32 \<Rightarrow> timer_regs \<Rightarrow> string + timer_regs" where
  "set_capture_compare ch x r = map_sum id (\<lambda>i. r\<lparr>tr_ccr := (tr_ccr r)[i := x]\<rparr>) (capture_register ch)"

definition get_capture_compare :: "TimerChannel \<Rightarrow> timer_regs \<Rightarrow> string + u32" where
  "get_capture_compare ch r = map_sum id ((!) (tr_ccr r)) (capture_register ch)"

section \<open>Pulse width modulation\<close>

datatype channel_state = Channel_Reset | Channel_Ready | Channel_Busy

text \<open>A wrapper with the registers of its timer, the states of the channels and negated channels in the handle, and what it keeps
  for its pulse width modulations.\<close>

record 'f wrapper =
  wr_regs :: timer_regs
  wr_channels :: "channel_state list"
  wr_nchannels :: "channel_state list"
  wr_nvic :: bool
  wr_duties :: "'f list"
  wr_frequency :: u32
  wr_panics :: "string list"

record 'f duty_ops =
  do_zero :: 'f
  do_hundred :: 'f
  do_is_zero :: "'f \<Rightarrow> bool"
  do_le_zero :: "'f \<Rightarrow> bool"
  do_gt_hundred :: "'f \<Rightarrow> bool"
  do_raw32 :: "u32 \<Rightarrow> 'f \<Rightarrow> u32"
  do_raw16 :: "u32 \<Rightarrow> 'f \<Rightarrow> u16"
  do_precise_limit :: "u32 \<Rightarrow> u32 \<Rightarrow> u32 \<Rightarrow> u32"

definition report_panic :: "string \<Rightarrow> 'f wrapper \<Rightarrow> 'f wrapper" where
  "report_panic msg w = w\<lparr>wr_panics := wr_panics w @ [msg]\<rparr>"

definition change_regs :: "(timer_regs \<Rightarrow> timer_regs) \<Rightarrow> 'f wrapper \<Rightarrow> 'f wrapper" where
  "change_regs f w = w\<lparr>wr_regs := f (wr_regs w)\<rparr>"

text \<open>The counter is started unless the timer is a slave that is started by its trigger; \<open>trig\<close> is the vendor's macro that tells.\<close>

definition start_counter :: "(u32 \<Rightarrow> bool) \<Rightarrow> nat \<Rightarrow> timer_regs \<Rightarrow> timer_regs" where
  "start_counter trig req r =
     (if is_slave_instance req then
        (if trig (tr_smcr r AND TIM_SMCR_SMS) then r else enable_counter r)
      else enable_counter r)"

definition main_output_enable :: "nat \<Rightarrow> timer_regs \<Rightarrow> timer_regs" where
  "main_output_enable req r = (if is_break_instance req then r\<lparr>tr_bdtr := SET_BIT (tr_bdtr r) TIM_BDTR_MOE\<rparr> else r)"

definition main_output_disable :: "nat \<Rightarrow> timer_regs \<Rightarrow> timer_regs" where
  "main_output_disable req r = (if is_break_instance req then r\<lparr>tr_bdtr := CLEAR_BIT (tr_bdtr r) TIM_BDTR_MOE\<rparr> else r)"

definition set_ccer :: "u32 \<Rightarrow> timer_regs \<Rightarrow> timer_regs" where
  "set_ccer m r = r\<lparr>tr_ccer := SET_BIT (tr_ccer r) m\<rparr>"

definition clear_ccer :: "u32 \<Rightarrow> timer_regs \<Rightarrow> timer_regs" where
  "clear_ccer m r = r\<lparr>tr_ccer := CLEAR_BIT (tr_ccer r) m\<rparr>"

text \<open>The place \<open>i\<close> of the state of a channel and the shift \<open>k\<close> of its bits, computed while the board is compiled.\<close>

definition with_channel :: "TimerChannel \<Rightarrow> (nat \<Rightarrow> nat \<Rightarrow> 'a) \<Rightarrow> string + 'a" where
  "with_channel ch f =
     (case get_channel_state_idx ch of
        Inl msg \<Rightarrow> Inl msg
      | Inr i \<Rightarrow> (case get_channel_mul4 ch of Inl msg \<Rightarrow> Inl msg | Inr k \<Rightarrow> Inr (f i k)))"

record pwm =
  pw_on :: bool
  pw_initialized :: bool
  pw_polarity :: u32
  pw_npolarity :: u32

definition pwm_config :: "u32 \<Rightarrow> u32 \<Rightarrow> u32 \<Rightarrow> oc_config" where
  "pwm_config pulse pol npol =
     \<lparr>oc_mode = TIM_OCMODE_PWM1, oc_pulse = pulse, oc_polarity = pol, oc_npolarity = npol, oc_fast_mode = TIM_OCFAST_DISABLE,
      oc_idle_state = TIM_OCIDLESTATE_RESET, oc_nidle_state = TIM_OCNIDLESTATE_RESET\<rparr>"

definition init_output :: "nat \<Rightarrow> TimerChannel \<Rightarrow> u32 \<Rightarrow> u32 \<Rightarrow> timer_regs \<Rightarrow> string + timer_regs" where
  "init_output req ch pol npol r =
     (case get_capture_compare ch r of
        Inl msg \<Rightarrow> Inl msg
      | Inr pulse \<Rightarrow>
          (case config_output_compare_channel req ch (pwm_config pulse pol npol) r of
             Inl msg \<Rightarrow> Inl msg
           | Inr r \<Rightarrow> set_output_compare_preload_enable ch r))"

definition pwm_init :: "nat \<Rightarrow> TimerChannel \<Rightarrow> pwm \<Rightarrow> 'f wrapper \<Rightarrow> string + pwm \<times> 'f wrapper" where
  "pwm_init req ch p w =
     (if pw_initialized p then Inr (p, w)
      else map_sum id (\<lambda>r. (p\<lparr>pw_initialized := True\<rparr>, w\<lparr>wr_regs := r\<rparr>)) (init_output req ch (pw_polarity p) (pw_npolarity p) (wr_regs w)))"

definition pwm_turn_on :: "(u32 \<Rightarrow> bool) \<Rightarrow> nat \<Rightarrow> TimerChannel \<Rightarrow> pwm \<Rightarrow> 'f wrapper \<Rightarrow> string + pwm \<times> 'f wrapper" where
  "pwm_turn_on trig req ch p w =
     (case pwm_init req ch p w of
        Inl msg \<Rightarrow> Inl msg
      | Inr (p, w) \<Rightarrow>
          with_channel ch (\<lambda>i k.
            if pw_on p then (p, w)
            else
              (let w = (if wr_channels w ! i \<noteq> Channel_Ready then report_panic ''Channel not ready'' w else w);
                   w = w\<lparr>wr_channels := (wr_channels w)[i := Channel_Busy]\<rparr>;
                   w = change_regs (set_ccer (push_bit (k mod 32) TIM_CCER_CC1E)) w;
                   w = change_regs (main_output_enable req) w;
                   w = change_regs (start_counter trig req) w
               in (p\<lparr>pw_on := True\<rparr>, w))))"

text \<open>What \<open>PWM\<close> does when the last channel is freed.\<close>

definition stop_if_free :: "nat \<Rightarrow> timer_regs \<Rightarrow> timer_regs" where
  "stop_if_free req r = (if are_all_channels_free r then disable_counter (main_output_disable req r) else r)"

definition pwm_turn_off :: "nat \<Rightarrow> TimerChannel \<Rightarrow> pwm \<Rightarrow> 'f wrapper \<Rightarrow> string + pwm \<times> 'f wrapper" where
  "pwm_turn_off req ch p w =
     with_channel ch (\<lambda>i k.
       if \<not> pw_on p then (p, w)
       else
         (let w = change_regs (clear_ccer (push_bit (k mod 32) TIM_CCER_CC1E)) w;
              w = w\<lparr>wr_channels := (wr_channels w)[i := Channel_Ready]\<rparr>;
              w = change_regs (stop_if_free req) w
          in (p\<lparr>pw_on := False\<rparr>, w)))"

text \<open>The duty cycle at the place \<open>d\<close> of the wrapper, which \<open>get_pwm\<close> gave.\<close>

definition raw_duty :: "'f duty_ops \<Rightarrow> nat \<Rightarrow> timer_regs \<Rightarrow> 'f \<Rightarrow> u32" where
  "raw_duty ops req r duty =
     (if is_32bit_instance req then do_raw32 ops (tr_arr r + 1) duty else ucast (do_raw16 ops (tr_arr r + 1) duty))"

definition set_duty_cycle :: "'f duty_ops \<Rightarrow> nat \<Rightarrow> TimerChannel \<Rightarrow> nat \<Rightarrow> 'f \<Rightarrow> 'f wrapper \<Rightarrow> string + 'f wrapper" where
  "set_duty_cycle ops req ch d duty w =
     (if do_le_zero ops duty then
        map_sum id (\<lambda>r. w\<lparr>wr_regs := r, wr_duties := (wr_duties w)[d := do_zero ops]\<rparr>) (set_capture_compare ch 0 (wr_regs w))
      else
        (let duty = (if do_gt_hundred ops duty then do_hundred ops else duty)
         in map_sum id (\<lambda>r. w\<lparr>wr_regs := r, wr_duties := (wr_duties w)[d := duty]\<rparr>)
              (set_capture_compare ch (raw_duty ops req (wr_regs w) duty) (wr_regs w))))"

datatype PWM_Frequency_Mode = PRECISION | SPEED

text \<open>The duty cycles that are not zero are applied again; \<open>None\<close> is undefined, the division by zero.\<close>

definition apply_duty :: "'f duty_ops \<Rightarrow> nat \<Rightarrow> nat \<Rightarrow> 'f wrapper \<Rightarrow> 'f wrapper" where
  "apply_duty ops req i w =
     (if \<not> do_is_zero ops (wr_duties w ! i) then
        change_regs (\<lambda>r. r\<lparr>tr_ccr := (tr_ccr r)[i := raw_duty ops req r (wr_duties w ! i)]\<rparr>) w
      else w)"

definition set_pwm_frequency ::
  "'f duty_ops \<Rightarrow> timer_clocks \<Rightarrow> nat \<Rightarrow> PWM_Frequency_Mode \<Rightarrow> u32 \<Rightarrow> 'f wrapper \<Rightarrow> 'f wrapper option" where
  "set_pwm_frequency ops ck req mode frequency w =
     (let frequency = (if tr_cr1 (wr_regs w) AND TIM_CR1_CMS \<noteq> 0 then 2 * frequency else frequency);
          w = w\<lparr>wr_frequency := frequency\<rparr>;
          psc = ucast (tr_psc (wr_regs w)) + 1
      in if mode = SPEED \<and> frequency = 0 then None
         else
           (let limit = (case mode of
                  SPEED \<Rightarrow> get_clock_frequency ck req div psc div frequency
                | PRECISION \<Rightarrow> do_precise_limit ops (get_clock_frequency ck req) psc frequency);
                w = change_regs (tr_arr_update (\<lambda>_. limit)) w
            in Some (fold (apply_duty ops req) [0, 1, 2, 3] w)))"

definition pwm_configure :: "'f duty_ops \<Rightarrow> timer_clocks \<Rightarrow> nat \<Rightarrow> nat \<Rightarrow> u32 \<Rightarrow> 'f \<Rightarrow> 'f wrapper \<Rightarrow> 'f wrapper option" where
  "pwm_configure ops ck req d frequency duty w =
     set_pwm_frequency ops ck req PRECISION frequency (w\<lparr>wr_duties := (wr_duties w)[d := duty]\<rparr>)"

section \<open>Two outputs on a channel\<close>

text \<open>Turning an output off is left out: the code names a member the wrapper has not, so that it does not compile where it is used.\<close>

record dual_pwm =
  dp_on_positive :: bool
  dp_on_negative :: bool
  dp_initialized :: bool
  dp_polarity :: u32
  dp_npolarity :: u32

definition dual_initialize :: "nat \<Rightarrow> TimerChannel \<Rightarrow> dual_pwm \<Rightarrow> 'f wrapper \<Rightarrow> string + dual_pwm \<times> 'f wrapper" where
  "dual_initialize req ch p w =
     (if dp_initialized p then Inr (p, w)
      else map_sum id (\<lambda>r. (p\<lparr>dp_initialized := True\<rparr>, w\<lparr>wr_regs := r\<rparr>)) (init_output req ch (dp_polarity p) (dp_npolarity p) (wr_regs w)))"

definition turn_on_positive :: "(u32 \<Rightarrow> bool) \<Rightarrow> nat \<Rightarrow> TimerChannel \<Rightarrow> dual_pwm \<Rightarrow> 'f wrapper \<Rightarrow> string + dual_pwm \<times> 'f wrapper" where
  "turn_on_positive trig req ch p w =
     with_channel ch (\<lambda>i k.
       if dp_on_positive p then (p, w)
       else
         (let w = (if wr_channels w ! i \<noteq> Channel_Ready then report_panic ''Channel not ready'' w else w);
              w = w\<lparr>wr_channels := (wr_channels w)[i := Channel_Busy]\<rparr>;
              w = change_regs (set_ccer (push_bit (k mod 32) TIM_CCER_CC1E)) w;
              w = change_regs (main_output_enable req) w;
              w = change_regs (start_counter trig req) w
          in (p\<lparr>dp_on_positive := True\<rparr>, w)))"

definition turn_on_negative :: "(u32 \<Rightarrow> bool) \<Rightarrow> nat \<Rightarrow> TimerChannel \<Rightarrow> dual_pwm \<Rightarrow> 'f wrapper \<Rightarrow> string + dual_pwm \<times> 'f wrapper" where
  "turn_on_negative trig req nch p w =
     with_channel nch (\<lambda>i k.
       if dp_on_negative p then (p, w)
       else
         (let w = (if wr_nchannels w ! i \<noteq> Channel_Ready then report_panic ''Channel not ready'' w else w);
              w = w\<lparr>wr_nchannels := (wr_nchannels w)[i := Channel_Busy]\<rparr>;
              w = change_regs (set_ccer (push_bit (k mod 32) TIM_CCER_CC1NE)) w;
              w = change_regs (main_output_enable req) w;
              w = change_regs (start_counter trig req) w
          in (p\<lparr>dp_on_negative := True\<rparr>, w)))"

definition dual_turn_on :: "(u32 \<Rightarrow> bool) \<Rightarrow> nat \<Rightarrow> TimerChannel \<Rightarrow> TimerChannel \<Rightarrow> dual_pwm \<Rightarrow> 'f wrapper \<Rightarrow> string + dual_pwm \<times> 'f wrapper" where
  "dual_turn_on trig req ch nch p w =
     (case dual_initialize req ch p w of
        Inl msg \<Rightarrow> Inl msg
      | Inr (p, w) \<Rightarrow>
          (case turn_on_positive trig req ch p w of
             Inl msg \<Rightarrow> Inl msg
           | Inr (p, w) \<Rightarrow> turn_on_negative trig req nch p w))"

section \<open>Input capture\<close>

record input_capture =
  ip_on :: bool
  ip_initialized :: bool

definition capture_config :: "u32 \<Rightarrow> u32 \<Rightarrow> ic_config" where
  "capture_config pol sel = \<lparr>ic_polarity = pol, ic_selection = sel, ic_prescaler = TIM_ICPSC_DIV1, ic_filter = 3\<rparr>"

text \<open>The registers of the initialization; what it writes to the tables of the domain is \<open>input_capture_init\<close>.\<close>

definition capture_init :: "nat \<Rightarrow> TimerChannel \<Rightarrow> TimerChannel \<Rightarrow> input_capture \<Rightarrow> 'f wrapper \<Rightarrow> string + input_capture \<times> 'f wrapper" where
  "capture_init req ch_rising ch_falling p w =
     (if ip_initialized p then Inr (p, w)
      else
        (case config_input_compare_channel req ch_rising
                (capture_config TIM_INPUTCHANNELPOLARITY_RISING TIM_ICSELECTION_DIRECTTI) (wr_regs w) of
           Inl msg \<Rightarrow> Inl msg
         | Inr r \<Rightarrow>
             map_sum id (\<lambda>r. (p\<lparr>ip_initialized := True\<rparr>, w\<lparr>wr_regs := r, wr_nvic := True\<rparr>))
               (config_input_compare_channel req ch_falling
                  (capture_config TIM_INPUTCHANNELPOLARITY_FALLING TIM_ICSELECTION_INDIRECTTI) r)))"

definition channel_ready :: "nat \<Rightarrow> 'f wrapper \<Rightarrow> bool" where
  "channel_ready i w \<longleftrightarrow> wr_channels w ! i = Channel_Ready \<and> wr_nchannels w ! i = Channel_Ready"

definition set_channel :: "nat \<Rightarrow> channel_state \<Rightarrow> 'f wrapper \<Rightarrow> 'f wrapper" where
  "set_channel i x w = w\<lparr>wr_channels := (wr_channels w)[i := x], wr_nchannels := (wr_nchannels w)[i := x]\<rparr>"

text \<open>One channel of a capture: its interrupt and its bit.\<close>

definition enable_capture :: "TimerChannel \<Rightarrow> nat \<Rightarrow> timer_regs \<Rightarrow> timer_regs" where
  "enable_capture ch k r = set_ccer (push_bit (k mod 32) TIM_CCER_CC1E) (enable_capture_compare_interrupt ch r)"

definition disable_capture :: "TimerChannel \<Rightarrow> nat \<Rightarrow> timer_regs \<Rightarrow> timer_regs" where
  "disable_capture ch k r = clear_ccer (push_bit (k mod 32) TIM_CCER_CC1E) (disable_capture_compare_interrupt ch r)"

definition start_capture ::
  "(u32 \<Rightarrow> bool) \<Rightarrow> nat \<Rightarrow> TimerChannel \<Rightarrow> TimerChannel \<Rightarrow> nat \<Rightarrow> nat \<Rightarrow> nat \<Rightarrow> nat \<Rightarrow> input_capture \<Rightarrow> 'f wrapper \<Rightarrow> input_capture \<times> 'f wrapper" where
  "start_capture trig req rising falling i k j l p w =
     (let w = change_regs (\<lambda>r. r\<lparr>tr_cnt := 0, tr_sr := 0\<rparr>) w in
      if \<not> channel_ready i w then (p, report_panic ''Channels not ready'' w)
      else
        (let w = change_regs (enable_capture rising k) (set_channel i Channel_Busy w) in
         if \<not> channel_ready j w then
           (p, set_channel i Channel_Ready (change_regs (disable_capture rising k) (report_panic ''Channels not ready'' w)))
         else
           (let w = change_regs (enable_capture falling l) (set_channel j Channel_Busy w)
            in (p\<lparr>ip_on := True\<rparr>, change_regs (start_counter trig req) w))))"

definition capture_turn_on ::
  "(u32 \<Rightarrow> bool) \<Rightarrow> nat \<Rightarrow> TimerChannel \<Rightarrow> TimerChannel \<Rightarrow> input_capture \<Rightarrow> 'f wrapper \<Rightarrow> string + input_capture \<times> 'f wrapper" where
  "capture_turn_on trig req rising falling p w =
     (case capture_init req rising falling p w of
        Inl msg \<Rightarrow> Inl msg
      | Inr (p, w) \<Rightarrow>
          (if ip_on p then Inr (p, w)
           else
             (case with_channel rising Pair of
                Inl msg \<Rightarrow> Inl msg
              | Inr (i, k) \<Rightarrow> with_channel falling (\<lambda>j l. start_capture trig req rising falling i k j l p w))))"

definition stop_capture :: "TimerChannel \<Rightarrow> nat \<Rightarrow> nat \<Rightarrow> 'f wrapper \<Rightarrow> 'f wrapper" where
  "stop_capture ch i k w = set_channel i Channel_Ready (change_regs (disable_capture ch k) w)"

definition capture_turn_off :: "TimerChannel \<Rightarrow> TimerChannel \<Rightarrow> input_capture \<Rightarrow> 'f wrapper \<Rightarrow> string + input_capture \<times> 'f wrapper" where
  "capture_turn_off rising falling p w =
     (case with_channel rising Pair of
        Inl msg \<Rightarrow> Inl msg
      | Inr (i, k) \<Rightarrow>
          with_channel falling (\<lambda>j l.
            if \<not> ip_on p then (p, w)
            else
              (let w = stop_capture falling j l (stop_capture rising i k w);
                   w = change_regs (\<lambda>r. if are_all_channels_free r then disable_counter r else r) w
               in (p\<lparr>ip_on := False\<rparr>, w))))"

section \<open>Encoder\<close>

text \<open>The vendor's library is a parameter: an operation gives the registers it leaves and whether it succeeds, and
  \<open>en_state_reset\<close> tells whether the state of the encoder is the one after a reset.\<close>

record encoder_hal =
  eh_init :: "timer_regs \<Rightarrow> bool \<times> timer_regs"
  eh_master :: "timer_regs \<Rightarrow> bool \<times> timer_regs"
  eh_state_reset :: "timer_regs \<Rightarrow> bool"
  eh_start :: "timer_regs \<Rightarrow> bool \<times> timer_regs"
  eh_stop :: "timer_regs \<Rightarrow> bool \<times> timer_regs"

record encoder =
  en_on :: bool
  en_initialized :: bool

definition encoder_init :: "encoder_hal \<Rightarrow> nat \<Rightarrow> 'f wrapper \<Rightarrow> 'f wrapper" where
  "encoder_init hal req w =
     (let (ok, r) = eh_init hal (wr_regs w);
          w = w\<lparr>wr_regs := r\<rparr>
      in if \<not> ok then report_panic ''Unable to init encoder'' w
         else
           (let (ok, r) = eh_master hal (wr_regs w);
                w = w\<lparr>wr_regs := r\<rparr>
            in if \<not> ok then report_panic ''Unable to config master synchronization in encoder'' w
               else change_regs (\<lambda>r. r\<lparr>tr_psc := 5, tr_arr := (if is_32bit_instance req then 0xFFFFFFFF else 0xFFFF)\<rparr>) w))"

definition get_initial_counter_value :: "timer_regs \<Rightarrow> u32" where
  "get_initial_counter_value r = tr_arr r div 2"

definition encoder_reset :: "timer_regs \<Rightarrow> timer_regs" where
  "encoder_reset r = r\<lparr>tr_cnt := get_initial_counter_value r\<rparr>"

definition get_counter :: "timer_regs \<Rightarrow> u32" where
  "get_counter r = tr_cnt r"

definition get_direction :: "timer_regs \<Rightarrow> bool" where
  "get_direction r \<longleftrightarrow> drop_bit 4 (tr_cr1 r AND 0x10) \<noteq> 0"

definition encoder_turn_on :: "encoder_hal \<Rightarrow> nat \<Rightarrow> encoder \<Rightarrow> 'f wrapper \<Rightarrow> encoder \<times> 'f wrapper" where
  "encoder_turn_on hal req e w =
     (let (e, w) = (if \<not> en_initialized e then (e\<lparr>en_initialized := True\<rparr>, encoder_init hal req w) else (e, w)) in
      if en_on e then (e, w)
      else if eh_state_reset hal (wr_regs w) then (e, report_panic ''Unable to get state from encoder'' w)
      else
        (let (ok, r) = eh_start hal (wr_regs w);
             w = w\<lparr>wr_regs := r\<rparr>
         in if \<not> ok then (e, report_panic ''Unable to start encoder'' w)
            else (e\<lparr>en_on := True\<rparr>, change_regs encoder_reset w)))"

definition encoder_turn_off :: "encoder_hal \<Rightarrow> encoder \<Rightarrow> 'f wrapper \<Rightarrow> encoder \<times> 'f wrapper" where
  "encoder_turn_off hal e w =
     (if \<not> en_on e then (e, w)
      else
        (let (ok, r) = eh_stop hal (wr_regs w);
             w = w\<lparr>wr_regs := r\<rparr>
         in if \<not> ok then (e, report_panic ''Unable to stop encoder'' w) else (e\<lparr>en_on := False\<rparr>, w)))"

section \<open>Bits\<close>

lemma bit_one_shifted: "k < 32 \<Longrightarrow> bit (push_bit k (1 :: u32)) n \<longleftrightarrow> n = k"
  by (auto simp: bit_exp_iff)

lemma bit_set_bit: "bit (SET_BIT x m) n \<longleftrightarrow> bit x n \<or> bit m n"
  by (simp add: SET_BIT_def bit_or_iff)

lemma bit_clear_bit: "n < 32 \<Longrightarrow> bit (CLEAR_BIT x m) n \<longleftrightarrow> bit x n \<and> \<not> bit m n"
  by (simp add: CLEAR_BIT_def bit_and_iff bit_not_iff)

text \<open>The bits of the outputs: the enable bits of the six channels and of the three complementary outputs.\<close>

definition enable_bits :: "nat list" where
  "enable_bits = [0, 4, 8, 12, 16, 20, 2, 6, 10]"

lemma all_channels_free_bits: "are_all_channels_free r \<longleftrightarrow> (\<forall>n \<in> set enable_bits. \<not> bit (tr_ccer r) n)"
proof -
  let ?x = "tr_ccer r"
  have p: "?x AND push_bit n 1 = 0 \<longleftrightarrow> \<not> bit ?x n" for n
    by (simp add: and_exp_eq_0_iff_not_bit)
  have "?x AND TIM_CCER_CCxE_MASK = 0 \<longleftrightarrow> \<not> bit ?x 0 \<and> \<not> bit ?x 4 \<and> \<not> bit ?x 8 \<and> \<not> bit ?x 12 \<and> \<not> bit ?x 16 \<and> \<not> bit ?x 20"
    unfolding TIM_CCER_CCxE_MASK_def bit.conj_disj_distrib or_eq_0_iff
      TIM_CCER_CC1E_def TIM_CCER_CC2E_def TIM_CCER_CC3E_def TIM_CCER_CC4E_def TIM_CCER_CC5E_def TIM_CCER_CC6E_def
    unfolding p by blast
  moreover have "?x AND TIM_CCER_CCxNE_MASK = 0 \<longleftrightarrow> \<not> bit ?x 2 \<and> \<not> bit ?x 6 \<and> \<not> bit ?x 10"
    unfolding TIM_CCER_CCxNE_MASK_def bit.conj_disj_distrib or_eq_0_iff TIM_CCER_CC1NE_def TIM_CCER_CC2NE_def TIM_CCER_CC3NE_def
    unfolding p by blast
  ultimately show ?thesis by (auto simp: are_all_channels_free_def enable_bits_def)
qed

section \<open>The channels a pin can have\<close>

definition out_channel :: "nat \<Rightarrow> TimerChannel" where
  "out_channel c = output_channels ! c"

lemma four_cases: "c < 4 \<Longrightarrow> c = 0 \<or> c = 1 \<or> c = 2 \<or> c = (3 :: nat)"
  by linarith

lemma with_out_channel: "c < 4 \<Longrightarrow> with_channel (out_channel c) f = Inr (f c (4 * c))"
  by (auto simp: out_channel_def output_channels_def with_channel_def get_channel_state_idx_def dest!: four_cases)

text \<open>The polarities the vendor's library has.\<close>

definition polarity_ok :: "u32 \<Rightarrow> u32 \<Rightarrow> bool" where
  "polarity_ok pol npol \<longleftrightarrow> (pol = 0 \<or> pol = 2) \<and> (npol = 0 \<or> npol = 8)"

definition output_ccer :: "nat \<Rightarrow> TimerChannel \<Rightarrow> oc_config \<Rightarrow> u32 \<Rightarrow> u32" where
  "output_ccer req ch c x = (if is_ccxn_instance req ch then oc_ccer_negated ch c (oc_ccer ch c x) else oc_ccer ch c x)"

lemma init_output_fields:
  assumes "c < 4"
  shows "\<exists>r'. init_output req (out_channel c) pol npol r = Inr r' \<and> tr_cr1 r' = tr_cr1 r \<and> tr_smcr r' = tr_smcr r \<and>
    tr_bdtr r' = tr_bdtr r \<and> tr_ccer r' = output_ccer req (out_channel c) (pwm_config (tr_ccr r ! c) pol npol) (tr_ccer r)"
  using four_cases [OF assms]
  by (elim disjE) (simp_all add: out_channel_def output_channels_def init_output_def get_capture_compare_def Let_def output_ccer_def
      config_output_compare_channel_def write_ccmr_def)

lemma output_ccer_bits:
  assumes "c < 4" "polarity_ok (oc_polarity cfg) (oc_npolarity cfg)"
  shows "k \<in> {0, 4, 8, 12, 16, 20} \<Longrightarrow> bit (output_ccer req (out_channel c) cfg x) k = bit x k"
    and "n \<in> {2, 6, 10} \<Longrightarrow> bit (output_ccer req (out_channel c) cfg x) n \<Longrightarrow> bit x n"
proof -
  have pol: "oc_polarity cfg = 0 \<or> oc_polarity cfg = 2" "oc_npolarity cfg = 0 \<or> oc_npolarity cfg = 8"
    using assms(2) by (simp_all add: polarity_ok_def)
  show "k \<in> {0, 4, 8, 12, 16, 20} \<Longrightarrow> bit (output_ccer req (out_channel c) cfg x) k = bit x k"
    using four_cases [OF assms(1)] pol
    by (elim disjE insertE emptyE)
      (simp_all add: output_ccer_def out_channel_def output_channels_def bit_set_bit bit_clear_bit timer_bits)
  show "n \<in> {2, 6, 10} \<Longrightarrow> bit (output_ccer req (out_channel c) cfg x) n \<Longrightarrow> bit x n"
    using four_cases [OF assms(1)] pol
    by (elim disjE insertE emptyE)
      (simp_all add: output_ccer_def out_channel_def output_channels_def bit_set_bit bit_clear_bit timer_bits split: if_splits)
qed

lemma init_output_spec:
  assumes "c < 4" "polarity_ok pol npol"
  shows "\<exists>r'. init_output req (out_channel c) pol npol r = Inr r' \<and> tr_cr1 r' = tr_cr1 r \<and> tr_smcr r' = tr_smcr r \<and>
    tr_bdtr r' = tr_bdtr r \<and> (\<forall>k \<in> {0, 4, 8, 12, 16, 20}. bit (tr_ccer r') k = bit (tr_ccer r) k) \<and>
    (\<forall>n \<in> {2, 6, 10}. bit (tr_ccer r') n \<longrightarrow> bit (tr_ccer r) n)"
proof -
  let ?cfg = "pwm_config (tr_ccr r ! c) pol npol"
  have p: "polarity_ok (oc_polarity ?cfg) (oc_npolarity ?cfg)" using assms(2) by (simp add: pwm_config_def)
  show ?thesis using init_output_fields [OF assms(1), of req pol npol r] output_ccer_bits [OF assms(1) p, of _ req] by metis
qed

section \<open>The outputs of a timer\<close>

datatype pwm_op = Turn_On nat | Turn_Off nat

text \<open>A timer with a pulse width modulation on each of its channels.\<close>

definition run_pwm :: "(u32 \<Rightarrow> bool) \<Rightarrow> nat \<Rightarrow> pwm_op \<Rightarrow> pwm list \<times> 'f wrapper \<Rightarrow> pwm list \<times> 'f wrapper" where
  "run_pwm trig req q x =
     (case q of
        Turn_On c \<Rightarrow> (case pwm_turn_on trig req (out_channel c) (fst x ! c) (snd x) of Inl _ \<Rightarrow> x | Inr (p, w) \<Rightarrow> ((fst x)[c := p], w))
      | Turn_Off c \<Rightarrow> (case pwm_turn_off req (out_channel c) (fst x ! c) (snd x) of Inl _ \<Rightarrow> x | Inr (p, w) \<Rightarrow> ((fst x)[c := p], w)))"

definition some_on :: "pwm list \<Rightarrow> bool" where
  "some_on ps \<longleftrightarrow> (\<exists>c < 4. pw_on (ps ! c))"

text \<open>The outputs that are on are those enabled, the counter runs if one is on, and no channel was found in use.\<close>

definition outputs_ok :: "(u32 \<Rightarrow> bool) \<Rightarrow> nat \<Rightarrow> pwm list \<Rightarrow> 'f wrapper \<Rightarrow> bool" where
  "outputs_ok trig req ps w \<longleftrightarrow>
     length ps = 4 \<and> length (wr_channels w) = 6 \<and> wr_panics w = [] \<and>
     \<not> (is_slave_instance req \<and> trig (tr_smcr (wr_regs w) AND TIM_SMCR_SMS)) \<and>
     (\<forall>c < 4. polarity_ok (pw_polarity (ps ! c)) (pw_npolarity (ps ! c))) \<and>
     (\<forall>c < 4. bit (tr_ccer (wr_regs w)) (4 * c) = pw_on (ps ! c)) \<and>
     (\<forall>c < 4. wr_channels w ! c = (if pw_on (ps ! c) then Channel_Busy else Channel_Ready)) \<and>
     (\<forall>n \<in> {16, 20, 2, 6, 10}. \<not> bit (tr_ccer (wr_regs w)) n) \<and>
     bit (tr_cr1 (wr_regs w)) 0 = some_on ps \<and>
     (is_break_instance req \<longrightarrow> bit (tr_bdtr (wr_regs w)) 15 = some_on ps)"

lemma all_less_4: "(\<forall>c < 4. P c) \<longleftrightarrow> P 0 \<and> P 1 \<and> P 2 \<and> P (3 :: nat)"
  by (auto dest!: four_cases)

lemma pwm_init_ok:
  assumes "outputs_ok trig req ps w" "c < 4"
  shows "\<exists>p' w'. pwm_init req (out_channel c) (ps ! c) w = Inr (p', w') \<and> pw_on p' = pw_on (ps ! c) \<and>
    outputs_ok trig req (ps[c := p']) w'"
proof (cases "pw_initialized (ps ! c)")
  case True
  then show ?thesis using assms by (simp add: pwm_init_def)
next
  case False
  let ?p = "(ps ! c)\<lparr>pw_initialized := True\<rparr>"
  have pol: "polarity_ok (pw_polarity (ps ! c)) (pw_npolarity (ps ! c))" and l: "length ps = 4"
    using assms by (simp_all add: outputs_ok_def)
  obtain r' where r': "init_output req (out_channel c) (pw_polarity (ps ! c)) (pw_npolarity (ps ! c)) (wr_regs w) = Inr r'"
    "tr_cr1 r' = tr_cr1 (wr_regs w)" "tr_smcr r' = tr_smcr (wr_regs w)" "tr_bdtr r' = tr_bdtr (wr_regs w)"
    "\<forall>k \<in> {0, 4, 8, 12, 16, 20}. bit (tr_ccer r') k = bit (tr_ccer (wr_regs w)) k"
    "\<forall>n \<in> {2, 6, 10}. bit (tr_ccer r') n \<longrightarrow> bit (tr_ccer (wr_regs w)) n"
    using init_output_spec [OF assms(2) pol, of req "wr_regs w"] by blast
  have on: "pw_on (ps[c := ?p] ! i) = pw_on (ps ! i)" "pw_polarity (ps[c := ?p] ! i) = pw_polarity (ps ! i)"
    "pw_npolarity (ps[c := ?p] ! i) = pw_npolarity (ps ! i)" for i
    using assms(2) l by (cases "i = c"; simp)+
  have "some_on (ps[c := ?p]) = some_on ps" by (simp add: some_on_def on)
  moreover have "bit (tr_ccer r') (4 * i) = bit (tr_ccer (wr_regs w)) (4 * i)" if "i < 4" for i
    using r'(5) that by (auto dest!: four_cases)
  ultimately have "outputs_ok trig req (ps[c := ?p]) (w\<lparr>wr_regs := r'\<rparr>)"
    using assms(1) r' unfolding outputs_ok_def by (simp add: on)
  then show ?thesis using False r'(1) by (simp add: pwm_init_def)
qed

lemma channel_bit: "c < 4 \<Longrightarrow> bit (push_bit (4 * c mod 32) TIM_CCER_CC1E) n \<longleftrightarrow> n = 4 * c"
  by (simp add: TIM_CCER_CC1E_def bit_exp_iff) linarith

lemma started_regs:
  assumes "c < 4" "\<not> (is_slave_instance req \<and> trig (tr_smcr r AND TIM_SMCR_SMS))"
    and "r' = start_counter trig req (main_output_enable req (set_ccer (push_bit (4 * c mod 32) TIM_CCER_CC1E) r))"
  shows "bit (tr_ccer r') n \<longleftrightarrow> bit (tr_ccer r) n \<or> n = 4 * c" "bit (tr_cr1 r') 0" "tr_smcr r' = tr_smcr r"
    "is_break_instance req \<Longrightarrow> bit (tr_bdtr r') 15"
  using assms(2) unfolding assms(3)
  by (auto simp: start_counter_def main_output_enable_def set_ccer_def enable_counter_def bit_set_bit channel_bit [OF assms(1)]
      CR1_CEN_def TIM_BDTR_MOE_def bit_exp_iff)

lemma stopped_regs:
  assumes "c < 4" "r' = stop_if_free req (clear_ccer (push_bit (4 * c mod 32) TIM_CCER_CC1E) r)"
  shows "n < 32 \<Longrightarrow> bit (tr_ccer r') n \<longleftrightarrow> bit (tr_ccer r) n \<and> n \<noteq> 4 * c" "tr_smcr r' = tr_smcr r"
    "bit (tr_cr1 r') 0 \<longleftrightarrow> bit (tr_cr1 r) 0 \<and> (\<exists>n \<in> set enable_bits. bit (tr_ccer r') n)"
    "is_break_instance req \<Longrightarrow> bit (tr_bdtr r') 15 \<longleftrightarrow> bit (tr_bdtr r) 15 \<and> (\<exists>n \<in> set enable_bits. bit (tr_ccer r') n)"
proof -
  have e: "tr_ccer r' = CLEAR_BIT (tr_ccer r) (push_bit (4 * c mod 32) TIM_CCER_CC1E)"
    by (simp add: assms(2) stop_if_free_def clear_ccer_def disable_counter_def main_output_disable_def)
  then have f: "are_all_channels_free (clear_ccer (push_bit (4 * c mod 32) TIM_CCER_CC1E) r) \<longleftrightarrow> \<not> (\<exists>n \<in> set enable_bits. bit (tr_ccer r') n)"
    by (simp add: all_channels_free_bits clear_ccer_def)
  show "n < 32 \<Longrightarrow> bit (tr_ccer r') n \<longleftrightarrow> bit (tr_ccer r) n \<and> n \<noteq> 4 * c"
    by (simp add: e bit_clear_bit channel_bit [OF assms(1)])
  show "tr_smcr r' = tr_smcr r"
    by (simp add: assms(2) stop_if_free_def clear_ccer_def disable_counter_def main_output_disable_def)
  have "bit (tr_cr1 r') 0 \<longleftrightarrow> bit (tr_cr1 r) 0 \<and> \<not> are_all_channels_free (clear_ccer (push_bit (4 * c mod 32) TIM_CCER_CC1E) r)"
    by (simp add: assms(2) stop_if_free_def disable_counter_def main_output_disable_def bit_clear_bit CR1_CEN_def clear_ccer_def)
  then show "bit (tr_cr1 r') 0 \<longleftrightarrow> bit (tr_cr1 r) 0 \<and> (\<exists>n \<in> set enable_bits. bit (tr_ccer r') n)" unfolding f by blast
  have "bit (tr_bdtr r') 15 \<longleftrightarrow> bit (tr_bdtr r) 15 \<and> \<not> are_all_channels_free (clear_ccer (push_bit (4 * c mod 32) TIM_CCER_CC1E) r)"
    if "is_break_instance req"
    using that by (simp add: assms(2) stop_if_free_def disable_counter_def main_output_disable_def bit_clear_bit TIM_BDTR_MOE_def bit_exp_iff
        clear_ccer_def)
  then show "is_break_instance req \<Longrightarrow> bit (tr_bdtr r') 15 \<longleftrightarrow> bit (tr_bdtr r) 15 \<and> (\<exists>n \<in> set enable_bits. bit (tr_ccer r') n)"
    unfolding f by blast
qed

lemma some_on_update: "length ps = 4 \<Longrightarrow> c < 4 \<Longrightarrow> some_on (ps[c := p]) \<longleftrightarrow> pw_on p \<or> (\<exists>i < 4. i \<noteq> c \<and> pw_on (ps ! i))"
  by (auto simp: some_on_def nth_list_update)

text \<open>The enable bits of a timer whose outputs are right are those of the outputs that are on.\<close>

lemma some_enable_bit:
  assumes "\<forall>n \<in> {16, 20, 2, 6, 10}. \<not> bit (x :: u32) n"
  shows "(\<exists>n \<in> set enable_bits. bit x n) \<longleftrightarrow> (\<exists>i < 4. bit x (4 * i))"
proof -
  have "(\<exists>i < 4. bit x (4 * i)) \<longleftrightarrow> \<not> (\<forall>i < 4. \<not> bit x (4 * i))" by blast
  then show ?thesis using assms by (auto simp: enable_bits_def all_less_4)
qed

lemma other_bits: "c < 4 \<Longrightarrow> \<forall>n \<in> {16, 20, 2, 6, 10 :: nat}. n \<noteq> 4 * c"
  by (auto dest!: four_cases)

lemma outputs_ok_turn_on:
  assumes "outputs_ok trig req ps w" "c < 4"
  shows "\<exists>p' w'. pwm_turn_on trig req (out_channel c) (ps ! c) w = Inr (p', w') \<and> pw_on p' \<and> outputs_ok trig req (ps[c := p']) w'"
proof -
  obtain p1 w1 where i: "pwm_init req (out_channel c) (ps ! c) w = Inr (p1, w1)" "pw_on p1 = pw_on (ps ! c)"
    "outputs_ok trig req (ps[c := p1]) w1"
    using pwm_init_ok [OF assms] by blast
  let ?ps = "ps[c := p1]"
  have l: "length ps = 4" and p1: "?ps ! c = p1" using assms by (simp_all add: outputs_ok_def)
  show ?thesis
  proof (cases "pw_on p1")
    case True
    then show ?thesis using i by (simp add: pwm_turn_on_def with_out_channel [OF assms(2)])
  next
    case False
    define r where "r = start_counter trig req (main_output_enable req (set_ccer (push_bit (4 * c mod 32) TIM_CCER_CC1E) (wr_regs w1)))"
    let ?w = "w1\<lparr>wr_channels := (wr_channels w1)[c := Channel_Busy], wr_regs := r\<rparr>" and ?p = "p1\<lparr>pw_on := True\<rparr>"
    have trig: "\<not> (is_slave_instance req \<and> trig (tr_smcr (wr_regs w1) AND TIM_SMCR_SMS))"
      and ready: "wr_channels w1 ! c = Channel_Ready" and lc: "length (wr_channels w1) = 6"
      using i(3) False p1 assms(2) by (auto simp: outputs_ok_def)
    note st = started_regs [where r = "wr_regs w1" and trig = trig and req = req, OF assms(2) trig r_def]
    have "pwm_turn_on trig req (out_channel c) (ps ! c) w = Inr (?p, ?w)"
      using i(1) False ready by (simp add: pwm_turn_on_def with_out_channel [OF assms(2)] Let_def change_regs_def r_def)
    moreover have "outputs_ok trig req (ps[c := ?p]) ?w"
    proof -
      have s: "some_on (ps[c := ?p])" using l assms(2) by (simp add: some_on_update)
      have "\<forall>i < 4. wr_channels ?w ! i = (if pw_on (ps[c := ?p] ! i) then Channel_Busy else Channel_Ready)"
        "\<forall>i < 4. polarity_ok (pw_polarity (ps[c := ?p] ! i)) (pw_npolarity (ps[c := ?p] ! i))"
        "\<forall>i < 4. bit (tr_ccer r) (4 * i) = pw_on (ps[c := ?p] ! i)"
        using i(3) l lc assms(2) unfolding outputs_ok_def by (auto simp: nth_list_update st(1))
      moreover have "\<forall>n \<in> {16, 20, 2, 6, 10}. \<not> bit (tr_ccer r) n"
        using i(3) other_bits [OF assms(2)] unfolding outputs_ok_def st(1) by blast
      ultimately show ?thesis using i(3) s st(2-4) l unfolding outputs_ok_def by simp
    qed
    ultimately show ?thesis by auto
  qed
qed

lemma outputs_ok_turn_off:
  assumes "outputs_ok trig req ps w" "c < 4"
  shows "\<exists>p' w'. pwm_turn_off req (out_channel c) (ps ! c) w = Inr (p', w') \<and> \<not> pw_on p' \<and> outputs_ok trig req (ps[c := p']) w'"
proof (cases "pw_on (ps ! c)")
  case False
  then show ?thesis using assms by (simp add: pwm_turn_off_def with_out_channel [OF assms(2)])
next
  case True
  have l: "length ps = 4" "length (wr_channels w) = 6" using assms(1) by (simp_all add: outputs_ok_def)
  define r where "r = stop_if_free req (clear_ccer (push_bit (4 * c mod 32) TIM_CCER_CC1E) (wr_regs w))"
  let ?w = "w\<lparr>wr_channels := (wr_channels w)[c := Channel_Ready], wr_regs := r\<rparr>" and ?p = "(ps ! c)\<lparr>pw_on := False\<rparr>"
  note st = stopped_regs [where r = "wr_regs w" and req = req, OF assms(2) r_def]
  have b: "\<forall>i < 4. bit (tr_ccer r) (4 * i) = pw_on (ps[c := ?p] ! i)" "\<forall>n \<in> {16, 20, 2, 6, 10}. \<not> bit (tr_ccer r) n"
    using assms l unfolding outputs_ok_def by (auto simp: nth_list_update st(1))
  have on: "some_on ps" using True assms(2) by (auto simp: some_on_def)
  have e: "(\<exists>n \<in> set enable_bits. bit (tr_ccer r) n) \<longleftrightarrow> some_on (ps[c := ?p])"
    unfolding some_enable_bit [OF b(2)] some_on_def using b(1) by blast
  have "pwm_turn_off req (out_channel c) (ps ! c) w = Inr (?p, ?w)"
    using True by (simp add: pwm_turn_off_def with_out_channel [OF assms(2)] Let_def change_regs_def r_def)
  moreover have "outputs_ok trig req (ps[c := ?p]) ?w"
  proof -
    have "\<forall>i < 4. wr_channels ?w ! i = (if pw_on (ps[c := ?p] ! i) then Channel_Busy else Channel_Ready)"
      "\<forall>i < 4. polarity_ok (pw_polarity (ps[c := ?p] ! i)) (pw_npolarity (ps[c := ?p] ! i))"
      using assms l unfolding outputs_ok_def by (auto simp: nth_list_update)
    then show ?thesis using assms(1) b st(2-4) on l unfolding outputs_ok_def e by simp
  qed
  ultimately show ?thesis by auto
qed

fun op_channel :: "pwm_op \<Rightarrow> nat" where
  "op_channel (Turn_On c) = c"
| "op_channel (Turn_Off c) = c"

fun on_after :: "pwm_op \<Rightarrow> bool list \<Rightarrow> bool list" where
  "on_after (Turn_On c) bs = bs[c := True]"
| "on_after (Turn_Off c) bs = bs[c := False]"

lemma run_pwm_ok:
  assumes "outputs_ok trig req ps w" "op_channel q < 4"
  shows "\<exists>ps' w'. run_pwm trig req q (ps, w) = (ps', w') \<and> outputs_ok trig req ps' w' \<and> map pw_on ps' = on_after q (map pw_on ps)"
proof (cases q)
  case (Turn_On c)
  then show ?thesis
    using outputs_ok_turn_on [OF assms(1), of c] assms(2) by (auto simp: run_pwm_def map_update)
next
  case (Turn_Off c)
  then show ?thesis
    using outputs_ok_turn_off [OF assms(1), of c] assms(2) by (auto simp: run_pwm_def map_update)
qed

text \<open>C37. The outputs of a timer, with a pulse width modulation on each of its four channels: after any sequence of turning them on
  and off, those are on that were turned on last and not off, exactly their enable bits are set, the
  counter runs exactly if one is on, and so does the main output of a timer that has it; no
  channel is ever found in use.\<close>

theorem outputs_follow_requests:
  assumes "outputs_ok trig req ps w" "\<forall>q \<in> set qs. op_channel q < 4"
    and "(ps', w') = fold (run_pwm trig req) qs (ps, w)"
  shows "map pw_on ps' = fold on_after qs (map pw_on ps) \<and> wr_panics w' = [] \<and>
    (\<forall>c < 4. bit (tr_ccer (wr_regs w')) (4 * c) = pw_on (ps' ! c)) \<and>
    bit (tr_cr1 (wr_regs w')) 0 = (\<exists>c < 4. pw_on (ps' ! c)) \<and>
    (is_break_instance req \<longrightarrow> bit (tr_bdtr (wr_regs w')) 15 = (\<exists>c < 4. pw_on (ps' ! c)))"
proof -
  have "outputs_ok trig req ps' w' \<and> map pw_on ps' = fold on_after qs (map pw_on ps)"
    using assms
  proof (induction qs arbitrary: ps w)
    case (Cons q qs)
    have "op_channel q < 4" using Cons.prems(2) by simp
    from run_pwm_ok [OF Cons.prems(1) this] obtain ps1 w1 where "run_pwm trig req q (ps, w) = (ps1, w1)"
      "outputs_ok trig req ps1 w1" "map pw_on ps1 = on_after q (map pw_on ps)" by blast
    then show ?case using Cons.IH [of ps1 w1] Cons.prems(2,3) by simp
  qed simp
  then show ?thesis by (auto simp: outputs_ok_def some_on_def)
qed

section \<open>The channels of a timer are configured one by one\<close>

text \<open>What a channel has in the registers: its half of a mode register, its four bits of the enable register, and its capture register.\<close>

definition channel_view :: "nat \<Rightarrow> timer_regs \<Rightarrow> u32 \<times> u32 \<times> u32" where
  "channel_view c r =
     (read_ccmr (out_channel c) r AND (if even c then 0xFF else 0xFF00), tr_ccer r AND push_bit (4 * c) 0xF, tr_ccr r ! c)"

lemma six_cases: "c < 6 \<Longrightarrow> c = 0 \<or> c = 1 \<or> c = 2 \<or> c = 3 \<or> c = 4 \<or> c = (5 :: nat)"
  by linarith

lemmas bits_of_view = CLEAR_BIT_def SET_BIT_def timer_bits bit.conj_disj_distrib2 and.assoc

lemma output_ccer_view:
  assumes "c < 6" "i < 6" "i \<noteq> c" "polarity_ok (oc_polarity cfg) (oc_npolarity cfg)"
  shows "output_ccer req (out_channel c) cfg x AND push_bit (4 * i) 0xF = x AND push_bit (4 * i) 0xF"
proof -
  have pol: "oc_polarity cfg = 0 \<or> oc_polarity cfg = 2" "oc_npolarity cfg = 0 \<or> oc_npolarity cfg = 8"
    using assms(4) by (simp_all add: polarity_ok_def)
  then show ?thesis
    using six_cases [OF assms(1)] six_cases [OF assms(2)] assms(3)
    by (elim disjE) (simp_all add: output_ccer_def out_channel_def output_channels_def bits_of_view)
qed

definition output_ccmr :: "nat \<Rightarrow> u32 \<Rightarrow> u32" where
  "output_ccmr c x = SET_BIT (oc_ccmr (out_channel c) (pwm_config 0 0 0) x) (if even c then 8 else 0x800)"

lemma all_less_6: "(\<forall>i < 6. P i) \<longleftrightarrow> P 0 \<and> P 1 \<and> P 2 \<and> P 3 \<and> P 4 \<and> P (5 :: nat)"
  by (auto dest!: six_cases)

lemma init_output_eq:
  assumes "c < 6"
  shows "\<exists>r'. init_output req (out_channel c) pol npol r = Inr r' \<and>
    read_ccmr (out_channel c) r' = output_ccmr c (read_ccmr (out_channel c) r) \<and>
    (\<forall>i < 6. i div 2 \<noteq> c div 2 \<longrightarrow> read_ccmr (out_channel i) r' = read_ccmr (out_channel i) r) \<and>
    (\<forall>i < 6. i div 2 = c div 2 \<longrightarrow> read_ccmr (out_channel i) r' = output_ccmr c (read_ccmr (out_channel i) r)) \<and>
    tr_ccer r' = output_ccer req (out_channel c) (pwm_config (tr_ccr r ! c) pol npol) (tr_ccer r) \<and> tr_ccr r' = tr_ccr r"
  unfolding all_less_6 using six_cases [OF assms]
  by (elim disjE) (simp_all add: out_channel_def output_channels_def init_output_def get_capture_compare_def Let_def output_ccer_def
      config_output_compare_channel_def write_ccmr_def read_ccmr_def output_ccmr_def pwm_config_def timer_bits)

lemma output_ccmr_other:
  assumes "c < 6" "i < 6" "i \<noteq> c" "i div 2 = c div 2" "c \<noteq> 5"
  shows "output_ccmr c x AND (if even i then 0xFF else 0xFF00) = x AND (if even i then 0xFF else 0xFF00)"
  using six_cases [OF assms(1)] six_cases [OF assms(2)] assms(3-5)
  by (elim disjE) (simp_all add: output_ccmr_def out_channel_def output_channels_def pwm_config_def bits_of_view)

lemma output_ccmr_6: "output_ccmr 5 x AND 0xFF = x AND 0xFF OR 0x60"
  by (simp add: output_ccmr_def out_channel_def output_channels_def pwm_config_def bits_of_view)

lemma output_ccmr_own:
  assumes "c < 6"
  shows "output_ccmr c x AND (if even c then 0x70 else 0x7000) = (if c = 5 then 0 else if even c then 0x60 else 0x6000)"
  using six_cases [OF assms]
  by (elim disjE) (simp_all add: output_ccmr_def out_channel_def output_channels_def pwm_config_def bits_of_view)

text \<open>C38. Making a pulse width modulation of a channel: the channels 1 to 5 get its mode and leave the mode, the enable and
  polarity bits and the capture register of every other channel as they are. The channel 6 does not: its own mode is
  cleared, and the mode is written into the channel 5, since the value is not moved to its place.\<close>

theorem channels_independent:
  assumes "c < 6" "polarity_ok pol npol" "init_output req (out_channel c) pol npol r = Inr r'"
  shows "read_ccmr (out_channel c) r' AND (if even c then 0x70 else 0x7000) = (if c = 5 then 0 else if even c then 0x60 else 0x6000) \<and>
    (\<forall>i < 6. i \<noteq> c \<longrightarrow> channel_view i r' = (case channel_view i r of (m, e, v) \<Rightarrow> (if c = 5 \<and> i = 4 then m OR 0x60 else m, e, v)))"
proof -
  from init_output_eq [OF assms(1), of req pol npol r] assms(3) have r':
    "read_ccmr (out_channel c) r' = output_ccmr c (read_ccmr (out_channel c) r)"
    "\<And>i. i < 6 \<Longrightarrow> i div 2 \<noteq> c div 2 \<Longrightarrow> read_ccmr (out_channel i) r' = read_ccmr (out_channel i) r"
    "\<And>i. i < 6 \<Longrightarrow> i div 2 = c div 2 \<Longrightarrow> read_ccmr (out_channel i) r' = output_ccmr c (read_ccmr (out_channel i) r)"
    "tr_ccer r' = output_ccer req (out_channel c) (pwm_config (tr_ccr r ! c) pol npol) (tr_ccer r)" "tr_ccr r' = tr_ccr r"
    by auto
  have e: "tr_ccer r' AND push_bit (4 * i) 0xF = tr_ccer r AND push_bit (4 * i) 0xF" if "i < 6" "i \<noteq> c" for i
    unfolding r'(4) using assms(2) by (intro output_ccer_view assms(1) that) (simp add: pwm_config_def)
  have m: "read_ccmr (out_channel i) r' AND (if even i then 0xFF else 0xFF00) =
      (if c = 5 \<and> i = 4 then read_ccmr (out_channel i) r AND (if even i then 0xFF else 0xFF00) OR 0x60
       else read_ccmr (out_channel i) r AND (if even i then 0xFF else 0xFF00))" if "i < 6" "i \<noteq> c" for i
  proof (cases "i div 2 = c div 2")
    case True
    show ?thesis
    proof (cases "c = 5")
      case True
      then have "i = 4" using that \<open>i div 2 = c div 2\<close> six_cases [OF that(1)] by auto
      then show ?thesis using True r'(3) [OF that(1)] by (simp add: output_ccmr_6)
    next
      case False
      then show ?thesis unfolding r'(3) [OF that(1) \<open>i div 2 = c div 2\<close>]
        using output_ccmr_other [OF assms(1) that \<open>i div 2 = c div 2\<close> False] by simp
    qed
  next
    case False
    then show ?thesis using r'(2) [OF that(1) False] by auto
  qed
  show ?thesis
    unfolding r'(1) output_ccmr_own [OF assms(1)] channel_view_def using m e r'(5) by auto
qed

section \<open>The frequency of a wrapper\<close>



section \<open>Turning a capture on and off\<close>

lemma capture_bit:
  assumes "c < 4"
  shows "capture_interrupt_bit (out_channel c) = push_bit (c + 1) 1"
  using four_cases [OF assms] by (elim disjE) (simp_all add: out_channel_def output_channels_def timer_bits)

lemma and_zero_bits: "(x :: u32) AND m = 0 \<longleftrightarrow> (\<forall>n < 32. \<not> (bit x n \<and> bit m n))"
  by (simp add: bit_eq_iff bit_and_iff)

lemma clear_set: "x AND a = 0 \<Longrightarrow> CLEAR_BIT (SET_BIT x a) a = x"
  unfolding and_zero_bits CLEAR_BIT_def SET_BIT_def by (rule bit_word_eqI) (auto simp: bit_simps)

lemma clear_set_twice:
  assumes "x AND a = 0" "x AND b = 0"
  shows "CLEAR_BIT (CLEAR_BIT (SET_BIT (SET_BIT x a) b) a) b = x"
  using assms unfolding and_zero_bits CLEAR_BIT_def SET_BIT_def by (intro bit_word_eqI) (auto simp: bit_simps)

lemma list_set_back:
  shows "xs ! i = x \<Longrightarrow> xs ! j = x \<Longrightarrow> i \<noteq> j \<Longrightarrow> xs[i := y, j := y, i := x, j := x] = xs" "xs ! i = x \<Longrightarrow> xs[i := x] = xs"
  by (metis list_update_id list_update_overwrite list_update_swap) (metis list_update_id)

text \<open>The bits of a channel's capture are not set.\<close>

definition capture_off :: "nat \<Rightarrow> timer_regs \<Rightarrow> bool" where
  "capture_off c r \<longleftrightarrow> \<not> bit (tr_dier r) (c + 1) \<and> \<not> bit (tr_ccer r) (4 * c)"

lemma capture_off_bits:
  assumes "c < 4" "capture_off c r"
  shows "tr_dier r AND capture_interrupt_bit (out_channel c) = 0" "tr_ccer r AND push_bit (4 * c mod 32) TIM_CCER_CC1E = 0"
proof -
  show "tr_dier r AND capture_interrupt_bit (out_channel c) = 0"
    using assms(2) by (simp only: capture_bit [OF assms(1)] push_bit_of_1 and_exp_eq_0_iff_not_bit capture_off_def) simp
  show "tr_ccer r AND push_bit (4 * c mod 32) TIM_CCER_CC1E = 0"
    using assms by (simp add: capture_off_def TIM_CCER_CC1E_def and_exp_eq_0_iff_not_bit)
qed

text \<open>An input capture whose second channel is in use is not started: everything is as it was before, but that the counter
  and the flags are cleared and the failure is reported.\<close>

theorem capture_rolled_back:
  assumes "ip_initialized p" "\<not> ip_on p" "c < 4" "d < 4" "c \<noteq> d" "channel_ready c w" "\<not> channel_ready d w" "capture_off c (wr_regs w)"
  shows "capture_turn_on trig req (out_channel c) (out_channel d) p w =
    Inr (p, report_panic ''Channels not ready'' (change_regs (\<lambda>r. r\<lparr>tr_cnt := 0, tr_sr := 0\<rparr>) w))"
proof -
  note b = capture_off_bits [OF assms(3,8)]
  have r: "wr_channels w ! c = Channel_Ready" "wr_nchannels w ! c = Channel_Ready" using assms(6) by (simp_all add: channel_ready_def)
  show ?thesis
    using assms(1,2,5,7) b r list_set_back(2) [OF r(1)] list_set_back(2) [OF r(2)]
    by (simp add: capture_turn_on_def capture_init_def with_out_channel [OF assms(3)] with_out_channel [OF assms(4)] start_capture_def Let_def
        channel_ready_def set_channel_def change_regs_def report_panic_def enable_capture_def disable_capture_def
        enable_capture_compare_interrupt_def disable_capture_compare_interrupt_def set_ccer_def clear_ccer_def clear_set)
qed

text \<open>C39. An input capture turned on and off again: the channels, their interrupts and their bits are as before, whatever other
  channels of the timer do; the counter and the flags are cleared, and the counter is stopped exactly if no
  channel of the timer is in use.\<close>

theorem capture_on_off:
  assumes "ip_initialized p" "\<not> ip_on p" "c < 4" "d < 4" "c \<noteq> d" "channel_ready c w" "channel_ready d w"
    and "capture_off c (wr_regs w)" "capture_off d (wr_regs w)"
    and "capture_turn_on trig req (out_channel c) (out_channel d) p w = Inr (p1, w1)"
  shows "ip_on p1 \<and> capture_turn_off (out_channel c) (out_channel d) p1 w1 =
    Inr (p, change_regs (\<lambda>r. let r = start_counter trig req (r\<lparr>tr_cnt := 0, tr_sr := 0\<rparr>)
                              in if are_all_channels_free r then disable_counter r else r) w)"
proof -
  note b = capture_off_bits [OF assms(3,8)] capture_off_bits [OF assms(4,9)]
  have r: "wr_channels w ! c = Channel_Ready" "wr_nchannels w ! c = Channel_Ready"
    "wr_channels w ! d = Channel_Ready" "wr_nchannels w ! d = Channel_Ready" using assms(6,7) by (simp_all add: channel_ready_def)
  define r where "r = (wr_regs w)\<lparr>tr_cnt := 0, tr_sr := 0\<rparr>"
  let ?a = "push_bit (4 * c mod 32) TIM_CCER_CC1E" and ?b = "push_bit (4 * d mod 32) TIM_CCER_CC1E"
  let ?m = "capture_interrupt_bit (out_channel c)" and ?n = "capture_interrupt_bit (out_channel d)"
  let ?r = "r\<lparr>tr_dier := SET_BIT (SET_BIT (tr_dier r) ?m) ?n, tr_ccer := SET_BIT (SET_BIT (tr_ccer r) ?a) ?b\<rparr>"
  have on: "(p1, w1) = (p\<lparr>ip_on := True\<rparr>, w\<lparr>wr_channels := (wr_channels w)[c := Channel_Busy, d := Channel_Busy],
      wr_nchannels := (wr_nchannels w)[c := Channel_Busy, d := Channel_Busy], wr_regs := start_counter trig req ?r\<rparr>)"
    using assms(10) assms(1,2,5) r
    by (simp add: capture_turn_on_def capture_init_def with_out_channel [OF assms(3)] with_out_channel [OF assms(4)] start_capture_def Let_def
        channel_ready_def set_channel_def change_regs_def enable_capture_def enable_capture_compare_interrupt_def set_ccer_def r_def)
  define q where "q = start_counter trig req r"
  have k: "tr_dier q = tr_dier r" "tr_ccer q = tr_ccer r" by (simp_all add: q_def start_counter_def enable_counter_def)
  have "start_counter trig req ?r = q\<lparr>tr_dier := tr_dier ?r, tr_ccer := tr_ccer ?r\<rparr>"
    by (simp add: q_def start_counter_def enable_counter_def)
  then have p1: "p1 = p\<lparr>ip_on := True\<rparr>" and w1: "wr_regs w1 = q\<lparr>tr_dier := tr_dier ?r, tr_ccer := tr_ccer ?r\<rparr>"
    and l: "w1 = w\<lparr>wr_channels := (wr_channels w)[c := Channel_Busy, d := Channel_Busy],
      wr_nchannels := (wr_nchannels w)[c := Channel_Busy, d := Channel_Busy], wr_regs := wr_regs w1\<rparr>"
    using on by simp_all
  have cleared: "CLEAR_BIT (CLEAR_BIT (SET_BIT (SET_BIT (tr_ccer r) ?a) ?b) ?a) ?b = tr_ccer q"
    "CLEAR_BIT (CLEAR_BIT (SET_BIT (SET_BIT (tr_dier r) ?m) ?n) ?m) ?n = tr_dier q"
    unfolding k using b by (simp_all add: r_def clear_set_twice)
  have "disable_capture (out_channel d) (4 * d) (disable_capture (out_channel c) (4 * c) (wr_regs w1)) = q"
    unfolding w1 by (simp add: disable_capture_def disable_capture_compare_interrupt_def clear_ccer_def cleared)
  moreover have "stop_capture (out_channel d) d (4 * d) (stop_capture (out_channel c) c (4 * c) w1) =
      w\<lparr>wr_regs := disable_capture (out_channel d) (4 * d) (disable_capture (out_channel c) (4 * c) (wr_regs w1))\<rparr>"
    using list_set_back(1) [OF r(1,3) assms(5), of Channel_Busy] list_set_back(1) [OF r(2,4) assms(5), of Channel_Busy]
    by (subst l, simp add: stop_capture_def set_channel_def change_regs_def)
  ultimately have "stop_capture (out_channel d) d (4 * d) (stop_capture (out_channel c) c (4 * c) w1) = w\<lparr>wr_regs := q\<rparr>" by simp
  then have "capture_turn_off (out_channel c) (out_channel d) p1 w1 =
      Inr (p, w\<lparr>wr_regs := if are_all_channels_free q then disable_counter q else q\<rparr>)"
    using assms(2)
    by (simp add: p1 capture_turn_off_def with_out_channel [OF assms(3)] with_out_channel [OF assms(4)] Let_def change_regs_def)
  then show ?thesis by (simp add: p1 change_regs_def Let_def q_def r_def)
qed

section \<open>Two outputs, and the encoder\<close>

lemma started_mask:
  assumes "\<not> (is_slave_instance req \<and> trig (tr_smcr r AND TIM_SMCR_SMS))"
    and "r' = start_counter trig req (main_output_enable req (set_ccer m r))"
  shows "bit (tr_ccer r') n \<longleftrightarrow> bit (tr_ccer r) n \<or> bit m n" "bit (tr_cr1 r') 0" "tr_smcr r' = tr_smcr r"
  using assms(1) unfolding assms(2)
  by (auto simp: start_counter_def main_output_enable_def set_ccer_def enable_counter_def bit_set_bit CR1_CEN_def)

definition negated_channel :: "nat \<Rightarrow> TimerChannel" where
  "negated_channel c = [CHANNEL_1_NEGATED, CHANNEL_2_NEGATED, CHANNEL_3_NEGATED] ! c"

lemma with_negated_channel: "c < 3 \<Longrightarrow> with_channel (negated_channel c) f = Inr (f c (4 * c))"
  by (cases c rule: nat.exhaust; cases "c - 1") (auto simp: negated_channel_def with_channel_def get_channel_state_idx_def less_Suc_eq numeral_eq_Suc)

text \<open>Both outputs of a channel: their enable bits are set and the counter runs.\<close>

lemma dual_turn_on_outputs:
  assumes "dp_initialized p" "\<not> dp_on_positive p" "\<not> dp_on_negative p" "c < 3"
    and "wr_channels w ! c = Channel_Ready" "wr_nchannels w ! c = Channel_Ready"
    and trig: "\<not> (is_slave_instance req \<and> trig (tr_smcr (wr_regs w) AND TIM_SMCR_SMS))"
    and "dual_turn_on trig req (out_channel c) (negated_channel c) p w = Inr (p', w')"
  shows "bit (tr_ccer (wr_regs w')) (4 * c) \<and> bit (tr_ccer (wr_regs w')) (4 * c + 2) \<and> bit (tr_cr1 (wr_regs w')) 0"
    and "dp_on_positive p' \<and> dp_on_negative p' \<and> wr_panics w' = wr_panics w"
proof -
  have c4: "c < 4" using assms(4) by simp
  define r1 where "r1 = start_counter trig req (main_output_enable req (set_ccer (push_bit (4 * c mod 32) TIM_CCER_CC1E) (wr_regs w)))"
  define r2 where "r2 = start_counter trig req (main_output_enable req (set_ccer (push_bit (4 * c mod 32) TIM_CCER_CC1NE) r1))"
  note s1 = started_mask [where trig = trig and req = req, OF trig r1_def]
  have "\<not> (is_slave_instance req \<and> trig (tr_smcr r1 AND TIM_SMCR_SMS))" using trig s1(3) by simp
  note s2 = started_mask [where trig = trig and req = req, OF this r2_def]
  have e: "dual_turn_on trig req (out_channel c) (negated_channel c) p w =
      Inr (p\<lparr>dp_on_positive := True, dp_on_negative := True\<rparr>, w\<lparr>wr_channels := (wr_channels w)[c := Channel_Busy],
        wr_nchannels := (wr_nchannels w)[c := Channel_Busy], wr_regs := r2\<rparr>)"
    using assms(1-3,5,6) by (simp add: dual_turn_on_def dual_initialize_def turn_on_positive_def turn_on_negative_def with_out_channel [OF c4]
        with_negated_channel [OF assms(4)] Let_def change_regs_def r1_def r2_def)
  have "4 * c + 2 < 32" using c4 by simp
  then have "bit (push_bit (4 * c mod 32) TIM_CCER_CC1NE) (4 * c + 2)"
    using c4 by (simp add: TIM_CCER_CC1NE_def bit_push_bit_iff)
  then show "bit (tr_ccer (wr_regs w')) (4 * c) \<and> bit (tr_ccer (wr_regs w')) (4 * c + 2) \<and> bit (tr_cr1 (wr_regs w')) 0"
    "dp_on_positive p' \<and> dp_on_negative p' \<and> wr_panics w' = wr_panics w"
    using e assms(8) s2(1,2) s1(1) channel_bit [OF c4] by auto
qed

text \<open>An encoder is started in the middle of its range, and turning it on again does not move it.\<close>

lemma encoder_starts_in_the_middle:
  assumes "\<not> en_on e" "en_initialized e" "\<not> eh_state_reset hal (wr_regs w)" "eh_start hal (wr_regs w) = (True, r)"
    and "encoder_turn_on hal req e w = (e', w')"
  shows "en_on e'" "get_counter (wr_regs w') = tr_arr r div 2" "encoder_turn_on hal req e' w' = (e', w')"
  using assms by (auto simp: encoder_turn_on_def Let_def change_regs_def encoder_reset_def get_counter_def get_initial_counter_value_def)

text \<open>An encoder whose initialization failed is not initialized again: the failure is reported once, and the encoder is started with
  the limit the timer had.\<close>

lemma failed_encoder_started:
  assumes "\<not> en_on e" "\<not> en_initialized e" "eh_init hal (wr_regs w) = (False, r)" "\<not> eh_state_reset hal r" "eh_start hal r = (True, r')"
  shows "encoder_turn_on hal req e w =
    (\<lparr>en_on = True, en_initialized = True\<rparr>, w\<lparr>wr_regs := encoder_reset r', wr_panics := wr_panics w @ [''Unable to init encoder'']\<rparr>)"
  using assms by (simp add: encoder_turn_on_def encoder_init_def report_panic_def change_regs_def Let_def)

section \<open>Witnesses\<close>

definition idle_wrapper :: "unit wrapper" where
  "idle_wrapper =
     \<lparr>wr_regs = idle_regs, wr_channels = replicate 6 Channel_Ready, wr_nchannels = replicate 6 Channel_Ready, wr_nvic = False,
      wr_duties = [], wr_frequency = 0, wr_panics = []\<rparr>"

definition idle_pwm :: pwm where
  "idle_pwm = \<lparr>pw_on = False, pw_initialized = False, pw_polarity = 0, pw_npolarity = 8\<rparr>"

definition never_triggered :: "u32 \<Rightarrow> bool" where
  "never_triggered x = False"

lemma outputs_ok_idle: "outputs_ok never_triggered 1 (replicate 4 idle_pwm) idle_wrapper"
  by (simp add: outputs_ok_def all_less_4 idle_pwm_def idle_wrapper_def idle_regs_def polarity_ok_def never_triggered_def some_on_def)

lemma outputs_follow_requests_witness:
  "bit (tr_cr1 (wr_regs (snd (fold (run_pwm never_triggered 1) [Turn_On 0, Turn_On 2, Turn_Off 0] (replicate 4 idle_pwm, idle_wrapper))))) 0"
proof -
  let ?qs = "[Turn_On 0, Turn_On 2, Turn_Off 0]"
  obtain ps w where x: "(ps, w) = fold (run_pwm never_triggered 1) ?qs (replicate 4 idle_pwm, idle_wrapper)"
    by (metis surj_pair)
  have "\<forall>q \<in> set ?qs. op_channel q < 4" by simp
  from outputs_follow_requests [OF outputs_ok_idle this x]
  have m: "map pw_on ps = [False, False, True, False]" and c: "bit (tr_cr1 (wr_regs w)) 0 = (\<exists>c < 4. pw_on (ps ! c))"
    by (simp_all add: idle_pwm_def eval_nat_numeral)
  have "length ps = 4" using arg_cong [OF m, of length] by simp
  then have "pw_on (ps ! 2)" using arg_cong [OF m, of "\<lambda>xs. xs ! 2"] by simp
  then have "\<exists>c < 4. pw_on (ps ! c)" by (intro exI [of _ 2]) simp
  then show ?thesis using c x [symmetric] by simp
qed

lemma channels_independent_witness:
  "map_sum id (channel_view 4) (init_output 1 CHANNEL_6 0 0 idle_regs) = Inr (0x60, 0, 0)"
proof -
  have p: "polarity_ok 0 0" by (simp add: polarity_ok_def)
  obtain r' where r': "init_output 1 (out_channel 5) 0 0 idle_regs = Inr r'" using init_output_eq [of 5 1 0 0 idle_regs] by auto
  have "channel_view 4 r' = (case channel_view 4 idle_regs of (m, e, v) \<Rightarrow> (m OR 0x60, e, v))"
    using channels_independent [OF _ p r'] by simp
  moreover have "channel_view 4 idle_regs = (0, 0, 0)" by code_simp
  ultimately show ?thesis using r' by (simp add: out_channel_def output_channels_def)
qed

lemma capture_rolled_back_witness:
  "capture_turn_on never_triggered 3 CHANNEL_1 CHANNEL_2 \<lparr>ip_on = False, ip_initialized = True\<rparr>
     (idle_wrapper\<lparr>wr_channels := (wr_channels idle_wrapper)[1 := Channel_Busy]\<rparr>) =
   Inr (\<lparr>ip_on = False, ip_initialized = True\<rparr>,
     idle_wrapper\<lparr>wr_channels := (wr_channels idle_wrapper)[1 := Channel_Busy], wr_panics := [''Channels not ready'']\<rparr>)"
proof -
  let ?w = "idle_wrapper\<lparr>wr_channels := (wr_channels idle_wrapper)[1 := Channel_Busy]\<rparr>"
  have "channel_ready 0 ?w" "\<not> channel_ready 1 ?w" "capture_off 0 (wr_regs ?w)"
    by (simp_all add: channel_ready_def idle_wrapper_def idle_regs_def capture_off_def)
  then show ?thesis
    using capture_rolled_back [of "\<lparr>ip_on = False, ip_initialized = True\<rparr>" 0 1 ?w never_triggered 3]
    by (simp add: out_channel_def output_channels_def report_panic_def change_regs_def) (simp add: idle_wrapper_def idle_regs_def)
qed

lemma capture_on_off_witness:
  "\<exists>p w. capture_turn_on never_triggered 3 CHANNEL_1 CHANNEL_2 \<lparr>ip_on = False, ip_initialized = True\<rparr> idle_wrapper = Inr (p, w) \<and>
     ip_on p \<and> map_sum id fst (capture_turn_off CHANNEL_1 CHANNEL_2 p w) = Inr \<lparr>ip_on = False, ip_initialized = True\<rparr>"
proof -
  let ?p = "\<lparr>ip_on = False, ip_initialized = True\<rparr>"
  have c: "channel_ready 0 idle_wrapper" "channel_ready 1 idle_wrapper" "capture_off 0 (wr_regs idle_wrapper)" "capture_off 1 (wr_regs idle_wrapper)"
    by (simp_all add: channel_ready_def idle_wrapper_def idle_regs_def capture_off_def)
  have o: "out_channel 0 = CHANNEL_1" "out_channel 1 = CHANNEL_2" by (simp_all add: out_channel_def output_channels_def)
  obtain x where x: "capture_turn_on never_triggered 3 (out_channel 0) (out_channel 1) ?p idle_wrapper = Inr x"
    by (cases "capture_turn_on never_triggered 3 (out_channel 0) (out_channel 1) ?p idle_wrapper")
      (simp_all add: capture_turn_on_def capture_init_def with_out_channel)
  obtain p w where t: "capture_turn_on never_triggered 3 (out_channel 0) (out_channel 1) ?p idle_wrapper = Inr (p, w)"
    using x by (cases x) simp
  show ?thesis
    using capture_on_off [OF _ _ _ _ _ c t] t unfolding o by auto
qed

end
