(* ===== verification/Spec2Isabelle.thy ===== *)
theory Spec2Isabelle
  imports Containers Transport Fault Servers Udp Mpu Mdma Board Spi Outputs
begin

text \<open>
  A verification library of ST-LIB, the C++ library of the HyperloopUPV control boards (STM32H7): the
  services of the library as HOL functions on explicit states, and the theorems that make them correct.
  Paths below are relative to \<open>src/\<close>.

  The program. A board is declared as a list of devices. While it is compiled, the devices are inscribed
  into the domains of the hardware they use, and each domain computes its configurations: pins, DMA
  streams, buffers in the arenas of the memory protection unit, converters, interrupts, SPI
  peripherals. At run time the initialization walks over the domains. The scheduler then runs
  periodic tasks and timeouts on one hardware timer. The state machines of the application run their cyclic
  actions as tasks of the scheduler and register orders while they are in a state. The protections
  evaluate samples against rules and report to the diagnostics hub; an active fault asks the fault
  controller for the global state \<open>FAULT\<close>, which tells the other boards by orders. Packets and orders travel over
  TCP and UDP sockets on lwIP, and over SPI and MDMA inside a board.

  Conventions. A C++ record is a \<open>record\<close>, an enumeration a \<open>datatype\<close>, an integer a word of its width; where
  the width does not matter, sizes and indices are numbers. Whatever the repository only calls (the HAL, lwIP, the
  user's callbacks, the C library) is a parameter, mostly a record of operations on a world \<open>'w\<close>; some
  models record the calls instead. A \<open>compile_error\<close> or a failed constant expression is the left value of a
  sum. Undefined behaviour is \<open>None\<close>. A \<open>PANIC\<close> returns, as it does in the code, and is recorded.

  Theories, each with the code it models.
  \<^item> \<open>Prelude\<close>: the integer types, and what the theories share on lists, rotated indices and words.
  \<^item> \<open>Containers\<close>: \<open>RingBuffer\<close>, \<open>Stack\<close> and \<open>StaticVector\<close> of \<open>Inc/C++Utilities\<close> over their raw arrays; the locales
    \<open>bounded_store\<close>, \<open>bounded_fifo\<close> and \<open>bounded_lifo\<close> are their contract, interpreted on the three classes.
  \<^item> \<open>TaskQueue\<close>, \<open>Scheduler\<close>: \<open>Scheduler.cpp\<close>. The queue of the active tasks is one 64-bit word of nibbles; the
    locale \<open>deadline_queue\<close> is its contract. The scheduler's operations and its timer interrupt preserve
    \<open>sched_inv\<close>; the interrupt fires exactly the tasks that are due, and its loop ends.
  \<^item> \<open>StateMachine\<close>: \<open>StateMachine.hpp\<close>, machines nested in the states of others. The order of the effects of a change of state, and the
    tasks that are registered after it. The locale \<open>task_registry\<close> is what the machines need of a scheduler,
    interpreted on the model of \<open>Scheduler\<close>.
  \<^item> \<open>Protections\<close>: \<open>Rules.hpp\<close>, \<open>Protection.hpp\<close>. What a rule says of a sample, the edges, the accumulated
    time, and the result of a protection as the combination of its rules.
  \<^item> \<open>Rtc\<close>: \<open>RTC.cpp\<close>. \<open>Diagnostics\<close>: \<open>DiagnosticsHub.cpp\<close>, its history and the deliveries to the sinks. \<open>Transport\<close>:
    \<open>DiagnosticFormatter.cpp\<close> and \<open>DiagnosticSinks.cpp\<close>, with the round trip of a record over the wire.
  \<^item> \<open>Packets\<close>: \<open>Packet.hpp\<close>, \<open>PacketValue.hpp\<close>, \<open>Order.hpp\<close>, with round trip, dispatch, and the locale \<open>id_registry\<close> of
    the registries. \<open>Streams\<close>: the parser of a TCP stream, which refines the splitting into frames and does
    not depend on the segments.
  \<^item> \<open>Tcp\<close>, \<open>Servers\<close>, \<open>Udp\<close>: \<open>Socket.cpp\<close>, \<open>ServerSocket.cpp\<close> and \<open>DatagramSocket.cpp\<close> over lwIP; what is sent is an append
    to the connection, and the orders sent arrive. The locale \<open>order_protocol\<close> is interpreted on both kinds of socket.
  \<^item> \<open>Fault\<close>: \<open>FaultController.cpp\<close>, \<open>ErrorHandler.cpp\<close>, \<open>InfoWarning.cpp\<close>, \<open>ProtectionEngine.hpp\<close>, on top of the machines, the
    protections and the hub: the machine mirrors the latch, every request is reported, peers are told
    until they are reached.
  \<^item> \<open>Mpu\<close>: \<open>MPU.hpp\<close>, the placement of the buffers. \<open>Dma\<close>: \<open>DMA2.hpp\<close>, the assignment of the streams. \<open>Mdma\<close>: \<open>MDMA.cpp\<close>, the
    queue of the transfers. \<open>Gpio\<close>: \<open>GPIO.hpp\<close>, \<open>Pin.hpp\<close>, the digital inputs and outputs, \<open>EXTI.cpp\<close>. \<open>Adc\<close>: \<open>ADC.hpp\<close>. \<open>Spi\<close>: \<open>SPI2.hpp\<close>,
    \<open>SPIConfig.hpp\<close>, \<open>SPI2.cpp\<close>. In each, the first part is the computation of the compiler and the rest
    what runs on the chip.
  \<^item> \<open>Timers\<close>: \<open>TimerDomain.hpp\<close>, \<open>TimerDomain.cpp\<close>, the assignment of the timers in its three passes, the initialization, the
    interrupts, whose tables stay well formed, and the captures, which are measured against the counter of the timer the tests
    use (\<open>mocked_ll_tim.cpp\<close>). \<open>Outputs\<close>: \<open>TimerWrapper.hpp\<close>, \<open>PWM.hpp\<close>, \<open>DualPWM.hpp\<close>, \<open>InputCapture.hpp\<close>, \<open>Encoder.hpp\<close>, what a
    board does with the registers and channels of a timer it has: the outputs that run are those requested, and
    the channels do not disturb each other.
  \<^item> \<open>Board\<close>: \<open>ST-LIB.hpp\<close>, which composes pins, streams, digital inputs and outputs, converters and external
    interrupts; every device ends up with the pins, the slot and the interrupt it asked for.

  Interaction of the theories. \<open>StateMachine\<close> calls the scheduler through \<open>sm_ops\<close>; \<open>Fault\<close> uses \<open>StateMachine\<close>,
  \<open>Protections\<close>, \<open>Diagnostics\<close> and \<open>Rtc\<close>; \<open>Transport\<close> sends the records of \<open>Diagnostics\<close>; the sockets build and parse with \<open>Packets\<close> and
  \<open>Streams\<close>; \<open>Board\<close> composes \<open>Gpio\<close>, \<open>Dma\<close> and \<open>Adc\<close>; \<open>Spi\<close> adds its streams and pins to \<open>Dma\<close> and \<open>Gpio\<close>;
  \<open>Timers\<close> adds its pins to \<open>Gpio\<close>, and \<open>Outputs\<close> works on the registers of \<open>Timers\<close>.

  Bounds. No model takes fuel. The loops that are not structural have a measure; those of the scheduler (the
  timer interrupt and the run of the ready tasks, whose callbacks may call the scheduler) and the
  prescaler of an SPI, which need not end, are partial functions in the option monad, and theorems tell
  when they return.

  Not modelled. Registers and what the vendor's library does with them (FMAC, CORDIC, flash, watchdog, hard faults, the PHY drivers, the port of lwIP); arithmetic in floating point other
  than comparisons (control blocks, sensors, the conversion of a sample to volts), for which HOL's
  libraries have no faithful numbers; the older drivers (\<open>SPI.cpp\<close>, \<open>I2C.cpp\<close>, \<open>UART.cpp\<close>, \<open>FDCAN.cpp\<close>, the pins of \<open>PinModel\<close>) that the
  modelled domains replace; \<open>StackStateOrder\<close> and \<open>HeapStateOrder\<close>, which do not compile; the drivers that
  stand for the hardware in the tests. The SD card, the SNTP client and the filters of the DFSDM
  are left to be modelled; of the filters there are the streams they add. Of the timers, floating point is left out too
  (the dead time of a \<open>DualPWM\<close>, \<open>get_delta_clock\<close>), duty cycles being a parameter, and turning a \<open>DualPWM\<close> off, which does not
  compile where it is used. A
  callback that calls back into the component that runs it is modelled for the scheduler only. Two interrupts do not
  interleave inside an operation: an operation is one step.
\<close>

end
